(* ===== verification/Prelude.thy ===== *)
theory Prelude
  imports Main "HOL-Library.Char_ord" "HOL-Library.List_Lexorder" "HOL-Library.Product_Lexorder"
begin

text \<open>
  What every component of the development shares: the error type of the library crate
  (\<^verbatim>\<open>crates/camp-core/src/error.rs\<close>), results and the two loops over them, Rust strings as
  their UTF-8 bytes, decimal integers, and SQL tables as lists of rows.

  A fallible function returns \<open>core_error + 'a\<close>: \<open>Inl\<close> is Rust's \<open>Err\<close> and \<open>Inr\<close> its \<open>Ok\<close>.
  The text of a message is kept as the template of its \<open>format!\<close> with the arguments, unrendered.
\<close>

named_theorems row_simps \<open>column lookups after an update of a table\<close>
named_theorems str_simps \<open>evaluation of the string functions of the standard library\<close>

section \<open>Errors and results\<close>

datatype message = Msg string "string list"

datatype core_error =
    Sqlite string
  | Json string
  | Corrupt message
  | UnsupportedSchema int int
  | InvalidEventData string message
  | InvalidTransition string message
  | UnknownBead string
  | UnknownSession string
  | UnknownEventType string
  | Config message
  | UnknownRig string
  | InvalidPrefix string
  | InvalidSearchQuery string message
  | Pack message
  | UnknownAgent string "string list"
  | Cook message
  | Formula message
  | Order string message
  | Import string message
  | Export message
  | Backup message
  | UntranslatableOrders nat message

type_synonym 'a res = "core_error + 'a"

text \<open>Rust's \<open>?\<close>: hand the error on, or continue with the value.\<close>

definition rbind :: "'e + 'a \<Rightarrow> ('a \<Rightarrow> 'e + 'b) \<Rightarrow> 'e + 'b" where
  "rbind m f = (case m of Inl e \<Rightarrow> Inl e | Inr x \<Rightarrow> f x)"

lemma rbind_simps [simp]:
  "rbind (Inl e) f = Inl e"
  "rbind (Inr x) f = f x"
  by (simp_all add: rbind_def)

lemma rbind_eq_Inr [simp]: "rbind m f = Inr y \<longleftrightarrow> (\<exists>x. m = Inr x \<and> f x = Inr y)"
  by (cases m) simp_all

lemma rbind_eq_Inl: "rbind m f = Inl e \<longleftrightarrow> m = Inl e \<or> (\<exists>x. m = Inr x \<and> f x = Inl e)"
  by (cases m) auto

lemma rbind_cong [fundef_cong]:
  "m = m' \<Longrightarrow> (\<And>x. m' = Inr x \<Longrightarrow> f x = f' x) \<Longrightarrow> rbind m f = rbind m' f'"
  by (cases m') simp_all

text \<open>\<open>if cond { return Err(e) }\<close>, as a step of a chain.\<close>

definition ensure :: "bool \<Rightarrow> 'e \<Rightarrow> 'e + unit" where
  "ensure b e = (if b then Inr () else Inl e)"

lemma ensure_simps [simp]:
  "ensure b e = Inr u \<longleftrightarrow> b"
  "ensure b e = Inl e' \<longleftrightarrow> \<not> b \<and> e' = e"
  "ensure True e = Inr ()"
  "ensure False e = Inl e"
  by (auto simp: ensure_def)

text \<open>A loop whose body may fail with \<open>?\<close>, threading a state; and a fallible \<open>collect\<close>.\<close>

fun foldM :: "('s \<Rightarrow> 'a \<Rightarrow> 'e + 's) \<Rightarrow> 's \<Rightarrow> 'a list \<Rightarrow> 'e + 's" where
  "foldM f s [] = Inr s"
| "foldM f s (x # xs) = rbind (f s x) (\<lambda>s'. foldM f s' xs)"

fun mapM :: "('a \<Rightarrow> 'e + 'b) \<Rightarrow> 'a list \<Rightarrow> 'e + 'b list" where
  "mapM f [] = Inr []"
| "mapM f (x # xs) = rbind (f x) (\<lambda>y. rbind (mapM f xs) (\<lambda>ys. Inr (y # ys)))"

lemma foldM_append: "foldM f s (xs @ ys) = rbind (foldM f s xs) (\<lambda>s'. foldM f s' ys)"
proof (induction xs arbitrary: s)
  case (Cons x xs)
  then show ?case by (cases "f s x") simp_all
qed simp

lemma foldM_invariant:
  assumes "foldM f s xs = Inr t" and "P s"
    and "\<And>s x s'. x \<in> set xs \<Longrightarrow> P s \<Longrightarrow> f s x = Inr s' \<Longrightarrow> P s'"
  shows "P t"
  using assms
proof (induction xs arbitrary: s)
  case (Cons x xs)
  from Cons.prems(1) obtain s1 where s1: "f s x = Inr s1" and rest: "foldM f s1 xs = Inr t"
    by auto
  have "P s1" using Cons.prems(2,3) s1 by auto
  then show ?case using Cons.IH [OF rest] Cons.prems(3) by auto
qed simp

lemma mapM_Inr: "(\<And>x. x \<in> set xs \<Longrightarrow> f x = Inr (g x)) \<Longrightarrow> mapM f xs = Inr (map g xs)"
  by (induction xs) simp_all

lemma mapM_eq_Inr:
  "mapM f xs = Inr ys \<longleftrightarrow> length ys = length xs \<and> (\<forall>i < length xs. f (xs ! i) = Inr (ys ! i))"
proof (induction xs arbitrary: ys)
  case (Cons x xs)
  show ?case
  proof (cases ys)
    case Nil
    then show ?thesis by simp
  next
    case (Cons y zs)
    have "(\<forall>i < Suc (length xs). f ((x # xs) ! i) = Inr ((y # zs) ! i)) \<longleftrightarrow>
        f x = Inr y \<and> (\<forall>i < length xs. f (xs ! i) = Inr (zs ! i))"
      by (auto simp: less_Suc_eq_0_disj)
    with Cons show ?thesis using Cons.IH [of zs] by auto
  qed
qed auto

section \<open>Strings\<close>

text \<open>
  A Rust \<open>String\<close> is its UTF-8 bytes, so \<open>length\<close> counts bytes and the order of the library
  theory \<open>List_Lexorder\<close> is Rust's \<open>Ord\<close> and SQLite's \<open>BINARY\<close> collation.
  \<open>str::trim\<close> removes the characters with the Unicode property \<open>White_Space\<close>;
  \<open>skip_ws\<close> drops one such character, in its encoding, from the front.
\<close>

definition byte :: "char \<Rightarrow> nat" where
  "byte c = of_char c"

definition ascii_ws :: "nat \<Rightarrow> bool" where
  "ascii_ws b \<longleftrightarrow> 9 \<le> b \<and> b \<le> 13 \<or> b = 32"

definition ws2 :: "nat \<Rightarrow> nat \<Rightarrow> bool" where
  "ws2 a b \<longleftrightarrow> a = 194 \<and> (b = 133 \<or> b = 160)"

definition ws3 :: "nat \<Rightarrow> nat \<Rightarrow> nat \<Rightarrow> bool" where
  "ws3 a b c \<longleftrightarrow>
     a = 225 \<and> b = 154 \<and> c = 128 \<or>
     a = 226 \<and> b = 128 \<and> (128 \<le> c \<and> c \<le> 138 \<or> c = 168 \<or> c = 169 \<or> c = 175) \<or>
     a = 226 \<and> b = 129 \<and> c = 159 \<or>
     a = 227 \<and> b = 128 \<and> c = 128"

fun trim_start :: "string \<Rightarrow> string" where
  "trim_start [] = []"
| "trim_start [a] = (if ascii_ws (byte a) then [] else [a])"
| "trim_start [a, b] =
     (if ascii_ws (byte a) then trim_start [b]
      else if ws2 (byte a) (byte b) then [] else [a, b])"
| "trim_start (a # b # c # s) =
     (if ascii_ws (byte a) then trim_start (b # c # s)
      else if ws2 (byte a) (byte b) then trim_start (c # s)
      else if ws3 (byte a) (byte b) (byte c) then trim_start s
      else a # b # c # s)"

text \<open>\<open>s.trim().is_empty()\<close>: nothing but white space, whichever end it is removed from.\<close>

definition is_blank :: "string \<Rightarrow> bool" where
  "is_blank s \<longleftrightarrow> trim_start s = []"

lemma is_blank_Nil [simp]: "is_blank []"
  by (simp add: is_blank_def)

fun strip_prefix :: "string \<Rightarrow> string \<Rightarrow> string option" where
  "strip_prefix [] s = Some s"
| "strip_prefix (p # ps) [] = None"
| "strip_prefix (p # ps) (c # cs) = (if p = c then strip_prefix ps cs else None)"

lemma strip_prefix_iff: "strip_prefix p s = Some r \<longleftrightarrow> s = p @ r"
  by (induction p s rule: strip_prefix.induct) auto

lemma strip_prefix_append [simp]: "strip_prefix p (p @ r) = Some r"
  by (simp add: strip_prefix_iff)

definition starts_with :: "string \<Rightarrow> string \<Rightarrow> bool" where
  "starts_with p s \<longleftrightarrow> strip_prefix p s \<noteq> None"

lemma starts_with_iff: "starts_with p s \<longleftrightarrow> (\<exists>r. s = p @ r)"
  by (auto simp: starts_with_def strip_prefix_iff)

fun split_once :: "char \<Rightarrow> string \<Rightarrow> (string \<times> string) option" where
  "split_once d [] = None"
| "split_once d (c # cs) =
     (if c = d then Some ([], cs)
      else map_option (\<lambda>(a, b). (c # a, b)) (split_once d cs))"

lemma split_once_iff: "split_once d s = Some (a, b) \<longleftrightarrow> s = a @ d # b \<and> d \<notin> set a"
proof (induction s arbitrary: a)
  case (Cons c cs)
  show ?case
  proof (cases a)
    case Nil
    then show ?thesis by auto
  next
    case (Cons a1 as)
    then show ?thesis using Cons.IH [of as] by auto
  qed
qed simp

lemma split_once_None: "split_once d s = None \<longleftrightarrow> d \<notin> set s"
  by (induction s) auto

text \<open>\<open>str::split(c)\<close>: the pieces between the separators, empty ones included.\<close>

fun split_on :: "char \<Rightarrow> string \<Rightarrow> string list" where
  "split_on d [] = [[]]"
| "split_on d (c # cs) =
     (if c = d then [] # split_on d cs
      else (case split_on d cs of [] \<Rightarrow> [[c]] | w # ws \<Rightarrow> (c # w) # ws))"

section \<open>Decimal integers\<close>

definition is_digit :: "char \<Rightarrow> bool" where
  "is_digit c \<longleftrightarrow> 48 \<le> byte c \<and> byte c \<le> 57"

definition is_lower :: "char \<Rightarrow> bool" where
  "is_lower c \<longleftrightarrow> 97 \<le> byte c \<and> byte c \<le> 122"

definition digit_value :: "char \<Rightarrow> nat" where
  "digit_value c = byte c - 48"

definition digit_char :: "nat \<Rightarrow> char" where
  "digit_char n = char_of (48 + n)"

definition dec_value :: "string \<Rightarrow> nat" where
  "dec_value s = foldl (\<lambda>n c. 10 * n + digit_value c) 0 s"

fun show_nat :: "nat \<Rightarrow> string" where
  "show_nat n = (if n < 10 then [digit_char n] else show_nat (n div 10) @ [digit_char (n mod 10)])"

declare show_nat.simps [simp del]

definition show_int :: "int \<Rightarrow> string" where
  "show_int i = (if i < 0 then CHR ''-'' # show_nat (nat (- i)) else show_nat (nat i))"

definition i64_max :: int where
  "i64_max = 9223372036854775807"

definition i64_min :: int where
  "i64_min = - 9223372036854775808"

text \<open>Addition of two \<open>i64\<close> in a release build: two's complement, the carry dropped.\<close>

definition i64_wrap :: "int \<Rightarrow> int" where
  "i64_wrap i = (i - i64_min) mod 18446744073709551616 + i64_min"

lemma i64_wrap_id: "i64_min \<le> i \<Longrightarrow> i \<le> i64_max \<Longrightarrow> i64_wrap i = i"
  by (simp add: i64_wrap_def i64_min_def i64_max_def)

lemma i64_wrap_range: "i64_min \<le> i64_wrap i \<and> i64_wrap i \<le> i64_max"
proof -
  have "0 \<le> (i - i64_min) mod 18446744073709551616"
    and "(i - i64_min) mod 18446744073709551616 < 18446744073709551616"
    by simp_all
  then show ?thesis by (simp add: i64_wrap_def i64_min_def i64_max_def)
qed

text \<open>\<open>str::parse\<close> on an \<open>i64\<close>: an optional sign, at least one digit, nothing else, in range.\<close>

definition parse_i64 :: "string \<Rightarrow> int option" where
  "parse_i64 s =
     (let (neg, ds) =
        (case s of [] \<Rightarrow> (False, [])
         | c # cs \<Rightarrow> if c = CHR ''-'' then (True, cs)
                    else if c = CHR ''+'' then (False, cs) else (False, s))
      in if ds = [] \<or> \<not> list_all is_digit ds then None
         else let v = (if neg then - int (dec_value ds) else int (dec_value ds))
              in if i64_min \<le> v \<and> v \<le> i64_max then Some v else None)"

lemma byte_digit_char: "n < 10 \<Longrightarrow> byte (digit_char n) = 48 + n"
  by (simp add: byte_def digit_char_def)

lemma is_digit_digit_char [simp]: "n < 10 \<Longrightarrow> is_digit (digit_char n)"
  by (simp add: is_digit_def byte_digit_char)

lemma digit_value_digit_char [simp]: "n < 10 \<Longrightarrow> digit_value (digit_char n) = n"
  by (simp add: digit_value_def byte_digit_char)

lemma digit_char_value [simp]: "is_digit c \<Longrightarrow> digit_char (digit_value c) = c"
  by (simp add: is_digit_def digit_value_def digit_char_def byte_def)

lemma digit_char_0: "digit_char 0 = CHR ''0''"
  by (simp add: digit_char_def char_of_def bit_iff_odd)

lemma digit_char_eq_0: "n < 10 \<Longrightarrow> digit_char n = CHR ''0'' \<longleftrightarrow> n = 0"
  using digit_value_digit_char [of n] digit_value_digit_char [of 0] digit_char_0
  by (metis zero_less_numeral)

lemma dec_value_snoc [simp]: "dec_value (s @ [c]) = 10 * dec_value s + digit_value c"
  by (simp add: dec_value_def)

lemma dec_value_Nil [simp]: "dec_value [] = 0"
  by (simp add: dec_value_def)

lemma dec_value_show_nat [simp]: "dec_value (show_nat n) = n"
proof (induction n rule: show_nat.induct)
  case (1 n)
  then show ?case
    using dec_value_snoc [of "[]" "digit_char n"]
    by (subst show_nat.simps) (simp add: show_nat.simps)
qed

lemma show_nat_digits: "list_all is_digit (show_nat n)"
proof (induction n rule: show_nat.induct)
  case (1 n)
  then show ?case by (subst show_nat.simps) simp
qed

lemma show_nat_not_Nil [simp]: "show_nat n \<noteq> []"
  by (subst show_nat.simps) simp

lemma show_nat_canonical: "0 < n \<Longrightarrow> hd (show_nat n) \<noteq> CHR ''0''"
proof (induction n rule: show_nat.induct)
  case (1 n)
  show ?case
  proof (cases "n < 10")
    case True
    then show ?thesis using "1.prems" by (subst show_nat.simps) (simp add: digit_char_eq_0)
  next
    case False
    then have "hd (show_nat (n div 10)) \<noteq> CHR ''0''" using "1.IH" by simp
    then show ?thesis using False by (subst show_nat.simps) simp
  qed
qed

lemma length_show_nat: "1 < length (show_nat n) \<longleftrightarrow> 10 \<le> n"
  by (subst show_nat.simps) (simp add: Suc_lessI)

lemma show_nat_dec_value:
  assumes "list_all is_digit s" and "s \<noteq> []" and "1 < length s \<longrightarrow> hd s \<noteq> CHR ''0''"
  shows "show_nat (dec_value s) = s"
  using assms
proof (induction s rule: rev_induct)
  case (snoc c s)
  have c: "is_digit c" and c10: "digit_value c < 10"
    using snoc.prems(1) by (auto simp: is_digit_def digit_value_def)
  show ?case
  proof (cases "s = []")
    case True
    then show ?thesis using c c10 dec_value_snoc [of "[]" c]
      by (subst show_nat.simps) simp
  next
    case False
    have hd: "hd s \<noteq> CHR ''0''" using snoc.prems(3) False by (cases s) auto
    have IH: "show_nat (dec_value s) = s"
      using snoc.IH snoc.prems(1) False hd by simp
    have "dec_value s \<noteq> 0"
      using IH hd by (metis digit_char_0 list.sel(1) show_nat.simps zero_less_numeral)
    then show ?thesis using IH c c10 by (subst show_nat.simps) simp
  qed
qed simp

lemma parse_i64_digits:
  assumes "list_all is_digit s" and "s \<noteq> []"
  shows "parse_i64 s = (if int (dec_value s) \<le> i64_max then Some (int (dec_value s)) else None)"
proof -
  obtain c cs where s: "s = c # cs" using assms(2) by (cases s) auto
  with assms(1) have "is_digit c" by simp
  then have "c \<noteq> CHR ''-''" "c \<noteq> CHR ''+''" by (auto simp: is_digit_def byte_def)
  then show ?thesis using assms s by (simp add: parse_i64_def Let_def i64_min_def)
qed

section \<open>Tables\<close>

text \<open>
  A SQL table is the list of its rows. \<open>sql_update\<close> is \<open>UPDATE \<dots> SET f WHERE p\<close> under the
  table's \<open>CHECK\<close> constraint \<open>chk\<close>; it also gives the number of rows it changed.
  \<open>sql_insert\<close> is an \<open>INSERT\<close> under a primary key and a \<open>CHECK\<close>;
  \<open>sql_upsert\<close> is \<open>INSERT \<dots> ON CONFLICT (key) DO UPDATE\<close>.
\<close>

definition sql_insert :: "('r \<Rightarrow> 'k) \<Rightarrow> ('r \<Rightarrow> bool) \<Rightarrow> 'r \<Rightarrow> 'r list \<Rightarrow> core_error + 'r list" where
  "sql_insert key chk r rows =
     (if \<not> chk r then Inl (Sqlite ''CHECK constraint failed'')
      else if key r \<in> key ` set rows then Inl (Sqlite ''UNIQUE constraint failed'')
      else Inr (rows @ [r]))"

definition sql_update ::
    "('r \<Rightarrow> bool) \<Rightarrow> ('r \<Rightarrow> bool) \<Rightarrow> ('r \<Rightarrow> 'r) \<Rightarrow> 'r list \<Rightarrow> core_error + 'r list \<times> nat" where
  "sql_update chk p f rows =
     (if list_all (\<lambda>r. p r \<longrightarrow> chk (f r)) rows
      then Inr (map (\<lambda>r. if p r then f r else r) rows, length (filter p rows))
      else Inl (Sqlite ''CHECK constraint failed''))"

definition sql_upsert :: "('r \<Rightarrow> 'k) \<Rightarrow> ('r \<Rightarrow> 'r) \<Rightarrow> 'r \<Rightarrow> 'r list \<Rightarrow> 'r list" where
  "sql_upsert key f r rows =
     (if key r \<in> key ` set rows then map (\<lambda>x. if key x = key r then f x else x) rows
      else rows @ [r])"

text \<open>\<open>query_row \<dots> .optional()\<close>: the first row that matches, if any.\<close>

definition sql_find :: "('r \<Rightarrow> bool) \<Rightarrow> 'r list \<Rightarrow> 'r option" where
  "sql_find p rows = find p rows"

lemma sql_find_None: "sql_find p rows = None \<longleftrightarrow> (\<forall>r \<in> set rows. \<not> p r)"
  by (auto simp: sql_find_def find_None_iff)

lemma sql_find_SomeD: "sql_find p rows = Some r \<Longrightarrow> r \<in> set rows \<and> p r"
  by (auto simp: sql_find_def find_Some_iff)

end
