(* ===== verification/Vocab.thy ===== *)
theory Vocab
  imports Prelude
begin

text \<open>
  The closed vocabularies: the event types (\<^verbatim>\<open>crates/camp-core/src/event.rs\<close>), the two halves
  of the event-name mirror, the words a payload may carry and the causes of a failed control
  request (\<^verbatim>\<open>crates/camp-core/src/vocab.rs\<close>). A closed vocabulary is an enumeration with a spelling;
  the locale \<open>vocabulary\<close> proves once that parsing a spelling and printing a value are inverse.
\<close>

section \<open>The contract of a closed vocabulary\<close>

locale vocabulary =
  fixes all_values :: "'a list"
    and spell :: "'a \<Rightarrow> string"
  assumes complete: "k \<in> set all_values"
    and spell_distinct: "distinct (map spell all_values)"
begin

lemma spell_inj: "spell a = spell b \<Longrightarrow> a = b"
  using spell_distinct complete by (metis distinct_map inj_onD)

lemma find_spell: "find (\<lambda>k. spell k = spell a) all_values = Some a"
proof -
  have "find (\<lambda>k. spell k = spell a) all_values \<noteq> None"
    using complete by (auto simp: find_None_iff)
  then obtain b where b: "find (\<lambda>k. spell k = spell a) all_values = Some b" by auto
  then have "spell b = spell a" by (auto simp: find_Some_iff)
  then show ?thesis using b spell_inj by simp
qed

lemma find_Some_spell:
  "find (\<lambda>k. spell k = s) all_values = Some a \<longleftrightarrow> spell a = s"
  using find_spell by (auto simp: find_Some_iff)

lemma find_None_spell:
  "find (\<lambda>k. spell k = s) all_values = None \<longleftrightarrow> s \<notin> range spell"
  using complete by (auto simp: find_None_iff)

end

section \<open>Event types\<close>

datatype event_type =
    BeadCreated
  | BeadClaimed
  | BeadUpdated
  | BeadClosed
  | SessionWoke
  | SessionPid
  | SessionStopped
  | SessionCrashed
  | SessionNudged
  | CampdStarted
  | CampdStopped
  | CampdAutostarted
  | RigAdded
  | RunCooked
  | OrderFired
  | OrderCompleted
  | OrderFailed
  | ConfigChanged
  | WorkerMilestone
  | WorktreeKept
  | BeadWorktreeReaped
  | DispatchFailed
  | DispatchLiveTree
  | DispatchRearmed
  | CheckPassed
  | CheckFailed
  | RunFinalized
  | AgentStalled
  | PatrolDegraded
  | SessionStreamCapped
  | SessionInterrupted
  | ControlResponded
  | ControlFailed
  | SubscriberDropped
  | ImportAdded
  | ImportRefused
  | FormulaRefused
  | ShimRefused
  | WorkerDrainAcked
  | PermissionPending
  | PermissionDecided
  | PermissionSaturated

definition event_type_ALL :: "event_type list" where
  "event_type_ALL =
    [BeadCreated,
     BeadClaimed,
     BeadUpdated,
     BeadClosed,
     SessionWoke,
     SessionPid,
     SessionStopped,
     SessionCrashed,
     SessionNudged,
     CampdStarted,
     CampdStopped,
     CampdAutostarted,
     RigAdded,
     RunCooked,
     OrderFired,
     OrderCompleted,
     OrderFailed,
     ConfigChanged,
     WorkerMilestone,
     WorktreeKept,
     BeadWorktreeReaped,
     DispatchFailed,
     DispatchLiveTree,
     DispatchRearmed,
     CheckPassed,
     CheckFailed,
     RunFinalized,
     AgentStalled,
     PatrolDegraded,
     SessionStreamCapped,
     SessionInterrupted,
     ControlResponded,
     ControlFailed,
     SubscriberDropped,
     ImportAdded,
     ImportRefused,
     FormulaRefused,
     ShimRefused,
     WorkerDrainAcked,
     PermissionPending,
     PermissionDecided,
     PermissionSaturated]"

fun as_str :: "event_type \<Rightarrow> string" where
  "as_str BeadCreated = ''bead.created''"
| "as_str BeadClaimed = ''bead.claimed''"
| "as_str BeadUpdated = ''bead.updated''"
| "as_str BeadClosed = ''bead.closed''"
| "as_str SessionWoke = ''session.woke''"
| "as_str SessionPid = ''session.pid''"
| "as_str SessionStopped = ''session.stopped''"
| "as_str SessionCrashed = ''session.crashed''"
| "as_str SessionNudged = ''session.nudged''"
| "as_str CampdStarted = ''campd.started''"
| "as_str CampdStopped = ''campd.stopped''"
| "as_str CampdAutostarted = ''campd.autostarted''"
| "as_str RigAdded = ''rig.added''"
| "as_str RunCooked = ''run.cooked''"
| "as_str OrderFired = ''order.fired''"
| "as_str OrderCompleted = ''order.completed''"
| "as_str OrderFailed = ''order.failed''"
| "as_str ConfigChanged = ''config.changed''"
| "as_str WorkerMilestone = ''worker.milestone''"
| "as_str WorktreeKept = ''worktree.kept''"
| "as_str BeadWorktreeReaped = ''bead.worktree.reaped''"
| "as_str DispatchFailed = ''dispatch.failed''"
| "as_str DispatchLiveTree = ''dispatch.live_tree''"
| "as_str DispatchRearmed = ''dispatch.rearmed''"
| "as_str CheckPassed = ''check.passed''"
| "as_str CheckFailed = ''check.failed''"
| "as_str RunFinalized = ''run.finalized''"
| "as_str AgentStalled = ''agent.stalled''"
| "as_str PatrolDegraded = ''patrol.degraded''"
| "as_str SessionStreamCapped = ''session.stream_capped''"
| "as_str SessionInterrupted = ''session.interrupted''"
| "as_str ControlResponded = ''control.responded''"
| "as_str ControlFailed = ''control.failed''"
| "as_str SubscriberDropped = ''subscriber.dropped''"
| "as_str ImportAdded = ''import.added''"
| "as_str ImportRefused = ''import.refused''"
| "as_str FormulaRefused = ''formula.refused''"
| "as_str ShimRefused = ''shim.refused''"
| "as_str WorkerDrainAcked = ''worker.drain_acked''"
| "as_str PermissionPending = ''permission.pending''"
| "as_str PermissionDecided = ''permission.decided''"
| "as_str PermissionSaturated = ''permission.saturated''"

text \<open>\<open>EventType::parse\<close>.\<close>

definition parse_event_type :: "string \<Rightarrow> event_type res" where
  "parse_event_type s =
     (case find (\<lambda>k. as_str k = s) event_type_ALL of
        Some k \<Rightarrow> Inr k
      | None \<Rightarrow> Inl (UnknownEventType s))"

interpretation event_vocabulary: vocabulary event_type_ALL as_str
proof
  show "k \<in> set event_type_ALL" for k
    by (cases k) (simp_all add: event_type_ALL_def)
  show "distinct (map as_str event_type_ALL)"
    by (simp add: event_type_ALL_def)
qed

lemma parse_as_str [simp]: "parse_event_type (as_str k) = Inr k"
  by (simp add: parse_event_type_def event_vocabulary.find_spell)

section \<open>The mirror of Gas City's event names\<close>

definition GC_MIRRORED_EVENTS :: "string list" where
  "GC_MIRRORED_EVENTS =
    [''bead.created'',
     ''bead.updated'',
     ''bead.closed'',
     ''session.woke'',
     ''session.stopped'',
     ''session.crashed'',
     ''order.fired'',
     ''order.completed'',
     ''order.failed'',
     ''bead.worktree.reaped'']"

definition CAMP_SPECIFIC_EVENTS :: "string list" where
  "CAMP_SPECIFIC_EVENTS =
    [''bead.claimed'',
     ''campd.started'',
     ''campd.stopped'',
     ''campd.autostarted'',
     ''config.changed'',
     ''rig.added'',
     ''run.cooked'',
     ''worker.milestone'',
     ''worktree.kept'',
     ''dispatch.failed'',
     ''dispatch.live_tree'',
     ''dispatch.rearmed'',
     ''check.passed'',
     ''check.failed'',
     ''run.finalized'',
     ''agent.stalled'',
     ''patrol.degraded'',
     ''session.stream_capped'',
     ''session.nudged'',
     ''session.pid'',
     ''session.interrupted'',
     ''control.responded'',
     ''control.failed'',
     ''subscriber.dropped'',
     ''import.added'',
     ''import.refused'',
     ''formula.refused'',
     ''shim.refused'',
     ''worker.drain_acked'',
     ''permission.pending'',
     ''permission.decided'',
     ''permission.saturated'']"

text \<open>\<open>str::contains\<close>, for the naming law.\<close>

fun contains :: "string \<Rightarrow> string \<Rightarrow> bool" where
  "contains p [] = (p = [])"
| "contains p (c # cs) = (starts_with p (c # cs) \<or> contains p cs)"

section \<open>The words of the payloads\<close>

definition BEAD_TYPES :: "string list" where
  "BEAD_TYPES = [''task'', ''mail'', ''memory'']"

definition CAMP_OUTCOMES :: "string list" where
  "CAMP_OUTCOMES = [''pass'', ''fail'', ''skipped'']"

definition CAMP_WORK_OUTCOMES :: "string list" where
  "CAMP_WORK_OUTCOMES = [''shipped'', ''no-op'', ''blocked'', ''abandoned'']"

definition CAMP_FINAL_DISPOSITIONS :: "string list" where
  "CAMP_FINAL_DISPOSITIONS = [''hard_fail'', ''soft_fail'']"

definition CAMP_RUN_DISPOSITIONS :: "string list" where
  "CAMP_RUN_DISPOSITIONS = [''pass'', ''hard_fail'', ''soft_fail'']"

definition CAMP_FAILURE_CLASSES :: "string list" where
  "CAMP_FAILURE_CLASSES = [''transient'']"

definition STALL_ACTIONS :: "string list" where
  "STALL_ACTIONS = [''nudge'', ''nudge_failed'', ''restart'', ''exhausted'', ''annotate'']"

definition NUDGE_VIAS :: "string list" where
  "NUDGE_VIAS = [''stdin'', ''resume'']"

definition PERMISSION_DECISIONS :: "string list" where
  "PERMISSION_DECISIONS = [''allow'', ''allow_always'', ''deny'']"

section \<open>Why a control request failed\<close>

datatype control_failure_cause =
    SilenceTimeout
  | CeilingTimeout
  | SessionEnded
  | WriteFailed
  | UnknownRequest
  | Unparsable
  | DialogRefused
  | PermissionUnanswerable

definition cause_ALL :: "control_failure_cause list" where
  "cause_ALL =
    [SilenceTimeout,
     CeilingTimeout,
     SessionEnded,
     WriteFailed,
     UnknownRequest,
     Unparsable,
     DialogRefused,
     PermissionUnanswerable]"

fun ordinal :: "control_failure_cause \<Rightarrow> nat" where
  "ordinal SilenceTimeout = 0"
| "ordinal CeilingTimeout = 1"
| "ordinal SessionEnded = 2"
| "ordinal WriteFailed = 3"
| "ordinal UnknownRequest = 4"
| "ordinal Unparsable = 5"
| "ordinal DialogRefused = 6"
| "ordinal PermissionUnanswerable = 7"

fun cause_as_str :: "control_failure_cause \<Rightarrow> string" where
  "cause_as_str SilenceTimeout = ''silence_timeout''"
| "cause_as_str CeilingTimeout = ''ceiling_timeout''"
| "cause_as_str SessionEnded = ''session_ended''"
| "cause_as_str WriteFailed = ''write_failed''"
| "cause_as_str UnknownRequest = ''unknown_request''"
| "cause_as_str Unparsable = ''unparsable''"
| "cause_as_str DialogRefused = ''dialog_refused''"
| "cause_as_str PermissionUnanswerable = ''permission_unanswerable''"

definition parse_cause :: "string \<Rightarrow> control_failure_cause option" where
  "parse_cause s = find (\<lambda>c. cause_as_str c = s) cause_ALL"

fun is_terminal :: "control_failure_cause \<Rightarrow> bool" where
  "is_terminal SilenceTimeout = False"
| "is_terminal CeilingTimeout = False"
| "is_terminal SessionEnded = True"
| "is_terminal WriteFailed = True"
| "is_terminal UnknownRequest = True"
| "is_terminal Unparsable = True"
| "is_terminal DialogRefused = True"
| "is_terminal PermissionUnanswerable = True"

interpretation cause_vocabulary: vocabulary cause_ALL cause_as_str
proof
  show "k \<in> set cause_ALL" for k
    by (cases k) (simp_all add: cause_ALL_def)
  show "distinct (map cause_as_str cause_ALL)"
    by (simp add: cause_ALL_def)
qed

lemma parse_cause_iff: "parse_cause s = Some c \<longleftrightarrow> cause_as_str c = s"
  by (simp add: parse_cause_def cause_vocabulary.find_Some_spell)

lemma parse_cause_None: "parse_cause s = None \<longleftrightarrow> s \<notin> range cause_as_str"
  by (simp add: parse_cause_def cause_vocabulary.find_None_spell)

section \<open>Properties\<close>

text \<open>
  Event names and event types are in bijection: parsing a name succeeds exactly on the spelling
  of a type, gives that type, and any other name is the error \<open>UnknownEventType\<close>.
\<close>

theorem parse_event_type_exact:
  "(parse_event_type s = Inr k \<longleftrightarrow> s = as_str k) \<and>
   (s \<notin> range as_str \<longleftrightarrow> parse_event_type s = Inl (UnknownEventType s))"
proof (cases "find (\<lambda>k. as_str k = s) event_type_ALL")
  case None
  then have "s \<notin> range as_str" unfolding event_vocabulary.find_None_spell .
  then show ?thesis using None unfolding parse_event_type_def by (metis Inl_Inr_False option.simps(4) rangeI)
next
  case (Some a)
  then have a: "as_str a = s" unfolding event_vocabulary.find_Some_spell .
  then have "parse_event_type s = Inr a" using Some unfolding parse_event_type_def by simp
  then show ?thesis using a event_vocabulary.spell_inj by (metis Inl_Inr_False Inr_inject rangeI)
qed

text \<open>
  The vocabulary of events is the disjoint union of the names mirrored from Gas City and the
  names of camp's own, each listed once; the failure causes of the control plane parse back from
  their spelling, in the order of their ordinals.
\<close>

theorem event_names_partition:
  "set (map as_str event_type_ALL) = set GC_MIRRORED_EVENTS \<union> set CAMP_SPECIFIC_EVENTS \<and>
   set GC_MIRRORED_EVENTS \<inter> set CAMP_SPECIFIC_EVENTS = {} \<and>
   length event_type_ALL = length GC_MIRRORED_EVENTS + length CAMP_SPECIFIC_EVENTS \<and>
   map ordinal cause_ALL = [0..<length cause_ALL] \<and>
   (parse_cause s = Some c \<longleftrightarrow> cause_as_str c = s)"
proof (intro conjI)
  show "set (map as_str event_type_ALL) = set GC_MIRRORED_EVENTS \<union> set CAMP_SPECIFIC_EVENTS" by code_simp
  show "set GC_MIRRORED_EVENTS \<inter> set CAMP_SPECIFIC_EVENTS = {}" by code_simp
  show "length event_type_ALL = length GC_MIRRORED_EVENTS + length CAMP_SPECIFIC_EVENTS" by code_simp
  show "map ordinal cause_ALL = [0..<length cause_ALL]" by code_simp
  show "parse_cause s = Some c \<longleftrightarrow> cause_as_str c = s" by (rule parse_cause_iff)
qed

end
