(* ===== verification/Schema.thy ===== *)
theory Schema
  imports Vocab
begin

text \<open>
  The state tables of \<^verbatim>\<open>camp.db\<close> (\<open>STATE_DDL\<close> in
  \<^verbatim>\<open>crates/camp-core/src/ledger/schema.rs\<close>): one record per table with the columns the DDL
  gives, the record \<open>state\<close> of all of them, the \<open>CHECK\<close> and foreign-key constraints, and the
  writes the fold issues. A nullable column is an \<open>option\<close>. A column whose \<open>CHECK\<close> fixes a
  closed set of words that only the code itself writes (the three \<open>status\<close> columns and
  \<open>search.kind\<close>) is a datatype; the others keep the words of the payload and the \<open>CHECK\<close>.
\<close>

section \<open>Rows\<close>

datatype bead_status = Open | InProgress | Closed

fun bead_status_str :: "bead_status \<Rightarrow> string" where
  "bead_status_str Open = ''open''"
| "bead_status_str InProgress = ''in_progress''"
| "bead_status_str Closed = ''closed''"

datatype session_status = Live | Stopped | Crashed

fun session_status_str :: "session_status \<Rightarrow> string" where
  "session_status_str Live = ''live''"
| "session_status_str Stopped = ''stopped''"
| "session_status_str Crashed = ''crashed''"

datatype permission_status = Pending | Decided

datatype search_kind = Body | Close

record bead =
  b_id :: string
  b_rig :: string
  b_type :: string
  b_title :: string
  b_description :: string
  b_status :: bead_status
  b_assignee :: "string option"
  b_claimed_by :: "string option"
  b_outcome :: "string option"
  b_close_reason :: "string option"
  b_work_outcome :: "string option"
  b_work_commit :: "string option"
  b_work_branch :: "string option"
  b_final_disposition :: "string option"
  b_dispatch_failure :: "string option"
  b_labels :: string
  b_run_id :: "string option"
  b_step_id :: "string option"
  b_created_ts :: string
  b_updated_ts :: string
  b_closed_ts :: "string option"

record meta_row =
  m_bead :: string
  m_key :: string
  m_value :: string

record dep_row =
  d_bead :: string
  d_needs :: string

record session =
  s_name :: string
  s_agent :: string
  s_rig :: "string option"
  s_claude_session_id :: "string option"
  s_transcript_path :: "string option"
  s_pid :: "int option"
  s_status :: session_status
  s_bead :: "string option"
  s_spawned_ts :: string
  s_ended_ts :: "string option"

record search_row =
  sr_bead :: string
  sr_kind :: search_kind
  sr_content :: string

record counter_row =
  c_prefix :: string
  c_high :: int

record permission =
  p_request_id :: string
  p_session :: string
  p_tool_name :: string
  p_status :: permission_status
  p_decision :: "string option"
  p_decided_by :: "string option"
  p_requested_ts :: string
  p_decided_ts :: "string option"

record state =
  beads :: "bead list"
  bead_meta :: "meta_row list"
  deps :: "dep_row list"
  sessions :: "session list"
  search :: "search_row list"
  counters :: "counter_row list"
  permissions :: "permission list"

definition empty_state :: state where
  "empty_state = \<lparr>beads = [], bead_meta = [], deps = [], sessions = [], search = [],
                  counters = [], permissions = []\<rparr>"

section \<open>Constraints\<close>

text \<open>\<open>CHECK (col IN (\<dots>))\<close>: SQL's three-valued logic lets \<open>NULL\<close> pass.\<close>

definition check_in :: "string list \<Rightarrow> string option \<Rightarrow> bool" where
  "check_in vs x = (case x of None \<Rightarrow> True | Some v \<Rightarrow> v \<in> set vs)"

definition beads_check :: "bead \<Rightarrow> bool" where
  "beads_check b \<longleftrightarrow>
     check_in [''pass'', ''fail'', ''skipped''] (b_outcome b) \<and>
     check_in [''shipped'', ''no-op'', ''blocked'', ''abandoned''] (b_work_outcome b) \<and>
     check_in [''hard_fail'', ''soft_fail''] (b_final_disposition b)"

definition permissions_check :: "permission \<Rightarrow> bool" where
  "permissions_check p \<longleftrightarrow> check_in [''allow'', ''allow_always'', ''deny''] (p_decision p)"

text \<open>The primary keys. \<open>search\<close> is an FTS5 virtual table and has none.\<close>

definition meta_key :: "meta_row \<Rightarrow> string \<times> string" where
  "meta_key m = (m_bead m, m_key m)"

definition dep_key :: "dep_row \<Rightarrow> string \<times> string" where
  "dep_key d = (d_bead d, d_needs d)"

section \<open>Writes\<close>

definition insert_bead :: "bead \<Rightarrow> state \<Rightarrow> state res" where
  "insert_bead b st =
     rbind (sql_insert b_id beads_check b (beads st)) (\<lambda>rows. Inr (st\<lparr>beads := rows\<rparr>))"

definition update_beads :: "(bead \<Rightarrow> bool) \<Rightarrow> (bead \<Rightarrow> bead) \<Rightarrow> state \<Rightarrow> state res" where
  "update_beads p f st =
     rbind (sql_update beads_check p f (beads st)) (\<lambda>(rows, _). Inr (st\<lparr>beads := rows\<rparr>))"

text \<open>\<open>INSERT OR IGNORE INTO deps\<close>, with the number of rows inserted. \<open>OR IGNORE\<close> skips a
  duplicate key; it does not cover the foreign key.\<close>

definition insert_dep :: "string \<Rightarrow> string \<Rightarrow> state \<Rightarrow> (state \<times> nat) res" where
  "insert_dep b n st =
     (if (b, n) \<in> dep_key ` set (deps st) then Inr (st, 0)
      else if b \<notin> b_id ` set (beads st) then Inl (Sqlite ''FOREIGN KEY constraint failed'')
      else Inr (st\<lparr>deps := deps st @ [\<lparr>d_bead = b, d_needs = n\<rparr>]\<rparr>, 1))"

definition upsert_meta :: "string \<Rightarrow> string \<Rightarrow> string \<Rightarrow> state \<Rightarrow> state res" where
  "upsert_meta b k v st =
     (if b \<notin> b_id ` set (beads st) then Inl (Sqlite ''FOREIGN KEY constraint failed'')
      else Inr (st\<lparr>bead_meta :=
             sql_upsert meta_key (\<lambda>m. m\<lparr>m_value := v\<rparr>) \<lparr>m_bead = b, m_key = k, m_value = v\<rparr>
               (bead_meta st)\<rparr>))"

definition delete_meta :: "string \<Rightarrow> string \<Rightarrow> state \<Rightarrow> state" where
  "delete_meta b k st =
     st\<lparr>bead_meta := filter (\<lambda>m. \<not> (m_bead m = b \<and> m_key m = k)) (bead_meta st)\<rparr>"

definition insert_search :: "string \<Rightarrow> search_kind \<Rightarrow> string \<Rightarrow> state \<Rightarrow> state" where
  "insert_search b k c st =
     st\<lparr>search := search st @ [\<lparr>sr_bead = b, sr_kind = k, sr_content = c\<rparr>]\<rparr>"

definition insert_session :: "session \<Rightarrow> state \<Rightarrow> state res" where
  "insert_session s st =
     rbind (sql_insert s_name (\<lambda>_. True) s (sessions st)) (\<lambda>rows. Inr (st\<lparr>sessions := rows\<rparr>))"

definition update_sessions ::
    "(session \<Rightarrow> bool) \<Rightarrow> (session \<Rightarrow> session) \<Rightarrow> state \<Rightarrow> (state \<times> nat) res" where
  "update_sessions p f st =
     rbind (sql_update (\<lambda>_. True) p f (sessions st))
       (\<lambda>(rows, n). Inr (st\<lparr>sessions := rows\<rparr>, n))"

definition insert_permission :: "permission \<Rightarrow> state \<Rightarrow> state res" where
  "insert_permission p st =
     rbind (sql_insert p_request_id permissions_check p (permissions st))
       (\<lambda>rows. Inr (st\<lparr>permissions := rows\<rparr>))"

definition update_permissions ::
    "(permission \<Rightarrow> bool) \<Rightarrow> (permission \<Rightarrow> permission) \<Rightarrow> state \<Rightarrow> (state \<times> nat) res" where
  "update_permissions p f st =
     rbind (sql_update permissions_check p f (permissions st))
       (\<lambda>(rows, n). Inr (st\<lparr>permissions := rows\<rparr>, n))"

section \<open>Reads by primary key\<close>

definition bead_at :: "state \<Rightarrow> string \<Rightarrow> bead option" where
  "bead_at st i = sql_find (\<lambda>b. b_id b = i) (beads st)"

definition session_at :: "state \<Rightarrow> string \<Rightarrow> session option" where
  "session_at st n = sql_find (\<lambda>s. s_name s = n) (sessions st)"

definition permission_at :: "state \<Rightarrow> string \<Rightarrow> permission option" where
  "permission_at st r = sql_find (\<lambda>p. p_request_id p = r) (permissions st)"

definition meta_at :: "state \<Rightarrow> string \<Rightarrow> string \<Rightarrow> string option" where
  "meta_at st b k =
     map_option m_value (sql_find (\<lambda>m. m_bead m = b \<and> m_key m = k) (bead_meta st))"

definition counter_at :: "state \<Rightarrow> string \<Rightarrow> int option" where
  "counter_at st p = map_option c_high (sql_find (\<lambda>c. c_prefix c = p) (counters st))"

section \<open>A table of the state\<close>

text \<open>
  Every keyed table is the same thing at another place of the state: rows with a primary key
  and a \<open>CHECK\<close>. The locale states what a place of the state promises (reading after writing)
  and what its key promises; its lemmas say what the SQL statements do to the invariant
  \<open>table_ok\<close> and to a read by key.
\<close>

definition table_ok :: "('r \<Rightarrow> 'k) \<Rightarrow> ('r \<Rightarrow> bool) \<Rightarrow> 'r list \<Rightarrow> bool" where
  "table_ok key chk rows \<longleftrightarrow> distinct (map key rows) \<and> list_all chk rows"

locale state_table =
  fixes key :: "'r \<Rightarrow> 'k"
    and chk :: "'r \<Rightarrow> bool"
    and rows :: "'s \<Rightarrow> 'r list"
    and put :: "'r list \<Rightarrow> 's \<Rightarrow> 's"
  assumes rows_put: "rows (put rs s) = rs"
    and put_rows: "put (rows s) s = s"
    and put_put: "put rs (put rs' s) = put rs s"
begin

lemma insert_ok:
  assumes "table_ok key chk (rows s)" and "sql_insert key chk r (rows s) = Inr rs"
  shows "table_ok key chk (rows (put rs s))"
  using assms by (auto simp: sql_insert_def table_ok_def rows_put split: if_splits)

lemma update_ok:
  assumes "table_ok key chk (rows s)" and "sql_update chk p f (rows s) = Inr (rs, n)"
    and "\<And>r. p r \<Longrightarrow> key (f r) = key r"
  shows "table_ok key chk (rows (put rs s))"
proof -
  have rs: "rs = map (\<lambda>r. if p r then f r else r) (rows s)"
    and chk: "list_all (\<lambda>r. p r \<longrightarrow> chk (f r)) (rows s)"
    using assms(2) by (auto simp: sql_update_def split: if_splits)
  have "map key rs = map key (rows s)"
    using assms(3) by (simp add: rs)
  moreover have "list_all chk rs"
    using assms(1) chk by (auto simp: rs table_ok_def list_all_iff)
  ultimately show ?thesis using assms(1) by (simp add: table_ok_def rows_put)
qed

lemma find_in_table:
  assumes "table_ok key chk (rows s)"
  shows "sql_find (\<lambda>r. key r = k) (rows s) = Some r \<longleftrightarrow> r \<in> set (rows s) \<and> key r = k"
proof
  assume "sql_find (\<lambda>r. key r = k) (rows s) = Some r"
  then show "r \<in> set (rows s) \<and> key r = k" by (auto dest: sql_find_SomeD)
next
  assume r: "r \<in> set (rows s) \<and> key r = k"
  then have "sql_find (\<lambda>r. key r = k) (rows s) \<noteq> None"
    by (auto simp: sql_find_None)
  then obtain r' where r': "sql_find (\<lambda>r. key r = k) (rows s) = Some r'"
    by auto
  then have "r' \<in> set (rows s) \<and> key r' = k" by (auto dest: sql_find_SomeD)
  moreover have "inj_on key (set (rows s))"
    using assms by (simp add: table_ok_def distinct_map)
  ultimately have "r' = r"
    using r by (auto dest: inj_onD)
  with r' show "sql_find (\<lambda>r. key r = k) (rows s) = Some r" by simp
qed

lemma find_after_update:
  assumes "\<And>r. p r \<Longrightarrow> key (f r) = key r"
  shows "sql_find (\<lambda>r. key r = k) (rows (put (map (\<lambda>r. if p r then f r else r) (rows s)) s))
       = map_option (\<lambda>r. if p r then f r else r) (sql_find (\<lambda>r. key r = k) (rows s))"
proof -
  have *: "find (\<lambda>r. key r = k) (map (\<lambda>r. if p r then f r else r) xs)
      = map_option (\<lambda>r. if p r then f r else r) (find (\<lambda>r. key r = k) xs)" for xs
    using assms by (induction xs) auto
  show ?thesis by (simp add: sql_find_def rows_put *)
qed

lemma find_after_append:
  "sql_find (\<lambda>r. key r = k) (rows (put (rows s @ [r]) s))
     = (case sql_find (\<lambda>r. key r = k) (rows s) of
          Some r' \<Rightarrow> Some r' | None \<Rightarrow> if key r = k then Some r else None)"
proof -
  have *: "find (\<lambda>r. key r = k) (xs @ [r])
      = (case find (\<lambda>r. key r = k) xs of
           Some r' \<Rightarrow> Some r' | None \<Rightarrow> if key r = k then Some r else None)" for xs
    by (induction xs) auto
  show ?thesis by (simp add: sql_find_def rows_put *)
qed

end

interpretation bead_table: state_table b_id beads_check beads "\<lambda>rs st. st\<lparr>beads := rs\<rparr>"
  by unfold_locales simp_all

interpretation session_table:
  state_table s_name "\<lambda>_. True" sessions "\<lambda>rs st. st\<lparr>sessions := rs\<rparr>"
  by unfold_locales simp_all

interpretation permission_table:
  state_table p_request_id permissions_check permissions "\<lambda>rs st. st\<lparr>permissions := rs\<rparr>"
  by unfold_locales simp_all

interpretation meta_table: state_table meta_key "\<lambda>_. True" bead_meta "\<lambda>rs st. st\<lparr>bead_meta := rs\<rparr>"
  by unfold_locales simp_all

interpretation dep_table: state_table dep_key "\<lambda>_. True" deps "\<lambda>rs st. st\<lparr>deps := rs\<rparr>"
  by unfold_locales simp_all

interpretation counter_table:
  state_table c_prefix "\<lambda>_. True" counters "\<lambda>rs st. st\<lparr>counters := rs\<rparr>"
  by unfold_locales simp_all

section \<open>What a successful write did\<close>

lemma update_beads_Inr [simp]:
  "update_beads p f st = Inr st' \<longleftrightarrow>
     (\<forall>b \<in> set (beads st). p b \<longrightarrow> beads_check (f b)) \<and>
     st' = st\<lparr>beads := map (\<lambda>b. if p b then f b else b) (beads st)\<rparr>"
  by (auto simp: update_beads_def sql_update_def list_all_iff)

lemma insert_bead_Inr [simp]:
  "insert_bead b st = Inr st' \<longleftrightarrow>
     beads_check b \<and> b_id b \<notin> b_id ` set (beads st) \<and> st' = st\<lparr>beads := beads st @ [b]\<rparr>"
  by (auto simp: insert_bead_def sql_insert_def)

lemma insert_dep_Inr:
  "insert_dep b n st = Inr (st', k) \<longleftrightarrow>
     (if (b, n) \<in> dep_key ` set (deps st) then k = 0 \<and> st' = st
      else b \<in> b_id ` set (beads st) \<and> k = 1 \<and>
           st' = st\<lparr>deps := deps st @ [\<lparr>d_bead = b, d_needs = n\<rparr>]\<rparr>)"
  by (auto simp: insert_dep_def)

lemma upsert_meta_Inr:
  "upsert_meta b k v st = Inr st' \<longleftrightarrow>
     b \<in> b_id ` set (beads st) \<and>
     st' = st\<lparr>bead_meta := sql_upsert meta_key (\<lambda>m. m\<lparr>m_value := v\<rparr>)
              \<lparr>m_bead = b, m_key = k, m_value = v\<rparr> (bead_meta st)\<rparr>"
  by (auto simp: upsert_meta_def)

lemma insert_session_Inr [simp]:
  "insert_session s st = Inr st' \<longleftrightarrow>
     s_name s \<notin> s_name ` set (sessions st) \<and> st' = st\<lparr>sessions := sessions st @ [s]\<rparr>"
  by (auto simp: insert_session_def sql_insert_def)

lemma update_sessions_eq [simp]:
  "update_sessions p f st =
     Inr (st\<lparr>sessions := map (\<lambda>s. if p s then f s else s) (sessions st)\<rparr>,
          length (filter p (sessions st)))"
  by (simp add: update_sessions_def sql_update_def list_all_iff)

lemma insert_permission_Inr [simp]:
  "insert_permission p st = Inr st' \<longleftrightarrow>
     permissions_check p \<and> p_request_id p \<notin> p_request_id ` set (permissions st) \<and>
     st' = st\<lparr>permissions := permissions st @ [p]\<rparr>"
  by (auto simp: insert_permission_def sql_insert_def)

lemma update_permissions_Inr [simp]:
  "update_permissions p f st = Inr (st', n) \<longleftrightarrow>
     (\<forall>r \<in> set (permissions st). p r \<longrightarrow> permissions_check (f r)) \<and>
     st' = st\<lparr>permissions := map (\<lambda>r. if p r then f r else r) (permissions st)\<rparr> \<and>
     n = length (filter p (permissions st))"
  by (auto simp: update_permissions_def sql_update_def list_all_iff)

lemma bead_at_Some: "bead_at st i = Some b \<Longrightarrow> b \<in> set (beads st) \<and> b_id b = i"
  by (auto simp: bead_at_def dest: sql_find_SomeD)

lemma bead_at_None: "bead_at st i = None \<longleftrightarrow> i \<notin> b_id ` set (beads st)"
  by (auto simp: bead_at_def sql_find_None)

lemma session_at_None: "session_at st n = None \<longleftrightarrow> n \<notin> s_name ` set (sessions st)"
  by (auto simp: session_at_def sql_find_None)

lemma session_at_Some: "session_at st n = Some s \<Longrightarrow> s \<in> set (sessions st) \<and> s_name s = n"
  by (auto simp: session_at_def dest: sql_find_SomeD)

lemma permission_at_Some:
  "permission_at st r = Some p \<Longrightarrow> p \<in> set (permissions st) \<and> p_request_id p = r"
  by (auto simp: permission_at_def dest: sql_find_SomeD)

lemma bead_at_iff:
  "table_ok b_id beads_check (beads st) \<Longrightarrow>
     bead_at st i = Some b \<longleftrightarrow> b \<in> set (beads st) \<and> b_id b = i"
  unfolding bead_at_def by (rule bead_table.find_in_table)

lemma session_at_iff:
  "table_ok s_name (\<lambda>_. True) (sessions st) \<Longrightarrow>
     session_at st n = Some s \<longleftrightarrow> s \<in> set (sessions st) \<and> s_name s = n"
  unfolding session_at_def by (rule session_table.find_in_table)

lemma permission_at_iff:
  "table_ok p_request_id permissions_check (permissions st) \<Longrightarrow>
     permission_at st r = Some p \<longleftrightarrow> p \<in> set (permissions st) \<and> p_request_id p = r"
  unfolding permission_at_def by (rule permission_table.find_in_table)

end
