(* ===== verification/Ids.thy ===== *)
theory Ids
  imports Schema
begin

text \<open>
  Bead ids (\<^verbatim>\<open>crates/camp-core/src/id.rs\<close>): \<open>{prefix}-{n}\<close>, allocated from a folded counter per
  prefix. An id is parsed back to its prefix and number only in its canonical spelling.
\<close>

definition prefix_ok :: "string \<Rightarrow> bool" where
  "prefix_ok p =
     (case p of [] \<Rightarrow> False
      | c # cs \<Rightarrow> is_lower c \<and> list_all (\<lambda>c. is_lower c \<or> is_digit c) cs)"

definition validate_prefix :: "string \<Rightarrow> unit res" where
  "validate_prefix p = (if prefix_ok p then Inr () else Inl (InvalidPrefix p))"

definition parse_bead_id :: "string \<Rightarrow> (string \<times> int) option" where
  "parse_bead_id i =
     (case split_once CHR ''-'' i of
        None \<Rightarrow> None
      | Some (p, num) \<Rightarrow>
          if num = [] \<or> \<not> list_all is_digit num then None
          else if 1 < length num \<and> hd num = CHR ''0'' then None
          else (case validate_prefix p of
                  Inl _ \<Rightarrow> None
                | Inr _ \<Rightarrow>
                    (case parse_i64 num of None \<Rightarrow> None | Some n \<Rightarrow> Some (p, n))))"

text \<open>\<open>format!("{prefix}-{n}")\<close>.\<close>

definition format_bead_id :: "string \<Rightarrow> int \<Rightarrow> string" where
  "format_bead_id p n = p @ ''-'' @ show_int n"

text \<open>\<open>high + 1\<close> is an \<open>i64\<close> addition; the release build wraps.\<close>

definition next_bead_id :: "state \<Rightarrow> string \<Rightarrow> string res" where
  "next_bead_id st p =
     rbind (validate_prefix p) (\<lambda>_.
       let high = (case counter_at st p of None \<Rightarrow> 0 | Some h \<Rightarrow> h)
       in Inr (format_bead_id p (i64_wrap (high + 1))))"

definition bump_counter :: "string \<Rightarrow> state \<Rightarrow> state res" where
  "bump_counter i st =
     (case parse_bead_id i of
        None \<Rightarrow> Inl (InvalidEventData ''bead.created''
                 (Msg ''bead id {id:?} is not a well-formed {prefix}-{n} id'' [i]))
      | Some (p, n) \<Rightarrow>
          Inr (st\<lparr>counters :=
                 sql_upsert c_prefix (\<lambda>c. c\<lparr>c_high := max (c_high c) n\<rparr>)
                   \<lparr>c_prefix = p, c_high = n\<rparr> (counters st)\<rparr>))"

section \<open>Ids and their parts\<close>

lemma validate_prefix_iff [simp]: "validate_prefix p = Inr u \<longleftrightarrow> prefix_ok p"
  by (simp add: validate_prefix_def)

lemma hyphen_not_in_prefix: "prefix_ok p \<Longrightarrow> CHR ''-'' \<notin> set p"
  by (auto simp: prefix_ok_def is_lower_def is_digit_def byte_def list_all_iff split: list.splits)

lemma parse_bead_id_Some:
  "parse_bead_id i = Some (p, n) \<longleftrightarrow>
     (\<exists>num. i = p @ CHR ''-'' # num \<and> prefix_ok p \<and> num \<noteq> [] \<and> list_all is_digit num \<and>
            (1 < length num \<longrightarrow> hd num \<noteq> CHR ''0'') \<and> int (dec_value num) \<le> i64_max \<and>
            n = int (dec_value num))"
    (is "?l \<longleftrightarrow> ?r")
proof
  assume ?l
  then obtain num where s: "split_once CHR ''-'' i = Some (p, num)" and "num \<noteq> []"
    and "list_all is_digit num" and "1 < length num \<longrightarrow> hd num \<noteq> CHR ''0''"
    and "prefix_ok p" and "parse_i64 num = Some n"
    by (auto simp: parse_bead_id_def validate_prefix_def split: option.splits sum.splits if_splits)
  then show ?r by (auto simp: split_once_iff parse_i64_digits split: if_splits)
next
  assume ?r
  then obtain num where n: "i = p @ CHR ''-'' # num" "prefix_ok p" "num \<noteq> []"
      "list_all is_digit num" "1 < length num \<longrightarrow> hd num \<noteq> CHR ''0''"
      "int (dec_value num) \<le> i64_max" "n = int (dec_value num)"
    by blast
  then have "split_once CHR ''-'' i = Some (p, num)"
    by (simp add: split_once_iff hyphen_not_in_prefix)
  with n show ?l
    by (auto simp: parse_bead_id_def validate_prefix_def parse_i64_digits)
qed

lemma parse_bead_id_range: "parse_bead_id i = Some (p, n) \<Longrightarrow> 0 \<le> n \<and> n \<le> i64_max"
  by (auto simp: parse_bead_id_Some)

lemma parse_format_bead_id:
  assumes "prefix_ok p" and "0 \<le> n" and "n \<le> i64_max"
  shows "parse_bead_id (format_bead_id p n) = Some (p, n)"
proof -
  have "1 < length (show_nat (nat n)) \<longrightarrow> hd (show_nat (nat n)) \<noteq> CHR ''0''"
    using length_show_nat [of "nat n"] show_nat_canonical [of "nat n"] by simp
  with assms show ?thesis
    by (simp add: parse_bead_id_Some format_bead_id_def show_int_def show_nat_digits)
qed

lemma format_parse_bead_id:
  assumes "parse_bead_id i = Some (p, n)"
  shows "format_bead_id p n = i"
  using assms show_nat_dec_value
  by (auto simp: parse_bead_id_Some format_bead_id_def show_int_def)

section \<open>The counters\<close>

lemma counter_at_bump:
  assumes "bump_counter i st = Inr st'" and "parse_bead_id i = Some (p, n)"
  shows "counter_at st' q =
    (if q = p then Some (case counter_at st p of None \<Rightarrow> n | Some h \<Rightarrow> max h n)
     else counter_at st q)"
proof -
  define new :: counter_row where "new = \<lparr>c_prefix = p, c_high = n\<rparr>"
  have st': "counters st' = (if p \<in> c_prefix ` set (counters st)
       then map (\<lambda>c. if c_prefix c = p then c\<lparr>c_high := max (c_high c) n\<rparr> else c) (counters st)
       else counters st @ [new])"
    using assms by (auto simp: bump_counter_def sql_upsert_def new_def)
  show ?thesis
  proof (cases "p \<in> c_prefix ` set (counters st)")
    case True
    then have "sql_find (\<lambda>c. c_prefix c = p) (counters st) \<noteq> None"
      by (auto simp: sql_find_None)
    then obtain c where c: "sql_find (\<lambda>c. c_prefix c = p) (counters st) = Some c" by auto
    have upd: "sql_find (\<lambda>c. c_prefix c = q) (counters st')
        = map_option (\<lambda>c. if c_prefix c = p then c\<lparr>c_high := max (c_high c) n\<rparr> else c)
            (sql_find (\<lambda>c. c_prefix c = q) (counters st))"
      using True counter_table.find_after_update [of "\<lambda>c. c_prefix c = p"
          "\<lambda>c. c\<lparr>c_high := max (c_high c) n\<rparr>" q st]
      by (simp add: st')
    show ?thesis
    proof (cases "q = p")
      case True
      then show ?thesis using upd c sql_find_SomeD [OF c] by (simp add: counter_at_def)
    next
      case False
      have other: "c_prefix x \<noteq> p"
        if "sql_find (\<lambda>c. c_prefix c = q) (counters st) = Some x" for x
        using sql_find_SomeD [OF that] False by simp
      show ?thesis
        using upd other False
        by (cases "sql_find (\<lambda>c. c_prefix c = q) (counters st)") (simp_all add: counter_at_def)
    qed
  next
    case False
    then have none: "sql_find (\<lambda>c. c_prefix c = p) (counters st) = None"
      by (auto simp: sql_find_None)
    have app: "sql_find (\<lambda>c. c_prefix c = q) (counters st')
        = (case sql_find (\<lambda>c. c_prefix c = q) (counters st) of
             Some c \<Rightarrow> Some c | None \<Rightarrow> if c_prefix new = q then Some new else None)"
      using False counter_table.find_after_append [of q st new] by (simp add: st')
    show ?thesis
      using app none
      by (cases "q = p"; cases "sql_find (\<lambda>c. c_prefix c = q) (counters st)")
        (simp_all add: counter_at_def new_def)
  qed
qed

section \<open>Properties\<close>

text \<open>
  Ids and their parts are in bijection: an id parses to a prefix and a number exactly when the
  prefix is valid, the number is an \<open>i64\<close> that is not negative, and the id is what formatting the
  two gives; other spellings of the number (signs, leading zeros) are refused.
\<close>

theorem bead_id_roundtrip:
  "parse_bead_id i = Some (p, n) \<longleftrightarrow> prefix_ok p \<and> 0 \<le> n \<and> n \<le> i64_max \<and> i = format_bead_id p n"
proof
  assume parse: "parse_bead_id i = Some (p, n)"
  then have "prefix_ok p" by (auto simp: parse_bead_id_Some)
  then show "prefix_ok p \<and> 0 \<le> n \<and> n \<le> i64_max \<and> i = format_bead_id p n"
    using parse_bead_id_range [OF parse] format_parse_bead_id [OF parse] by simp
next
  assume "prefix_ok p \<and> 0 \<le> n \<and> n \<le> i64_max \<and> i = format_bead_id p n"
  then show "parse_bead_id i = Some (p, n)" using parse_format_bead_id by simp
qed

end
