(* ===== verification/Payloads.thy ===== *)
theory Payloads
  imports Schema
begin

text \<open>
  The events (\<^verbatim>\<open>crates/camp-core/src/event.rs\<close>) and their payload structs
  (\<^verbatim>\<open>crates/camp-core/src/ledger/fold.rs\<close>), one record per struct with its fields in order.

  Reading a payload is \<open>serde_json\<close>, a third-party crate: the record \<open>serde\<close> holds one decoder
  per struct over an arbitrary type \<open>'j\<close> of JSON values, and every definition that reads a
  payload takes it as an argument. A decoder gives the error text or the struct; a
  \<open>BTreeMap\<close> is the list of its entries in key order, \<open>u32\<close> and \<open>u64\<close> are \<open>nat\<close> and \<open>i64\<close> is
  \<open>int\<close>, in the range the decoder accepts. The last four fields are the text forms \<open>serde_json\<close>
  writes and reads for a label list and for a whole payload.
\<close>

section \<open>Events\<close>

record 'j event =
  ev_seq :: int
  ev_ts :: string
  ev_kind :: event_type
  ev_rig :: "string option"
  ev_actor :: string
  ev_bead :: "string option"
  ev_data :: 'j

record 'j event_input =
  in_kind :: event_type
  in_rig :: "string option"
  in_actor :: string
  in_bead :: "string option"
  in_data :: 'j

section \<open>Payloads\<close>

record BeadCreated =
  bc_title :: string
  bc_bead_type :: string
  bc_description :: string
  bc_needs :: "string list"
  bc_labels :: "string list"
  bc_assignee :: "string option"
  bc_run_id :: "string option"
  bc_step_id :: "string option"
  bc_metadata :: "(string \<times> string) list"

record BeadClaimed =
  bcl_session :: string
  bcl_work_branch :: "string option"

record BeadUpdated =
  bu_title :: "string option"
  bu_description :: "string option"
  bu_metadata :: "(string \<times> string option) list"

record 'j BeadClosed =
  bx_outcome :: string
  bx_reason :: "string option"
  bx_failure_class :: "string option"
  bx_final_disposition :: "string option"
  bx_output :: "'j option"
  bx_work_outcome :: "string option"
  bx_work_commit :: "string option"
  bx_work_branch :: "string option"

record RigAdded =
  ra_path :: string
  ra_prefix :: string

record CampdAutostarted =
  ca_verb :: string

record RunCooked =
  rc_run_id :: string
  rc_formula :: string
  rc_root :: string
  rc_steps :: "(string \<times> string) list"

record FormulaRefused =
  fr_formula :: string
  fr_key :: string
  fr_reason :: string
  fr_step :: "string option"

record WorkerMilestone =
  wm_text :: string

record WorktreeKept =
  wk_path :: string
  wk_reason :: string

record BeadWorktreeReaped =
  wr_path :: string

record AgentStalled =
  as_session :: string
  as_agent :: string
  as_action :: string
  as_threshold :: string
  as_restarts :: nat
  as_via :: "string option"
  as_error :: "string option"

record PatrolDegraded =
  pd_error :: string
  pd_session :: "string option"

record DispatchFailed =
  df_reason :: string

record DispatchRearmed =
  dr_previous_reason :: string

record DispatchLiveTree =
  dl_path :: string
  dl_agent :: string

record CheckPassed =
  cp_run_id :: string
  cp_step_id :: string
  cp_attempt :: nat

record CheckFailed =
  cf_run_id :: string
  cf_step_id :: string
  cf_attempt :: nat
  cf_exit_code :: "int option"
  cf_signal :: "int option"
  cf_timed_out :: "bool option"
  cf_error :: "string option"
  cf_log :: "string option"

record RunFinalized =
  rf_run_id :: string
  rf_root :: string
  rf_outcome :: string
  rf_final_disposition :: string
  rf_cause_seq :: int
  rf_soft_failed :: "string list"
  rf_skipped :: "string list"

record SessionWoke =
  sw_name :: string
  sw_agent :: string
  sw_rig :: "string option"
  sw_claude_session_id :: "string option"
  sw_transcript_path :: "string option"
  sw_pid :: "int option"
  sw_bead :: "string option"
  sw_worktree :: "string option"
  sw_base :: "string option"
  sw_model :: "string option"
  sw_permission_mode :: "string option"
  sw_allowed_tools :: "string option"

record SessionNudged =
  sn_session :: string
  sn_via :: string
  sn_text :: string

record SessionPid =
  sp_name :: string
  sp_pid :: int
  sp_bead :: "string option"

record SessionEnd =
  se_name :: string
  se_exit_code :: "int option"
  se_signal :: "int option"
  se_reason :: "string option"
  se_cause_seq :: "int option"

record OrderFired =
  of_order :: string
  of_trigger :: string
  of_scheduled_ts :: "string option"
  of_catch_up :: "bool option"
  of_cause_seq :: "int option"

record OrderCompleted =
  oc_order :: string
  oc_fired_seq :: int
  oc_root_bead :: string
  oc_run_id :: string
  oc_outcome :: string

record OrderFailed =
  ol_order :: string
  ol_fired_seq :: int
  ol_error :: "string option"
  ol_root_bead :: "string option"
  ol_run_id :: "string option"
  ol_outcome :: "string option"

record ConfigChanged =
  cc_path :: string
  cc_applied :: bool
  cc_orders :: "nat option"
  cc_error :: "string option"

record SessionInterrupted =
  si_session :: string
  si_request_id :: string

record ControlResponded =
  cr_session :: string
  cr_request_id :: string
  cr_verb :: string
  cr_ok :: bool
  cr_detail :: string
  cr_late :: bool

record ControlFailed =
  cl_session :: "string option"
  cl_request_id :: "string option"
  cl_verb :: "string option"
  cl_cause :: string
  cl_reason :: string

record SubscriberDropped =
  sd_session :: string
  sd_subscription :: string
  sd_buffered_bytes :: nat
  sd_cap_bytes :: nat

record ShimRefused =
  sr_binding :: "string option"
  sr_agent :: "string option"
  sr_verb :: string
  sr_detail :: string

record WorkerDrainAcked =
  wd_session :: string

record PermissionPending =
  pp_session :: string
  pp_request_id :: string
  pp_tool_name :: string

record PermissionDecided =
  px_session :: string
  px_request_id :: string
  px_decision :: string
  px_decided_by :: string
  px_reason :: "string option"

record PermissionSaturated =
  ps_blocked :: nat
  ps_max_blocked :: nat

section \<open>The JSON library\<close>

record 'j serde =
  dec_bead_created :: "'j \<Rightarrow> string + BeadCreated"
  dec_bead_claimed :: "'j \<Rightarrow> string + BeadClaimed"
  dec_bead_updated :: "'j \<Rightarrow> string + BeadUpdated"
  dec_bead_closed :: "'j \<Rightarrow> string + 'j BeadClosed"
  dec_rig_added :: "'j \<Rightarrow> string + RigAdded"
  dec_campd_autostarted :: "'j \<Rightarrow> string + CampdAutostarted"
  dec_run_cooked :: "'j \<Rightarrow> string + RunCooked"
  dec_formula_refused :: "'j \<Rightarrow> string + FormulaRefused"
  dec_worker_milestone :: "'j \<Rightarrow> string + WorkerMilestone"
  dec_worktree_kept :: "'j \<Rightarrow> string + WorktreeKept"
  dec_bead_worktree_reaped :: "'j \<Rightarrow> string + BeadWorktreeReaped"
  dec_agent_stalled :: "'j \<Rightarrow> string + AgentStalled"
  dec_patrol_degraded :: "'j \<Rightarrow> string + PatrolDegraded"
  dec_dispatch_failed :: "'j \<Rightarrow> string + DispatchFailed"
  dec_dispatch_rearmed :: "'j \<Rightarrow> string + DispatchRearmed"
  dec_dispatch_live_tree :: "'j \<Rightarrow> string + DispatchLiveTree"
  dec_check_passed :: "'j \<Rightarrow> string + CheckPassed"
  dec_check_failed :: "'j \<Rightarrow> string + CheckFailed"
  dec_run_finalized :: "'j \<Rightarrow> string + RunFinalized"
  dec_session_woke :: "'j \<Rightarrow> string + SessionWoke"
  dec_session_nudged :: "'j \<Rightarrow> string + SessionNudged"
  dec_session_pid :: "'j \<Rightarrow> string + SessionPid"
  dec_session_end :: "'j \<Rightarrow> string + SessionEnd"
  dec_order_fired :: "'j \<Rightarrow> string + OrderFired"
  dec_order_completed :: "'j \<Rightarrow> string + OrderCompleted"
  dec_order_failed :: "'j \<Rightarrow> string + OrderFailed"
  dec_config_changed :: "'j \<Rightarrow> string + ConfigChanged"
  dec_session_interrupted :: "'j \<Rightarrow> string + SessionInterrupted"
  dec_control_responded :: "'j \<Rightarrow> string + ControlResponded"
  dec_control_failed :: "'j \<Rightarrow> string + ControlFailed"
  dec_subscriber_dropped :: "'j \<Rightarrow> string + SubscriberDropped"
  dec_shim_refused :: "'j \<Rightarrow> string + ShimRefused"
  dec_worker_drain_acked :: "'j \<Rightarrow> string + WorkerDrainAcked"
  dec_permission_pending :: "'j \<Rightarrow> string + PermissionPending"
  dec_permission_decided :: "'j \<Rightarrow> string + PermissionDecided"
  dec_permission_saturated :: "'j \<Rightarrow> string + PermissionSaturated"
  labels_text :: "string list \<Rightarrow> string"
  labels_of :: "string \<Rightarrow> string + string list"
  data_text :: "'j \<Rightarrow> string"
  data_of :: "string \<Rightarrow> string + 'j"

text \<open>\<open>payload::<T>(event)\<close>: a payload that does not decode is refused, naming the event.\<close>

definition payload :: "('j \<Rightarrow> string + 'p) \<Rightarrow> 'j event \<Rightarrow> 'p res" where
  "payload dec ev =
     (case dec (ev_data ev) of
        Inl e \<Rightarrow> Inl (InvalidEventData (as_str (ev_kind ev)) (Msg ''{}'' [e]))
      | Inr p \<Rightarrow> Inr p)"

definition invalid :: "'j event \<Rightarrow> message \<Rightarrow> core_error" where
  "invalid ev m = InvalidEventData (as_str (ev_kind ev)) m"

definition required_bead :: "'j event \<Rightarrow> string res" where
  "required_bead ev =
     (case ev_bead ev of
        None \<Rightarrow> Inl (invalid ev (Msg ''missing bead id'' []))
      | Some i \<Rightarrow> Inr i)"

lemma payload_Inr [simp]: "payload dec ev = Inr p \<longleftrightarrow> dec (ev_data ev) = Inr p"
  by (simp add: payload_def split: sum.splits)

lemma required_bead_Inr [simp]: "required_bead ev = Inr i \<longleftrightarrow> ev_bead ev = Some i"
  by (simp add: required_bead_def split: option.splits)

text \<open>What the code relies on when it stores a value as text and reads it back.\<close>

definition text_roundtrip :: "'j serde \<Rightarrow> bool" where
  "text_roundtrip S \<longleftrightarrow> (\<forall>d. data_of S (data_text S d) = Inr d)"

definition labels_roundtrip :: "'j serde \<Rightarrow> bool" where
  "labels_roundtrip S \<longleftrightarrow> (\<forall>ls. labels_of S (labels_text S ls) = Inr ls)"

end
