(* ===== verification/FoldBeads.thy ===== *)
theory FoldBeads
  imports Ids Payloads
begin

text \<open>
  The fold of the bead events (\<^verbatim>\<open>crates/camp-core/src/ledger/fold.rs\<close>): \<open>bead.created\<close>,
  \<open>bead.claimed\<close>, \<open>bead.updated\<close>, \<open>bead.closed\<close>, the dispatch marker, and the metadata write with
  its compare-and-set on the drain reservation. A handler takes the decoders, the event and the
  state, and gives the error or the new state; the caller's transaction drops the state of an
  error.
\<close>

definition bead_status :: "state \<Rightarrow> string \<Rightarrow> bead_status option" where
  "bead_status st i = map_option b_status (bead_at st i)"

definition known_bead :: "state \<Rightarrow> string \<Rightarrow> unit res" where
  "known_bead st i = ensure (bead_status st i \<noteq> None) (UnknownBead i)"

definition non_empty :: "'j event \<Rightarrow> string \<Rightarrow> string \<Rightarrow> unit res" where
  "non_empty ev field value = ensure (value \<noteq> []) (invalid ev (Msg ''empty {field}'' [field]))"

section \<open>Metadata\<close>

definition EXCLUSIVE_DRAIN_RESERVATION :: string where
  "EXCLUSIVE_DRAIN_RESERVATION = ''gc.exclusive_drain_reservation''"

definition PROJECTED_METADATA :: "(string \<times> string) list" where
  "PROJECTED_METADATA =
    [(''gc.routed_to'', ''assignee''),
     (''gc.work_branch'', ''work_branch''),
     (''gc.final_disposition'', ''final_disposition'')]"

definition write_meta :: "'j event \<Rightarrow> string \<Rightarrow> string \<Rightarrow> string \<Rightarrow> state \<Rightarrow> state res" where
  "write_meta ev bead key value st =
     (case find (\<lambda>(k, _). k = key) PROJECTED_METADATA of
        Some (_, column) \<Rightarrow>
          Inl (invalid ev (Msg ''metadata key {key:?} has a dedicated column (`beads.{column}`)''
            [key, column]))
      | None \<Rightarrow>
          rbind
            (if key = EXCLUSIVE_DRAIN_RESERVATION
             then (case meta_at st bead key of
                     Some holder \<Rightarrow>
                       if holder \<noteq> value
                       then Inl (invalid ev (Msg
                         ''bead {bead} is already reserved by drain {holder}; drain {value} cannot take it''
                         [bead, holder, value]))
                       else Inr ()
                   | None \<Rightarrow> Inr ())
             else Inr ())
            (\<lambda>_. upsert_meta bead key value st))"

section \<open>Creation\<close>

definition body_content :: "string \<Rightarrow> string \<Rightarrow> string" where
  "body_content title description = title @ [CHR 0x0A] @ description"

definition new_bead :: "'j serde \<Rightarrow> 'j event \<Rightarrow> string \<Rightarrow> string \<Rightarrow> BeadCreated \<Rightarrow> bead" where
  "new_bead S ev i rig p =
     \<lparr>b_id = i, b_rig = rig, b_type = bc_bead_type p, b_title = bc_title p,
      b_description = bc_description p, b_status = Open, b_assignee = bc_assignee p,
      b_claimed_by = None, b_outcome = None, b_close_reason = None, b_work_outcome = None,
      b_work_commit = None, b_work_branch = None, b_final_disposition = None,
      b_dispatch_failure = None, b_labels = labels_text S (bc_labels p),
      b_run_id = bc_run_id p, b_step_id = bc_step_id p,
      b_created_ts = ev_ts ev, b_updated_ts = ev_ts ev, b_closed_ts = None\<rparr>"

definition insert_need :: "'j event \<Rightarrow> string \<Rightarrow> state \<Rightarrow> string \<Rightarrow> state res" where
  "insert_need ev i st needs_id =
     rbind (insert_dep i needs_id st) (\<lambda>(st', inserted).
       if inserted = 0
       then Inl (invalid ev (Msg ''duplicate needs entry {needs_id:?}'' [needs_id]))
       else Inr st')"

definition bead_created :: "'j serde \<Rightarrow> 'j event \<Rightarrow> state \<Rightarrow> state res" where
  "bead_created S ev st =
     rbind (required_bead ev) (\<lambda>i.
     rbind (case ev_rig ev of None \<Rightarrow> Inl (invalid ev (Msg ''missing rig'' [])) | Some r \<Rightarrow> Inr r) (\<lambda>rig.
     rbind (payload (dec_bead_created S) ev) (\<lambda>p.
     rbind (ensure (bc_bead_type p \<in> set BEAD_TYPES)
              (invalid ev (Msg ''unknown bead type {:?}'' [bc_bead_type p]))) (\<lambda>_.
     rbind (ensure (\<not> is_blank (bc_title p))
              (invalid ev (Msg ''title must be non-empty'' []))) (\<lambda>_.
     rbind (ensure (bead_status st i = None)
              (InvalidTransition i (Msg ''bead already exists'' []))) (\<lambda>_.
     rbind (insert_bead (new_bead S ev i rig p) st) (\<lambda>st1.
     rbind (foldM (insert_need ev i) st1 (bc_needs p)) (\<lambda>st2.
     rbind (foldM (\<lambda>s (k, v). write_meta ev i k v s) st2 (bc_metadata p)) (\<lambda>st3.
       bump_counter i
         (insert_search i Body (body_content (bc_title p) (bc_description p)) st3))))))))))"

section \<open>Claim\<close>

definition coalesce :: "'a option \<Rightarrow> 'a option \<Rightarrow> 'a option" where
  "coalesce a b = (case a of Some x \<Rightarrow> Some x | None \<Rightarrow> b)"

definition claim_row :: "'j event \<Rightarrow> BeadClaimed \<Rightarrow> bead \<Rightarrow> bead" where
  "claim_row ev p b =
     b\<lparr>b_status := InProgress, b_claimed_by := Some (bcl_session p),
       b_work_branch := coalesce (bcl_work_branch p) (b_work_branch b),
       b_updated_ts := ev_ts ev\<rparr>"

definition clear_dispatch_failure :: "string \<Rightarrow> state \<Rightarrow> state res" where
  "clear_dispatch_failure i st =
     update_beads (\<lambda>b. b_id b = i \<and> b_dispatch_failure b \<noteq> None)
       (\<lambda>b. b\<lparr>b_dispatch_failure := None\<rparr>) st"

definition bead_claimed :: "'j serde \<Rightarrow> 'j event \<Rightarrow> state \<Rightarrow> state res" where
  "bead_claimed S ev st =
     rbind (required_bead ev) (\<lambda>i.
     rbind (payload (dec_bead_claimed S) ev) (\<lambda>p.
       (case bead_status st i of
          None \<Rightarrow> Inl (UnknownBead i)
        | Some Open \<Rightarrow>
            rbind (update_beads (\<lambda>b. b_id b = i) (claim_row ev p) st) (\<lambda>st1.
              clear_dispatch_failure i st1)
        | Some status \<Rightarrow>
            Inl (InvalidTransition i (Msg ''cannot claim a bead with status {status:?}''
              [bead_status_str status])))))"

section \<open>Update\<close>

definition rewrite_body_search_row :: "string \<Rightarrow> state \<Rightarrow> state" where
  "rewrite_body_search_row i st =
     st\<lparr>search := filter (\<lambda>r. \<not> (sr_bead r = i \<and> sr_kind r = Body)) (search st)
          @ map (\<lambda>b. \<lparr>sr_bead = b_id b, sr_kind = Body,
                        sr_content = body_content (b_title b) (b_description b)\<rparr>)
              (filter (\<lambda>b. b_id b = i) (beads st))\<rparr>"

definition patch_row :: "'j event \<Rightarrow> BeadUpdated \<Rightarrow> bead \<Rightarrow> bead" where
  "patch_row ev p b =
     b\<lparr>b_title := (case bu_title p of Some t \<Rightarrow> t | None \<Rightarrow> b_title b),
       b_description := (case bu_description p of Some d \<Rightarrow> d | None \<Rightarrow> b_description b),
       b_updated_ts := ev_ts ev\<rparr>"

definition patch_meta :: "'j event \<Rightarrow> string \<Rightarrow> state \<Rightarrow> string \<times> string option \<Rightarrow> state res" where
  "patch_meta ev i st kv =
     (case kv of
        (key, Some value) \<Rightarrow> write_meta ev i key value st
      | (key, None) \<Rightarrow> Inr (delete_meta i key st))"

definition bead_updated :: "'j serde \<Rightarrow> 'j event \<Rightarrow> state \<Rightarrow> state res" where
  "bead_updated S ev st =
     rbind (required_bead ev) (\<lambda>i.
     rbind (payload (dec_bead_updated S) ev) (\<lambda>p.
     rbind (ensure (\<not> (bu_title p = None \<and> bu_description p = None \<and> bu_metadata p = []))
              (invalid ev (Msg ''update must set title and/or description and/or metadata'' []))) (\<lambda>_.
     rbind (ensure (\<not> (case bu_title p of Some t \<Rightarrow> is_blank t | None \<Rightarrow> False))
              (invalid ev (Msg ''title, when set, must be non-empty'' []))) (\<lambda>_.
     rbind (ensure (bead_status st i \<noteq> None) (UnknownBead i)) (\<lambda>_.
     rbind (foldM (patch_meta ev i) st (bu_metadata p)) (\<lambda>st1.
     rbind (update_beads (\<lambda>b. b_id b = i) (patch_row ev p) st1) (\<lambda>st2.
       Inr (rewrite_body_search_row i st2))))))))"

section \<open>Close\<close>

text \<open>The checks on the payload, in the order of the code.\<close>

definition check_failure_class :: "'j event \<Rightarrow> 'j BeadClosed \<Rightarrow> unit res" where
  "check_failure_class ev p =
     (case bx_failure_class p of
        None \<Rightarrow> Inr ()
      | Some class \<Rightarrow>
          if class \<notin> set CAMP_FAILURE_CLASSES
          then Inl (invalid ev (Msg ''failure_class {class:?} is not in camp's vocabulary'' [class]))
          else if bx_outcome p \<noteq> ''fail''
          then Inl (invalid ev (Msg ''failure_class requires outcome fail, got {:?}'' [bx_outcome p]))
          else Inr ())"

definition check_final_disposition :: "'j event \<Rightarrow> 'j BeadClosed \<Rightarrow> unit res" where
  "check_final_disposition ev p =
     (case bx_final_disposition p of
        None \<Rightarrow> Inr ()
      | Some d \<Rightarrow>
          if d \<notin> set CAMP_FINAL_DISPOSITIONS
          then Inl (invalid ev (Msg
            ''final_disposition {disposition:?} is not in camp's close vocabulary'' [d]))
          else if bx_outcome p \<noteq> ''fail''
          then Inl (invalid ev (Msg
            ''final_disposition requires outcome fail, got {:?}'' [bx_outcome p]))
          else Inr ())"

definition check_work_outcome :: "'j event \<Rightarrow> 'j BeadClosed \<Rightarrow> unit res" where
  "check_work_outcome ev p =
     (let carries = (bx_work_commit p \<noteq> None \<or> bx_work_branch p \<noteq> None) in
      case bx_work_outcome p of
        None \<Rightarrow>
          if carries
          then Inl (invalid ev (Msg ''work_commit/work_branch require work_outcome shipped'' []))
          else Inr ()
      | Some wo \<Rightarrow>
          let wants_pass = (wo = ''shipped'' \<or> wo = ''no-op'');
              has_artifact = (bx_work_commit p \<noteq> None \<and> bx_work_branch p \<noteq> None)
          in if wo \<notin> set CAMP_WORK_OUTCOMES
             then Inl (invalid ev (Msg ''work_outcome {wo:?} is not in camp's vocabulary'' [wo]))
             else if wants_pass \<and> bx_outcome p \<noteq> ''pass''
             then Inl (invalid ev (Msg ''work_outcome {wo:?} requires outcome pass, got {:?}''
                    [wo, bx_outcome p]))
             else if \<not> wants_pass \<and> bx_outcome p \<noteq> ''fail''
             then Inl (invalid ev (Msg ''work_outcome {wo:?} requires outcome fail, got {:?}''
                    [wo, bx_outcome p]))
             else if wo = ''shipped'' \<and> \<not> has_artifact
             then Inl (invalid ev (Msg
                    ''work_outcome shipped requires work_commit and work_branch'' []))
             else if wo \<noteq> ''shipped'' \<and> carries
             then Inl (invalid ev (Msg
                    ''work_outcome {wo:?} must not carry work_commit/work_branch'' [wo]))
             else Inr ())"

definition close_row :: "'j event \<Rightarrow> 'j BeadClosed \<Rightarrow> bead \<Rightarrow> bead" where
  "close_row ev p b =
     b\<lparr>b_status := Closed, b_outcome := Some (bx_outcome p), b_close_reason := bx_reason p,
       b_work_outcome := bx_work_outcome p, b_work_commit := bx_work_commit p,
       b_work_branch := bx_work_branch p, b_final_disposition := bx_final_disposition p,
       b_closed_ts := Some (ev_ts ev), b_updated_ts := ev_ts ev\<rparr>"

definition index_reason :: "string \<Rightarrow> string option \<Rightarrow> state \<Rightarrow> state" where
  "index_reason i reason st =
     (case reason of
        None \<Rightarrow> st
      | Some r \<Rightarrow> if r = [] then st else insert_search i Close r st)"

definition bead_closed :: "'j serde \<Rightarrow> 'j event \<Rightarrow> state \<Rightarrow> state res" where
  "bead_closed S ev st =
     rbind (required_bead ev) (\<lambda>i.
     rbind (payload (dec_bead_closed S) ev) (\<lambda>p.
     rbind (ensure (bx_outcome p \<in> set CAMP_OUTCOMES)
              (invalid ev (Msg ''outcome {:?} is not in camp's vocabulary'' [bx_outcome p]))) (\<lambda>_.
     rbind (check_failure_class ev p) (\<lambda>_.
     rbind (check_final_disposition ev p) (\<lambda>_.
     rbind (check_work_outcome ev p) (\<lambda>_.
       (case bead_status st i of
          None \<Rightarrow> Inl (UnknownBead i)
        | Some Closed \<Rightarrow> Inl (InvalidTransition i (Msg ''bead is already closed'' []))
        | Some _ \<Rightarrow>
            rbind (update_beads (\<lambda>b. b_id b = i) (close_row ev p) st) (\<lambda>st1.
              Inr (index_reason i (bx_reason p) st1)))))))))"

section \<open>The dispatch marker\<close>

definition dispatch_failed :: "'j serde \<Rightarrow> 'j event \<Rightarrow> state \<Rightarrow> state res" where
  "dispatch_failed S ev st =
     rbind (required_bead ev) (\<lambda>i.
     rbind (known_bead st i) (\<lambda>_.
     rbind (payload (dec_dispatch_failed S) ev) (\<lambda>p.
     rbind (non_empty ev ''reason'' (df_reason p)) (\<lambda>_.
       update_beads (\<lambda>b. b_id b = i)
         (\<lambda>b. b\<lparr>b_dispatch_failure := Some (df_reason p), b_updated_ts := ev_ts ev\<rparr>) st))))"

definition dispatch_rearmed :: "'j serde \<Rightarrow> 'j event \<Rightarrow> state \<Rightarrow> state res" where
  "dispatch_rearmed S ev st =
     rbind (required_bead ev) (\<lambda>i.
     rbind (known_bead st i) (\<lambda>_.
     rbind (payload (dec_dispatch_rearmed S) ev) (\<lambda>p.
     rbind (non_empty ev ''previous_reason'' (dr_previous_reason p)) (\<lambda>_.
       update_beads (\<lambda>b. b_id b = i \<and> b_dispatch_failure b \<noteq> None)
         (\<lambda>b. b\<lparr>b_dispatch_failure := None, b_updated_ts := ev_ts ev\<rparr>) st))))"

end
