(* ===== verification/FoldSessions.thy ===== *)
theory FoldSessions
  imports FoldBeads
begin

text \<open>
  The fold of the session and permission events (\<^verbatim>\<open>crates/camp-core/src/ledger/fold.rs\<close>):
  \<open>session.woke\<close>, \<open>session.pid\<close>, \<open>session.nudged\<close>, \<open>session.stopped\<close>, \<open>session.crashed\<close>,
  \<open>permission.pending\<close> and \<open>permission.decided\<close>.
\<close>

section \<open>Sessions\<close>

definition woke_row :: "'j event \<Rightarrow> SessionWoke \<Rightarrow> session" where
  "woke_row ev p =
     \<lparr>s_name = sw_name p, s_agent = sw_agent p, s_rig = sw_rig p,
      s_claude_session_id = sw_claude_session_id p, s_transcript_path = sw_transcript_path p,
      s_pid = sw_pid p, s_status = Live, s_bead = sw_bead p,
      s_spawned_ts = ev_ts ev, s_ended_ts = None\<rparr>"

definition session_woke :: "'j serde \<Rightarrow> 'j event \<Rightarrow> state \<Rightarrow> state res" where
  "session_woke S ev st =
     rbind (payload (dec_session_woke S) ev) (\<lambda>p.
     rbind (ensure (session_at st (sw_name p) = None)
              (invalid ev (Msg ''session {:?} is already registered'' [sw_name p]))) (\<lambda>_.
     rbind (insert_session (woke_row ev p) st) (\<lambda>st1.
       (case sw_bead p of
          Some bead \<Rightarrow> clear_dispatch_failure bead st1
        | None \<Rightarrow> Inr st1))))"

definition session_nudged :: "'j serde \<Rightarrow> 'j event \<Rightarrow> state \<Rightarrow> unit res" where
  "session_nudged S ev st =
     rbind (payload (dec_session_nudged S) ev) (\<lambda>p.
     rbind (ensure (\<not> is_blank (sn_text p)) (invalid ev (Msg ''text must be non-empty'' []))) (\<lambda>_.
     rbind (ensure (sn_via p \<in> set NUDGE_VIAS)
              (invalid ev (Msg ''unknown via {:?} (stdin|resume)'' [sn_via p]))) (\<lambda>_.
       ensure (session_at st (sn_session p) \<noteq> None) (UnknownSession (sn_session p)))))"

definition session_pid :: "'j serde \<Rightarrow> 'j event \<Rightarrow> state \<Rightarrow> state res" where
  "session_pid S ev st =
     rbind (payload (dec_session_pid S) ev) (\<lambda>p.
     rbind (update_sessions (\<lambda>s. s_name s = sp_name p) (\<lambda>s. s\<lparr>s_pid := Some (sp_pid p)\<rparr>) st)
       (\<lambda>(st1, updated).
         if updated = 0 then Inl (UnknownSession (sp_name p)) else Inr st1))"

definition reopen_row :: "'j event \<Rightarrow> bead \<Rightarrow> bead" where
  "reopen_row ev b = b\<lparr>b_status := Open, b_claimed_by := None, b_updated_ts := ev_ts ev\<rparr>"

definition session_ended :: "'j serde \<Rightarrow> 'j event \<Rightarrow> session_status \<Rightarrow> state \<Rightarrow> state res" where
  "session_ended S ev new_status st =
     rbind (payload (dec_session_end S) ev) (\<lambda>p.
       (case map_option s_status (session_at st (se_name p)) of
          None \<Rightarrow> Inl (UnknownSession (se_name p))
        | Some Live \<Rightarrow>
            rbind (update_sessions (\<lambda>s. s_name s = se_name p)
                     (\<lambda>s. s\<lparr>s_status := new_status, s_ended_ts := Some (ev_ts ev)\<rparr>) st)
              (\<lambda>(st1, _).
                if new_status = Crashed
                then update_beads
                       (\<lambda>b. b_claimed_by b = Some (se_name p) \<and> b_status b = InProgress)
                       (reopen_row ev) st1
                else Inr st1)
        | Some s \<Rightarrow>
            Inl (InvalidTransition (se_name p)
              (Msg ''session already ended with status {s:?}'' [session_status_str s]))))"

section \<open>Permissions\<close>

definition pending_row :: "'j event \<Rightarrow> PermissionPending \<Rightarrow> permission" where
  "pending_row ev p =
     \<lparr>p_request_id = pp_request_id p, p_session = pp_session p, p_tool_name = pp_tool_name p,
      p_status = Pending, p_decision = None, p_decided_by = None,
      p_requested_ts = ev_ts ev, p_decided_ts = None\<rparr>"

definition permission_pending :: "'j serde \<Rightarrow> 'j event \<Rightarrow> state \<Rightarrow> state res" where
  "permission_pending S ev st =
     rbind (payload (dec_permission_pending S) ev) (\<lambda>p.
     rbind (ensure (list_ex (\<lambda>s. s_name s = pp_session p \<and> s_status s = Live) (sessions st))
              (UnknownSession (pp_session p))) (\<lambda>_.
       insert_permission (pending_row ev p) st))"

definition decide_row :: "'j event \<Rightarrow> PermissionDecided \<Rightarrow> permission \<Rightarrow> permission" where
  "decide_row ev p r =
     r\<lparr>p_status := Decided, p_decision := Some (px_decision p),
       p_decided_by := Some (px_decided_by p), p_decided_ts := Some (ev_ts ev)\<rparr>"

definition permission_decided :: "'j serde \<Rightarrow> 'j event \<Rightarrow> state \<Rightarrow> state res" where
  "permission_decided S ev st =
     rbind (payload (dec_permission_decided S) ev) (\<lambda>p.
     rbind (ensure (px_decision p \<in> set PERMISSION_DECISIONS)
              (invalid ev (Msg ''unknown decision {:?} (allow|allow_always|deny)''
                [px_decision p]))) (\<lambda>_.
     rbind (ensure (\<not> (px_decision p = ''deny'' \<and>
                       is_blank (case px_reason p of Some r \<Rightarrow> r | None \<Rightarrow> [])))
              (invalid ev (Msg ''a deny decision must carry a non-empty reason'' []))) (\<lambda>_.
     rbind (update_permissions
              (\<lambda>r. p_request_id r = px_request_id p \<and> p_status r = Pending)
              (decide_row ev p) st)
       (\<lambda>(st1, changed).
         if changed = 0
         then Inl (invalid ev (Msg
                ''no PENDING permission request {:?} to decide'' [px_request_id p]))
         else Inr st1))))"

end
