(* ===== verification/FoldAudit.thy ===== *)
theory FoldAudit
  imports FoldBeads
begin

text \<open>
  The log-only events of \<^verbatim>\<open>crates/camp-core/src/ledger/fold.rs\<close>: they fold no state, their
  handler only decides whether the event may enter the ledger.
\<close>

text \<open>\<open>audit::<T>\<close>: the decode is the validation.\<close>

definition audit :: "('j \<Rightarrow> string + 'p) \<Rightarrow> 'j event \<Rightarrow> unit res" where
  "audit dec ev = rbind (payload dec ev) (\<lambda>_. Inr ())"

text \<open>A loop of the code over labelled fields that must not be empty.\<close>

fun all_non_empty :: "'j event \<Rightarrow> (string \<times> string) list \<Rightarrow> unit res" where
  "all_non_empty ev [] = Inr ()"
| "all_non_empty ev ((field, value) # fs) =
     rbind (non_empty ev field value) (\<lambda>_. all_non_empty ev fs)"

lemma all_non_empty_iff: "all_non_empty ev fs = Inr u \<longleftrightarrow> (\<forall>(f, v) \<in> set fs. v \<noteq> [])"
  by (induction fs rule: all_non_empty.induct) (auto simp: non_empty_def)

definition none_or_empty :: "string option \<Rightarrow> bool" where
  "none_or_empty x = (case x of None \<Rightarrow> True | Some s \<Rightarrow> s = [])"

section \<open>Configuration, runs and workers\<close>

definition rig_added :: "'j serde \<Rightarrow> 'j event \<Rightarrow> unit res" where
  "rig_added S ev =
     rbind (ensure (ev_rig ev \<noteq> None) (invalid ev (Msg ''missing rig name'' []))) (\<lambda>_.
     rbind (payload (dec_rig_added S) ev) (\<lambda>p.
     rbind (ensure (ra_path p \<noteq> []) (invalid ev (Msg ''empty rig path'' []))) (\<lambda>_.
       validate_prefix (ra_prefix p))))"

definition campd_autostarted :: "'j serde \<Rightarrow> 'j event \<Rightarrow> unit res" where
  "campd_autostarted S ev =
     rbind (payload (dec_campd_autostarted S) ev) (\<lambda>p.
       ensure (ca_verb p \<noteq> []) (invalid ev (Msg ''empty verb'' [])))"

definition run_cooked :: "'j serde \<Rightarrow> 'j event \<Rightarrow> unit res" where
  "run_cooked S ev =
     rbind (payload (dec_run_cooked S) ev) (\<lambda>p.
       all_non_empty ev
         [(''run_id'', rc_run_id p), (''formula'', rc_formula p), (''root'', rc_root p)])"

definition formula_refused :: "'j serde \<Rightarrow> 'j event \<Rightarrow> unit res" where
  "formula_refused S ev =
     rbind (payload (dec_formula_refused S) ev) (\<lambda>p.
     rbind (non_empty ev ''formula'' (fr_formula p)) (\<lambda>_.
     rbind (non_empty ev ''key'' (fr_key p)) (\<lambda>_.
     rbind (non_empty ev ''reason'' (fr_reason p)) (\<lambda>_.
       (case fr_step p of None \<Rightarrow> Inr () | Some step \<Rightarrow> non_empty ev ''step'' step)))))"

definition worker_milestone :: "'j serde \<Rightarrow> 'j event \<Rightarrow> state \<Rightarrow> unit res" where
  "worker_milestone S ev st =
     rbind (payload (dec_worker_milestone S) ev) (\<lambda>p.
     rbind (non_empty ev ''text'' (wm_text p)) (\<lambda>_.
       (case ev_bead ev of None \<Rightarrow> Inr () | Some i \<Rightarrow> known_bead st i)))"

definition worktree_kept :: "'j serde \<Rightarrow> 'j event \<Rightarrow> state \<Rightarrow> unit res" where
  "worktree_kept S ev st =
     rbind (required_bead ev) (\<lambda>i.
     rbind (known_bead st i) (\<lambda>_.
     rbind (payload (dec_worktree_kept S) ev) (\<lambda>p.
     rbind (non_empty ev ''path'' (wk_path p)) (\<lambda>_.
       non_empty ev ''reason'' (wk_reason p)))))"

definition bead_worktree_reaped :: "'j serde \<Rightarrow> 'j event \<Rightarrow> state \<Rightarrow> unit res" where
  "bead_worktree_reaped S ev st =
     rbind (required_bead ev) (\<lambda>i.
     rbind (known_bead st i) (\<lambda>_.
     rbind (payload (dec_bead_worktree_reaped S) ev) (\<lambda>p.
       non_empty ev ''path'' (wr_path p))))"

definition dispatch_live_tree :: "'j serde \<Rightarrow> 'j event \<Rightarrow> state \<Rightarrow> unit res" where
  "dispatch_live_tree S ev st =
     rbind (required_bead ev) (\<lambda>i.
     rbind (known_bead st i) (\<lambda>_.
     rbind (payload (dec_dispatch_live_tree S) ev) (\<lambda>p.
     rbind (non_empty ev ''path'' (dl_path p)) (\<lambda>_.
       non_empty ev ''agent'' (dl_agent p)))))"

section \<open>Patrol\<close>

definition agent_stalled :: "'j serde \<Rightarrow> 'j event \<Rightarrow> state \<Rightarrow> unit res" where
  "agent_stalled S ev st =
     rbind (required_bead ev) (\<lambda>i.
     rbind (known_bead st i) (\<lambda>_.
     rbind (payload (dec_agent_stalled S) ev) (\<lambda>p.
     rbind (all_non_empty ev
              [(''session'', as_session p), (''agent'', as_agent p),
               (''threshold'', as_threshold p)]) (\<lambda>_.
     rbind (ensure (as_action p \<in> set STALL_ACTIONS)
              (invalid ev (Msg ''action {:?} is not in {STALL_ACTIONS:?}'' [as_action p]))) (\<lambda>_.
     rbind (ensure (\<not> (as_action p = ''nudge_failed'' \<and> none_or_empty (as_error p)))
              (invalid ev (Msg ''a nudge_failed record requires the error'' []))) (\<lambda>_.
       ensure (\<not> (as_via p \<noteq> None \<and>
                  \<not> (as_action p = ''nudge'' \<or> as_action p = ''nudge_failed'')))
         (invalid ev (Msg ''via is a nudge-only field'' []))))))))"

definition patrol_degraded :: "'j serde \<Rightarrow> 'j event \<Rightarrow> unit res" where
  "patrol_degraded S ev =
     rbind (payload (dec_patrol_degraded S) ev) (\<lambda>p. non_empty ev ''error'' (pd_error p))"

section \<open>Checks and finalization\<close>

definition check_passed :: "'j serde \<Rightarrow> 'j event \<Rightarrow> state \<Rightarrow> unit res" where
  "check_passed S ev st =
     rbind (required_bead ev) (\<lambda>i.
     rbind (known_bead st i) (\<lambda>_.
     rbind (payload (dec_check_passed S) ev) (\<lambda>p.
     rbind (non_empty ev ''run_id'' (cp_run_id p)) (\<lambda>_.
     rbind (non_empty ev ''step_id'' (cp_step_id p)) (\<lambda>_.
       ensure (cp_attempt p \<noteq> 0) (invalid ev (Msg ''attempt numbers start at 1'' [])))))))"

definition check_failed :: "'j serde \<Rightarrow> 'j event \<Rightarrow> state \<Rightarrow> unit res" where
  "check_failed S ev st =
     rbind (required_bead ev) (\<lambda>i.
     rbind (known_bead st i) (\<lambda>_.
     rbind (payload (dec_check_failed S) ev) (\<lambda>p.
     rbind (non_empty ev ''run_id'' (cf_run_id p)) (\<lambda>_.
     rbind (non_empty ev ''step_id'' (cf_step_id p)) (\<lambda>_.
     rbind (ensure (cf_attempt p \<noteq> 0) (invalid ev (Msg ''attempt numbers start at 1'' []))) (\<lambda>_.
       let timed_out = (cf_timed_out p = Some True) in
       rbind (ensure (\<not> (cf_exit_code p = None \<and> cf_signal p = None \<and> \<not> timed_out \<and>
                         cf_error p = None))
                (invalid ev (Msg
                  ''check.failed requires evidence: exit_code, signal, timed_out, or error'' [])))
         (\<lambda>_. ensure (cf_error p \<noteq> Some []) (invalid ev (Msg ''empty error'' [])))))))))"

definition run_finalized :: "'j serde \<Rightarrow> 'j event \<Rightarrow> state \<Rightarrow> unit res" where
  "run_finalized S ev st =
     rbind (required_bead ev) (\<lambda>i.
     rbind (known_bead st i) (\<lambda>_.
     rbind (payload (dec_run_finalized S) ev) (\<lambda>p.
     rbind (non_empty ev ''run_id'' (rf_run_id p)) (\<lambda>_.
     rbind (non_empty ev ''root'' (rf_root p)) (\<lambda>_.
     rbind (ensure (i = rf_root p)
              (invalid ev (Msg ''run.finalized bead {bead:?} must be the root {:?}''
                [i, rf_root p]))) (\<lambda>_.
     rbind (ensure (rf_outcome p \<in> set CAMP_OUTCOMES)
              (invalid ev (Msg ''outcome {:?} is not in camp's vocabulary'' [rf_outcome p]))) (\<lambda>_.
     rbind (ensure (rf_final_disposition p \<in> set CAMP_RUN_DISPOSITIONS)
              (invalid ev (Msg ''final_disposition {:?} is not in camp's run vocabulary''
                [rf_final_disposition p]))) (\<lambda>_.
       ensure (1 \<le> rf_cause_seq p)
         (invalid ev (Msg ''cause_seq {} is not a seq'' [show_int (rf_cause_seq p)]))))))))))"

section \<open>Orders and configuration changes\<close>

definition order_fired :: "'j serde \<Rightarrow> 'j event \<Rightarrow> unit res" where
  "order_fired S ev =
     rbind (payload (dec_order_fired S) ev) (\<lambda>p.
     rbind (ensure (of_order p \<noteq> []) (invalid ev (Msg ''empty order'' []))) (\<lambda>_.
       if of_trigger p = ''cron'' then
         rbind (ensure (of_scheduled_ts p \<noteq> None)
                  (invalid ev (Msg ''cron trigger requires scheduled_ts'' []))) (\<lambda>_.
           ensure (of_cause_seq p = None)
             (invalid ev (Msg ''cron trigger does not carry cause_seq'' [])))
       else if of_trigger p = ''event'' then
         rbind (ensure (of_cause_seq p \<noteq> None)
                  (invalid ev (Msg ''event trigger requires cause_seq'' []))) (\<lambda>_.
           ensure (of_scheduled_ts p = None \<and> of_catch_up p = None)
             (invalid ev (Msg ''event trigger carries only cause_seq'' [])))
       else if of_trigger p = ''manual'' then
         ensure (of_scheduled_ts p = None \<and> of_catch_up p = None \<and> of_cause_seq p = None)
           (invalid ev (Msg ''manual trigger carries no schedule data'' []))
       else Inl (invalid ev (Msg ''unknown trigger {other:?}'' [of_trigger p]))))"

definition order_completed :: "'j serde \<Rightarrow> 'j event \<Rightarrow> unit res" where
  "order_completed S ev =
     rbind (payload (dec_order_completed S) ev) (\<lambda>p.
     rbind (all_non_empty ev
              [(''order'', oc_order p), (''root_bead'', oc_root_bead p),
               (''run_id'', oc_run_id p)]) (\<lambda>_.
       ensure (oc_outcome p = ''pass'')
         (invalid ev (Msg ''order.completed outcome must be pass, got {:?}'' [oc_outcome p]))))"

definition order_failed :: "'j serde \<Rightarrow> 'j event \<Rightarrow> unit res" where
  "order_failed S ev =
     rbind (payload (dec_order_failed S) ev) (\<lambda>p.
     rbind (ensure (ol_order p \<noteq> []) (invalid ev (Msg ''empty order'' []))) (\<lambda>_.
       (case (ol_error p, ol_root_bead p) of
          (Some error, None) \<Rightarrow>
            rbind (ensure (error \<noteq> []) (invalid ev (Msg ''empty error'' []))) (\<lambda>_.
              ensure (ol_run_id p = None \<and> ol_outcome p = None)
                (invalid ev (Msg ''the error shape carries no run fields'' [])))
        | (None, Some root_bead) \<Rightarrow>
            rbind (ensure (root_bead \<noteq> []) (invalid ev (Msg ''empty root_bead'' []))) (\<lambda>_.
            rbind (ensure (\<not> none_or_empty (ol_run_id p))
                     (invalid ev (Msg ''the run shape requires run_id'' []))) (\<lambda>_.
              ensure (ol_outcome p = Some ''fail'')
                (invalid ev (Msg ''the run shape requires outcome fail'' []))))
        | _ \<Rightarrow> Inl (invalid ev (Msg ''exactly one of error / root_bead must be present'' [])))))"

definition config_changed :: "'j serde \<Rightarrow> 'j event \<Rightarrow> unit res" where
  "config_changed S ev =
     rbind (payload (dec_config_changed S) ev) (\<lambda>p.
     rbind (ensure (cc_path p \<noteq> []) (invalid ev (Msg ''empty path'' []))) (\<lambda>_.
       if cc_applied p then
         rbind (ensure (cc_error p = None)
                  (invalid ev (Msg ''an applied change carries no error'' []))) (\<lambda>_.
           ensure (cc_orders p \<noteq> None)
             (invalid ev (Msg ''an applied change reports its order count'' [])))
       else ensure (\<not> none_or_empty (cc_error p))
              (invalid ev (Msg ''a rejected change requires the error'' []))))"

section \<open>The control plane\<close>

definition control_failed :: "'j serde \<Rightarrow> 'j event \<Rightarrow> unit res" where
  "control_failed S ev =
     rbind (payload (dec_control_failed S) ev) (\<lambda>p.
     rbind (non_empty ev ''reason'' (cl_reason p)) (\<lambda>_.
       ensure (parse_cause (cl_cause p) \<noteq> None)
         (invalid ev (Msg ''unknown cause {:?} (one of {known:?})'' [cl_cause p]))))"

end
