(* ===== verification/Fold.thy ===== *)
theory Fold
  imports FoldSessions FoldAudit
begin

text \<open>
  \<open>fold::apply\<close> (\<^verbatim>\<open>crates/camp-core/src/ledger/fold.rs\<close>): the state effect of one event, and
  the replay of a log through it.
\<close>

text \<open>A log-only handler keeps the state.\<close>

definition log_only :: "unit res \<Rightarrow> state \<Rightarrow> state res" where
  "log_only r st = rbind r (\<lambda>_. Inr st)"

definition fold_apply :: "'j serde \<Rightarrow> state \<Rightarrow> 'j event \<Rightarrow> state res" where
  "fold_apply S st ev =
     (case ev_kind ev of
        BeadCreated \<Rightarrow> bead_created S ev st
      | BeadClaimed \<Rightarrow> bead_claimed S ev st
      | BeadUpdated \<Rightarrow> bead_updated S ev st
      | BeadClosed \<Rightarrow> bead_closed S ev st
      | SessionWoke \<Rightarrow> session_woke S ev st
      | SessionPid \<Rightarrow> session_pid S ev st
      | SessionStopped \<Rightarrow> session_ended S ev Stopped st
      | SessionCrashed \<Rightarrow> session_ended S ev Crashed st
      | SessionNudged \<Rightarrow> log_only (session_nudged S ev st) st
      | RigAdded \<Rightarrow> log_only (rig_added S ev) st
      | CampdAutostarted \<Rightarrow> log_only (campd_autostarted S ev) st
      | RunCooked \<Rightarrow> log_only (run_cooked S ev) st
      | OrderFired \<Rightarrow> log_only (order_fired S ev) st
      | OrderCompleted \<Rightarrow> log_only (order_completed S ev) st
      | OrderFailed \<Rightarrow> log_only (order_failed S ev) st
      | ConfigChanged \<Rightarrow> log_only (config_changed S ev) st
      | WorkerMilestone \<Rightarrow> log_only (worker_milestone S ev st) st
      | WorktreeKept \<Rightarrow> log_only (worktree_kept S ev st) st
      | BeadWorktreeReaped \<Rightarrow> log_only (bead_worktree_reaped S ev st) st
      | DispatchFailed \<Rightarrow> dispatch_failed S ev st
      | DispatchRearmed \<Rightarrow> dispatch_rearmed S ev st
      | DispatchLiveTree \<Rightarrow> log_only (dispatch_live_tree S ev st) st
      | CheckPassed \<Rightarrow> log_only (check_passed S ev st) st
      | CheckFailed \<Rightarrow> log_only (check_failed S ev st) st
      | RunFinalized \<Rightarrow> log_only (run_finalized S ev st) st
      | AgentStalled \<Rightarrow> log_only (agent_stalled S ev st) st
      | PatrolDegraded \<Rightarrow> log_only (patrol_degraded S ev) st
      | SessionStreamCapped \<Rightarrow> Inr st
      | CampdStarted \<Rightarrow> Inr st
      | CampdStopped \<Rightarrow> Inr st
      | SessionInterrupted \<Rightarrow> log_only (audit (dec_session_interrupted S) ev) st
      | ControlResponded \<Rightarrow> log_only (audit (dec_control_responded S) ev) st
      | ControlFailed \<Rightarrow> log_only (control_failed S ev) st
      | SubscriberDropped \<Rightarrow> log_only (audit (dec_subscriber_dropped S) ev) st
      | ImportAdded \<Rightarrow> Inr st
      | ImportRefused \<Rightarrow> Inr st
      | FormulaRefused \<Rightarrow> log_only (formula_refused S ev) st
      | ShimRefused \<Rightarrow> log_only (audit (dec_shim_refused S) ev) st
      | WorkerDrainAcked \<Rightarrow> log_only (audit (dec_worker_drain_acked S) ev) st
      | PermissionPending \<Rightarrow> permission_pending S ev st
      | PermissionDecided \<Rightarrow> permission_decided S ev st
      | PermissionSaturated \<Rightarrow> log_only (audit (dec_permission_saturated S) ev) st)"

end
