(* ===== verification/Lifecycle.thy ===== *)
theory Lifecycle
  imports Fold
begin

text \<open>
  The life of one bead, as a state machine: the abstract contract of the bead handlers of
  \<open>Fold\<close>. A step takes the bead from one row (or from not existing) to the next. The handlers
  implement it: an event the fold accepts either appends one fresh bead or moves every row by
  at most one step.
\<close>

section \<open>The machine\<close>

text \<open>What a close may leave in a row (\<open>None\<close> for a column is SQL's \<open>NULL\<close>).\<close>

definition coherent ::
    "string option \<Rightarrow> string option \<Rightarrow> string option \<Rightarrow> string option \<Rightarrow> string option \<Rightarrow> bool" where
  "coherent outcome disposition work commit branch \<longleftrightarrow>
     (case outcome of
        None \<Rightarrow> False
      | Some oc \<Rightarrow>
          oc \<in> set CAMP_OUTCOMES \<and>
          (case disposition of
             None \<Rightarrow> True
           | Some d \<Rightarrow> d \<in> set CAMP_FINAL_DISPOSITIONS \<and> oc = ''fail'') \<and>
          (case work of
             None \<Rightarrow> commit = None \<and> branch = None
           | Some wo \<Rightarrow>
               wo = ''shipped'' \<and> oc = ''pass'' \<and> commit \<noteq> None \<and> branch \<noteq> None \<or>
               wo = ''no-op'' \<and> oc = ''pass'' \<and> commit = None \<and> branch = None \<or>
               wo \<in> {''blocked'', ''abandoned''} \<and> oc = ''fail'' \<and>
                 commit = None \<and> branch = None))"

definition close_coherent :: "bead \<Rightarrow> bool" where
  "close_coherent b \<longleftrightarrow>
     coherent (b_outcome b) (b_final_disposition b) (b_work_outcome b) (b_work_commit b)
       (b_work_branch b)"

definition fresh_bead :: "bead \<Rightarrow> bool" where
  "fresh_bead b \<longleftrightarrow>
     b_status b = Open \<and> b_claimed_by b = None \<and> b_outcome b = None \<and> b_close_reason b = None \<and>
     b_work_outcome b = None \<and> b_work_commit b = None \<and> b_work_branch b = None \<and>
     b_final_disposition b = None \<and> b_dispatch_failure b = None \<and> b_closed_ts b = None \<and>
     b_type b \<in> set BEAD_TYPES \<and> \<not> is_blank (b_title b) \<and> b_updated_ts b = b_created_ts b"

inductive bead_step :: "bead option \<Rightarrow> bead option \<Rightarrow> bool" where
  create: "fresh_bead b \<Longrightarrow> bead_step None (Some b)"
| claim: "b_status b = Open \<Longrightarrow>
    bead_step (Some b)
      (Some (b\<lparr>b_status := InProgress, b_claimed_by := Some s, b_work_branch := coalesce w (b_work_branch b),
               b_updated_ts := t, b_dispatch_failure := None\<rparr>))"
| reopen: "b_status b = InProgress \<Longrightarrow>
    bead_step (Some b) (Some (b\<lparr>b_status := Open, b_claimed_by := None, b_updated_ts := t\<rparr>))"
| finish: "b_status b \<noteq> Closed \<Longrightarrow> b' = b\<lparr>b_status := Closed, b_outcome := oc, b_close_reason := r,
      b_work_outcome := wo, b_work_commit := wc, b_work_branch := wb, b_final_disposition := d,
      b_closed_ts := Some t, b_updated_ts := t\<rparr> \<Longrightarrow> close_coherent b' \<Longrightarrow>
    bead_step (Some b) (Some b')"
| patch: "\<not> is_blank ti \<Longrightarrow>
    bead_step (Some b) (Some (b\<lparr>b_title := ti, b_description := de, b_updated_ts := t\<rparr>))"
| mark: "bead_step (Some b) (Some (b\<lparr>b_dispatch_failure := f, b_updated_ts := t\<rparr>))"

inductive_cases bead_step_SomeE: "bead_step (Some b) c"
inductive_cases bead_step_NoneE: "bead_step None c"
inductive_simps bead_step_to_None: "bead_step b None"

lemma bead_step_never_deletes [simp]: "\<not> bead_step b None"
  by (simp add: bead_step_to_None)

lemma bead_step_keeps_id: "bead_step (Some b) (Some b') \<Longrightarrow> b_id b' = b_id b"
  by (auto elim!: bead_step_SomeE)

section \<open>Invariants of the machine\<close>

definition bead_ok :: "bead \<Rightarrow> bool" where
  "bead_ok b \<longleftrightarrow>
     b_type b \<in> set BEAD_TYPES \<and> \<not> is_blank (b_title b) \<and>
     (case b_status b of
        Open \<Rightarrow> b_claimed_by b = None \<and> b_outcome b = None \<and> b_close_reason b = None \<and>
                b_work_outcome b = None \<and>
                b_work_commit b = None \<and> b_final_disposition b = None \<and> b_closed_ts b = None
      | InProgress \<Rightarrow> b_claimed_by b \<noteq> None \<and> b_outcome b = None \<and> b_close_reason b = None \<and>
                b_work_outcome b = None \<and>
                b_work_commit b = None \<and> b_final_disposition b = None \<and> b_closed_ts b = None
      | Closed \<Rightarrow> close_coherent b \<and> b_closed_ts b \<noteq> None)"

lemma fresh_bead_ok: "fresh_bead b \<Longrightarrow> bead_ok b"
  by (simp add: fresh_bead_def bead_ok_def)

lemma close_coherent_irrelevant [simp]:
  "close_coherent (b\<lparr>b_title := ti, b_description := de, b_updated_ts := t\<rparr>) = close_coherent b"
  "close_coherent (b\<lparr>b_dispatch_failure := f, b_updated_ts := t\<rparr>) = close_coherent b"
  by (simp_all add: close_coherent_def)

lemma bead_step_ok:
  assumes "bead_step c (Some b')" and "\<And>b. c = Some b \<Longrightarrow> bead_ok b"
  shows "bead_ok b'"
  using assms
proof (cases rule: bead_step.cases)
  case create
  then show ?thesis by (simp add: fresh_bead_ok)
next
  case (claim b s w t)
  then show ?thesis using assms(2) [of b] by (simp add: bead_ok_def)
next
  case (reopen b t)
  then show ?thesis using assms(2) [of b] by (simp add: bead_ok_def)
next
  case (finish b oc r wo wc wb d t)
  then show ?thesis using assms(2) [of b] by (simp add: bead_ok_def)
next
  case (patch ti b de t)
  then show ?thesis using assms(2) [of b]
    by (auto simp: bead_ok_def split: bead_status.splits)
next
  case (mark b f t)
  then show ?thesis using assms(2) [of b]
    by (auto simp: bead_ok_def split: bead_status.splits)
qed

text \<open>What a closed bead keeps for ever.\<close>

definition verdict ::
    "bead \<Rightarrow> bead_status \<times> string option \<times> string option \<times> string option \<times> string option
             \<times> string option \<times> string option \<times> string option" where
  "verdict b = (b_status b, b_outcome b, b_close_reason b, b_work_outcome b, b_work_commit b,
                b_work_branch b, b_final_disposition b, b_closed_ts b)"

lemma closed_keeps_verdict:
  assumes "bead_step (Some b) (Some b')" and "b_status b = Closed"
  shows "verdict b' = verdict b"
  using assms by (auto simp: verdict_def elim!: bead_step_SomeE)

lemma bead_step_check: "bead_ok b \<Longrightarrow> beads_check b"
  by (auto simp: bead_ok_def beads_check_def check_in_def close_coherent_def coherent_def CAMP_OUTCOMES_def
      CAMP_FINAL_DISPOSITIONS_def split: bead_status.splits option.splits)

section \<open>The rows of a state, side by side\<close>

definition row_evolves :: "bead \<Rightarrow> bead \<Rightarrow> bool" where
  "row_evolves b b' \<longleftrightarrow> b' = b \<or> bead_step (Some b) (Some b')"

lemma row_evolves_refl [simp]: "row_evolves b b"
  by (simp add: row_evolves_def)

lemma row_evolves_id: "row_evolves b b' \<Longrightarrow> b_id b' = b_id b"
  by (auto simp: row_evolves_def bead_step_keeps_id)

lemma row_evolves_ok: "row_evolves b b' \<Longrightarrow> bead_ok b \<Longrightarrow> bead_ok b'"
  using bead_step_ok by (auto simp: row_evolves_def)

lemma rows_evolve_map:
  "list_all2 row_evolves bs (map g bs) \<longleftrightarrow> (\<forall>b \<in> set bs. row_evolves b (g b))"
  by (induction bs) auto

lemma rows_evolve_refl [simp]: "list_all2 row_evolves bs bs"
  by (simp add: list.rel_refl)

lemma rows_evolve_ids: "list_all2 row_evolves bs bs' \<Longrightarrow> map b_id bs' = map b_id bs"
  by (induction rule: list_all2_induct) (simp_all add: row_evolves_id)

lemma rows_evolve_find:
  assumes "list_all2 row_evolves bs bs'"
  shows "rel_option row_evolves (find (\<lambda>b. b_id b = i) bs) (find (\<lambda>b. b_id b = i) bs')"
  using assms by (induction rule: list_all2_induct) (auto simp: row_evolves_id)

text \<open>The two shapes an accepted event leaves the table of beads in.\<close>

definition beads_evolve :: "state \<Rightarrow> state \<Rightarrow> bool" where
  "beads_evolve st st' \<longleftrightarrow>
     list_all2 row_evolves (beads st) (beads st') \<or>
     (\<exists>b. fresh_bead b \<and> b_id b \<notin> b_id ` set (beads st) \<and> beads st' = beads st @ [b])"

lemma beads_evolve_same: "beads st' = beads st \<Longrightarrow> beads_evolve st st'"
  by (simp add: beads_evolve_def)

lemma beads_evolve_map:
  "beads st' = map g (beads st) \<Longrightarrow> (\<And>b. b \<in> set (beads st) \<Longrightarrow> row_evolves b (g b)) \<Longrightarrow>
   beads_evolve st st'"
  by (simp add: beads_evolve_def rows_evolve_map)

text \<open>The state as the machines see it: at every id, at most one step.\<close>

lemma beads_evolve_at:
  assumes "beads_evolve st st'"
  shows "bead_at st' i = bead_at st i \<or> bead_step (bead_at st i) (bead_at st' i)"
  using assms unfolding beads_evolve_def
proof
  assume "list_all2 row_evolves (beads st) (beads st')"
  then have "rel_option row_evolves (bead_at st i) (bead_at st' i)"
    unfolding bead_at_def sql_find_def by (rule rows_evolve_find)
  then show ?thesis
    by (cases "bead_at st i"; cases "bead_at st' i") (auto simp: row_evolves_def)
next
  assume "\<exists>b. fresh_bead b \<and> b_id b \<notin> b_id ` set (beads st) \<and> beads st' = beads st @ [b]"
  then obtain b where b: "fresh_bead b" "b_id b \<notin> b_id ` set (beads st)"
    and st': "beads st' = beads st @ [b]" by blast
  have at: "bead_at st' i = (case bead_at st i of
      Some r \<Rightarrow> Some r | None \<Rightarrow> if b_id b = i then Some b else None)"
    using bead_table.find_after_append [of i st b] by (simp add: bead_at_def st')
  show ?thesis
  proof (cases "bead_at st i")
    case None
    then show ?thesis using at b(1) by (simp add: bead_step.create)
  next
    case (Some r)
    then show ?thesis using at by simp
  qed
qed

section \<open>The handlers implement the machine\<close>

lemma write_meta_beads: "write_meta ev i k v st = Inr st' \<Longrightarrow> beads st' = beads st"
  by (auto simp: write_meta_def upsert_meta_Inr split: option.splits if_splits)

lemma insert_need_beads: "insert_need ev i st n = Inr st' \<Longrightarrow> beads st' = beads st"
  by (auto simp: insert_need_def insert_dep_Inr split: if_splits prod.splits)

lemma foldM_keeps:
  assumes "foldM f s xs = Inr t" and "\<And>s x s'. f s x = Inr s' \<Longrightarrow> g s' = g s"
  shows "g t = g s"
  using foldM_invariant [OF assms(1), of "\<lambda>u. g u = g s"] assms(2) by metis

lemma metadata_loop_beads:
  "foldM (\<lambda>s (k, v). write_meta ev i k v s) st kvs = Inr st' \<Longrightarrow> beads st' = beads st"
  by (rule foldM_keeps [where g = beads]) (auto intro: write_meta_beads)

lemma needs_loop_beads: "foldM (insert_need ev i) st ns = Inr st' \<Longrightarrow> beads st' = beads st"
  by (rule foldM_keeps [where g = beads]) (auto intro: insert_need_beads)

lemma patch_meta_beads: "patch_meta ev i st kv = Inr st' \<Longrightarrow> beads st' = beads st"
  by (auto simp: patch_meta_def delete_meta_def split: prod.splits option.splits
      dest: write_meta_beads)

lemma patch_loop_beads: "foldM (patch_meta ev i) st kvs = Inr st' \<Longrightarrow> beads st' = beads st"
  by (rule foldM_keeps [where g = beads]) (auto intro: patch_meta_beads)

lemma bump_counter_beads: "bump_counter i st = Inr st' \<Longrightarrow> beads st' = beads st"
  by (auto simp: bump_counter_def split: option.splits)

lemma bead_created_beads:
  assumes "bead_created S ev st = Inr st'"
  obtains i rig p where "ev_bead ev = Some i" and "ev_rig ev = Some rig"
    and "dec_bead_created S (ev_data ev) = Inr p" and "bc_bead_type p \<in> set BEAD_TYPES"
    and "\<not> is_blank (bc_title p)" and "i \<notin> b_id ` set (beads st)"
    and "beads st' = beads st @ [new_bead S ev i rig p]"
proof -
  from assms obtain i rig p st2 st3 where i: "ev_bead ev = Some i" and rig: "ev_rig ev = Some rig"
    and p: "dec_bead_created S (ev_data ev) = Inr p" and ty: "bc_bead_type p \<in> set BEAD_TYPES"
    and ti: "\<not> is_blank (bc_title p)"
    and new: "b_id (new_bead S ev i rig p) \<notin> b_id ` set (beads st)"
    and needs: "foldM (insert_need ev i)
        (st\<lparr>beads := beads st @ [new_bead S ev i rig p]\<rparr>) (bc_needs p) = Inr st2"
    and meta: "foldM (\<lambda>s (k, v). write_meta ev i k v s) st2 (bc_metadata p) = Inr st3"
    and bump: "bump_counter i (insert_search i Body
        (body_content (bc_title p) (bc_description p)) st3) = Inr st'"
    by (auto simp: bead_created_def split: option.splits)
  have "beads st' = beads st @ [new_bead S ev i rig p]"
    using needs_loop_beads [OF needs] metadata_loop_beads [OF meta] bump_counter_beads [OF bump]
    by (simp add: insert_search_def)
  moreover have "i \<notin> b_id ` set (beads st)"
    using new by (simp add: new_bead_def)
  ultimately show thesis using that i rig p ty ti by blast
qed

lemma new_bead_fresh:
  "bc_bead_type p \<in> set BEAD_TYPES \<Longrightarrow> \<not> is_blank (bc_title p) \<Longrightarrow> fresh_bead (new_bead S ev i rig p)"
  by (simp add: fresh_bead_def new_bead_def)

lemma bead_created_evolve: "bead_created S ev st = Inr st' \<Longrightarrow> beads_evolve st st'"
proof (erule bead_created_beads)
  fix i rig p
  assume "bc_bead_type p \<in> set BEAD_TYPES" "\<not> is_blank (bc_title p)" "i \<notin> b_id ` set (beads st)"
    and "beads st' = beads st @ [new_bead S ev i rig p]"
  then show ?thesis
    unfolding beads_evolve_def using new_bead_fresh [of p S ev i rig]
    by (intro disjI2 exI [of _ "new_bead S ev i rig p"]) (simp add: new_bead_def)
qed

lemma clear_marker_id [simp]: "b_dispatch_failure b = None \<Longrightarrow> b\<lparr>b_dispatch_failure := None\<rparr> = b"
  by (cases b) simp

lemma mark_only_failure: "b\<lparr>b_dispatch_failure := f, b_updated_ts := b_updated_ts b\<rparr> = b\<lparr>b_dispatch_failure := f\<rparr>"
  by (cases b) (simp only: bead.simps)

lemma mark_same_ts: "row_evolves b (b\<lparr>b_dispatch_failure := f\<rparr>)"
  unfolding row_evolves_def
  by (rule disjI2) (rule bead_step.mark [where b = b and f = f and t = "b_updated_ts b", unfolded mark_only_failure])

lemma clear_dispatch_failure_beads:
  "clear_dispatch_failure i st = Inr st' \<Longrightarrow>
   beads st' = map (\<lambda>b. if b_id b = i then b\<lparr>b_dispatch_failure := None\<rparr> else b) (beads st)"
  by (auto simp: clear_dispatch_failure_def)

lemma bead_status_of_row:
  assumes "table_ok b_id beads_check (beads st)" and "bead_status st (b_id b) = Some s"
    and "b \<in> set (beads st)"
  shows "b_status b = s"
proof -
  have "bead_at st (b_id b) = Some b" using assms(1,3) by (simp add: bead_at_iff)
  then show ?thesis using assms(2) by (simp add: bead_status_def)
qed

lemma bead_claimed_Inr:
  assumes "bead_claimed S ev st = Inr st'"
  obtains i p where "ev_bead ev = Some i" and "dec_bead_claimed S (ev_data ev) = Inr p"
    and "bead_status st i = Some Open"
    and "clear_dispatch_failure i
      (st\<lparr>beads := map (\<lambda>b. if b_id b = i then claim_row ev p b else b) (beads st)\<rparr>) = Inr st'"
proof -
  from assms obtain i p where i: "ev_bead ev = Some i"
    and p: "dec_bead_claimed S (ev_data ev) = Inr p"
    and rest: "(case bead_status st i of
          None \<Rightarrow> Inl (UnknownBead i)
        | Some Open \<Rightarrow>
            rbind (update_beads (\<lambda>b. b_id b = i) (claim_row ev p) st) (\<lambda>st1.
              clear_dispatch_failure i st1)
        | Some status \<Rightarrow>
            Inl (InvalidTransition i (Msg ''cannot claim a bead with status {status:?}''
              [bead_status_str status]))) = Inr st'"
    unfolding bead_claimed_def by auto
  then have "bead_status st i = Some Open" by (auto split: option.splits bead_status.splits)
  then show thesis using that i p rest by auto
qed

lemma bead_claimed_evolve:
  assumes ok: "table_ok b_id beads_check (beads st)" and run: "bead_claimed S ev st = Inr st'"
  shows "beads_evolve st st'"
proof -
  from run obtain i p where open_i: "bead_status st i = Some Open"
    and clear: "clear_dispatch_failure i
      (st\<lparr>beads := map (\<lambda>b. if b_id b = i then claim_row ev p b else b) (beads st)\<rparr>) = Inr st'"
    by (rule bead_claimed_Inr)
  define g where "g b = (if b_id b = i then (claim_row ev p b)\<lparr>b_dispatch_failure := None\<rparr> else b)"
    for b
  have "beads st' = map g (beads st)"
    using clear_dispatch_failure_beads [OF clear] by (auto simp: g_def claim_row_def)
  moreover have "row_evolves b (g b)" if "b \<in> set (beads st)" for b
  proof (cases "b_id b = i")
    case True
    then have "b_status b = Open" using bead_status_of_row [OF ok] open_i that by blast
    then have "bead_step (Some b) (Some (g b))"
      using bead_step.claim [where b = b and s = "bcl_session p" and w = "bcl_work_branch p"
          and t = "ev_ts ev"] True
      by (simp add: g_def claim_row_def)
    then show ?thesis by (simp add: row_evolves_def)
  qed (simp add: g_def)
  ultimately show ?thesis by (rule beads_evolve_map)
qed

lemma bead_updated_beads:
  assumes "bead_updated S ev st = Inr st'"
  obtains i p where "ev_bead ev = Some i" and "dec_bead_updated S (ev_data ev) = Inr p"
    and "\<And>t. bu_title p = Some t \<Longrightarrow> \<not> is_blank t" and "bead_status st i \<noteq> None"
    and "beads st' = map (\<lambda>b. if b_id b = i then patch_row ev p b else b) (beads st)"
proof -
  from assms obtain i p st1 where i: "ev_bead ev = Some i"
    and p: "dec_bead_updated S (ev_data ev) = Inr p"
    and t: "\<not> (case bu_title p of Some t \<Rightarrow> is_blank t | None \<Rightarrow> False)"
    and known: "bead_status st i \<noteq> None"
    and meta: "foldM (patch_meta ev i) st (bu_metadata p) = Inr st1"
    and st': "st' = rewrite_body_search_row i
        (st1\<lparr>beads := map (\<lambda>b. if b_id b = i then patch_row ev p b else b) (beads st1)\<rparr>)"
    by (auto simp: bead_updated_def)
  have "beads st' = map (\<lambda>b. if b_id b = i then patch_row ev p b else b) (beads st)"
    using patch_loop_beads [OF meta] by (simp add: st' rewrite_body_search_row_def)
  moreover have "\<And>t. bu_title p = Some t \<Longrightarrow> \<not> is_blank t" using t by simp
  ultimately show thesis using that [OF i p _ known] by blast
qed

lemma bead_updated_evolve:
  assumes "list_all bead_ok (beads st)" and "bead_updated S ev st = Inr st'"
  shows "beads_evolve st st'"
  using assms(2)
proof (rule bead_updated_beads)
  fix i p
  assume t: "\<And>t. bu_title p = Some t \<Longrightarrow> \<not> is_blank t"
    and st': "beads st' = map (\<lambda>b. if b_id b = i then patch_row ev p b else b) (beads st)"
  have "row_evolves b (if b_id b = i then patch_row ev p b else b)" if "b \<in> set (beads st)" for b
  proof -
    have "\<not> is_blank (b_title b)"
      using assms(1) that by (auto simp: list_all_iff bead_ok_def)
    then have "\<not> is_blank (case bu_title p of Some t \<Rightarrow> t | None \<Rightarrow> b_title b)"
      using t by (auto split: option.splits)
    then show ?thesis by (simp add: row_evolves_def patch_row_def bead_step.patch)
  qed
  with st' show ?thesis by (rule beads_evolve_map)
qed

lemma check_final_disposition_Inr:
  "check_final_disposition ev p = Inr u \<longleftrightarrow>
     (case bx_final_disposition p of
        None \<Rightarrow> True
      | Some d \<Rightarrow> d \<in> set CAMP_FINAL_DISPOSITIONS \<and> bx_outcome p = ''fail'')"
  by (simp add: check_final_disposition_def split: option.split)

lemma check_work_outcome_Inr:
  assumes "check_work_outcome ev p = Inr u" and "bx_outcome p \<in> set CAMP_OUTCOMES"
    and "check_final_disposition ev p = Inr u'"
  shows "coherent (Some (bx_outcome p)) (bx_final_disposition p) (bx_work_outcome p)
           (bx_work_commit p) (bx_work_branch p)"
proof (cases "bx_work_outcome p")
  case None
  then show ?thesis
    using assms by (simp add: check_work_outcome_def coherent_def check_final_disposition_Inr
        split: if_splits)
next
  case (Some wo)
  then have "wo \<in> {''shipped'', ''no-op'', ''blocked'', ''abandoned''}"
    using assms(1) by (auto simp: check_work_outcome_def CAMP_WORK_OUTCOMES_def Let_def
        split: if_splits)
  then consider "wo = ''shipped''" | "wo = ''no-op''" | "wo = ''blocked''" | "wo = ''abandoned''"
    by blast
  then show ?thesis
    using assms Some
    by cases (simp_all add: check_work_outcome_def coherent_def check_final_disposition_Inr
        Let_def split: if_splits)
qed

lemma checks_coherent:
  assumes "bx_outcome p \<in> set CAMP_OUTCOMES" and "check_final_disposition ev p = Inr ()"
    and "check_work_outcome ev p = Inr ()"
  shows "close_coherent (close_row ev p b)"
  using check_work_outcome_Inr [OF assms(3,1,2)] by (simp add: close_coherent_def close_row_def)

lemma bead_closed_beads:
  assumes "bead_closed S ev st = Inr st'"
  obtains i p s where "ev_bead ev = Some i" and "dec_bead_closed S (ev_data ev) = Inr p"
    and "bead_status st i = Some s" and "s \<noteq> Closed"
    and "\<And>b. close_coherent (close_row ev p b)"
    and "st' = index_reason i (bx_reason p)
           (st\<lparr>beads := map (\<lambda>b. if b_id b = i then close_row ev p b else b) (beads st)\<rparr>)"
proof -
  from assms obtain i p where i: "ev_bead ev = Some i"
    and p: "dec_bead_closed S (ev_data ev) = Inr p"
    and oc: "bx_outcome p \<in> set CAMP_OUTCOMES"
    and checks: "check_final_disposition ev p = Inr ()" "check_work_outcome ev p = Inr ()"
    and rest: "(case bead_status st i of
          None \<Rightarrow> Inl (UnknownBead i)
        | Some Closed \<Rightarrow> Inl (InvalidTransition i (Msg ''bead is already closed'' []))
        | Some _ \<Rightarrow>
            rbind (update_beads (\<lambda>b. b_id b = i) (close_row ev p) st) (\<lambda>st1.
              Inr (index_reason i (bx_reason p) st1))) = Inr st'"
    unfolding bead_closed_def by auto
  from rest obtain s where "bead_status st i = Some s" and "s \<noteq> Closed"
    and "st' = index_reason i (bx_reason p)
           (st\<lparr>beads := map (\<lambda>b. if b_id b = i then close_row ev p b else b) (beads st)\<rparr>)"
    by (auto split: option.splits bead_status.splits)
  then show thesis using that i p checks_coherent [OF oc checks] by blast
qed

lemma index_reason_beads [simp]: "beads (index_reason i r st) = beads st"
  by (simp add: index_reason_def insert_search_def split: option.split)

lemma bead_closed_evolve:
  assumes ok: "table_ok b_id beads_check (beads st)" and run: "bead_closed S ev st = Inr st'"
  shows "beads_evolve st st'"
  using run
proof (rule bead_closed_beads)
  fix i p s
  assume s: "bead_status st i = Some s" "s \<noteq> Closed"
    and coh: "\<And>b. close_coherent (close_row ev p b)"
    and st': "st' = index_reason i (bx_reason p)
           (st\<lparr>beads := map (\<lambda>b. if b_id b = i then close_row ev p b else b) (beads st)\<rparr>)"
  have rows: "row_evolves b (if b_id b = i then close_row ev p b else b)"
    if "b \<in> set (beads st)" for b
  proof (cases "b_id b = i")
    case True
    then have "b_status b \<noteq> Closed" using bead_status_of_row [OF ok] s that by blast
    then have "bead_step (Some b) (Some (close_row ev p b))"
      by (rule bead_step.finish [OF _ close_row_def coh])
    then show ?thesis using True by (simp add: row_evolves_def)
  qed simp
  show ?thesis
    by (rule beads_evolve_map [where g = "\<lambda>b. if b_id b = i then close_row ev p b else b"])
      (simp_all only: rows, simp add: st')
qed

lemma update_rows_evolve:
  assumes "\<And>b. q b \<Longrightarrow> row_evolves b (f b)"
  shows "beads_evolve st (st\<lparr>beads := map (\<lambda>b. if q b then f b else b) (beads st)\<rparr>)"
  by (rule beads_evolve_map [where g = "\<lambda>b. if q b then f b else b"]) (simp_all add: assms)

lemma dispatch_failed_evolve: "dispatch_failed S ev st = Inr st' \<Longrightarrow> beads_evolve st st'"
  by (auto simp: dispatch_failed_def row_evolves_def bead_step.mark intro!: update_rows_evolve)

lemma dispatch_rearmed_evolve: "dispatch_rearmed S ev st = Inr st' \<Longrightarrow> beads_evolve st st'"
  by (auto simp: dispatch_rearmed_def row_evolves_def bead_step.mark intro!: update_rows_evolve)

lemma session_woke_evolve:
  assumes "session_woke S ev st = Inr st'"
  shows "beads_evolve st st'"
proof -
  from assms obtain p where run: "(case sw_bead p of
        Some bead \<Rightarrow> clear_dispatch_failure bead (st\<lparr>sessions := sessions st @ [woke_row ev p]\<rparr>)
      | None \<Rightarrow> Inr (st\<lparr>sessions := sessions st @ [woke_row ev p]\<rparr>)) = Inr st'"
    by (auto simp: session_woke_def)
  show ?thesis
  proof (cases "sw_bead p")
    case None
    then show ?thesis using run by (auto intro: beads_evolve_same)
  next
    case (Some i)
    then have "beads st' = map (\<lambda>b. if b_id b = i then b\<lparr>b_dispatch_failure := None\<rparr> else b) (beads st)"
      using run by (auto dest: clear_dispatch_failure_beads)
    then show ?thesis by (rule beads_evolve_map) (simp add: mark_same_ts)
  qed
qed

definition end_session_rows :: "'j event \<Rightarrow> string \<Rightarrow> session_status \<Rightarrow> session list \<Rightarrow> session list" where
  "end_session_rows ev n new_status =
     map (\<lambda>s. if s_name s = n then s\<lparr>s_status := new_status, s_ended_ts := Some (ev_ts ev)\<rparr> else s)"

definition reopen_rows :: "'j event \<Rightarrow> string \<Rightarrow> bead list \<Rightarrow> bead list" where
  "reopen_rows ev n =
     map (\<lambda>b. if b_claimed_by b = Some n \<and> b_status b = InProgress then reopen_row ev b else b)"

lemma session_ended_Inr:
  assumes "session_ended S ev new_status st = Inr st'"
  obtains p where "dec_session_end S (ev_data ev) = Inr p"
    and "map_option s_status (session_at st (se_name p)) = Some Live"
    and "st' = st\<lparr>sessions := end_session_rows ev (se_name p) new_status (sessions st),
           beads := (if new_status = Crashed then reopen_rows ev (se_name p) (beads st)
                     else beads st)\<rparr>"
proof -
  from assms obtain p where p: "dec_session_end S (ev_data ev) = Inr p"
    and rest: "(case map_option s_status (session_at st (se_name p)) of
          None \<Rightarrow> Inl (UnknownSession (se_name p))
        | Some Live \<Rightarrow>
            rbind (update_sessions (\<lambda>s. s_name s = se_name p)
                     (\<lambda>s. s\<lparr>s_status := new_status, s_ended_ts := Some (ev_ts ev)\<rparr>) st)
              (\<lambda>(st1, _).
                if new_status = Crashed
                then update_beads
                       (\<lambda>b. b_claimed_by b = Some (se_name p) \<and> b_status b = InProgress)
                       (reopen_row ev) st1
                else Inr st1)
        | Some s \<Rightarrow>
            Inl (InvalidTransition (se_name p)
              (Msg ''session already ended with status {s:?}'' [session_status_str s]))) = Inr st'"
    unfolding session_ended_def by auto
  then have live: "map_option s_status (session_at st (se_name p)) = Some Live"
    by (simp split: option.splits session_status.splits)
  with rest have "st' = st\<lparr>sessions := end_session_rows ev (se_name p) new_status (sessions st),
           beads := (if new_status = Crashed then reopen_rows ev (se_name p) (beads st)
                     else beads st)\<rparr>"
    by (auto simp: end_session_rows_def reopen_rows_def split: if_splits)
  with p live show thesis by (rule that)
qed

lemma reopen_rows_evolve: "list_all2 row_evolves bs (reopen_rows ev n bs)"
  by (simp add: reopen_rows_def rows_evolve_map row_evolves_def reopen_row_def bead_step.reopen)

lemma session_ended_evolve: "session_ended S ev s st = Inr st' \<Longrightarrow> beads_evolve st st'"
  by (erule session_ended_Inr) (simp add: beads_evolve_def reopen_rows_evolve)

lemma session_pid_evolve: "session_pid S ev st = Inr st' \<Longrightarrow> beads_evolve st st'"
  by (auto simp: session_pid_def split: if_splits intro!: beads_evolve_same)

lemma permission_pending_evolve: "permission_pending S ev st = Inr st' \<Longrightarrow> beads_evolve st st'"
  by (auto simp: permission_pending_def intro!: beads_evolve_same)

lemma permission_decided_evolve: "permission_decided S ev st = Inr st' \<Longrightarrow> beads_evolve st st'"
  by (auto simp: permission_decided_def split: if_splits prod.splits intro!: beads_evolve_same)

lemma log_only_Inr [simp]: "log_only r st = Inr st' \<longleftrightarrow> (\<exists>u. r = Inr u) \<and> st' = st"
  by (auto simp: log_only_def)

text \<open>An accepted event came from one of the eleven state-changing handlers, or kept the state.\<close>

lemma fold_apply_cases:
  assumes "fold_apply S st ev = Inr st'"
  obtains "st' = st"
    | "ev_kind ev = BeadCreated" "bead_created S ev st = Inr st'"
    | "ev_kind ev = BeadClaimed" "bead_claimed S ev st = Inr st'"
    | "ev_kind ev = BeadUpdated" "bead_updated S ev st = Inr st'"
    | "ev_kind ev = BeadClosed" "bead_closed S ev st = Inr st'"
    | "ev_kind ev = SessionWoke" "session_woke S ev st = Inr st'"
    | "ev_kind ev = SessionPid" "session_pid S ev st = Inr st'"
    | "ev_kind ev = SessionStopped" "session_ended S ev Stopped st = Inr st'"
    | "ev_kind ev = SessionCrashed" "session_ended S ev Crashed st = Inr st'"
    | "ev_kind ev = DispatchFailed" "dispatch_failed S ev st = Inr st'"
    | "ev_kind ev = DispatchRearmed" "dispatch_rearmed S ev st = Inr st'"
    | "ev_kind ev = PermissionPending" "permission_pending S ev st = Inr st'"
    | "ev_kind ev = PermissionDecided" "permission_decided S ev st = Inr st'"
  using assms unfolding fold_apply_def
  by (cases "ev_kind ev") auto

lemmas handler_evolve =
  bead_created_evolve bead_claimed_evolve bead_updated_evolve bead_closed_evolve
  session_woke_evolve session_pid_evolve session_ended_evolve dispatch_failed_evolve
  dispatch_rearmed_evolve permission_pending_evolve permission_decided_evolve

lemma fold_apply_evolve:
  assumes "fold_apply S st ev = Inr st'" and "table_ok b_id beads_check (beads st)"
    and "list_all bead_ok (beads st)"
  shows "beads_evolve st st'"
  using assms(1) by (rule fold_apply_cases) (auto intro: handler_evolve assms beads_evolve_same)

end
