(* ===== verification/Invariants.thy ===== *)
theory Invariants
  imports Lifecycle
begin

text \<open>
  The invariant of the state tables and its preservation by the fold: primary keys, \<open>CHECK\<close>s
  and foreign keys, the shape of a bead in each status, the counters that make allocated ids
  fresh, metadata that never shadows a column, and the search index as an exact copy of the
  bodies and close reasons of the beads.
\<close>

section \<open>The invariant\<close>

definition ids :: "state \<Rightarrow> string set" where
  "ids st = b_id ` set (beads st)"

definition projected_key :: "string \<Rightarrow> bool" where
  "projected_key k \<longleftrightarrow> k \<in> fst ` set PROJECTED_METADATA"

definition meta_ok :: "string set \<Rightarrow> meta_row list \<Rightarrow> bool" where
  "meta_ok is ms \<longleftrightarrow>
     table_ok meta_key (\<lambda>_. True) ms \<and>
     list_all (\<lambda>m. m_bead m \<in> is \<and> \<not> projected_key (m_key m)) ms"

definition deps_ok :: "string set \<Rightarrow> dep_row list \<Rightarrow> bool" where
  "deps_ok is ds \<longleftrightarrow> table_ok dep_key (\<lambda>_. True) ds \<and> list_all (\<lambda>d. d_bead d \<in> is) ds"

definition session_ok :: "session \<Rightarrow> bool" where
  "session_ok s \<longleftrightarrow> (s_status s = Live \<longleftrightarrow> s_ended_ts s = None)"

definition sessions_ok :: "session list \<Rightarrow> bool" where
  "sessions_ok ss \<longleftrightarrow> table_ok s_name (\<lambda>_. True) ss \<and> list_all session_ok ss"

definition permission_ok :: "permission \<Rightarrow> bool" where
  "permission_ok p \<longleftrightarrow>
     (case p_status p of
        Pending \<Rightarrow> p_decision p = None \<and> p_decided_by p = None \<and> p_decided_ts p = None
      | Decided \<Rightarrow> (\<exists>d \<in> set PERMISSION_DECISIONS. p_decision p = Some d) \<and>
                   p_decided_by p \<noteq> None \<and> p_decided_ts p \<noteq> None)"

definition permissions_ok :: "permission list \<Rightarrow> bool" where
  "permissions_ok ps \<longleftrightarrow> table_ok p_request_id permissions_check ps \<and> list_all permission_ok ps"

definition counter_of :: "counter_row list \<Rightarrow> string \<Rightarrow> int option" where
  "counter_of cs p = map_option c_high (sql_find (\<lambda>c. c_prefix c = p) cs)"

text \<open>The id is well formed and its number is at most the counter of its prefix.\<close>

definition covered :: "counter_row list \<Rightarrow> string \<Rightarrow> bool" where
  "covered cs i =
     (case parse_bead_id i of
        None \<Rightarrow> False
      | Some (p, n) \<Rightarrow> (case counter_of cs p of None \<Rightarrow> False | Some h \<Rightarrow> n \<le> h))"

definition counters_ok :: "string set \<Rightarrow> counter_row list \<Rightarrow> bool" where
  "counters_ok is cs \<longleftrightarrow>
     table_ok c_prefix (\<lambda>_. True) cs \<and>
     list_all (\<lambda>c. 0 \<le> c_high c \<and> c_high c \<le> i64_max) cs \<and> (\<forall>i \<in> is. covered cs i)"

definition body_row :: "bead \<Rightarrow> search_row" where
  "body_row b =
     \<lparr>sr_bead = b_id b, sr_kind = Body, sr_content = body_content (b_title b) (b_description b)\<rparr>"

definition reason_rows :: "bead \<Rightarrow> search_row list" where
  "reason_rows b =
     (case b_close_reason b of
        None \<Rightarrow> []
      | Some r \<Rightarrow> if r = [] then [] else [\<lparr>sr_bead = b_id b, sr_kind = Close, sr_content = r\<rparr>])"

definition rows_for :: "string \<Rightarrow> search_kind \<Rightarrow> search_row list \<Rightarrow> search_row list" where
  "rows_for i k rs = filter (\<lambda>r. sr_bead r = i \<and> sr_kind r = k) rs"

definition indexed :: "search_row list \<Rightarrow> bead \<Rightarrow> bool" where
  "indexed rs b \<longleftrightarrow>
     rows_for (b_id b) Body rs = [body_row b] \<and> rows_for (b_id b) Close rs = reason_rows b"

definition search_ok :: "bead list \<Rightarrow> search_row list \<Rightarrow> bool" where
  "search_ok bs rs \<longleftrightarrow>
     list_all (indexed rs) bs \<and> list_all (\<lambda>r. sr_bead r \<in> b_id ` set bs) rs"

definition beads_ok :: "bead list \<Rightarrow> bool" where
  "beads_ok bs \<longleftrightarrow> distinct (map b_id bs) \<and> list_all bead_ok bs"

definition wf_state :: "state \<Rightarrow> bool" where
  "wf_state st \<longleftrightarrow>
     beads_ok (beads st) \<and> meta_ok (ids st) (bead_meta st) \<and> deps_ok (ids st) (deps st) \<and>
     sessions_ok (sessions st) \<and> search_ok (beads st) (search st) \<and>
     counters_ok (ids st) (counters st) \<and> permissions_ok (permissions st)"

lemma wf_empty [simp]: "wf_state empty_state"
  by (simp add: wf_state_def empty_state_def beads_ok_def meta_ok_def deps_ok_def sessions_ok_def
      search_ok_def counters_ok_def permissions_ok_def ids_def table_ok_def)

lemma wf_beads_table: "wf_state st \<Longrightarrow> table_ok b_id beads_check (beads st)"
  by (auto simp: wf_state_def beads_ok_def table_ok_def list_all_iff bead_step_check)

lemma wf_beads_ok: "wf_state st \<Longrightarrow> list_all bead_ok (beads st)"
  by (simp add: wf_state_def beads_ok_def)

section \<open>Writes that keep a table in order\<close>

lemma meta_ok_upsert:
  assumes "meta_ok is ms" and "m_bead r \<in> is" and "\<not> projected_key (m_key r)"
  shows "meta_ok is (sql_upsert meta_key (\<lambda>m. m\<lparr>m_value := v\<rparr>) r ms)"
proof (cases "meta_key r \<in> meta_key ` set ms")
  case True
  have "map meta_key (map (\<lambda>x. if meta_key x = meta_key r then x\<lparr>m_value := v\<rparr> else x) ms)
      = map meta_key ms"
    by (simp add: meta_key_def)
  with True assms show ?thesis
    by (auto simp: meta_ok_def sql_upsert_def table_ok_def list_all_iff simp del: map_map)
next
  case False
  with assms show ?thesis by (auto simp: meta_ok_def sql_upsert_def table_ok_def)
qed

lemma write_meta_Inr:
  assumes "write_meta ev i k v st = Inr st'"
  obtains ms where "st' = st\<lparr>bead_meta := ms\<rparr>"
    and "meta_ok (ids st) (bead_meta st) \<Longrightarrow> meta_ok (ids st) ms"
proof -
  from assms have none: "find (\<lambda>(k', _). k' = k) PROJECTED_METADATA = None"
    and run: "upsert_meta i k v st = Inr st'"
    by (auto simp: write_meta_def split: option.splits if_splits)
  have "\<not> projected_key k"
    using none by (auto simp: find_None_iff projected_key_def)
  with run show thesis
    by (intro that [of "bead_meta st'"]) (auto simp: upsert_meta_Inr ids_def intro!: meta_ok_upsert)
qed

text \<open>A loop over metadata changes no other table.\<close>

definition only_meta :: "state \<Rightarrow> state \<Rightarrow> bool" where
  "only_meta st st' \<longleftrightarrow>
     st' = st\<lparr>bead_meta := bead_meta st'\<rparr> \<and>
     (meta_ok (ids st) (bead_meta st) \<longrightarrow> meta_ok (ids st) (bead_meta st'))"

lemma only_meta_refl [simp]: "only_meta st st"
  by (simp add: only_meta_def)

lemma ids_meta [simp]: "ids (st\<lparr>bead_meta := ms\<rparr>) = ids st"
  by (simp add: ids_def)

lemma only_meta_trans:
  assumes "only_meta s t" and "only_meta t u"
  shows "only_meta s u"
proof -
  from assms have t: "t = s\<lparr>bead_meta := bead_meta t\<rparr>" and u: "u = t\<lparr>bead_meta := bead_meta u\<rparr>"
    unfolding only_meta_def by blast+
  have "ids t = ids s" by (subst t) simp
  moreover have "u = s\<lparr>bead_meta := bead_meta u\<rparr>" by (subst u, subst t) simp
  ultimately show ?thesis using assms by (simp add: only_meta_def)
qed

lemma write_meta_only_meta: "write_meta ev i k v st = Inr st' \<Longrightarrow> only_meta st st'"
  by (erule write_meta_Inr) (simp add: only_meta_def)

lemma patch_meta_only_meta:
  assumes "patch_meta ev i st kv = Inr st'"
  shows "only_meta st st'"
proof (cases kv)
  case (Pair k v)
  show ?thesis
  proof (cases v)
    case None
    then have "st' = delete_meta i k st" using assms Pair by (simp add: patch_meta_def)
    then show ?thesis
      by (auto simp: only_meta_def delete_meta_def meta_ok_def table_ok_def list_all_iff
          distinct_map_filter)
  next
    case (Some w)
    then show ?thesis using assms Pair by (auto simp: patch_meta_def intro: write_meta_only_meta)
  qed
qed

lemma metadata_loop_only_meta:
  assumes "foldM (\<lambda>s (k, v). write_meta ev i k v s) st kvs = Inr st'"
  shows "only_meta st st'"
  using assms
  by (rule foldM_invariant [where P = "only_meta st"])
    (auto intro: only_meta_trans write_meta_only_meta)

lemma patch_loop_only_meta:
  assumes "foldM (patch_meta ev i) st kvs = Inr st'"
  shows "only_meta st st'"
  using assms
  by (rule foldM_invariant [where P = "only_meta st"])
    (auto intro: only_meta_trans patch_meta_only_meta)

text \<open>The loop over the needs of a new bead.\<close>

definition only_deps :: "state \<Rightarrow> state \<Rightarrow> bool" where
  "only_deps st st' \<longleftrightarrow>
     st' = st\<lparr>deps := deps st'\<rparr> \<and>
     (deps_ok (ids st) (deps st) \<longrightarrow> deps_ok (ids st) (deps st'))"

lemma only_deps_refl [simp]: "only_deps st st"
  by (simp add: only_deps_def)

lemma ids_deps [simp]: "ids (st\<lparr>deps := ds\<rparr>) = ids st"
  by (simp add: ids_def)

lemma only_deps_trans:
  assumes "only_deps s t" and "only_deps t u"
  shows "only_deps s u"
proof -
  from assms have t: "t = s\<lparr>deps := deps t\<rparr>" and u: "u = t\<lparr>deps := deps u\<rparr>"
    unfolding only_deps_def by blast+
  have "ids t = ids s" by (subst t) simp
  moreover have "u = s\<lparr>deps := deps u\<rparr>" by (subst u, subst t) simp
  ultimately show ?thesis using assms by (simp add: only_deps_def)
qed

lemma insert_need_only_deps: "insert_need ev i st n = Inr st' \<Longrightarrow> only_deps st st'"
  by (auto simp: insert_need_def insert_dep_Inr only_deps_def deps_ok_def table_ok_def dep_key_def
      ids_def split: if_splits prod.splits)

lemma needs_loop_only_deps:
  assumes "foldM (insert_need ev i) st ns = Inr st'"
  shows "only_deps st st'"
  using assms
  by (rule foldM_invariant [where P = "only_deps st"])
    (auto intro: only_deps_trans insert_need_only_deps)

section \<open>Events that move rows\<close>

lemma rows_for_append: "rows_for i k (rs @ rs') = rows_for i k rs @ rows_for i k rs'"
  by (simp add: rows_for_def)

lemma rows_for_Cons:
  "rows_for i k (r # rs) = (if sr_bead r = i \<and> sr_kind r = k then r # rows_for i k rs else rows_for i k rs)"
  by (simp add: rows_for_def)

lemma rows_for_Nil [simp]: "rows_for i k [] = []"
  by (simp add: rows_for_def)

lemma rows_evolve_ok: "list_all2 row_evolves bs bs' \<Longrightarrow> list_all bead_ok bs \<Longrightarrow> list_all bead_ok bs'"
  by (induction rule: list_all2_induct) (auto intro: row_evolves_ok)

text \<open>Every accepted event keeps the bead rows in order, whatever it does to the other tables.\<close>

lemma evolve_beads_ok:
  assumes "beads_evolve st st'" and "beads_ok (beads st)"
  shows "beads_ok (beads st')"
  using assms(1) unfolding beads_evolve_def
proof
  assume rows: "list_all2 row_evolves (beads st) (beads st')"
  have "map b_id (beads st') = map b_id (beads st)" by (rule rows_evolve_ids [OF rows])
  moreover have "list_all bead_ok (beads st')"
    using rows assms(2) rows_evolve_ok by (simp add: beads_ok_def)
  ultimately show ?thesis using assms(2) by (simp add: beads_ok_def)
next
  assume "\<exists>b. fresh_bead b \<and> b_id b \<notin> b_id ` set (beads st) \<and> beads st' = beads st @ [b]"
  then show ?thesis using assms(2) by (auto simp: beads_ok_def fresh_bead_ok)
qed

lemma ids_map: "(\<And>b. b_id (g b) = b_id b) \<Longrightarrow> beads st' = map g (beads st) \<Longrightarrow> ids st' = ids st"
  by (simp add: ids_def image_image)

lemma search_ok_map:
  assumes "search_ok bs rs" and "\<And>b. b_id (g b) = b_id b"
    and "\<And>b. b \<in> set bs \<Longrightarrow> b_title (g b) = b_title b \<and> b_description (g b) = b_description b \<and>
      b_close_reason (g b) = b_close_reason b"
  shows "search_ok (map g bs) rs"
proof -
  have "indexed rs (g b) = indexed rs b" if "b \<in> set bs" for b
    using assms(2) assms(3) [OF that] by (simp add: indexed_def body_row_def reason_rows_def split: option.split)
  then show ?thesis using assms(1,2) by (simp add: search_ok_def list_all_iff image_image)
qed

text \<open>The common case: rows of beads move, bodies and reasons stay.\<close>

lemma wf_move_rows:
  assumes wf: "wf_state st" and st': "beads st' = map g (beads st)"
    and ok: "beads_ok (beads st')" and id: "\<And>b. b_id (g b) = b_id b"
    and rows: "\<And>b. b \<in> set (beads st) \<Longrightarrow> b_title (g b) = b_title b \<and> b_description (g b) = b_description b \<and>
      b_close_reason (g b) = b_close_reason b"
    and same: "bead_meta st' = bead_meta st" "deps st' = deps st" "search st' = search st"
      "counters st' = counters st"
    and sess: "sessions_ok (sessions st')" and perm: "permissions_ok (permissions st')"
  shows "wf_state st'"
proof -
  have "ids st' = ids st" using id st' by (rule ids_map)
  moreover have "search_ok (beads st') (search st')"
    using wf search_ok_map [OF _ id rows] by (simp add: wf_state_def st' same)
  ultimately show ?thesis using wf ok sess perm by (simp add: wf_state_def same)
qed

lemma wf_same_beads:
  assumes "wf_state st" and "beads st' = beads st" "bead_meta st' = bead_meta st"
    "deps st' = deps st" "search st' = search st" "counters st' = counters st"
    and "sessions_ok (sessions st')" and "permissions_ok (permissions st')"
  shows "wf_state st'"
  by (rule wf_move_rows [where g = "\<lambda>b. b" and st = st]) (use assms in \<open>simp_all add: wf_state_def\<close>)

lemma wf_evolve_beads:
  "wf_state st \<Longrightarrow> beads_evolve st st' \<Longrightarrow> beads_ok (beads st')"
  using evolve_beads_ok by (simp add: wf_state_def)

lemma wf_move_if:
  assumes wf: "wf_state st" and st': "beads st' = map (\<lambda>b. if q b then f b else b) (beads st)"
    and step: "beads_evolve st st'"
    and keep: "\<And>b. b_id (f b) = b_id b" "\<And>b. b_title (f b) = b_title b"
      "\<And>b. b_description (f b) = b_description b" "\<And>b. b_close_reason (f b) = b_close_reason b"
    and same: "bead_meta st' = bead_meta st" "deps st' = deps st" "search st' = search st"
      "counters st' = counters st"
    and sess: "sessions_ok (sessions st')" and perm: "permissions_ok (permissions st')"
  shows "wf_state st'"
  by (rule wf_move_rows [OF wf st' wf_evolve_beads [OF wf step] _ _ same sess perm])
    (simp_all add: keep)

lemma bead_claimed_wf:
  assumes wf: "wf_state st" and run: "bead_claimed S ev st = Inr st'"
  shows "wf_state st'"
  using run
proof (rule bead_claimed_Inr)
  fix i p
  assume clear: "clear_dispatch_failure i
      (st\<lparr>beads := map (\<lambda>b. if b_id b = i then claim_row ev p b else b) (beads st)\<rparr>) = Inr st'"
  have b': "beads st' = map (\<lambda>b. if b_id b = i then (claim_row ev p b)\<lparr>b_dispatch_failure := None\<rparr> else b)
      (beads st)"
    using clear_dispatch_failure_beads [OF clear] by (auto simp: claim_row_def)
  have rest: "bead_meta st' = bead_meta st" "deps st' = deps st" "search st' = search st"
    "counters st' = counters st" "sessions st' = sessions st" "permissions st' = permissions st"
    using clear by (auto simp: clear_dispatch_failure_def)
  have keep: "b_id ((claim_row ev p b)\<lparr>b_dispatch_failure := None\<rparr>) = b_id b"
    "b_title ((claim_row ev p b)\<lparr>b_dispatch_failure := None\<rparr>) = b_title b"
    "b_description ((claim_row ev p b)\<lparr>b_dispatch_failure := None\<rparr>) = b_description b"
    "b_close_reason ((claim_row ev p b)\<lparr>b_dispatch_failure := None\<rparr>) = b_close_reason b" for b
    by (simp_all add: claim_row_def)
  have step: "beads_evolve st st'"
    by (rule bead_claimed_evolve [OF wf_beads_table [OF wf] run])
  show ?thesis
    by (rule wf_move_if [where q = "\<lambda>b. b_id b = i" and
          f = "\<lambda>b. (claim_row ev p b)\<lparr>b_dispatch_failure := None\<rparr>", OF wf b' step keep rest(1-4)])
      (use wf in \<open>simp_all add: rest wf_state_def\<close>)
qed

lemma dispatch_failed_wf:
  assumes wf: "wf_state st" and run: "dispatch_failed S ev st = Inr st'"
  shows "wf_state st'"
proof -
  from run obtain i and p :: DispatchFailed where
    st': "st' = st\<lparr>beads := map (\<lambda>b. if b_id b = i
      then b\<lparr>b_dispatch_failure := Some (df_reason p), b_updated_ts := ev_ts ev\<rparr> else b) (beads st)\<rparr>"
    by (auto simp: dispatch_failed_def)
  have rows: "beads st' = map (\<lambda>b. if b_id b = i
      then b\<lparr>b_dispatch_failure := Some (df_reason p), b_updated_ts := ev_ts ev\<rparr> else b) (beads st)"
    by (simp add: st')
  show ?thesis
    by (rule wf_move_if [OF wf rows dispatch_failed_evolve [OF run]])
      (use wf in \<open>simp_all add: st' wf_state_def\<close>)
qed

lemma dispatch_rearmed_wf:
  assumes wf: "wf_state st" and run: "dispatch_rearmed S ev st = Inr st'"
  shows "wf_state st'"
proof -
  from run obtain i where st': "st' = st\<lparr>beads := map (\<lambda>b. if b_id b = i \<and> b_dispatch_failure b \<noteq> None
      then b\<lparr>b_dispatch_failure := None, b_updated_ts := ev_ts ev\<rparr> else b) (beads st)\<rparr>"
    by (auto simp: dispatch_rearmed_def)
  have rows: "beads st' = map (\<lambda>b. if b_id b = i \<and> b_dispatch_failure b \<noteq> None
      then b\<lparr>b_dispatch_failure := None, b_updated_ts := ev_ts ev\<rparr> else b) (beads st)"
    by (simp add: st')
  show ?thesis
    by (rule wf_move_if [OF wf rows dispatch_rearmed_evolve [OF run]])
      (use wf in \<open>simp_all add: st' wf_state_def\<close>)
qed

section \<open>Sessions and permissions\<close>

lemma sessions_ok_insert:
  "sessions_ok ss \<Longrightarrow> s_name s \<notin> s_name ` set ss \<Longrightarrow> session_ok s \<Longrightarrow> sessions_ok (ss @ [s])"
  by (auto simp: sessions_ok_def table_ok_def)

lemma sessions_ok_update:
  assumes "sessions_ok ss" and "\<And>s. s_name (f s) = s_name s" and "\<And>s. s \<in> set ss \<Longrightarrow> session_ok s \<Longrightarrow> session_ok (f s)"
  shows "sessions_ok (map (\<lambda>s. if q s then f s else s) ss)"
proof -
  have "map s_name (map (\<lambda>s. if q s then f s else s) ss) = map s_name ss"
    using assms(2) by simp
  with assms show ?thesis
    by (auto simp: sessions_ok_def table_ok_def list_all_iff simp del: map_map)
qed

lemma permissions_ok_update:
  assumes "permissions_ok ps" and "\<And>p. p_request_id (f p) = p_request_id p"
    and "\<And>p. p \<in> set ps \<Longrightarrow> q p \<Longrightarrow> permission_ok (f p) \<and> permissions_check (f p)"
  shows "permissions_ok (map (\<lambda>p. if q p then f p else p) ps)"
proof -
  have "map p_request_id (map (\<lambda>p. if q p then f p else p) ps) = map p_request_id ps"
    using assms(2) by simp
  with assms show ?thesis
    by (auto simp: permissions_ok_def table_ok_def list_all_iff simp del: map_map)
qed

lemma session_woke_wf:
  assumes wf: "wf_state st" and run: "session_woke S ev st = Inr st'"
  shows "wf_state st'"
proof -
  from run obtain p :: SessionWoke where new: "s_name (woke_row ev p) \<notin> s_name ` set (sessions st)"
    and go: "(case sw_bead p of
        Some bead \<Rightarrow> clear_dispatch_failure bead (st\<lparr>sessions := sessions st @ [woke_row ev p]\<rparr>)
      | None \<Rightarrow> Inr (st\<lparr>sessions := sessions st @ [woke_row ev p]\<rparr>)) = Inr st'"
    by (auto simp: session_woke_def)
  have ss: "sessions_ok (sessions st @ [woke_row ev p])"
    using wf new by (intro sessions_ok_insert) (simp_all add: wf_state_def woke_row_def session_ok_def)
  show ?thesis
  proof (cases "sw_bead p")
    case None
    then show ?thesis using go ss wf
      by (intro wf_same_beads [OF wf]) (auto simp: wf_state_def)
  next
    case (Some i)
    with go have clear: "clear_dispatch_failure i (st\<lparr>sessions := sessions st @ [woke_row ev p]\<rparr>) = Inr st'"
      by simp
    then have rows: "beads st' = map (\<lambda>b. if b_id b = i then b\<lparr>b_dispatch_failure := None\<rparr> else b) (beads st)"
      by (auto dest: clear_dispatch_failure_beads)
    have rest: "bead_meta st' = bead_meta st" "deps st' = deps st" "search st' = search st"
      "counters st' = counters st" "sessions st' = sessions st @ [woke_row ev p]"
      "permissions st' = permissions st"
      using clear by (auto simp: clear_dispatch_failure_def)
    show ?thesis
      by (rule wf_move_if [OF wf rows session_woke_evolve [OF run]])
        (use wf ss in \<open>simp_all add: rest wf_state_def\<close>)
  qed
qed

lemma session_pid_wf:
  assumes wf: "wf_state st" and run: "session_pid S ev st = Inr st'"
  shows "wf_state st'"
proof -
  from run obtain p :: SessionPid where st': "st' = st\<lparr>sessions :=
      map (\<lambda>s. if s_name s = sp_name p then s\<lparr>s_pid := Some (sp_pid p)\<rparr> else s) (sessions st)\<rparr>"
    by (auto simp: session_pid_def split: if_splits)
  have "sessions_ok (sessions st')"
    using wf unfolding st' by (auto simp: wf_state_def session_ok_def intro!: sessions_ok_update)
  then show ?thesis
    by (intro wf_same_beads [OF wf]) (use wf in \<open>simp_all add: st' wf_state_def\<close>)
qed

lemma end_session_rows_ok:
  "sessions_ok ss \<Longrightarrow> s \<noteq> Live \<Longrightarrow> sessions_ok (end_session_rows ev n s ss)"
  unfolding end_session_rows_def by (rule sessions_ok_update) (simp_all add: session_ok_def)

lemma session_ended_wf:
  assumes wf: "wf_state st" and run: "session_ended S ev new st = Inr st'" and "new \<noteq> Live"
  shows "wf_state st'"
  using run
proof (rule session_ended_Inr)
  fix p
  assume st': "st' = st\<lparr>sessions := end_session_rows ev (se_name p) new (sessions st),
           beads := (if new = Crashed then reopen_rows ev (se_name p) (beads st) else beads st)\<rparr>"
  have rows: "beads st' = map (\<lambda>b. if new = Crashed \<and> b_claimed_by b = Some (se_name p) \<and>
      b_status b = InProgress then reopen_row ev b else b) (beads st)"
    by (simp add: st' reopen_rows_def)
  have ss: "sessions_ok (sessions st')"
    using wf assms(3) by (simp add: st' end_session_rows_ok wf_state_def)
  show ?thesis
    by (rule wf_move_if [OF wf rows session_ended_evolve [OF run] _ _ _ _ _ _ _ _ ss])
      (use wf in \<open>simp_all add: st' wf_state_def reopen_row_def\<close>)
qed

lemma permission_pending_wf:
  assumes wf: "wf_state st" and run: "permission_pending S ev st = Inr st'"
  shows "wf_state st'"
proof -
  from run obtain p :: PermissionPending where st': "st' = st\<lparr>permissions := permissions st @ [pending_row ev p]\<rparr>"
    and new: "p_request_id (pending_row ev p) \<notin> p_request_id ` set (permissions st)"
    by (auto simp: permission_pending_def)
  have "permissions_ok (permissions st')"
    using wf new
    by (simp add: st' wf_state_def permissions_ok_def table_ok_def pending_row_def permission_ok_def
        permissions_check_def check_in_def)
  then show ?thesis
    by (intro wf_same_beads [OF wf]) (use wf in \<open>simp_all add: st' wf_state_def\<close>)
qed

lemma permission_decided_wf:
  assumes wf: "wf_state st" and run: "permission_decided S ev st = Inr st'"
  shows "wf_state st'"
proof -
  from run obtain p :: PermissionDecided where dec: "px_decision p \<in> set PERMISSION_DECISIONS"
    and st': "st' = st\<lparr>permissions := map (\<lambda>r. if p_request_id r = px_request_id p \<and> p_status r = Pending
          then decide_row ev p r else r) (permissions st)\<rparr>"
    by (auto simp: permission_decided_def split: if_splits)
  have "permission_ok (decide_row ev p r) \<and> permissions_check (decide_row ev p r)" for r
    using dec by (simp add: decide_row_def permission_ok_def permissions_check_def check_in_def
        PERMISSION_DECISIONS_def)
  then have "permissions_ok (permissions st')"
    using wf unfolding st' by (auto simp: wf_state_def decide_row_def intro!: permissions_ok_update)
  then show ?thesis
    by (intro wf_same_beads [OF wf]) (use wf in \<open>simp_all add: st' wf_state_def\<close>)
qed

section \<open>Creation, update and close\<close>

lemma counter_at_of: "counter_at st p = counter_of (counters st) p"
  by (simp add: counter_at_def counter_of_def)

lemma bump_counter_Inr:
  assumes "bump_counter i st = Inr st'"
  obtains p n where "parse_bead_id i = Some (p, n)"
    and "st' = st\<lparr>counters := sql_upsert c_prefix (\<lambda>c. c\<lparr>c_high := max (c_high c) n\<rparr>)
          \<lparr>c_prefix = p, c_high = n\<rparr> (counters st)\<rparr>"
  using assms by (auto simp: bump_counter_def split: option.splits)

lemma counters_rows_bump:
  assumes "table_ok c_prefix (\<lambda>_. True) cs"
    and "list_all (\<lambda>c. 0 \<le> c_high c \<and> c_high c \<le> i64_max) cs" and "0 \<le> n" and "n \<le> i64_max"
    and cs': "cs' = sql_upsert c_prefix (\<lambda>c. c\<lparr>c_high := max (c_high c) n\<rparr>) \<lparr>c_prefix = p, c_high = n\<rparr> cs"
  shows "table_ok c_prefix (\<lambda>_. True) cs' \<and> list_all (\<lambda>c. 0 \<le> c_high c \<and> c_high c \<le> i64_max) cs'"
proof (cases "p \<in> c_prefix ` set cs")
  case True
  have "map c_prefix (map (\<lambda>c. if c_prefix c = p then c\<lparr>c_high := max (c_high c) n\<rparr> else c) cs)
      = map c_prefix cs"
    by simp
  with True assms show ?thesis
    by (auto simp: cs' sql_upsert_def table_ok_def list_all_iff simp del: map_map)
next
  case False
  with assms show ?thesis by (auto simp: cs' sql_upsert_def table_ok_def)
qed

lemma counters_ok_bump:
  assumes ok: "counters_ok is (counters st)" and run: "bump_counter i st = Inr st'"
  shows "counters_ok (insert i is) (counters st')"
proof -
  from run obtain p n where i: "parse_bead_id i = Some (p, n)"
    and st': "st' = st\<lparr>counters := sql_upsert c_prefix (\<lambda>c. c\<lparr>c_high := max (c_high c) n\<rparr>)
          \<lparr>c_prefix = p, c_high = n\<rparr> (counters st)\<rparr>"
    by (rule bump_counter_Inr)
  have at: "counter_of (counters st') q =
    (if q = p then Some (case counter_of (counters st) p of None \<Rightarrow> n | Some h \<Rightarrow> max h n)
     else counter_of (counters st) q)" for q
    using counter_at_bump [OF run i] by (simp add: counter_at_of)
  have "covered (counters st') j" if "covered (counters st) j" for j
    using that at by (auto simp: covered_def split: option.splits prod.splits)
  moreover have "covered (counters st') i"
    using at i by (auto simp: covered_def split: option.splits)
  moreover have "0 \<le> n" "n \<le> i64_max" using parse_bead_id_range [OF i] by simp_all
  ultimately show ?thesis
    using ok counters_rows_bump [of "counters st" n "counters st'" p]
    by (auto simp: counters_ok_def st')
qed

lemma search_ok_create:
  assumes "search_ok bs rs" and "b_id b \<notin> b_id ` set bs" and "b_close_reason b = None"
  shows "search_ok (bs @ [b]) (rs @ [body_row b])"
proof -
  have none: "rows_for (b_id b) k rs = []" for k
    using assms(1,2) unfolding search_ok_def list_all_iff rows_for_def filter_empty_conv by metis
  have "indexed (rs @ [body_row b]) c" if "c \<in> set bs" for c
  proof -
    have "b_id c \<noteq> b_id b" using assms(2) that by (metis image_eqI)
    then show ?thesis
      using assms(1) that
      by (auto simp: search_ok_def list_all_iff indexed_def rows_for_append rows_for_Cons body_row_def)
  qed
  moreover have "indexed (rs @ [body_row b]) b"
    using assms(3) none by (simp add: indexed_def rows_for_append rows_for_Cons body_row_def reason_rows_def)
  ultimately show ?thesis
    using assms(1) by (auto simp: search_ok_def list_all_iff body_row_def)
qed

lemma bead_created_Inr:
  assumes "bead_created S ev st = Inr st'"
  obtains i rig p st2 st3 where "ev_bead ev = Some i" and "ev_rig ev = Some rig"
    and "dec_bead_created S (ev_data ev) = Inr p"
    and "i \<notin> ids st"
    and "only_deps (st\<lparr>beads := beads st @ [new_bead S ev i rig p]\<rparr>) st2" and "only_meta st2 st3"
    and "bump_counter i (insert_search i Body (body_content (bc_title p) (bc_description p)) st3) = Inr st'"
proof -
  from assms obtain i rig p st2 st3 where i: "ev_bead ev = Some i" and rig: "ev_rig ev = Some rig"
    and p: "dec_bead_created S (ev_data ev) = Inr p"
    and new: "b_id (new_bead S ev i rig p) \<notin> b_id ` set (beads st)"
    and needs: "foldM (insert_need ev i)
        (st\<lparr>beads := beads st @ [new_bead S ev i rig p]\<rparr>) (bc_needs p) = Inr st2"
    and meta: "foldM (\<lambda>s (k, v). write_meta ev i k v s) st2 (bc_metadata p) = Inr st3"
    and bump: "bump_counter i (insert_search i Body
        (body_content (bc_title p) (bc_description p)) st3) = Inr st'"
    by (auto simp: bead_created_def split: option.splits)
  have "i \<notin> ids st" using new by (simp add: ids_def new_bead_def)
  then show thesis
    using that i rig p needs_loop_only_deps [OF needs] metadata_loop_only_meta [OF meta] bump by blast
qed

lemma ids_append: "ids (st\<lparr>beads := beads st @ [b]\<rparr>) = insert (b_id b) (ids st)"
  by (simp add: ids_def)

lemma meta_ok_mono: "meta_ok is ms \<Longrightarrow> is \<subseteq> is' \<Longrightarrow> meta_ok is' ms"
  by (auto simp: meta_ok_def list_all_iff)

lemma deps_ok_mono: "deps_ok is ds \<Longrightarrow> is \<subseteq> is' \<Longrightarrow> deps_ok is' ds"
  by (auto simp: deps_ok_def list_all_iff)

lemma bead_created_wf:
  assumes wf: "wf_state st" and run: "bead_created S ev st = Inr st'"
  shows "wf_state st'"
  using run
proof (rule bead_created_Inr)
  fix i rig p st2 st3
  assume new: "i \<notin> ids st"
    and d: "only_deps (st\<lparr>beads := beads st @ [new_bead S ev i rig p]\<rparr>) st2" and m: "only_meta st2 st3"
    and bump: "bump_counter i (insert_search i Body
        (body_content (bc_title p) (bc_description p)) st3) = Inr st'"
  define b where "b = new_bead S ev i rig p"
  define st1 where "st1 = st\<lparr>beads := beads st @ [b]\<rparr>"
  have b: "b_id b = i" "b_close_reason b = None" by (simp_all add: b_def new_bead_def)
  have row: "\<lparr>sr_bead = i, sr_kind = Body, sr_content = body_content (bc_title p) (bc_description p)\<rparr>
      = body_row b"
    by (simp add: b_def new_bead_def body_row_def)
  have st2: "st2 = st1\<lparr>deps := deps st2\<rparr>" and dok: "deps_ok (ids st1) (deps st1) \<Longrightarrow> deps_ok (ids st1) (deps st2)"
    using d unfolding only_deps_def st1_def b_def by blast+
  have i1: "ids st1 = insert i (ids st)" by (simp add: st1_def ids_append b)
  have i2: "ids st2 = ids st1" and m2: "bead_meta st2 = bead_meta st" and c2: "counters st2 = counters st"
    and s2: "search st2 = search st" and b2: "beads st2 = beads st @ [b]"
    and o2: "sessions st2 = sessions st" "permissions st2 = permissions st"
    by (subst st2, simp add: st1_def)+
  have st3: "st3 = st2\<lparr>bead_meta := bead_meta st3\<rparr>"
    and mok: "meta_ok (ids st2) (bead_meta st2) \<Longrightarrow> meta_ok (ids st2) (bead_meta st3)"
    using m unfolding only_meta_def by blast+
  have s3: "deps st3 = deps st2" "counters st3 = counters st2" "search st3 = search st2"
    "beads st3 = beads st2" "sessions st3 = sessions st2" "permissions st3 = permissions st2"
    by (subst st3, simp)+
  have s': "deps st' = deps st3" "bead_meta st' = bead_meta st3" "search st' = search st3 @ [body_row b]"
    "beads st' = beads st3" "sessions st' = sessions st3" "permissions st' = permissions st3"
    using bump by (auto elim!: bump_counter_Inr simp: insert_search_def row)
  have i': "ids st' = insert i (ids st)" by (simp add: ids_def s' s3 b2 b)
  have "counters_ok (insert i (ids st)) (counters st')"
    by (rule counters_ok_bump [OF _ bump]) (use wf in \<open>simp add: insert_search_def s3 c2 wf_state_def\<close>)
  moreover have "search_ok (beads st') (search st')"
    using wf new b by (simp add: s' s3 b2 s2 search_ok_create wf_state_def ids_def)
  moreover have "deps_ok (insert i (ids st)) (deps st')"
  proof -
    have "deps_ok (ids st1) (deps st1)"
      using wf unfolding i1
      by (auto simp: st1_def wf_state_def intro: deps_ok_mono [of "ids st"])
    then show ?thesis using dok by (simp add: s' s3 i1)
  qed
  moreover have "meta_ok (insert i (ids st)) (bead_meta st')"
  proof -
    have "meta_ok (ids st2) (bead_meta st2)"
      using wf unfolding i2 i1 m2 by (auto simp: wf_state_def intro: meta_ok_mono [of "ids st"])
    then show ?thesis using mok by (simp add: s' i2 i1)
  qed
  moreover have "beads_ok (beads st')"
    by (rule wf_evolve_beads [OF wf bead_created_evolve [OF run]])
  ultimately show ?thesis using wf by (simp add: wf_state_def i' s' s3 o2)
qed

lemma filter_by_id:
  "distinct (map b_id bs) \<Longrightarrow> c \<in> set bs \<Longrightarrow> filter (\<lambda>b. b_id b = b_id c) bs = [c]"
proof (induction bs)
  case (Cons b bs)
  have "filter (\<lambda>x. b_id x = b_id b) bs = []" if "b_id b \<notin> b_id ` set bs"
    using that unfolding filter_empty_conv by (metis image_eqI)
  with Cons show ?case by auto
qed simp

lemma rows_for_rewrite:
  "rows_for j k (filter (\<lambda>r. \<not> (sr_bead r = i \<and> sr_kind r = Body)) rs @ map body_row (filter (\<lambda>b. b_id b = i) bs))
     = (if j = i \<and> k = Body then map body_row (filter (\<lambda>b. b_id b = i) bs) else rows_for j k rs)"
proof -
  have "rows_for j k (map body_row (filter (\<lambda>b. b_id b = i) bs))
      = (if j = i \<and> k = Body then map body_row (filter (\<lambda>b. b_id b = i) bs) else [])"
    by (induction bs) (auto simp: rows_for_def body_row_def)
  moreover have "rows_for j k (filter (\<lambda>r. \<not> (sr_bead r = i \<and> sr_kind r = Body)) rs)
      = (if j = i \<and> k = Body then [] else rows_for j k rs)"
    by (induction rs) (auto simp: rows_for_def)
  ultimately show ?thesis by (simp add: rows_for_append)
qed

lemma rewrite_body_eq:
  "search (rewrite_body_search_row i st) =
     filter (\<lambda>r. \<not> (sr_bead r = i \<and> sr_kind r = Body)) (search st)
       @ map body_row (filter (\<lambda>b. b_id b = i) (beads st))"
  by (simp add: rewrite_body_search_row_def body_row_def)

lemma rewrite_body_others [simp]:
  "beads (rewrite_body_search_row i st) = beads st"
  "bead_meta (rewrite_body_search_row i st) = bead_meta st"
  "deps (rewrite_body_search_row i st) = deps st"
  "sessions (rewrite_body_search_row i st) = sessions st"
  "counters (rewrite_body_search_row i st) = counters st"
  "permissions (rewrite_body_search_row i st) = permissions st"
  by (simp_all add: rewrite_body_search_row_def)

lemma ids_map_if:
  assumes "\<And>b. b_id (f b) = b_id b"
  shows "b_id ` set (map (\<lambda>x. if q x then f x else x) bs) = b_id ` set bs"
proof -
  have "map b_id (map (\<lambda>x. if q x then f x else x) bs) = map b_id bs"
    using assms by simp
  then show ?thesis by (metis set_map)
qed

lemma search_ok_rewrite:
  assumes ok: "search_ok bs rs" and dist: "distinct (map b_id bs)"
    and keep: "\<And>b. b_id (f b) = b_id b" "\<And>b. b_close_reason (f b) = b_close_reason b"
    and bs': "bs' = map (\<lambda>b. if b_id b = i then f b else b) bs"
  shows "search_ok bs' (filter (\<lambda>r. \<not> (sr_bead r = i \<and> sr_kind r = Body)) rs
           @ map body_row (filter (\<lambda>b. b_id b = i) bs'))" (is "search_ok bs' ?rs")
proof -
  have idseq: "map b_id bs' = map b_id bs" by (simp add: bs' keep)
  have "indexed ?rs c" if c: "c \<in> set bs'" for c
  proof -
    obtain b where b: "b \<in> set bs" and cb: "c = (if b_id b = i then f b else b)"
      using c by (auto simp: bs')
    have id: "b_id c = b_id b" "b_close_reason c = b_close_reason b" by (simp_all add: cb keep)
    have old: "indexed rs b" using ok b by (simp add: search_ok_def list_all_iff)
    have reasons: "reason_rows c = reason_rows b"
      by (simp add: reason_rows_def id split: option.split)
    show ?thesis
    proof (cases "b_id b = i")
      case True
      have "filter (\<lambda>x. b_id x = i) bs' = [c]"
        using filter_by_id [of bs' c] c dist idseq id True by simp
      then show ?thesis
        using old True unfolding indexed_def rows_for_rewrite by (simp add: id reasons)
    next
      case False
      then show ?thesis using old cb unfolding indexed_def rows_for_rewrite by simp
    qed
  qed
  moreover have "sr_bead r \<in> b_id ` set bs'" if r: "r \<in> set ?rs" for r
  proof -
    have "set (map b_id bs') = set (map b_id bs)" using idseq by simp
    then have eq: "b_id ` set bs' = b_id ` set bs" by simp
    show ?thesis
    proof (cases "r \<in> set rs")
      case True
      then show ?thesis using ok unfolding eq by (simp add: search_ok_def list_all_iff)
    next
      case False
      then obtain b where "b \<in> set bs'" and "r = body_row b"
        using r unfolding set_append set_filter set_map by blast
      then show ?thesis by (simp add: body_row_def)
    qed
  qed
  ultimately show ?thesis by (simp add: search_ok_def list_all_iff)
qed

lemma bead_updated_Inr:
  assumes "bead_updated S ev st = Inr st'"
  obtains i p st1 where "ev_bead ev = Some i" and "dec_bead_updated S (ev_data ev) = Inr p"
    and "only_meta st st1"
    and "st' = rewrite_body_search_row i
        (st1\<lparr>beads := map (\<lambda>b. if b_id b = i then patch_row ev p b else b) (beads st1)\<rparr>)"
proof -
  from assms obtain i p st1 where i: "ev_bead ev = Some i"
    and p: "dec_bead_updated S (ev_data ev) = Inr p"
    and meta: "foldM (patch_meta ev i) st (bu_metadata p) = Inr st1"
    and st': "st' = rewrite_body_search_row i
        (st1\<lparr>beads := map (\<lambda>b. if b_id b = i then patch_row ev p b else b) (beads st1)\<rparr>)"
    by (auto simp: bead_updated_def)
  show thesis by (rule that [OF i p patch_loop_only_meta [OF meta] st'])
qed

lemma bead_updated_wf:
  assumes wf: "wf_state st" and run: "bead_updated S ev st = Inr st'"
  shows "wf_state st'"
  using run
proof (rule bead_updated_Inr)
  fix i p st1
  assume m: "only_meta st st1"
    and st': "st' = rewrite_body_search_row i
        (st1\<lparr>beads := map (\<lambda>b. if b_id b = i then patch_row ev p b else b) (beads st1)\<rparr>)"
  have st1: "st1 = st\<lparr>bead_meta := bead_meta st1\<rparr>"
    and mok: "meta_ok (ids st) (bead_meta st) \<Longrightarrow> meta_ok (ids st) (bead_meta st1)"
    using m unfolding only_meta_def by blast+
  have s1: "deps st1 = deps st" "counters st1 = counters st" "search st1 = search st"
    "beads st1 = beads st" "sessions st1 = sessions st" "permissions st1 = permissions st"
    by (subst st1, simp)+
  have b': "beads st' = map (\<lambda>b. if b_id b = i then patch_row ev p b else b) (beads st)"
    by (simp add: st' s1)
  have "ids st' = ids st" unfolding ids_def b' by (rule ids_map_if) (simp add: patch_row_def)
  moreover have "search_ok (beads st') (search st')"
    using search_ok_rewrite [of "beads st" "search st" "patch_row ev p" _ i] wf
    by (simp add: st' rewrite_body_eq s1 wf_state_def beads_ok_def patch_row_def)
  moreover have "beads_ok (beads st')"
    by (rule wf_evolve_beads [OF wf bead_updated_evolve [OF wf_beads_ok [OF wf] run]])
  ultimately show ?thesis using wf mok by (simp add: wf_state_def st' s1)
qed

lemma search_ok_close:
  assumes ok: "search_ok bs rs" and dist: "distinct (map b_id bs)" and b: "b \<in> set bs"
    and none: "b_close_reason b = None"
    and keep: "\<And>b. b_id (f b) = b_id b" "\<And>b. b_title (f b) = b_title b"
      "\<And>b. b_description (f b) = b_description b"
  shows "search_ok (map (\<lambda>x. if b_id x = b_id b then f x else x) bs) (rs @ reason_rows (f b))"
proof -
  have tail: "rows_for j k (reason_rows (f b)) = (if j = b_id b \<and> k = Close then reason_rows (f b) else [])"
    for j k
    by (auto simp: reason_rows_def rows_for_Cons keep split: option.split)
  have "indexed (rs @ reason_rows (f b)) (if b_id x = b_id b then f x else x)" if x: "x \<in> set bs" for x
  proof -
    have old: "indexed rs x" using ok x by (simp add: search_ok_def list_all_iff)
    show ?thesis
    proof (cases "b_id x = b_id b")
      case True
      then have "x = b" using dist x b by (auto simp: distinct_map dest: inj_onD)
      then show ?thesis using old none
        by (simp add: indexed_def rows_for_append tail keep body_row_def) (simp add: reason_rows_def)
    next
      case False
      then show ?thesis using old by (simp add: indexed_def rows_for_append tail)
    qed
  qed
  moreover have "b_id ` set (map (\<lambda>x. if b_id x = b_id b then f x else x) bs) = b_id ` set bs"
    using keep(1) by (rule ids_map_if)
  moreover have "sr_bead r = b_id b" if "r \<in> set (reason_rows (f b))" for r
    using that by (auto simp: reason_rows_def keep split: option.splits if_splits)
  ultimately show ?thesis
    using ok b by (auto simp only: search_ok_def list_all_iff set_append set_map)
qed

lemma bead_closed_wf:
  assumes wf: "wf_state st" and run: "bead_closed S ev st = Inr st'"
  shows "wf_state st'"
  using run
proof (rule bead_closed_beads)
  fix i p s
  assume s: "bead_status st i = Some s" "s \<noteq> Closed"
    and st': "st' = index_reason i (bx_reason p)
           (st\<lparr>beads := map (\<lambda>b. if b_id b = i then close_row ev p b else b) (beads st)\<rparr>)"
  from s(1) obtain b where at: "bead_at st i = Some b" and bs: "b_status b = s"
    by (auto simp: bead_status_def)
  have b: "b \<in> set (beads st)" "b_id b = i" using bead_at_Some [OF at] by auto
  have none: "b_close_reason b = None"
  proof -
    have "bead_ok b" using wf_beads_ok [OF wf] b by (simp add: list_all_iff)
    then show ?thesis using s(2) bs by (cases "b_status b") (simp_all add: bead_ok_def)
  qed
  have rr: "search st' = search st @ reason_rows (close_row ev p b)"
    by (simp add: st' index_reason_def insert_search_def reason_rows_def close_row_def b
        split: option.split)
  have rest: "deps st' = deps st" "counters st' = counters st" "bead_meta st' = bead_meta st"
    "sessions st' = sessions st" "permissions st' = permissions st"
    by (simp_all add: st' index_reason_def insert_search_def split: option.split)
  have b': "beads st' = map (\<lambda>b. if b_id b = i then close_row ev p b else b) (beads st)"
    by (simp add: st')
  have keep: "b_id (close_row ev p b) = b_id b" "b_title (close_row ev p b) = b_title b"
    "b_description (close_row ev p b) = b_description b" for b
    by (simp_all add: close_row_def)
  have "ids st' = ids st" unfolding ids_def b' by (rule ids_map_if [OF keep(1)])
  moreover have "search_ok (beads st') (search st')"
    using search_ok_close [of "beads st" "search st" b "close_row ev p"] wf b none keep
    by (simp add: b' rr wf_state_def beads_ok_def)
  moreover have "beads_ok (beads st')"
    by (rule wf_evolve_beads [OF wf bead_closed_evolve [OF wf_beads_table [OF wf] run]])
  ultimately show ?thesis using wf by (simp add: wf_state_def rest)
qed

section \<open>The fold\<close>

lemmas handler_wf =
  bead_created_wf bead_claimed_wf bead_updated_wf bead_closed_wf session_woke_wf session_pid_wf
  dispatch_failed_wf dispatch_rearmed_wf permission_pending_wf permission_decided_wf

lemma fold_apply_wf:
  assumes wf: "wf_state st" and "fold_apply S st ev = Inr st'"
  shows "wf_state st'"
  using assms(2)
  by (rule fold_apply_cases) (auto intro: handler_wf [OF wf] session_ended_wf [OF wf] wf)

lemma foldM_fold_apply_wf:
  assumes "foldM (fold_apply S) st evs = Inr st'" and "wf_state st"
  shows "wf_state st'"
  using assms(1) by (rule foldM_invariant) (use assms(2) fold_apply_wf in auto)

end
