(* ===== verification/Ledger.thy ===== *)
theory Ledger
  imports Invariants
begin

text \<open>
  The ledger (\<^verbatim>\<open>crates/camp-core/src/ledger/mod.rs\<close>): the append-only \<open>events\<close> table beside
  the state tables, the single write path, and the reads over the log. An append is one SQLite
  transaction: \<open>transaction\<close> keeps the ledger of before when its body fails.

  A stored event is its row of text; \<open>row_to_event\<close> reads it back, with \<open>serde_json\<close> again a
  parameter. The clock's reading is an argument \<open>ts\<close>. The section on replay states what an
  event-sourced store promises as a locale, over any fold, and instantiates it with \<open>fold_apply\<close>.
\<close>

section \<open>The database file\<close>

record event_row =
  r_seq :: int
  r_ts :: string
  r_type :: string
  r_rig :: "string option"
  r_actor :: string
  r_bead :: "string option"
  r_data :: string

record cursor_row =
  cu_name :: string
  cu_seq :: int

record stream_row =
  st_session :: string
  st_offset :: int

text \<open>\<open>last_seq\<close> is the row of \<open>sqlite_sequence\<close> that \<open>AUTOINCREMENT\<close> keeps for \<open>events\<close>.\<close>

record ledger =
  schema_version :: string
  event_log :: "event_row list"
  last_seq :: int
  tables :: state
  cursors :: "cursor_row list"
  stream_cursors :: "stream_row list"

definition SCHEMA_VERSION :: int where
  "SCHEMA_VERSION = 5"

definition new_ledger :: ledger where
  "new_ledger = \<lparr>schema_version = ''5'', event_log = [], last_seq = 0, tables = empty_state,
                 cursors = [], stream_cursors = []\<rparr>"

definition verify_schema_version :: "ledger \<Rightarrow> unit res" where
  "verify_schema_version l =
     (case parse_i64 (schema_version l) of
        None \<Rightarrow> Inl (Corrupt (Msg ''schema_version is not an integer: {raw:?}'' [schema_version l]))
      | Some found \<Rightarrow>
          if found \<noteq> SCHEMA_VERSION then Inl (UnsupportedSchema found SCHEMA_VERSION) else Inr ())"

text \<open>A file without a \<open>meta\<close> table is \<open>None\<close>: a writer initialises it, a reader refuses it.\<close>

definition init_schema :: "ledger option \<Rightarrow> ledger res" where
  "init_schema db =
     (case db of
        None \<Rightarrow> Inr new_ledger
      | Some l \<Rightarrow> rbind (verify_schema_version l) (\<lambda>_. Inr l))"

definition open_db_read_only :: "ledger option \<Rightarrow> ledger res" where
  "open_db_read_only db =
     (case db of
        None \<Rightarrow> Inl (Corrupt (Msg ''{} has no meta table'' []))
      | Some l \<Rightarrow> rbind (verify_schema_version l) (\<lambda>_. Inr l))"

section \<open>The write path\<close>

definition transaction :: "(ledger \<Rightarrow> (ledger \<times> 'a) res) \<Rightarrow> ledger \<Rightarrow> ledger \<times> 'a res" where
  "transaction body l =
     (case body l of Inl e \<Rightarrow> (l, Inl e) | Inr (l', x) \<Rightarrow> (l', Inr x))"

definition event_of :: "int \<Rightarrow> string \<Rightarrow> 'j event_input \<Rightarrow> 'j event" where
  "event_of seq ts inp =
     \<lparr>ev_seq = seq, ev_ts = ts, ev_kind = in_kind inp, ev_rig = in_rig inp,
      ev_actor = in_actor inp, ev_bead = in_bead inp, ev_data = in_data inp\<rparr>"

definition row_of :: "'j serde \<Rightarrow> 'j event \<Rightarrow> event_row" where
  "row_of S ev =
     \<lparr>r_seq = ev_seq ev, r_ts = ev_ts ev, r_type = as_str (ev_kind ev), r_rig = ev_rig ev,
      r_actor = ev_actor ev, r_bead = ev_bead ev, r_data = data_text S (ev_data ev)\<rparr>"

definition insert_and_fold ::
    "'j serde \<Rightarrow> string \<Rightarrow> 'j event_input \<Rightarrow> ledger \<Rightarrow> (ledger \<times> int) res" where
  "insert_and_fold S ts inp l =
     (if last_seq l = i64_max then Inl (Sqlite ''database or disk is full'')
      else
        let seq = last_seq l + 1; ev = event_of seq ts inp in
        rbind (fold_apply S (tables l) ev) (\<lambda>st.
          Inr (l\<lparr>event_log := event_log l @ [row_of S ev], last_seq := seq, tables := st\<rparr>, seq)))"

definition append_on ::
    "'j serde \<Rightarrow> string \<Rightarrow> 'j event_input \<Rightarrow> ledger \<Rightarrow> (ledger \<times> int) res" where
  "append_on S ts inp l = insert_and_fold S ts inp l"

fun insert_all ::
    "'j serde \<Rightarrow> string \<Rightarrow> 'j event_input list \<Rightarrow> ledger \<Rightarrow> (ledger \<times> int list) res" where
  "insert_all S ts [] l = Inr (l, [])"
| "insert_all S ts (inp # inps) l =
     rbind (insert_and_fold S ts inp l) (\<lambda>(l1, seq).
     rbind (insert_all S ts inps l1) (\<lambda>(l2, seqs). Inr (l2, seq # seqs)))"

definition append_batch ::
    "'j serde \<Rightarrow> string \<Rightarrow> 'j event_input list \<Rightarrow> ledger \<Rightarrow> ledger \<times> int list res" where
  "append_batch S ts inps l = transaction (insert_all S ts inps) l"

definition append_event ::
    "'j serde \<Rightarrow> string \<Rightarrow> 'j event_input \<Rightarrow> ledger \<Rightarrow> ledger \<times> int res" where
  "append_event S ts inp l =
     (case append_batch S ts [inp] l of
        (l', Inl e) \<Rightarrow> (l', Inl e)
      | (l', Inr [seq]) \<Rightarrow> (l', Inr seq)
      | (l', Inr _) \<Rightarrow> (l', Inl (Corrupt (Msg
          ''append_batch(1 input) did not return exactly one seq'' []))))"

section \<open>Reads over the log\<close>

definition row_to_event :: "'j serde \<Rightarrow> event_row \<Rightarrow> 'j event res" where
  "row_to_event S r =
     (case parse_event_type (r_type r) of
        Inl _ \<Rightarrow> Inl (Sqlite ''FromSqlConversionFailure: column 2'')
      | Inr kind \<Rightarrow>
          (case data_of S (r_data r) of
             Inl _ \<Rightarrow> Inl (Sqlite ''FromSqlConversionFailure: column 6'')
           | Inr data \<Rightarrow>
               Inr \<lparr>ev_seq = r_seq r, ev_ts = r_ts r, ev_kind = kind, ev_rig = r_rig r,
                    ev_actor = r_actor r, ev_bead = r_bead r, ev_data = data\<rparr>))"

text \<open>\<open>SELECT \<dots> FROM events WHERE p ORDER BY seq\<close>: the log is stored in the order of \<open>seq\<close>, its
  integer primary key.\<close>

definition select_events :: "'j serde \<Rightarrow> (event_row \<Rightarrow> bool) \<Rightarrow> ledger \<Rightarrow> 'j event list res" where
  "select_events S p l = mapM (row_to_event S) (filter p (event_log l))"

definition has_events_past :: "int \<Rightarrow> ledger \<Rightarrow> bool" where
  "has_events_past seq l = list_ex (\<lambda>r. seq < r_seq r) (event_log l)"

definition events_range :: "'j serde \<Rightarrow> int \<Rightarrow> int option \<Rightarrow> ledger \<Rightarrow> 'j event list res" where
  "events_range S from to l =
     select_events S (\<lambda>r. from \<le> r_seq r \<and> (case to of None \<Rightarrow> True | Some t \<Rightarrow> r_seq r \<le> t)) l"

definition events_page :: "'j serde \<Rightarrow> int \<Rightarrow> nat \<Rightarrow> ledger \<Rightarrow> 'j event list res" where
  "events_page S from limit l =
     mapM (row_to_event S) (take limit (filter (\<lambda>r. from \<le> r_seq r) (event_log l)))"

definition events_for_bead :: "'j serde \<Rightarrow> string \<Rightarrow> ledger \<Rightarrow> 'j event list res" where
  "events_for_bead S bead l = select_events S (\<lambda>r. r_bead r = Some bead) l"

definition events_of_type :: "'j serde \<Rightarrow> event_type \<Rightarrow> ledger \<Rightarrow> 'j event list res" where
  "events_of_type S kind l = select_events S (\<lambda>r. r_type r = as_str kind) l"

definition has_event_with_actor :: "event_type \<Rightarrow> string \<Rightarrow> ledger \<Rightarrow> bool" where
  "has_event_with_actor kind actor l =
     list_ex (\<lambda>r. r_type r = as_str kind \<and> r_actor r = actor) (event_log l)"

text \<open>\<open>json_extract(data, '$.field')\<close> belongs to SQLite: \<open>js\<close> gives the text and \<open>ji\<close> the integer
  it extracts from a payload.\<close>

definition has_event_with_data_i64 ::
    "(string \<Rightarrow> string \<Rightarrow> int option) \<Rightarrow> event_type \<Rightarrow> string \<Rightarrow> int \<Rightarrow> ledger \<Rightarrow> bool" where
  "has_event_with_data_i64 ji kind field v l =
     list_ex (\<lambda>r. r_type r = as_str kind \<and> ji (r_data r) field = Some v) (event_log l)"

definition has_event_with_data_strs ::
    "(string \<Rightarrow> string \<Rightarrow> string option) \<Rightarrow> event_type \<Rightarrow> string \<times> string \<Rightarrow> string \<times> string \<Rightarrow>
     ledger \<Rightarrow> bool" where
  "has_event_with_data_strs js kind f1 f2 l =
     list_ex (\<lambda>r. r_type r = as_str kind \<and> js (r_data r) (fst f1) = Some (snd f1) \<and>
                  js (r_data r) (fst f2) = Some (snd f2)) (event_log l)"

section \<open>Replay\<close>

text \<open>What an event-sourced store is: a fold from an initial state, with an invariant.\<close>

locale event_sourced =
  fixes init :: 's
    and step :: "'s \<Rightarrow> 'e \<Rightarrow> 'x + 's"
    and inv :: "'s \<Rightarrow> bool"
  assumes inv_init: "inv init"
    and inv_step: "inv s \<Longrightarrow> step s e = Inr s' \<Longrightarrow> inv s'"
begin

lemma replay_snoc: "foldM step init (es @ [e]) = rbind (foldM step init es) (\<lambda>s. step s e)"
  by (cases "foldM step init es") (auto simp: foldM_append rbind_def split: sum.splits)

lemma replay_inv: "foldM step init es = Inr s \<Longrightarrow> inv s"
  by (rule foldM_invariant [where P = inv]) (use inv_init inv_step in auto)

text \<open>A prefix of a log that replays, replays.\<close>

lemma replay_prefix:
  "foldM step init (es @ fs) = Inr s \<Longrightarrow>
   \<exists>s'. foldM step init es = Inr s' \<and> inv s' \<and> foldM step s' fs = Inr s"
  using replay_inv by (auto simp: foldM_append)

end

interpretation camp: event_sourced empty_state "fold_apply S" wf_state for S
  by unfold_locales (auto intro: fold_apply_wf)

text \<open>The replay of the log as \<open>build_shadow\<close> runs it: each row read, then folded.\<close>

definition replay_row :: "'j serde \<Rightarrow> state \<Rightarrow> event_row \<Rightarrow> state res" where
  "replay_row S st r = rbind (row_to_event S r) (fold_apply S st)"

definition build_shadow :: "'j serde \<Rightarrow> ledger \<Rightarrow> (state \<times> nat) res" where
  "build_shadow S l =
     rbind (foldM (replay_row S) empty_state (event_log l)) (\<lambda>st. Inr (st, length (event_log l)))"

interpretation rows: event_sourced empty_state "replay_row S" wf_state for S
  by unfold_locales (auto simp: replay_row_def intro: fold_apply_wf)

section \<open>What the write path keeps\<close>

lemma row_to_event_row_of:
  "text_roundtrip S \<Longrightarrow> row_to_event S (row_of S ev) = Inr ev"
  by (simp add: row_to_event_def row_of_def text_roundtrip_def)

definition wf_log :: "ledger \<Rightarrow> bool" where
  "wf_log l \<longleftrightarrow>
     map r_seq (event_log l) = map int [1..<Suc (length (event_log l))] \<and>
     last_seq l = int (length (event_log l)) \<and> last_seq l \<le> i64_max"

definition replays :: "'j serde \<Rightarrow> ledger \<Rightarrow> bool" where
  "replays S l \<longleftrightarrow> foldM (replay_row S) empty_state (event_log l) = Inr (tables l)"

lemma wf_log_new [simp]: "wf_log new_ledger"
  by (simp add: wf_log_def new_ledger_def i64_max_def)

lemma replays_new [simp]: "replays S new_ledger"
  by (simp add: replays_def new_ledger_def)

lemma replays_wf_state: "replays S l \<Longrightarrow> wf_state (tables l)"
  unfolding replays_def by (rule rows.replay_inv)

lemma insert_and_fold_Inr:
  "insert_and_fold S ts inp l = Inr (l', seq) \<longleftrightarrow>
     last_seq l \<noteq> i64_max \<and> seq = last_seq l + 1 \<and>
     (\<exists>st. fold_apply S (tables l) (event_of seq ts inp) = Inr st \<and>
           l' = l\<lparr>event_log := event_log l @ [row_of S (event_of seq ts inp)], last_seq := seq,
                  tables := st\<rparr>)"
  by (auto simp: insert_and_fold_def Let_def)

lemma insert_and_fold_wf_log:
  assumes "insert_and_fold S ts inp l = Inr (l', seq)" and "wf_log l"
  shows "wf_log l'"
  using assms by (auto simp: insert_and_fold_Inr wf_log_def row_of_def event_of_def)

lemma insert_and_fold_replays:
  assumes "text_roundtrip S" and "insert_and_fold S ts inp l = Inr (l', seq)" and "replays S l"
  shows "replays S l'"
  using assms
  by (auto simp: insert_and_fold_Inr replays_def rows.replay_snoc replay_row_def row_to_event_row_of)

text \<open>Every stored row was written from an event.\<close>

definition stored :: "'j serde \<Rightarrow> ledger \<Rightarrow> bool" where
  "stored S l \<longleftrightarrow> (\<forall>r \<in> set (event_log l). \<exists>ev. r = row_of S ev)"

definition good :: "'j serde \<Rightarrow> ledger \<Rightarrow> bool" where
  "good S l \<longleftrightarrow> wf_log l \<and> replays S l \<and> stored S l"

lemma good_new [simp]: "good S new_ledger"
  by (simp add: good_def stored_def) (simp add: new_ledger_def)

lemma good_cong:
  "good S l \<Longrightarrow> event_log l' = event_log l \<Longrightarrow> last_seq l' = last_seq l \<Longrightarrow> tables l' = tables l \<Longrightarrow> good S l'"
  by (simp add: good_def wf_log_def replays_def stored_def)

lemma insert_and_fold_good:
  assumes "text_roundtrip S" and "insert_and_fold S ts inp l = Inr (l', seq)" and "good S l"
  shows "good S l'"
proof -
  have "stored S l'"
    using assms(2,3) by (auto simp: insert_and_fold_Inr good_def stored_def)
  then show ?thesis
    using assms insert_and_fold_wf_log insert_and_fold_replays by (auto simp: good_def)
qed

lemma insert_all_good:
  "text_roundtrip S \<Longrightarrow> insert_all S ts inps l = Inr (l', seqs) \<Longrightarrow> good S l \<Longrightarrow> good S l'"
  by (induction inps arbitrary: l seqs) (fastforce intro: insert_and_fold_good)+

lemma transaction_keeps:
  "P l \<Longrightarrow> (\<And>l' x. body l = Inr (l', x) \<Longrightarrow> P l') \<Longrightarrow> P (fst (transaction body l))"
  by (auto simp: transaction_def split: sum.split)

lemma append_batch_good:
  "text_roundtrip S \<Longrightarrow> good S l \<Longrightarrow> good S (fst (append_batch S ts inps l))"
  unfolding append_batch_def by (rule transaction_keeps) (auto intro: insert_all_good)

lemma upt_from_1: "[Suc 0..<Suc (Suc n)] = Suc 0 # map Suc [Suc 0..<Suc n]"
  by (simp only: map_Suc_upt) (simp add: upt_conv_Cons del: upt_Suc)

lemma insert_all_log:
  assumes "insert_all S ts inps l = Inr (l', seqs)"
  shows "event_log l' = event_log l @
           map (\<lambda>(seq, inp). row_of S (event_of seq ts inp)) (zip seqs inps) \<and>
         seqs = map (\<lambda>k. last_seq l + int k) [1..<Suc (length inps)] \<and>
         last_seq l' = last_seq l + int (length inps)"
  using assms
proof (induction inps arbitrary: l seqs)
  case (Cons inp inps)
  from Cons.prems obtain l1 seq seqs1 where one: "insert_and_fold S ts inp l = Inr (l1, seq)"
    and rest: "insert_all S ts inps l1 = Inr (l', seqs1)" and seqs: "seqs = seq # seqs1"
    by auto
  have l1: "seq = last_seq l + 1" "last_seq l1 = last_seq l + 1"
    "event_log l1 = event_log l @ [row_of S (event_of seq ts inp)]"
    using one by (auto simp: insert_and_fold_Inr)
  show ?case
    using Cons.IH [OF rest] l1 by (simp add: seqs upt_from_1 o_def add.assoc del: upt_Suc)
qed simp

lemma insert_all_wf_log: "insert_all S ts inps l = Inr (l', seqs) \<Longrightarrow> wf_log l \<Longrightarrow> wf_log l'"
  by (induction inps arbitrary: l seqs) (auto intro: insert_and_fold_wf_log)

lemma insert_all_folds:
  "insert_all S ts inps l = Inr (l', seqs) \<Longrightarrow>
   foldM (fold_apply S) (tables l) (map (\<lambda>(seq, inp). event_of seq ts inp) (zip seqs inps)) = Inr (tables l')"
proof (induction inps arbitrary: l seqs)
  case (Cons inp inps)
  then obtain l1 seq seqs1 where one: "insert_and_fold S ts inp l = Inr (l1, seq)"
    and rest: "insert_all S ts inps l1 = Inr (l', seqs1)" and seqs: "seqs = seq # seqs1"
    by auto
  from one have "fold_apply S (tables l) (event_of seq ts inp) = Inr (tables l1)"
    by (auto simp: insert_and_fold_Inr)
  then show ?case using Cons.IH [OF rest] by (simp add: seqs)
qed simp

lemma append_batch_Inr:
  "append_batch S ts inps l = (l', Inr seqs) \<longleftrightarrow> insert_all S ts inps l = Inr (l', seqs)"
  by (auto simp: append_batch_def transaction_def split: sum.split)

lemma append_batch_Inl:
  "append_batch S ts inps l = (l', Inl e) \<longleftrightarrow> insert_all S ts inps l = Inl e \<and> l' = l"
  by (auto simp: append_batch_def transaction_def split: sum.split)

lemma append_event_cases:
  "append_event S ts inp l =
     (case insert_and_fold S ts inp l of Inl e \<Rightarrow> (l, Inl e) | Inr (l', seq) \<Rightarrow> (l', Inr seq))"
  by (cases "insert_and_fold S ts inp l")
    (auto simp: append_event_def append_batch_def transaction_def)

text \<open>A log in order: the rows past a position are a suffix.\<close>

lemma wf_log_nth: "wf_log l \<Longrightarrow> k < length (event_log l) \<Longrightarrow> r_seq (event_log l ! k) = int k + 1"
proof -
  assume wf: "wf_log l" and k: "k < length (event_log l)"
  have "r_seq (event_log l ! k) = map r_seq (event_log l) ! k" using k by simp
  also have "\<dots> = map int [1..<Suc (length (event_log l))] ! k" using wf by (simp add: wf_log_def)
  also have "\<dots> = int k + 1" using k by (simp del: upt_Suc)
  finally show ?thesis .
qed

lemma filter_past:
  assumes "map r_seq rs = map (\<lambda>k. b + int k) [1..<Suc (length rs)]"
  shows "filter (\<lambda>r. b + 1 + int n \<le> r_seq r) rs = drop n rs"
  using assms
proof (induction rs arbitrary: b n)
  case (Cons r rs)
  have r: "r_seq r = b + 1" and rs: "map r_seq rs = map (\<lambda>k. (b + 1) + int k) [1..<Suc (length rs)]"
    using Cons.prems by (simp_all add: upt_from_1 o_def add.assoc del: upt_Suc)
  show ?case
  proof (cases n)
    case 0
    have "\<forall>x \<in> set rs. b + 1 \<le> r_seq x"
    proof
      fix x assume "x \<in> set rs"
      then have "r_seq x \<in> set (map r_seq rs)" by simp
      then show "b + 1 \<le> r_seq x" unfolding rs by auto
    qed
    then show ?thesis using 0 r by simp
  next
    case (Suc m)
    then show ?thesis using r Cons.IH [OF rs, of m] by (simp add: add.assoc algebra_simps)
  qed
qed simp

lemma wf_log_filter_past:
  "wf_log l \<Longrightarrow> filter (\<lambda>r. int n + 1 \<le> r_seq r) (event_log l) = drop n (event_log l)"
  using filter_past [of "event_log l" 0 n] by (simp add: wf_log_def add.commute)

lemma replay_row_Inr:
  "replay_row S st r = Inr st' \<longleftrightarrow> (\<exists>ev. row_to_event S r = Inr ev \<and> fold_apply S st ev = Inr st')"
  by (simp add: replay_row_def)

lemma mapM_rows:
  fixes S :: "'j serde"
  assumes "replays S l"
  shows "\<exists>evs. mapM (row_to_event S) (event_log l) = Inr evs \<and> foldM (fold_apply S) empty_state evs = Inr (tables l)"
proof -
  have "\<exists>evs. mapM (row_to_event S) rs = Inr evs \<and> foldM (fold_apply S) st evs = Inr st'"
    if "foldM (replay_row S) st rs = Inr st'" for rs st st'
    using that
  proof (induction rs arbitrary: st)
    case (Cons r rs)
    from Cons.prems obtain ev :: "'j event" and st1 where ev: "row_to_event S r = Inr ev" "fold_apply S st ev = Inr st1"
      and "foldM (replay_row S) st1 rs = Inr st'"
      by (auto simp: replay_row_Inr)
    then obtain evs where "mapM (row_to_event S) rs = Inr evs" "foldM (fold_apply S) st1 evs = Inr st'"
      using Cons.IH by blast
    then show ?case using ev by (intro exI [of _ "ev # evs"]) simp
  qed simp
  then show ?thesis using assms by (simp add: replays_def)
qed

end
