(* ===== verification/Consumers.thy ===== *)
theory Consumers
  imports Ledger
begin

text \<open>
  The consumers of the log (\<^verbatim>\<open>crates/camp-core/src/ledger/mod.rs\<close>): the named cursors, the byte
  offsets of the stream files, and \<open>process_past_cursor\<close>, which runs a processor over every event
  past a cursor, a page at a time, each event in a transaction that also advances the cursor.

  A processor is a Rust \<open>FnMut\<close>: it has a state \<open>'p\<close> of its own, which an error does not roll
  back, and writes to the ledger, which an error does. It may append events, so the loop need not
  end; \<open>None\<close> is not returning.
\<close>

section \<open>Cursors\<close>

definition cursor :: "string \<Rightarrow> ledger \<Rightarrow> int" where
  "cursor name l =
     (case sql_find (\<lambda>c. cu_name c = name) (cursors l) of None \<Rightarrow> 0 | Some c \<Rightarrow> cu_seq c)"

definition set_cursor :: "string \<Rightarrow> int \<Rightarrow> ledger \<Rightarrow> ledger" where
  "set_cursor name seq l =
     l\<lparr>cursors := sql_upsert cu_name (\<lambda>c. c\<lparr>cu_seq := seq\<rparr>) \<lparr>cu_name = name, cu_seq = seq\<rparr>
         (cursors l)\<rparr>"

text \<open>The offset is a \<open>u64\<close>, stored as the \<open>i64\<close> with the same bits.\<close>

definition stream_cursor :: "string \<Rightarrow> ledger \<Rightarrow> nat" where
  "stream_cursor sess l =
     nat ((case sql_find (\<lambda>c. st_session c = sess) (stream_cursors l) of
             None \<Rightarrow> 0 | Some c \<Rightarrow> st_offset c) mod 18446744073709551616)"

definition set_stream_cursor :: "string \<Rightarrow> nat \<Rightarrow> ledger \<Rightarrow> ledger" where
  "set_stream_cursor sess offset l =
     l\<lparr>stream_cursors := sql_upsert st_session (\<lambda>c. c\<lparr>st_offset := i64_wrap (int offset)\<rparr>)
         \<lparr>st_session = sess, st_offset = i64_wrap (int offset)\<rparr> (stream_cursors l)\<rparr>"

definition clear_stream_cursor :: "string \<Rightarrow> ledger \<Rightarrow> ledger" where
  "clear_stream_cursor sess l =
     l\<lparr>stream_cursors := filter (\<lambda>c. st_session c \<noteq> sess) (stream_cursors l)\<rparr>"

lemma find_after_upsert:
  assumes "\<And>r. key (f r) = key r"
  shows "sql_find (\<lambda>r. key r = k) (sql_upsert key f r rows) =
    (if k = key r
     then Some (case sql_find (\<lambda>r. key r = k) rows of None \<Rightarrow> r | Some r' \<Rightarrow> f r')
     else sql_find (\<lambda>r. key r = k) rows)"
proof -
  have upd: "find (\<lambda>x. key x = k) (map (\<lambda>x. if key x = key r then f x else x) xs)
      = (if k = key r then map_option f (find (\<lambda>x. key x = k) xs) else find (\<lambda>x. key x = k) xs)" for xs
    using assms by (induction xs) auto
  have app: "find (\<lambda>x. key x = k) (xs @ [r]) = (case find (\<lambda>x. key x = k) xs of
      None \<Rightarrow> (if k = key r then Some r else None) | Some x \<Rightarrow> Some x)" for xs
    by (induction xs) auto
  show ?thesis
  proof (cases "key r \<in> key ` set rows")
    case True
    then have "find (\<lambda>x. key x = key r) rows \<noteq> None" by (auto simp: find_None_iff)
    with True show ?thesis by (auto simp: sql_upsert_def sql_find_def upd)
  next
    case False
    then have "find (\<lambda>x. key x = key r) rows = None"
      unfolding find_None_iff by (metis image_eqI)
    with False show ?thesis
      by (auto simp: sql_upsert_def sql_find_def app split: option.split)
  qed
qed

lemma cursor_set_cursor [simp]:
  "cursor m (set_cursor n seq l) = (if m = n then seq else cursor m l)"
  by (simp add: cursor_def set_cursor_def find_after_upsert split: option.split)

lemma set_cursor_keeps [simp]:
  "event_log (set_cursor n s l) = event_log l" "last_seq (set_cursor n s l) = last_seq l"
  "tables (set_cursor n s l) = tables l" "stream_cursors (set_cursor n s l) = stream_cursors l"
  by (simp_all add: set_cursor_def)

lemma u64_bits: "n < 18446744073709551616 \<Longrightarrow> nat (i64_wrap (int n) mod 18446744073709551616) = n"
proof -
  assume n: "n < 18446744073709551616"
  have "(i64_wrap (int n)) mod 18446744073709551616 = int n mod 18446744073709551616"
    unfolding i64_wrap_def by (simp add: mod_simps)
  also have "\<dots> = int n" using n by simp
  finally show ?thesis by simp
qed

lemma stream_cursor_set [simp]:
  assumes "n < 18446744073709551616"
  shows "stream_cursor t (set_stream_cursor s n l) = (if t = s then n else stream_cursor t l)"
  using u64_bits [OF assms]
  by (simp add: stream_cursor_def set_stream_cursor_def find_after_upsert split: option.split)

lemma stream_cursor_clear [simp]:
  "stream_cursor t (clear_stream_cursor s l) = (if t = s then 0 else stream_cursor t l)"
proof -
  have *: "find (\<lambda>c. st_session c = t) (filter (\<lambda>c. st_session c \<noteq> s) xs)
      = (if t = s then None else find (\<lambda>c. st_session c = t) xs)" for xs
    by (induction xs) auto
  have c: "stream_cursors (clear_stream_cursor s l) = filter (\<lambda>c. st_session c \<noteq> s) (stream_cursors l)"
    by (simp add: clear_stream_cursor_def)
  show ?thesis unfolding stream_cursor_def sql_find_def c * by simp
qed

section \<open>Processing\<close>

type_synonym ('j, 'p) processor = "'j event \<Rightarrow> 'p \<Rightarrow> ledger \<Rightarrow> 'p \<times> ledger res"

definition CATCH_UP_PAGE_SIZE :: nat where
  "CATCH_UP_PAGE_SIZE = 500"

fun process_page ::
    "('j, 'p) processor \<Rightarrow> string \<Rightarrow> 'j event list \<Rightarrow> int \<Rightarrow> 'p \<Rightarrow> ledger \<Rightarrow> 'p \<times> ledger \<times> int res"
where
  "process_page process name [] c p l = (p, l, Inr c)"
| "process_page process name (ev # evs) c p l =
     (case process ev p l of
        (p', Inl e) \<Rightarrow> (p', l, Inl e)
      | (p', Inr l') \<Rightarrow> process_page process name evs (ev_seq ev) p' (set_cursor name (ev_seq ev) l'))"

partial_function (option) process_from ::
    "'j serde \<Rightarrow> ('j, 'p) processor \<Rightarrow> string \<Rightarrow> int \<Rightarrow> 'p \<Rightarrow> ledger \<Rightarrow> ('p \<times> ledger \<times> int res) option"
where
  "process_from S process name c p l =
     (case events_page S (i64_wrap (c + 1)) CATCH_UP_PAGE_SIZE l of
        Inl e \<Rightarrow> Some (p, l, Inl e)
      | Inr page \<Rightarrow>
          if page = [] then Some (p, l, Inr c)
          else (case process_page process name page c p l of
                  (p', l', Inl e) \<Rightarrow> Some (p', l', Inl e)
                | (p', l', Inr c') \<Rightarrow> process_from S process name c' p' l'))"

definition process_past_cursor ::
    "'j serde \<Rightarrow> ('j, 'p) processor \<Rightarrow> string \<Rightarrow> 'p \<Rightarrow> ledger \<Rightarrow> ('p \<times> ledger \<times> int res) option"
where
  "process_past_cursor S process name p l = process_from S process name (cursor name l) p l"

section \<open>Exactly once\<close>

definition room :: "ledger \<Rightarrow> bool" where
  "room l \<longleftrightarrow> wf_log l \<and> last_seq l < i64_max"

text \<open>What the caller owes: a processor writes through \<open>append_on\<close>, so it only extends the log,
  and leaves the cursor to the loop.\<close>

definition well_behaved :: "string \<Rightarrow> ('j, 'p) processor \<Rightarrow> bool" where
  "well_behaved name process \<longleftrightarrow>
     (\<forall>ev p l p' l'. process ev p l = (p', Inr l') \<longrightarrow> room l \<longrightarrow>
        room l' \<and> last_seq l \<le> last_seq l' \<and> cursor name l' = cursor name l)"

text \<open>The processor with a record of the events it was given and did not refuse.\<close>

definition traced :: "('j, 'p) processor \<Rightarrow> ('j, 'p \<times> int list) processor" where
  "traced process ev pt l =
     (case process ev (fst pt) l of
        (p', Inl e) \<Rightarrow> ((p', snd pt), Inl e)
      | (p', Inr l') \<Rightarrow> ((p', snd pt @ [ev_seq ev]), Inr l'))"

text \<open>Where a run stands: the events up to the cursor are the ones before it started and the ones
  in the trace, in order.\<close>

definition stands :: "string \<Rightarrow> int \<Rightarrow> int list \<Rightarrow> ledger \<Rightarrow> bool" where
  "stands name c0 tr l \<longleftrightarrow>
     room l \<and> tr = [c0 + 1 .. cursor name l] \<and> c0 \<le> cursor name l \<and> cursor name l \<le> last_seq l"

lemma room_set_cursor [simp]: "room (set_cursor n s l) = room l"
  by (simp add: room_def wf_log_def)

lemma process_page_stands:
  assumes "process_page (traced process) name evs c pt l = (pt', l', r)"
    and "well_behaved name process" and "stands name c0 (snd pt) l" and "cursor name l = c"
    and "map ev_seq evs = [c + 1 .. c + int (length evs)]" and "c + int (length evs) \<le> last_seq l"
  shows "stands name c0 (snd pt') l' \<and> last_seq l \<le> last_seq l' \<and>
         (\<forall>c'. r = Inr c' \<longrightarrow> c' = cursor name l' \<and> c' = c + int (length evs))"
  using assms
proof (induction evs arbitrary: c pt l)
  case Nil
  then show ?case by auto
next
  case (Cons ev evs)
  obtain p' lr where run: "process ev (fst pt) l = (p', lr)" by fastforce
  show ?case
  proof (cases lr)
    case (Inl e)
    then show ?thesis using Cons.prems run by (auto simp: traced_def)
  next
    case (Inr l1)
    let ?l1 = "set_cursor name (ev_seq ev) l1" and ?pt = "(p', snd pt @ [ev_seq ev])"
    have seqs: "ev_seq ev # map ev_seq evs = [c + 1 .. c + 1 + int (length evs)]"
      using Cons.prems(5) by (simp add: algebra_simps)
    then have s: "ev_seq ev = c + 1" and rest: "map ev_seq evs = [c + 1 + 1 .. c + 1 + int (length evs)]"
      by (subst (asm) upto_rec1; simp)+
    have room: "room l" using Cons.prems(3) by (simp add: stands_def)
    then have l1: "room l1" "last_seq l \<le> last_seq l1"
      using Cons.prems(2) run Inr unfolding well_behaved_def by blast+
    have tr: "snd pt @ [c + 1] = [c0 + 1 .. c + 1]"
      using Cons.prems(3,4) by (simp add: stands_def upto_rec2)
    have step: "traced process ev pt l = (?pt, Inr l1)"
      using run Inr by (simp add: traced_def)
    have "stands name c0 (snd ?pt) ?l1"
      using Cons.prems(3,4,6) l1 s tr by (simp add: stands_def)
    moreover have "process_page (traced process) name evs (c + 1) ?pt ?l1 = (pt', l', r)"
      using Cons.prems(1) step s by simp
    moreover have "cursor name ?l1 = c + 1" by (simp add: s)
    moreover have "c + 1 + int (length evs) \<le> last_seq ?l1"
      using Cons.prems(6) l1(2) by simp
    ultimately have "stands name c0 (snd pt') l' \<and> last_seq ?l1 \<le> last_seq l' \<and>
         (\<forall>c'. r = Inr c' \<longrightarrow> c' = cursor name l' \<and> c' = c + 1 + int (length evs))"
      using Cons.IH Cons.prems(2) rest by blast
    then show ?thesis using l1(2) by (simp add: add.assoc)
  qed
qed

lemma page_seqs:
  assumes "room l" and "0 \<le> c" and "c \<le> last_seq l" and "events_page S (i64_wrap (c + 1)) n l = Inr evs"
  shows "map ev_seq evs = [c + 1 .. c + int (length evs)] \<and> c + int (length evs) \<le> last_seq l \<and>
         length evs = min n (nat (last_seq l - c))"
proof -
  have wrap: "i64_wrap (c + 1) = c + 1"
    using assms(1-3) by (intro i64_wrap_id) (simp_all add: room_def i64_min_def)
  have wf: "wf_log l" and last: "last_seq l = int (length (event_log l))"
    using assms(1) by (simp_all add: room_def wf_log_def)
  define rs where "rs = take n (drop (nat c) (event_log l))"
  have "filter (\<lambda>r. c + 1 \<le> r_seq r) (event_log l) = drop (nat c) (event_log l)"
    using wf_log_filter_past [OF wf, of "nat c"] assms(2) by simp
  then have evs: "mapM (row_to_event S) rs = Inr evs"
    using assms(4) by (simp add: events_page_def wrap rs_def)
  then have len: "length evs = length rs" and nth: "\<And>i. i < length rs \<Longrightarrow> row_to_event S (rs ! i) = Inr (evs ! i)"
    by (simp_all add: mapM_eq_Inr)
  have seq: "ev_seq e = r_seq r" if "row_to_event S r = Inr e" for r e
    using that by (auto simp: row_to_event_def split: sum.splits)
  have k: "length rs = min n (nat (last_seq l - c))"
    using assms(2,3) last by (simp add: rs_def nat_diff_distrib)
  have "map ev_seq evs = [c + 1 .. c + int (length evs)]"
  proof (rule nth_equalityI)
    show "length (map ev_seq evs) = length [c + 1 .. c + int (length evs)]" by simp
    fix i assume "i < length (map ev_seq evs)"
    then have i: "i < length rs" using len by simp
    then have "nat c + i < length (event_log l)" by (simp add: rs_def less_diff_conv)
    then have "r_seq (event_log l ! (nat c + i)) = c + int i + 1"
      using wf_log_nth [OF wf] assms(2) by simp
    then have "ev_seq (evs ! i) = c + int i + 1"
      using seq [OF nth [OF i]] i assms(3) last by (simp add: rs_def)
    then show "map ev_seq evs ! i = [c + 1 .. c + int (length evs)] ! i"
      using i len by (simp add: nth_upto)
  qed
  moreover have "c + int (length evs) \<le> last_seq l"
    using k len assms(2,3) by simp
  ultimately show ?thesis using k len by simp
qed

text \<open>The result of a run, as the fixed-point induction carries it.\<close>

definition run_ok ::
    "('j, 'p) processor \<Rightarrow> int \<Rightarrow> 'j serde \<Rightarrow> ('j, 'p \<times> int list) processor \<Rightarrow> string \<Rightarrow> int \<Rightarrow>
     'p \<times> int list \<Rightarrow> ledger \<Rightarrow> ('p \<times> int list) \<times> ledger \<times> int res \<Rightarrow> bool" where
  "run_ok process c0 S pr name c pt l res \<longleftrightarrow>
     (pr = traced process \<longrightarrow> well_behaved name process \<longrightarrow> stands name c0 (snd pt) l \<longrightarrow>
      cursor name l = c \<longrightarrow> 0 \<le> c \<longrightarrow>
      (case res of (pt', l', r) \<Rightarrow>
         stands name c0 (snd pt') l' \<and> (\<forall>c'. r = Inr c' \<longrightarrow> c' = cursor name l' \<and> c' = last_seq l')))"

lemma process_from_run_ok:
  assumes "process_from S pr name c pt l = Some res"
  shows "run_ok process c0 S pr name c pt l res"
proof (rule process_from.raw_induct [OF _ assms, where P = "run_ok process c0"])
  fix F S pr name c pt l res
  assume IH: "\<And>S pr name c pt l res. F S pr name c pt l = Some res \<Longrightarrow> run_ok process c0 S pr name c pt l res"
    and run: "(case events_page S (i64_wrap (c + 1)) CATCH_UP_PAGE_SIZE l of
        Inl e \<Rightarrow> Some (pt, l, Inl e)
      | Inr page \<Rightarrow>
          if page = [] then Some (pt, l, Inr c)
          else (case process_page pr name page c pt l of
                  (p', l', Inl e) \<Rightarrow> Some (p', l', Inl e)
                | (p', l', Inr c') \<Rightarrow> F S pr name c' p' l')) = Some res"
  show "run_ok process c0 S pr name c pt l res"
    unfolding run_ok_def
  proof (intro impI)
    assume pr: "pr = traced process" and wb: "well_behaved name process"
      and st: "stands name c0 (snd pt) l" and cur: "cursor name l = c" and c: "0 \<le> c"
    have room: "room l" and le: "c \<le> last_seq l" using st cur by (simp_all add: stands_def)
    show "case res of (pt', l', r) \<Rightarrow>
        stands name c0 (snd pt') l' \<and> (\<forall>c'. r = Inr c' \<longrightarrow> c' = cursor name l' \<and> c' = last_seq l')"
    proof (cases "events_page S (i64_wrap (c + 1)) CATCH_UP_PAGE_SIZE l")
      case (Inl e)
      then show ?thesis using run st by auto
    next
      case (Inr page)
      note seqs = page_seqs [OF room c le Inr]
      show ?thesis
      proof (cases "page = []")
        case True
        then have "nat (last_seq l - c) = 0"
          using seqs by (auto simp: CATCH_UP_PAGE_SIZE_def min_def split: if_splits)
        then show ?thesis using run st cur le Inr True by auto
      next
        case False
        obtain p1 l1 r1 where page: "process_page (traced process) name page c pt l = (p1, l1, r1)"
          by (metis prod_cases3)
        note one = process_page_stands [OF page wb st cur conjunct1 [OF seqs]]
        show ?thesis
        proof (cases r1)
          case (Inl e)
          then show ?thesis using run Inr False pr page one seqs by auto
        next
          case (Inr c1)
          then have "F S pr name c1 p1 l1 = Some res"
            using run \<open>events_page _ _ _ _ = Inr page\<close> False pr page by simp
          then have "run_ok process c0 S pr name c1 p1 l1 res" by (rule IH)
          then show ?thesis using pr wb one seqs Inr c by (auto simp: run_ok_def)
        qed
      qed
    qed
  qed
qed

lemma process_past_cursor_stands:
  assumes "process_past_cursor S (traced process) name (p, []) l = Some ((p', tr), l', r)"
    and "well_behaved name process" and "room l" and "0 \<le> cursor name l" and "cursor name l \<le> last_seq l"
  shows "stands name (cursor name l) tr l' \<and> (\<forall>c. r = Inr c \<longrightarrow> c = cursor name l' \<and> c = last_seq l')"
proof -
  have "run_ok process (cursor name l) S (traced process) name (cursor name l) (p, []) l ((p', tr), l', r)"
    using assms(1) unfolding process_past_cursor_def by (rule process_from_run_ok)
  moreover have "stands name (cursor name l) [] l"
    using assms by (simp add: stands_def)
  ultimately show ?thesis using assms by (simp add: run_ok_def)
qed

text \<open>A processor that appends nothing: the run ends.\<close>

definition reads_only :: "string \<Rightarrow> ('j, 'p) processor \<Rightarrow> bool" where
  "reads_only name process \<longleftrightarrow>
     (\<forall>ev p l p' l'. process ev p l = (p', Inr l') \<longrightarrow> room l \<longrightarrow>
        room l' \<and> last_seq l' = last_seq l \<and> cursor name l' = cursor name l)"

lemma process_page_ends:
  assumes "process_page process name evs c p l = (p', l', Inr c')" and "reads_only name process"
    and "room l" and "cursor name l = c" and "map ev_seq evs = [c + 1 .. c + int (length evs)]"
  shows "room l' \<and> last_seq l' = last_seq l \<and> cursor name l' = c' \<and> c' = c + int (length evs)"
  using assms
proof (induction evs arbitrary: c p l)
  case (Cons ev evs)
  from Cons.prems(1) obtain p1 l1 where run: "process ev p l = (p1, Inr l1)"
    and rest: "process_page process name evs (ev_seq ev) p1 (set_cursor name (ev_seq ev) l1) = (p', l', Inr c')"
    by (auto split: prod.splits sum.splits)
  have l1: "room l1" "last_seq l1 = last_seq l"
    using Cons.prems(2,3) run unfolding reads_only_def by blast+
  have "ev_seq ev # map ev_seq evs = [c + 1 .. c + 1 + int (length evs)]"
    using Cons.prems(5) by (simp add: algebra_simps)
  then have s: "ev_seq ev = c + 1" and tl: "map ev_seq evs = [c + 1 + 1 .. c + 1 + int (length evs)]"
    by (subst (asm) upto_rec1; simp)+
  have "room l' \<and> last_seq l' = last_seq (set_cursor name (c + 1) l1) \<and> cursor name l' = c' \<and>
      c' = c + 1 + int (length evs)"
    by (rule Cons.IH) (use rest s l1 tl Cons.prems(2) in simp_all)
  then show ?case using l1 by simp
qed simp

lemma process_from_ends:
  assumes "reads_only name process" and "room l" and "cursor name l = c" and "0 \<le> c" and "c \<le> last_seq l"
  shows "process_from S process name c p l \<noteq> None"
  using assms
proof (induction "nat (last_seq l - c)" arbitrary: c p l rule: less_induct)
  case less
  show ?case
  proof (cases "events_page S (i64_wrap (c + 1)) CATCH_UP_PAGE_SIZE l")
    case (Inl e)
    then show ?thesis by (subst process_from.simps) simp
  next
    case (Inr page)
    note seqs = page_seqs [OF less.prems(2,4,5) Inr]
    obtain p1 l1 r1 where page: "process_page process name page c p l = (p1, l1, r1)"
      by (metis prod_cases3)
    show ?thesis
    proof (cases "page = [] \<or> (\<exists>e. r1 = Inl e)")
      case True
      then show ?thesis using Inr page by (subst process_from.simps) auto
    next
      case False
      then obtain c1 where c1: "r1 = Inr c1" by (cases r1) auto
      have one: "room l1 \<and> last_seq l1 = last_seq l \<and> cursor name l1 = c1 \<and> c1 = c + int (length page)"
        using process_page_ends [OF _ less.prems(1-3) conjunct1 [OF seqs]] page c1 by simp
      have "0 < length page" using False by simp
      then have "process_from S process name c1 p1 l1 \<noteq> None"
        using one seqs less.prems by (intro less.hyps) auto
      then show ?thesis using Inr page c1 False by (subst process_from.simps) simp
    qed
  qed
qed

end
