(* ===== verification/Refold.thy ===== *)
theory Refold
  imports Consumers
begin

text \<open>
  The refold property (\<^verbatim>\<open>crates/camp-core/src/ledger/refold.rs\<close>): \<open>refold_check\<close> replays the
  log into a shadow of the state tables and diffs it against the live ones, \<open>refold_repair\<close>
  replaces the live tables by the shadow. \<open>EXCEPT\<close> compares sets of rows, so the diff is a
  comparison of the tables as sets; the order in which SQLite lists the rows of an \<open>EXCEPT\<close> is
  not specified, and the model takes the table's.
\<close>

section \<open>The tables\<close>

datatype table = Tbeads | Tbead_meta | Tdeps | Tsessions | Tsearch | Tcounters | Tpermissions

definition STATE_TABLES :: "table list" where
  "STATE_TABLES = [Tbeads, Tbead_meta, Tdeps, Tsessions, Tsearch, Tcounters, Tpermissions]"

fun table_name :: "table \<Rightarrow> string" where
  "table_name Tbeads = ''beads''"
| "table_name Tbead_meta = ''bead_meta''"
| "table_name Tdeps = ''deps''"
| "table_name Tsessions = ''sessions''"
| "table_name Tsearch = ''search''"
| "table_name Tcounters = ''counters''"
| "table_name Tpermissions = ''permissions''"

fun search_kind_str :: "search_kind \<Rightarrow> string" where
  "search_kind_str Body = ''body''"
| "search_kind_str Close = ''close''"

section \<open>The diff\<close>

record drift_entry =
  de_table :: string
  de_detail :: message

text \<open>\<open>SELECT key FROM (SELECT cols FROM have EXCEPT SELECT cols FROM lack)\<close>.\<close>

definition except_rows :: "'r list \<Rightarrow> 'r list \<Rightarrow> 'r list" where
  "except_rows have lack = remdups (filter (\<lambda>r. r \<notin> set lack) have)"

fun except_keys :: "table \<Rightarrow> state \<Rightarrow> state \<Rightarrow> string list" where
  "except_keys Tbeads a b = map b_id (except_rows (beads a) (beads b))"
| "except_keys Tbead_meta a b =
     map (\<lambda>m. m_bead m @ ''/'' @ m_key m) (except_rows (bead_meta a) (bead_meta b))"
| "except_keys Tdeps a b =
     map (\<lambda>d. d_bead d @ '' needs '' @ d_needs d) (except_rows (deps a) (deps b))"
| "except_keys Tsessions a b = map s_name (except_rows (sessions a) (sessions b))"
| "except_keys Tsearch a b =
     map (\<lambda>r. sr_bead r @ ''/'' @ search_kind_str (sr_kind r)) (except_rows (search a) (search b))"
| "except_keys Tcounters a b = map c_prefix (except_rows (counters a) (counters b))"
| "except_keys Tpermissions a b = map p_request_id (except_rows (permissions a) (permissions b))"

definition collect_keys :: "table \<Rightarrow> state \<Rightarrow> state \<Rightarrow> string \<Rightarrow> drift_entry list" where
  "collect_keys t have lack what =
     map (\<lambda>k. \<lparr>de_table = table_name t, de_detail = Msg ''{}: {what}'' [k, what]\<rparr>)
       (except_keys t have lack)"

definition diff_all :: "state \<Rightarrow> state \<Rightarrow> drift_entry list" where
  "diff_all live shadow =
     concat (map (\<lambda>t.
       collect_keys t shadow live ''fold expects this row; live state is missing or has altered it''
       @ collect_keys t live shadow ''live state holds this row but the fold does not produce it'')
     STATE_TABLES)"

record refold_report =
  events_replayed :: nat
  drift :: "drift_entry list"

definition refold_check :: "'j serde \<Rightarrow> ledger \<Rightarrow> refold_report res" where
  "refold_check S l =
     rbind (build_shadow S l) (\<lambda>(shadow, n).
       Inr \<lparr>events_replayed = n, drift = diff_all (tables l) shadow\<rparr>)"

section \<open>Repair\<close>

text \<open>\<open>DELETE FROM table\<close>: the rows that refer to \<open>beads\<close> must be gone before its own.\<close>

fun delete_from :: "state \<Rightarrow> table \<Rightarrow> state res" where
  "delete_from st Tbeads =
     (if (\<exists>m \<in> set (bead_meta st). m_bead m \<in> ids st) \<or> (\<exists>d \<in> set (deps st). d_bead d \<in> ids st)
      then Inl (Sqlite ''FOREIGN KEY constraint failed'') else Inr (st\<lparr>beads := []\<rparr>))"
| "delete_from st Tbead_meta = Inr (st\<lparr>bead_meta := []\<rparr>)"
| "delete_from st Tdeps = Inr (st\<lparr>deps := []\<rparr>)"
| "delete_from st Tsessions = Inr (st\<lparr>sessions := []\<rparr>)"
| "delete_from st Tsearch = Inr (st\<lparr>search := []\<rparr>)"
| "delete_from st Tcounters = Inr (st\<lparr>counters := []\<rparr>)"
| "delete_from st Tpermissions = Inr (st\<lparr>permissions := []\<rparr>)"

definition insert_rows ::
    "('r \<Rightarrow> 'k) \<Rightarrow> ('r \<Rightarrow> bool) \<Rightarrow> 'r list \<Rightarrow> 'r list \<Rightarrow> core_error + 'r list" where
  "insert_rows key chk new rows = foldM (\<lambda>rs r. sql_insert key chk r rs) rows new"

text \<open>\<open>INSERT INTO main.table SELECT \<dots> FROM refold.table\<close>, under the constraints of the table.\<close>

fun copy_from :: "state \<Rightarrow> state \<Rightarrow> table \<Rightarrow> state res" where
  "copy_from sh st Tbeads =
     rbind (insert_rows b_id beads_check (beads sh) (beads st)) (\<lambda>rs. Inr (st\<lparr>beads := rs\<rparr>))"
| "copy_from sh st Tbead_meta =
     (if list_all (\<lambda>m. m_bead m \<in> ids st) (bead_meta sh)
      then rbind (insert_rows meta_key (\<lambda>_. True) (bead_meta sh) (bead_meta st)) (\<lambda>rs.
        Inr (st\<lparr>bead_meta := rs\<rparr>))
      else Inl (Sqlite ''FOREIGN KEY constraint failed''))"
| "copy_from sh st Tdeps =
     (if list_all (\<lambda>d. d_bead d \<in> ids st) (deps sh)
      then rbind (insert_rows dep_key (\<lambda>_. True) (deps sh) (deps st)) (\<lambda>rs. Inr (st\<lparr>deps := rs\<rparr>))
      else Inl (Sqlite ''FOREIGN KEY constraint failed''))"
| "copy_from sh st Tsessions =
     rbind (insert_rows s_name (\<lambda>_. True) (sessions sh) (sessions st)) (\<lambda>rs.
       Inr (st\<lparr>sessions := rs\<rparr>))"
| "copy_from sh st Tsearch = Inr (st\<lparr>search := search st @ search sh\<rparr>)"
| "copy_from sh st Tcounters =
     rbind (insert_rows c_prefix (\<lambda>_. True) (counters sh) (counters st)) (\<lambda>rs.
       Inr (st\<lparr>counters := rs\<rparr>))"
| "copy_from sh st Tpermissions =
     rbind (insert_rows p_request_id permissions_check (permissions sh) (permissions st)) (\<lambda>rs.
       Inr (st\<lparr>permissions := rs\<rparr>))"

definition replace_state_from_shadow :: "state \<Rightarrow> state \<Rightarrow> state res" where
  "replace_state_from_shadow shadow st =
     rbind (foldM delete_from st (rev STATE_TABLES)) (\<lambda>st1.
       foldM (copy_from shadow) st1 STATE_TABLES)"

definition refold_repair :: "'j serde \<Rightarrow> ledger \<Rightarrow> ledger \<times> refold_report res" where
  "refold_repair S l =
     (case build_shadow S l of
        Inl e \<Rightarrow> (l, Inl e)
      | Inr (shadow, _) \<Rightarrow>
          (case replace_state_from_shadow shadow (tables l) of
             Inl e \<Rightarrow> (l, Inl e)
           | Inr st \<Rightarrow> (l\<lparr>tables := st\<rparr>, refold_check S (l\<lparr>tables := st\<rparr>))))"

section \<open>What the diff sees\<close>

text \<open>Two states hold the same rows.\<close>

definition same_rows :: "state \<Rightarrow> state \<Rightarrow> bool" where
  "same_rows a b \<longleftrightarrow>
     set (beads a) = set (beads b) \<and> set (bead_meta a) = set (bead_meta b) \<and>
     set (deps a) = set (deps b) \<and> set (sessions a) = set (sessions b) \<and>
     set (search a) = set (search b) \<and> set (counters a) = set (counters b) \<and>
     set (permissions a) = set (permissions b)"

lemma except_rows_Nil: "except_rows xs ys = [] \<longleftrightarrow> set xs \<subseteq> set ys"
  by (auto simp: except_rows_def filter_empty_conv)

lemma except_keys_Nil:
  "except_keys t a b = [] \<longleftrightarrow>
     (case t of
        Tbeads \<Rightarrow> set (beads a) \<subseteq> set (beads b)
      | Tbead_meta \<Rightarrow> set (bead_meta a) \<subseteq> set (bead_meta b)
      | Tdeps \<Rightarrow> set (deps a) \<subseteq> set (deps b)
      | Tsessions \<Rightarrow> set (sessions a) \<subseteq> set (sessions b)
      | Tsearch \<Rightarrow> set (search a) \<subseteq> set (search b)
      | Tcounters \<Rightarrow> set (counters a) \<subseteq> set (counters b)
      | Tpermissions \<Rightarrow> set (permissions a) \<subseteq> set (permissions b))"
  by (cases t) (simp_all add: except_rows_Nil)

lemma diff_all_Nil: "diff_all a b = [] \<longleftrightarrow> same_rows a b"
  by (simp add: diff_all_def collect_keys_def STATE_TABLES_def except_rows_Nil same_rows_def
      set_eq_subset conj_ac)

lemma same_rows_refl [simp]: "same_rows a a"
  by (simp add: same_rows_def)

section \<open>Repair brings the fold back\<close>

lemma insert_rows_Inr:
  assumes "distinct (map key (rows @ new))" and "list_all chk new"
  shows "insert_rows key chk new rows = Inr (rows @ new)"
  using assms
proof (induction new arbitrary: rows)
  case (Cons r new)
  have "sql_insert key chk r rows = Inr (rows @ [r])"
    using Cons.prems by (auto simp: sql_insert_def)
  moreover have "insert_rows key chk new (rows @ [r]) = Inr ((rows @ [r]) @ new)"
    by (rule Cons.IH) (use Cons.prems in auto)
  ultimately show ?case by (simp add: insert_rows_def)
qed (simp add: insert_rows_def)

lemma delete_all: "foldM delete_from st (rev STATE_TABLES) = Inr empty_state"
  by (cases st) (simp add: STATE_TABLES_def empty_state_def)

lemma copy_all:
  assumes "wf_state sh"
  shows "foldM (copy_from sh) empty_state STATE_TABLES = Inr sh"
proof -
  have "table_ok b_id beads_check (beads sh)" by (rule wf_beads_table [OF assms])
  with assms show ?thesis
    by (cases sh) (simp add: STATE_TABLES_def empty_state_def insert_rows_Inr wf_state_def table_ok_def
        meta_ok_def deps_ok_def sessions_ok_def counters_ok_def permissions_ok_def ids_def list_all_iff)
qed

lemma replace_state: "wf_state sh \<Longrightarrow> replace_state_from_shadow sh st = Inr sh"
  by (simp add: replace_state_from_shadow_def delete_all copy_all)

lemma build_shadow_wf: "build_shadow S l = Inr (st, n) \<Longrightarrow> wf_state st"
  using rows.replay_inv by (auto simp: build_shadow_def)

lemma build_shadow_good: "replays S l \<Longrightarrow> build_shadow S l = Inr (tables l, length (event_log l))"
  by (simp add: build_shadow_def replays_def)

lemma build_shadow_tables [simp]: "build_shadow S (l\<lparr>tables := st\<rparr>) = build_shadow S l"
  by (simp add: build_shadow_def)

lemma refold_check_good:
  "replays S l \<Longrightarrow> refold_check S l = Inr \<lparr>events_replayed = length (event_log l), drift = []\<rparr>"
  by (simp add: refold_check_def build_shadow_good diff_all_Nil)

lemma refold_repair_cases:
  "refold_repair S l =
     (case build_shadow S l of
        Inl e \<Rightarrow> (l, Inl e)
      | Inr (sh, n) \<Rightarrow> (l\<lparr>tables := sh\<rparr>, Inr \<lparr>events_replayed = n, drift = []\<rparr>))"
  by (auto simp: refold_repair_def replace_state build_shadow_wf refold_check_def diff_all_Nil
      split: sum.split)

section \<open>The ledgers the program reaches\<close>

text \<open>
  The commits of the write path: a batch, a processor's transaction (appends of its own and the
  cursor), the stream offsets, and a repair.
\<close>

definition append_many ::
    "'j serde \<Rightarrow> (string \<times> 'j event_input) list \<Rightarrow> ledger \<Rightarrow> ledger res" where
  "append_many S inps l =
     foldM (\<lambda>l (ts, inp). rbind (append_on S ts inp l) (\<lambda>(l', _). Inr l')) l inps"

inductive reachable :: "'j serde \<Rightarrow> ledger \<Rightarrow> bool" for S :: "'j serde" where
  start: "reachable S new_ledger"
| batch: "reachable S l \<Longrightarrow> reachable S (fst (append_batch S ts inps l))"
| tx: "reachable S l \<Longrightarrow> append_many S inps l = Inr l' \<Longrightarrow> reachable S (set_cursor name seq l')"
| stream: "reachable S l \<Longrightarrow> reachable S (set_stream_cursor sess n l)"
| unstream: "reachable S l \<Longrightarrow> reachable S (clear_stream_cursor sess l)"
| repair: "reachable S l \<Longrightarrow> reachable S (fst (refold_repair S l))"

lemma append_many_good:
  assumes "text_roundtrip S" and "append_many S inps l = Inr l'" and "good S l"
  shows "good S l'"
  using assms(2) unfolding append_many_def
  by (rule foldM_invariant)
    (use assms(1,3) insert_and_fold_good in \<open>auto simp: append_on_def split: prod.splits\<close>)

lemma reachable_good:
  assumes "text_roundtrip S" and "reachable S l"
  shows "good S l"
  using assms(2)
proof induction
  case (batch l ts inps)
  then show ?case using assms(1) by (simp add: append_batch_good)
next
  case (tx l inps l' name seq)
  then have "good S l'" using assms(1) append_many_good by blast
  then show ?case by (rule good_cong) simp_all
next
  case (stream l sess n)
  show ?case by (rule good_cong [OF stream.IH]) (simp_all add: set_stream_cursor_def)
next
  case (unstream l sess)
  show ?case by (rule good_cong [OF unstream.IH]) (simp_all add: clear_stream_cursor_def)
next
  case (repair l)
  then have "replays S l" by (simp add: good_def)
  then have "refold_repair S l = (l\<lparr>tables := tables l\<rparr>, Inr \<lparr>events_replayed = length (event_log l), drift = []\<rparr>)"
    by (simp add: refold_repair_cases build_shadow_good)
  then show ?case using repair by simp
qed simp

end
