(* ===== verification/Readiness.thy ===== *)
theory Readiness
  imports Ledger
begin

text \<open>
  Readiness (\<^verbatim>\<open>crates/camp-core/src/readiness.rs\<close>): which beads are unblocked, which of them
  campd may dispatch, the counts of the status surface, the projected metadata, and what a
  close makes ready. All of it reads the state tables.
\<close>

section \<open>Rows\<close>

record BeadRow =
  row_id :: string
  row_rig :: string
  row_kind :: string
  row_title :: string
  row_status :: bead_status
  row_assignee :: "string option"
  row_claimed_by :: "string option"
  row_outcome :: "string option"
  row_work_outcome :: "string option"
  row_dispatch_failure :: "string option"
  row_labels :: "string list"
  row_created_ts :: string
  row_updated_ts :: string

definition row_to_bead :: "'j serde \<Rightarrow> bead \<Rightarrow> BeadRow res" where
  "row_to_bead S b =
     (case labels_of S (b_labels b) of
        Inl _ \<Rightarrow> Inl (Sqlite ''FromSqlConversionFailure: column 8'')
      | Inr labels \<Rightarrow>
          Inr \<lparr>row_id = b_id b, row_rig = b_rig b, row_kind = b_type b, row_title = b_title b,
               row_status = b_status b, row_assignee = b_assignee b,
               row_claimed_by = b_claimed_by b, row_outcome = b_outcome b,
               row_work_outcome = b_work_outcome b, row_dispatch_failure = b_dispatch_failure b,
               row_labels = labels, row_created_ts = b_created_ts b,
               row_updated_ts = b_updated_ts b\<rparr>)"

text \<open>\<open>ORDER BY created_ts, id\<close>.\<close>

definition oldest_first :: "bead list \<Rightarrow> bead list" where
  "oldest_first bs = sort_key (\<lambda>b. (b_created_ts b, b_id b)) bs"

section \<open>The predicates of the queries\<close>

text \<open>\<open>UNMET_DEP\<close> over \<open>deps d LEFT JOIN beads t ON t.id = d.needs_id\<close>.\<close>

definition unmet_dep :: "state \<Rightarrow> dep_row \<Rightarrow> bool" where
  "unmet_dep st d =
     (case bead_at st (d_needs d) of
        None \<Rightarrow> True
      | Some t \<Rightarrow> b_status t \<noteq> Closed \<or> b_outcome t \<noteq> Some ''pass'')"

definition blocked :: "state \<Rightarrow> string \<Rightarrow> bool" where
  "blocked st i = list_ex (\<lambda>d. d_bead d = i \<and> unmet_dep st d) (deps st)"

definition is_task :: "bead \<Rightarrow> bool" where
  "is_task b \<longleftrightarrow> b_type b = ''task''"

definition is_run_root :: "bead \<Rightarrow> bool" where
  "is_run_root b \<longleftrightarrow> b_run_id b \<noteq> None \<and> b_step_id b = None"

definition is_ready :: "state \<Rightarrow> string \<Rightarrow> bool res" where
  "is_ready st i =
     (case bead_status st i of
        None \<Rightarrow> Inl (UnknownBead i)
      | Some s \<Rightarrow>
          if s \<noteq> Open then Inr False
          else Inr (length (filter (\<lambda>d. d_bead d = i \<and> unmet_dep st d) (deps st)) = 0))"

definition ready_rows :: "state \<Rightarrow> string option \<Rightarrow> bead list" where
  "ready_rows st rig =
     oldest_first (filter (\<lambda>b. b_status b = Open \<and>
       (case rig of None \<Rightarrow> True | Some r \<Rightarrow> b_rig b = r) \<and> \<not> blocked st (b_id b)) (beads st))"

definition ready_beads :: "'j serde \<Rightarrow> state \<Rightarrow> string option \<Rightarrow> BeadRow list res" where
  "ready_beads S st rig = mapM (row_to_bead S) (ready_rows st rig)"

definition dispatchable_rows :: "state \<Rightarrow> bead list" where
  "dispatchable_rows st =
     oldest_first (filter (\<lambda>b. b_status b = Open \<and> is_task b \<and> b_dispatch_failure b = None \<and>
       \<not> is_run_root b \<and> \<not> list_ex (\<lambda>s. s_bead s = Some (b_id b)) (sessions st) \<and>
       \<not> blocked st (b_id b)) (beads st))"

definition dispatchable_beads :: "'j serde \<Rightarrow> state \<Rightarrow> BeadRow list res" where
  "dispatchable_beads S st = mapM (row_to_bead S) (dispatchable_rows st)"

section \<open>Counts\<close>

definition count_nonneg :: "int \<Rightarrow> string \<Rightarrow> nat res" where
  "count_nonneg n label =
     (if n < 0 then Inl (Corrupt (Msg ''negative {label} count {n}'' [label, show_int n]))
      else Inr (nat n))"

definition ready_task_count :: "state \<Rightarrow> nat res" where
  "ready_task_count st =
     count_nonneg (int (length (filter (\<lambda>b. b_status b = Open \<and> is_task b \<and>
       b_dispatch_failure b = None \<and> \<not> is_run_root b \<and> \<not> blocked st (b_id b)) (beads st))))
       ''ready-task''"

definition open_task_count :: "state \<Rightarrow> nat res" where
  "open_task_count st =
     count_nonneg (int (length (filter (\<lambda>b. b_status b = Open \<and> is_task b) (beads st)))) ''open-task''"

definition DEFERRED_DISPATCH_PREFIX :: string where
  "DEFERRED_DISPATCH_PREFIX = ''patrol respawn deferred:''"

definition is_deferred_dispatch_failure :: "string \<Rightarrow> bool" where
  "is_deferred_dispatch_failure reason = starts_with DEFERRED_DISPATCH_PREFIX reason"

text \<open>SQLite's \<open>LIKE 'p%'\<close> for a \<open>p\<close> without wildcards: \<open>LIKE\<close> folds the case of ASCII letters.\<close>

definition ascii_lower :: "char \<Rightarrow> char" where
  "ascii_lower c = (if 65 \<le> byte c \<and> byte c \<le> 90 then char_of (byte c + 32) else c)"

definition like_prefix :: "string \<Rightarrow> string \<Rightarrow> bool" where
  "like_prefix p s = starts_with (map ascii_lower p) (map ascii_lower s)"

definition stuck_task_count :: "state \<Rightarrow> nat res" where
  "stuck_task_count st =
     count_nonneg (int (length (filter (\<lambda>b. b_status b = Open \<and> is_task b \<and>
       (case b_dispatch_failure b of
          None \<Rightarrow> False
        | Some reason \<Rightarrow> \<not> like_prefix DEFERRED_DISPATCH_PREFIX reason)) (beads st))))
       ''stuck-task''"

section \<open>Metadata, dependents, listings\<close>

definition column_value :: "bead \<Rightarrow> string \<Rightarrow> string option res" where
  "column_value b column =
     (if column = ''assignee'' then Inr (b_assignee b)
      else if column = ''work_branch'' then Inr (b_work_branch b)
      else if column = ''final_disposition'' then Inr (b_final_disposition b)
      else Inl (Corrupt (Msg
        ''PROJECTED_METADATA names column {other:?}, which bead_metadata does not read'' [column])))"

definition bead_metadata :: "state \<Rightarrow> string \<Rightarrow> (string \<rightharpoonup> string) res" where
  "bead_metadata st i =
     (let out = foldl (\<lambda>m r. m(m_key r \<mapsto> m_value r)) Map.empty
                  (filter (\<lambda>r. m_bead r = i) (bead_meta st)) in
      case bead_at st i of
        None \<Rightarrow> Inr out
      | Some b \<Rightarrow>
          foldM (\<lambda>m (key, column).
            rbind (column_value b column) (\<lambda>v.
              Inr (case v of None \<Rightarrow> m | Some value \<Rightarrow> m(key \<mapsto> value))))
            out PROJECTED_METADATA)"

definition newly_ready :: "state \<Rightarrow> string \<Rightarrow> string list res" where
  "newly_ready st closed =
     foldM (\<lambda>ready dep. rbind (is_ready st dep) (\<lambda>r. Inr (if r then ready @ [dep] else ready))) []
       (sort (remdups (map d_bead (filter (\<lambda>d. d_needs d = closed) (deps st)))))"

definition list_beads :: "'j serde \<Rightarrow> state \<Rightarrow> string option \<Rightarrow> string option \<Rightarrow> BeadRow list res" where
  "list_beads S st rig mine =
     mapM (row_to_bead S) (oldest_first (filter (\<lambda>b.
       (case rig of None \<Rightarrow> True | Some r \<Rightarrow> b_rig b = r) \<and>
       (case mine of None \<Rightarrow> True | Some m \<Rightarrow> b_claimed_by b = Some m)) (beads st)))"

definition get_bead :: "'j serde \<Rightarrow> state \<Rightarrow> string \<Rightarrow> BeadRow option res" where
  "get_bead S st i =
     (case bead_at st i of
        None \<Rightarrow> Inr None
      | Some b \<Rightarrow> rbind (row_to_bead S b) (\<lambda>r. Inr (Some r)))"

section \<open>Readiness of one bead\<close>

text \<open>A bead is ready: open, and every bead it needs exists, is closed and passed.\<close>

definition passed :: "state \<Rightarrow> string \<Rightarrow> bool" where
  "passed st i \<longleftrightarrow> (\<exists>t. bead_at st i = Some t \<and> b_status t = Closed \<and> b_outcome t = Some ''pass'')"

definition ready_spec :: "state \<Rightarrow> string \<Rightarrow> bool" where
  "ready_spec st i \<longleftrightarrow>
     (\<exists>b. bead_at st i = Some b \<and> b_status b = Open) \<and>
     (\<forall>d \<in> set (deps st). d_bead d = i \<longrightarrow> passed st (d_needs d))"

lemma unmet_dep_passed: "unmet_dep st d \<longleftrightarrow> \<not> passed st (d_needs d)"
  by (auto simp: unmet_dep_def passed_def split: option.split)

lemma blocked_iff: "blocked st i \<longleftrightarrow> (\<exists>d \<in> set (deps st). d_bead d = i \<and> \<not> passed st (d_needs d))"
  by (auto simp: blocked_def list_ex_iff unmet_dep_passed)

lemma is_ready_iff: "is_ready st i = Inr True \<longleftrightarrow> ready_spec st i"
  by (auto simp: is_ready_def bead_status_def ready_spec_def filter_empty_conv unmet_dep_passed
      split: option.split)

lemma is_ready_Inl: "is_ready st i = Inl e \<longleftrightarrow> i \<notin> ids st \<and> e = UnknownBead i"
  using bead_at_None [of st i]
  by (cases "bead_at st i") (auto simp: is_ready_def bead_status_def ids_def)

lemma oldest_first_set [simp]: "set (oldest_first bs) = set bs"
  by (simp add: oldest_first_def)

lemma ready_rows_set:
  assumes "table_ok b_id beads_check (beads st)"
  shows "b \<in> set (ready_rows st rig) \<longleftrightarrow>
    bead_at st (b_id b) = Some b \<and> ready_spec st (b_id b) \<and>
    (case rig of None \<Rightarrow> True | Some r \<Rightarrow> b_rig b = r)"
proof -
  have "b \<in> set (beads st) \<longleftrightarrow> bead_at st (b_id b) = Some b"
    using assms by (simp add: bead_at_iff)
  then show ?thesis by (auto simp: ready_rows_def blocked_iff ready_spec_def)
qed

lemma dispatchable_ready: "set (dispatchable_rows st) \<subseteq> set (ready_rows st None)"
  by (auto simp: dispatchable_rows_def ready_rows_def)

lemma distinct_oldest_first:
  "distinct (map b_id bs) \<Longrightarrow> distinct (map b_id (oldest_first (filter p bs)))"
  by (simp add: oldest_first_def distinct_map inj_on_def)

lemma count_nonneg_Inr [simp]: "count_nonneg (int n) label = Inr n"
  by (simp add: count_nonneg_def)

section \<open>Readiness over time\<close>

text \<open>An accepted event keeps every bead, and a closed bead keeps its verdict.\<close>

lemma fold_apply_at:
  assumes wf: "wf_state st" and run: "fold_apply S st ev = Inr st'"
  shows "bead_at st' i = bead_at st i \<or> bead_step (bead_at st i) (bead_at st' i)"
  by (rule beads_evolve_at [OF fold_apply_evolve [OF run wf_beads_table [OF wf] wf_beads_ok [OF wf]]])

lemma fold_apply_verdict:
  assumes wf: "wf_state st" and run: "fold_apply S st ev = Inr st'"
    and b: "bead_at st i = Some b" and closed: "b_status b = Closed"
  shows "\<exists>b'. bead_at st' i = Some b' \<and> verdict b' = verdict b"
  using fold_apply_at [OF wf run, of i]
proof
  assume "bead_step (bead_at st i) (bead_at st' i)"
  with b obtain b' where b': "bead_at st' i = Some b'" and step: "bead_step (Some b) (Some b')"
    by (cases "bead_at st' i") auto
  show ?thesis using b' closed_keeps_verdict [OF step closed] by blast
qed (use b in simp)

lemma fold_apply_passed:
  assumes "wf_state st" and "fold_apply S st ev = Inr st'" and "passed st i"
  shows "passed st' i"
proof -
  from assms(3) obtain b where b: "bead_at st i = Some b" "b_status b = Closed" "b_outcome b = Some ''pass''"
    unfolding passed_def by blast
  from fold_apply_verdict [OF assms(1,2) b(1,2)] obtain b' where "bead_at st' i = Some b'"
    and "verdict b' = verdict b" by blast
  then show ?thesis using b by (auto simp: passed_def verdict_def)
qed

text \<open>The needs of a bead are fixed when it is created.\<close>

definition same_needs :: "state \<Rightarrow> state \<Rightarrow> bool" where
  "same_needs st st' \<longleftrightarrow> (\<forall>d. d_bead d \<in> ids st \<longrightarrow> d \<in> set (deps st') \<longleftrightarrow> d \<in> set (deps st))"

lemma same_needs_same: "deps st' = deps st \<Longrightarrow> same_needs st st'"
  by (simp add: same_needs_def)

lemma only_meta_deps: "only_meta st st' \<Longrightarrow> deps st' = deps st"
  unfolding only_meta_def by (elim conjE, erule ssubst) simp

lemma needs_loop_deps:
  assumes "foldM (insert_need ev i) st ns = Inr st'"
  shows "\<forall>d. d_bead d \<noteq> i \<longrightarrow> d \<in> set (deps st') \<longleftrightarrow> d \<in> set (deps st)"
  using assms
  by (rule foldM_invariant)
    (auto simp: insert_need_def insert_dep_Inr split: if_splits prod.splits)

lemma bead_created_needs:
  assumes "bead_created S ev st = Inr st'"
  shows "same_needs st st'"
proof -
  from assms obtain i rig p st2 st3 where i: "ev_bead ev = Some i"
    and new: "b_id (new_bead S ev i rig p) \<notin> b_id ` set (beads st)"
    and needs: "foldM (insert_need ev i)
        (st\<lparr>beads := beads st @ [new_bead S ev i rig p]\<rparr>) (bc_needs p) = Inr st2"
    and meta: "foldM (\<lambda>s (k, v). write_meta ev i k v s) st2 (bc_metadata p) = Inr st3"
    and bump: "bump_counter i (insert_search i Body
        (body_content (bc_title p) (bc_description p)) st3) = Inr st'"
    by (auto simp: bead_created_def split: option.splits)
  have "deps st' = deps st3" using bump by (auto elim!: bump_counter_Inr simp: insert_search_def)
  also have "\<dots> = deps st2" by (rule only_meta_deps [OF metadata_loop_only_meta [OF meta]])
  finally have "deps st' = deps st2" .
  moreover have "i \<notin> ids st" using new by (simp add: new_bead_def ids_def)
  ultimately show ?thesis
    using needs_loop_deps [OF needs] by (auto simp: same_needs_def)
qed

lemma bead_updated_deps: "bead_updated S ev st = Inr st' \<Longrightarrow> deps st' = deps st"
  by (erule bead_updated_Inr) (use only_meta_deps in simp)

lemma bead_closed_deps: "bead_closed S ev st = Inr st' \<Longrightarrow> deps st' = deps st"
  by (erule bead_closed_beads) (simp add: index_reason_def insert_search_def split: option.split)

lemma clear_dispatch_failure_deps: "clear_dispatch_failure i st = Inr st' \<Longrightarrow> deps st' = deps st"
  by (auto simp: clear_dispatch_failure_def)

lemma bead_claimed_deps: "bead_claimed S ev st = Inr st' \<Longrightarrow> deps st' = deps st"
  by (erule bead_claimed_Inr) (auto dest: clear_dispatch_failure_deps)

lemma session_deps:
  "session_woke S ev st = Inr st' \<Longrightarrow> deps st' = deps st"
  "session_pid S ev st = Inr st' \<Longrightarrow> deps st' = deps st"
  by (auto simp: session_woke_def session_pid_def clear_dispatch_failure_def
      split: option.splits if_splits)

lemma session_ended_deps: "session_ended S ev s st = Inr st' \<Longrightarrow> deps st' = deps st"
  by (erule session_ended_Inr) simp

lemma dispatch_deps:
  "dispatch_failed S ev st = Inr st' \<Longrightarrow> deps st' = deps st"
  "dispatch_rearmed S ev st = Inr st' \<Longrightarrow> deps st' = deps st"
  by (auto simp: dispatch_failed_def dispatch_rearmed_def)

lemma permission_deps:
  "permission_pending S ev st = Inr st' \<Longrightarrow> deps st' = deps st"
  "permission_decided S ev st = Inr st' \<Longrightarrow> deps st' = deps st"
  by (auto simp: permission_pending_def permission_decided_def split: if_splits)

lemmas handler_needs =
  bead_created_needs bead_claimed_deps [THEN same_needs_same] bead_updated_deps [THEN same_needs_same]
  bead_closed_deps [THEN same_needs_same] session_deps [THEN same_needs_same]
  session_ended_deps [THEN same_needs_same] dispatch_deps [THEN same_needs_same]
  permission_deps [THEN same_needs_same]

lemma fold_apply_needs: "fold_apply S st ev = Inr st' \<Longrightarrow> same_needs st st'"
  by (erule fold_apply_cases) (simp add: same_needs_def, (drule handler_needs, simp)+)

lemma ready_stays:
  assumes wf: "wf_state st" and run: "fold_apply S st ev = Inr st'" and ready: "ready_spec st i"
    and still: "bead_at st' i = Some b" "b_status b = Open"
  shows "ready_spec st' i"
proof -
  from ready have "i \<in> ids st" using bead_at_Some by (fastforce simp: ready_spec_def ids_def)
  then have "d \<in> set (deps st')  \<longleftrightarrow> d \<in> set (deps st)" if "d_bead d = i" for d
    using fold_apply_needs [OF run] that by (simp add: same_needs_def)
  then show ?thesis
    using ready still fold_apply_passed [OF wf run] by (auto simp: ready_spec_def)
qed

section \<open>What a close makes ready\<close>

lemma newly_ready_loop:
  assumes "\<And>dep. dep \<in> set ds \<Longrightarrow> dep \<in> ids st"
  shows "foldM (\<lambda>ready dep. rbind (is_ready st dep) (\<lambda>r. Inr (if r then ready @ [dep] else ready))) acc ds
    = Inr (acc @ filter (ready_spec st) ds)"
  using assms
proof (induction ds arbitrary: acc)
  case (Cons d ds)
  obtain r where r: "is_ready st d = Inr r"
    using Cons.prems [of d] is_ready_Inl [of st d] by (cases "is_ready st d") auto
  then have "r = ready_spec st d"
    using is_ready_iff [of st d] by (cases r) auto
  then show ?case using Cons r by simp
qed simp

lemma newly_ready_eq:
  assumes "deps_ok (ids st) (deps st)"
  shows "newly_ready st closed =
    Inr (filter (ready_spec st) (sort (remdups (map d_bead (filter (\<lambda>d. d_needs d = closed) (deps st))))))"
  unfolding newly_ready_def
  by (subst newly_ready_loop) (use assms in \<open>auto simp: deps_ok_def list_all_iff\<close>)

end
