(* ===== verification/Promptsafe.thy ===== *)
theory Promptsafe
  imports Prelude "HOL-Library.Sublist"
begin

text \<open>
  Neutralizing untrusted text (\<^verbatim>\<open>crates/camp-core/src/promptsafe.rs\<close>): the two literal tags are
  deleted until a pass changes nothing.
\<close>

section \<open>The code\<close>

lemma strip_prefix_shorter: "strip_prefix p s = Some r \<Longrightarrow> p \<noteq> [] \<Longrightarrow> length r < length s"
  by (auto simp: strip_prefix_iff)

text \<open>\<open>str::replace(p, "")\<close> for a non-empty \<open>p\<close>: left to right, without overlaps.\<close>

function remove_all :: "string \<Rightarrow> string \<Rightarrow> string" where
  "remove_all p [] = []"
| "remove_all p (c # cs) =
     (if p = [] then c # cs
      else case strip_prefix p (c # cs) of
             None \<Rightarrow> c # remove_all p cs
           | Some r \<Rightarrow> remove_all p r)"
  by pat_completeness auto
termination by (relation "measure (\<lambda>(p, s). length s)") (auto dest: strip_prefix_shorter)

definition CLOSE_TAG :: string where
  "CLOSE_TAG = ''</system-reminder>''"

definition OPEN_TAG :: string where
  "OPEN_TAG = ''<system-reminder>''"

definition strip_pass :: "string \<Rightarrow> string" where
  "strip_pass cur = remove_all OPEN_TAG (remove_all CLOSE_TAG cur)"

lemma remove_all_subseq: "subseq (remove_all p s) s"
proof (induction p s rule: remove_all.induct)
  case (2 p c cs)
  show ?case
  proof (cases "p = []")
    case False
    show ?thesis
    proof (cases "strip_prefix p (c # cs)")
      case None
      then show ?thesis using 2 False by simp
    next
      case (Some r)
      then have "c # cs = p @ r" by (simp add: strip_prefix_iff)
      moreover have "subseq (remove_all p r) (p @ r)" using "2.IH"(2) [OF False Some] by (rule subseq_drop_many)
      moreover have "remove_all p (c # cs) = remove_all p r" using False Some by simp
      ultimately show ?thesis by metis
    qed
  qed simp
qed simp

lemma strip_pass_subseq: "subseq (strip_pass s) s"
  unfolding strip_pass_def using remove_all_subseq subseq_order.order_trans by blast

lemma strip_pass_shorter: "strip_pass s \<noteq> s \<Longrightarrow> length (strip_pass s) < length s"
  using strip_pass_subseq [of s] by (metis le_neq_implies_less list_emb_length subseq_same_length)

function strip_loop :: "string \<Rightarrow> string" where
  "strip_loop cur = (let stripped = strip_pass cur in if stripped = cur then stripped else strip_loop stripped)"
  by pat_completeness auto
termination by (relation "measure length") (auto simp: strip_pass_shorter)

declare strip_loop.simps [simp del]

definition sanitize_for_system_reminder :: "string \<Rightarrow> string" where
  "sanitize_for_system_reminder s = (if s = [] then [] else strip_loop s)"

section \<open>What comes out\<close>

lemma strip_loop_fixed: "strip_pass (strip_loop s) = strip_loop s"
proof (induction s rule: strip_loop.induct)
  case (1 cur)
  then show ?case by (subst (1 2) strip_loop.simps) (simp add: Let_def)
qed

lemma strip_loop_subseq: "subseq (strip_loop s) s"
proof (induction s rule: strip_loop.induct)
  case (1 cur)
  then show ?case
    using strip_pass_subseq [of cur] subseq_order.order_trans
    by (subst strip_loop.simps) (auto simp: Let_def)
qed

text \<open>Deleting changes nothing exactly when the tag does not occur.\<close>

lemma remove_all_id: "p \<noteq> [] \<Longrightarrow> remove_all p s = s \<longleftrightarrow> \<not> sublist p s"
proof (induction p s rule: remove_all.induct)
  case (2 p c cs)
  show ?case
  proof (cases "strip_prefix p (c # cs)")
    case None
    then have "\<not> prefix p (c # cs)" by (auto simp: prefix_def strip_prefix_iff [symmetric])
    then show ?thesis using 2 None by (simp add: sublist_Cons_right)
  next
    case (Some r)
    then have s: "c # cs = p @ r" by (simp add: strip_prefix_iff)
    have "length (remove_all p r) \<le> length r" by (rule list_emb_length [OF remove_all_subseq])
    then have "remove_all p r \<noteq> c # cs" using s "2.prems" by (metis append_self_conv2 add_le_same_cancel2 length_0_conv length_append le_zero_eq order_refl)
    moreover have "sublist p (c # cs)" unfolding s by simp
    ultimately show ?thesis using Some "2.prems" by simp
  qed
qed simp

lemma tags: "OPEN_TAG \<noteq> []" "CLOSE_TAG \<noteq> []"
  by (simp_all add: OPEN_TAG_def CLOSE_TAG_def)

lemma strip_pass_id: "strip_pass s = s \<longleftrightarrow> \<not> sublist OPEN_TAG s \<and> \<not> sublist CLOSE_TAG s"
proof -
  have "remove_all CLOSE_TAG s = s" if "strip_pass s = s"
  proof -
    have "length s \<le> length (remove_all CLOSE_TAG s)"
      using that list_emb_length [OF remove_all_subseq, of OPEN_TAG "remove_all CLOSE_TAG s"]
      by (simp add: strip_pass_def)
    then have "length (remove_all CLOSE_TAG s) = length s"
      using list_emb_length [OF remove_all_subseq [of CLOSE_TAG s]] by (rule le_antisym [rotated])
    then show ?thesis by (rule subseq_same_length [OF remove_all_subseq])
  qed
  then have "strip_pass s = s \<longleftrightarrow> remove_all CLOSE_TAG s = s \<and> remove_all OPEN_TAG s = s"
    by (auto simp: strip_pass_def)
  then show ?thesis by (simp add: remove_all_id tags conj_commute)
qed

lemma sanitize_fixed: "strip_pass (sanitize_for_system_reminder s) = sanitize_for_system_reminder s"
  by (simp add: sanitize_for_system_reminder_def strip_loop_fixed) (simp add: strip_pass_def)

lemma sanitize_id:
  assumes "\<not> sublist OPEN_TAG s" and "\<not> sublist CLOSE_TAG s"
  shows "sanitize_for_system_reminder s = s"
proof -
  have same: "strip_pass s = s" unfolding strip_pass_id using assms by (rule conjI)
  have "strip_loop s = s" by (subst strip_loop.simps) (simp only: same Let_def if_True refl)
  then show ?thesis by (simp add: sanitize_for_system_reminder_def)
qed

section \<open>Properties\<close>

text \<open>
  Sanitizing is safe and minimal: the result holds neither tag, so text cannot close or open a
  system reminder even when deleting one tag puts another together; it is a subsequence of the
  text, so nothing is added; text without tags is unchanged; and sanitizing twice changes nothing.
\<close>

theorem sanitize_is_safe:
  "\<not> sublist OPEN_TAG (sanitize_for_system_reminder s) \<and>
   \<not> sublist CLOSE_TAG (sanitize_for_system_reminder s) \<and>
   subseq (sanitize_for_system_reminder s) s \<and>
   (sanitize_for_system_reminder s = s \<longleftrightarrow> \<not> sublist OPEN_TAG s \<and> \<not> sublist CLOSE_TAG s) \<and>
   sanitize_for_system_reminder (sanitize_for_system_reminder s) = sanitize_for_system_reminder s"
proof -
  have clean: "\<not> sublist OPEN_TAG (sanitize_for_system_reminder s)" "\<not> sublist CLOSE_TAG (sanitize_for_system_reminder s)"
    using sanitize_fixed [of s] unfolding strip_pass_id by blast+
  moreover have "subseq (sanitize_for_system_reminder s) s"
    by (simp add: sanitize_for_system_reminder_def strip_loop_subseq)
  moreover have "sanitize_for_system_reminder s = s \<longleftrightarrow> \<not> sublist OPEN_TAG s \<and> \<not> sublist CLOSE_TAG s"
    using clean sanitize_id [of s] by metis
  ultimately show ?thesis using sanitize_id [OF clean] by blast
qed

end
