(* ===== verification/Registry.thy ===== *)
theory Registry
  imports Ledger
begin

text \<open>
  Reads of the session registry and of the permission plane
  (\<^verbatim>\<open>crates/camp-core/src/ledger/mod.rs\<close>): session names, the registry rows joined with the
  \<open>session.woke\<close> event that created them, and who is blocked on which permission request.
  \<open>json_extract\<close> belongs to SQLite and is the argument \<open>js\<close>.
\<close>

section \<open>Session names\<close>

definition next_session_name :: "string \<Rightarrow> string \<Rightarrow> ledger \<Rightarrow> string" where
  "next_session_name camp agent l =
     (let prefix = camp @ ''/'' @ agent @ ''/'';
          names = map s_name (filter (\<lambda>s. s_agent s = agent) (sessions (tables l)));
          max_n = foldl (\<lambda>m name. case strip_prefix prefix name of
                     None \<Rightarrow> m
                   | Some rest \<Rightarrow> (case parse_i64 rest of None \<Rightarrow> m | Some n \<Rightarrow> max m n)) 0 names
      in prefix @ show_int (i64_wrap (max_n + 1)))"

definition session_status :: "string \<Rightarrow> ledger \<Rightarrow> session_status option" where
  "session_status name l = map_option s_status (session_at (tables l) name)"

section \<open>Registry rows\<close>

record SessionRow =
  rw_name :: string
  rw_agent :: string
  rw_rig :: "string option"
  rw_claude_session_id :: "string option"
  rw_transcript_path :: "string option"
  rw_pid :: "int option"
  rw_bead :: "string option"
  rw_spawned_ts :: string
  rw_woke_actor :: string
  rw_worktree :: "string option"
  rw_base :: "string option"
  rw_model :: "string option"
  rw_permission_mode :: "string option"
  rw_allowed_tools :: "string option"
  rw_status :: session_status

definition woke_event :: "(string \<Rightarrow> string \<Rightarrow> string option) \<Rightarrow> ledger \<Rightarrow> string \<Rightarrow> event_row option" where
  "woke_event js l n =
     find (\<lambda>r. r_type r = as_str SessionWoke \<and> js (r_data r) ''name'' = Some n) (event_log l)"

definition session_row ::
    "(string \<Rightarrow> string \<Rightarrow> string option) \<Rightarrow> ledger \<Rightarrow> session \<Rightarrow> SessionRow res" where
  "session_row js l s =
     (case woke_event js l (s_name s) of
        None \<Rightarrow> Inl (Corrupt (Msg ''session {:?} has no session.woke event'' [s_name s]))
      | Some e \<Rightarrow>
          Inr \<lparr>rw_name = s_name s, rw_agent = s_agent s, rw_rig = s_rig s,
               rw_claude_session_id = s_claude_session_id s, rw_transcript_path = s_transcript_path s,
               rw_pid = s_pid s, rw_bead = s_bead s, rw_spawned_ts = s_spawned_ts s,
               rw_woke_actor = r_actor e, rw_worktree = js (r_data e) ''worktree'',
               rw_base = js (r_data e) ''base'', rw_model = js (r_data e) ''model'',
               rw_permission_mode = js (r_data e) ''permission_mode'',
               rw_allowed_tools = js (r_data e) ''allowed_tools'', rw_status = s_status s\<rparr>)"

definition session_rows ::
    "(string \<Rightarrow> string \<Rightarrow> string option) \<Rightarrow> (session \<Rightarrow> bool) \<Rightarrow> ledger \<Rightarrow> SessionRow list res" where
  "session_rows js q l = mapM (session_row js l) (sort_key s_name (filter q (sessions (tables l))))"

definition live_sessions :: "(string \<Rightarrow> string \<Rightarrow> string option) \<Rightarrow> ledger \<Rightarrow> SessionRow list res" where
  "live_sessions js l = session_rows js (\<lambda>s. s_status s = Live) l"

definition session_by_name ::
    "(string \<Rightarrow> string \<Rightarrow> string option) \<Rightarrow> string \<Rightarrow> ledger \<Rightarrow> SessionRow option res" where
  "session_by_name js n l =
     rbind (session_rows js (\<lambda>s. s_name s = n) l) (\<lambda>rows.
       Inr (case rows of [] \<Rightarrow> None | r # _ \<Rightarrow> Some r))"

section \<open>Permissions\<close>

text \<open>\<open>SELECT DISTINCT \<dots> JOIN \<dots> ORDER BY p.session\<close>.\<close>

definition blocked_sessions :: "ledger \<Rightarrow> string list" where
  "blocked_sessions l =
     sort (remdups (concat (map (\<lambda>p.
       map (\<lambda>_. p_session p)
         (filter (\<lambda>s. p_session p = s_name s \<and> p_status p = Pending \<and> s_status s = Live)
           (sessions (tables l))))
       (permissions (tables l)))))"

definition permission_exists :: "string \<Rightarrow> ledger \<Rightarrow> bool" where
  "permission_exists req l = list_ex (\<lambda>p. p_request_id p = req) (permissions (tables l))"

definition permission_decider :: "string \<Rightarrow> ledger \<Rightarrow> string option" where
  "permission_decider req l =
     (case sql_find (\<lambda>p. p_request_id p = req \<and> p_status p = Decided) (permissions (tables l)) of
        None \<Rightarrow> None | Some p \<Rightarrow> p_decided_by p)"

text \<open>\<open>LIMIT 1\<close> without an order: the row SQLite reaches first; the table's order here.\<close>

definition pending_permission_for_session :: "string \<Rightarrow> ledger \<Rightarrow> string option" where
  "pending_permission_for_session sess l =
     map_option p_request_id
       (sql_find (\<lambda>p. p_session p = sess \<and> p_status p = Pending) (permissions (tables l)))"

section \<open>Names are fresh\<close>

definition suffix_of :: "string \<Rightarrow> string \<Rightarrow> int option" where
  "suffix_of prefix name =
     (case strip_prefix prefix name of None \<Rightarrow> None | Some rest \<Rightarrow> parse_i64 rest)"

lemma suffix_fold:
  "foldl (\<lambda>m name. case strip_prefix prefix name of
       None \<Rightarrow> m
     | Some rest \<Rightarrow> (case parse_i64 rest of None \<Rightarrow> m | Some n \<Rightarrow> max m n)) m0 names
   = foldl (\<lambda>m name. case suffix_of prefix name of None \<Rightarrow> m | Some n \<Rightarrow> max m n) m0 names"
  by (rule foldl_cong) (auto simp: suffix_of_def split: option.split)

lemma suffix_fold_ge:
  "m0 \<le> foldl (\<lambda>m name. case suffix_of prefix name of None \<Rightarrow> m | Some n \<Rightarrow> max m n) m0 names \<and>
   (\<forall>name \<in> set names. \<forall>n. suffix_of prefix name = Some n \<longrightarrow>
      n \<le> foldl (\<lambda>m name. case suffix_of prefix name of None \<Rightarrow> m | Some n \<Rightarrow> max m n) m0 names)"
proof (induction names arbitrary: m0)
  case (Cons x xs)
  define m1 where "m1 = (case suffix_of prefix x of None \<Rightarrow> m0 | Some n \<Rightarrow> max m0 n)"
  have "m0 \<le> m1" "\<And>n. suffix_of prefix x = Some n \<Longrightarrow> n \<le> m1"
    by (auto simp: m1_def split: option.splits)
  moreover note Cons.IH [of m1]
  ultimately show ?case by (auto simp: m1_def [symmetric] intro: order_trans)
qed simp

lemma suffix_fold_le:
  assumes "\<And>name n. name \<in> set names \<Longrightarrow> suffix_of prefix name = Some n \<Longrightarrow> n \<le> B" and "m0 \<le> B"
  shows "foldl (\<lambda>m name. case suffix_of prefix name of None \<Rightarrow> m | Some n \<Rightarrow> max m n) m0 names \<le> B"
  using assms
proof (induction names arbitrary: m0)
  case (Cons x xs)
  have "(case suffix_of prefix x of None \<Rightarrow> m0 | Some n \<Rightarrow> max m0 n) \<le> B"
    using Cons.prems by (auto split: option.split)
  then show ?case unfolding foldl_Cons using Cons.prems(1) by (intro Cons.IH) auto
qed simp

lemma parse_show_int: "0 \<le> n \<Longrightarrow> n \<le> i64_max \<Longrightarrow> parse_i64 (show_int n) = Some n"
  using parse_i64_digits [OF show_nat_digits show_nat_not_Nil, of "nat n"]
  by (simp add: show_int_def)

lemma suffix_of_numbered:
  "0 \<le> n \<Longrightarrow> n \<le> i64_max \<Longrightarrow> suffix_of prefix (prefix @ show_int n) = Some n"
  by (simp add: suffix_of_def parse_show_int)

section \<open>Every session has its wake-up in the log\<close>

text \<open>What \<open>json_extract\<close> gives for the payload of a wake-up the fold accepts.\<close>

definition json_name_law :: "'j serde \<Rightarrow> (string \<Rightarrow> string \<Rightarrow> string option) \<Rightarrow> bool" where
  "json_name_law S js \<longleftrightarrow>
     (\<forall>d p. dec_session_woke S d = Inr p \<longrightarrow> js (data_text S d) ''name'' = Some (sw_name p))"

lemma only_meta_sessions: "only_meta st st' \<Longrightarrow> sessions st' = sessions st"
  unfolding only_meta_def by (elim conjE, erule ssubst) simp

lemma only_deps_sessions: "only_deps st st' \<Longrightarrow> sessions st' = sessions st"
  unfolding only_deps_def by (elim conjE, erule ssubst) simp

definition names :: "state \<Rightarrow> string set" where
  "names st = s_name ` set (sessions st)"

lemma bead_created_sessions: "bead_created S ev st = Inr st' \<Longrightarrow> sessions st' = sessions st"
proof (erule bead_created_Inr)
  fix i rig p st2 st3
  assume d: "only_deps (st\<lparr>beads := beads st @ [new_bead S ev i rig p]\<rparr>) st2"
    and m: "only_meta st2 st3"
    and bump: "bump_counter i (insert_search i Body (body_content (bc_title p) (bc_description p)) st3) = Inr st'"
  have "sessions st' = sessions st3"
    using bump by (auto elim!: bump_counter_Inr simp: insert_search_def)
  moreover have "sessions st3 = sessions st2" using m only_meta_sessions by blast
  moreover have "sessions st2 = sessions st" using d only_deps_sessions by fastforce
  ultimately show ?thesis by simp
qed

lemma bead_updated_sessions: "bead_updated S ev st = Inr st' \<Longrightarrow> sessions st' = sessions st"
  by (erule bead_updated_Inr) (use only_meta_sessions in simp)

lemma bead_closed_sessions: "bead_closed S ev st = Inr st' \<Longrightarrow> sessions st' = sessions st"
  by (erule bead_closed_beads) (simp add: index_reason_def insert_search_def split: option.split)

lemma clear_dispatch_failure_sessions:
  "clear_dispatch_failure i st = Inr st' \<Longrightarrow> sessions st' = sessions st"
  by (auto simp: clear_dispatch_failure_def)

lemma bead_claimed_sessions: "bead_claimed S ev st = Inr st' \<Longrightarrow> sessions st' = sessions st"
  by (erule bead_claimed_Inr) (auto dest: clear_dispatch_failure_sessions)

lemma session_woke_names:
  assumes "session_woke S ev st = Inr st'"
  shows "\<exists>p. dec_session_woke S (ev_data ev) = Inr p \<and> names st' = insert (sw_name p) (names st)"
proof -
  from assms obtain p :: SessionWoke where p: "dec_session_woke S (ev_data ev) = Inr p"
    and go: "(case sw_bead p of
        Some bead \<Rightarrow> clear_dispatch_failure bead (st\<lparr>sessions := sessions st @ [woke_row ev p]\<rparr>)
      | None \<Rightarrow> Inr (st\<lparr>sessions := sessions st @ [woke_row ev p]\<rparr>)) = Inr st'"
    by (auto simp: session_woke_def)
  have "sessions st' = sessions st @ [woke_row ev p]"
    using go by (auto split: option.splits dest: clear_dispatch_failure_sessions)
  then show ?thesis using p by (intro exI [of _ p]) (simp add: names_def woke_row_def)
qed

lemma names_map: "(\<And>s. s_name (f s) = s_name s) \<Longrightarrow> sessions st' = map f (sessions st) \<Longrightarrow> names st' = names st"
  by (simp add: names_def image_image)

lemma session_pid_names: "session_pid S ev st = Inr st' \<Longrightarrow> names st' = names st"
  by (rule names_map [where f = "\<lambda>s. if s_name s = sp_name (projr (dec_session_pid S (ev_data ev)))
        then s\<lparr>s_pid := Some (sp_pid (projr (dec_session_pid S (ev_data ev))))\<rparr> else s"])
    (auto simp: session_pid_def split: if_splits)

lemma session_ended_names:
  assumes "session_ended S ev new st = Inr st'"
  shows "names st' = names st"
  using assms
proof (rule session_ended_Inr)
  fix p
  assume "st' = st\<lparr>sessions := end_session_rows ev (se_name p) new (sessions st),
           beads := (if new = Crashed then reopen_rows ev (se_name p) (beads st) else beads st)\<rparr>"
  then show ?thesis
    by (intro names_map [where f = "\<lambda>s. if s_name s = se_name p
          then s\<lparr>s_status := new, s_ended_ts := Some (ev_ts ev)\<rparr> else s"])
      (simp_all add: end_session_rows_def)
qed

lemma names_same: "sessions st' = sessions st \<Longrightarrow> names st' = names st"
  by (simp add: names_def)

lemma dispatch_sessions:
  "dispatch_failed S ev st = Inr st' \<Longrightarrow> sessions st' = sessions st"
  "dispatch_rearmed S ev st = Inr st' \<Longrightarrow> sessions st' = sessions st"
  by (auto simp: dispatch_failed_def dispatch_rearmed_def)

lemma permission_sessions:
  "permission_pending S ev st = Inr st' \<Longrightarrow> sessions st' = sessions st"
  "permission_decided S ev st = Inr st' \<Longrightarrow> sessions st' = sessions st"
  by (auto simp: permission_pending_def permission_decided_def split: if_splits)

lemmas handler_names =
  bead_created_sessions [THEN names_same] bead_claimed_sessions [THEN names_same]
  bead_updated_sessions [THEN names_same] bead_closed_sessions [THEN names_same]
  dispatch_sessions [THEN names_same] permission_sessions [THEN names_same]
  session_ended_names session_pid_names

lemma fold_apply_names:
  assumes "fold_apply S st ev = Inr st'"
  shows "names st' = names st \<or>
    ev_kind ev = SessionWoke \<and>
      (\<exists>p. dec_session_woke S (ev_data ev) = Inr p \<and> names st' = insert (sw_name p) (names st))"
  using assms
  by (rule fold_apply_cases)
    (simp, (drule handler_names session_woke_names, simp)+)

lemma names_in_log:
  assumes "json_name_law S js" and "text_roundtrip S" and "n \<in> names st"
    and "foldM (replay_row S) empty_state rs = Inr st" and "\<forall>r \<in> set rs. \<exists>ev. r = row_of S ev"
  shows "\<exists>r \<in> set rs. r_type r = as_str SessionWoke \<and> js (r_data r) ''name'' = Some n"
  using assms(3-5)
proof (induction rs arbitrary: st rule: rev_induct)
  case Nil
  then show ?case by (auto simp: names_def empty_state_def)
next
  case (snoc r rs)
  from snoc.prems(2) obtain st0 where st0: "foldM (replay_row S) empty_state rs = Inr st0"
    and one: "replay_row S st0 r = Inr st"
    by (auto simp: rows.replay_snoc)
  obtain ev where r: "r = row_of S ev" using snoc.prems(3) by auto
  with one have ev: "fold_apply S st0 ev = Inr st"
    by (simp add: replay_row_Inr row_to_event_row_of assms(2))
  show ?case
  proof (cases "n \<in> names st0")
    case True
    then show ?thesis using snoc.IH [OF True st0] snoc.prems(3) by auto
  next
    case False
    then obtain p where "ev_kind ev = SessionWoke" and "dec_session_woke S (ev_data ev) = Inr p"
      and "n = sw_name p"
      using fold_apply_names [OF ev] snoc.prems(1) by auto
    then show ?thesis using assms(1) by (simp add: r row_of_def json_name_law_def)
  qed
qed

lemma mapM_total: "(\<And>x. x \<in> set xs \<Longrightarrow> f x \<noteq> Inl e) \<Longrightarrow> mapM f xs \<noteq> Inl e"
  by (induction xs) (auto simp: rbind_eq_Inl)

lemma session_rows_total:
  assumes law: "json_name_law S js" "text_roundtrip S" and good: "good S l"
  shows "\<exists>rows. session_rows js q l = Inr rows"
proof -
  have woke: "woke_event js l (s_name s) \<noteq> None" if "s \<in> set (sessions (tables l))" for s
  proof -
    have "s_name s \<in> names (tables l)" using that by (simp add: names_def)
    then obtain r where "r \<in> set (event_log l)"
      and "r_type r = as_str SessionWoke \<and> js (r_data r) ''name'' = Some (s_name s)"
      using names_in_log [OF law] good unfolding good_def replays_def stored_def by blast
    then show ?thesis unfolding woke_event_def find_None_iff by blast
  qed
  then have "session_row js l s \<noteq> Inl e" if "s \<in> set (sort_key s_name (filter q (sessions (tables l))))" for s e
    using that woke [of s] by (cases "woke_event js l (s_name s)") (simp_all add: session_row_def)
  then have "session_rows js q l \<noteq> Inl e" for e
    unfolding session_rows_def by (rule mapM_total)
  then show ?thesis by (cases "session_rows js q l") auto
qed

end
