(* ===== verification/Mail.thy ===== *)
theory Mail
  imports Readiness Promptsafe Registry
begin

text \<open>
  The mail domain (\<^verbatim>\<open>crates/camp-core/src/mail.rs\<close>): the one event that turns a message into a
  bead, the queries over unread mail, and the snapshot of the status surface
  (\<^verbatim>\<open>status_summary\<close> in \<^verbatim>\<open>crates/camp-core/src/ledger/mod.rs\<close>). The \<open>json!\<close> macro of
  \<open>serde_json\<close> is the argument \<open>lit\<close>, over the literals the code writes.
\<close>

datatype json_lit = JStr string | JObj "(string \<times> json_lit) list"

definition MAIL_READ_KEY :: string where
  "MAIL_READ_KEY = ''mail.read''"

definition MAIL_FROM_KEY :: string where
  "MAIL_FROM_KEY = ''mail.from_display''"

definition MAIL_TO_KEY :: string where
  "MAIL_TO_KEY = ''mail.to_display''"

definition HUMAN :: string where
  "HUMAN = ''human''"

definition MAIL_NO_SUBJECT :: string where
  "MAIL_NO_SUBJECT = ''(no subject)''"

record MailMessage =
  ml_id :: string
  ml_from :: string
  ml_subject :: string
  ml_body :: string
  ml_read :: bool

definition sanitized :: "MailMessage \<Rightarrow> MailMessage" where
  "sanitized m =
     \<lparr>ml_id = ml_id m, ml_from = sanitize_for_system_reminder (ml_from m),
      ml_subject = sanitize_for_system_reminder (ml_subject m),
      ml_body = sanitize_for_system_reminder (ml_body m), ml_read = ml_read m\<rparr>"

definition mail_title :: "string \<Rightarrow> string" where
  "mail_title subject = (if is_blank subject then MAIL_NO_SUBJECT else subject)"

definition mail_data :: "string \<Rightarrow> string \<Rightarrow> string \<Rightarrow> json_lit" where
  "mail_data subject body from =
     JObj [(''title'', JStr (mail_title subject)), (''description'', JStr body), (''type'', JStr ''mail''),
           (''metadata'', JObj [(MAIL_FROM_KEY, JStr from), (MAIL_TO_KEY, JStr HUMAN)])]"

definition mail_bead_event ::
    "(json_lit \<Rightarrow> 'j) \<Rightarrow> string \<Rightarrow> string \<Rightarrow> string \<Rightarrow> string \<Rightarrow> string \<Rightarrow> string \<Rightarrow> 'j event_input"
where
  "mail_bead_event lit rig subject body from actor bead_id =
     \<lparr>in_kind = BeadCreated, in_rig = Some rig, in_actor = actor, in_bead = Some bead_id,
      in_data = lit (mail_data subject body from)\<rparr>"

section \<open>Queries\<close>

definition map_mail_row :: "state \<Rightarrow> bead \<Rightarrow> MailMessage" where
  "map_mail_row st b =
     \<lparr>ml_id = b_id b,
      ml_from = (case meta_at st (b_id b) MAIL_FROM_KEY of None \<Rightarrow> [] | Some v \<Rightarrow> v),
      ml_subject = b_title b, ml_body = b_description b,
      ml_read = (meta_at st (b_id b) MAIL_READ_KEY = Some ''true'')\<rparr>"

definition has_meta :: "state \<Rightarrow> string \<Rightarrow> string \<Rightarrow> string \<Rightarrow> bool" where
  "has_meta st i k v = list_ex (\<lambda>m. m_bead m = i \<and> m_key m = k \<and> m_value m = v) (bead_meta st)"

text \<open>The \<open>WHERE\<close> of \<open>MAIL_PROJECTION\<close>.\<close>

definition is_human_mail :: "state \<Rightarrow> bead \<Rightarrow> bool" where
  "is_human_mail st b \<longleftrightarrow> b_type b = ''mail'' \<and> has_meta st (b_id b) MAIL_TO_KEY HUMAN"

definition unread_rows :: "state \<Rightarrow> bead list" where
  "unread_rows st =
     sort_key b_id (filter (\<lambda>b. is_human_mail st b \<and> b_status b = Open \<and>
       \<not> has_meta st (b_id b) MAIL_READ_KEY ''true'') (beads st))"

definition unread_human_mail :: "state \<Rightarrow> MailMessage list" where
  "unread_human_mail st = map (map_mail_row st) (unread_rows st)"

definition mail_message_by_id :: "state \<Rightarrow> string \<Rightarrow> MailMessage option" where
  "mail_message_by_id st i =
     map_option (map_mail_row st) (sql_find (\<lambda>b. is_human_mail st b \<and> b_id b = i) (beads st))"

definition unread_human_mail_count :: "state \<Rightarrow> nat res" where
  "unread_human_mail_count st =
     count_nonneg (int (length (filter (\<lambda>b. b_type b = ''mail'' \<and> b_status b = Open \<and>
       has_meta st (b_id b) MAIL_TO_KEY ''human'' \<and>
       \<not> has_meta st (b_id b) MAIL_READ_KEY ''true'') (beads st)))) ''unread-mail''"

section \<open>The status snapshot\<close>

record StatusSummary =
  su_live_sessions :: "string list"
  su_ready :: nat
  su_open :: nat
  su_stuck :: nat
  su_unread_mail :: nat

definition status_summary :: "ledger \<Rightarrow> StatusSummary res" where
  "status_summary l =
     (let st = tables l;
          live = sort (map s_name (filter (\<lambda>s. s_status s = Live) (sessions st))) in
      rbind (ready_task_count st) (\<lambda>r.
      rbind (open_task_count st) (\<lambda>opn.
      rbind (stuck_task_count st) (\<lambda>stuck.
      rbind (unread_human_mail_count st) (\<lambda>mail.
        Inr \<lparr>su_live_sessions = live, su_ready = r, su_open = opn, su_stuck = stuck,
             su_unread_mail = mail\<rparr>)))))"

section \<open>The count counts the list\<close>

lemma unread_count: "unread_human_mail_count st = Inr (length (unread_human_mail st))"
proof -
  have "(\<lambda>b. b_type b = ''mail'' \<and> b_status b = Open \<and> has_meta st (b_id b) MAIL_TO_KEY ''human'' \<and>
       \<not> has_meta st (b_id b) MAIL_READ_KEY ''true'')
    = (\<lambda>b. is_human_mail st b \<and> b_status b = Open \<and> \<not> has_meta st (b_id b) MAIL_READ_KEY ''true'')"
    by (auto simp: is_human_mail_def HUMAN_def)
  then show ?thesis
    by (simp add: unread_human_mail_count_def unread_human_mail_def unread_rows_def)
qed

lemma filter_length_mono:
  "(\<And>x. x \<in> set xs \<Longrightarrow> p x \<Longrightarrow> q x) \<Longrightarrow> length (filter p xs) \<le> length (filter q xs)"
  by (induction xs) auto

section \<open>A message becomes an unread bead\<close>

text \<open>What \<open>serde\<close> reads back from the literal.\<close>

definition mail_payload :: "string \<Rightarrow> string \<Rightarrow> string \<Rightarrow> BeadCreated" where
  "mail_payload subject body from =
     \<lparr>bc_title = mail_title subject, bc_bead_type = ''mail'', bc_description = body, bc_needs = [],
      bc_labels = [], bc_assignee = None, bc_run_id = None, bc_step_id = None,
      bc_metadata = [(MAIL_FROM_KEY, from), (MAIL_TO_KEY, HUMAN)]\<rparr>"

definition mail_law :: "'j serde \<Rightarrow> (json_lit \<Rightarrow> 'j) \<Rightarrow> bool" where
  "mail_law S lit \<longleftrightarrow>
     (\<forall>subject body from.
        dec_bead_created S (lit (mail_data subject body from)) = Inr (mail_payload subject body from))"

lemma mail_title_not_blank: "\<not> is_blank (mail_title subject)"
proof -
  have "\<not> is_blank MAIL_NO_SUBJECT" unfolding MAIL_NO_SUBJECT_def is_blank_def by code_simp
  then show ?thesis by (simp add: mail_title_def)
qed

lemma write_meta_plain:
  assumes "\<not> projected_key k" and "k \<noteq> EXCLUSIVE_DRAIN_RESERVATION" and "i \<in> ids st"
  shows "write_meta ev i k v st = Inr (st\<lparr>bead_meta :=
     sql_upsert meta_key (\<lambda>m. m\<lparr>m_value := v\<rparr>) \<lparr>m_bead = i, m_key = k, m_value = v\<rparr> (bead_meta st)\<rparr>)"
proof -
  have "find (\<lambda>(k', _). k' = k) PROJECTED_METADATA = None"
    using assms(1) unfolding projected_key_def find_None_iff by force
  then show ?thesis using assms(2,3) by (simp add: write_meta_def upsert_meta_def ids_def)
qed

lemma mail_keys:
  "\<not> projected_key MAIL_FROM_KEY" "\<not> projected_key MAIL_TO_KEY"
  "MAIL_FROM_KEY \<noteq> EXCLUSIVE_DRAIN_RESERVATION" "MAIL_TO_KEY \<noteq> EXCLUSIVE_DRAIN_RESERVATION"
  "MAIL_FROM_KEY \<noteq> MAIL_TO_KEY" "MAIL_READ_KEY \<noteq> MAIL_FROM_KEY" "MAIL_READ_KEY \<noteq> MAIL_TO_KEY"
  by (auto simp: projected_key_def PROJECTED_METADATA_def MAIL_FROM_KEY_def MAIL_TO_KEY_def
      MAIL_READ_KEY_def EXCLUSIVE_DRAIN_RESERVATION_def)

lemma mail_rows_new:
  assumes "meta_ok (ids st) ms" and "i \<notin> ids st"
    and from_row_def: "from_row = \<lparr>m_bead = i, m_key = MAIL_FROM_KEY, m_value = from\<rparr>"
    and to_row_def: "to_row = \<lparr>m_bead = i, m_key = MAIL_TO_KEY, m_value = HUMAN\<rparr>"
  shows "sql_upsert meta_key (\<lambda>m. m\<lparr>m_value := v\<rparr>) to_row
           (sql_upsert meta_key (\<lambda>m. m\<lparr>m_value := w\<rparr>) from_row ms) = ms @ [from_row, to_row]"
proof -
  have "m_bead m \<noteq> i" if "m \<in> set ms" for m
    using assms(1,2) that by (auto simp: meta_ok_def list_all_iff)
  then have "meta_key from_row \<notin> meta_key ` set ms" "meta_key to_row \<notin> meta_key ` set ms"
    by (auto simp: meta_key_def from_row_def to_row_def)
  moreover have "meta_key to_row \<noteq> meta_key from_row"
    using mail_keys(5) by (simp add: meta_key_def from_row_def to_row_def)
  ultimately show ?thesis by (simp add: sql_upsert_def)
qed

lemma mail_type: "''mail'' \<in> set BEAD_TYPES"
  by (simp add: BEAD_TYPES_def)

lemma mail_created:
  assumes law: "mail_law S lit" and wf: "wf_state st" and i: "parse_bead_id i = Some (p, n)"
    and new: "i \<notin> ids st" and ev: "ev_kind ev = BeadCreated" "ev_rig ev = Some rig" "ev_bead ev = Some i"
      "ev_data ev = lit (mail_data subject body from)"
    and b_def: "b = new_bead S ev i rig (mail_payload subject body from)"
  obtains st' where "fold_apply S st ev = Inr st'" and "beads st' = beads st @ [b]"
    and "bead_meta st' = bead_meta st @ [\<lparr>m_bead = i, m_key = MAIL_FROM_KEY, m_value = from\<rparr>,
           \<lparr>m_bead = i, m_key = MAIL_TO_KEY, m_value = HUMAN\<rparr>]"
proof -
  let ?p = "mail_payload subject body from"
  have pay: "payload (dec_bead_created S) ev = Inr ?p"
    using law ev(4) by (simp add: mail_law_def)
  have fields: "bc_bead_type ?p = ''mail''" "bc_title ?p = mail_title subject" "bc_needs ?p = []"
    by (simp_all add: mail_payload_def)
  have none: "bead_status st i = None"
    using new bead_at_None [of st i] by (simp add: bead_status_def ids_def)
  define st1 where "st1 = st\<lparr>beads := beads st @ [b]\<rparr>"
  have ins: "insert_bead b st = Inr st1"
    using new by (simp add: st1_def b_def new_bead_def ids_def beads_check_def check_in_def)
  have i1: "i \<in> ids st1" by (simp add: st1_def ids_def b_def new_bead_def)
  define st3 where "st3 = st1\<lparr>bead_meta := bead_meta st @ [\<lparr>m_bead = i, m_key = MAIL_FROM_KEY, m_value = from\<rparr>,
           \<lparr>m_bead = i, m_key = MAIL_TO_KEY, m_value = HUMAN\<rparr>]\<rparr>"
  have "meta_ok (ids st) (bead_meta st)" using wf by (simp add: wf_state_def)
  then have meta: "foldM (\<lambda>s (k, v). write_meta ev i k v s) st1 (bc_metadata ?p) = Inr st3"
    using i1 new
    by (simp add: mail_payload_def write_meta_plain mail_keys mail_rows_new st3_def)
      (simp add: st1_def mail_rows_new)
  obtain st' where bump: "bump_counter i (insert_search i Body (body_content (bc_title ?p) (bc_description ?p)) st3) = Inr st'"
    using i by (auto simp: bump_counter_def)
  have "fold_apply S st ev = Inr st'"
    using ev pay none ins [unfolded b_def] meta bump mail_title_not_blank mail_type fields
    by (simp add: fold_apply_def bead_created_def required_bead_def
        del: rbind_eq_Inr insert_bead_Inr payload_Inr)
  moreover have "beads st' = beads st @ [b]" "bead_meta st' = bead_meta st3"
    using bump by (auto elim!: bump_counter_Inr simp: insert_search_def st3_def st1_def)
  ultimately show thesis using that by (simp add: st3_def)
qed

lemma find_append_new:
  "(\<And>m. m \<in> set ms \<Longrightarrow> \<not> q m) \<Longrightarrow> find q (ms @ ns) = find q ns"
  by (induction ms) auto

lemma mail_sent:
  assumes law: "mail_law S lit" and wf: "wf_state st" and i: "parse_bead_id i = Some (p, n)"
    and new: "i \<notin> ids st" and ev: "ev_kind ev = BeadCreated" "ev_rig ev = Some rig" "ev_bead ev = Some i"
      "ev_data ev = lit (mail_data subject body from)"
  shows "\<exists>st'. fold_apply S st ev = Inr st' \<and>
    \<lparr>ml_id = i, ml_from = from, ml_subject = mail_title subject, ml_body = body, ml_read = False\<rparr>
      \<in> set (unread_human_mail st')"
proof (rule mail_created [OF law wf i new ev refl])
  fix st'
  let ?b = "new_bead S ev i rig (mail_payload subject body from)"
  assume run: "fold_apply S st ev = Inr st'" and bs: "beads st' = beads st @ [?b]"
    and ms: "bead_meta st' = bead_meta st @ [\<lparr>m_bead = i, m_key = MAIL_FROM_KEY, m_value = from\<rparr>,
           \<lparr>m_bead = i, m_key = MAIL_TO_KEY, m_value = HUMAN\<rparr>]"
  have old: "m_bead m \<noteq> i" if "m \<in> set (bead_meta st)" for m
    using wf new that by (auto simp: wf_state_def meta_ok_def list_all_iff)
  have at: "meta_at st' i k = (if k = MAIL_FROM_KEY then Some from else if k = MAIL_TO_KEY then Some HUMAN else None)" for k
    using old mail_keys(5) by (simp add: meta_at_def sql_find_def ms find_append_new)
  have has: "has_meta st' i MAIL_TO_KEY HUMAN" "\<not> has_meta st' i MAIL_READ_KEY ''true''"
    using old mail_keys by (auto simp: has_meta_def list_ex_iff ms)
  have b: "b_id ?b = i" "b_type ?b = ''mail''" "b_status ?b = Open" "b_title ?b = mail_title subject"
    "b_description ?b = body"
    by (simp_all add: new_bead_def mail_payload_def)
  have "?b \<in> set (unread_rows st')"
    using has by (simp add: unread_rows_def is_human_mail_def bs b)
  moreover have "map_mail_row st' ?b =
    \<lparr>ml_id = i, ml_from = from, ml_subject = mail_title subject, ml_body = body, ml_read = False\<rparr>"
    using at mail_keys by (simp add: map_mail_row_def b)
  ultimately show ?thesis
    using run unfolding unread_human_mail_def by (metis imageI set_map)
qed

end
