(* ===== verification/Demo.thy ===== *)
theory Demo
  imports Refold Mail
begin

text \<open>
  A concrete payload library, to run the model on: \<open>demo\<close> reads a payload from a string, and
  stores the string itself. The other decoders refuse everything.
\<close>

definition no_serde :: "'j serde" where
  "no_serde =
    \<lparr>dec_bead_created = (\<lambda>_. Inl []),
      dec_bead_claimed = (\<lambda>_. Inl []),
      dec_bead_updated = (\<lambda>_. Inl []),
      dec_bead_closed = (\<lambda>_. Inl []),
      dec_rig_added = (\<lambda>_. Inl []),
      dec_campd_autostarted = (\<lambda>_. Inl []),
      dec_run_cooked = (\<lambda>_. Inl []),
      dec_formula_refused = (\<lambda>_. Inl []),
      dec_worker_milestone = (\<lambda>_. Inl []),
      dec_worktree_kept = (\<lambda>_. Inl []),
      dec_bead_worktree_reaped = (\<lambda>_. Inl []),
      dec_agent_stalled = (\<lambda>_. Inl []),
      dec_patrol_degraded = (\<lambda>_. Inl []),
      dec_dispatch_failed = (\<lambda>_. Inl []),
      dec_dispatch_rearmed = (\<lambda>_. Inl []),
      dec_dispatch_live_tree = (\<lambda>_. Inl []),
      dec_check_passed = (\<lambda>_. Inl []),
      dec_check_failed = (\<lambda>_. Inl []),
      dec_run_finalized = (\<lambda>_. Inl []),
      dec_session_woke = (\<lambda>_. Inl []),
      dec_session_nudged = (\<lambda>_. Inl []),
      dec_session_pid = (\<lambda>_. Inl []),
      dec_session_end = (\<lambda>_. Inl []),
      dec_order_fired = (\<lambda>_. Inl []),
      dec_order_completed = (\<lambda>_. Inl []),
      dec_order_failed = (\<lambda>_. Inl []),
      dec_config_changed = (\<lambda>_. Inl []),
      dec_session_interrupted = (\<lambda>_. Inl []),
      dec_control_responded = (\<lambda>_. Inl []),
      dec_control_failed = (\<lambda>_. Inl []),
      dec_subscriber_dropped = (\<lambda>_. Inl []),
      dec_shim_refused = (\<lambda>_. Inl []),
      dec_worker_drain_acked = (\<lambda>_. Inl []),
      dec_permission_pending = (\<lambda>_. Inl []),
      dec_permission_decided = (\<lambda>_. Inl []),
      dec_permission_saturated = (\<lambda>_. Inl []),
      labels_text = (\<lambda>_. ''[]''), labels_of = (\<lambda>_. Inr []), data_text = (\<lambda>_. []), data_of = (\<lambda>_. Inl [])\<rparr>"

text \<open>\<open>a|b\<close> is the pair of \<open>a\<close> and \<open>Some b\<close>; without the bar there is no second part.\<close>

definition bar :: "string \<Rightarrow> string \<times> string option" where
  "bar d = (case split_once CHR 0x7C d of None \<Rightarrow> (d, None) | Some (a, b) \<Rightarrow> (a, Some b))"

definition demo_created :: "string \<Rightarrow> string + BeadCreated" where
  "demo_created d = Inr
     \<lparr>bc_title = fst (bar d), bc_bead_type = ''task'', bc_description = [],
      bc_needs = (case snd (bar d) of None \<Rightarrow> [] | Some n \<Rightarrow> [n]), bc_labels = [],
      bc_assignee = None, bc_run_id = None, bc_step_id = None, bc_metadata = []\<rparr>"

definition demo_claimed :: "string \<Rightarrow> string + BeadClaimed" where
  "demo_claimed d = Inr \<lparr>bcl_session = d, bcl_work_branch = None\<rparr>"

text \<open>\<open>a|b\<close> writes the metadata \<open>b\<close> under the key \<open>a\<close>.\<close>

definition demo_updated :: "string \<Rightarrow> string + BeadUpdated" where
  "demo_updated d = Inr
     \<lparr>bu_title = None, bu_description = None, bu_metadata = [(fst (bar d), snd (bar d))]\<rparr>"

definition demo_closed :: "string \<Rightarrow> string + string BeadClosed" where
  "demo_closed d = Inr
     \<lparr>bx_outcome = d, bx_reason = Some ''done'', bx_failure_class = None, bx_final_disposition = None,
      bx_output = None, bx_work_outcome = None, bx_work_commit = None, bx_work_branch = None\<rparr>"

definition demo_woke :: "string \<Rightarrow> string + SessionWoke" where
  "demo_woke d = Inr
     \<lparr>sw_name = fst (bar d), sw_agent = ''dev'', sw_rig = None, sw_claude_session_id = None,
      sw_transcript_path = None, sw_pid = None, sw_bead = snd (bar d), sw_worktree = None,
      sw_base = None, sw_model = None, sw_permission_mode = None, sw_allowed_tools = None\<rparr>"

definition demo_end :: "string \<Rightarrow> string + SessionEnd" where
  "demo_end d = Inr
     \<lparr>se_name = d, se_exit_code = None, se_signal = None, se_reason = None, se_cause_seq = None\<rparr>"

definition demo_pending :: "string \<Rightarrow> string + PermissionPending" where
  "demo_pending d = Inr
     \<lparr>pp_session = d, pp_request_id = ''req'', pp_tool_name = ''Bash''\<rparr>"

definition demo_decided :: "string \<Rightarrow> string + PermissionDecided" where
  "demo_decided d = Inr
     \<lparr>px_session = [], px_request_id = ''req'', px_decision = ''allow'', px_decided_by = d,
      px_reason = None\<rparr>"

definition demo :: "string serde" where
  "demo = no_serde
     \<lparr>dec_bead_created := demo_created, dec_bead_claimed := demo_claimed,
      dec_bead_updated := demo_updated, dec_bead_closed := demo_closed,
      dec_session_woke := demo_woke, dec_session_end := demo_end,
      dec_dispatch_failed := (\<lambda>d. Inr \<lparr>df_reason = d\<rparr>),
      dec_dispatch_rearmed := (\<lambda>d. Inr \<lparr>dr_previous_reason = d\<rparr>),
      dec_permission_pending := demo_pending, dec_permission_decided := demo_decided,
      data_text := (\<lambda>d. d), data_of := Inr\<rparr>"

lemma demo_roundtrip: "text_roundtrip demo"
  by (simp add: text_roundtrip_def demo_def no_serde_def)

definition demo_js :: "string \<Rightarrow> string \<Rightarrow> string option" where
  "demo_js d field = (if field = ''name'' then Some (fst (bar d)) else None)"

lemma demo_json_name: "json_name_law demo demo_js"
  by (simp add: json_name_law_def demo_def no_serde_def demo_woke_def demo_js_def)

definition demo_input :: "event_type \<Rightarrow> string \<Rightarrow> string \<Rightarrow> string event_input" where
  "demo_input k bead d =
     \<lparr>in_kind = k, in_rig = Some ''gc'', in_actor = ''test'', in_bead = Some bead, in_data = d\<rparr>"

definition demo_event :: "event_type \<Rightarrow> string \<Rightarrow> string \<Rightarrow> string event" where
  "demo_event k bead d =
     \<lparr>ev_seq = 1, ev_ts = ''2026'', ev_kind = k, ev_rig = Some ''gc'', ev_actor = ''test'',
      ev_bead = Some bead, ev_data = d\<rparr>"

text \<open>Two beads, the second needing the first.\<close>

definition demo_creates :: "string event list" where
  "demo_creates = [demo_event BeadCreated ''gc-1'' ''one'', demo_event BeadCreated ''gc-2'' ''two|gc-1'']"

text \<open>The state after some events on top of them.\<close>

definition demo_state :: "string event list \<Rightarrow> state" where
  "demo_state evs = projr (foldM (fold_apply demo) empty_state (demo_creates @ evs))"

text \<open>Does the model accept them?\<close>

definition demo_accepts :: "string event list \<Rightarrow> bool" where
  "demo_accepts evs = (case foldM (fold_apply demo) empty_state (demo_creates @ evs) of Inl _ \<Rightarrow> False | Inr _ \<Rightarrow> True)"

lemma demo_state_wf: "demo_accepts evs \<Longrightarrow> wf_state (demo_state evs)"
  by (auto simp: demo_accepts_def demo_state_def intro: foldM_fold_apply_wf split: sum.splits)

lemma demo_state_step:
  "demo_accepts (evs @ [ev]) \<Longrightarrow> fold_apply demo (demo_state evs) ev = Inr (demo_state (evs @ [ev]))"
  by (auto simp: demo_accepts_def demo_state_def foldM_append rbind_def split: sum.splits)

lemma demo_accepts_all:
  "demo_accepts []"
  "demo_accepts [demo_event BeadClaimed ''gc-1'' ''s'', demo_event BeadClosed ''gc-1'' ''pass'']"
  by code_simp+

end
