(* ===== verification/Effects.thy ===== *)
theory Effects
  imports Demo
begin

text \<open>
  What the accepted events do to beads, claims, metadata, permissions and readiness, as
  properties of the whole fold (\<^verbatim>\<open>crates/camp-core/src/ledger/fold.rs\<close>, \<^verbatim>\<open>id.rs\<close>,
  \<^verbatim>\<open>readiness.rs\<close>), over one event or over any sequence of them.
\<close>

section \<open>Sequences of events\<close>

lemma fold_run_invariant:
  assumes "foldM (fold_apply S) st evs = Inr st'" and "wf_state st" and "P st"
    and "\<And>s ev s'. ev \<in> set evs \<Longrightarrow> wf_state s \<Longrightarrow> P s \<Longrightarrow> fold_apply S s ev = Inr s' \<Longrightarrow> P s'"
  shows "P st'"
proof -
  have "wf_state st' \<and> P st'"
    using assms(1)
    by (rule foldM_invariant) (use assms(2-4) fold_apply_wf in blast)+
  then show ?thesis by simp
qed

section \<open>A close\<close>

definition failure_class_ok :: "'j BeadClosed \<Rightarrow> bool" where
  "failure_class_ok p \<longleftrightarrow>
     (case bx_failure_class p of
        None \<Rightarrow> True
      | Some c \<Rightarrow> c \<in> set CAMP_FAILURE_CLASSES \<and> bx_outcome p = ''fail'')"

definition closes_coherently :: "'j BeadClosed \<Rightarrow> bool" where
  "closes_coherently p \<longleftrightarrow>
     coherent (Some (bx_outcome p)) (bx_final_disposition p) (bx_work_outcome p)
       (bx_work_commit p) (bx_work_branch p)"

lemma check_failure_class_Inr: "check_failure_class ev p = Inr u \<longleftrightarrow> failure_class_ok p"
  by (simp add: check_failure_class_def failure_class_ok_def split: option.split)

lemma coherent_checks:
  assumes "closes_coherently p"
  shows "bx_outcome p \<in> set CAMP_OUTCOMES" and "check_final_disposition ev p = Inr ()"
    and "check_work_outcome ev p = Inr ()"
  using assms
  by (auto simp: closes_coherently_def coherent_def check_final_disposition_Inr check_work_outcome_def
      CAMP_WORK_OUTCOMES_def Let_def split: option.splits)

lemma coherent_check_row:
  assumes "closes_coherently p"
  shows "beads_check (close_row ev p b)"
  using assms
  by (auto simp: closes_coherently_def coherent_def beads_check_def check_in_def close_row_def
      CAMP_OUTCOMES_def CAMP_FINAL_DISPOSITIONS_def split: option.splits)

lemma bead_closed_accepts:
  assumes "ev_bead ev = Some i" and "dec_bead_closed S (ev_data ev) = Inr p"
    and b: "bead_at st i = Some b"
  shows "(\<exists>st'. bead_closed S ev st = Inr st') \<longleftrightarrow>
    b_status b \<noteq> Closed \<and> failure_class_ok p \<and> closes_coherently p"
proof
  assume "\<exists>st'. bead_closed S ev st = Inr st'"
  then obtain st' where run: "bead_closed S ev st = Inr st'" ..
  then have "bx_outcome p \<in> set CAMP_OUTCOMES" and "failure_class_ok p"
    and "check_final_disposition ev p = Inr ()" "check_work_outcome ev p = Inr ()"
    using assms(1,2) by (auto simp: bead_closed_def check_failure_class_Inr)
  moreover have "b_status b \<noteq> Closed"
    using run assms by (auto simp: bead_closed_def bead_status_def split: bead_status.splits)
  ultimately show "b_status b \<noteq> Closed \<and> failure_class_ok p \<and> closes_coherently p"
    using check_work_outcome_Inr by (auto simp: closes_coherently_def)
next
  assume "b_status b \<noteq> Closed \<and> failure_class_ok p \<and> closes_coherently p"
  then have ok: "failure_class_ok p" "closes_coherently p" and "b_status b \<noteq> Closed" by simp_all
  then have "(case bead_status st i of None \<Rightarrow> f | Some Closed \<Rightarrow> g | Some _ \<Rightarrow> h) = h" for f g h :: "state res"
    using b by (cases "b_status b") (simp_all add: bead_status_def)
  then show "\<exists>st'. bead_closed S ev st = Inr st'"
    using assms(1,2) coherent_checks [OF ok(2)] coherent_check_row [OF ok(2)] ok(1)
    by (simp add: bead_closed_def check_failure_class_Inr)
qed

text \<open>
  C18. A close is accepted exactly when the bead is not closed yet and the payload is coherent:
  the outcome is in the vocabulary, a failure class or a disposition comes with \<open>fail\<close>, shipped
  work comes with \<open>pass\<close>, a commit and a branch, and no other work outcome carries either.
\<close>

theorem close_accepted_iff_coherent:
  assumes "ev_kind ev = BeadClosed" and "ev_bead ev = Some i"
    and "dec_bead_closed S (ev_data ev) = Inr p" and "bead_at st i = Some b"
  shows "(\<exists>st'. fold_apply S st ev = Inr st') \<longleftrightarrow>
    b_status b \<noteq> Closed \<and> failure_class_ok p \<and>
    coherent (Some (bx_outcome p)) (bx_final_disposition p) (bx_work_outcome p)
      (bx_work_commit p) (bx_work_branch p)"
  using assms bead_closed_accepts [OF assms(2-4)]
  by (simp add: fold_apply_def closes_coherently_def)


definition demo_bead :: "string event list \<Rightarrow> string \<Rightarrow> bead" where
  "demo_bead evs i = the (bead_at (demo_state evs) i)"

lemma demo_bead_at:
  "bead_at (demo_state evs) i \<noteq> None \<Longrightarrow> bead_at (demo_state evs) i = Some (demo_bead evs i)"
  by (auto simp: demo_bead_def)

lemma demo_open: "bead_at (demo_state []) ''gc-1'' \<noteq> None" "b_status (demo_bead [] ''gc-1'') = Open"
  by code_simp+

lemma demo_closed_payload:
  "dec_bead_closed demo (ev_data (demo_event BeadClosed i d)) = Inr (projr (demo_closed d))"
  by (simp add: demo_def demo_event_def demo_closed_def)

theorem close_accepted_witness:
  "(\<exists>st'. fold_apply demo (demo_state []) (demo_event BeadClosed ''gc-1'' ''fail'') = Inr st') \<and>
   \<not> (\<exists>st'. fold_apply demo (demo_state []) (demo_event BeadClosed ''gc-1'' ''done'') = Inr st')"
  using close_accepted_iff_coherent [OF _ _ demo_closed_payload demo_bead_at [OF demo_open(1)], of "''gc-1''" "''fail''"]
    close_accepted_iff_coherent [OF _ _ demo_closed_payload demo_bead_at [OF demo_open(1)], of "''gc-1''" "''done''"]
  by (simp add: demo_open(2)) (simp add: demo_event_def demo_closed_def failure_class_ok_def coherent_def CAMP_OUTCOMES_def)

text \<open>
  C5. The verdict of a closed bead (status, outcome, reason, work outcome, commit, branch,
  disposition, closing time) is final: no sequence of accepted events changes it, or removes the
  bead.
\<close>

theorem closed_verdict_is_final:
  assumes "wf_state st" and "foldM (fold_apply S) st evs = Inr st'"
    and b: "bead_at st i = Some b" "b_status b = Closed"
  shows "\<exists>b'. bead_at st' i = Some b' \<and> verdict b' = verdict b"
  using assms(2,1)
proof (rule fold_run_invariant [where P = "\<lambda>s. \<exists>b'. bead_at s i = Some b' \<and> verdict b' = verdict b"])
  show "\<exists>b'. bead_at st i = Some b' \<and> verdict b' = verdict b" using b by blast
next
  fix s :: state and ev s'
  assume "wf_state s" "fold_apply S s ev = Inr s'" "\<exists>b'. bead_at s i = Some b' \<and> verdict b' = verdict b"
  then show "\<exists>b'. bead_at s' i = Some b' \<and> verdict b' = verdict b"
    using fold_apply_verdict [of s S ev s' i] b(2) by (force simp: verdict_def)
qed

definition demo_finish :: "string event list" where
  "demo_finish = [demo_event BeadClaimed ''gc-1'' ''s'', demo_event BeadClosed ''gc-1'' ''pass'']"

definition demo_after :: "string event list" where
  "demo_after = [demo_event BeadUpdated ''gc-1'' ''k|v'', demo_event BeadClaimed ''gc-2'' ''t'']"

lemma demo_finish_facts:
  "demo_accepts demo_finish" "demo_accepts (demo_finish @ demo_after)"
  "bead_at (demo_state demo_finish) ''gc-1'' \<noteq> None"
  "b_status (demo_bead demo_finish ''gc-1'') = Closed"
  "b_outcome (demo_bead demo_finish ''gc-1'') = Some ''pass''"
  by code_simp+

lemma demo_state_run:
  "demo_accepts (evs @ evs') \<Longrightarrow> foldM (fold_apply demo) (demo_state evs) evs' = Inr (demo_state (evs @ evs'))"
  by (auto simp: demo_accepts_def demo_state_def foldM_append rbind_def split: sum.splits)

theorem closed_verdict_witness:
  "\<exists>b'. bead_at (demo_state (demo_finish @ demo_after)) ''gc-1'' = Some b' \<and>
        verdict b' = verdict (demo_bead demo_finish ''gc-1'')"
  by (rule closed_verdict_is_final [OF demo_state_wf [OF demo_finish_facts(1)]
        demo_state_run [OF demo_finish_facts(2)] demo_bead_at [OF demo_finish_facts(3)]
        demo_finish_facts(4)])

section \<open>A claim\<close>

text \<open>What takes a claimed bead from its session: closing it, or the session's crash.\<close>

definition releases :: "'j serde \<Rightarrow> string \<Rightarrow> string \<Rightarrow> 'j event \<Rightarrow> bool" where
  "releases S i s ev \<longleftrightarrow>
     ev_kind ev = BeadClosed \<and> ev_bead ev = Some i \<or>
     ev_kind ev = SessionCrashed \<and>
       (case dec_session_end S (ev_data ev) of Inl _ \<Rightarrow> False | Inr p \<Rightarrow> se_name p = s)"

definition held_by :: "state \<Rightarrow> string \<Rightarrow> string \<Rightarrow> bool" where
  "held_by st i s =
     (case bead_at st i of
        None \<Rightarrow> False | Some b \<Rightarrow> b_status b = InProgress \<and> b_claimed_by b = Some s)"

lemma held_by_iff:
  "held_by st i s \<longleftrightarrow>
     (\<exists>b. bead_at st i = Some b \<and> b_status b = InProgress \<and> b_claimed_by b = Some s)"
  by (simp add: held_by_def split: option.split)

lemma bead_at_rows: "beads st' = beads st \<Longrightarrow> bead_at st' i = bead_at st i"
  by (simp add: bead_at_def)

lemma bead_at_map_if:
  assumes "beads st' = map (\<lambda>b. if p b then f b else b) (beads st)" and "\<And>b. b_id (f b) = b_id b"
  shows "bead_at st' i = map_option (\<lambda>b. if p b then f b else b) (bead_at st i)"
  using bead_table.find_after_update [of p f i st] assms by (simp add: bead_at_def)

lemma bead_at_append:
  assumes "beads st' = beads st @ [b]" and "b_id b \<notin> ids st"
  shows "bead_at st' i = (if i = b_id b then Some b else bead_at st i)"
  using bead_table.find_after_append [of i st b] assms bead_at_None [of st "b_id b"]
  by (auto simp: bead_at_def ids_def split: option.split)

text \<open>What each kind of event leaves at an id.\<close>

lemma create_at:
  assumes "bead_created S ev st = Inr st'" and "bead_at st i = Some b"
  shows "bead_at st' i = Some b"
  using assms(1)
proof (rule bead_created_beads)
  fix j rig p
  assume "j \<notin> b_id ` set (beads st)" and "beads st' = beads st @ [new_bead S ev j rig p]"
  then show ?thesis
    using bead_at_append [of st' st "new_bead S ev j rig p" i] assms(2) bead_at_Some [OF assms(2)]
    by (auto simp: ids_def new_bead_def)
qed

lemma held_by_map:
  assumes "held_by st i s" and rows: "beads st' = map (\<lambda>b. if p b then f b else b) (beads st)"
    and id: "\<And>b. b_id (f b) = b_id b"
    and keep: "\<And>b. p b \<Longrightarrow> b_id b = i \<Longrightarrow> b_status b = InProgress \<Longrightarrow> b_claimed_by b = Some s \<Longrightarrow>
      b_status (f b) = InProgress \<and> b_claimed_by (f b) = Some s"
  shows "held_by st' i s"
proof -
  from assms(1) obtain b where b: "bead_at st i = Some b" "b_status b = InProgress" "b_claimed_by b = Some s"
    unfolding held_by_iff by blast
  then have "bead_at st' i = Some (if p b then f b else b)"
    using bead_at_map_if [OF rows id] by simp
  then show ?thesis using b keep [of b] bead_at_Some [OF b(1)] unfolding held_by_iff by auto
qed

lemma held_by_same: "held_by st i s \<Longrightarrow> beads st' = beads st \<Longrightarrow> held_by st' i s"
  by (simp add: held_by_iff bead_at_def)

lemma bead_claimed_rows:
  assumes "bead_claimed S ev st = Inr st'"
  obtains i p where "ev_bead ev = Some i" and "dec_bead_claimed S (ev_data ev) = Inr p"
    and "bead_status st i = Some Open"
    and "beads st' = map (\<lambda>b. if b_id b = i then (claim_row ev p b)\<lparr>b_dispatch_failure := None\<rparr> else b) (beads st)"
  using assms
proof (rule bead_claimed_Inr)
  fix i p
  assume i: "ev_bead ev = Some i" "dec_bead_claimed S (ev_data ev) = Inr p" "bead_status st i = Some Open"
    and clear: "clear_dispatch_failure i
      (st\<lparr>beads := map (\<lambda>b. if b_id b = i then claim_row ev p b else b) (beads st)\<rparr>) = Inr st'"
  have "beads st' = map (\<lambda>b. if b_id b = i then (claim_row ev p b)\<lparr>b_dispatch_failure := None\<rparr> else b) (beads st)"
    using clear_dispatch_failure_beads [OF clear] by (auto simp: claim_row_def)
  with i show thesis by (rule that)
qed

lemma session_woke_rows:
  assumes "session_woke S ev st = Inr st'"
  obtains p where "dec_session_woke S (ev_data ev) = Inr p" and "sw_name p \<notin> names st"
    and "sessions st' = sessions st @ [woke_row ev p]"
    and "beads st' = map (\<lambda>b. if sw_bead p = Some (b_id b) then b\<lparr>b_dispatch_failure := None\<rparr> else b) (beads st)"
    and "deps st' = deps st" and "bead_meta st' = bead_meta st" and "permissions st' = permissions st"
    and "counters st' = counters st" and "search st' = search st"
proof -
  from assms obtain p :: SessionWoke where p: "dec_session_woke S (ev_data ev) = Inr p"
    and new: "s_name (woke_row ev p) \<notin> s_name ` set (sessions st)"
    and go: "(case sw_bead p of
        Some bead \<Rightarrow> clear_dispatch_failure bead (st\<lparr>sessions := sessions st @ [woke_row ev p]\<rparr>)
      | None \<Rightarrow> Inr (st\<lparr>sessions := sessions st @ [woke_row ev p]\<rparr>)) = Inr st'"
    by (auto simp: session_woke_def)
  have fresh: "sw_name p \<notin> names st" using new by (simp add: names_def woke_row_def)
  show thesis
  proof (cases "sw_bead p")
    case None
    then show ?thesis using go by (intro that [OF p fresh]) auto
  next
    case (Some i)
    have rows: "beads st' = map (\<lambda>b. if b_id b = i then b\<lparr>b_dispatch_failure := None\<rparr> else b) (beads st)"
      using go Some by (auto dest: clear_dispatch_failure_beads)
    show ?thesis
      by (rule that [OF p fresh]) (use rows go Some in \<open>auto simp: clear_dispatch_failure_def\<close>)
  qed
qed

lemma claim_held_step:
  assumes wf: "wf_state st" and run: "fold_apply S st ev = Inr st'" and held: "held_by st i s"
    and keep: "\<not> releases S i s ev"
  shows "held_by st' i s"
  using run
proof (rule fold_apply_cases)
  assume "bead_created S ev st = Inr st'"
  then show ?thesis using held create_at unfolding held_by_iff by blast
next
  assume "bead_claimed S ev st = Inr st'"
  then show ?thesis
  proof (rule bead_claimed_rows)
    fix j p
    assume open_j: "bead_status st j = Some Open"
      and rows: "beads st' = map (\<lambda>b. if b_id b = j then (claim_row ev p b)\<lparr>b_dispatch_failure := None\<rparr> else b) (beads st)"
    have "j \<noteq> i" using open_j held by (auto simp: held_by_iff bead_status_def)
    then show ?thesis by (intro held_by_map [OF held rows]) (simp_all add: claim_row_def)
  qed
next
  assume "bead_updated S ev st = Inr st'"
  then show ?thesis
    by (rule bead_updated_beads, intro held_by_map [OF held]) (assumption, simp_all add: patch_row_def)
next
  assume kind: "ev_kind ev = BeadClosed" and "bead_closed S ev st = Inr st'"
  from this(2) show ?thesis
  proof (rule bead_closed_beads)
    fix j p
    assume j: "ev_bead ev = Some j"
      and "st' = index_reason j (bx_reason p)
             (st\<lparr>beads := map (\<lambda>b. if b_id b = j then close_row ev p b else b) (beads st)\<rparr>)"
    then have rows: "beads st' = map (\<lambda>b. if b_id b = j then close_row ev p b else b) (beads st)"
      by simp
    show ?thesis
      by (rule held_by_map [OF held rows]) (use keep kind j in \<open>simp_all add: close_row_def releases_def\<close>)
  qed
next
  assume "session_woke S ev st = Inr st'"
  then show ?thesis
  proof (rule session_woke_rows)
    fix p
    assume rows: "beads st' = map (\<lambda>b. if sw_bead p = Some (b_id b) then b\<lparr>b_dispatch_failure := None\<rparr> else b) (beads st)"
    show ?thesis by (rule held_by_map [OF held rows]) simp_all
  qed
next
  assume kind: "ev_kind ev = SessionCrashed" and "session_ended S ev Crashed st = Inr st'"
  from this(2) show ?thesis
  proof (rule session_ended_Inr)
    fix p
    assume p: "dec_session_end S (ev_data ev) = Inr p"
      and "st' = st\<lparr>sessions := end_session_rows ev (se_name p) Crashed (sessions st),
           beads := (if Crashed = Crashed then reopen_rows ev (se_name p) (beads st) else beads st)\<rparr>"
    then have rows: "beads st' = map (\<lambda>b. if b_claimed_by b = Some (se_name p) \<and> b_status b = InProgress
        then reopen_row ev b else b) (beads st)"
      by (simp add: reopen_rows_def)
    show ?thesis
      by (rule held_by_map [OF held rows]) (use keep kind p in \<open>simp_all add: reopen_row_def releases_def\<close>)
  qed
next
  assume "session_ended S ev Stopped st = Inr st'"
  then show ?thesis by (rule session_ended_Inr) (simp add: held_by_same [OF held])
next
  assume "dispatch_failed S ev st = Inr st'"
  then show ?thesis
    by (intro held_by_map [OF held, of st' "\<lambda>b. Some (b_id b) = ev_bead ev"
        "\<lambda>b. b\<lparr>b_dispatch_failure := Some (df_reason (projr (dec_dispatch_failed S (ev_data ev)))), b_updated_ts := ev_ts ev\<rparr>"])
      (auto simp: dispatch_failed_def)
next
  assume "dispatch_rearmed S ev st = Inr st'"
  then show ?thesis
    by (intro held_by_map [OF held, of st' "\<lambda>b. Some (b_id b) = ev_bead ev \<and> b_dispatch_failure b \<noteq> None"
        "\<lambda>b. b\<lparr>b_dispatch_failure := None, b_updated_ts := ev_ts ev\<rparr>"])
      (auto simp: dispatch_rearmed_def)
qed (auto simp: session_pid_def permission_pending_def permission_decided_def split: if_splits prod.splits
      intro: held_by_same [OF held] held)

lemma claim_takes:
  assumes "bead_claimed S ev st = Inr st'" and "ev_bead ev = Some i"
    and "dec_bead_claimed S (ev_data ev) = Inr p"
  shows "held_by st' i (bcl_session p)"
  using assms(1)
proof (rule bead_claimed_rows)
  fix j q
  assume j: "ev_bead ev = Some j" "dec_bead_claimed S (ev_data ev) = Inr q" "bead_status st j = Some Open"
    and rows: "beads st' = map (\<lambda>b. if b_id b = j then (claim_row ev q b)\<lparr>b_dispatch_failure := None\<rparr> else b) (beads st)"
  have same: "j = i" "q = p" using j assms(2,3) by simp_all
  obtain b where b: "bead_at st i = Some b" using j(3) same by (auto simp: bead_status_def)
  have "bead_at st' i = Some ((claim_row ev p b)\<lparr>b_dispatch_failure := None\<rparr>)"
    using bead_at_map_if [OF rows, of i] b bead_at_Some [OF b] same by (simp add: claim_row_def)
  then show ?thesis by (simp add: held_by_iff claim_row_def)
qed

lemma claim_refused:
  assumes "held_by st i s" and "ev_kind e = BeadClaimed" and "ev_bead e = Some i"
  shows "\<exists>err. fold_apply S st e = Inl err"
proof -
  have "fold_apply S st e \<noteq> Inr st'" for st'
  proof
    assume "fold_apply S st e = Inr st'"
    then have "bead_claimed S e st = Inr st'" using assms(2) by (simp add: fold_apply_def)
    then show False
      by (rule bead_claimed_rows) (use assms in \<open>auto simp: held_by_iff bead_status_def\<close>)
  qed
  then show ?thesis by (cases "fold_apply S st e") auto
qed

text \<open>
  C19. A claim is exclusive: after an accepted \<open>bead.claimed\<close> the bead is in progress under that
  session through every sequence of accepted events that neither closes the bead nor crashes the
  session, and every other claim of it is refused.
\<close>

theorem claim_is_exclusive:
  assumes wf: "wf_state st" and run: "fold_apply S st ev = Inr st1"
    and kind: "ev_kind ev = BeadClaimed" and i: "ev_bead ev = Some i"
    and p: "dec_bead_claimed S (ev_data ev) = Inr p"
    and rest: "foldM (fold_apply S) st1 evs = Inr st2"
    and keep: "\<forall>e \<in> set evs. \<not> releases S i (bcl_session p) e"
  shows "held_by st2 i (bcl_session p) \<and>
    (\<forall>e. ev_kind e = BeadClaimed \<longrightarrow> ev_bead e = Some i \<longrightarrow> (\<exists>err. fold_apply S st2 e = Inl err))"
proof -
  have "held_by st1 i (bcl_session p)"
    using claim_takes [OF _ i p] run kind by (simp add: fold_apply_def)
  then have "held_by st2 i (bcl_session p)"
    by (rule fold_run_invariant [OF rest fold_apply_wf [OF wf run], where P = "\<lambda>s. held_by s i (bcl_session p)"])
      (use claim_held_step keep in blast)
  then show ?thesis using claim_refused by blast
qed

definition demo_hold :: "string event list" where
  "demo_hold = [demo_event BeadUpdated ''gc-1'' ''k|v'', demo_event SessionWoke ''gc-1'' ''t|gc-2'',
                demo_event BeadClaimed ''gc-2'' ''t'', demo_event SessionCrashed ''gc-2'' ''t'']"

lemma demo_hold_facts:
  "demo_accepts ([] @ [demo_event BeadClaimed ''gc-1'' ''s''])"
  "demo_accepts ([demo_event BeadClaimed ''gc-1'' ''s''] @ demo_hold)"
  "list_all (\<lambda>e. \<not> releases demo ''gc-1'' ''s'' e) demo_hold"
  by code_simp+

lemma demo_claimed_payload:
  "dec_bead_claimed demo (ev_data (demo_event BeadClaimed i d)) = Inr \<lparr>bcl_session = d, bcl_work_branch = None\<rparr>"
  by (simp add: demo_def demo_event_def demo_claimed_def)

theorem claim_is_exclusive_witness:
  "held_by (demo_state ([demo_event BeadClaimed ''gc-1'' ''s''] @ demo_hold)) ''gc-1'' ''s'' \<and>
   (\<exists>err. fold_apply demo (demo_state ([demo_event BeadClaimed ''gc-1'' ''s''] @ demo_hold))
      (demo_event BeadClaimed ''gc-1'' ''t'') = Inl err)"
  using claim_is_exclusive [OF demo_state_wf [OF demo_accepts_all(1)]
      demo_state_step [OF demo_hold_facts(1), unfolded append_Nil] _ _ demo_claimed_payload
      demo_state_run [OF demo_hold_facts(2)], of "''gc-1''"]
    demo_hold_facts(3)
  by (simp add: list_all_iff demo_event_def)

section \<open>A crash\<close>

lemma passed_reopen:
  assumes "bead_at st' i = map_option (\<lambda>b. if q b then f b else b) (bead_at st i)"
    and "\<And>b. q b \<Longrightarrow> b_status b \<noteq> Closed \<and> b_status (f b) \<noteq> Closed"
  shows "passed st' i = passed st i"
  using assms by (cases "bead_at st i") (auto simp: passed_def)

lemma end_session_at:
  assumes "sessions st' = end_session_rows ev n s (sessions st)" and "session_at st n = Some r"
  shows "session_at st' n = Some (r\<lparr>s_status := s, s_ended_ts := Some (ev_ts ev)\<rparr>)"
  using session_table.find_after_update [of "\<lambda>s. s_name s = n"
      "\<lambda>r. r\<lparr>s_status := s, s_ended_ts := Some (ev_ts ev)\<rparr>" n st] assms session_at_Some [OF assms(2)]
  by (simp add: session_at_def end_session_rows_def)

lemma ended_refused:
  assumes "map_option s_status (session_at st n) = Some s" and "s \<noteq> Live"
    and "ev_kind e = SessionStopped \<or> ev_kind e = SessionCrashed"
    and "dec_session_end S (ev_data e) = Inr q" and "se_name q = n"
  shows "fold_apply S st e =
    Inl (InvalidTransition n (Msg ''session already ended with status {s:?}'' [session_status_str s]))"
  using assms by (cases s) (auto simp: fold_apply_def session_ended_def payload_def)

text \<open>
  C24. A crash gives back exactly the session's work: every bead in progress under the crashed
  session is open and unclaimed again, ready as soon as its needs have passed; every other bead is
  untouched; the session is \<open>crashed\<close> and cannot end a second time.
\<close>

theorem crash_reopens_exactly:
  assumes "fold_apply S st ev = Inr st'" and "ev_kind ev = SessionCrashed"
    and p: "dec_session_end S (ev_data ev) = Inr p"
  shows "(\<forall>i. bead_at st' i = map_option (\<lambda>b.
        if b_status b = InProgress \<and> b_claimed_by b = Some (se_name p)
        then b\<lparr>b_status := Open, b_claimed_by := None, b_updated_ts := ev_ts ev\<rparr> else b) (bead_at st i)) \<and>
    (\<forall>i. \<not> held_by st' i (se_name p)) \<and>
    (\<forall>i. held_by st i (se_name p) \<longrightarrow>
       ready_spec st' i = (\<forall>d \<in> set (deps st). d_bead d = i \<longrightarrow> passed st (d_needs d))) \<and>
    map_option s_status (session_at st' (se_name p)) = Some Crashed \<and>
    (\<forall>e q. ev_kind e \<in> {SessionStopped, SessionCrashed} \<longrightarrow> dec_session_end S (ev_data e) = Inr q \<longrightarrow>
       se_name q = se_name p \<longrightarrow> (\<exists>err. fold_apply S st' e = Inl err))"
proof -
  have "session_ended S ev Crashed st = Inr st'" using assms(1,2) by (simp add: fold_apply_def)
  then obtain r where r: "session_at st (se_name p) = Some r"
    and st': "st' = st\<lparr>sessions := end_session_rows ev (se_name p) Crashed (sessions st),
           beads := reopen_rows ev (se_name p) (beads st)\<rparr>"
    by (rule session_ended_Inr) (use p in auto)
  have at: "bead_at st' i = map_option (\<lambda>b.
        if b_status b = InProgress \<and> b_claimed_by b = Some (se_name p)
        then b\<lparr>b_status := Open, b_claimed_by := None, b_updated_ts := ev_ts ev\<rparr> else b) (bead_at st i)" for i
    by (rule bead_at_map_if) (auto simp: st' reopen_rows_def reopen_row_def)
  have free: "\<not> held_by st' i (se_name p)" for i
    using at [of i] by (cases "bead_at st i") (auto simp: held_by_iff split: if_splits)
  have "passed st' i = passed st i" for i
    using at [of i] by (rule passed_reopen) simp
  then have ready: "ready_spec st' i = (\<forall>d \<in> set (deps st). d_bead d = i \<longrightarrow> passed st (d_needs d))"
    if "held_by st i (se_name p)" for i
    using at [of i] that by (auto simp: ready_spec_def held_by_iff st')
  have crashed: "map_option s_status (session_at st' (se_name p)) = Some Crashed"
    using end_session_at [OF _ r, of st' ev Crashed] by (simp add: st')
  have "\<exists>err. fold_apply S st' e = Inl err"
    if "ev_kind e \<in> {SessionStopped, SessionCrashed}" "dec_session_end S (ev_data e) = Inr q"
      "se_name q = se_name p" for e q
    using ended_refused [OF crashed _ _ that(2,3)] that(1) by simp
  with at free ready crashed show ?thesis by blast
qed

definition demo_work :: "string event list" where
  "demo_work = [demo_event SessionWoke ''gc-1'' ''s|gc-1'', demo_event BeadClaimed ''gc-1'' ''s'']"

lemma demo_work_facts:
  "demo_accepts (demo_work @ [demo_event SessionCrashed ''gc-1'' ''s''])"
  "held_by (demo_state demo_work) ''gc-1'' ''s''"
  "list_all (\<lambda>d. d_bead d \<noteq> ''gc-1'') (deps (demo_state demo_work))"
  by code_simp+

lemma demo_end_payload:
  "dec_session_end demo (ev_data (demo_event k i d)) =
     Inr \<lparr>se_name = d, se_exit_code = None, se_signal = None, se_reason = None, se_cause_seq = None\<rparr>"
  by (simp add: demo_def demo_event_def demo_end_def)

theorem crash_reopens_witness:
  "ready_spec (demo_state (demo_work @ [demo_event SessionCrashed ''gc-1'' ''s''])) ''gc-1'' \<and>
   \<not> held_by (demo_state (demo_work @ [demo_event SessionCrashed ''gc-1'' ''s''])) ''gc-1'' ''s''"
  using crash_reopens_exactly [OF demo_state_step [OF demo_work_facts(1)] _ demo_end_payload]
    demo_work_facts(2,3)
  by (simp add: list_all_iff demo_event_def)

section \<open>The drain reservation\<close>

lemma meta_at_key: "meta_at st b k = map_option m_value (sql_find (\<lambda>m. meta_key m = (b, k)) (bead_meta st))"
  by (simp add: meta_at_def meta_key_def)

lemma upsert_meta_at:
  assumes "upsert_meta i k v st = Inr st'"
  shows "meta_at st' b k' = (if b = i \<and> k' = k then Some v else meta_at st b k')"
proof -
  define new :: meta_row where "new = \<lparr>m_bead = i, m_key = k, m_value = v\<rparr>"
  have rows: "bead_meta st' = sql_upsert meta_key (\<lambda>m. m\<lparr>m_value := v\<rparr>) new (bead_meta st)"
    and key: "meta_key new = (i, k)"
    using assms by (auto simp: upsert_meta_Inr new_def meta_key_def)
  show ?thesis
  proof (cases "(i, k) \<in> meta_key ` set (bead_meta st)")
    case True
    then have "bead_meta st' = map (\<lambda>m. if meta_key m = (i, k) then m\<lparr>m_value := v\<rparr> else m) (bead_meta st)"
      using rows key by (simp add: sql_upsert_def)
    then have upd: "sql_find (\<lambda>m. meta_key m = (b, k')) (bead_meta st')
        = map_option (\<lambda>m. if meta_key m = (i, k) then m\<lparr>m_value := v\<rparr> else m)
            (sql_find (\<lambda>m. meta_key m = (b, k')) (bead_meta st))"
      using meta_table.find_after_update [of "\<lambda>m. meta_key m = (i, k)" "\<lambda>m. m\<lparr>m_value := v\<rparr>" "(b, k')" st]
      by (simp add: meta_key_def)
    show ?thesis
    proof (cases "sql_find (\<lambda>m. meta_key m = (b, k')) (bead_meta st)")
      case None
      then have "(b, k') \<noteq> (i, k)" using True by (auto simp: sql_find_None)
      then show ?thesis using upd None by (auto simp: meta_at_key)
    next
      case (Some m)
      then have "meta_key m = (b, k')" by (auto dest: sql_find_SomeD)
      then show ?thesis using upd Some by (auto simp: meta_at_key)
    qed
  next
    case False
    then have "bead_meta st' = bead_meta st @ [new]" using rows key by (simp add: sql_upsert_def)
    then have app: "sql_find (\<lambda>m. meta_key m = (b, k')) (bead_meta st')
        = (case sql_find (\<lambda>m. meta_key m = (b, k')) (bead_meta st) of
             Some m \<Rightarrow> Some m | None \<Rightarrow> if meta_key new = (b, k') then Some new else None)"
      using meta_table.find_after_append [of "(b, k')" st new] by simp
    have "sql_find (\<lambda>m. meta_key m = (i, k)) (bead_meta st) = None"
      unfolding sql_find_None using False by (metis image_eqI)
    then show ?thesis
      using app key
      by (cases "(b, k') = (i, k)"; cases "sql_find (\<lambda>m. meta_key m = (b, k')) (bead_meta st)")
        (auto simp: meta_at_key new_def)
  qed
qed

lemma find_filter: "(\<And>x. p x \<Longrightarrow> q x) \<Longrightarrow> find p (filter q xs) = find p xs"
  by (induction xs) auto

lemma delete_meta_at:
  "meta_at (delete_meta i k st) b k' = (if b = i \<and> k' = k then None else meta_at st b k')"
proof (cases "b = i \<and> k' = k")
  case True
  then have "sql_find (\<lambda>m. m_bead m = b \<and> m_key m = k') (bead_meta (delete_meta i k st)) = None"
    by (auto simp: sql_find_None delete_meta_def)
  then show ?thesis using True by (simp add: meta_at_def)
next
  case False
  then have "sql_find (\<lambda>m. m_bead m = b \<and> m_key m = k') (bead_meta (delete_meta i k st))
      = sql_find (\<lambda>m. m_bead m = b \<and> m_key m = k') (bead_meta st)"
    unfolding sql_find_def delete_meta_def by (simp, intro find_filter) auto
  then show ?thesis unfolding if_not_P [OF False] by (simp add: meta_at_def)
qed

lemma write_meta_at:
  assumes "write_meta ev i k v st = Inr st'"
  shows "meta_at st' b k' = (if b = i \<and> k' = k then Some v else meta_at st b k')"
  using assms
  by (auto simp: write_meta_def split: option.splits if_splits dest!: upsert_meta_at [where b = b and k' = k'])

text \<open>A reservation is only written over by its own value.\<close>

lemma write_meta_reserved:
  assumes "write_meta ev i k v st = Inr st'" and "meta_at st b EXCLUSIVE_DRAIN_RESERVATION = Some h"
  shows "meta_at st' b EXCLUSIVE_DRAIN_RESERVATION = Some h"
proof (cases "b = i \<and> k = EXCLUSIVE_DRAIN_RESERVATION")
  case True
  then have "v = h" using assms by (auto simp: write_meta_def split: option.splits if_splits)
  then show ?thesis using write_meta_at [OF assms(1), of b EXCLUSIVE_DRAIN_RESERVATION] True by simp
next
  case False
  then show ?thesis using write_meta_at [OF assms(1), of b EXCLUSIVE_DRAIN_RESERVATION] assms(2) by auto
qed

lemma patch_meta_reserved:
  assumes "patch_meta ev i st kv = Inr st'" and "meta_at st b EXCLUSIVE_DRAIN_RESERVATION = Some h"
    and "\<not> (b = i \<and> kv = (EXCLUSIVE_DRAIN_RESERVATION, None))"
  shows "meta_at st' b EXCLUSIVE_DRAIN_RESERVATION = Some h"
  using assms
  by (auto simp: patch_meta_def delete_meta_at split: prod.splits option.splits intro: write_meta_reserved)

definition gives_up :: "'j serde \<Rightarrow> string \<Rightarrow> 'j event \<Rightarrow> bool" where
  "gives_up S b ev \<longleftrightarrow>
     ev_kind ev = BeadUpdated \<and> ev_bead ev = Some b \<and>
     (case dec_bead_updated S (ev_data ev) of
        Inl _ \<Rightarrow> False | Inr p \<Rightarrow> (EXCLUSIVE_DRAIN_RESERVATION, None) \<in> set (bu_metadata p))"

lemma only_deps_meta: "only_deps st st' \<Longrightarrow> bead_meta st' = bead_meta st"
  unfolding only_deps_def by (elim conjE, erule ssubst) simp

lemma bead_created_meta:
  assumes "bead_created S ev st = Inr st'"
  obtains i and p :: BeadCreated and st2 st3 where "bead_meta st2 = bead_meta st" and "bead_meta st' = bead_meta st3"
    and "foldM (\<lambda>s (k, v). write_meta ev i k v s) st2 (bc_metadata p) = Inr st3"
proof -
  from assms obtain i rig and p :: BeadCreated and st2 st3 where
    needs: "foldM (insert_need ev i)
        (st\<lparr>beads := beads st @ [new_bead S ev i rig p]\<rparr>) (bc_needs p) = Inr st2"
    and meta: "foldM (\<lambda>s (k, v). write_meta ev i k v s) st2 (bc_metadata p) = Inr st3"
    and bump: "bump_counter i (insert_search i Body
        (body_content (bc_title p) (bc_description p)) st3) = Inr st'"
    by (auto simp: bead_created_def split: option.splits)
  have "bead_meta st2 = bead_meta st" using only_deps_meta [OF needs_loop_only_deps [OF needs]] by simp
  moreover have "bead_meta st' = bead_meta st3"
    using bump by (auto elim!: bump_counter_Inr simp: insert_search_def)
  ultimately show thesis using that meta by blast
qed

lemma meta_at_same: "bead_meta st' = bead_meta st \<Longrightarrow> meta_at st' b k = meta_at st b k"
  by (simp add: meta_at_def)

lemma handler_meta:
  "bead_closed S ev st = Inr st' \<Longrightarrow> bead_meta st' = bead_meta st"
  "bead_claimed S ev st = Inr st' \<Longrightarrow> bead_meta st' = bead_meta st"
  "session_woke S ev st = Inr st' \<Longrightarrow> bead_meta st' = bead_meta st"
  "session_pid S ev st = Inr st' \<Longrightarrow> bead_meta st' = bead_meta st"
  "session_ended S ev new st = Inr st' \<Longrightarrow> bead_meta st' = bead_meta st"
  "dispatch_failed S ev st = Inr st' \<Longrightarrow> bead_meta st' = bead_meta st"
  "dispatch_rearmed S ev st = Inr st' \<Longrightarrow> bead_meta st' = bead_meta st"
  "permission_pending S ev st = Inr st' \<Longrightarrow> bead_meta st' = bead_meta st"
  "permission_decided S ev st = Inr st' \<Longrightarrow> bead_meta st' = bead_meta st"
          apply (erule bead_closed_beads, simp add: index_reason_def insert_search_def split: option.split)
         apply (erule bead_claimed_Inr, auto simp: clear_dispatch_failure_def)
        apply (erule session_woke_rows, assumption)
       apply (auto simp: session_pid_def split: if_splits)
      apply (erule session_ended_Inr, simp)
     apply (auto simp: dispatch_failed_def dispatch_rearmed_def permission_pending_def
      permission_decided_def split: if_splits)
  done

lemma reservation_step:
  assumes run: "fold_apply S st ev = Inr st'" and held: "meta_at st b EXCLUSIVE_DRAIN_RESERVATION = Some h"
    and keep: "\<not> gives_up S b ev"
  shows "meta_at st' b EXCLUSIVE_DRAIN_RESERVATION = Some h"
  using run
proof (rule fold_apply_cases)
  assume "bead_created S ev st = Inr st'"
  then show ?thesis
  proof (rule bead_created_meta)
    fix i st2 st3 and p :: BeadCreated
    assume same: "bead_meta st2 = bead_meta st" "bead_meta st' = bead_meta st3"
      and loop: "foldM (\<lambda>s (k, v). write_meta ev i k v s) st2 (bc_metadata p) = Inr st3"
    have "meta_at st3 b EXCLUSIVE_DRAIN_RESERVATION = Some h"
      using loop
      by (rule foldM_invariant [where P = "\<lambda>s. meta_at s b EXCLUSIVE_DRAIN_RESERVATION = Some h"])
        (use held meta_at_same [OF same(1)] write_meta_reserved in auto)
    then show ?thesis using meta_at_same [OF same(2)] by simp
  qed
next
  assume kind: "ev_kind ev = BeadUpdated" and "bead_updated S ev st = Inr st'"
  then obtain i p st1 where i: "ev_bead ev = Some i" and p: "dec_bead_updated S (ev_data ev) = Inr p"
    and loop: "foldM (patch_meta ev i) st (bu_metadata p) = Inr st1"
    and st': "bead_meta st' = bead_meta st1"
    by (auto simp: bead_updated_def)
  have "meta_at st1 b EXCLUSIVE_DRAIN_RESERVATION = Some h"
    using loop
  proof (rule foldM_invariant [where P = "\<lambda>s. meta_at s b EXCLUSIVE_DRAIN_RESERVATION = Some h"])
    fix s kv s'
    assume "kv \<in> set (bu_metadata p)" "meta_at s b EXCLUSIVE_DRAIN_RESERVATION = Some h"
      "patch_meta ev i s kv = Inr s'"
    then show "meta_at s' b EXCLUSIVE_DRAIN_RESERVATION = Some h"
      using patch_meta_reserved [of ev i s kv s' b h] keep kind i p by (auto simp: gives_up_def)
  qed (rule held)
  then show ?thesis using meta_at_same [OF st'] by simp
qed (use held in \<open>simp_all add: meta_at_same [OF handler_meta(1)] meta_at_same [OF handler_meta(2)]
  meta_at_same [OF handler_meta(3)] meta_at_same [OF handler_meta(4)] meta_at_same [OF handler_meta(5)]
  meta_at_same [OF handler_meta(6)] meta_at_same [OF handler_meta(7)] meta_at_same [OF handler_meta(8)]
  meta_at_same [OF handler_meta(9)]\<close>)

lemma reservation_refuses:
  assumes held: "meta_at st b EXCLUSIVE_DRAIN_RESERVATION = Some h" and "\<not> gives_up S b e"
    and "ev_kind e = BeadUpdated" and "ev_bead e = Some b"
    and p: "dec_bead_updated S (ev_data e) = Inr p"
    and "(EXCLUSIVE_DRAIN_RESERVATION, Some v) \<in> set (bu_metadata p)" and "v \<noteq> h"
  shows "\<exists>err. fold_apply S st e = Inl err"
proof -
  have none: "(EXCLUSIVE_DRAIN_RESERVATION, None) \<notin> set (bu_metadata p)"
    using assms(2-5) by (simp add: gives_up_def)
  have "foldM (patch_meta e b) st (bu_metadata p) \<noteq> Inr st1" for st1
  proof
    assume loop: "foldM (patch_meta e b) st (bu_metadata p) = Inr st1"
    obtain xs ys where split: "bu_metadata p = xs @ (EXCLUSIVE_DRAIN_RESERVATION, Some v) # ys"
      using split_list [OF assms(6)] by blast
    with loop obtain s1 s2 where s1: "foldM (patch_meta e b) st xs = Inr s1"
      and s2: "patch_meta e b s1 (EXCLUSIVE_DRAIN_RESERVATION, Some v) = Inr s2"
      by (auto simp: foldM_append)
    have "meta_at s1 b EXCLUSIVE_DRAIN_RESERVATION = Some h"
      using s1
    proof (rule foldM_invariant [where P = "\<lambda>s. meta_at s b EXCLUSIVE_DRAIN_RESERVATION = Some h"])
      fix s kv s'
      assume "kv \<in> set xs" "meta_at s b EXCLUSIVE_DRAIN_RESERVATION = Some h" "patch_meta e b s kv = Inr s'"
      then show "meta_at s' b EXCLUSIVE_DRAIN_RESERVATION = Some h"
        using patch_meta_reserved [of e b s kv s' b h] none split by auto
    qed (rule held)
    then show False using s2 assms(7)
      by (auto simp: patch_meta_def write_meta_def split: option.splits)
  qed
  then have "fold_apply S st e \<noteq> Inr st'" for st'
    using assms(3,4) p by (auto simp: fold_apply_def bead_updated_def)
  then show ?thesis by (cases "fold_apply S st e") auto
qed

text \<open>
  C29. The drain reservation is exclusive: once a bead holds one, it keeps the same holder through
  every sequence of accepted events that does not clear the key, and an update that would name
  another holder is refused.
\<close>

theorem drain_reservation_is_exclusive:
  assumes run: "foldM (fold_apply S) st evs = Inr st'"
    and held: "meta_at st b EXCLUSIVE_DRAIN_RESERVATION = Some h"
    and keep: "\<forall>e \<in> set evs. \<not> gives_up S b e"
  shows "meta_at st' b EXCLUSIVE_DRAIN_RESERVATION = Some h \<and>
    (\<forall>e p v. ev_kind e = BeadUpdated \<longrightarrow> ev_bead e = Some b \<longrightarrow> dec_bead_updated S (ev_data e) = Inr p \<longrightarrow>
       \<not> gives_up S b e \<longrightarrow> (EXCLUSIVE_DRAIN_RESERVATION, Some v) \<in> set (bu_metadata p) \<longrightarrow> v \<noteq> h \<longrightarrow>
       (\<exists>err. fold_apply S st' e = Inl err))"
proof -
  have "meta_at st' b EXCLUSIVE_DRAIN_RESERVATION = Some h"
    using run
    by (rule foldM_invariant [where P = "\<lambda>s. meta_at s b EXCLUSIVE_DRAIN_RESERVATION = Some h"])
      (use held keep reservation_step in blast)+
  then show ?thesis using reservation_refuses by blast
qed

definition demo_reserve :: "string event list" where
  "demo_reserve = [demo_event BeadUpdated ''gc-1'' ''gc.exclusive_drain_reservation|d1'']"

lemma demo_reserve_facts:
  "demo_accepts (demo_reserve @ demo_hold)"
  "meta_at (demo_state demo_reserve) ''gc-1'' EXCLUSIVE_DRAIN_RESERVATION = Some ''d1''"
  "list_all (\<lambda>e. \<not> gives_up demo ''gc-1'' e) demo_hold"
  "\<not> gives_up demo ''gc-1'' (demo_event BeadUpdated ''gc-1'' ''gc.exclusive_drain_reservation|d2'')"
  "bar ''gc.exclusive_drain_reservation|d2'' = (EXCLUSIVE_DRAIN_RESERVATION, Some ''d2'')"
  by code_simp+

lemma demo_updated_payload:
  "dec_bead_updated demo (ev_data (demo_event k i d)) =
     Inr \<lparr>bu_title = None, bu_description = None, bu_metadata = [bar d]\<rparr>"
  by (simp add: demo_def demo_event_def demo_updated_def)

theorem drain_reservation_witness:
  "meta_at (demo_state (demo_reserve @ demo_hold)) ''gc-1'' EXCLUSIVE_DRAIN_RESERVATION = Some ''d1'' \<and>
   (\<exists>err. fold_apply demo (demo_state (demo_reserve @ demo_hold))
      (demo_event BeadUpdated ''gc-1'' ''gc.exclusive_drain_reservation|d2'') = Inl err)"
proof -
  have keep: "\<forall>e \<in> set demo_hold. \<not> gives_up demo ''gc-1'' e"
    using demo_reserve_facts(3) by (simp add: list_all_iff)
  have "ev_kind (demo_event BeadUpdated ''gc-1'' d) = BeadUpdated"
    "ev_bead (demo_event BeadUpdated ''gc-1'' d) = Some ''gc-1''" for d
    by (simp_all add: demo_event_def)
  then show ?thesis
    using drain_reservation_is_exclusive [OF demo_state_run [OF demo_reserve_facts(1)] demo_reserve_facts(2) keep]
      demo_updated_payload [of BeadUpdated "''gc-1''" "''gc.exclusive_drain_reservation|d2''"]
      demo_reserve_facts(4,5)
    by (auto simp: demo_reserve_facts(5))
qed

section \<open>The metadata of a bead\<close>

definition column_of :: "bead \<Rightarrow> string \<Rightarrow> string option" where
  "column_of b k =
     (if k = ''gc.routed_to'' then b_assignee b
      else if k = ''gc.work_branch'' then b_work_branch b
      else if k = ''gc.final_disposition'' then b_final_disposition b
      else None)"

lemma projected_keys:
  "projected_key k \<longleftrightarrow> k = ''gc.routed_to'' \<or> k = ''gc.work_branch'' \<or> k = ''gc.final_disposition''"
  by (auto simp: projected_key_def PROJECTED_METADATA_def)

lemma project_columns:
  "foldM (\<lambda>m (key, column). rbind (column_value b column) (\<lambda>v.
      Inr (case v of None \<Rightarrow> m | Some value \<Rightarrow> m(key \<mapsto> value)))) m PROJECTED_METADATA
   = Inr (\<lambda>k. case column_of b k of None \<Rightarrow> m k | Some v \<Rightarrow> Some v)"
  by (auto simp: PROJECTED_METADATA_def column_value_def column_of_def fun_eq_iff split: option.split)

lemma fold_rows_map:
  assumes "distinct (map m_key rs)"
  shows "foldl (\<lambda>m r. m(m_key r \<mapsto> m_value r)) m0 rs k =
    (case find (\<lambda>r. m_key r = k) rs of None \<Rightarrow> m0 k | Some r \<Rightarrow> Some (m_value r))"
  using assms
proof (induction rs arbitrary: m0)
  case (Cons r rs)
  have "find (\<lambda>x. m_key x = m_key r) rs = None"
    unfolding find_None_iff using Cons.prems by (metis distinct.simps(2) image_eqI list.simps(9) set_map)
  then show ?case using Cons by (auto split: option.split)
qed simp

lemma find_filter_and: "find p (filter q xs) = find (\<lambda>x. q x \<and> p x) xs"
  by (induction xs) auto

lemma bead_metadata_eq:
  assumes wf: "wf_state st"
  shows "bead_metadata st i = Inr (\<lambda>k. case Option.bind (bead_at st i) (\<lambda>b. column_of b k) of
    None \<Rightarrow> meta_at st i k | Some v \<Rightarrow> Some v)"
proof -
  have "distinct (map meta_key (bead_meta st))"
    using wf by (simp add: wf_state_def meta_ok_def table_ok_def)
  then have "distinct (map meta_key (filter (\<lambda>r. m_bead r = i) (bead_meta st)))"
    by (simp add: distinct_map_filter)
  moreover have "map meta_key (filter (\<lambda>r. m_bead r = i) rs) = map (Pair i) (map m_key (filter (\<lambda>r. m_bead r = i) rs))" for rs
    by (induction rs) (simp_all add: meta_key_def)
  ultimately have "distinct (map m_key (filter (\<lambda>r. m_bead r = i) (bead_meta st)))"
    by (simp only: distinct_map)
  then have rows: "foldl (\<lambda>m r. m(m_key r \<mapsto> m_value r)) Map.empty (filter (\<lambda>r. m_bead r = i) (bead_meta st))
      = meta_at st i"
    by (auto simp: fold_rows_map fun_eq_iff meta_at_def sql_find_def find_filter_and split: option.split)
  show ?thesis
    by (cases "bead_at st i") (simp_all add: bead_metadata_def rows project_columns)
qed

lemma patch_loop_at:
  assumes "foldM (patch_meta ev i) st kvs = Inr st'" and "distinct (map fst kvs)"
  shows "meta_at st' i k = (case map_of kvs k of None \<Rightarrow> meta_at st i k | Some v \<Rightarrow> v)"
  using assms
proof (induction kvs arbitrary: st)
  case (Cons kv kvs)
  obtain key v where kv: "kv = (key, v)" by (cases kv)
  from Cons.prems obtain s1 where s1: "patch_meta ev i st kv = Inr s1"
    and rest: "foldM (patch_meta ev i) s1 kvs = Inr st'" by auto
  have at: "meta_at s1 i k = (if k = key then v else meta_at st i k)"
    using s1 by (cases v) (auto simp: kv patch_meta_def delete_meta_at dest: write_meta_at [where b = i and k' = k])
  have "map_of kvs key = None" using Cons.prems(2) by (simp add: kv map_of_eq_None_iff)
  then show ?case
    using Cons.IH [OF rest] Cons.prems(2) at by (auto simp: kv split: option.split)
qed simp

lemma column_of_projected: "column_of b k \<noteq> None \<Longrightarrow> projected_key k"
  by (auto simp: column_of_def projected_keys split: if_splits)

lemma projected_no_row:
  assumes "wf_state st" and "projected_key k"
  shows "meta_at st i k = None"
proof -
  have "sql_find (\<lambda>m. m_bead m = i \<and> m_key m = k) (bead_meta st) = None"
    unfolding sql_find_None using assms by (auto simp: wf_state_def meta_ok_def list_all_iff)
  then show ?thesis by (simp add: meta_at_def)
qed

text \<open>
  C30. Metadata reads back as written: an accepted update of a bead changes, in the projected map,
  exactly the keys it names (a value sets, \<open>None\<close> unsets), except the keys that are columns of the
  bead, which always show the column.
\<close>

theorem metadata_reads_back:
  assumes wf: "wf_state st" and run: "fold_apply S st ev = Inr st'"
    and kind: "ev_kind ev = BeadUpdated" and i: "ev_bead ev = Some i"
    and p: "dec_bead_updated S (ev_data ev) = Inr p" and dist: "distinct (map fst (bu_metadata p))"
  shows "\<exists>m m'. bead_metadata st i = Inr m \<and> bead_metadata st' i = Inr m' \<and>
    (\<forall>k. m' k = (if projected_key k then m k
                 else case map_of (bu_metadata p) k of None \<Rightarrow> m k | Some v \<Rightarrow> v))"
proof -
  have upd: "bead_updated S ev st = Inr st'" using run kind by (simp add: fold_apply_def)
  then obtain st1 where loop: "foldM (patch_meta ev i) st (bu_metadata p) = Inr st1"
    and meta: "bead_meta st' = bead_meta st1"
    using i p by (auto simp: bead_updated_def)
  have rows: "beads st' = map (\<lambda>b. if b_id b = i then patch_row ev p b else b) (beads st)"
    using upd i p by (auto elim!: bead_updated_beads)
  have col: "Option.bind (bead_at st' i) (\<lambda>b. column_of b k) = Option.bind (bead_at st i) (\<lambda>b. column_of b k)" for k
    using bead_at_map_if [OF rows, of i]
    by (cases "bead_at st i") (auto simp: patch_row_def column_of_def)
  have at: "meta_at st' i k = (case map_of (bu_metadata p) k of None \<Rightarrow> meta_at st i k | Some v \<Rightarrow> v)" for k
    using patch_loop_at [OF loop dist, of k] meta_at_same [OF meta] by simp
  have wf': "wf_state st'" by (rule fold_apply_wf [OF wf run])
  have none: "Option.bind (bead_at st i) (\<lambda>b. column_of b k) = None" if "\<not> projected_key k" for k
    using that column_of_projected by (cases "bead_at st i") (auto simp flip: not_None_eq)
  show ?thesis
    unfolding bead_metadata_eq [OF wf] bead_metadata_eq [OF wf'] col
  proof (rule exI, rule exI, rule conjI, rule refl, rule conjI, rule refl, rule allI)
    fix k
    show "(case Option.bind (bead_at st i) (\<lambda>b. column_of b k) of None \<Rightarrow> meta_at st' i k | Some v \<Rightarrow> Some v)
        = (if projected_key k
           then case Option.bind (bead_at st i) (\<lambda>b. column_of b k) of None \<Rightarrow> meta_at st i k | Some v \<Rightarrow> Some v
           else case map_of (bu_metadata p) k of
             None \<Rightarrow> case Option.bind (bead_at st i) (\<lambda>b. column_of b k) of None \<Rightarrow> meta_at st i k | Some v \<Rightarrow> Some v
           | Some v \<Rightarrow> v)"
    proof (cases "projected_key k")
      case True
      then show ?thesis by (simp add: projected_no_row [OF wf True] projected_no_row [OF wf' True] split: option.split)
    next
      case False
      then show ?thesis by (simp add: none [OF False] at split: option.split)
    qed
  qed
qed

lemma demo_metadata_facts: "demo_accepts ([] @ [demo_event BeadUpdated ''gc-1'' ''k|v''])"
  by code_simp

theorem metadata_reads_back_witness:
  "\<exists>m. bead_metadata (demo_state [demo_event BeadUpdated ''gc-1'' ''k|v'']) ''gc-1'' = Inr m \<and>
       m ''k'' = Some ''v''"
proof -
  have "bar ''k|v'' = (''k'', Some ''v'')" "\<not> projected_key ''k''" by code_simp+
  then show ?thesis
    using metadata_reads_back [OF demo_state_wf [OF demo_accepts_all(1)]
        demo_state_step [OF demo_metadata_facts, unfolded append_Nil] _ _ demo_updated_payload, of "''gc-1''"]
    by (auto simp: demo_event_def)
qed

section \<open>New ids\<close>

lemma covered_bound:
  assumes "wf_state st" and "i \<in> ids st" and "parse_bead_id i = Some (p, n)"
  shows "\<exists>h. counter_at st p = Some h \<and> n \<le> h"
proof -
  have "covered (counters st) i" using assms(1,2) by (simp add: wf_state_def counters_ok_def)
  then show ?thesis using assms(3) by (auto simp: covered_def counter_at_of split: option.splits)
qed

lemma counter_range:
  assumes "wf_state st" and "counter_at st p = Some h"
  shows "0 \<le> h \<and> h \<le> i64_max"
  using assms
  by (auto simp: wf_state_def counters_ok_def list_all_iff counter_at_def dest!: sql_find_SomeD)

lemma next_bead_id_new:
  assumes wf: "wf_state st" and run: "next_bead_id st p = Inr i" and room: "counter_at st p \<noteq> Some i64_max"
  obtains n where "parse_bead_id i = Some (p, n)" and "i \<notin> ids st"
    and "\<And>j k. j \<in> ids st \<Longrightarrow> parse_bead_id j = Some (p, k) \<Longrightarrow> k < n"
proof -
  define h where "h = (case counter_at st p of None \<Rightarrow> 0 | Some h \<Rightarrow> h)"
  have h: "0 \<le> h" "h < i64_max"
    using counter_range [OF wf, of p] room
    by (auto simp: h_def i64_max_def split: option.splits dest: le_imp_less_or_eq)
  have p: "prefix_ok p" and i: "i = format_bead_id p (h + 1)"
    using run h by (auto simp: next_bead_id_def h_def [symmetric] i64_wrap_id i64_min_def)
  have parse: "parse_bead_id i = Some (p, h + 1)"
    unfolding i by (rule parse_format_bead_id) (use p h in auto)
  have above: "k < h + 1" if "j \<in> ids st" "parse_bead_id j = Some (p, k)" for j k
    using covered_bound [OF wf that] by (auto simp: h_def)
  have "i \<notin> ids st" using above [OF _ parse] by auto
  then show thesis using that parse above by blast
qed

text \<open>
  An allocated id is new: short of an exhausted counter, \<open>next_bead_id\<close> succeeds exactly for
  a valid prefix, and gives a well-formed id of that prefix whose number is above the number of
  every bead with the prefix, so no bead has it.
\<close>

theorem next_bead_id_is_fresh:
  assumes wf: "wf_state st" and room: "counter_at st p \<noteq> Some i64_max"
  shows "if prefix_ok p
    then \<exists>i n. next_bead_id st p = Inr i \<and> parse_bead_id i = Some (p, n) \<and> i \<notin> ids st \<and>
         (\<forall>j \<in> ids st. \<forall>k. parse_bead_id j = Some (p, k) \<longrightarrow> k < n)
    else next_bead_id st p = Inl (InvalidPrefix p)"
proof (cases "prefix_ok p")
  case True
  then obtain i where i: "next_bead_id st p = Inr i" by (auto simp: next_bead_id_def validate_prefix_def)
  then show ?thesis using True next_bead_id_new [OF wf i room] by (simp, metis)
next
  case False
  then show ?thesis by (simp add: next_bead_id_def validate_prefix_def)
qed

theorem next_bead_id_witness:
  "\<exists>i n. next_bead_id (demo_state []) ''gc'' = Inr i \<and> parse_bead_id i = Some (''gc'', n) \<and>
         i \<notin> ids (demo_state [])"
proof -
  have "counter_at (demo_state []) ''gc'' \<noteq> Some i64_max" "prefix_ok ''gc''" by code_simp+
  then show ?thesis
    using next_bead_id_is_fresh [OF demo_state_wf [OF demo_accepts_all(1)], of "''gc''"] by auto
qed

text \<open>
  The counter wraps: when the highest number of a prefix is the greatest \<open>i64\<close>, which a
  \<open>bead.created\<close> may name, \<open>next_bead_id\<close> still succeeds and gives an id that no accepted
  \<open>bead.created\<close> can carry.
\<close>

theorem next_bead_id_wraps:
  assumes "prefix_ok p" and "counter_at st p = Some i64_max"
  shows "next_bead_id st p = Inr (p @ ''--9223372036854775808'') \<and>
    parse_bead_id (p @ ''--9223372036854775808'') = None \<and>
    (\<forall>S ev. ev_kind ev = BeadCreated \<longrightarrow> ev_bead ev = Some (p @ ''--9223372036854775808'') \<longrightarrow>
       (\<exists>err. fold_apply S st ev = Inl err))"
proof -
  have "show_int (- 9223372036854775808) = ''-9223372036854775808''"
    using show_nat_dec_value [of "''9223372036854775808''"]
    by (simp add: show_int_def dec_value_def digit_value_def is_digit_def byte_def)
  moreover have "i64_wrap (i64_max + 1) = - 9223372036854775808"
    by (simp add: i64_wrap_def i64_max_def i64_min_def)
  ultimately have "next_bead_id st p = Inr (p @ ''--9223372036854775808'')"
    using assms by (simp add: next_bead_id_def validate_prefix_def format_bead_id_def)
  moreover have none: "parse_bead_id (p @ ''--9223372036854775808'') = None"
  proof (rule ccontr)
    assume "parse_bead_id (p @ ''--9223372036854775808'') \<noteq> None"
    then obtain q n where "parse_bead_id (p @ ''--9223372036854775808'') = Some (q, n)" by auto
    then obtain num where q: "p @ ''--9223372036854775808'' = q @ CHR ''-'' # num" "prefix_ok q"
      and digits: "list_all is_digit num" by (auto simp: parse_bead_id_Some)
    have "split_once CHR ''-'' (p @ ''--9223372036854775808'') = Some (p, ''-9223372036854775808'')"
      using assms(1) by (simp add: split_once_iff hyphen_not_in_prefix)
    moreover have "split_once CHR ''-'' (q @ CHR ''-'' # num) = Some (q, num)"
      using q(2) by (simp add: split_once_iff hyphen_not_in_prefix)
    ultimately have "num = ''-9223372036854775808''" unfolding q(1) by simp
    then show False using digits by (simp add: is_digit_def byte_def)
  qed
  moreover have "\<exists>err. fold_apply S st ev = Inl err"
    if ev: "ev_kind ev = BeadCreated" "ev_bead ev = Some (p @ ''--9223372036854775808'')" for S ev
  proof -
    have "fold_apply S st ev \<noteq> Inr st'" for st'
    proof
      assume "fold_apply S st ev = Inr st'"
      then have "bead_created S ev st = Inr st'" using ev by (simp add: fold_apply_def)
      then show False by (rule bead_created_Inr) (use ev none in \<open>auto simp: bump_counter_def\<close>)
    qed
    then show ?thesis by (cases "fold_apply S st ev") auto
  qed
  ultimately show ?thesis by blast
qed

definition demo_last :: state where
  "demo_last = empty_state\<lparr>counters := [\<lparr>c_prefix = ''gc'', c_high = i64_max\<rparr>]\<rparr>"

theorem next_bead_id_wraps_witness:
  "bump_counter (format_bead_id ''gc'' i64_max) empty_state = Inr demo_last \<and>
   next_bead_id demo_last ''gc'' = Inr ''gc--9223372036854775808''"
proof -
  have gc: "prefix_ok ''gc''" by code_simp
  moreover have "counter_at demo_last ''gc'' = Some i64_max"
    by (simp add: counter_at_def demo_last_def sql_find_def)
  moreover have "bump_counter (format_bead_id ''gc'' i64_max) empty_state = Inr demo_last"
    using parse_format_bead_id [OF gc, of i64_max]
    by (simp add: bump_counter_def i64_max_def demo_last_def sql_upsert_def empty_state_def)
  ultimately show ?thesis using next_bead_id_wraps [of "''gc''" demo_last, THEN conjunct1] by simp
qed

end
