(* ===== verification/Progress.thy ===== *)
theory Progress
  imports Effects
begin

text \<open>
  Readiness and dispatch over time, the answers to permission requests, and which errors the
  storage layer can raise (\<^verbatim>\<open>crates/camp-core/src/readiness.rs\<close>, \<^verbatim>\<open>ledger/fold.rs\<close>).
\<close>

section \<open>Readiness\<close>

text \<open>
  \<open>is_ready\<close> decides readiness: on a known bead it gives true exactly when the bead is open
  and every bead it needs exists, is closed and passed, and on an unknown id it is the error
  \<open>UnknownBead\<close>.
\<close>

theorem is_ready_decides:
  "is_ready st i = (if i \<in> ids st then Inr (ready_spec st i) else Inl (UnknownBead i))"
proof (cases "is_ready st i")
  case (Inl e)
  then show ?thesis using is_ready_Inl [of st i e] by simp
next
  case (Inr r)
  then have "i \<in> ids st" using is_ready_Inl [of st i "UnknownBead i"] by auto
  then show ?thesis using Inr is_ready_iff [of st i] by (cases r) auto
qed

lemma stays_open:
  assumes wf: "wf_state st" and run: "foldM (fold_apply S) st evs = Inr st'"
    and ready: "\<forall>d \<in> set (deps st). d_bead d = i \<longrightarrow> passed st (d_needs d)" and i: "i \<in> ids st"
  shows "i \<in> ids st' \<and> (\<forall>d \<in> set (deps st'). d_bead d = i \<longrightarrow> passed st' (d_needs d))"
  using run wf
proof (rule fold_run_invariant [where P = "\<lambda>s. i \<in> ids s \<and> (\<forall>d \<in> set (deps s). d_bead d = i \<longrightarrow> passed s (d_needs d))"])
  fix s :: state and ev s'
  assume w: "wf_state s" and go: "fold_apply S s ev = Inr s'"
    and P: "i \<in> ids s \<and> (\<forall>d \<in> set (deps s). d_bead d = i \<longrightarrow> passed s (d_needs d))"
  have "i \<in> ids s'"
  proof -
    have "bead_at s i \<noteq> None" using P bead_at_None by (simp add: ids_def)
    then have "bead_at s' i \<noteq> None" using fold_apply_at [OF w go, of i] by (cases "bead_at s' i") auto
    then show ?thesis using bead_at_None by (simp add: ids_def)
  qed
  then show "i \<in> ids s' \<and> (\<forall>d \<in> set (deps s'). d_bead d = i \<longrightarrow> passed s' (d_needs d))"
    using P fold_apply_passed [OF w go] fold_apply_needs [OF go] by (auto simp: same_needs_def)
qed (use ready i in simp)

text \<open>
  C31. Readiness is stable: a ready bead stays ready through every sequence of accepted events
  after which it is still open.
\<close>

theorem ready_is_stable:
  assumes "wf_state st" and "foldM (fold_apply S) st evs = Inr st'"
    and ready: "is_ready st i = Inr True"
    and still: "map_option b_status (bead_at st' i) = Some Open"
  shows "is_ready st' i = Inr True"
proof -
  have spec: "ready_spec st i" using ready by (simp add: is_ready_iff)
  then have "i \<in> ids st" using bead_at_Some by (fastforce simp: ready_spec_def ids_def)
  then show ?thesis
    using stays_open [OF assms(1,2), of i] spec still by (auto simp: is_ready_iff ready_spec_def)
qed

lemma demo_stable_facts:
  "demo_accepts (demo_finish @ [demo_event DispatchFailed ''gc-2'' ''no agent''])"
  "is_ready (demo_state demo_finish) ''gc-2'' = Inr True"
  "map_option b_status (bead_at (demo_state (demo_finish @ [demo_event DispatchFailed ''gc-2'' ''no agent''])) ''gc-2'') = Some Open"
  by code_simp+

theorem ready_is_stable_witness:
  "is_ready (demo_state (demo_finish @ [demo_event DispatchFailed ''gc-2'' ''no agent''])) ''gc-2'' = Inr True"
  by (rule ready_is_stable [OF demo_state_wf [OF demo_finish_facts(1)] demo_state_run [OF demo_stable_facts(1)]
        demo_stable_facts(2,3)])

text \<open>
  \<open>camp ready\<close> lists exactly the ready beads of the rig, each once and oldest first, and what
  campd dispatches is among the ready beads of the town.
\<close>

theorem ready_rows_exact:
  assumes "wf_state st"
  shows "set (map b_id (ready_rows st rig)) =
      {i. ready_spec st i \<and> (\<exists>b. bead_at st i = Some b \<and> (case rig of None \<Rightarrow> True | Some r \<Rightarrow> b_rig b = r))} \<and>
    distinct (map b_id (ready_rows st rig)) \<and>
    sorted (map (\<lambda>b. (b_created_ts b, b_id b)) (ready_rows st rig)) \<and>
    set (map b_id (dispatchable_rows st)) \<subseteq> {i. is_ready st i = Inr True}"
proof (intro conjI)
  note mem = ready_rows_set [OF wf_beads_table [OF assms]]
  show "set (map b_id (ready_rows st rig)) =
      {i. ready_spec st i \<and> (\<exists>b. bead_at st i = Some b \<and> (case rig of None \<Rightarrow> True | Some r \<Rightarrow> b_rig b = r))}"
    (is "?L = ?R")
  proof
    show "?L \<subseteq> ?R" by (auto simp: mem)
    show "?R \<subseteq> ?L"
    proof
      fix i
      assume "i \<in> ?R"
      then obtain b where "ready_spec st i" "bead_at st i = Some b"
        "case rig of None \<Rightarrow> True | Some r \<Rightarrow> b_rig b = r" by blast
      then have "b \<in> set (ready_rows st rig)" and "b_id b = i"
        using bead_at_Some by (auto simp: mem)
      then show "i \<in> ?L" by auto
    qed
  qed
  show "distinct (map b_id (ready_rows st rig))"
    unfolding ready_rows_def
    by (rule distinct_oldest_first) (use assms in \<open>simp add: wf_state_def beads_ok_def\<close>)
  show "sorted (map (\<lambda>b. (b_created_ts b, b_id b)) (ready_rows st rig))"
    by (simp add: ready_rows_def oldest_first_def)
  show "set (map b_id (dispatchable_rows st)) \<subseteq> {i. is_ready st i = Inr True}"
    using dispatchable_ready [of st] ready_rows_set [OF wf_beads_table [OF assms], where rig = None]
    by (auto simp: is_ready_iff)
qed

theorem ready_rows_witness:
  "set (map b_id (ready_rows (demo_state []) None)) =
     {i. ready_spec (demo_state []) i \<and> (\<exists>b. bead_at (demo_state []) i = Some b)} \<and>
   map b_id (ready_rows (demo_state []) None) = [''gc-1'']"
proof -
  have "map b_id (ready_rows (demo_state []) None) = [''gc-1'']" by code_simp
  then show ?thesis
    using ready_rows_exact [OF demo_state_wf [OF demo_accepts_all(1)], of None] by simp
qed

section \<open>A close makes its dependents ready\<close>

lemma close_rows:
  assumes "bead_closed S ev st = Inr st'"
  obtains i p b where "ev_bead ev = Some i" and "bead_at st i = Some b" and "b_status b \<noteq> Closed"
    and "bead_at st' i = Some (close_row ev p b)" and "deps st' = deps st"
    and "\<And>j. j \<noteq> i \<Longrightarrow> bead_at st' j = bead_at st j"
  using assms
proof (rule bead_closed_beads)
  fix i p s
  assume i: "ev_bead ev = Some i" and s: "bead_status st i = Some s" "s \<noteq> Closed"
    and st': "st' = index_reason i (bx_reason p)
           (st\<lparr>beads := map (\<lambda>b. if b_id b = i then close_row ev p b else b) (beads st)\<rparr>)"
  from s obtain b where b: "bead_at st i = Some b" "b_status b \<noteq> Closed"
    by (auto simp: bead_status_def)
  have rows: "beads st' = map (\<lambda>b. if b_id b = i then close_row ev p b else b) (beads st)"
    by (simp add: st')
  have at: "bead_at st' j = map_option (\<lambda>b. if b_id b = i then close_row ev p b else b) (bead_at st j)" for j
    by (rule bead_at_map_if [OF rows]) (simp add: close_row_def)
  have "bead_at st' i = Some (close_row ev p b)" using at [of i] b bead_at_Some [OF b(1)] by simp
  moreover have "bead_at st' j = bead_at st j" if "j \<noteq> i" for j
    using at [of j] that bead_at_Some [of st j] by (cases "bead_at st j") auto
  moreover have "deps st' = deps st" by (rule bead_closed_deps [OF assms])
  ultimately show thesis using that i b by blast
qed

lemma close_ready_change:
  assumes "bead_closed S ev st = Inr st'" and "ev_bead ev = Some i"
  shows "ready_spec st' j \<and> \<not> ready_spec st j \<longleftrightarrow>
    ready_spec st' j \<and> (\<exists>d \<in> set (deps st'). d_bead d = j \<and> d_needs d = i)"
  using assms(1)
proof (rule close_rows)
  fix i' p b
  assume "ev_bead ev = Some i'" and b: "bead_at st i' = Some b" "b_status b \<noteq> Closed"
    and closed: "bead_at st' i' = Some (close_row ev p b)" and deps: "deps st' = deps st"
    and other: "\<And>j. j \<noteq> i' \<Longrightarrow> bead_at st' j = bead_at st j"
  then have [simp]: "i' = i" using assms(2) by simp
  have "\<not> ready_spec st' i" using closed by (simp add: ready_spec_def close_row_def)
  moreover have "\<not> passed st i" using b by (simp add: passed_def)
  moreover have "passed st' k = passed st k" if "k \<noteq> i" for k using other that by (simp add: passed_def)
  moreover have "bead_at st' j = bead_at st j" if "j \<noteq> i" using other that by simp
  ultimately show ?thesis
    by (cases "j = i") (auto simp: ready_spec_def deps)
qed

text \<open>
  What a close makes ready is computed exactly: after an accepted \<open>bead.closed\<close>,
  \<open>newly_ready\<close> of the bead lists, sorted and without repetition, the beads that are ready now and
  were not ready before.
\<close>

theorem newly_ready_exact:
  assumes wf: "wf_state st" and run: "fold_apply S st ev = Inr st'"
    and kind: "ev_kind ev = BeadClosed" and i: "ev_bead ev = Some i"
  shows "\<exists>ds. newly_ready st' i = Inr ds \<and> sorted ds \<and> distinct ds \<and>
    set ds = {d. ready_spec st' d \<and> \<not> ready_spec st d}"
proof -
  have closed: "bead_closed S ev st = Inr st'" using run kind by (simp add: fold_apply_def)
  have ok: "deps_ok (ids st') (deps st')"
    using fold_apply_wf [OF wf run] by (simp add: wf_state_def)
  show ?thesis
    unfolding newly_ready_eq [OF ok] close_ready_change [OF closed i]
    by (rule exI, rule conjI, rule refl) (auto intro!: sorted_wrt_filter)
qed

lemma demo_finish_split:
  "demo_accepts ([demo_event BeadClaimed ''gc-1'' ''s''] @ [demo_event BeadClosed ''gc-1'' ''pass''])"
  "newly_ready (demo_state ([demo_event BeadClaimed ''gc-1'' ''s''] @ [demo_event BeadClosed ''gc-1'' ''pass''])) ''gc-1''
    = Inr [''gc-2'']"
  "demo_accepts [demo_event BeadClaimed ''gc-1'' ''s'']"
  by code_simp+

theorem newly_ready_witness:
  "\<not> ready_spec (demo_state [demo_event BeadClaimed ''gc-1'' ''s'']) ''gc-2'' \<and>
   ready_spec (demo_state ([demo_event BeadClaimed ''gc-1'' ''s''] @ [demo_event BeadClosed ''gc-1'' ''pass''])) ''gc-2''"
proof -
  obtain ds where ds: "newly_ready (demo_state ([demo_event BeadClaimed ''gc-1'' ''s''] @
      [demo_event BeadClosed ''gc-1'' ''pass''])) ''gc-1'' = Inr ds"
    and set_ds: "set ds = {d. ready_spec (demo_state ([demo_event BeadClaimed ''gc-1'' ''s''] @
      [demo_event BeadClosed ''gc-1'' ''pass''])) d \<and> \<not> ready_spec (demo_state [demo_event BeadClaimed ''gc-1'' ''s'']) d}"
    using newly_ready_exact [OF demo_state_wf [OF demo_finish_split(3)] demo_state_step [OF demo_finish_split(1)], of "''gc-1''"]
    by (auto simp: demo_event_def)
  have "''gc-2'' \<in> set ds" using ds demo_finish_split(2) by simp
  then show ?thesis unfolding set_ds by simp
qed

section \<open>Dispatch failures\<close>

definition dispatchable :: "state \<Rightarrow> string \<Rightarrow> bool" where
  "dispatchable st i = list_ex (\<lambda>b. b_id b = i) (dispatchable_rows st)"

text \<open>Everything but the failure mark.\<close>

definition eligible :: "state \<Rightarrow> string \<Rightarrow> bool" where
  "eligible st i \<longleftrightarrow>
     (\<exists>b. bead_at st i = Some b \<and> is_task b \<and> \<not> is_run_root b) \<and>
     \<not> list_ex (\<lambda>s. s_bead s = Some i) (sessions st) \<and> ready_spec st i"

definition marked :: "state \<Rightarrow> string \<Rightarrow> bool" where
  "marked st i \<longleftrightarrow> Option.bind (bead_at st i) b_dispatch_failure \<noteq> None"

lemma dispatchable_iff:
  assumes "table_ok b_id beads_check (beads st)"
  shows "dispatchable st i \<longleftrightarrow> eligible st i \<and> \<not> marked st i"
proof -
  have mem: "b \<in> set (beads st) \<and> b_id b = i \<longleftrightarrow> bead_at st i = Some b" for b
    using bead_at_iff [OF assms] by simp
  have "dispatchable st i \<longleftrightarrow> (\<exists>b. (b \<in> set (beads st) \<and> b_id b = i) \<and> b_status b = Open \<and> is_task b \<and>
      b_dispatch_failure b = None \<and> \<not> is_run_root b \<and> \<not> list_ex (\<lambda>s. s_bead s = Some i) (sessions st) \<and>
      \<not> blocked st i)"
    by (auto simp: dispatchable_def dispatchable_rows_def list_ex_iff)
  then show ?thesis
    unfolding mem by (auto simp: eligible_def marked_def ready_spec_def blocked_iff)
qed

lemma marked_rows:
  assumes "bead_at st' i = map_option (\<lambda>b. if q b then b\<lparr>b_dispatch_failure := f, b_updated_ts := t\<rparr> else b) (bead_at st i)"
    and "\<And>j. j \<noteq> i \<Longrightarrow> bead_at st' j = bead_at st j" and "deps st' = deps st" and "sessions st' = sessions st"
  shows "eligible st' j = eligible st j"
proof -
  have pass: "passed st' k = passed st k" for k
    using assms(1,2) by (cases "k = i"; cases "bead_at st i") (auto simp: passed_def)
  show ?thesis
    using assms pass by (cases "j = i"; cases "bead_at st i")
      (auto simp: eligible_def ready_spec_def is_task_def is_run_root_def)
qed

lemma dispatch_failed_at:
  assumes "dispatch_failed S ev st = Inr st'" and "ev_bead ev = Some i"
  shows "\<exists>f t. (\<forall>j. bead_at st' j = map_option (\<lambda>b. if b_id b = i
      then b\<lparr>b_dispatch_failure := Some f, b_updated_ts := t\<rparr> else b) (bead_at st j)) \<and>
    deps st' = deps st \<and> sessions st' = sessions st \<and> i \<in> ids st"
proof -
  from assms obtain p :: DispatchFailed where st': "st' = st\<lparr>beads := map (\<lambda>b. if b_id b = i
      then b\<lparr>b_dispatch_failure := Some (df_reason p), b_updated_ts := ev_ts ev\<rparr> else b) (beads st)\<rparr>"
    and "bead_status st i \<noteq> None"
    by (auto simp: dispatch_failed_def known_bead_def)
  then have "i \<in> ids st" using bead_at_None [of st i] by (auto simp: bead_status_def ids_def)
  moreover have "bead_at st' j = map_option (\<lambda>b. if b_id b = i
      then b\<lparr>b_dispatch_failure := Some (df_reason p), b_updated_ts := ev_ts ev\<rparr> else b) (bead_at st j)" for j
    by (rule bead_at_map_if) (simp_all add: st')
  ultimately show ?thesis by (auto simp: st')
qed

lemma dispatch_rearmed_at:
  assumes "dispatch_rearmed S ev st = Inr st'" and "ev_bead ev = Some i"
  shows "\<exists>t. (\<forall>j. bead_at st' j = map_option (\<lambda>b. if b_id b = i \<and> b_dispatch_failure b \<noteq> None
      then b\<lparr>b_dispatch_failure := None, b_updated_ts := t\<rparr> else b) (bead_at st j)) \<and>
    deps st' = deps st \<and> sessions st' = sessions st"
proof -
  from assms have st': "st' = st\<lparr>beads := map (\<lambda>b. if b_id b = i \<and> b_dispatch_failure b \<noteq> None
      then b\<lparr>b_dispatch_failure := None, b_updated_ts := ev_ts ev\<rparr> else b) (beads st)\<rparr>"
    by (auto simp: dispatch_rearmed_def)
  have "bead_at st' j = map_option (\<lambda>b. if b_id b = i \<and> b_dispatch_failure b \<noteq> None
      then b\<lparr>b_dispatch_failure := None, b_updated_ts := ev_ts ev\<rparr> else b) (bead_at st j)" for j
    by (rule bead_at_map_if) (simp_all add: st')
  then show ?thesis by (auto simp: st')
qed

lemma at_only:
  "\<forall>j. bead_at st' j = map_option (\<lambda>b. if b_id b = i \<and> q b then f b else b) (bead_at st j) \<Longrightarrow>
   j \<noteq> i \<Longrightarrow> bead_at st' j = bead_at st j"
  using bead_at_Some [of st j] by (cases "bead_at st j") auto

text \<open>
  The dispatch mark: an accepted \<open>dispatch.failed\<close> takes exactly that bead out of dispatch,
  without changing which beads are ready, and an accepted \<open>dispatch.rearmed\<close> gives it back as soon
  as it is otherwise eligible; no other bead is affected.
\<close>

theorem dispatch_failure_lifecycle:
  assumes wf: "wf_state st" and run: "fold_apply S st e1 = Inr st1"
    and kind: "ev_kind e1 = DispatchFailed" and i: "ev_bead e1 = Some i"
    and rearm: "fold_apply S st1 e2 = Inr st2" "ev_kind e2 = DispatchRearmed" "ev_bead e2 = Some i"
  shows "(\<forall>j. dispatchable st1 j = (dispatchable st j \<and> j \<noteq> i)) \<and>
    (\<forall>j. is_ready st1 j = is_ready st j) \<and>
    (\<forall>j. dispatchable st2 j = (if j = i then eligible st i else dispatchable st j))"
proof -
  have "dispatch_failed S e1 st = Inr st1" using run kind by (simp add: fold_apply_def)
  from dispatch_failed_at [OF this i] obtain f t where
    at1: "\<forall>j. bead_at st1 j = map_option (\<lambda>b. if b_id b = i \<and> True
        then b\<lparr>b_dispatch_failure := Some f, b_updated_ts := t\<rparr> else b) (bead_at st j)"
    and same1: "deps st1 = deps st" "sessions st1 = sessions st" and known: "i \<in> ids st"
    by auto
  have "dispatch_rearmed S e2 st1 = Inr st2" using rearm(1,2) by (simp add: fold_apply_def)
  from dispatch_rearmed_at [OF this rearm(3)] obtain t2 where
    at2: "\<forall>j. bead_at st2 j = map_option (\<lambda>b. if b_id b = i \<and> b_dispatch_failure b \<noteq> None
        then b\<lparr>b_dispatch_failure := None, b_updated_ts := t2\<rparr> else b) (bead_at st1 j)"
    and same2: "deps st2 = deps st1" "sessions st2 = sessions st1"
    by blast
  obtain b where b: "bead_at st i = Some b" using known bead_at_None [of st i] by (auto simp: ids_def)
  have b1: "bead_at st1 i = Some (b\<lparr>b_dispatch_failure := Some f, b_updated_ts := t\<rparr>)"
    using at1 b bead_at_Some [OF b] by auto
  then have b2: "bead_at st2 i = Some (b\<lparr>b_dispatch_failure := None, b_updated_ts := t2\<rparr>)"
    using at2 bead_at_Some [OF b] by auto
  have el1: "eligible st1 j = eligible st j" for j
    by (rule marked_rows [where st' = st1 and i = i and q = "\<lambda>b. b_id b = i \<and> True" and f = "Some f" and t = t and st = st, OF _ at_only [OF at1] same1])
      (use at1 in blast)
  have el2: "eligible st2 j = eligible st1 j" for j
    by (rule marked_rows [where st' = st2 and i = i and q = "\<lambda>b. b_id b = i \<and> b_dispatch_failure b \<noteq> None" and f = None and t = t2 and st = st1,
          OF _ at_only [OF at2] same2])
      (use at2 in blast)
  have m1: "marked st1 j = (j = i \<or> marked st j)" for j
    using b1 at_only [OF at1, of j] by (cases "j = i") (simp_all add: marked_def)
  have m2: "marked st2 j = (j \<noteq> i \<and> marked st1 j)" for j
    using b2 at_only [OF at2, of j] by (cases "j = i") (simp_all add: marked_def)
  have wf1: "wf_state st1" by (rule fold_apply_wf [OF wf run])
  have wf2: "wf_state st2" by (rule fold_apply_wf [OF wf1 rearm(1)])
  note d = dispatchable_iff [OF wf_beads_table [OF wf]] dispatchable_iff [OF wf_beads_table [OF wf1]]
    dispatchable_iff [OF wf_beads_table [OF wf2]]
  have "passed st1 k = passed st k" for k
    using b1 b at_only [OF at1, of k] by (cases "k = i") (auto simp: passed_def)
  then have "unmet_dep st1 = unmet_dep st" by (simp add: fun_eq_iff unmet_dep_passed)
  moreover have "bead_status st1 j = bead_status st j" for j
    using b1 b at_only [OF at1, of j] by (cases "j = i") (simp_all add: bead_status_def)
  ultimately have "is_ready st1 j = is_ready st j" for j
    by (simp only: is_ready_def same1)
  then show ?thesis by (auto simp: d el1 el2 m1 m2)
qed

lemma demo_dispatch_facts:
  "demo_accepts ([] @ [demo_event DispatchFailed ''gc-1'' ''no agent''])"
  "demo_accepts ([demo_event DispatchFailed ''gc-1'' ''no agent''] @ [demo_event DispatchRearmed ''gc-1'' ''no agent''])"
  "dispatchable (demo_state []) ''gc-1''"
  by code_simp+

theorem dispatch_failure_witness:
  "\<not> dispatchable (demo_state [demo_event DispatchFailed ''gc-1'' ''no agent'']) ''gc-1'' \<and>
   dispatchable (demo_state [demo_event DispatchFailed ''gc-1'' ''no agent'',
     demo_event DispatchRearmed ''gc-1'' ''no agent'']) ''gc-1''"
proof -
  have "eligible (demo_state []) ''gc-1''"
    using demo_dispatch_facts(3) dispatchable_iff [OF wf_beads_table [OF demo_state_wf [OF demo_accepts_all(1)]]]
    by blast
  then show ?thesis
    using dispatch_failure_lifecycle [OF demo_state_wf [OF demo_accepts_all(1)]
        demo_state_step [OF demo_dispatch_facts(1), unfolded append_Nil] _ _
        demo_state_step [OF demo_dispatch_facts(2)], of "''gc-1''"]
    by (simp add: demo_event_def)
qed

lemma length_filter_and:
  "length (filter (\<lambda>x. P x \<and> Q x) xs) = length (filter P xs) \<longleftrightarrow> (\<forall>x \<in> set xs. P x \<longrightarrow> Q x)"
proof (induction xs)
  case (Cons x xs)
  have "length (filter (\<lambda>x. P x \<and> Q x) xs) \<le> length (filter P xs)"
    by (induction xs) auto
  with Cons show ?case by auto
qed simp

text \<open>
  The count of ready tasks is at least what campd dispatches, and they agree exactly when no
  ready, unmarked task has ever had a session: a task whose session crashed is counted as ready but
  not dispatched.
\<close>

theorem ready_count_and_dispatch:
  "\<exists>n. ready_task_count st = Inr n \<and> length (dispatchable_rows st) \<le> n \<and>
    (length (dispatchable_rows st) = n \<longleftrightarrow>
      (\<forall>b \<in> set (beads st). b_status b = Open \<and> is_task b \<and> b_dispatch_failure b = None \<and>
         \<not> is_run_root b \<and> \<not> blocked st (b_id b) \<longrightarrow>
         \<not> list_ex (\<lambda>s. s_bead s = Some (b_id b)) (sessions st)))"
proof -
  define P where "P b \<longleftrightarrow> b_status b = Open \<and> is_task b \<and> b_dispatch_failure b = None \<and>
    \<not> is_run_root b \<and> \<not> blocked st (b_id b)" for b :: bead
  define Q where "Q b \<longleftrightarrow> \<not> list_ex (\<lambda>s. s_bead s = Some (b_id b)) (sessions st)" for b :: bead
  have count: "ready_task_count st = Inr (length (filter P (beads st)))"
    by (simp add: ready_task_count_def P_def [abs_def])
  have "dispatchable_rows st = oldest_first (filter (\<lambda>b. P b \<and> Q b) (beads st))"
    unfolding dispatchable_rows_def P_def Q_def by (rule arg_cong [where f = oldest_first], rule filter_cong) auto
  then have len: "length (dispatchable_rows st) = length (filter (\<lambda>b. P b \<and> Q b) (beads st))"
    by (simp add: oldest_first_def)
  have "length (filter (\<lambda>b. P b \<and> Q b) (beads st)) \<le> length (filter P (beads st))"
    using length_filter_le [of Q "filter P (beads st)"] by simp
  then show ?thesis
    using length_filter_and [of P Q "beads st"] unfolding count len P_def [symmetric] Q_def [symmetric] by auto
qed

theorem ready_count_witness:
  "ready_task_count (demo_state (demo_work @ [demo_event SessionCrashed ''gc-1'' ''s''])) = Inr 1 \<and>
   length (dispatchable_rows (demo_state (demo_work @ [demo_event SessionCrashed ''gc-1'' ''s'']))) < 1"
proof -
  let ?st = "demo_state (demo_work @ [demo_event SessionCrashed ''gc-1'' ''s''])"
  have count: "ready_task_count ?st = Inr 1" by code_simp
  have not_all: "\<not> (\<forall>b \<in> set (beads ?st). b_status b = Open \<and> is_task b \<and> b_dispatch_failure b = None \<and>
         \<not> is_run_root b \<and> \<not> blocked ?st (b_id b) \<longrightarrow>
         \<not> list_ex (\<lambda>s. s_bead s = Some (b_id b)) (sessions ?st))" by code_simp
  obtain n where n: "ready_task_count ?st = Inr n" "length (dispatchable_rows ?st) \<le> n"
    and "length (dispatchable_rows ?st) \<noteq> n"
    using ready_count_and_dispatch [of ?st] not_all by blast
  moreover have "n = 1" using n(1) count by simp
  ultimately have "length (dispatchable_rows ?st) < 1" by linarith
  then show ?thesis using count by blast
qed

section \<open>Permission requests\<close>

lemma only_meta_permissions: "only_meta st st' \<Longrightarrow> permissions st' = permissions st"
  unfolding only_meta_def by (elim conjE, erule ssubst) simp

lemma only_deps_permissions: "only_deps st st' \<Longrightarrow> permissions st' = permissions st"
  unfolding only_deps_def by (elim conjE, erule ssubst) simp

lemma permission_decided_rows:
  assumes "permission_decided S ev st = Inr st'"
  obtains p where "dec_permission_decided S (ev_data ev) = Inr p"
    and "permissions st' = map (\<lambda>r. if p_request_id r = px_request_id p \<and> p_status r = Pending
        then decide_row ev p r else r) (permissions st)"
    and "filter (\<lambda>r. p_request_id r = px_request_id p \<and> p_status r = Pending) (permissions st) \<noteq> []"
proof -
  from assms obtain p where p: "dec_permission_decided S (ev_data ev) = Inr p"
    and upd: "rbind (update_permissions
              (\<lambda>r. p_request_id r = px_request_id p \<and> p_status r = Pending) (decide_row ev p) st)
       (\<lambda>(st1, changed).
         if changed = 0
         then Inl (invalid ev (Msg ''no PENDING permission request {:?} to decide'' [px_request_id p]))
         else Inr st1) = Inr st'"
    unfolding permission_decided_def by auto
  then obtain n where "update_permissions
      (\<lambda>r. p_request_id r = px_request_id p \<and> p_status r = Pending) (decide_row ev p) st = Inr (st', n)"
    and "n \<noteq> 0"
    unfolding rbind_eq_Inr by (auto split: if_splits)
  then show thesis using that [OF p] by simp
qed

lemma permission_row_kept:
  assumes wf: "wf_state st" and run: "fold_apply S st ev = Inr st'" and r: "permission_at st q = Some r"
    and decided: "p_status r = Decided"
  shows "permission_at st' q = Some r"
proof -
  have ok: "table_ok p_request_id permissions_check (permissions s)" if "wf_state s" for s
    using that by (simp add: wf_state_def permissions_ok_def)
  have "r \<in> set (permissions st')"
    using run
  proof (rule fold_apply_cases)
    assume "permission_pending S ev st = Inr st'"
    then show ?thesis using permission_at_Some [OF r] by (auto simp: permission_pending_def)
  next
    assume "permission_decided S ev st = Inr st'"
    then obtain p where "permissions st' = map (\<lambda>r. if p_request_id r = px_request_id p \<and>
        p_status r = Pending then decide_row ev p r else r) (permissions st)"
      by (rule permission_decided_rows)
    then show ?thesis using permission_at_Some [OF r] decided by force
  next
    assume "bead_created S ev st = Inr st'"
    then obtain i rig p st2 st3 where
      d: "only_deps (st\<lparr>beads := beads st @ [new_bead S ev i rig p]\<rparr>) st2" and m: "only_meta st2 st3"
      and bump: "bump_counter i (insert_search i Body (body_content (bc_title p) (bc_description p)) st3) = Inr st'"
      by (rule bead_created_Inr)
    have "permissions st2 = permissions st" using only_deps_permissions [OF d] by simp
    moreover have "permissions st3 = permissions st2" by (rule only_meta_permissions [OF m])
    moreover have "permissions st' = permissions st3" using bump by (auto elim!: bump_counter_Inr simp: insert_search_def)
    ultimately show ?thesis using permission_at_Some [OF r] by simp
  next
    assume "bead_updated S ev st = Inr st'"
    then obtain i p st1 where m: "only_meta st st1" and st': "st' = rewrite_body_search_row i
        (st1\<lparr>beads := map (\<lambda>b. if b_id b = i then patch_row ev p b else b) (beads st1)\<rparr>)"
      by (rule bead_updated_Inr)
    have "permissions st1 = permissions st" by (rule only_meta_permissions [OF m])
    then show ?thesis using permission_at_Some [OF r] by (simp add: st')
  next
    assume "bead_closed S ev st = Inr st'"
    then show ?thesis using permission_at_Some [OF r]
      by (auto elim!: bead_closed_beads simp: index_reason_def insert_search_def split: option.split)
  next
    assume "bead_claimed S ev st = Inr st'"
    then show ?thesis using permission_at_Some [OF r]
      by (auto elim!: bead_claimed_Inr simp: clear_dispatch_failure_def)
  next
    assume "session_woke S ev st = Inr st'"
    then show ?thesis using permission_at_Some [OF r] by (auto elim!: session_woke_rows)
  qed (use permission_at_Some [OF r] in \<open>auto elim!: session_ended_Inr
      simp: session_pid_def dispatch_failed_def dispatch_rearmed_def split: if_splits\<close>)
  then show ?thesis
    using permission_at_iff [OF ok [OF fold_apply_wf [OF wf run]], of q r] permission_at_Some [OF r] by simp
qed

lemma decided_refuses:
  assumes wf: "wf_state st" and r: "permission_at st q = Some r" "p_status r = Decided"
    and e: "ev_kind e = PermissionDecided" "dec_permission_decided S (ev_data e) = Inr p" "px_request_id p = q"
  shows "\<exists>err. fold_apply S st e = Inl err"
proof -
  have ok: "table_ok p_request_id permissions_check (permissions st)"
    using wf by (simp add: wf_state_def permissions_ok_def)
  have "filter (\<lambda>r. p_request_id r = q \<and> p_status r = Pending) (permissions st) = []"
  proof (rule ccontr)
    assume "filter (\<lambda>r. p_request_id r = q \<and> p_status r = Pending) (permissions st) \<noteq> []"
    then obtain r' where r': "r' \<in> set (permissions st)" "p_request_id r' = q" "p_status r' = Pending"
      by (auto simp: filter_empty_conv)
    then have "permission_at st q = Some r'" using permission_at_iff [OF ok] by simp
    then show False using r r'(3) by simp
  qed
  then have "permission_decided S e st \<noteq> Inr st'" for st'
    using e by (auto simp: permission_decided_def split: if_splits)
  then have "fold_apply S st e \<noteq> Inr st'" for st' using e(1) by (simp add: fold_apply_def)
  then show ?thesis by (cases "fold_apply S st e") auto
qed

text \<open>
  The first answer to a permission request wins: once a decision is accepted, the request
  keeps that decision, the decider and the time through every sequence of accepted events, and
  every other answer to it is refused.
\<close>

theorem first_answer_wins:
  assumes wf: "wf_state st" and run: "fold_apply S st ev = Inr st1"
    and kind: "ev_kind ev = PermissionDecided"
    and p: "dec_permission_decided S (ev_data ev) = Inr p"
    and rest: "foldM (fold_apply S) st1 evs = Inr st2"
  shows "(\<exists>r. permission_at st2 (px_request_id p) = Some r \<and> p_status r = Decided \<and>
       p_decision r = Some (px_decision p) \<and> p_decided_by r = Some (px_decided_by p) \<and>
       p_decided_ts r = Some (ev_ts ev)) \<and>
    (\<forall>e q. ev_kind e = PermissionDecided \<longrightarrow> dec_permission_decided S (ev_data e) = Inr q \<longrightarrow>
       px_request_id q = px_request_id p \<longrightarrow> (\<exists>err. fold_apply S st2 e = Inl err))"
proof -
  have dec: "permission_decided S ev st = Inr st1" using run kind by (simp add: fold_apply_def)
  then have st1: "permissions st1 = map (\<lambda>r. if p_request_id r = px_request_id p \<and>
        p_status r = Pending then decide_row ev p r else r) (permissions st)"
    and "filter (\<lambda>r. p_request_id r = px_request_id p \<and> p_status r = Pending) (permissions st) \<noteq> []"
    by (rule permission_decided_rows, use p in simp)+
  then obtain r where r: "r \<in> set (permissions st)" "p_request_id r = px_request_id p" "p_status r = Pending"
    by (auto simp: filter_empty_conv)
  have wf1: "wf_state st1" by (rule fold_apply_wf [OF wf run])
  define r1 where "r1 = decide_row ev p r"
  have "r1 \<in> set (permissions st1)" unfolding st1 r1_def using r by force
  moreover have "p_request_id r1 = px_request_id p" using r by (simp add: r1_def decide_row_def)
  ultimately have r1: "permission_at st1 (px_request_id p) = Some r1"
    using permission_at_iff [of st1 "px_request_id p" r1] wf1 by (simp add: wf_state_def permissions_ok_def)
  have d1: "p_status r1 = Decided" by (simp add: r1_def decide_row_def)
  have r2: "permission_at st2 (px_request_id p) = Some r1"
    by (rule fold_run_invariant [OF rest wf1, where P = "\<lambda>s. permission_at s (px_request_id p) = Some r1"])
      (use r1 d1 permission_row_kept in blast)+
  have wf2: "wf_state st2" by (rule foldM_fold_apply_wf [OF rest wf1])
  show ?thesis
    using r2 d1 decided_refuses [OF wf2 r2 d1] by (auto simp: r1_def decide_row_def)
qed

definition demo_asked :: "string event list" where
  "demo_asked = [demo_event SessionWoke ''gc-1'' ''s'', demo_event PermissionPending ''gc-1'' ''s'']"

lemma demo_asked_facts:
  "demo_accepts demo_asked"
  "demo_accepts (demo_asked @ [demo_event PermissionDecided ''gc-1'' ''mayor''])"
  "demo_accepts ((demo_asked @ [demo_event PermissionDecided ''gc-1'' ''mayor'']) @ demo_reserve)"
  by code_simp+

lemma demo_decided_payload:
  "dec_permission_decided demo (ev_data (demo_event k i d)) =
     Inr \<lparr>px_session = [], px_request_id = ''req'', px_decision = ''allow'', px_decided_by = d, px_reason = None\<rparr>"
  by (simp add: demo_def demo_event_def demo_decided_def)

theorem first_answer_witness:
  "\<exists>err. fold_apply demo (demo_state ((demo_asked @ [demo_event PermissionDecided ''gc-1'' ''mayor'']) @ demo_reserve))
     (demo_event PermissionDecided ''gc-1'' ''human'') = Inl err"
  using first_answer_wins [OF demo_state_wf [OF demo_asked_facts(1)] demo_state_step [OF demo_asked_facts(2)]
      _ demo_decided_payload demo_state_run [OF demo_asked_facts(3)]]
    demo_decided_payload [of PermissionDecided "''gc-1''" "''human''"]
  by (simp add: demo_event_def)

section \<open>Errors of the storage layer\<close>

definition no_sqlite :: "'a res \<Rightarrow> bool" where
  "no_sqlite m \<longleftrightarrow> (\<forall>t. m \<noteq> Inl (Sqlite t))"

lemma no_sqlite_Inr [simp]: "no_sqlite (Inr x)"
  by (simp add: no_sqlite_def)

lemma no_sqlite_Inl [simp]:
  "no_sqlite (Inl (UnknownBead i))" "no_sqlite (Inl (UnknownSession n))" "no_sqlite (Inl (InvalidTransition i m))"
  "no_sqlite (Inl (invalid ev m))" "no_sqlite (Inl (InvalidPrefix p))" "no_sqlite (Inl (InvalidEventData k m))"
  by (simp_all add: no_sqlite_def invalid_def)

lemma no_sqlite_rbind:
  "no_sqlite m \<Longrightarrow> (\<And>x. m = Inr x \<Longrightarrow> no_sqlite (f x)) \<Longrightarrow> no_sqlite (rbind m f)"
  by (cases m) (simp_all add: no_sqlite_def)

lemma no_sqlite_ensure [simp]: "no_sqlite (Inl e :: unit res) \<Longrightarrow> no_sqlite (ensure b e)"
  by (simp add: ensure_def)

lemma no_sqlite_reads [simp]:
  "no_sqlite (payload dec ev)" "no_sqlite (required_bead ev)" "no_sqlite (non_empty ev f v)"
  "no_sqlite (known_bead st i)" "no_sqlite (validate_prefix p)"
  by (simp_all add: payload_def required_bead_def non_empty_def known_bead_def validate_prefix_def
      split: sum.split option.split)

lemma no_sqlite_fields [simp]: "no_sqlite (all_non_empty ev fs)"
  by (induction ev fs rule: all_non_empty.induct) (auto intro!: no_sqlite_rbind)

lemma no_sqlite_audit [simp]: "no_sqlite (audit dec ev)"
  by (auto simp: audit_def intro!: no_sqlite_rbind)

lemma no_sqlite_log [simp]: "no_sqlite r \<Longrightarrow> no_sqlite (log_only r st)"
  by (auto simp: log_only_def intro!: no_sqlite_rbind)

lemma no_sqlite_foldM:
  assumes "P s" and "\<And>s x. x \<in> set xs \<Longrightarrow> P s \<Longrightarrow> no_sqlite (f s x)"
    and "\<And>s x s'. x \<in> set xs \<Longrightarrow> P s \<Longrightarrow> f s x = Inr s' \<Longrightarrow> P s'"
  shows "no_sqlite (foldM f s xs)"
  using assms
proof (induction xs arbitrary: s)
  case (Cons x xs)
  have "no_sqlite (f s x)" using Cons.prems(1,2) by simp
  moreover have "no_sqlite (foldM f s1 xs)" if "f s x = Inr s1" for s1
    using Cons.prems(1,3) that by (intro Cons.IH) (auto intro: Cons.prems(2))
  ultimately show ?case by (simp add: no_sqlite_rbind)
qed simp

lemma no_sqlite_audits [simp]:
  "no_sqlite (session_nudged S ev st)" "no_sqlite (rig_added S ev)" "no_sqlite (campd_autostarted S ev)"
  "no_sqlite (run_cooked S ev)" "no_sqlite (order_fired S ev)" "no_sqlite (order_completed S ev)"
  "no_sqlite (order_failed S ev)" "no_sqlite (config_changed S ev)" "no_sqlite (worker_milestone S ev st)"
  "no_sqlite (worktree_kept S ev st)" "no_sqlite (bead_worktree_reaped S ev st)"
  "no_sqlite (dispatch_live_tree S ev st)" "no_sqlite (check_passed S ev st)" "no_sqlite (check_failed S ev st)"
  "no_sqlite (run_finalized S ev st)" "no_sqlite (agent_stalled S ev st)" "no_sqlite (patrol_degraded S ev)"
  "no_sqlite (control_failed S ev)" "no_sqlite (formula_refused S ev)"
  by (auto simp: session_nudged_def rig_added_def campd_autostarted_def run_cooked_def order_fired_def
      order_completed_def order_failed_def config_changed_def worker_milestone_def worktree_kept_def
      bead_worktree_reaped_def dispatch_live_tree_def check_passed_def check_failed_def run_finalized_def
      agent_stalled_def patrol_degraded_def control_failed_def formula_refused_def Let_def
      split: option.split intro!: no_sqlite_rbind)

text \<open>Writes that cannot break a constraint.\<close>

lemma no_sqlite_update:
  "(\<And>b. b \<in> set (beads st) \<Longrightarrow> p b \<Longrightarrow> beads_check (f b)) \<Longrightarrow> no_sqlite (update_beads p f st)"
  by (auto simp: update_beads_def sql_update_def list_all_iff)

lemma rows_checked: "wf_state st \<Longrightarrow> b \<in> set (beads st) \<Longrightarrow> beads_check b"
  using wf_beads_table by (auto simp: table_ok_def list_all_iff)

lemma check_columns:
  "b_outcome b' = b_outcome b \<Longrightarrow> b_work_outcome b' = b_work_outcome b \<Longrightarrow>
   b_final_disposition b' = b_final_disposition b \<Longrightarrow> beads_check b' = beads_check b"
  by (simp add: beads_check_def)

lemma no_sqlite_meta: "i \<in> ids st \<Longrightarrow> no_sqlite (write_meta ev i k v st)"
  by (auto simp: write_meta_def upsert_meta_def ids_def split: option.split intro!: no_sqlite_rbind)

lemma no_sqlite_patch: "i \<in> ids st \<Longrightarrow> no_sqlite (patch_meta ev i st kv)"
  by (auto simp: patch_meta_def no_sqlite_meta split: prod.split option.split)

lemma no_sqlite_need: "i \<in> ids st \<Longrightarrow> no_sqlite (insert_need ev i st n)"
  by (auto simp: insert_need_def insert_dep_def ids_def intro!: no_sqlite_rbind split: prod.split)

lemma no_sqlite_clear: "wf_state st \<Longrightarrow> beads st' = beads st \<Longrightarrow> no_sqlite (clear_dispatch_failure i st')"
  unfolding clear_dispatch_failure_def
  by (rule no_sqlite_update) (auto dest!: rows_checked simp: beads_check_def)

lemma ids_write_meta: "write_meta ev i k v st = Inr st' \<Longrightarrow> ids st' = ids st"
  by (simp add: ids_def write_meta_beads)

lemma bead_created_storage: "no_sqlite (bead_created S ev st)"
proof -
  have bump: "no_sqlite (bump_counter i s)" for i s
    by (simp add: bump_counter_def split: option.split)
  have meta: "no_sqlite (foldM (\<lambda>s (k, v). write_meta ev i k v s) s kvs)" if "i \<in> ids s" for i s kvs
    by (rule no_sqlite_foldM [where P = "\<lambda>s. i \<in> ids s"])
      (use that in \<open>auto simp: no_sqlite_meta ids_write_meta\<close>)
  have needs: "no_sqlite (foldM (insert_need ev i) s ns)" if "i \<in> ids s" for i s ns
    by (rule no_sqlite_foldM [where P = "\<lambda>s. i \<in> ids s"])
      (use that in \<open>auto simp: no_sqlite_need ids_def insert_need_beads\<close>)
  have ins: "no_sqlite (insert_bead (new_bead S ev i rig p) st)" if "bead_status st i = None" for i rig p
    using that bead_at_None [of st i]
    by (auto simp: insert_bead_def sql_insert_def new_bead_def beads_check_def check_in_def bead_status_def)
  show ?thesis
    unfolding bead_created_def
    by (intro no_sqlite_rbind meta needs ins bump no_sqlite_reads no_sqlite_ensure no_sqlite_Inl)
      (auto simp: ids_def new_bead_def dest: needs_loop_beads split: option.split)
qed

lemma bead_claimed_storage: "wf_state st \<Longrightarrow> no_sqlite (bead_claimed S ev st)"
proof -
  assume wf: "wf_state st"
  have upd: "no_sqlite (update_beads (\<lambda>b. b_id b = i) (claim_row ev p) st)" for i p
    by (rule no_sqlite_update) (use rows_checked [OF wf] in \<open>auto simp: beads_check_def claim_row_def\<close>)
  have clear: "no_sqlite (clear_dispatch_failure i s)"
    if "update_beads (\<lambda>b. b_id b = j) (claim_row ev p) st = Inr s" for i j p s
    unfolding clear_dispatch_failure_def
    by (rule no_sqlite_update)
      (use that rows_checked [OF wf] in \<open>auto simp: beads_check_def claim_row_def split: if_splits\<close>)
  show ?thesis
    unfolding bead_claimed_def
    by (intro no_sqlite_rbind no_sqlite_reads)
      (auto split: option.split bead_status.split intro!: no_sqlite_rbind upd dest: clear)
qed

lemma bead_updated_storage: "wf_state st \<Longrightarrow> no_sqlite (bead_updated S ev st)"
proof -
  assume wf: "wf_state st"
  have loop: "no_sqlite (foldM (patch_meta ev i) st kvs)" if "bead_status st i \<noteq> None" for i kvs
  proof (rule no_sqlite_foldM [where P = "\<lambda>s. i \<in> ids s"])
    show "i \<in> ids st" using that bead_at_None [of st i] by (auto simp: bead_status_def ids_def)
  qed (auto simp: no_sqlite_patch ids_def dest: patch_meta_beads)
  have upd: "no_sqlite (update_beads (\<lambda>b. b_id b = i) (patch_row ev p) s)"
    if "foldM (patch_meta ev i) st kvs = Inr s" for i p s kvs
    by (rule no_sqlite_update)
      (use patch_loop_beads [OF that] rows_checked [OF wf] in \<open>auto simp: beads_check_def patch_row_def\<close>)
  show ?thesis
    unfolding bead_updated_def
    by (intro no_sqlite_rbind no_sqlite_reads no_sqlite_ensure no_sqlite_Inl no_sqlite_Inr loop)
      (auto intro: upd)
qed

lemma bead_closed_storage: "no_sqlite (bead_closed S ev st)"
proof -
  have checks: "no_sqlite (check_failure_class ev p)" "no_sqlite (check_final_disposition ev p)"
    "no_sqlite (check_work_outcome ev p)" for p :: "'a BeadClosed"
    by (auto simp: check_failure_class_def check_final_disposition_def check_work_outcome_def Let_def
        split: option.split)
  have upd: "no_sqlite (update_beads q (close_row ev p) st)"
    if "bx_outcome p \<in> set CAMP_OUTCOMES" "check_final_disposition ev p = Inr u" "check_work_outcome ev p = Inr w" for q p u w
    by (rule no_sqlite_update)
      (rule coherent_check_row, use check_work_outcome_Inr [OF that(3,1,2)] in \<open>simp add: closes_coherently_def\<close>)
  show ?thesis
    unfolding bead_closed_def
    by (intro no_sqlite_rbind no_sqlite_reads no_sqlite_ensure no_sqlite_Inl checks)
      (auto split: option.split bead_status.split intro!: no_sqlite_rbind upd)
qed

lemma dispatch_storage:
  assumes wf: "wf_state st"
  shows "no_sqlite (dispatch_failed S ev st)" and "no_sqlite (dispatch_rearmed S ev st)"
proof -
  have upd: "no_sqlite (update_beads q (\<lambda>b. b\<lparr>b_dispatch_failure := f, b_updated_ts := t\<rparr>) st)" for q f t
    by (rule no_sqlite_update) (use rows_checked [OF wf] in \<open>auto simp: beads_check_def\<close>)
  show "no_sqlite (dispatch_failed S ev st)"
    unfolding dispatch_failed_def by (intro no_sqlite_rbind no_sqlite_reads upd)
  show "no_sqlite (dispatch_rearmed S ev st)"
    unfolding dispatch_rearmed_def by (intro no_sqlite_rbind no_sqlite_reads upd)
qed

lemma session_woke_storage: "wf_state st \<Longrightarrow> no_sqlite (session_woke S ev st)"
proof -
  assume wf: "wf_state st"
  have ins: "no_sqlite (insert_session (woke_row ev p) st)" if "session_at st (sw_name p) = None" for p
    using that session_at_None [of st "sw_name p"]
    by (auto simp: insert_session_def sql_insert_def woke_row_def)
  have clear: "no_sqlite (clear_dispatch_failure i (st\<lparr>sessions := ss\<rparr>))" for i ss
    by (rule no_sqlite_clear [OF wf]) simp
  show ?thesis
    unfolding session_woke_def
    by (intro no_sqlite_rbind no_sqlite_reads no_sqlite_ensure no_sqlite_Inl ins)
      (auto split: option.split intro: clear)
qed

lemma session_ended_storage: "wf_state st \<Longrightarrow> no_sqlite (session_ended S ev new st)"
proof -
  assume wf: "wf_state st"
  have upd: "no_sqlite (update_beads q (reopen_row ev) (st\<lparr>sessions := ss\<rparr>))" for q ss
    by (rule no_sqlite_update) (use rows_checked [OF wf] in \<open>auto simp: beads_check_def reopen_row_def\<close>)
  show ?thesis
    unfolding session_ended_def
    by (intro no_sqlite_rbind no_sqlite_reads)
      (auto split: option.split session_status.split intro!: no_sqlite_rbind upd)
qed

lemma session_pid_storage: "no_sqlite (session_pid S ev st)"
  by (auto simp: session_pid_def intro!: no_sqlite_rbind)

lemma permission_decided_storage: "wf_state st \<Longrightarrow> no_sqlite (permission_decided S ev st)"
proof -
  assume wf: "wf_state st"
  have upd: "no_sqlite (update_permissions q (decide_row ev p) st)"
    if "px_decision p \<in> set PERMISSION_DECISIONS" for q p
    using that
    by (auto simp: update_permissions_def sql_update_def list_all_iff decide_row_def permissions_check_def
        check_in_def PERMISSION_DECISIONS_def)
  show ?thesis
    unfolding permission_decided_def
    by (intro no_sqlite_rbind no_sqlite_reads no_sqlite_ensure no_sqlite_Inl upd)
      (auto split: prod.split)
qed

lemma permission_pending_storage:
  assumes "permission_pending S ev st = Inl (Sqlite t)"
  shows "\<exists>p. dec_permission_pending S (ev_data ev) = Inr p \<and>
    list_ex (\<lambda>s. s_name s = pp_session p \<and> s_status s = Live) (sessions st) \<and>
    pp_request_id p \<in> p_request_id ` set (permissions st)"
proof -
  have "payload d ev \<noteq> Inl (Sqlite t)" for d :: "'a \<Rightarrow> string + PermissionPending"
    using no_sqlite_reads(1) [of d ev] by (simp add: no_sqlite_def)
  then show ?thesis using assms
    by (auto simp: permission_pending_def rbind_eq_Inl insert_permission_def sql_insert_def pending_row_def
        permissions_check_def check_in_def split: if_splits)
qed

text \<open>
  C37. The checks of the fold leave one storage error: on well-formed tables the only event that
  can run into a constraint of the database is \<open>permission.pending\<close>, when a live session asks
  under a request id that is already recorded. Every other refusal is a camp error.
\<close>

theorem storage_errors_only_on_repeated_request:
  assumes wf: "wf_state st" and run: "fold_apply S st ev = Inl (Sqlite t)"
  shows "ev_kind ev = PermissionPending \<and>
    (\<exists>p. dec_permission_pending S (ev_data ev) = Inr p \<and>
      list_ex (\<lambda>s. s_name s = pp_session p \<and> s_status s = Live) (sessions st) \<and>
      pp_request_id p \<in> p_request_id ` set (permissions st))"
proof -
  have "ev_kind ev = PermissionPending"
  proof (rule ccontr)
    assume "ev_kind ev \<noteq> PermissionPending"
    then have "no_sqlite (fold_apply S st ev)"
      by (cases "ev_kind ev")
        (simp_all add: fold_apply_def bead_created_storage bead_claimed_storage [OF wf]
          bead_updated_storage [OF wf] bead_closed_storage dispatch_storage [OF wf]
          session_woke_storage [OF wf] session_ended_storage [OF wf] session_pid_storage
          permission_decided_storage [OF wf])
    then show False using run by (simp add: no_sqlite_def)
  qed
  then show ?thesis using run permission_pending_storage by (simp add: fold_apply_def)
qed

lemma demo_repeat:
  "fold_apply demo (demo_state demo_asked) (demo_event PermissionPending ''gc-1'' ''s'')
     = Inl (Sqlite ''UNIQUE constraint failed'')"
  by code_simp

theorem storage_errors_witness:
  "''req'' \<in> p_request_id ` set (permissions (demo_state demo_asked))"
  using storage_errors_only_on_repeated_request [OF demo_state_wf [OF demo_asked_facts(1)] demo_repeat]
  by (auto simp: demo_def demo_event_def demo_pending_def)

end
