(* ===== verification/Cron.thy ===== *)
theory Cron
  imports Prelude
begin

text \<open>
  Cron expressions (\<^verbatim>\<open>crates/camp-core/src/orders/cron.rs\<close>): the parser of the five fields
  and the search for the next fire.

  Dates, weekdays and time zones are the \<open>jiff\<close> crate. The record \<open>calendar\<close> holds what the
  code calls of it, over an arbitrary type \<open>'d\<close> of dates: the date of an instant in the zone,
  the next date if there is one, the month, day and weekday of a date, and the instant a civil
  time resolves to (\<open>Disambiguation::Compatible\<close>), and the earliest instant. An instant is its nanosecond, an \<open>int\<close>.
\<close>

section \<open>Parsing\<close>

record field_set =
  fs_min :: nat
  fs_allowed :: "bool list"
  fs_restricted :: bool

definition fs_contains :: "field_set \<Rightarrow> nat \<Rightarrow> bool" where
  "fs_contains f value =
     (if value < fs_min f then False
      else let i = value - fs_min f in if i < length (fs_allowed f) then fs_allowed f ! i else False)"

record cron_expr =
  ce_source :: string
  minutes :: field_set
  hours :: field_set
  days_of_month :: field_set
  months :: field_set
  days_of_week :: field_set

text \<open>\<open>str::parse\<close> on a \<open>u8\<close>: an optional \<open>+\<close>, at least one digit, at most 255.\<close>

definition parse_u8 :: "string \<Rightarrow> nat option" where
  "parse_u8 s =
     (let ds = (case s of [] \<Rightarrow> [] | c # cs \<Rightarrow> if c = CHR ''+'' then cs else s)
      in if ds = [] \<or> \<not> list_all is_digit ds then None
         else if dec_value ds \<le> 255 then Some (dec_value ds) else None)"

definition parse_value :: "string \<Rightarrow> string \<Rightarrow> nat \<Rightarrow> nat \<Rightarrow> message + nat" where
  "parse_value text nm mn mx =
     (case parse_u8 text of
        None \<Rightarrow> Inl (Msg ''{name}: {text:?} is not a number (names are not supported)'' [nm, text])
      | Some v \<Rightarrow>
          if v < mn \<or> mx < v
          then Inl (Msg ''{name}: value {v} out of range {min}-{max}''
                 [nm, show_nat v, show_nat mn, show_nat mx])
          else Inr v)"

text \<open>The inner loop: the slots \<open>lo\<close>, \<open>lo + step\<close>, \dots up to \<open>hi\<close>. A step of 0 has been refused.\<close>

function mark_range :: "bool \<Rightarrow> nat \<Rightarrow> nat \<Rightarrow> nat \<Rightarrow> nat \<Rightarrow> bool list \<Rightarrow> bool list" where
  "mark_range wrap mn v hi step allowed =
     (let normalized = (if wrap \<and> v = 7 then 0 else v);
          allowed' = allowed[normalized - mn := True];
          next = v + step
      in if next \<le> 255 \<and> next \<le> hi \<and> 0 < step
         then mark_range wrap mn next hi step allowed' else allowed')"
  by pat_completeness auto
termination by (relation "measure (\<lambda>(wrap, mn, v, hi, step, a). hi - v)") auto

declare mark_range.simps [simp del]

definition item_step :: "string \<Rightarrow> string \<Rightarrow> message + string \<times> nat" where
  "item_step nm item =
     (case split_once CHR ''/'' item of
        None \<Rightarrow> Inr (item, 1)
      | Some (r, s) \<Rightarrow>
          (case parse_u8 s of
             None \<Rightarrow> Inl (Msg ''{name}: bad step {s:?} in {item:?}'' [nm, s, item])
           | Some step \<Rightarrow>
               if step = 0 then Inl (Msg ''{name}: step 0 in {item:?}'' [nm, item])
               else Inr (r, step)))"

definition item_range :: "string \<Rightarrow> nat \<Rightarrow> nat \<Rightarrow> string \<Rightarrow> message + nat \<times> nat" where
  "item_range nm mn mx rng =
     (if rng = ''*'' then Inr (mn, mx)
      else case split_once CHR ''-'' rng of
             Some (a, b) \<Rightarrow>
               rbind (parse_value a nm mn mx) (\<lambda>lo.
               rbind (parse_value b nm mn mx) (\<lambda>hi. Inr (lo, hi)))
           | None \<Rightarrow> rbind (parse_value rng nm mn mx) (\<lambda>v. Inr (v, v)))"

definition parse_item ::
    "string \<Rightarrow> string \<Rightarrow> nat \<Rightarrow> nat \<Rightarrow> bool \<Rightarrow> bool list \<Rightarrow> string \<Rightarrow> message + bool list" where
  "parse_item text nm mn mx wrap allowed item =
     (if item = [] then Inl (Msg ''{name}: empty list item in {text:?}'' [nm, text])
      else
        rbind (item_step nm item) (\<lambda>(rng, step).
        rbind (item_range nm mn mx rng) (\<lambda>(lo, hi).
          if hi < lo then Inl (Msg ''{name}: inverted range {range:?}'' [nm, rng])
          else Inr (mark_range wrap mn lo hi step allowed))))"

definition parse_field :: "string \<Rightarrow> string \<Rightarrow> nat \<Rightarrow> nat \<Rightarrow> bool \<Rightarrow> message + field_set" where
  "parse_field text nm mn mx wrap =
     (let store = (if wrap then mx - mn else mx - mn + 1) in
      rbind (foldM (parse_item text nm mn mx wrap) (replicate store False) (split_on CHR '','' text))
        (\<lambda>allowed. Inr \<lparr>fs_min = mn, fs_allowed = allowed, fs_restricted = (text \<noteq> ''*'')\<rparr>))"

text \<open>\<open>str::split_whitespace\<close>: \<open>word\<close> takes the characters up to the next white space.\<close>

fun starts_ws :: "string \<Rightarrow> bool" where
  "starts_ws s = (s \<noteq> [] \<and> trim_start s \<noteq> s)"

fun word :: "string \<Rightarrow> string" where
  "word [] = []"
| "word (c # cs) = (if starts_ws (c # cs) then [] else c # word cs)"

lemma length_trim_start: "length (trim_start s) \<le> length s"
  by (induction s rule: trim_start.induct) auto

lemma shorter_rest:
  assumes "s' = trim_start s" and "s' \<noteq> []" and "word s' \<noteq> []"
  shows "length (drop (length (word s')) s') < length s"
proof -
  have "length (drop (length (word s')) s') < length s'" using assms(2,3) by simp
  also have "\<dots> \<le> length s" using length_trim_start by (simp add: assms(1))
  finally show ?thesis .
qed

function split_whitespace :: "string \<Rightarrow> string list" where
  "split_whitespace s =
     (let s' = trim_start s in
      if s' = [] then [] else if word s' = [] then [] else word s' # split_whitespace (drop (length (word s')) s'))"
  by pat_completeness auto
termination
proof (relation "measure length")
  show "wf (measure length)" by simp
  fix s s' :: string
  assume "s' = trim_start s" "s' \<noteq> []" "word s' \<noteq> []"
  then show "(drop (length (word s')) s', s) \<in> measure length"
    unfolding in_measure by (rule shorter_rest)
qed

declare split_whitespace.simps [simp del]

definition parse_cron :: "string \<Rightarrow> message + cron_expr" where
  "parse_cron expr =
     (case split_whitespace expr of
        [f0, f1, f2, f3, f4] \<Rightarrow>
          rbind (parse_field f0 ''minute'' 0 59 False) (\<lambda>mi.
          rbind (parse_field f1 ''hour'' 0 23 False) (\<lambda>ho.
          rbind (parse_field f2 ''day of month'' 1 31 False) (\<lambda>dm.
          rbind (parse_field f3 ''month'' 1 12 False) (\<lambda>mo.
          rbind (parse_field f4 ''day of week'' 0 7 True) (\<lambda>dw.
            Inr \<lparr>ce_source = expr, minutes = mi, hours = ho, days_of_month = dm, months = mo,
                 days_of_week = dw\<rparr>)))))
      | fs \<Rightarrow>
          Inl (Msg ''expected 5 fields (minute hour day-of-month month day-of-week), got {}''
            [show_nat (length fs)]))"

section \<open>The next fire\<close>

record 'd calendar =
  cal_date :: "int \<Rightarrow> 'd"
  cal_tomorrow :: "'d \<Rightarrow> 'd option"
  cal_month :: "'d \<Rightarrow> nat"
  cal_day :: "'d \<Rightarrow> nat"
  cal_weekday :: "'d \<Rightarrow> nat"
  cal_resolve :: "'d \<Rightarrow> nat \<Rightarrow> nat \<Rightarrow> int option"
  cal_min :: int

definition SEARCH_HORIZON_DAYS :: nat where
  "SEARCH_HORIZON_DAYS = 366 * 6"

definition day_matches :: "'d calendar \<Rightarrow> cron_expr \<Rightarrow> 'd \<Rightarrow> bool" where
  "day_matches C e date =
     (if \<not> fs_contains (months e) (cal_month C date) then False
      else
        let dom = cal_day C date; dow = cal_weekday C date in
        case (fs_restricted (days_of_month e), fs_restricted (days_of_week e)) of
          (True, True) \<Rightarrow> fs_contains (days_of_month e) dom \<or> fs_contains (days_of_week e) dow
        | (True, False) \<Rightarrow> fs_contains (days_of_month e) dom
        | (False, True) \<Rightarrow> fs_contains (days_of_week e) dow
        | (False, False) \<Rightarrow> True)"

text \<open>A \<open>for\<close> loop that returns from its body.\<close>

fun first_some :: "('a \<Rightarrow> 'b option) \<Rightarrow> 'a list \<Rightarrow> 'b option" where
  "first_some f [] = None"
| "first_some f (x # xs) = (case f x of Some y \<Rightarrow> Some y | None \<Rightarrow> first_some f xs)"

definition first_fire_on :: "'d calendar \<Rightarrow> cron_expr \<Rightarrow> 'd \<Rightarrow> int \<Rightarrow> int option" where
  "first_fire_on C e date after =
     first_some (\<lambda>hour.
       if \<not> fs_contains (hours e) hour then None
       else first_some (\<lambda>minute.
         if \<not> fs_contains (minutes e) minute then None
         else (case cal_resolve C date hour minute of
                 None \<Rightarrow> None
               | Some ts \<Rightarrow> if after < ts then Some ts else None)) [0..<60]) [0..<24]"

fun search_days :: "'d calendar \<Rightarrow> cron_expr \<Rightarrow> int \<Rightarrow> nat \<Rightarrow> 'd \<Rightarrow> int option" where
  "search_days C e after 0 date = None"
| "search_days C e after (Suc n) date =
     (case (if day_matches C e date then first_fire_on C e date after else None) of
        Some ts \<Rightarrow> Some ts
      | None \<Rightarrow> (case cal_tomorrow C date of None \<Rightarrow> None | Some d \<Rightarrow> search_days C e after n d))"

definition next_after :: "'d calendar \<Rightarrow> cron_expr \<Rightarrow> int \<Rightarrow> int option" where
  "next_after C e after = search_days C e after SEARCH_HORIZON_DAYS (cal_date C after)"

section \<open>What the search finds\<close>

lemma first_some_append:
  "first_some f (xs @ ys) = (case first_some f xs of Some y \<Rightarrow> Some y | None \<Rightarrow> first_some f ys)"
  by (induction xs) (auto split: option.split)

lemma first_some_None: "first_some f xs = None \<longleftrightarrow> (\<forall>x \<in> set xs. f x = None)"
  by (induction xs) (auto split: option.split)

lemma first_some_upt:
  "first_some f [0..<n] = Some y \<Longrightarrow> \<exists>k < n. f k = Some y \<and> (\<forall>j < k. f j = None)"
proof (induction n)
  case (Suc n)
  show ?case
  proof (cases "first_some f [0..<n]")
    case None
    then have "f n = Some y" using Suc.prems by (simp add: first_some_append split: option.splits)
    moreover have "\<forall>j < n. f j = None" using None by (simp add: first_some_None)
    ultimately show ?thesis by blast
  next
    case (Some x)
    then have "first_some f [0..<n] = Some y" using Suc.prems by (simp add: first_some_append)
    then show ?thesis using Suc.IH less_Suc_eq by blast
  qed
qed simp

text \<open>The fires of a date: every matching civil time, where it resolves.\<close>

definition fires_on :: "'d calendar \<Rightarrow> cron_expr \<Rightarrow> 'd \<Rightarrow> int \<Rightarrow> bool" where
  "fires_on C e d t \<longleftrightarrow>
     day_matches C e d \<and>
     (\<exists>h < 24. \<exists>m < 60. fs_contains (hours e) h \<and> fs_contains (minutes e) m \<and> cal_resolve C d h m = Some t)"

fun days_on :: "'d calendar \<Rightarrow> nat \<Rightarrow> 'd \<Rightarrow> 'd option" where
  "days_on C 0 d = Some d"
| "days_on C (Suc n) d = (case cal_tomorrow C d of None \<Rightarrow> None | Some d' \<Rightarrow> days_on C n d')"

text \<open>
  What the search relies on of \<open>Disambiguation::Compatible\<close> in a zone whose gaps are whole hours from
  a full hour: within an hour civil time and instants run the same way; when a later hour gives an
  earlier instant, the earlier hour lies in a gap and is read as the later one, so that it has the same
  instant at the same minute; and dates follow each other.
\<close>

definition whole_hour_gaps :: "'d calendar \<Rightarrow> bool" where
  "whole_hour_gaps C \<longleftrightarrow>
     (\<forall>d h m m' t t'. cal_resolve C d h m = Some t \<and> cal_resolve C d h m' = Some t' \<and> m < m' \<longrightarrow> t \<le> t') \<and>
     (\<forall>d h m h' m' t t'. cal_resolve C d h m = Some t \<and> cal_resolve C d h' m' = Some t' \<and> h < h' \<longrightarrow>
        t \<le> t' \<or> cal_resolve C d h m' = Some t') \<and>
     (\<forall>n d d' h m h' m' t t'. days_on C (Suc n) d = Some d' \<and> cal_resolve C d h m = Some t \<and>
        cal_resolve C d' h' m' = Some t' \<longrightarrow> t \<le> t')"

lemma whole_hour_gaps_minutes:
  assumes "whole_hour_gaps C" and "cal_resolve C d h m = Some t" and "cal_resolve C d h m' = Some t'" and "m < m'"
  shows "t \<le> t'"
  using assms(1) [unfolded whole_hour_gaps_def, THEN conjunct1, rule_format, of d h m t m' t'] assms(2-4) by simp

lemma whole_hour_gaps_hours:
  assumes "whole_hour_gaps C" and "cal_resolve C d h m = Some t" and "cal_resolve C d h' m' = Some t'" and "h < h'"
  shows "t \<le> t' \<or> cal_resolve C d h m' = Some t'"
  using assms(1) [unfolded whole_hour_gaps_def, THEN conjunct2, THEN conjunct1, rule_format, of d h m t h' m' t'] assms(2-4)
  by simp

definition minute_fire :: "'d calendar \<Rightarrow> cron_expr \<Rightarrow> 'd \<Rightarrow> int \<Rightarrow> nat \<Rightarrow> nat \<Rightarrow> int option" where
  "minute_fire C e d after hour minute =
     (if \<not> fs_contains (minutes e) minute then None
      else (case cal_resolve C d hour minute of
              None \<Rightarrow> None
            | Some ts \<Rightarrow> if after < ts then Some ts else None))"

definition hour_fire :: "'d calendar \<Rightarrow> cron_expr \<Rightarrow> 'd \<Rightarrow> int \<Rightarrow> nat \<Rightarrow> int option" where
  "hour_fire C e d after hour =
     (if \<not> fs_contains (hours e) hour then None
      else first_some (minute_fire C e d after hour) [0..<60])"

lemma first_fire_on_hours: "first_fire_on C e d after = first_some (hour_fire C e d after) [0..<24]"
proof -
  have m: "minute_fire C e d after h = (\<lambda>minute.
      if \<not> fs_contains (minutes e) minute then None
      else (case cal_resolve C d h minute of
              None \<Rightarrow> None | Some ts \<Rightarrow> if after < ts then Some ts else None))" for h
    by (rule ext) (simp only: minute_fire_def)
  have "hour_fire C e d after = (\<lambda>hour.
      if \<not> fs_contains (hours e) hour then None
      else first_some (minute_fire C e d after hour) [0..<60])"
    by (rule ext) (simp only: hour_fire_def)
  then show ?thesis unfolding first_fire_on_def m by simp
qed

lemma minute_fire_Some:
  "minute_fire C e d after h m = Some ts \<longleftrightarrow>
     fs_contains (minutes e) m \<and> cal_resolve C d h m = Some ts \<and> after < ts"
  by (auto simp: minute_fire_def split: option.splits)

lemma first_fire_on_at:
  assumes "first_fire_on C e d after = Some ts"
  obtains h m where "h < 24" and "m < 60" and "fs_contains (hours e) h"
    and "minute_fire C e d after h m = Some ts"
    and "\<And>h'. h' < h \<Longrightarrow> hour_fire C e d after h' = None"
    and "\<And>m'. m' < m \<Longrightarrow> minute_fire C e d after h m' = None"
proof -
  from assms obtain h where h: "h < 24" "hour_fire C e d after h = Some ts"
    "\<forall>h' < h. hour_fire C e d after h' = None"
    using first_some_upt [OF assms [unfolded first_fire_on_hours]] by blast
  then have "fs_contains (hours e) h" and "first_some (minute_fire C e d after h) [0..<60] = Some ts"
    by (auto simp: hour_fire_def split: if_splits)
  with first_some_upt [OF this(2)] h show thesis using that by blast
qed

lemma first_fire_on_sound:
  assumes "first_fire_on C e d after = Some ts" and "day_matches C e d"
  shows "after < ts \<and> fires_on C e d ts"
proof -
  from assms(1) show ?thesis
    by (rule first_fire_on_at) (use assms(2) in \<open>auto simp: fires_on_def minute_fire_Some\<close>)
qed

lemma first_fire_on_complete:
  assumes "first_fire_on C e d after = None" and "fires_on C e d t"
  shows "t \<le> after"
proof -
  from assms(2) obtain h m where h: "h < 24" "m < 60" "fs_contains (hours e) h"
    "fs_contains (minutes e) m" "cal_resolve C d h m = Some t"
    unfolding fires_on_def by blast
  have "hour_fire C e d after h = None"
    using assms(1) h(1) by (simp add: first_fire_on_hours first_some_None)
  then have "minute_fire C e d after h m = None"
    using h(2,3) by (simp add: hour_fire_def first_some_None)
  then show ?thesis using h(4,5) by (simp add: minute_fire_def split: if_splits)
qed

lemma first_fire_on_least:
  assumes gaps: "whole_hour_gaps C" and "first_fire_on C e d after = Some ts" and "fires_on C e d t" and "after < t"
  shows "ts \<le> t"
proof -
  from assms(3) obtain h m where h: "h < 24" "m < 60" "fs_contains (hours e) h"
    "fs_contains (minutes e) m" "cal_resolve C d h m = Some t"
    unfolding fires_on_def by blast
  have t: "minute_fire C e d after h m = Some t" using h assms(4) by (simp add: minute_fire_Some)
  from assms(2) obtain h0 m0 where m0: "minute_fire C e d after h0 m0 = Some ts"
    and before: "\<And>h'. h' < h0 \<Longrightarrow> hour_fire C e d after h' = None"
    and before_m: "\<And>m'. m' < m0 \<Longrightarrow> minute_fire C e d after h0 m' = None"
    by (rule first_fire_on_at) blast
  have r0: "cal_resolve C d h0 m0 = Some ts" using m0 by (simp add: minute_fire_Some)
  have same_hour: "ts \<le> t" if "minute_fire C e d after h0 m = Some t"
  proof -
    have "\<not> m < m0" using before_m that by (metis option.distinct(1))
    then consider "m0 < m" | "m = m0" by linarith
    then show ?thesis
    proof cases
      case 1
      then show ?thesis using whole_hour_gaps_minutes [OF gaps r0, of m t] that by (simp add: minute_fire_Some)
    qed (use m0 that in simp)
  qed
  have "hour_fire C e d after h \<noteq> None"
  proof
    assume "hour_fire C e d after h = None"
    then have "minute_fire C e d after h m = None" using h(2,3) by (simp add: hour_fire_def first_some_None)
    then show False using t by simp
  qed
  then have "\<not> h < h0" using before [of h] by (rule contrapos_nn)
  then consider "h0 < h" | "h = h0" by linarith
  then show ?thesis
  proof cases
    case 1
    then have "ts \<le> t \<or> cal_resolve C d h0 m = Some t"
      using whole_hour_gaps_hours [OF gaps r0 h(5)] by simp
    then show ?thesis using same_hour h(4) assms(4) by (auto simp: minute_fire_Some)
  next
    case 2
    then show ?thesis using same_hour t by simp
  qed
qed

lemma days_on_Suc: "days_on C (Suc n) d = Some d' \<Longrightarrow> \<exists>d1. cal_tomorrow C d = Some d1 \<and> days_on C n d1 = Some d'"
  by (auto split: option.splits)

lemma search_days_sound:
  assumes "search_days C e after n d = Some ts"
  shows "after < ts \<and> (\<exists>k < n. \<exists>d'. days_on C k d = Some d' \<and> fires_on C e d' ts)"
  using assms
proof (induction n arbitrary: d)
  case (Suc n)
  show ?case
  proof (cases "if day_matches C e d then first_fire_on C e d after else None")
    case None
    then obtain d1 where d1: "cal_tomorrow C d = Some d1" "search_days C e after n d1 = Some ts"
      using Suc.prems by (auto split: option.splits)
    with Suc.IH obtain k d' where "after < ts" "k < n" "days_on C k d1 = Some d'" "fires_on C e d' ts"
      by blast
    then show ?thesis using d1(1) by (intro conjI exI [of _ "Suc k"]) auto
  next
    case (Some x)
    then have "x = ts" using Suc.prems by simp
    then show ?thesis using Some first_fire_on_sound [of C e d after ts]
      by (intro conjI exI [of _ 0]) (auto split: if_splits)
  qed
qed simp

lemma search_days_complete:
  assumes "search_days C e after n d = None" and "k < n" and "days_on C k d = Some d'"
    and "fires_on C e d' t"
  shows "t \<le> after"
  using assms
proof (induction n arbitrary: d k)
  case (Suc n)
  have none: "(if day_matches C e d then first_fire_on C e d after else None) = None"
    using Suc.prems(1) by (auto split: option.splits if_splits)
  show ?case
  proof (cases k)
    case 0
    then have "fires_on C e d t" using Suc.prems by simp
    then show ?thesis using none first_fire_on_complete [of C e d after t] by (auto simp: fires_on_def)
  next
    case (Suc k')
    then obtain d1 where d1: "cal_tomorrow C d = Some d1" "days_on C k' d1 = Some d'"
      using Suc.prems(3) days_on_Suc [of C k' d d'] by auto
    then have "search_days C e after n d1 = None" using Suc.prems(1) none by simp
    moreover have "k' < n" using \<open>k = Suc k'\<close> Suc.prems(2) by simp
    ultimately show ?thesis using Suc.IH d1(2) Suc.prems(4) by blast
  qed
qed simp

lemma search_days_least:
  assumes "whole_hour_gaps C" and "search_days C e after n d = Some ts" and "k < n"
    and "days_on C k d = Some d'" and "fires_on C e d' t" and "after < t"
  shows "ts \<le> t"
  using assms(2-5)
proof (induction n arbitrary: d k)
  case (Suc n)
  show ?case
  proof (cases "if day_matches C e d then first_fire_on C e d after else None")
    case None
    then obtain d1 where d1: "cal_tomorrow C d = Some d1" "search_days C e after n d1 = Some ts"
      using Suc.prems by (auto split: option.splits)
    show ?thesis
    proof (cases k)
      case 0
      then have "fires_on C e d t" using Suc.prems by simp
      then have "t \<le> after" using None first_fire_on_complete [of C e d after t] by (auto simp: fires_on_def)
      then show ?thesis using assms(6) by simp
    next
      case k: (Suc k')
      then have "days_on C k' d1 = Some d'" using Suc.prems(3) d1(1) by simp
      then show ?thesis using Suc.IH [OF d1(2), of k'] k Suc.prems(2,4) by simp
    qed
  next
    case (Some x)
    then have here: "first_fire_on C e d after = Some ts" "day_matches C e d"
      using Suc.prems(1) by (auto split: if_splits)
    show ?thesis
    proof (cases k)
      case 0
      then show ?thesis using first_fire_on_least [OF assms(1) here(1)] Suc.prems assms(6) by simp
    next
      case k: (Suc k')
      obtain h m where "cal_resolve C d h m = Some ts"
        using first_fire_on_sound [OF here] unfolding fires_on_def by blast
      moreover obtain h' m' where "cal_resolve C d' h' m' = Some t"
        using Suc.prems(4) unfolding fires_on_def by blast
      ultimately show ?thesis using assms(1) Suc.prems(3) k unfolding whole_hour_gaps_def by blast
    qed
  qed
qed simp

lemma next_after_later: "next_after C e after = Some ts \<Longrightarrow> after < ts"
  unfolding next_after_def by (drule search_days_sound) simp

section \<open>What a field allows\<close>

definition slot :: "bool \<Rightarrow> nat \<Rightarrow> nat" where
  "slot wrap v = (if wrap \<and> v = 7 then 0 else v)"

lemma length_mark_range [simp]: "length (mark_range wrap mn v hi step a) = length a"
proof (induction wrap mn v hi step a rule: mark_range.induct)
  case (1 wrap mn v hi step a)
  then show ?case by (subst mark_range.simps) (simp add: Let_def)
qed

lemma steps_from:
  assumes "v + step \<le> hi" and "0 < (step::nat)"
  shows "(\<exists>k. v + k * step \<le> hi \<and> P (v + k * step)) \<longleftrightarrow>
         P v \<or> (\<exists>k. v + step + k * step \<le> hi \<and> P (v + step + k * step))"
proof
  assume "\<exists>k. v + k * step \<le> hi \<and> P (v + k * step)"
  then obtain k where k: "v + k * step \<le> hi" "P (v + k * step)" by blast
  show "P v \<or> (\<exists>k. v + step + k * step \<le> hi \<and> P (v + step + k * step))"
  proof (cases k)
    case 0
    then show ?thesis using k by simp
  next
    case (Suc j)
    then show ?thesis using k by (intro disjI2 exI [of _ j]) (simp add: add.assoc)
  qed
next
  assume "P v \<or> (\<exists>k. v + step + k * step \<le> hi \<and> P (v + step + k * step))"
  then show "\<exists>k. v + k * step \<le> hi \<and> P (v + k * step)"
  proof
    assume "P v"
    then show ?thesis using assms by (intro exI [of _ 0]) simp
  next
    assume "\<exists>k. v + step + k * step \<le> hi \<and> P (v + step + k * step)"
    then obtain k where "v + step + k * step \<le> hi" "P (v + step + k * step)" by blast
    then show ?thesis by (intro exI [of _ "Suc k"]) (simp add: add.assoc)
  qed
qed

lemma last_step:
  assumes "hi < v + step" and "v \<le> hi" and "0 < (step::nat)"
  shows "(\<exists>k. v + k * step \<le> hi \<and> P (v + k * step)) \<longleftrightarrow> P v"
proof -
  have "v + k * step \<le> hi \<longleftrightarrow> k = 0" for k
    using assms by (cases k) auto
  then show ?thesis by auto
qed

lemma mark_range_nth:
  assumes "0 < step" and "hi \<le> 255" and "v \<le> hi" and "i < length a"
  shows "mark_range wrap mn v hi step a ! i \<longleftrightarrow>
    a ! i \<or> (\<exists>k. v + k * step \<le> hi \<and> slot wrap (v + k * step) - mn = i)"
  using assms
proof (induction wrap mn v hi step a rule: mark_range.induct)
  case (1 wrap mn v hi step a)
  let ?a = "a[slot wrap v - mn := True]"
  have a: "?a ! i \<longleftrightarrow> a ! i \<or> slot wrap v - mn = i"
    using "1.prems"(4) by (cases "slot wrap v - mn = i") simp_all
  show ?case
  proof (cases "v + step \<le> hi")
    case True
    then have "mark_range wrap mn v hi step a = mark_range wrap mn (v + step) hi step ?a"
      using "1.prems" by (subst mark_range.simps) (simp add: Let_def slot_def)
    moreover have "mark_range wrap mn (v + step) hi step ?a ! i \<longleftrightarrow>
        ?a ! i \<or> (\<exists>k. v + step + k * step \<le> hi \<and> slot wrap (v + step + k * step) - mn = i)"
      using "1.IH" [OF refl refl refl] True "1.prems" by (simp add: slot_def)
    ultimately show ?thesis
      unfolding steps_from [OF True "1.prems"(1), where P = "\<lambda>x. slot wrap x - mn = i"]
      by (simp only: a disj_assoc)
  next
    case False
    then have "mark_range wrap mn v hi step a = ?a"
      using "1.prems" by (subst mark_range.simps) (simp add: Let_def slot_def)
    moreover have "hi < v + step" using False by simp
    ultimately show ?thesis
      using a last_step [of hi v step "\<lambda>x. slot wrap x - mn = i"] "1.prems" by simp
  qed
qed

text \<open>What one item of a list stands for.\<close>

definition item_covers :: "string \<Rightarrow> nat \<Rightarrow> nat \<Rightarrow> bool \<Rightarrow> string \<Rightarrow> nat \<Rightarrow> bool" where
  "item_covers nm mn mx wrap item v \<longleftrightarrow>
     (\<exists>rng step lo hi k. item_step nm item = Inr (rng, step) \<and> item_range nm mn mx rng = Inr (lo, hi) \<and>
        lo + k * step \<le> hi \<and> slot wrap (lo + k * step) = v)"

lemma item_step_pos: "item_step nm item = Inr (rng, step) \<Longrightarrow> 0 < step"
  by (auto simp: item_step_def split: option.splits if_splits)

lemma parse_value_range: "parse_value text nm mn mx = Inr v \<Longrightarrow> mn \<le> v \<and> v \<le> mx"
  by (auto simp: parse_value_def split: option.splits if_splits)

lemma item_range_bounds:
  "item_range nm mn mx rng = Inr (lo, hi) \<Longrightarrow> mn \<le> mx \<Longrightarrow> mn \<le> lo \<and> lo \<le> mx \<and> mn \<le> hi \<and> hi \<le> mx"
  by (auto simp: item_range_def split: option.splits if_splits dest: parse_value_range)

lemma parse_item_nth:
  assumes run: "parse_item text nm mn mx wrap a item = Inr a'" and "mn \<le> mx" and "mx \<le> 255"
    and wrap: "wrap \<Longrightarrow> mn = 0" and i: "i < length a"
  shows "a' ! i \<longleftrightarrow> a ! i \<or> item_covers nm mn mx wrap item (mn + i)"
proof -
  from run obtain rng step lo hi where st: "item_step nm item = Inr (rng, step)"
    and rg: "item_range nm mn mx rng = Inr (lo, hi)" and le: "lo \<le> hi"
    and a': "a' = mark_range wrap mn lo hi step a"
    by (auto simp: parse_item_def split: if_splits prod.splits)
  have b: "mn \<le> lo" "hi \<le> 255" using item_range_bounds [OF rg] assms(2,3) by auto
  have "slot wrap (lo + k * step) - mn = i \<longleftrightarrow> slot wrap (lo + k * step) = mn + i" for k
    using b(1) wrap by (auto simp: slot_def)
  then show ?thesis
    using mark_range_nth [OF item_step_pos [OF st] b(2) le i, of wrap mn] st rg
    by (simp add: a' item_covers_def)
qed

lemma length_parse_item: "parse_item text nm mn mx wrap a item = Inr a' \<Longrightarrow> length a' = length a"
  by (auto simp: parse_item_def split: if_splits prod.splits)

lemma parse_items_nth:
  assumes "foldM (parse_item text nm mn mx wrap) a its = Inr a'" and "mn \<le> mx" and "mx \<le> 255"
    and "wrap \<Longrightarrow> mn = 0" and "i < length a"
  shows "length a' = length a \<and>
    (a' ! i \<longleftrightarrow> a ! i \<or> (\<exists>item \<in> set its. item_covers nm mn mx wrap item (mn + i)))"
  using assms
proof (induction its arbitrary: a)
  case (Cons item its)
  then obtain a1 where a1: "parse_item text nm mn mx wrap a item = Inr a1"
    and rest: "foldM (parse_item text nm mn mx wrap) a1 its = Inr a'" by auto
  have len: "length a1 = length a" by (rule length_parse_item [OF a1])
  show ?case
    using Cons.IH [OF rest] Cons.prems parse_item_nth [OF a1] len by auto
qed simp

lemma parse_field_contains:
  assumes run: "parse_field text nm mn mx wrap = Inr f" and "mn \<le> mx" and "mx \<le> 255"
    and wrap: "wrap \<Longrightarrow> mn = 0"
  shows "fs_contains f v \<longleftrightarrow>
    mn \<le> v \<and> v < mn + (if wrap then mx - mn else mx - mn + 1) \<and>
    (\<exists>item \<in> set (split_on CHR '','' text). item_covers nm mn mx wrap item v)"
proof -
  let ?store = "if wrap then mx - mn else mx - mn + 1"
  from run obtain a where items: "foldM (parse_item text nm mn mx wrap) (replicate ?store False)
      (split_on CHR '','' text) = Inr a"
    and f: "f = \<lparr>fs_min = mn, fs_allowed = a, fs_restricted = (text \<noteq> ''*'')\<rparr>"
    by (auto simp: parse_field_def Let_def)
  have len: "length a = ?store"
    using items by (rule foldM_invariant [where P = "\<lambda>x. length x = ?store"]) (auto dest: length_parse_item)
  show ?thesis
  proof (cases "mn \<le> v \<and> v - mn < ?store")
    case True
    then have "a ! (v - mn) \<longleftrightarrow> (\<exists>item \<in> set (split_on CHR '','' text). item_covers nm mn mx wrap item v)"
      using parse_items_nth [OF items assms(2,3) wrap, of "v - mn"] by simp
    then show ?thesis using True len by (auto simp: fs_contains_def f Let_def)
  next
    case False
    then show ?thesis using len by (auto simp: fs_contains_def f Let_def)
  qed
qed

section \<open>A concrete calendar\<close>

text \<open>Days of 24 hours in years of twelve months of 30 days, without transitions.\<close>

definition minute_ns :: int where
  "minute_ns = 60000000000"

definition day_ns :: int where
  "day_ns = 1440 * minute_ns"

definition plain_resolve :: "int \<Rightarrow> nat \<Rightarrow> nat \<Rightarrow> int option" where
  "plain_resolve d h m =
     (if h < 24 \<and> m < 60 then Some (d * day_ns + int (60 * h + m) * minute_ns) else None)"

definition plain_calendar :: "int calendar" where
  "plain_calendar =
     \<lparr>cal_date = (\<lambda>t. t div day_ns), cal_tomorrow = (\<lambda>d. Some (d + 1)),
      cal_month = (\<lambda>d. nat ((d div 30) mod 12) + 1), cal_day = (\<lambda>d. nat (d mod 30) + 1),
      cal_weekday = (\<lambda>d. nat (d mod 7)), cal_resolve = plain_resolve, cal_min = - 1000 * day_ns\<rparr>"

lemma plain_days_on: "days_on plain_calendar n d = Some (d + int n)"
  by (induction n arbitrary: d) (simp_all add: plain_calendar_def)

lemma plain_within:
  assumes "plain_resolve d h m = Some t"
  shows "d * day_ns \<le> t \<and> t < (d + 1) * day_ns"
  using assms by (auto simp: plain_resolve_def day_ns_def minute_ns_def algebra_simps split: if_splits)

lemma plain_later_day:
  assumes "plain_resolve d h m = Some t" and "plain_resolve d' h' m' = Some t'" and "d < d'"
  shows "t \<le> t'"
proof -
  have "(d + 1) * day_ns \<le> d' * day_ns"
    using assms(3) by (intro mult_right_mono) (simp_all add: day_ns_def minute_ns_def)
  then show ?thesis using plain_within [OF assms(1)] plain_within [OF assms(2)] by linarith
qed

lemma plain_later_time:
  assumes "plain_resolve d h m = Some t" and "plain_resolve d h' m' = Some t'" and "h < h' \<or> h = h' \<and> m < m'"
  shows "t \<le> t'"
proof -
  have "60 * h + m \<le> 60 * h' + m'" using assms by (auto simp: plain_resolve_def split: if_splits)
  then have "int (60 * h + m) * minute_ns \<le> int (60 * h' + m') * minute_ns"
    by (intro mult_right_mono) (simp_all add: minute_ns_def)
  then show ?thesis using assms by (auto simp: plain_resolve_def split: if_splits)
qed

lemma plain_resolves [simp]: "cal_resolve plain_calendar = plain_resolve"
  by (simp add: plain_calendar_def)

lemma plain_gaps: "whole_hour_gaps plain_calendar"
  unfolding whole_hour_gaps_def plain_resolves plain_days_on
proof (intro conjI allI impI)
  fix d h m m' t t'
  assume "plain_resolve d h m = Some t \<and> plain_resolve d h m' = Some t' \<and> m < m'"
  then show "t \<le> t'" using plain_later_time by blast
next
  fix d h m h' m' t t'
  assume "plain_resolve d h m = Some t \<and> plain_resolve d h' m' = Some t' \<and> h < h'"
  then show "t \<le> t' \<or> plain_resolve d h m' = Some t'" using plain_later_time by blast
next
  fix n d d' h m h' m' t t'
  assume "Some (d + int (Suc n)) = Some d' \<and> plain_resolve d h m = Some t \<and> plain_resolve d' h' m' = Some t'"
  then show "t \<le> t'" using plain_later_day [of d h m t d' h' m' t'] by auto
qed

text \<open>
  The same days in a zone with daylight saving time: on day 0 the clocks go forward at two in the
  morning, so that 2:00 to 2:59 do not exist and are read one hour later.
\<close>

definition hour_ns :: int where
  "hour_ns = 60 * minute_ns"

definition spring_resolve :: "int \<Rightarrow> nat \<Rightarrow> nat \<Rightarrow> int option" where
  "spring_resolve d h m =
     map_option (\<lambda>t. if 0 < d \<or> d = 0 \<and> 3 \<le> h then t - hour_ns else t) (plain_resolve d h m)"

definition spring_calendar :: "int calendar" where
  "spring_calendar = plain_calendar
     \<lparr>cal_date := (\<lambda>t. (if 2 * hour_ns \<le> t then t + hour_ns else t) div day_ns), cal_resolve := spring_resolve\<rparr>"

lemma spring_Some:
  "spring_resolve d h m = Some t \<longleftrightarrow>
     h < 24 \<and> m < 60 \<and>
     t = (d * 1440 + int (60 * h + m) - (if 0 < d \<or> d = 0 \<and> 3 \<le> h then 60 else 0)) * minute_ns"
  by (auto simp: spring_resolve_def plain_resolve_def day_ns_def hour_ns_def minute_ns_def)

lemma minutes_le: "i * minute_ns \<le> j * minute_ns \<longleftrightarrow> i \<le> j" "i * minute_ns = j * minute_ns \<longleftrightarrow> i = j"
  by (simp_all add: minute_ns_def)

lemma spring_days_on: "days_on spring_calendar n d = Some (d + int n)"
  by (induction n arbitrary: d) (simp_all add: spring_calendar_def plain_calendar_def)

lemma spring_gaps: "whole_hour_gaps spring_calendar"
proof -
  have r: "cal_resolve spring_calendar = spring_resolve" by (simp add: spring_calendar_def)
  show ?thesis
    unfolding whole_hour_gaps_def r spring_days_on
  proof (intro conjI allI impI)
    fix d h m m' t t'
    assume "spring_resolve d h m = Some t \<and> spring_resolve d h m' = Some t' \<and> m < m'"
    then show "t \<le> t'" unfolding spring_Some by (auto simp: minutes_le)
  next
    fix d h m h' m' t t'
    assume a: "spring_resolve d h m = Some t \<and> spring_resolve d h' m' = Some t' \<and> h < h'"
    show "t \<le> t' \<or> spring_resolve d h m' = Some t'"
    proof (cases "d = 0 \<and> h = 2 \<and> h' = 3")
      case True
      then show ?thesis using a unfolding spring_Some by simp
    next
      case False
      then have "t \<le> t'" using a unfolding spring_Some by (auto simp: minutes_le)
      then show ?thesis by simp
    qed
  next
    fix n d d' h m h' m' t t'
    assume "Some (d + int (Suc n)) = Some d' \<and> spring_resolve d h m = Some t \<and> spring_resolve d' h' m' = Some t'"
    then show "t \<le> t'" unfolding spring_Some by (auto simp: minutes_le)
  qed
qed

text \<open>The same days, with a forward transition of half an hour at two in the morning: the civil
  times from 2:00 to 2:29 do not exist and resolve, as \<open>Disambiguation::Compatible\<close> says, by the
  length of the gap later.\<close>

definition gap_resolve :: "int \<Rightarrow> nat \<Rightarrow> nat \<Rightarrow> int option" where
  "gap_resolve d h m = (if h = 2 \<and> m < 30 then plain_resolve d h (m + 30) else plain_resolve d h m)"

definition gap_calendar :: "int calendar" where
  "gap_calendar = plain_calendar\<lparr>cal_resolve := gap_resolve\<rparr>"

section \<open>Properties\<close>


definition half_past_two :: cron_expr where
  "half_past_two = projr (parse_cron ''30 2 * * *'')"

lemma next_half_past_two: "next_after plain_calendar half_past_two 0 = Some (150 * minute_ns)"
proof -
  have "search_days plain_calendar half_past_two 0 (Suc n) 0 = Some (150 * minute_ns)" for n
  proof -
    have "day_matches plain_calendar half_past_two 0" by code_simp
    moreover have "first_fire_on plain_calendar half_past_two 0 0 = Some (150 * minute_ns)" by code_simp
    ultimately show ?thesis by simp
  qed
  moreover have "SEARCH_HORIZON_DAYS = Suc 2195" by (simp add: SEARCH_HORIZON_DAYS_def)
  moreover have "cal_date plain_calendar 0 = 0" by (simp add: plain_calendar_def)
  ultimately show ?thesis unfolding next_after_def by metis
qed

text \<open>Asked from 3:10 of the short day, ten minutes after the gap: the fire of 2:30 is still to come, at 3:30.\<close>

lemma next_in_gap: "next_after spring_calendar half_past_two (130 * minute_ns) = Some (150 * minute_ns)"
proof -
  have "search_days spring_calendar half_past_two (130 * minute_ns) (Suc n) 0 = Some (150 * minute_ns)" for n
  proof -
    have "day_matches spring_calendar half_past_two 0" by code_simp
    moreover have "first_fire_on spring_calendar half_past_two 0 (130 * minute_ns) = Some (150 * minute_ns)" by code_simp
    ultimately show ?thesis by simp
  qed
  moreover have "SEARCH_HORIZON_DAYS = Suc 2195" by (simp add: SEARCH_HORIZON_DAYS_def)
  moreover have "cal_date spring_calendar (130 * minute_ns) = 0" by code_simp
  ultimately show ?thesis unfolding next_after_def by metis
qed


text \<open>
  A field means its items: the set a field parses to holds a value exactly when the value is in
  the range of the field and some item of the comma-separated list reaches it by its range and step,
  with 7 standing for 0 in the day of the week.
\<close>

theorem parse_field_meaning:
  assumes "parse_field text nm mn mx wrap = Inr f" and "mn \<le> mx" and "mx \<le> 255" and "wrap \<longrightarrow> mn = 0"
  shows "fs_contains f v \<longleftrightarrow>
    mn \<le> v \<and> v < mn + (if wrap then mx - mn else mx - mn + 1) \<and>
    (\<exists>item \<in> set (split_on CHR '','' text). item_covers nm mn mx wrap item v)"
  using parse_field_contains [OF assms(1-3)] assms(4) by blast

theorem parse_field_witness:
  "\<exists>item \<in> set (split_on CHR '','' ''1-5/2,7''). item_covers ''day of week'' 0 7 True item 0"
proof -
  obtain f where f: "parse_field ''1-5/2,7'' ''day of week'' 0 7 True = Inr f" and "fs_contains f 0"
  proof -
    have "(case parse_field ''1-5/2,7'' ''day of week'' 0 7 True of Inl _ \<Rightarrow> False | Inr f \<Rightarrow> fs_contains f 0)"
      by code_simp
    then show thesis using that by (auto split: sum.splits)
  qed
  then show ?thesis using parse_field_meaning [OF f, of 0] by simp
qed

text \<open>
  The search goes by civil time, and a gap shorter than an hour breaks it: with a transition of
  half an hour the first match in civil order, 2:15, resolves to 2:45, and \<open>next_after\<close> gives it
  although the expression fires at 2:30, which is then skipped.
\<close>

theorem half_hour_gap_skips_a_fire:
  "\<exists>e ts t. parse_cron ''15,30 2 * * *'' = Inr e \<and> next_after gap_calendar e 0 = Some ts \<and>
     fires_on gap_calendar e (cal_date gap_calendar 0) t \<and> 0 < t \<and> t < ts \<and>
     next_after gap_calendar e ts \<noteq> Some t"
proof -
  obtain e where e: "parse_cron ''15,30 2 * * *'' = Inr e"
    and facts: "day_matches gap_calendar e 0 \<and> first_fire_on gap_calendar e 0 0 = Some (165 * minute_ns) \<and>
      fs_contains (hours e) 2 \<and> fs_contains (minutes e) 30"
  proof -
    have "(case parse_cron ''15,30 2 * * *'' of Inl _ \<Rightarrow> False | Inr e \<Rightarrow>
      day_matches gap_calendar e 0 \<and> first_fire_on gap_calendar e 0 0 = Some (165 * minute_ns) \<and>
      fs_contains (hours e) 2 \<and> fs_contains (minutes e) 30)" by code_simp
    then show thesis using that by (auto split: sum.splits)
  qed
  have "search_days gap_calendar e 0 (Suc n) 0 = Some (165 * minute_ns)" for n using facts by simp
  moreover have "SEARCH_HORIZON_DAYS = Suc 2195" by (simp add: SEARCH_HORIZON_DAYS_def)
  moreover have "cal_date gap_calendar 0 = 0" by (simp add: gap_calendar_def plain_calendar_def)
  ultimately have fire: "next_after gap_calendar e 0 = Some (165 * minute_ns)"
    unfolding next_after_def by metis
  have "cal_resolve gap_calendar 0 2 30 = Some (150 * minute_ns)"
    by (simp add: gap_calendar_def gap_resolve_def plain_resolve_def)
  then have fires: "fires_on gap_calendar e (cal_date gap_calendar 0) (150 * minute_ns)"
    using facts unfolding fires_on_def
    by (intro conjI exI [of _ 2] exI [of _ 30]) (simp_all add: gap_calendar_def plain_calendar_def)
  have "next_after gap_calendar e (165 * minute_ns) \<noteq> Some (150 * minute_ns)"
    using next_after_later [of gap_calendar e "165 * minute_ns" "150 * minute_ns"] by (auto simp: minute_ns_def)
  then show ?thesis using e fire fires by (intro exI [of _ e]) (auto simp: minute_ns_def)
qed

end
