(* ===== verification/CronHeap.thy ===== *)
theory CronHeap
  imports Cron
begin

text \<open>
  The timer heap of the cron orders (\<^verbatim>\<open>crates/camp-core/src/orders/cron.rs\<close>, with the \<open>Order\<close>
  of \<^verbatim>\<open>crates/camp-core/src/orders/mod.rs\<close>): arming, firing what is due with the catch-up rule,
  and the recovery from a jump of the wall clock.

  The \<open>BinaryHeap\<close> over \<open>Reverse<(Timestamp, usize)>\<close> is the sorted list of its entries: only
  its minimum is ever observed, and the order on entries is total. \<open>SignedDuration\<close> is an \<open>int\<close>
  of nanoseconds, \<open>std::time::Duration\<close> a \<open>nat\<close>.
\<close>

section \<open>Orders and fires\<close>

datatype trigger = CronTrigger cron_expr | EventTrigger string "string option"

record Order =
  o_name :: string
  o_trigger :: trigger
  o_formula :: string
  o_rig :: "string option"
  o_catch_up_window :: nat

record Fire =
  fire_order :: string
  fire_scheduled :: int
  fire_catch_up :: bool

record CatchUp =
  cu_order :: string
  cu_scheduled :: int

definition second :: int where
  "second = 1000000000"

definition ON_TIME_TOLERANCE :: int where
  "ON_TIME_TOLERANCE = 60 * second"

definition into_fire :: "int \<Rightarrow> CatchUp \<Rightarrow> Fire" where
  "into_fire now c =
     \<lparr>fire_order = cu_order c, fire_scheduled = cu_scheduled c,
      fire_catch_up = (ON_TIME_TOLERANCE < now - cu_scheduled c)\<rparr>"

text \<open>\<open>SignedDuration::try_from\<close>: the seconds must fit an \<open>i64\<close>.\<close>

definition signed_duration :: "nat \<Rightarrow> int option" where
  "signed_duration w = (if int w div second \<le> i64_max then Some (int w) else None)"

definition window_allows :: "nat \<Rightarrow> int \<Rightarrow> bool" where
  "window_allows window lateness =
     (case signed_duration window of None \<Rightarrow> False | Some w \<Rightarrow> 0 < w \<and> lateness \<le> w)"

definition checked_sub :: "'d calendar \<Rightarrow> int \<Rightarrow> int \<Rightarrow> int option" where
  "checked_sub C t d = (if cal_min C \<le> t - d then Some (t - d) else None)"

text \<open>The scan: fire after fire from the cursor, up to \<open>now\<close>.\<close>

function missed_loop ::
    "'d calendar \<Rightarrow> cron_expr \<Rightarrow> nat \<Rightarrow> int \<Rightarrow> int \<Rightarrow> int option \<Rightarrow> int option" where
  "missed_loop C e window now cursor most_recent =
     (case next_after C e cursor of
        None \<Rightarrow> most_recent
      | Some fire \<Rightarrow>
          if now < fire then most_recent
          else
            let lateness = now - fire in
            missed_loop C e window now fire
              (if lateness \<le> ON_TIME_TOLERANCE \<or> window_allows window lateness then Some fire
               else most_recent))"
  by pat_completeness auto
termination
  by (relation "measure (\<lambda>(C, e, window, now, cursor, m). nat (now - cursor))")
    (auto dest: next_after_later)

declare missed_loop.simps [simp del]

definition most_recent_missed ::
    "'d calendar \<Rightarrow> cron_expr \<Rightarrow> nat \<Rightarrow> int \<Rightarrow> int \<Rightarrow> int option" where
  "most_recent_missed C e window now last_seen =
     (case signed_duration window of
        None \<Rightarrow> None
      | Some w \<Rightarrow>
          if w \<le> 0 then None
          else
            let floor = (case checked_sub C now w of
                   None \<Rightarrow> last_seen
                 | Some t \<Rightarrow> (case checked_sub C t ON_TIME_TOLERANCE of None \<Rightarrow> last_seen | Some t' \<Rightarrow> t'));
                cursor = (if last_seen < floor then floor else last_seen)
            in missed_loop C e window now cursor None)"

section \<open>The heap\<close>

record 'd CronHeap =
  h_tz :: "'d calendar"
  h_orders :: "Order list"
  h_entries :: "(int \<times> nat) list"

definition heap_new :: "'d calendar \<Rightarrow> 'd CronHeap" where
  "heap_new tz = \<lparr>h_tz = tz, h_orders = [], h_entries = []\<rparr>"

definition push :: "int \<times> nat \<Rightarrow> (int \<times> nat) list \<Rightarrow> (int \<times> nat) list" where
  "push e es = insort e es"

definition arm :: "Order \<Rightarrow> int \<Rightarrow> 'd CronHeap \<Rightarrow> 'd CronHeap res" where
  "arm order now h =
     (case o_trigger order of
        EventTrigger _ _ \<Rightarrow>
          Inl (core_error.Order (o_name order) (Msg ''only cron orders arm the timer heap'' []))
      | CronTrigger e \<Rightarrow>
          (case next_after (h_tz h) e now of
             None \<Rightarrow> Inl (core_error.Order (o_name order) (Msg
               ''cron expression {:?} never fires within the {SEARCH_HORIZON_DAYS}-day search horizon''
               [ce_source e]))
           | Some next \<Rightarrow>
               Inr (h\<lparr>h_orders := h_orders h @ [order],
                      h_entries := push (next, length (h_orders h)) (h_entries h)\<rparr>)))"

definition next_deadline :: "'d CronHeap \<Rightarrow> int option" where
  "next_deadline h = (case h_entries h of [] \<Rightarrow> None | (t, _) # _ \<Rightarrow> Some t)"

text \<open>What one popped deadline fires.\<close>

definition due_fires :: "'d calendar \<Rightarrow> int \<Rightarrow> Order \<Rightarrow> int \<Rightarrow> Fire list" where
  "due_fires C now order deadline =
     (let lateness = now - deadline in
      if lateness \<le> ON_TIME_TOLERANCE
      then [\<lparr>fire_order = o_name order, fire_scheduled = deadline, fire_catch_up = False\<rparr>]
      else (case o_trigger order of
              CronTrigger e \<Rightarrow>
                let scan_from = (case checked_sub C deadline second of None \<Rightarrow> deadline | Some t \<Rightarrow> t) in
                (case most_recent_missed C e (o_catch_up_window order) now scan_from of
                   Some scheduled \<Rightarrow>
                     [\<lparr>fire_order = o_name order, fire_scheduled = scheduled,
                       fire_catch_up = (ON_TIME_TOLERANCE < now - scheduled)\<rparr>]
                 | None \<Rightarrow> [])
            | EventTrigger _ _ \<Rightarrow> []))"

definition reschedule :: "'d calendar \<Rightarrow> int \<Rightarrow> Order \<Rightarrow> nat \<Rightarrow> (int \<times> nat) list \<Rightarrow> (int \<times> nat) list" where
  "reschedule C now order idx es =
     (case o_trigger order of
        CronTrigger e \<Rightarrow> (case next_after C e now of Some next \<Rightarrow> push (next, idx) es | None \<Rightarrow> es)
      | EventTrigger _ _ \<Rightarrow> es)"

lemma length_filter_insort:
  "length (filter q (insort x xs)) = (if q x then 1 else 0) + length (filter q xs)"
  by (induction xs) auto

lemma reschedule_due:
  "length (filter (\<lambda>(t, _). t \<le> now) (reschedule C now order idx es)) = length (filter (\<lambda>(t, _). t \<le> now) es)"
  by (auto simp: reschedule_def push_def length_filter_insort split: trigger.split option.split
      dest: next_after_later)

text \<open>The loop pops while the earliest entry is due. \<open>None\<close> is the panic of \<open>self.orders[idx]\<close>.\<close>

function fire_loop ::
    "'d calendar \<Rightarrow> Order list \<Rightarrow> int \<Rightarrow> (int \<times> nat) list \<Rightarrow> Fire list \<Rightarrow>
     ((int \<times> nat) list \<times> Fire list) option" where
  "fire_loop C orders now [] fires = Some ([], fires)"
| "fire_loop C orders now ((deadline, idx) # es) fires =
     (if now < deadline then Some ((deadline, idx) # es, fires)
      else if length orders \<le> idx then None
      else fire_loop C orders now (reschedule C now (orders ! idx) idx es)
             (fires @ due_fires C now (orders ! idx) deadline))"
  by pat_completeness auto
termination
  by (relation "measure (\<lambda>(C, orders, now, es, fires). length (filter (\<lambda>(t, _). t \<le> now) es))")
    (auto simp: reschedule_due)

definition fire_due :: "int \<Rightarrow> 'd CronHeap \<Rightarrow> ('d CronHeap \<times> Fire list) option" where
  "fire_due now h =
     (case fire_loop (h_tz h) (h_orders h) now (h_entries h) [] of
        None \<Rightarrow> None
      | Some (es, fires) \<Rightarrow> Some (h\<lparr>h_entries := es\<rparr>, fires))"

fun recompute_loop ::
    "'d calendar \<Rightarrow> int \<Rightarrow> int \<Rightarrow> (nat \<times> Order) list \<Rightarrow> (int \<times> nat) list \<Rightarrow> CatchUp list \<Rightarrow>
     (int \<times> nat) list \<times> CatchUp list" where
  "recompute_loop C now last_seen [] es cs = (es, cs)"
| "recompute_loop C now last_seen ((idx, order) # os) es cs =
     (case o_trigger order of
        EventTrigger _ _ \<Rightarrow> recompute_loop C now last_seen os es cs
      | CronTrigger e \<Rightarrow>
          recompute_loop C now last_seen os (reschedule C now order idx es)
            (cs @ (if last_seen < now
                   then (case most_recent_missed C e (o_catch_up_window order) now last_seen of
                           None \<Rightarrow> []
                         | Some t \<Rightarrow> [\<lparr>cu_order = o_name order, cu_scheduled = t\<rparr>])
                   else [])))"

definition recompute :: "int \<Rightarrow> int \<Rightarrow> 'd CronHeap \<Rightarrow> 'd CronHeap \<times> CatchUp list" where
  "recompute now last_seen h =
     (let (es, cs) = recompute_loop (h_tz h) now last_seen (enumerate 0 (h_orders h)) [] []
      in (h\<lparr>h_entries := es\<rparr>, cs))"

section \<open>The invariant of the heap\<close>

text \<open>Sorted, one entry at most for an order, and only for cron orders that exist.\<close>

definition entries_ok :: "Order list \<Rightarrow> (int \<times> nat) list \<Rightarrow> bool" where
  "entries_ok orders es \<longleftrightarrow> sorted es \<and> distinct (map snd es) \<and> list_all (\<lambda>(_, i). i < length orders) es"

definition heap_ok :: "'d CronHeap \<Rightarrow> bool" where
  "heap_ok h \<longleftrightarrow> entries_ok (h_orders h) (h_entries h)"

lemma heap_ok_new: "heap_ok (heap_new tz)"
  by (simp add: heap_ok_def entries_ok_def heap_new_def)

lemma distinct_push: "distinct (map snd (push e es)) \<longleftrightarrow> snd e \<notin> snd ` set es \<and> distinct (map snd es)"
  unfolding push_def by (induction es) (auto simp: set_insort_key)

lemma push_ok:
  assumes "entries_ok orders es" and "i < length orders" and "i \<notin> snd ` set es"
  shows "entries_ok orders (push (t, i) es)"
proof -
  have "sorted (push (t, i) es)" using assms(1) by (simp add: push_def entries_ok_def sorted_insort)
  moreover have "distinct (map snd (push (t, i) es))"
    using assms by (simp add: distinct_push entries_ok_def)
  moreover have "list_all (\<lambda>(_, i). i < length orders) (push (t, i) es)"
    using assms by (auto simp: push_def entries_ok_def list_all_iff set_insort_key)
  ultimately show ?thesis by (simp add: entries_ok_def)
qed

lemma set_push [simp]: "set (push e es) = insert e (set es)"
  by (simp add: push_def set_insort_key)

lemma arm_ok:
  assumes "heap_ok h" and "arm order now h = Inr h'"
  shows "heap_ok h'"
proof -
  from assms(2) obtain t where h': "h' = h\<lparr>h_orders := h_orders h @ [order],
                      h_entries := push (t, length (h_orders h)) (h_entries h)\<rparr>"
    by (auto simp: arm_def split: trigger.splits option.splits)
  have "entries_ok (h_orders h @ [order]) (h_entries h)"
    using assms(1) by (auto simp: heap_ok_def entries_ok_def list_all_iff)
  moreover have "length (h_orders h) \<notin> snd ` set (h_entries h)"
    using assms(1) by (auto simp: heap_ok_def entries_ok_def list_all_iff)
  ultimately show ?thesis by (simp add: heap_ok_def h' push_ok)
qed

lemma reschedule_ok:
  "entries_ok orders es \<Longrightarrow> idx < length orders \<Longrightarrow> idx \<notin> snd ` set es \<Longrightarrow>
   entries_ok orders (reschedule C now order idx es)"
  by (auto simp: reschedule_def push_ok split: trigger.split option.split)

text \<open>A missed fire that may still fire: it is not in the future, and on time or inside the window.\<close>

definition in_window :: "nat \<Rightarrow> int \<Rightarrow> int \<Rightarrow> bool" where
  "in_window window now t \<longleftrightarrow> t \<le> now \<and> (now - t \<le> ON_TIME_TOLERANCE \<or> window_allows window (now - t))"

lemma missed_loop_in_window:
  "missed_loop C e window now cursor m = Some t \<Longrightarrow> (\<And>t0. m = Some t0 \<Longrightarrow> in_window window now t0) \<Longrightarrow> in_window window now t"
proof (induction C e window now cursor m rule: missed_loop.induct)
  case (1 C e window now cursor m)
  show ?case
  proof (cases "next_after C e cursor")
    case None
    then show ?thesis using "1.prems" by (simp add: missed_loop.simps [of C e window now cursor])
  next
    case (Some f)
    show ?thesis
    proof (cases "now < f")
      case True
      then show ?thesis using "1.prems" Some by (simp add: missed_loop.simps [of C e window now cursor])
    next
      case False
      let ?m = "if now - f \<le> ON_TIME_TOLERANCE \<or> window_allows window (now - f) then Some f else m"
      have "missed_loop C e window now f ?m = Some t"
        using "1.prems"(1) Some False
        by (subst (asm) missed_loop.simps) (simp add: Let_def)
      moreover have "in_window window now t0" if "?m = Some t0" for t0
        using that False "1.prems"(2) by (simp add: in_window_def split: if_splits)
      ultimately show ?thesis by (rule "1.IH" [OF Some False refl])
    qed
  qed
qed

lemma most_recent_missed_in_window: "most_recent_missed C e w now ls = Some t \<Longrightarrow> in_window w now t"
  by (auto simp: most_recent_missed_def Let_def split: option.splits if_splits dest: missed_loop_in_window)

lemma most_recent_missed_le: "most_recent_missed C e w now ls = Some t \<Longrightarrow> t \<le> now"
  by (drule most_recent_missed_in_window) (simp add: in_window_def)

text \<open>From a fire inside the window the scan goes on to the last fire that is not in the future.\<close>

lemma missed_loop_last:
  "m = Some cursor \<Longrightarrow> window_allows window (now - cursor) \<Longrightarrow> cursor \<le> now \<Longrightarrow>
   \<exists>s. missed_loop C e window now cursor m = Some s \<and> cursor \<le> s \<and> s \<le> now \<and> (\<forall>n. next_after C e s = Some n \<longrightarrow> now < n)"
proof (induction C e window now cursor m rule: missed_loop.induct)
  case (1 C e window now cursor m)
  show ?case
  proof (cases "\<exists>f. next_after C e cursor = Some f \<and> f \<le> now")
    case False
    then have "missed_loop C e window now cursor m = Some cursor"
      using "1.prems" by (subst missed_loop.simps) (auto split: option.split)
    then show ?thesis using False "1.prems" by auto
  next
    case True
    then obtain f where f: "next_after C e cursor = Some f" "f \<le> now" by blast
    then have later: "cursor < f" using next_after_later by blast
    have allowed: "window_allows window (now - f)"
      using "1.prems"(2) later by (auto simp: window_allows_def split: option.splits)
    then obtain s where "missed_loop C e window now f (Some f) = Some s" "f \<le> s" "s \<le> now"
      "\<forall>n. next_after C e s = Some n \<longrightarrow> now < n"
      using "1.IH" [OF f(1) _ refl] f(2) by auto
    moreover from this have "missed_loop C e window now cursor m = Some s"
      using f allowed by (subst missed_loop.simps) (simp add: Let_def)
    ultimately show ?thesis using later by (intro exI [of _ s]) auto
  qed
qed

lemma most_recent_missed_last:
  assumes "next_after C e (t - second) = Some t" and "window_allows w (now - t)" and "t \<le> now"
  shows "\<exists>s. most_recent_missed C e w now (t - second) = Some s \<and> t \<le> s \<and> s \<le> now \<and>
    (\<forall>n. next_after C e s = Some n \<longrightarrow> now < n)"
proof -
  obtain sw where sw: "signed_duration w = Some sw" "0 < sw" "now - t \<le> sw"
    using assms(2) by (auto simp: window_allows_def split: option.splits)
  have "\<not> t - second < now - sw - ON_TIME_TOLERANCE" using sw(3) by (simp add: ON_TIME_TOLERANCE_def second_def)
  then have "most_recent_missed C e w now (t - second) = missed_loop C e w now (t - second) None"
    using sw by (auto simp: most_recent_missed_def checked_sub_def)
  also have "\<dots> = missed_loop C e w now t (Some t)"
    using assms by (subst missed_loop.simps) (simp add: Let_def)
  finally show ?thesis using missed_loop_last [OF refl assms(2,3), of C e] by simp
qed

text \<open>The fires of one deadline.\<close>

definition fires_of_deadline :: "'d calendar \<Rightarrow> int \<Rightarrow> Order \<Rightarrow> int \<Rightarrow> Fire \<Rightarrow> bool" where
  "fires_of_deadline C now order t f \<longleftrightarrow>
     fire_order f = o_name order \<and> fire_catch_up f = (ON_TIME_TOLERANCE < now - fire_scheduled f) \<and>
     (if now - t \<le> ON_TIME_TOLERANCE then fire_scheduled f = t
      else in_window (o_catch_up_window order) now (fire_scheduled f))"

lemma due_fires_sound: "f \<in> set (due_fires C now order t) \<Longrightarrow> fires_of_deadline C now order t f"
  by (auto simp: due_fires_def fires_of_deadline_def Let_def split: if_splits trigger.splits option.splits
      dest: most_recent_missed_in_window [OF sym])

lemma due_fires_on_time:
  "now - t \<le> ON_TIME_TOLERANCE \<Longrightarrow>
     \<lparr>fire_order = o_name order, fire_scheduled = t, fire_catch_up = False\<rparr> \<in> set (due_fires C now order t)"
  by (simp add: due_fires_def)

lemma due_fires_missed:
  assumes "ON_TIME_TOLERANCE < now - t" and "o_trigger order = CronTrigger e" and "cal_min C \<le> t - second"
    and "next_after C e (t - second) = Some t" and "window_allows (o_catch_up_window order) (now - t)"
  shows "\<exists>s. \<lparr>fire_order = o_name order, fire_scheduled = s, fire_catch_up = (ON_TIME_TOLERANCE < now - s)\<rparr>
      \<in> set (due_fires C now order t) \<and> t \<le> s \<and> s \<le> now \<and> (\<forall>n. next_after C e s = Some n \<longrightarrow> now < n)"
proof -
  have "t \<le> now" using assms(1) by (simp add: ON_TIME_TOLERANCE_def second_def)
  from most_recent_missed_last [OF assms(4,5) this] show ?thesis
    using assms(1-3) by (auto simp: due_fires_def checked_sub_def Let_def)
qed

lemma due_fires_at:
  assumes "deadline \<le> now"
  shows "length (due_fires C now order deadline) \<le> 1 \<and>
    (\<forall>f \<in> set (due_fires C now order deadline). fire_order f = o_name order \<and> fire_scheduled f \<le> now)"
  using assms
  by (auto simp: due_fires_def Let_def split: trigger.split option.split dest: most_recent_missed_le)

text \<open>The loop ends with nothing due, and every entry fired once at most.\<close>

lemma fire_loop_ok:
  assumes "entries_ok orders es"
  shows "\<exists>es' fs. fire_loop C orders now es fires = Some (es', fires @ fs) \<and> entries_ok orders es' \<and>
    (\<forall>(t, i) \<in> set es'. now < t) \<and> length fs \<le> length (filter (\<lambda>(t, _). t \<le> now) es) \<and>
    (\<forall>f \<in> set fs. fire_order f \<in> o_name ` set orders \<and> fire_scheduled f \<le> now)"
  using assms
proof (induction C orders now es fires rule: fire_loop.induct)
  case (1 C orders now fires)
  then show ?case by simp
next
  case (2 C orders now deadline idx es fires)
  show ?case
  proof (cases "now < deadline")
    case True
    have "\<forall>(t, i) \<in> set ((deadline, idx) # es). now < t"
      using "2.prems" True by (fastforce simp: entries_ok_def)
    then show ?thesis using True "2.prems" by (intro exI [of _ "(deadline, idx) # es"] exI [of _ "[]"]) auto
  next
    case False
    let ?order = "orders ! idx"
    have idx: "idx < length orders" "idx \<notin> snd ` set es" and es: "entries_ok orders es"
      using "2.prems" by (auto simp: entries_ok_def)
    have due: "length (due_fires C now ?order deadline) \<le> 1"
      "\<forall>f \<in> set (due_fires C now ?order deadline). fire_order f = o_name ?order \<and> fire_scheduled f \<le> now"
      using due_fires_at [of deadline now C ?order] False by auto
    have "\<exists>es' fs. fire_loop C orders now (reschedule C now ?order idx es) (fires @ due_fires C now ?order deadline)
          = Some (es', (fires @ due_fires C now ?order deadline) @ fs) \<and> entries_ok orders es' \<and>
        (\<forall>(t, i) \<in> set es'. now < t) \<and> length fs \<le> length (filter (\<lambda>(t, _). t \<le> now) (reschedule C now ?order idx es)) \<and>
        (\<forall>f \<in> set fs. fire_order f \<in> o_name ` set orders \<and> fire_scheduled f \<le> now)"
      by (rule "2.IH" [OF False _ reschedule_ok [OF es idx]]) (use idx in simp)
    then obtain es' fs where go: "fire_loop C orders now (reschedule C now ?order idx es)
          (fires @ due_fires C now ?order deadline)
          = Some (es', (fires @ due_fires C now ?order deadline) @ fs)" and ok: "entries_ok orders es'"
      "\<forall>(t, i) \<in> set es'. now < t" "length fs \<le> length (filter (\<lambda>(t, _). t \<le> now) es)"
      "\<forall>f \<in> set fs. fire_order f \<in> o_name ` set orders \<and> fire_scheduled f \<le> now"
      unfolding reschedule_due by blast
    have "?order \<in> set orders" using idx by simp
    then show ?thesis
      using go ok due False idx
      by (intro exI [of _ es'] exI [of _ "due_fires C now ?order deadline @ fs"]) auto
  qed
qed

text \<open>What the loop does to the entries: each due one fires in turn, and is rescheduled from \<open>now\<close>.\<close>

definition due :: "int \<Rightarrow> int \<times> nat \<Rightarrow> bool" where
  "due now e \<longleftrightarrow> fst e \<le> now"

definition rescheduled :: "'d calendar \<Rightarrow> Order list \<Rightarrow> int \<Rightarrow> (int \<times> nat) list \<Rightarrow> (int \<times> nat) set" where
  "rescheduled C orders now es =
     {(n, i). \<exists>t e. (t, i) \<in> set es \<and> t \<le> now \<and> o_trigger (orders ! i) = CronTrigger e \<and> next_after C e now = Some n}"

lemma filter_insort_later: "\<not> P x \<Longrightarrow> filter P (insort x xs) = filter P xs"
  by (induction xs) auto

lemma reschedule_filter: "filter (due now) (reschedule C now order i es) = filter (due now) es"
  by (auto simp: reschedule_def push_def due_def filter_insort_later split: trigger.split option.split dest: next_after_later)

lemma fire_loop_exact:
  assumes "sorted es" and "fire_loop C orders now es fires = Some (es', fires')"
  shows "fires' = fires @ concat (map (\<lambda>(t, i). due_fires C now (orders ! i) t) (filter (due now) es)) \<and>
    set es' = {x \<in> set es. \<not> due now x} \<union> rescheduled C orders now es"
  using assms
proof (induction C orders now es fires rule: fire_loop.induct)
  case (2 C orders now deadline idx es fires)
  show ?case
  proof (cases "now < deadline")
    case True
    then have "\<forall>x \<in> set ((deadline, idx) # es). \<not> due now x"
      using "2.prems"(1) by (fastforce simp: due_def)
    then show ?thesis using True "2.prems"(2) by (force simp: rescheduled_def due_def)
  next
    case False
    let ?order = "orders ! idx"
    let ?es = "reschedule C now ?order idx es"
    have idx: "\<not> length orders \<le> idx" using "2.prems"(2) False by auto
    have "sorted ?es" using "2.prems"(1) by (auto simp: reschedule_def push_def sorted_insort split: trigger.split option.split)
    moreover have "fire_loop C orders now ?es (fires @ due_fires C now ?order deadline) = Some (es', fires')"
      using "2.prems"(2) False idx by simp
    ultimately have IH: "fires' = (fires @ due_fires C now ?order deadline) @
        concat (map (\<lambda>(t, i). due_fires C now (orders ! i) t) (filter (due now) ?es))"
      "set es' = {x \<in> set ?es. \<not> due now x} \<union> rescheduled C orders now ?es"
      using "2.IH" [OF False idx] by blast+
    have "{x \<in> set ?es. \<not> due now x} \<union> rescheduled C orders now ?es =
        {x \<in> set ((deadline, idx) # es). \<not> due now x} \<union> rescheduled C orders now ((deadline, idx) # es)"
      using False
      by (auto simp: reschedule_def rescheduled_def due_def split: trigger.splits option.splits dest: next_after_later)
    moreover have "due now (deadline, idx)" using False by (simp add: due_def)
    ultimately show ?thesis using IH by (simp add: reschedule_filter)
  qed
qed (simp add: rescheduled_def)

lemma fire_due_ok:
  assumes "heap_ok h"
  shows "\<exists>h' fires. fire_due now h = Some (h', fires) \<and> heap_ok h' \<and>
    (\<forall>(t, i) \<in> set (h_entries h'). now < t) \<and>
    length fires \<le> length (filter (\<lambda>(t, _). t \<le> now) (h_entries h)) \<and>
    (\<forall>f \<in> set fires. fire_order f \<in> o_name ` set (h_orders h) \<and> fire_scheduled f \<le> now)"
  using fire_loop_ok [of "h_orders h" "h_entries h" "h_tz h" now "[]"] assms
  by (auto simp: fire_due_def heap_ok_def)

lemma recompute_loop_ok:
  assumes "entries_ok orders es" and "list_all (\<lambda>(i, _). i < length orders \<and> i \<notin> snd ` set es) os"
    and "distinct (map fst os)" and "recompute_loop C now last_seen os es cs = (es', cs')"
    and "\<forall>(t, i) \<in> set es. now < t"
  shows "entries_ok orders es' \<and> (\<forall>(t, i) \<in> set es'. now < t)"
  using assms
proof (induction os arbitrary: es cs)
  case (Cons io os)
  obtain i order where io: "io = (i, order)" by (cases io)
  define es1 where "es1 = (case o_trigger order of
      EventTrigger _ _ \<Rightarrow> es | CronTrigger e \<Rightarrow> reschedule C now order i es)"
  have i: "i < length orders" "i \<notin> snd ` set es" using Cons.prems(2) io by auto
  have ok: "entries_ok orders es1"
    using reschedule_ok [OF Cons.prems(1) i] Cons.prems(1) by (auto simp: es1_def split: trigger.split)
  have later: "\<forall>(t, i) \<in> set es1. now < t"
    using Cons.prems(5) by (auto simp: es1_def reschedule_def split: trigger.split option.split dest: next_after_later)
  have sub: "snd ` set es1 \<subseteq> insert i (snd ` set es)"
    by (auto simp: es1_def reschedule_def split: trigger.splits option.splits)
  have rest: "list_all (\<lambda>(i, _). i < length orders \<and> i \<notin> snd ` set es1) os"
    unfolding list_all_iff
  proof
    fix p assume p: "p \<in> set os"
    obtain j o' where jo: "p = (j, o')" by (cases p)
    then have "j \<in> fst ` set os" using p by force
    then have "j \<noteq> i" using Cons.prems(3) io by auto
    moreover have "j < length orders" "j \<notin> snd ` set es"
      using Cons.prems(2) p jo by (auto simp: list_all_iff)
    ultimately show "case p of (i, _) \<Rightarrow> i < length orders \<and> i \<notin> snd ` set es1"
      using sub jo by auto
  qed
  have "\<exists>cs1. recompute_loop C now last_seen os es1 cs1 = (es', cs')"
    using Cons.prems(4) by (cases "o_trigger order") (auto simp: io es1_def)
  then show ?case using Cons.IH [OF ok rest] Cons.prems(3) later by auto
qed simp

lemma recompute_ok:
  assumes "recompute now last_seen h = (h', cs)"
  shows "heap_ok h' \<and> (\<forall>(t, i) \<in> set (h_entries h'). now < t)"
proof -
  obtain es' where run: "recompute_loop (h_tz h) now last_seen (enumerate 0 (h_orders h)) [] [] = (es', cs)"
    and h': "h' = h\<lparr>h_entries := es'\<rparr>"
    using assms by (auto simp: recompute_def split: prod.splits)
  have "list_all (\<lambda>(i, _). i < length (h_orders h) \<and> i \<notin> snd ` set ([] :: (int \<times> nat) list))
      (enumerate 0 (h_orders h))"
    by (auto simp: list_all_iff in_set_enumerate_eq)
  then show ?thesis
    using recompute_loop_ok [of "h_orders h" "[]" "enumerate 0 (h_orders h)", OF _ _ _ run]
    by (simp add: h' heap_ok_def entries_ok_def)
qed

section \<open>An overslept poll and a jump of the clock are the same\<close>

text \<open>What the code relies on of a calendar in a zone: order within and between dates, and that
  an instant's date is reached from an earlier instant's by going to the next date.\<close>

definition civil :: "'d calendar \<Rightarrow> bool" where
  "civil C \<longleftrightarrow>
     whole_hour_gaps C \<and>
     (\<forall>a b. a \<le> b \<longrightarrow> (\<exists>k. days_on C k (cal_date C a) = Some (cal_date C b))) \<and>
     (\<forall>n d x h m t. days_on C (Suc n) d = Some (cal_date C x) \<and> cal_resolve C d h m = Some t \<longrightarrow> t \<le> x)"

lemma days_on_add:
  "days_on C (j + k) d = (case days_on C j d of None \<Rightarrow> None | Some d' \<Rightarrow> days_on C k d')"
  by (induction j arbitrary: d) (auto split: option.split)

lemma fires_resolve: "fires_on C e d t \<Longrightarrow> \<exists>h m. cal_resolve C d h m = Some t"
  by (auto simp: fires_on_def)

lemma next_after_stable:
  assumes civil: "civil C" and d: "next_after C e a = Some d" and x: "a \<le> x" "x < d"
  shows "next_after C e x = Some d"
proof -
  have ord: "whole_hour_gaps C" using civil by (simp add: civil_def)
  from search_days_sound [OF d [unfolded next_after_def]] obtain j dj where j: "j < SEARCH_HORIZON_DAYS"
    and dj: "days_on C j (cal_date C a) = Some dj" and fd: "fires_on C e dj d" by blast
  from civil x(1) obtain k where k: "days_on C k (cal_date C a) = Some (cal_date C x)"
    unfolding civil_def by blast
  have kj: "k \<le> j"
  proof (rule ccontr)
    assume "\<not> k \<le> j"
    then obtain n where n: "k = j + Suc n" using less_imp_Suc_add [of j k] by auto
    then have "days_on C (Suc n) dj = Some (cal_date C x)"
      using k dj by (simp only: n days_on_add option.case)
    then have "d \<le> x" using civil fires_resolve [OF fd] unfolding civil_def by blast
    then show False using x(2) by simp
  qed
  then obtain i where i: "j = k + i" using le_Suc_ex by blast
  have di: "days_on C i (cal_date C x) = Some dj"
    using dj k by (simp add: i days_on_add)
  have iH: "i < SEARCH_HORIZON_DAYS" using i j by simp
  show ?thesis
  proof (cases "next_after C e x")
    case None
    then have "d \<le> x"
      using search_days_complete [OF _ iH di fd] unfolding next_after_def by blast
    then show ?thesis using x(2) by simp
  next
    case (Some d')
    from search_days_sound [OF Some [unfolded next_after_def]] obtain m dm where m: "x < d'"
      "m < SEARCH_HORIZON_DAYS" "days_on C m (cal_date C x) = Some dm" "fires_on C e dm d'" by blast
    have le: "d' \<le> d"
      by (rule search_days_least [OF ord Some [unfolded next_after_def] iH di fd x(2)])
    have dm: "days_on C (k + m) (cal_date C a) = Some dm"
      using m(3) k by (simp add: days_on_add)
    have "d \<le> d'"
    proof (cases "k + m < SEARCH_HORIZON_DAYS")
      case True
      then show ?thesis
        using search_days_least [OF ord d [unfolded next_after_def] True dm m(4)] m(1) x(1) by simp
    next
      case False
      then obtain n where n: "k + m = j + Suc n" using j less_imp_Suc_add [of j "k + m"] by auto
      then have "days_on C (Suc n) dj = Some dm"
        using dm dj by (simp only: n days_on_add option.case)
      then show ?thesis
        using ord fires_resolve [OF fd] fires_resolve [OF m(4)] unfolding whole_hour_gaps_def by blast
    qed
    with le Some show ?thesis by simp
  qed
qed

lemma missed_loop_cong:
  "next_after C e a = next_after C e b \<Longrightarrow> missed_loop C e w now a m = missed_loop C e w now b m"
  by (subst (1 2) missed_loop.simps) simp

lemma most_recent_missed_stable:
  assumes civil: "civil C" and d: "next_after C e a = Some d" and x: "a \<le> x" "x < d"
  shows "most_recent_missed C e w now x = most_recent_missed C e w now a"
proof (cases "signed_duration w")
  case (Some sw)
  have same: "missed_loop C e w now (if x < f then f else x) None = missed_loop C e w now (if a < f then f else a) None" for f
  proof (rule missed_loop_cong)
    show "next_after C e (if x < f then f else x) = next_after C e (if a < f then f else a)"
      using next_after_stable [OF civil d] x d by (auto simp: not_less)
  qed
  have same': "missed_loop C e w now x None = missed_loop C e w now a None"
    using next_after_stable [OF civil d x] d by (intro missed_loop_cong) simp
  show ?thesis
    using same same' Some
    by (simp add: most_recent_missed_def Let_def split: option.split)
qed (simp add: most_recent_missed_def)

lemma plain_civil: "civil plain_calendar"
  unfolding civil_def
proof (intro conjI allI impI)
  show "whole_hour_gaps plain_calendar" by (rule plain_gaps)
next
  fix a b :: int
  assume "a \<le> b"
  then have "a div day_ns \<le> b div day_ns" by (intro zdiv_mono1) (simp_all add: day_ns_def minute_ns_def)
  then show "\<exists>k. days_on plain_calendar k (cal_date plain_calendar a) = Some (cal_date plain_calendar b)"
    by (intro exI [of _ "nat (b div day_ns - a div day_ns)"])
      (simp add: plain_days_on, simp add: plain_calendar_def)
next
  fix n d x h m t
  assume "days_on plain_calendar (Suc n) d = Some (cal_date plain_calendar x) \<and>
    cal_resolve plain_calendar d h m = Some t"
  then have x: "x div day_ns = d + 1 + int n" and t: "t < (d + 1) * day_ns"
    using plain_within [of d h m t] unfolding plain_days_on plain_resolves by (auto simp: plain_calendar_def)
  have "(d + 1) * day_ns \<le> (x div day_ns) * day_ns"
    unfolding x by (intro mult_right_mono) (simp_all add: day_ns_def minute_ns_def)
  also have "\<dots> \<le> x" by (simp add: day_ns_def minute_ns_def minus_mod_eq_div_mult [symmetric])
  finally show "t \<le> x" using t by simp
qed

section \<open>Properties\<close>

text \<open>The heaps campd has: orders armed, deadlines fired, the clock jumped.\<close>

inductive cron_heap :: "'d calendar \<Rightarrow> 'd CronHeap \<Rightarrow> bool" for C :: "'d calendar" where
  start: "cron_heap C (heap_new C)"
| armed: "cron_heap C h \<Longrightarrow> arm order now h = Inr h' \<Longrightarrow> cron_heap C h'"
| fired: "cron_heap C h \<Longrightarrow> fire_due now h = Some (h', fires) \<Longrightarrow> cron_heap C h'"
| jumped: "cron_heap C h \<Longrightarrow> recompute now last_seen h = (h', cs) \<Longrightarrow> cron_heap C h'"

lemma cron_heap_ok: "cron_heap C h \<Longrightarrow> heap_ok h"
proof (induction rule: cron_heap.induct)
  case (fired h now h' fires)
  then show ?case using fire_due_ok [of h now] by auto
qed (auto intro: heap_ok_new arm_ok dest: recompute_ok)

lemma cron_heap_zone: "cron_heap C h \<Longrightarrow> h_tz h = C"
proof (induction rule: cron_heap.induct)
  case (armed h order now h')
  then show ?case by (auto simp: arm_def split: trigger.splits option.splits)
next
  case (fired h now h' fires)
  then show ?case by (auto simp: fire_due_def split: option.splits)
next
  case (jumped h now last_seen h' cs)
  then show ?case by (auto simp: recompute_def split: prod.splits)
qed (simp add: heap_new_def)

lemma fire_due_exact:
  assumes "heap_ok h" and "fire_due now h = Some (h', fires)"
  shows "set fires = (\<Union>(t, i) \<in> {x \<in> set (h_entries h). due now x}. set (due_fires (h_tz h) now (h_orders h ! i) t)) \<and>
    set (h_entries h') = {x \<in> set (h_entries h). \<not> due now x} \<union> rescheduled (h_tz h) (h_orders h) now (h_entries h)"
proof -
  obtain es where run: "fire_loop (h_tz h) (h_orders h) now (h_entries h) [] = Some (es, fires)" and h': "h_entries h' = es"
    using assms(2) by (auto simp: fire_due_def split: option.splits)
  have "sorted (h_entries h)" using assms(1) by (simp add: heap_ok_def entries_ok_def)
  from fire_loop_exact [OF this run] show ?thesis unfolding h' by (auto simp: split_def)
qed

text \<open>
  C39. \<open>fire_due\<close> fires what is due, once: on every heap campd can have it returns without an index
  panic. A deadline that is due within the tolerance fires at that deadline; an older one inside the
  catch-up window fires once, for the last fire of its order that is not in the future (when one second
  before the deadline, where the scan starts, the deadline is the next fire). Every fire comes from a
  due deadline of its order, late fires are inside the window and flagged, and there are no more fires
  than due deadlines. Afterwards the heap has the deadlines that were not due and, for each order that
  was, its next fire after \<open>now\<close>: nothing is due and no order is armed twice.
\<close>

theorem fire_due_drains:
  assumes "cron_heap C h"
  shows "\<exists>h' fires. fire_due now h = Some (h', fires) \<and>
    (\<forall>(t, i) \<in> set (h_entries h). now - t \<le> ON_TIME_TOLERANCE \<and> t \<le> now \<longrightarrow>
       \<lparr>fire_order = o_name (h_orders h ! i), fire_scheduled = t, fire_catch_up = False\<rparr> \<in> set fires) \<and>
    (\<forall>(t, i) \<in> set (h_entries h). \<forall>e. ON_TIME_TOLERANCE < now - t \<and> o_trigger (h_orders h ! i) = CronTrigger e \<and>
         window_allows (o_catch_up_window (h_orders h ! i)) (now - t) \<and>
         cal_min C \<le> t - second \<and> next_after C e (t - second) = Some t \<longrightarrow>
       (\<exists>s. \<lparr>fire_order = o_name (h_orders h ! i), fire_scheduled = s, fire_catch_up = (ON_TIME_TOLERANCE < now - s)\<rparr> \<in> set fires \<and>
          t \<le> s \<and> s \<le> now \<and> (\<forall>n. next_after C e s = Some n \<longrightarrow> now < n))) \<and>
    (\<forall>f \<in> set fires. \<exists>(t, i) \<in> set (h_entries h). t \<le> now \<and> i < length (h_orders h) \<and>
       fires_of_deadline C now (h_orders h ! i) t f) \<and>
    length fires \<le> length (filter (\<lambda>(t, _). t \<le> now) (h_entries h)) \<and>
    set (h_entries h') = {(t, i). (t, i) \<in> set (h_entries h) \<and> now < t} \<union> rescheduled C (h_orders h) now (h_entries h) \<and>
    (\<forall>t. next_deadline h' = Some t \<longrightarrow> now < t) \<and> distinct (map snd (h_entries h'))"
proof -
  have ok: "heap_ok h" and tz: "h_tz h = C" using cron_heap_ok [OF assms] cron_heap_zone [OF assms] .
  obtain h' fires where run: "fire_due now h = Some (h', fires)" and ok': "heap_ok h'"
    and later: "\<forall>(t, i) \<in> set (h_entries h'). now < t"
    and few: "length fires \<le> length (filter (\<lambda>(t, _). t \<le> now) (h_entries h))"
    using fire_due_ok [OF ok, of now] by blast
  have fires: "set fires = (\<Union>(t, i) \<in> {x \<in> set (h_entries h). due now x}. set (due_fires C now (h_orders h ! i) t))"
    and rest: "set (h_entries h') = {x \<in> set (h_entries h). \<not> due now x} \<union> rescheduled C (h_orders h) now (h_entries h)"
    using fire_due_exact [OF ok run] tz by simp_all
  have from_due: "f \<in> set fires" if "(t, i) \<in> set (h_entries h)" "t \<le> now" "f \<in> set (due_fires C now (h_orders h ! i) t)" for f t i
    using that unfolding fires due_def by force
  have "i < length (h_orders h)" if "(t, i) \<in> set (h_entries h)" for t i
    using ok that by (auto simp: heap_ok_def entries_ok_def list_all_iff)
  then have source: "\<forall>f \<in> set fires. \<exists>(t, i) \<in> set (h_entries h). t \<le> now \<and> i < length (h_orders h) \<and>
      fires_of_deadline C now (h_orders h ! i) t f"
    unfolding fires due_def by (fastforce dest: due_fires_sound)
  have on_time: "\<forall>(t, i) \<in> set (h_entries h). now - t \<le> ON_TIME_TOLERANCE \<and> t \<le> now \<longrightarrow>
       \<lparr>fire_order = o_name (h_orders h ! i), fire_scheduled = t, fire_catch_up = False\<rparr> \<in> set fires"
    using from_due due_fires_on_time by fastforce
  have missed: "\<exists>s. \<lparr>fire_order = o_name (h_orders h ! i), fire_scheduled = s, fire_catch_up = (ON_TIME_TOLERANCE < now - s)\<rparr> \<in> set fires \<and>
          t \<le> s \<and> s \<le> now \<and> (\<forall>n. next_after C e s = Some n \<longrightarrow> now < n)"
    if "(t, i) \<in> set (h_entries h)" "ON_TIME_TOLERANCE < now - t" "o_trigger (h_orders h ! i) = CronTrigger e"
      "window_allows (o_catch_up_window (h_orders h ! i)) (now - t)" "cal_min C \<le> t - second" "next_after C e (t - second) = Some t"
    for t i e
  proof -
    have "t \<le> now" using that(2) by (simp add: ON_TIME_TOLERANCE_def second_def)
    then show ?thesis using due_fires_missed [OF that(2,3,5,6,4)] from_due [OF that(1)] by blast
  qed
  have "now < t" if "next_deadline h' = Some t" for t
    using later that by (auto simp: next_deadline_def split: list.splits)
  moreover have "{x \<in> set (h_entries h). \<not> due now x} = {(t, i). (t, i) \<in> set (h_entries h) \<and> now < t}"
    by (auto simp: due_def)
  moreover have "distinct (map snd (h_entries h'))" using ok' by (simp add: heap_ok_def entries_ok_def)
  ultimately show ?thesis using run on_time missed source few rest by (intro exI [of _ h'] exI [of _ fires]) auto
qed

definition nightly :: Order where
  "nightly = \<lparr>o_name = ''nightly'', o_trigger = CronTrigger half_past_two, o_formula = ''f'', o_rig = None,
     o_catch_up_window = 7200000000000\<rparr>"

definition nightly_heap :: "int CronHeap" where
  "nightly_heap = \<lparr>h_tz = plain_calendar, h_orders = [nightly], h_entries = [(150 * minute_ns, 0)]\<rparr>"

lemma nightly_armed: "arm nightly 0 (heap_new plain_calendar) = Inr nightly_heap"
  by (simp add: arm_def nightly_def nightly_heap_def heap_new_def next_half_past_two push_def)

lemma nightly_cron_heap: "cron_heap plain_calendar nightly_heap"
  by (rule cron_heap.armed [OF cron_heap.start nightly_armed])

lemma next_before_deadline: "next_after plain_calendar half_past_two (150 * minute_ns - second) = Some (150 * minute_ns)"
proof -
  have "search_days plain_calendar half_past_two (150 * minute_ns - second) (Suc n) 0 = Some (150 * minute_ns)" for n
  proof -
    have "day_matches plain_calendar half_past_two 0" by code_simp
    moreover have "first_fire_on plain_calendar half_past_two 0 (150 * minute_ns - second) = Some (150 * minute_ns)" by code_simp
    ultimately show ?thesis by simp
  qed
  moreover have "SEARCH_HORIZON_DAYS = Suc 2195" by (simp add: SEARCH_HORIZON_DAYS_def)
  moreover have "cal_date plain_calendar (150 * minute_ns - second) = 0" by code_simp
  ultimately show ?thesis unfolding next_after_def by metis
qed

text \<open>One minute late the order fires on time; an hour late it fires as a catch-up.\<close>

theorem fire_due_witness:
  "(\<exists>h' fires. fire_due (151 * minute_ns) nightly_heap = Some (h', fires) \<and>
      \<lparr>fire_order = ''nightly'', fire_scheduled = 150 * minute_ns, fire_catch_up = False\<rparr> \<in> set fires) \<and>
   (\<exists>h' fires s. fire_due (210 * minute_ns) nightly_heap = Some (h', fires) \<and>
      \<lparr>fire_order = ''nightly'', fire_scheduled = s, fire_catch_up = (ON_TIME_TOLERANCE < 210 * minute_ns - s)\<rparr> \<in> set fires)"
proof -
  have at: "set (h_entries nightly_heap) = {(150 * minute_ns, 0)}" "h_orders nightly_heap ! 0 = nightly"
    by (simp_all add: nightly_heap_def)
  have "151 * minute_ns - 150 * minute_ns \<le> ON_TIME_TOLERANCE" "150 * minute_ns \<le> 151 * minute_ns"
    by (simp_all add: minute_ns_def ON_TIME_TOLERANCE_def second_def)
  then have one: "\<exists>h' fires. fire_due (151 * minute_ns) nightly_heap = Some (h', fires) \<and>
      \<lparr>fire_order = ''nightly'', fire_scheduled = 150 * minute_ns, fire_catch_up = False\<rparr> \<in> set fires"
    using fire_due_drains [OF nightly_cron_heap, of "151 * minute_ns"] unfolding at by (auto simp: at nightly_def)
  have "ON_TIME_TOLERANCE < 210 * minute_ns - 150 * minute_ns" "o_trigger nightly = CronTrigger half_past_two"
    "window_allows (o_catch_up_window nightly) (210 * minute_ns - 150 * minute_ns)"
    "cal_min plain_calendar \<le> 150 * minute_ns - second"
    by (simp_all add: nightly_def minute_ns_def ON_TIME_TOLERANCE_def second_def window_allows_def signed_duration_def
        i64_max_def plain_calendar_def day_ns_def)
  then have "\<exists>h' fires s. fire_due (210 * minute_ns) nightly_heap = Some (h', fires) \<and>
      \<lparr>fire_order = ''nightly'', fire_scheduled = s, fire_catch_up = (ON_TIME_TOLERANCE < 210 * minute_ns - s)\<rparr> \<in> set fires"
    using fire_due_drains [OF nightly_cron_heap, of "210 * minute_ns"] next_before_deadline unfolding at
    by (fastforce simp: at nightly_def)
  then show ?thesis using one by (rule conjI [rotated])
qed

text \<open>
  Sleeping past a deadline and seeing the clock jump over it are the same: for an armed order
  whose deadline passed longer ago than the tolerance, \<open>fire_due\<close> gives the fires that \<open>recompute\<close>
  gives as catch-ups, and leaves the same heap, whenever campd last looked at the clock between the
  arming and the deadline.
\<close>

theorem overslept_is_a_jump:
  assumes civil: "civil C" and h: "h = \<lparr>h_tz = C, h_orders = [order], h_entries = [(d, 0)]\<rparr>"
    and cron: "o_trigger order = CronTrigger e" and d: "next_after C e armed = Some d"
    and late: "ON_TIME_TOLERANCE < now - d" and scan: "armed \<le> d - second" "cal_min C \<le> d - second"
    and seen: "armed \<le> last_seen" "last_seen < d"
  shows "\<exists>h' cs. recompute now last_seen h = (h', cs) \<and> fire_due now h = Some (h', map (into_fire now) cs)"
proof -
  let ?missed = "most_recent_missed C e (o_catch_up_window order) now"
  let ?catch = "case ?missed armed of None \<Rightarrow> [] | Some t \<Rightarrow> [\<lparr>cu_order = o_name order, cu_scheduled = t\<rparr>]"
  have second: "0 < second" by (simp add: second_def)
  have due: "\<not> now < d" "\<not> now - d \<le> ON_TIME_TOLERANCE" "last_seen < now"
    using late seen by (auto simp: ON_TIME_TOLERANCE_def second_def)
  have m1: "?missed (d - second) = ?missed armed"
    using most_recent_missed_stable [OF civil d scan(1)] second by simp
  have m2: "?missed last_seen = ?missed armed"
    using most_recent_missed_stable [OF civil d seen] by simp
  have fires: "due_fires C now order d = map (into_fire now) ?catch"
    using due scan(2) m1
    by (simp add: due_fires_def Let_def cron checked_sub_def into_fire_def split: option.split)
  have later: "now < fst x" if "x \<in> set (reschedule C now order 0 [])" for x
    using that by (auto simp: reschedule_def cron push_def split: option.splits dest: next_after_later [OF sym])
  have stop: "fire_loop C [order] now (reschedule C now order 0 []) fs = Some (reschedule C now order 0 [], fs)" for fs
    using later by (cases "reschedule C now order 0 []") (auto simp: reschedule_def cron push_def split: option.splits)
  have "fire_due now h = Some (h\<lparr>h_entries := reschedule C now order 0 []\<rparr>, map (into_fire now) ?catch)"
    unfolding fire_due_def h using due(1) stop fires by simp
  moreover have "recompute now last_seen h = (h\<lparr>h_entries := reschedule C now order 0 []\<rparr>, ?catch)"
    unfolding recompute_def h using cron due(3) m2 by (simp add: enumerate_eq_zip)
  ultimately show ?thesis by blast
qed

theorem overslept_witness:
  "\<exists>h' cs. recompute (200 * minute_ns) (10 * minute_ns) nightly_heap = (h', cs) \<and>
     fire_due (200 * minute_ns) nightly_heap = Some (h', map (into_fire (200 * minute_ns)) cs)"
  by (rule overslept_is_a_jump [OF plain_civil nightly_heap_def _ next_half_past_two])
    (simp_all add: nightly_def minute_ns_def ON_TIME_TOLERANCE_def second_def plain_calendar_def day_ns_def)

end
