(* ===== verification/Patrol.thy ===== *)
theory Patrol
  imports Prelude "HOL-Library.AList"
begin

text \<open>
  The health patrol state machines (\<^verbatim>\<open>crates/camp-core/src/patrol/mod.rs\<close> and
  \<^verbatim>\<open>timers.rs\<close>): the configuration, the escalation ladder per bead, and the timer store per
  session. A \<open>HashMap\<close> is an association list with distinct keys, whose order nothing observes.
  Durations and instants of \<open>jiff\<close> are nanoseconds; its duration parser and its latest instant
  are arguments.
\<close>

section \<open>Configuration\<close>

definition SD_MAX :: int where
  "SD_MAX = 9223372036854775807 * 1000000000 + 999999999"

definition SD_MIN :: int where
  "SD_MIN = - 9223372036854775808 * 1000000000 - 999999999"

definition parse_duration :: "(string \<Rightarrow> string + int) \<Rightarrow> string \<Rightarrow> int res" where
  "parse_duration jiff s =
     (case jiff s of
        Inl e \<Rightarrow> Inl (Config (Msg ''duration {s:?} does not parse: {e}'' [s, e]))
      | Inr d \<Rightarrow>
          if d \<le> 0 then Inl (Config (Msg ''duration {s:?} must be strictly positive'' [s]))
          else Inr d)"

record PatrolSection =
  se_stall_after :: string
  se_restart_budget :: nat
  se_release_grace :: string

record PatrolConfig =
  stall_after :: int
  restart_budget :: nat
  release_grace :: int

text \<open>The label is put in front of the error's own text.\<close>

definition labeled :: "string \<Rightarrow> int res \<Rightarrow> int res" where
  "labeled key r =
     (case r of
        Inl (Config (Msg tm args)) \<Rightarrow> Inl (Config (Msg (''[patrol] {key}: config: '' @ tm) (key # args)))
      | Inl e \<Rightarrow> Inl e
      | Inr d \<Rightarrow> Inr d)"

definition from_section :: "(string \<Rightarrow> string + int) \<Rightarrow> PatrolSection \<Rightarrow> PatrolConfig res" where
  "from_section jiff s =
     rbind (labeled ''stall_after'' (parse_duration jiff (se_stall_after s))) (\<lambda>sa.
     rbind (labeled ''release_grace'' (parse_duration jiff (se_release_grace s))) (\<lambda>rg.
       Inr \<lparr>stall_after = sa, restart_budget = se_restart_budget s, release_grace = rg\<rparr>))"

section \<open>The ladder\<close>

datatype ladder_action = Nudge | Restart | Exhausted

datatype next_step = NextNudge | NextRestart

record ladder_state =
  ls_restarts :: nat
  ls_next :: next_step

record Ladder =
  la_budget :: nat
  la_states :: "(string \<times> ladder_state) list"

definition ladder_new :: "nat \<Rightarrow> Ladder" where
  "ladder_new budget = \<lparr>la_budget = budget, la_states = []\<rparr>"

definition fresh_state :: ladder_state where
  "fresh_state = \<lparr>ls_restarts = 0, ls_next = NextNudge\<rparr>"

text \<open>\<open>entry(bead).or_insert(\<dots>)\<close>: the state of a bead, a fresh one when it has none.\<close>

definition state_of :: "Ladder \<Rightarrow> string \<Rightarrow> ladder_state" where
  "state_of l bead = (case map_of (la_states l) bead of None \<Rightarrow> fresh_state | Some s \<Rightarrow> s)"

definition put_state :: "string \<Rightarrow> ladder_state \<Rightarrow> Ladder \<Rightarrow> Ladder" where
  "put_state bead s l = l\<lparr>la_states := AList.update bead s (la_states l)\<rparr>"

definition on_fire :: "string \<Rightarrow> Ladder \<Rightarrow> Ladder \<times> ladder_action" where
  "on_fire bead l =
     (let s = state_of l bead in
      case ls_next s of
        NextNudge \<Rightarrow> (put_state bead (s\<lparr>ls_next := NextRestart\<rparr>) l, Nudge)
      | NextRestart \<Rightarrow>
          if ls_restarts s < la_budget l
          then (put_state bead (s\<lparr>ls_restarts := ls_restarts s + 1, ls_next := NextNudge\<rparr>) l, Restart)
          else (put_state bead s l, Exhausted))"

definition on_activity :: "string \<Rightarrow> Ladder \<Rightarrow> Ladder" where
  "on_activity bead l =
     (case map_of (la_states l) bead of
        None \<Rightarrow> l
      | Some s \<Rightarrow> put_state bead (s\<lparr>ls_next := NextNudge\<rparr>) l)"

definition nudge_failed :: "string \<Rightarrow> Ladder \<Rightarrow> Ladder" where
  "nudge_failed bead l = put_state bead ((state_of l bead)\<lparr>ls_next := NextRestart\<rparr>) l"

definition restarts :: "Ladder \<Rightarrow> string \<Rightarrow> nat" where
  "restarts l bead = (case map_of (la_states l) bead of None \<Rightarrow> 0 | Some s \<Rightarrow> ls_restarts s)"

definition set_restart_budget :: "nat \<Rightarrow> Ladder \<Rightarrow> Ladder" where
  "set_restart_budget budget l = l\<lparr>la_budget := budget\<rparr>"

definition checked_mul :: "int \<Rightarrow> int \<Rightarrow> int option" where
  "checked_mul d k = (if SD_MIN \<le> d * k \<and> d * k \<le> SD_MAX then Some (d * k) else None)"

definition effective_threshold :: "Ladder \<Rightarrow> string \<Rightarrow> int \<Rightarrow> int" where
  "effective_threshold l bead base =
     (let r = min (restarts l bead) 20 in
      case checked_mul base (2 ^ r) of None \<Rightarrow> SD_MAX | Some d \<Rightarrow> d)"

definition forget :: "string \<Rightarrow> Ladder \<Rightarrow> Ladder" where
  "forget bead l = l\<lparr>la_states := AList.delete bead (la_states l)\<rparr>"

section \<open>The budget bounds the restarts\<close>

datatype ladder_op =
    Fired string
  | Active string
  | NudgeFailed string
  | Reload nat
  | Forgotten string

text \<open>A run of the ladder, with the actions it told patrol to take, in order.\<close>

fun ladder_run :: "ladder_op list \<Rightarrow> Ladder \<Rightarrow> Ladder \<times> (string \<times> ladder_action) list" where
  "ladder_run [] l = (l, [])"
| "ladder_run (Fired b # ops) l =
     (let (l1, a) = on_fire b l; (l2, as) = ladder_run ops l1 in (l2, (b, a) # as))"
| "ladder_run (Active b # ops) l = ladder_run ops (on_activity b l)"
| "ladder_run (NudgeFailed b # ops) l = ladder_run ops (nudge_failed b l)"
| "ladder_run (Reload n # ops) l = ladder_run ops (set_restart_budget n l)"
| "ladder_run (Forgotten b # ops) l = ladder_run ops (forget b l)"

lemma state_of_put [simp]: "state_of (put_state b s l) c = (if c = b then s else state_of l c)"
  by (simp add: state_of_def put_state_def update_conv)

lemma budget_put [simp]: "la_budget (put_state b s l) = la_budget l"
  by (simp add: put_state_def)

lemma restarts_state_of: "restarts l b = ls_restarts (state_of l b)"
  by (simp add: restarts_def state_of_def fresh_state_def split: option.split)

lemma on_activity_state:
  "state_of (on_activity b l) c = (if c = b then (state_of l b)\<lparr>ls_next := NextNudge\<rparr> else state_of l c)"
  by (auto simp: on_activity_def state_of_def put_state_def update_conv fresh_state_def split: option.split)

lemma on_activity_budget [simp]: "la_budget (on_activity b l) = la_budget l"
  by (simp add: on_activity_def split: option.split)

lemma set_budget_state [simp]:
  "state_of (set_restart_budget n l) c = state_of l c" "la_budget (set_restart_budget n l) = n"
  by (simp_all add: set_restart_budget_def state_of_def)

lemma forget_state: "state_of (forget b l) c = (if c = b then fresh_state else state_of l c)"
  by (simp add: forget_def state_of_def delete_conv')

lemma nudge_failed_state:
  "state_of (nudge_failed b l) c = (if c = b then (state_of l b)\<lparr>ls_next := NextRestart\<rparr> else state_of l c)"
  "la_budget (nudge_failed b l) = la_budget l"
  by (simp_all add: nudge_failed_def)

definition restarts_told :: "string \<Rightarrow> (string \<times> ladder_action) list \<Rightarrow> nat" where
  "restarts_told b as = length (filter (\<lambda>x. x = (b, Restart)) as)"

lemma on_fire_state:
  assumes "on_fire c l = (l1, a)"
  shows "la_budget l1 = la_budget l"
    and "restarts l1 b = restarts l b + (if c = b \<and> a = Restart then 1 else 0)"
    and "a = Restart \<Longrightarrow> restarts l c < la_budget l"
  using assms
  by (auto simp: on_fire_def Let_def restarts_state_of split: next_step.splits if_splits)

lemma ladder_run_budget:
  assumes "ladder_run ops l = (l', as)" and "\<And>n. Reload n \<in> set ops \<Longrightarrow> n \<le> B"
    and "Forgotten b \<notin> set ops" and "la_budget l \<le> B" and "restarts l b \<le> B"
  shows "restarts l b + restarts_told b as = restarts l' b \<and> restarts l' b \<le> B"
  using assms
proof (induction ops arbitrary: l as)
  case Nil
  then show ?case by (simp add: restarts_told_def)
next
  case (Cons op ops)
  show ?case
  proof (cases op)
    case (Fired c)
    obtain l1 a as1 where fire: "on_fire c l = (l1, a)" and rest: "ladder_run ops l1 = (l', as1)"
      and as: "as = (c, a) # as1"
      using Cons.prems(1) Fired by (auto simp: Let_def split: prod.splits)
    note f = on_fire_state [OF fire]
    have "restarts l1 b \<le> B" using f Cons.prems(4,5) by auto
    then have "restarts l1 b + restarts_told b as1 = restarts l' b \<and> restarts l' b \<le> B"
      using Cons.IH [OF rest] Cons.prems f(1) by simp
    then show ?thesis using f(2) by (auto simp: as restarts_told_def)
  next
    case (Active c)
    have "restarts (on_activity c l) b = restarts l b" by (simp add: restarts_state_of on_activity_state)
    then show ?thesis using Cons.IH [of "on_activity c l"] Cons.prems Active by simp
  next
    case (NudgeFailed c)
    have "restarts (nudge_failed c l) b = restarts l b" by (simp add: restarts_state_of nudge_failed_state)
    then show ?thesis using Cons.IH [of "nudge_failed c l"] Cons.prems NudgeFailed
      by (simp add: nudge_failed_state)
  next
    case (Reload n)
    then show ?thesis using Cons.IH [of "set_restart_budget n l"] Cons.prems by (simp add: restarts_state_of)
  next
    case (Forgotten c)
    then have "c \<noteq> b" using Cons.prems(3) by auto
    then have "restarts (forget c l) b = restarts l b" by (simp add: restarts_state_of forget_state)
    moreover have "la_budget (forget c l) = la_budget l" by (simp add: forget_def)
    ultimately show ?thesis using Cons.IH [of "forget c l"] Cons.prems Forgotten by simp
  qed
qed

text \<open>A nudge comes before every restart: what patrol may be told about a bead, given whether it
  has been nudged since its last restart.\<close>

fun paced :: "bool \<Rightarrow> ladder_action list \<Rightarrow> bool" where
  "paced nudged [] = True"
| "paced nudged (Nudge # as) = paced True as"
| "paced nudged (Restart # as) = (nudged \<and> paced False as)"
| "paced nudged (Exhausted # as) = (nudged \<and> paced True as)"

definition told :: "string \<Rightarrow> (string \<times> ladder_action) list \<Rightarrow> ladder_action list" where
  "told b as = map snd (filter (\<lambda>x. fst x = b) as)"

lemma paced_mono: "paced False as \<Longrightarrow> paced n as"
proof (cases as)
  case (Cons a as')
  then show "paced False as \<Longrightarrow> paced n as" by (cases a) simp_all
qed simp

lemma on_fire_other: "on_fire c l = (l1, a) \<Longrightarrow> c \<noteq> b \<Longrightarrow> state_of l1 b = state_of l b"
  by (auto simp: on_fire_def Let_def split: next_step.splits if_splits)

lemma on_fire_cases:
  assumes "on_fire b l = (l1, a)"
  shows "ls_next (state_of l b) = NextNudge \<and> a = Nudge \<and> ls_next (state_of l1 b) = NextRestart \<or>
    ls_next (state_of l b) = NextRestart \<and> a = Restart \<and> ls_next (state_of l1 b) = NextNudge \<or>
    ls_next (state_of l b) = NextRestart \<and> a = Exhausted \<and> ls_next (state_of l1 b) = NextRestart"
  using assms by (auto simp: on_fire_def Let_def split: next_step.splits if_splits)

lemma ladder_run_paced:
  assumes "ladder_run ops l = (l', as)" and "NudgeFailed b \<notin> set ops"
  shows "paced (ls_next (state_of l b) = NextRestart) (told b as)"
  using assms
proof (induction ops arbitrary: l as)
  case Nil
  then show ?case by (simp add: told_def)
next
  case (Cons op ops)
  show ?case
  proof (cases op)
    case (Fired c)
    obtain l1 a as1 where fire: "on_fire c l = (l1, a)" and rest: "ladder_run ops l1 = (l', as1)"
      and as: "as = (c, a) # as1"
      using Cons.prems(1) Fired by (auto simp: Let_def split: prod.splits)
    have IH: "paced (ls_next (state_of l1 b) = NextRestart) (told b as1)"
      using Cons.IH [OF rest] Cons.prems(2) by simp
    show ?thesis
    proof (cases "c = b")
      case True
      then show ?thesis using on_fire_cases [OF fire [unfolded True]] IH by (auto simp: as told_def)
    next
      case False
      then show ?thesis using on_fire_other [OF fire False] IH by (simp add: as told_def)
    qed
  next
    case (Active c)
    then have "paced (ls_next (state_of (on_activity c l) b) = NextRestart) (told b as)"
      using Cons.IH [of "on_activity c l"] Cons.prems by simp
    then show ?thesis using paced_mono by (auto simp: on_activity_state split: if_splits)
  next
    case (NudgeFailed c)
    then have "c \<noteq> b" using Cons.prems(2) by auto
    then show ?thesis using Cons.IH [of "nudge_failed c l"] Cons.prems NudgeFailed
      by (simp add: nudge_failed_state)
  next
    case (Reload n)
    then show ?thesis using Cons.IH [of "set_restart_budget n l"] Cons.prems by simp
  next
    case (Forgotten c)
    then have "paced (ls_next (state_of (forget c l) b) = NextRestart) (told b as)"
      using Cons.IH [of "forget c l"] Cons.prems by simp
    then show ?thesis using paced_mono by (auto simp: forget_state fresh_state_def split: if_splits)
  qed
qed

section \<open>The timers\<close>

datatype timer_kind = Stall | Release

record timer_entry =
  te_kind :: timer_kind
  te_deadline :: int
  te_threshold :: int

record stall_fire =
  sf_session :: string
  sf_kind :: timer_kind
  sf_deadline :: int
  sf_threshold :: int

type_synonym stall_timers = "(string \<times> timer_entry) list"

text \<open>\<open>ts_max\<close> is \<open>Timestamp::MAX\<close>.\<close>

definition deadline_of :: "int \<Rightarrow> int \<Rightarrow> int \<Rightarrow> int" where
  "deadline_of ts_max now threshold = (if now + threshold \<le> ts_max then now + threshold else ts_max)"

definition timer_arm :: "int \<Rightarrow> string \<Rightarrow> timer_kind \<Rightarrow> int \<Rightarrow> int \<Rightarrow> stall_timers \<Rightarrow> stall_timers" where
  "timer_arm ts_max sess kind threshold now es =
     AList.update sess
       \<lparr>te_kind = kind, te_deadline = deadline_of ts_max now threshold, te_threshold = threshold\<rparr> es"

definition timer_reset :: "int \<Rightarrow> string \<Rightarrow> int \<Rightarrow> stall_timers \<Rightarrow> stall_timers \<times> bool" where
  "timer_reset ts_max sess now es =
     (case map_of es sess of
        Some e \<Rightarrow>
          if te_kind e = Stall
          then (AList.update sess (e\<lparr>te_deadline := deadline_of ts_max now (te_threshold e)\<rparr>) es, True)
          else (es, False)
      | None \<Rightarrow> (es, False))"

definition timer_disarm :: "string \<Rightarrow> stall_timers \<Rightarrow> stall_timers \<times> bool" where
  "timer_disarm sess es = (AList.delete sess es, map_of es sess \<noteq> None)"

definition is_armed :: "string \<Rightarrow> stall_timers \<Rightarrow> bool" where
  "is_armed sess es = (map_of es sess \<noteq> None)"

definition timer_next_deadline :: "stall_timers \<Rightarrow> int option" where
  "timer_next_deadline es =
     (case map (te_deadline \<circ> snd) es of [] \<Rightarrow> None | d # ds \<Rightarrow> Some (foldl min d ds))"

definition fire_of :: "string \<times> timer_entry \<Rightarrow> stall_fire" where
  "fire_of se =
     \<lparr>sf_session = fst se, sf_kind = te_kind (snd se), sf_deadline = te_deadline (snd se),
      sf_threshold = te_threshold (snd se)\<rparr>"

definition timer_fire_due :: "int \<Rightarrow> stall_timers \<Rightarrow> stall_timers \<times> stall_fire list" where
  "timer_fire_due now es =
     (let due = sort_key (\<lambda>(s, e). (te_deadline e, s)) (filter (\<lambda>(_, e). te_deadline e \<le> now) es)
      in (filter (\<lambda>(_, e). \<not> te_deadline e \<le> now) es, map fire_of due))"

definition DURATION_MAX :: nat where
  "DURATION_MAX = 18446744073709551615 * 1000000000 + 999999999"

definition poll_timeout :: "int \<Rightarrow> stall_timers \<Rightarrow> nat option" where
  "poll_timeout now es =
     (case timer_next_deadline es of
        None \<Rightarrow> None
      | Some deadline \<Rightarrow>
          let until = deadline - now in
          if until \<le> 0 then Some 0
          else Some (min (nat until + 1000000) DURATION_MAX))"

section \<open>The timers fire what is due\<close>

definition timers_ok :: "stall_timers \<Rightarrow> bool" where
  "timers_ok es \<longleftrightarrow> distinct (map fst es)"

lemma timers_ok_ops:
  assumes "timers_ok es"
  shows "timers_ok (timer_arm ts_max s k th now es)" "timers_ok (fst (timer_reset ts_max s now es))"
    "timers_ok (fst (timer_disarm s es))" "timers_ok (fst (timer_fire_due now es))"
  using assms
  by (auto simp: timers_ok_def timer_arm_def timer_reset_def timer_disarm_def timer_fire_due_def Let_def
      distinct_update distinct_delete distinct_map_filter split: option.split)

lemma foldl_min:
  "foldl min (d::int) ds \<in> insert d (set ds) \<and> (\<forall>x \<in> insert d (set ds). foldl min d ds \<le> x)"
proof (induction ds arbitrary: d)
  case (Cons a ds)
  let ?m = "foldl min (min d a) ds"
  have m: "?m \<in> insert (min d a) (set ds)" "\<forall>x \<in> insert (min d a) (set ds). ?m \<le> x"
    using Cons.IH [of "min d a"] by blast+
  then have "?m \<in> insert d (set (a # ds))" by (cases "d \<le> a") (auto simp: min_absorb1 min_absorb2)
  moreover have "?m \<le> d" "?m \<le> a" "\<forall>x \<in> set ds. ?m \<le> x" using m(2) by auto
  ultimately show ?case by simp
qed simp

lemma timer_next_deadline_Some:
  assumes "timer_next_deadline es = Some d"
  shows "(\<exists>(s, e) \<in> set es. te_deadline e = d) \<and> (\<forall>(s, e) \<in> set es. d \<le> te_deadline e)"
proof -
  from assms obtain e0 es' where es: "map (te_deadline \<circ> snd) es = e0 # es'" and d: "d = foldl min e0 es'"
    by (auto simp: timer_next_deadline_def split: list.splits)
  have "insert e0 (set es') = (te_deadline \<circ> snd) ` set es"
    using es by (metis list.set(2) list.set_map)
  then have eq: "d \<in> (te_deadline \<circ> snd) ` set es" "\<forall>x \<in> (te_deadline \<circ> snd) ` set es. d \<le> x"
    using foldl_min [of e0 es'] unfolding d by (blast, blast)
  from eq(1) obtain se where "se \<in> set es" and "d = te_deadline (snd se)" by auto
  then have "\<exists>(s, e) \<in> set es. te_deadline e = d" by (intro bexI [of _ se]) (auto simp: case_prod_beta)
  then show ?thesis using eq(2) by (auto simp: case_prod_beta)
qed

lemma timer_next_deadline_None: "timer_next_deadline es = None \<longleftrightarrow> es = []"
  by (cases es) (simp_all add: timer_next_deadline_def)

lemma timer_fire_due_spec:
  assumes "timer_fire_due now es = (es', fires)"
  shows "set es' = {se \<in> set es. now < te_deadline (snd se)}"
    and "set fires = fire_of ` {se \<in> set es. te_deadline (snd se) \<le> now}"
    and "sorted (map (\<lambda>f. (sf_deadline f, sf_session f)) fires)"
    and "timers_ok es \<Longrightarrow> distinct (map sf_session fires)"
proof -
  let ?due = "sort_key (\<lambda>(s, e). (te_deadline e, s)) (filter (\<lambda>(_, e). te_deadline e \<le> now) es)"
  have f: "fires = map fire_of ?due" "es' = filter (\<lambda>(_, e). \<not> te_deadline e \<le> now) es"
    using assms by (simp_all add: timer_fire_due_def Let_def)
  show "set es' = {se \<in> set es. now < te_deadline (snd se)}" by (auto simp: f)
  show "set fires = fire_of ` {se \<in> set es. te_deadline (snd se) \<le> now}" by (auto simp: f)
  have "(\<lambda>f. (sf_deadline f, sf_session f)) \<circ> fire_of = (\<lambda>(s, e). (te_deadline e, s))"
    by (auto simp: fire_of_def)
  then show "sorted (map (\<lambda>f. (sf_deadline f, sf_session f)) fires)" by (simp add: f)
  assume "timers_ok es"
  then have "distinct (map fst ?due)"
    by (simp add: timers_ok_def distinct_map inj_on_def)
  moreover have "map sf_session fires = map fst ?due" by (simp add: f fire_of_def)
  ultimately show "distinct (map sf_session fires)" by simp
qed

section \<open>Properties\<close>

text \<open>
  C40. The budget bounds the restarts of a bead: over every sequence of fires, activity, failed
  nudges and reloads of the budget, the restarts told since the ladder is fresh are as many as the
  ladder counts, and at most the greatest budget that was in force.
\<close>

theorem restarts_within_budget:
  assumes "ladder_run ops (ladder_new budget) = (l, acts)" and "Forgotten b \<notin> set ops"
    and "budget \<le> B" and "\<forall>n. Reload n \<in> set ops \<longrightarrow> n \<le> B"
  shows "restarts_told b acts = restarts l b \<and> restarts_told b acts \<le> B"
proof -
  have "restarts (ladder_new budget) b = 0" by (simp add: restarts_def ladder_new_def)
  then show ?thesis
    using ladder_run_budget [OF assms(1) _ assms(2), of B] assms(3,4) by (simp add: ladder_new_def)
qed

definition demo_ops :: "ladder_op list" where
  "demo_ops = [Fired ''gc-1'', Fired ''gc-1'', Active ''gc-2'', Fired ''gc-1'', Fired ''gc-1'', Active ''gc-1'',
               Fired ''gc-1'']"

theorem restarts_within_budget_witness:
  "restarts_told ''gc-1'' (snd (ladder_run demo_ops (ladder_new 1))) \<le> 1 \<and>
   told ''gc-1'' (snd (ladder_run demo_ops (ladder_new 1))) = [Nudge, Restart, Nudge, Exhausted, Nudge]"
proof -
  have "told ''gc-1'' (snd (ladder_run demo_ops (ladder_new 1))) = [Nudge, Restart, Nudge, Exhausted, Nudge]"
    by code_simp
  moreover have "Forgotten ''gc-1'' \<notin> set demo_ops" "\<forall>n. Reload n \<in> set demo_ops \<longrightarrow> n \<le> 1"
    by (simp_all add: demo_ops_def)
  ultimately show ?thesis
    using restarts_within_budget [of demo_ops 1 "fst (ladder_run demo_ops (ladder_new 1))"
        "snd (ladder_run demo_ops (ladder_new 1))" "''gc-1''" 1] by simp
qed

text \<open>
  No bead is restarted or given up unwarned: in every run in which no nudge failed, a nudge
  comes between any two restarts of a bead, and before the first; activity and reloads do not
  shorten the way.
\<close>

theorem restarts_are_warned:
  assumes "ladder_run ops (ladder_new budget) = (l, acts)" and "NudgeFailed b \<notin> set ops"
  shows "paced False (told b acts)"
  using ladder_run_paced [OF assms] by (simp add: state_of_def ladder_new_def fresh_state_def)

theorem restarts_are_warned_witness:
  "paced False (told ''gc-1'' (snd (ladder_run demo_ops (ladder_new 1))))"
  by (rule restarts_are_warned [of demo_ops 1 "fst (ladder_run demo_ops (ladder_new 1))"])
    (simp_all add: demo_ops_def)

text \<open>
  The timers fire exactly what is due: \<open>fire_due\<close> gives one fire for each entry whose deadline
  is not past the instant, ordered by deadline and session, and keeps the others; arming, resetting
  and disarming keep one entry per session, so no session fires twice.
\<close>

theorem timers_fire_exactly:
  assumes "timers_ok es" and "timer_fire_due now es = (es', fires)"
  shows "set es' = {se \<in> set es. now < te_deadline (snd se)} \<and>
    set fires = fire_of ` {se \<in> set es. te_deadline (snd se) \<le> now} \<and>
    sorted (map (\<lambda>f. (sf_deadline f, sf_session f)) fires) \<and> distinct (map sf_session fires) \<and>
    timers_ok es' \<and> timers_ok (timer_arm ts_max s k th now es') \<and>
    timers_ok (fst (timer_reset ts_max s now es')) \<and> timers_ok (fst (timer_disarm s es'))"
proof -
  have ok: "timers_ok es'" using timers_ok_ops(4) [OF assms(1), of now] assms(2) by simp
  show ?thesis
    using timer_fire_due_spec [OF assms(2)] assms(1) ok timers_ok_ops(1-3) [OF ok] by simp
qed

definition demo_timers :: stall_timers where
  "demo_timers = timer_arm 100000 ''a'' Stall 50 0 (timer_arm 100000 ''b'' Release 20 0 [])"

lemma distinct_singleton: "distinct xs \<Longrightarrow> set xs = {x} \<Longrightarrow> xs = [x]"
  by (cases xs; cases "tl xs") auto

theorem timers_fire_exactly_witness:
  "map sf_session (snd (timer_fire_due 30 demo_timers)) = [''b''] \<and> is_armed ''a'' (fst (timer_fire_due 30 demo_timers))"
proof -
  have ok: "timers_ok demo_timers" by code_simp
  have dt: "demo_timers = [(''b'', \<lparr>te_kind = Release, te_deadline = 20, te_threshold = 20\<rparr>),
      (''a'', \<lparr>te_kind = Stall, te_deadline = 50, te_threshold = 50\<rparr>)]" by code_simp
  obtain es' fires where run: "timer_fire_due 30 demo_timers = (es', fires)" by fastforce
  have "set es' = {(''a'', \<lparr>te_kind = Stall, te_deadline = 50, te_threshold = 50\<rparr>)}"
    and f: "set fires = {fire_of (''b'', \<lparr>te_kind = Release, te_deadline = 20, te_threshold = 20\<rparr>)}"
    and "distinct (map sf_session fires)" and t: "timers_ok es'"
    using timers_fire_exactly [OF ok run] by (auto simp: dt)
  then have "map_of es' ''a'' \<noteq> None" by (metis list.set_intros(1) map_of_eq_None_iff fst_conv image_eqI insertI1)
  moreover have "map sf_session fires = [''b'']"
  proof -
    have "set (map sf_session fires) = {''b''}" using f by (simp add: fire_of_def)
    then show ?thesis using \<open>distinct (map sf_session fires)\<close>
      by (rule distinct_singleton [rotated])
  qed
  ultimately show ?thesis using run by (simp add: is_armed_def)
qed

text \<open>
  The poll sleeps neither past a deadline nor for nothing: with entries armed it has a timeout,
  after which at least one timer is due; it is zero only when one is due already, and it is at most
  a millisecond longer than the time to the earliest deadline.
\<close>

theorem poll_wakes_in_time:
  assumes "es \<noteq> []" and near: "\<forall>(s, e) \<in> set es. te_deadline e - now + 1000000 \<le> int DURATION_MAX"
  shows "\<exists>t. poll_timeout now es = Some t \<and> snd (timer_fire_due (now + int t) es) \<noteq> [] \<and>
    (t = 0 \<longleftrightarrow> snd (timer_fire_due now es) \<noteq> []) \<and>
    (\<forall>(s, e) \<in> set es. int t \<le> max 0 (te_deadline e - now) + 1000000)"
proof -
  obtain d where d: "timer_next_deadline es = Some d"
    using assms(1) timer_next_deadline_None by fastforce
  from timer_next_deadline_Some [OF d] obtain s e where se: "(s, e) \<in> set es" "te_deadline e = d"
    and least: "\<forall>(s, e) \<in> set es. d \<le> te_deadline e" by blast
  have fires: "snd (timer_fire_due x es) \<noteq> [] \<longleftrightarrow> d \<le> x" for x
  proof -
    have "set (snd (timer_fire_due x es)) = fire_of ` {se \<in> set es. te_deadline (snd se) \<le> x}"
      by (rule timer_fire_due_spec(2)) (rule prod.collapse [symmetric])
    then have "snd (timer_fire_due x es) \<noteq> [] \<longleftrightarrow> (\<exists>se \<in> set es. te_deadline (snd se) \<le> x)"
      by (metis (mono_tags, lifting) empty_iff empty_set image_is_empty mem_Collect_eq Collect_empty_eq set_empty)
    then show ?thesis using se least by fastforce
  qed
  show ?thesis
  proof (cases "d - now \<le> 0")
    case True
    then show ?thesis using d fires by (auto simp: poll_timeout_def)
  next
    case False
    then have "nat (d - now) + 1000000 \<le> DURATION_MAX" using near se by fastforce
    then have t: "poll_timeout now es = Some (nat (d - now) + 1000000)"
      using False d by (simp add: poll_timeout_def)
    then show ?thesis using False fires least by (auto simp: t split: prod.split)
  qed
qed

theorem poll_wakes_witness:
  "\<exists>t. poll_timeout 0 demo_timers = Some t \<and> snd (timer_fire_due (int t) demo_timers) \<noteq> []"
proof -
  have dt: "demo_timers = [(''b'', \<lparr>te_kind = Release, te_deadline = 20, te_threshold = 20\<rparr>),
      (''a'', \<lparr>te_kind = Stall, te_deadline = 50, te_threshold = 50\<rparr>)]" by code_simp
  have "demo_timers \<noteq> []" "\<forall>(s, e) \<in> set demo_timers. te_deadline e - 0 + 1000000 \<le> int DURATION_MAX"
    unfolding dt by (simp_all add: DURATION_MAX_def)
  then show ?thesis using poll_wakes_in_time [of demo_timers 0] by auto
qed

end
