(* ===== verification/Json.thy ===== *)
theory Json
  imports Readiness
begin

text \<open>
  \<open>serde_json::Value\<close> as the code uses it outside the decoders of the fold: reading a field, a
  string, an integer, an array; building an object. The crate is a parameter: \<open>'j\<close> with the record
  \<open>value_ops\<close>; \<open>json_laws\<close> states its documented behaviour on values the code builds. The file
  also holds SQLite's \<open>LIKE\<close>, unsigned parsing and the last-separator split of the standard library.
\<close>

section \<open>JSON values\<close>

record 'j value_ops =
  jv_get :: "'j \<Rightarrow> string \<Rightarrow> 'j option"
  jv_str :: "'j \<Rightarrow> string option"
  jv_i64 :: "'j \<Rightarrow> int option"
  jv_array :: "'j \<Rightarrow> 'j list option"
  jv_is_object :: "'j \<Rightarrow> bool"
  jv_text :: "'j \<Rightarrow> string"
  jv_string :: "string \<Rightarrow> 'j"
  jv_int :: "int \<Rightarrow> 'j"
  jv_bool :: "bool \<Rightarrow> 'j"
  jv_list :: "'j list \<Rightarrow> 'j"
  jv_object :: "(string \<times> 'j) list \<Rightarrow> 'j"

text \<open>\<open>d.get(field).and_then(|v| v.as_str())\<close> on a payload that may be absent; and \<open>as_i64\<close>.\<close>

definition data_str :: "'j value_ops \<Rightarrow> 'j option \<Rightarrow> string \<Rightarrow> string option" where
  "data_str J d field = Option.bind d (\<lambda>v. Option.bind (jv_get J v field) (jv_str J))"

definition data_i64 :: "'j value_ops \<Rightarrow> 'j \<Rightarrow> string \<Rightarrow> int option" where
  "data_i64 J d field = Option.bind (jv_get J d field) (jv_i64 J)"

definition json_laws :: "'j value_ops \<Rightarrow> bool" where
  "json_laws J \<longleftrightarrow>
     (\<forall>s. jv_str J (jv_string J s) = Some s) \<and> (\<forall>s. jv_i64 J (jv_string J s) = None) \<and>
     (\<forall>i. i64_min \<le> i \<and> i \<le> i64_max \<longrightarrow> jv_i64 J (jv_int J i) = Some i) \<and> (\<forall>i. jv_str J (jv_int J i) = None) \<and>
     (\<forall>kvs k. distinct (map fst kvs) \<longrightarrow> jv_get J (jv_object J kvs) k = map_of kvs k)"

lemma json_string [simp]: "json_laws J \<Longrightarrow> jv_str J (jv_string J s) = Some s"
  and json_string_i64 [simp]: "json_laws J \<Longrightarrow> jv_i64 J (jv_string J s) = None"
  and json_int [simp]: "json_laws J \<Longrightarrow> i64_min \<le> i \<Longrightarrow> i \<le> i64_max \<Longrightarrow> jv_i64 J (jv_int J i) = Some i"
  and json_get [simp]: "json_laws J \<Longrightarrow> distinct (map fst kvs) \<Longrightarrow> jv_get J (jv_object J kvs) k = map_of kvs k"
  by (simp_all add: json_laws_def)

section \<open>Splitting at the last separator\<close>

definition rsplit_once :: "char \<Rightarrow> string \<Rightarrow> (string \<times> string) option" where
  "rsplit_once d s = map_option (\<lambda>(a, b). (rev b, rev a)) (split_once d (rev s))"

lemma rsplit_once_iff: "rsplit_once d s = Some (a, b) \<longleftrightarrow> s = a @ d # b \<and> d \<notin> set b"
proof -
  have "rsplit_once d s = Some (a, b) \<longleftrightarrow> split_once d (rev s) = Some (rev b, rev a)"
    by (auto simp: rsplit_once_def)
  also have "\<dots> \<longleftrightarrow> rev s = rev (a @ d # b) \<and> d \<notin> set b" by (simp add: split_once_iff)
  finally show ?thesis unfolding rev_is_rev_conv .
qed

section \<open>Unsigned integers\<close>

text \<open>\<open>str::parse\<close> on a \<open>usize\<close> of 64 bits: an optional plus, digits, in range.\<close>

definition usize_max :: int where
  "usize_max = 18446744073709551615"

definition parse_usize :: "string \<Rightarrow> nat option" where
  "parse_usize s =
     (let ds = (case s of [] \<Rightarrow> [] | c # cs \<Rightarrow> if c = CHR ''+'' then cs else s)
      in if ds = [] \<or> \<not> list_all is_digit ds \<or> usize_max < int (dec_value ds) then None
         else Some (dec_value ds))"

lemma digit_not_sign: "is_digit c \<Longrightarrow> c \<noteq> CHR ''+'' \<and> c \<noteq> CHR ''-'' \<and> c \<noteq> CHR '':''"
  by (auto simp: is_digit_def byte_def)

lemma show_nat_no_colon: "CHR '':'' \<notin> set (show_nat n)"
  using show_nat_digits [of n] digit_not_sign by (auto simp: list_all_iff)

lemma parse_usize_digits:
  assumes "list_all is_digit s" and "s \<noteq> []"
  shows "parse_usize s = (if int (dec_value s) \<le> usize_max then Some (dec_value s) else None)"
  using assms digit_not_sign by (cases s) (auto simp: parse_usize_def Let_def)

lemma parse_usize_show [simp]: "int n \<le> usize_max \<Longrightarrow> parse_usize (show_nat n) = Some n"
  by (simp add: parse_usize_digits show_nat_digits)

lemma parse_usize_bound: "parse_usize s = Some n \<Longrightarrow> int n \<le> usize_max"
  by (auto simp: parse_usize_def Let_def split: if_splits)

section \<open>LIKE\<close>

text \<open>
  SQLite's \<open>LIKE\<close> with an optional escape character; ASCII letters compare without case. \<open>_\<close>
  stands for one character, here one byte: the patterns of the code escape every \<open>_\<close>.
\<close>

fun like :: "char option \<Rightarrow> string \<Rightarrow> string \<Rightarrow> bool" where
  "like e [] s = (s = [])"
| "like e (p # ps) s =
     (if e = Some p
      then (case (ps, s) of (q # qs, c # cs) \<Rightarrow> ascii_lower q = ascii_lower c \<and> like e qs cs | _ \<Rightarrow> False)
      else if p = CHR 0x25 then like e ps s \<or> (case s of [] \<Rightarrow> False | c # cs \<Rightarrow> like e (p # ps) cs)
      else (case s of [] \<Rightarrow> False
            | c # cs \<Rightarrow> (p = CHR ''_'' \<or> ascii_lower p = ascii_lower c) \<and> like e ps cs))"

text \<open>\<open>replace('\\', "\\\\").replace('%', "\\%").replace('_', "\\_")\<close>.\<close>

definition replace_char :: "char \<Rightarrow> string \<Rightarrow> string \<Rightarrow> string" where
  "replace_char c r s = concat (map (\<lambda>x. if x = c then r else [x]) s)"

definition BACKSLASH :: char where
  "BACKSLASH = CHR 0x5C"

definition escape_like :: "string \<Rightarrow> string" where
  "escape_like s =
     replace_char CHR ''_'' [BACKSLASH, CHR ''_'']
      (replace_char CHR 0x25 [BACKSLASH, CHR 0x25] (replace_char BACKSLASH [BACKSLASH, BACKSLASH] s))"

text \<open>\<open>s\<close> contains \<open>p\<close>, up to the case of ASCII letters.\<close>

definition mentions :: "string \<Rightarrow> string \<Rightarrow> bool" where
  "mentions p s \<longleftrightarrow> (\<exists>a b c. s = a @ b @ c \<and> map ascii_lower b = map ascii_lower p)"

lemma escape_like_simps [simp]:
  "escape_like [] = []"
  "escape_like (c # s) = (if c \<in> {BACKSLASH, CHR 0x25, CHR ''_''} then [BACKSLASH, c] else [c]) @ escape_like s"
  by (auto simp: escape_like_def replace_char_def BACKSLASH_def)

lemma like_tail: "like e [CHR 0x25] s \<longleftrightarrow> e \<noteq> Some CHR 0x25"
  by (induction s) auto

lemma like_percent:
  "e \<noteq> Some CHR 0x25 \<Longrightarrow> like e (CHR 0x25 # ps) s \<longleftrightarrow> (\<exists>a b. s = a @ b \<and> like e ps b)"
proof (induction s)
  case (Cons c s)
  have "(\<exists>a b. c # s = a @ b \<and> like e ps b) \<longleftrightarrow> like e ps (c # s) \<or> (\<exists>a b. s = a @ b \<and> like e ps b)"
    by (metis append_Cons append_Nil list.sel(3) list.exhaust_sel tl_append2)
  then show ?case using Cons by simp
qed auto

lemma cons_split:
  "(\<exists>c cs. s = c # cs \<and> f x = f c \<and> (\<exists>b r. cs = b @ r \<and> map f b = map f p \<and> Q r)) \<longleftrightarrow>
   (\<exists>b r. s = b @ r \<and> map f b = map f (x # p) \<and> Q r)" (is "?l = ?r")
proof
  assume ?l
  then obtain c b r where "s = c # b @ r" "f c = f x" "map f b = map f p" "Q r" by auto
  then show ?r by (intro exI [of _ "c # b"] exI [of _ r]) simp
next
  assume ?r
  then obtain b r where "s = b @ r" "map f b = map f (x # p)" "Q r" by blast
  moreover from this(2) obtain c b' where "b = c # b'" "f c = f x" "map f b' = map f p"
    by (cases b) auto
  ultimately show ?l by auto
qed

lemma append_split:
  "(\<exists>b c. s = b @ c \<and> map f b = map f p @ map f q \<and> Q c) \<longleftrightarrow>
   (\<exists>b r. s = b @ r \<and> map f b = map f p \<and> (\<exists>b' c. r = b' @ c \<and> map f b' = map f q \<and> Q c))" (is "?l = ?r")
proof
  assume ?l
  then obtain b c where bc: "s = b @ c" "map f b = map f p @ map f q" "Q c" by blast
  then obtain b1 b2 where "b = b1 @ b2" "map f b1 = map f p" "map f b2 = map f q"
    by (auto simp: map_eq_append_conv)
  then show ?r using bc by auto
next
  assume ?r
  then obtain b b' c where "s = (b @ b') @ c" "map f (b @ b') = map f p @ map f q" "Q c" by auto
  then show ?l by blast
qed

lemma like_escaped:
  "like (Some BACKSLASH) (escape_like p @ ps) s \<longleftrightarrow>
     (\<exists>b c. s = b @ c \<and> map ascii_lower b = map ascii_lower p \<and> like (Some BACKSLASH) ps c)"
proof (induction p arbitrary: s)
  case (Cons x p)
  have step: "like (Some BACKSLASH) (escape_like (x # p) @ ps) s \<longleftrightarrow>
      (\<exists>c cs. s = c # cs \<and> ascii_lower x = ascii_lower c \<and> like (Some BACKSLASH) (escape_like p @ ps) cs)"
    by (cases s) (auto simp: BACKSLASH_def)
  show ?case unfolding step Cons.IH by (rule cons_split)
qed simp

lemma like_literal:
  "e \<noteq> Some CHR 0x25 \<Longrightarrow> list_all (\<lambda>c. e \<noteq> Some c \<and> c \<noteq> CHR 0x25 \<and> c \<noteq> CHR ''_'') p \<Longrightarrow>
     like e (p @ ps) s \<longleftrightarrow> (\<exists>b c. s = b @ c \<and> map ascii_lower b = map ascii_lower p \<and> like e ps c)"
proof (induction p arbitrary: s)
  case (Cons x p)
  have step: "like e ((x # p) @ ps) s \<longleftrightarrow> (\<exists>c cs. s = c # cs \<and> ascii_lower x = ascii_lower c \<and> like e (p @ ps) cs)"
    using Cons.prems(2) by (cases s) auto
  have tail: "like e (p @ ps) cs \<longleftrightarrow> (\<exists>b r. cs = b @ r \<and> map ascii_lower b = map ascii_lower p \<and> like e ps r)" for cs
    using Cons by simp
  show ?case unfolding step tail by (rule cons_split)
qed simp

text \<open>The two patterns of the code search for a word.\<close>

definition plain_word :: "string \<Rightarrow> bool" where
  "plain_word p \<longleftrightarrow> list_all (\<lambda>c. c \<noteq> CHR 0x25 \<and> c \<noteq> CHR ''_'' \<and> c \<noteq> BACKSLASH) p"

lemma like_word: "plain_word p \<Longrightarrow> like None (CHR 0x25 # p @ [CHR 0x25]) s \<longleftrightarrow> mentions p s"
  by (simp add: like_percent like_literal like_tail mentions_def plain_word_def list_all_iff del: like.simps) blast

lemma like_escaped_word:
  assumes "plain_word p" and "plain_word q"
  shows "like (Some BACKSLASH) (CHR 0x25 # p @ escape_like w @ q @ [CHR 0x25]) s \<longleftrightarrow> mentions (p @ w @ q) s"
proof -
  have [simp]: "BACKSLASH \<noteq> CHR 0x25" by (simp add: BACKSLASH_def)
  have lits: "list_all (\<lambda>c. BACKSLASH \<noteq> c \<and> c \<noteq> CHR 0x25 \<and> c \<noteq> CHR ''_'') p"
    "list_all (\<lambda>c. BACKSLASH \<noteq> c \<and> c \<noteq> CHR 0x25 \<and> c \<noteq> CHR ''_'') q"
    using assms by (auto simp: plain_word_def list_all_iff)
  have "mentions (p @ w @ q) s \<longleftrightarrow> (\<exists>a b. s = a @ b \<and> (\<exists>b1 c. b = b1 @ c \<and>
      map ascii_lower b1 = map ascii_lower p @ map ascii_lower w @ map ascii_lower q \<and> True))"
    unfolding mentions_def by auto
  then show ?thesis
    using append_split [where Q = "\<lambda>_. True" and f = ascii_lower and p = p and q = "w @ q"]
      append_split [where Q = "\<lambda>_. True" and f = ascii_lower and p = w and q = q]
    by (simp add: like_percent like_literal lits like_escaped like_tail del: like.simps)
qed

end
