(* ===== verification/Formulas.thy ===== *)
theory Formulas
  imports Vocab
begin

text \<open>
  Formulas: the syntax tree (\<^verbatim>\<open>crates/camp-core/src/formula/ast.rs\<close>), drains
  (\<^verbatim>\<open>formula/drain.rs\<close>), the raw walk's result (\<^verbatim>\<open>formula/parse.rs\<close>) and the
  validation rules over it (\<^verbatim>\<open>formula/validate.rs\<close>).

  A \<open>BTreeMap\<close> is the list of its entries in key order, a \<open>Duration\<close> its nanoseconds and a
  path its text. A \<open>RawFormula\<close> is what the walk of \<open>Walk\<close> makes of a TOML table. The \<open>semver\<close> crate
  is a parameter.
\<close>

section \<open>Drains\<close>

datatype DrainContext = Separate

datatype MemberAccess = Read | Exclusive

datatype OnItemFailure = Continue | SkipRemaining

record DrainItem =
  di_single_lane :: bool

record Drain =
  dn_context :: DrainContext
  dn_formula :: string
  dn_member_access :: MemberAccess
  dn_on_item_failure :: OnItemFailure
  dn_item :: DrainItem

definition drain_KIND :: string where
  "drain_KIND = ''gc.kind''"

definition KIND_DRAIN :: string where
  "KIND_DRAIN = ''drain''"

definition drain_CONTEXT :: string where
  "drain_CONTEXT = ''gc.drain_context''"

definition drain_FORMULA :: string where
  "drain_FORMULA = ''gc.drain_formula''"

definition MEMBER_ACCESS :: string where
  "MEMBER_ACCESS = ''gc.drain_member_access''"

definition ON_ITEM_FAILURE :: string where
  "ON_ITEM_FAILURE = ''gc.drain_on_item_failure''"

definition ITEM_SINGLE_LANE :: string where
  "ITEM_SINGLE_LANE = ''gc.drain_item_single_lane''"

definition DEFAULT_MAX_UNITS :: nat where
  "DEFAULT_MAX_UNITS = 100"

fun context_as_str :: "DrainContext \<Rightarrow> string" where
  "context_as_str Separate = ''separate''"

fun access_as_str :: "MemberAccess \<Rightarrow> string" where
  "access_as_str Read = ''read''"
| "access_as_str Exclusive = ''exclusive''"

definition access_parse :: "string \<Rightarrow> MemberAccess option" where
  "access_parse s =
     (if s = ''read'' then Some Read else if s = ''exclusive'' then Some Exclusive else None)"

fun failure_as_str :: "OnItemFailure \<Rightarrow> string" where
  "failure_as_str Continue = ''continue''"
| "failure_as_str SkipRemaining = ''skip_remaining''"

definition failure_parse :: "string \<Rightarrow> OnItemFailure option" where
  "failure_parse s =
     (if s = ''continue'' then Some Continue
      else if s = ''skip_remaining'' then Some SkipRemaining else None)"

text \<open>\<open>BTreeMap::insert\<close> on the list of entries in key order.\<close>

fun btree_insert :: "string \<Rightarrow> 'v \<Rightarrow> (string \<times> 'v) list \<Rightarrow> (string \<times> 'v) list" where
  "btree_insert k v [] = [(k, v)]"
| "btree_insert k v ((k', v') # m) =
     (if k < k' then (k, v) # (k', v') # m
      else if k = k' then (k, v) # m
      else (k', v') # btree_insert k v m)"

definition btree_extend :: "(string \<times> 'v) list \<Rightarrow> (string \<times> 'v) list \<Rightarrow> (string \<times> 'v) list" where
  "btree_extend m kvs = foldl (\<lambda>m (k, v). btree_insert k v m) m kvs"

lemma map_of_btree_insert [simp]: "map_of (btree_insert k v m) = (map_of m)(k \<mapsto> v)"
  by (induction k v m rule: btree_insert.induct) (auto simp: fun_eq_iff)

lemma map_of_btree_extend: "map_of (btree_extend m kvs) = map_of m ++ map_of (rev kvs)"
  by (induction kvs arbitrary: m) (auto simp: btree_extend_def map_add_def fun_eq_iff split: option.splits)

lemma keys_btree_insert: "fst ` set (btree_insert k v m) = insert k (fst ` set m)"
  by (induction k v m rule: btree_insert.induct) auto

lemma keys_btree_extend: "fst ` set (btree_extend m kvs) = fst ` set m \<union> fst ` set kvs"
proof (induction kvs arbitrary: m)
  case (Cons kv kvs)
  have "fst ` set (btree_extend m (kv # kvs)) = fst ` set (btree_extend (btree_insert (fst kv) (snd kv) m) kvs)"
    by (simp add: btree_extend_def case_prod_beta)
  then show ?case by (simp only: Cons.IH keys_btree_insert list.set image_insert Un_insert_left Un_insert_right)
qed (simp add: btree_extend_def)

lemma sorted_btree_insert:
  "sorted_wrt (<) (map fst m) \<Longrightarrow> sorted_wrt (<) (map fst (btree_insert k v m))"
proof (induction k v m rule: btree_insert.induct)
  case (2 k v k' v' m)
  have "fst ` set (btree_insert k v m) = insert k (fst ` set m)" by (rule keys_btree_insert)
  with 2 show ?case by auto
qed simp

lemma sorted_btree_extend:
  "sorted_wrt (<) (map fst m) \<Longrightarrow> sorted_wrt (<) (map fst (btree_extend m kvs))"
  by (induction kvs arbitrary: m) (auto simp: btree_extend_def sorted_btree_insert)

definition drain_metadata :: "Drain \<Rightarrow> (string \<times> string) list" where
  "drain_metadata d =
     btree_extend []
       ([(drain_KIND, KIND_DRAIN),
         (drain_CONTEXT, context_as_str (dn_context d)),
         (drain_FORMULA, dn_formula d),
         (MEMBER_ACCESS, access_as_str (dn_member_access d)),
         (ON_ITEM_FAILURE, failure_as_str (dn_on_item_failure d))]
        @ (if di_single_lane (dn_item d) then [(ITEM_SINGLE_LANE, ''true'')] else []))"

section \<open>The syntax tree\<close>

datatype CheckMode = Exec

datatype Disposition = HardFail | SoftFail

fun disposition_as_str :: "Disposition \<Rightarrow> string" where
  "disposition_as_str HardFail = ''hard_fail''"
| "disposition_as_str SoftFail = ''soft_fail''"

record Check =
  ck_max_attempts :: nat
  ck_mode :: CheckMode
  ck_path :: string
  ck_timeout :: "nat option"

record Retry =
  rt_max_attempts :: nat
  rt_on_exhausted :: Disposition

record OnComplete =
  oc_for_each :: string
  oc_bond :: string
  oc_vars :: "(string \<times> string) list"
  oc_parallel :: bool

record Step =
  st_id :: string
  st_title :: string
  st_description :: "string option"
  st_needs :: "string list"
  st_assignee :: "string option"
  st_metadata :: "(string \<times> string) list"
  st_timeout :: "nat option"
  st_check :: "Check option"
  st_retry :: "Retry option"
  st_on_complete :: "OnComplete option"
  st_drain :: "Drain option"

text \<open>\<open>Requires\<close> has the single field \<open>formula_compiler\<close>.\<close>

record Formula =
  fm_name :: string
  fm_description :: "string option"
  fm_requires :: "string option"
  fm_vars :: "(string \<times> string option) list"
  fm_steps :: "Step list"
  fm_source :: string

record Violation =
  vi_construct :: string
  vi_message :: message

section \<open>What the walk gives\<close>

record RawRetry =
  rr_max_attempts :: nat
  rr_on_exhausted :: "string option"

datatype RawStep = RawStep
  (rs_index: nat) (rs_id: "string option") (rs_title: "string option")
  (rs_description: "string option") (rs_description_file: "string option")
  (rs_metadata: "(string \<times> string) list") (rs_condition: "string option")
  (rs_base_dir: "string option") (rs_expand: "string option")
  (rs_expand_vars: "(string \<times> string) list") (rs_children: "RawStep list")
  (rs_drain: "Drain option") (rs_needs: "string list") (rs_assignee: "string option")
  (rs_timeout: "nat option") (rs_check: "Check option") (rs_retry: "RawRetry option")
  (rs_on_complete: "OnComplete option") (rs_has_check: bool) (rs_has_retry: bool)
  (rs_has_on_complete: bool) (rs_has_drain: bool)

record RawFormula =
  rf_name :: "string option"
  rf_description :: "string option"
  rf_formula_compiler :: "string option"
  rf_contract :: "string option"
  rf_kind :: "string option"
  rf_vars :: "(string \<times> string option) list"
  rf_extends :: "string list"
  rf_template :: "RawStep list"
  rf_steps :: "RawStep list"

datatype Origin = Imported | CampLocal

section \<open>Names and declarations\<close>

definition strip_suffix :: "string \<Rightarrow> string \<Rightarrow> string option" where
  "strip_suffix suf s = map_option rev (strip_prefix (rev suf) (rev s))"

text \<open>The argument is the file name of the path, when it has one that is UTF-8.\<close>

definition formula_stem :: "string option \<Rightarrow> string option" where
  "formula_stem file_name =
     (case file_name of
        None \<Rightarrow> None
      | Some f \<Rightarrow>
          (case strip_suffix ''.toml'' f of
             None \<Rightarrow> None
           | Some stem \<Rightarrow>
               Some (case strip_suffix ''.formula'' stem of Some s \<Rightarrow> s | None \<Rightarrow> stem)))"

definition is_expansion :: "RawFormula \<Rightarrow> bool" where
  "is_expansion raw \<longleftrightarrow> rf_kind raw = Some ''expansion''"

definition declares_compiler :: "RawFormula \<Rightarrow> bool" where
  "declares_compiler raw \<longleftrightarrow> rf_formula_compiler raw \<noteq> None \<or> rf_contract raw = Some ''graph.v2''"

definition not_runnable :: "RawFormula \<Rightarrow> Origin \<Rightarrow> message option" where
  "not_runnable raw origin =
     (if origin = CampLocal then None
      else if is_expansion raw
      then Some (Msg ''this is a `type = expansion` formula: it is not directly runnable'' [])
      else if \<not> declares_compiler raw
      then Some (Msg ''this imported formula declares no graph compiler'' [])
      else None)"

definition FORMULA_COMPILER_CAPABILITY :: string where
  "FORMULA_COMPILER_CAPABILITY = ''2.0.0''"

end
