(* ===== verification/Validate.thy ===== *)
theory Validate
  imports Formulas "HOL-Library.AList"
begin

text \<open>
  Validation of a formula (\<^verbatim>\<open>crates/camp-core/src/formula/validate.rs\<close>): the rules S1 to
  S13 and S17 over the raw walk, the search for cycles of needs, and the assembly of a formula
  without violations. The lemmas show that the depth-first search ends and finds a cycle exactly
  when there is one, and that the rules together give what the runtime relies on.

  A list of violations that the code appends to is the list of what is appended, in order.
  Parsing a requirement and matching a version belong to the \<open>semver\<close> crate, a parameter.
\<close>

section \<open>The requirement comparator\<close>

record ('r, 'v) semver =
  req_parse :: "string \<Rightarrow> string + 'r"
  ver_parse :: "string \<Rightarrow> string + 'v"
  ver_matches :: "'r \<Rightarrow> 'v \<Rightarrow> bool"

definition violation :: "string \<Rightarrow> message \<Rightarrow> Violation" where
  "violation construct m = \<lparr>vi_construct = construct, vi_message = m\<rparr>"

definition comparator_ops :: "string list" where
  "comparator_ops = [''>='', ''<='', ''>'', ''<'', ''='']"

definition plain_number :: "string \<Rightarrow> bool" where
  "plain_number p \<longleftrightarrow> p \<noteq> [] \<and> list_all is_digit p"

definition common_comparator_shape :: "string \<Rightarrow> message + unit" where
  "common_comparator_shape req =
     (let err = Msg ''formula_compiler {req:?} is outside camp's comparator subset'' [req] in
      case find (\<lambda>op. starts_with op req) comparator_ops of
        None \<Rightarrow> Inl err
      | Some op \<Rightarrow>
          let parts = split_on CHR ''.'' (drop (length op) req)
          in if length parts = 3 \<and> list_all plain_number parts then Inr () else Inl err)"

definition check_comparator_capability :: "('r, 'v) semver \<Rightarrow> string \<Rightarrow> Violation list" where
  "check_comparator_capability V req =
     (case req_parse V req of
        Inl e \<Rightarrow> [violation ''requires.formula_compiler''
          (Msg ''formula_compiler must be a semver comparator: {e}'' [e])]
      | Inr parsed \<Rightarrow>
          (case ver_parse V FORMULA_COMPILER_CAPABILITY of
             Inl e \<Rightarrow> [violation ''requires.formula_compiler''
               (Msg ''internal: capability constant unparseable: {e}'' [e])]
           | Inr capability \<Rightarrow>
               if \<not> ver_matches V parsed capability
               then [violation ''requires.formula_compiler''
                 (Msg ''formula requires formula_compiler {req:?}'' [req])]
               else []))"

section \<open>The search for cycles\<close>

datatype visit_state = Unvisited | InStack | Done

record search_state =
  ss_state :: "(string \<times> visit_state) list"
  ss_stack :: "string list"
  ss_out :: "Violation list"
  ss_reported :: "string set"

fun join :: "string \<Rightarrow> string list \<Rightarrow> string" where
  "join sep [] = []"
| "join sep [w] = w"
| "join sep (w # ws) = w @ sep @ join sep ws"

definition position :: "('a \<Rightarrow> bool) \<Rightarrow> 'a list \<Rightarrow> nat option" where
  "position p xs = (let k = length (takeWhile (Not \<circ> p) xs) in if k < length xs then Some k else None)"

definition report_cycle :: "string \<Rightarrow> search_state \<Rightarrow> search_state" where
  "report_cycle nxt s =
     (let start = (case position (\<lambda>n. n = nxt) (ss_stack s) of Some k \<Rightarrow> k | None \<Rightarrow> 0);
          body = drop start (ss_stack s);
          canonical = join '','' (sort body)
      in if canonical \<in> ss_reported s then s
         else s\<lparr>ss_reported := insert canonical (ss_reported s),
                ss_out := ss_out s @ [violation ''steps''
                  (Msg ''dependency cycle: {}'' [join '' -> '' (body @ [nxt])])]\<rparr>)"

definition enter :: "string \<Rightarrow> search_state \<Rightarrow> search_state" where
  "enter node s = s\<lparr>ss_state := AList.update node InStack (ss_state s), ss_stack := ss_stack s @ [node]\<rparr>"

definition leave :: "string \<Rightarrow> search_state \<Rightarrow> search_state" where
  "leave node s = s\<lparr>ss_state := AList.update node Done (ss_state s), ss_stack := butlast (ss_stack s)\<rparr>"

definition nodes_in :: "visit_state \<Rightarrow> search_state \<Rightarrow> string set" where
  "nodes_in v s = {n. map_of (ss_state s) n = Some v}"

definition successors :: "(string \<times> string list) list \<Rightarrow> string \<Rightarrow> string list" where
  "successors edges n = (case map_of edges n of Some ns \<Rightarrow> ns | None \<Rightarrow> [])"

text \<open>
  \<open>dfs\<close> with its loop over the successors. Looking at the state of a successor bounds the
  recursion: every call marks a node that was unvisited, and no call unmarks one.
\<close>

function (domintros) dfs :: "(string \<times> string list) list \<Rightarrow> string \<Rightarrow> search_state \<Rightarrow> search_state"
  and visit :: "(string \<times> string list) list \<Rightarrow> string list \<Rightarrow> search_state \<Rightarrow> search_state"
where
  "dfs edges node s =
     leave node (visit edges (successors edges node) (enter node s))"
| "visit edges [] s = s"
| "visit edges (nxt # rest) s =
     (case map_of (ss_state s) nxt of
        Some InStack \<Rightarrow> visit edges rest (report_cycle nxt s)
      | Some Unvisited \<Rightarrow> visit edges rest (dfs edges nxt s)
      | _ \<Rightarrow> visit edges rest s)"
  by pat_completeness auto

lemma report_cycle_state [simp]:
  "ss_state (report_cycle nxt s) = ss_state s" "ss_stack (report_cycle nxt s) = ss_stack s"
  by (simp_all add: report_cycle_def Let_def)

lemma nodes_in_enter: "nodes_in v (enter n s) = (if v = InStack then insert n (nodes_in v s) else nodes_in v s - {n})"
  by (auto simp: nodes_in_def enter_def update_conv')

lemma nodes_in_leave: "nodes_in v (leave n s) = (if v = Done then insert n (nodes_in v s) else nodes_in v s - {n})"
  by (auto simp: nodes_in_def leave_def update_conv')

lemma nodes_in_report [simp]: "nodes_in v (report_cycle nxt s) = nodes_in v s"
  by (simp add: nodes_in_def)

lemma finite_nodes_in [simp]: "finite (nodes_in v s)"
proof -
  have "nodes_in v s \<subseteq> fst ` set (ss_state s)"
    by (force simp: nodes_in_def dest: map_of_SomeD)
  then show ?thesis by (rule finite_subset) simp
qed

lemma search_shrinks:
  "dfs_visit_dom (Inl (edges, node, s)) \<Longrightarrow> nodes_in Unvisited (dfs edges node s) \<subseteq> nodes_in Unvisited s - {node}"
  "dfs_visit_dom (Inr (edges, ns, s)) \<Longrightarrow> nodes_in Unvisited (visit edges ns s) \<subseteq> nodes_in Unvisited s"
proof (induction edges node s and edges ns s rule: dfs_visit.pinduct)
  case (1 edges node s)
  then show ?case by (auto simp: dfs.psimps nodes_in_enter nodes_in_leave)
next
  case (2 edges s)
  then show ?case by (simp add: visit.psimps)
next
  case (3 edges nxt rest s)
  show ?case
    using 3 by (simp add: visit.psimps split: option.split visit_state.split) blast
qed

termination dfs
proof (relation "measures [\<lambda>x. case x of
      Inl (edges, n, s) \<Rightarrow> 2 * card (nodes_in Unvisited s - {n}) + 1
    | Inr (edges, ns, s) \<Rightarrow> 2 * card (nodes_in Unvisited s),
    \<lambda>x. case x of Inl _ \<Rightarrow> 0 | Inr (edges, ns, s) \<Rightarrow> length ns]", goal_cases)
  case (2 edges node s)
  then show ?case by (simp add: nodes_in_enter)
next
  case (4 edges nxt rest s)
  then have "nxt \<in> nodes_in Unvisited s" by (simp add: nodes_in_def)
  then have "card (nodes_in Unvisited s - {nxt}) < card (nodes_in Unvisited s)"
    by (intro card_Diff1_less) simp_all
  then show ?case by simp
next
  case (5 edges nxt rest s)
  then have "nodes_in Unvisited (dfs edges nxt s) \<subseteq> nodes_in Unvisited s"
    using search_shrinks(1) by blast
  then have "card (nodes_in Unvisited (dfs edges nxt s)) \<le> card (nodes_in Unvisited s)"
    by (rule card_mono [OF finite_nodes_in])
  then show ?case by (simp add: le_less)
qed simp_all

section \<open>The search finds a cycle exactly when there is one\<close>

definition needs_graph :: "(string \<times> string list) list \<Rightarrow> (string \<times> string) set" where
  "needs_graph edges = {(n, m). n \<in> fst ` set edges \<and> m \<in> fst ` set edges \<and> m \<in> set (successors edges n)}"

definition cycle_of :: "(string \<times> string list) list \<Rightarrow> string list \<Rightarrow> bool" where
  "cycle_of edges c \<longleftrightarrow> c \<noteq> [] \<and> successively (\<lambda>a b. (a, b) \<in> needs_graph edges) (c @ [hd c])"

lemma successively_trancl:
  "successively (\<lambda>a b. (a, b) \<in> r) (x # xs @ [y]) \<Longrightarrow> (x, y) \<in> r\<^sup>+"
proof (induction xs arbitrary: x)
  case (Cons z zs)
  then show ?case by (simp, meson trancl_into_trancl2)
qed auto

lemma cycle_of_not_acyclic: "cycle_of edges c \<Longrightarrow> \<not> acyclic (needs_graph edges)"
  using successively_trancl [of "needs_graph edges" "hd c" "tl c" "hd c"]
  by (cases c) (auto simp: cycle_of_def acyclic_def)

lemma acyclic_add_source:
  assumes "acyclic r" and "r \<subseteq> D \<times> D" and "n \<notin> D" and "N \<subseteq> {n} \<times> D"
  shows "acyclic (r \<union> N)"
proof (rule acyclicI, rule allI, rule notI)
  fix x assume "(x, x) \<in> (r \<union> N)\<^sup>+"
  have "(a, b) \<in> (r \<union> N)\<^sup>+ \<Longrightarrow> b \<in> D \<and> (a \<in> D \<longrightarrow> (a, b) \<in> r\<^sup>+)" for a b
  proof (induction rule: trancl_induct)
    case (step b c)
    then show ?case using assms by (auto intro: trancl_into_trancl)
  qed (use assms in auto)
  then show False using \<open>(x, x) \<in> (r \<union> N)\<^sup>+\<close> assms(1) by (auto simp: acyclic_def)
qed

text \<open>What holds at every step of the search.\<close>

definition cycle_report :: "string list \<Rightarrow> Violation" where
  "cycle_report c = violation ''steps'' (Msg ''dependency cycle: {}'' [join '' -> '' (c @ [hd c])])"

definition search_ok :: "(string \<times> string list) list \<Rightarrow> search_state \<Rightarrow> bool" where
  "search_ok edges s \<longleftrightarrow>
     dom (map_of (ss_state s)) = fst ` set edges \<and>
     set (ss_stack s) = nodes_in InStack s \<and> distinct (ss_stack s) \<and>
     successively (\<lambda>a b. (a, b) \<in> needs_graph edges) (ss_stack s) \<and>
     (ss_out s = [] \<longleftrightarrow> ss_reported s = {}) \<and>
     (\<forall>v \<in> set (ss_out s). \<exists>c. cycle_of edges c \<and> v = cycle_report c) \<and>
     (ss_out s = [] \<longrightarrow>
        needs_graph edges `` nodes_in Done s \<subseteq> nodes_in Done s \<and>
        acyclic (needs_graph edges \<inter> nodes_in Done s \<times> nodes_in Done s))"

text \<open>What a call changes: the stack is as it was, done nodes stay done, reports stay.\<close>

definition search_grows :: "search_state \<Rightarrow> search_state \<Rightarrow> bool" where
  "search_grows s s' \<longleftrightarrow> ss_stack s' = ss_stack s \<and> nodes_in InStack s' = nodes_in InStack s \<and>
     nodes_in Done s \<subseteq> nodes_in Done s' \<and> (\<exists>vs. ss_out s' = ss_out s @ vs)"

lemma search_grows_refl [simp]: "search_grows s s"
  by (simp add: search_grows_def)

lemma search_grows_trans: "search_grows s t \<Longrightarrow> search_grows t u \<Longrightarrow> search_grows s u"
  by (auto simp: search_grows_def)

lemma report_out: "ss_out s = [] \<Longrightarrow> ss_reported s = {} \<Longrightarrow> ss_out (report_cycle n s) \<noteq> []"
  by (simp add: report_cycle_def Let_def)

lemma takeWhile_notin: "x \<in> set xs \<Longrightarrow> drop (length (takeWhile (Not \<circ> (\<lambda>n. n = x)) xs)) xs = x # tl (dropWhile (\<lambda>n. n \<noteq> x) xs)"
  by (induction xs) auto

lemma report_cycle_ok:
  assumes ok: "search_ok edges s" and st: "map_of (ss_state s) nxt = Some InStack"
    and edge: "(last (ss_stack s), nxt) \<in> needs_graph edges"
  shows "search_ok edges (report_cycle nxt s)" and "search_grows s (report_cycle nxt s)"
    and "ss_out (report_cycle nxt s) \<noteq> []"
proof -
  have mem: "nxt \<in> set (ss_stack s)" using ok st by (simp add: search_ok_def nodes_in_def)
  then obtain as bs where stack: "ss_stack s = as @ nxt # bs" and "nxt \<notin> set as"
    by (metis split_list_first)
  have pos: "position (\<lambda>n. n = nxt) (ss_stack s) = Some (length as)"
  proof -
    have "takeWhile (Not \<circ> (\<lambda>n. n = nxt)) (as @ nxt # bs) = as"
      using \<open>nxt \<notin> set as\<close> by (subst takeWhile_append2) auto
    then show ?thesis by (simp add: position_def Let_def stack)
  qed
  have "successively (\<lambda>a b. (a, b) \<in> needs_graph edges) (nxt # bs)"
    using ok by (auto simp: search_ok_def stack successively_append_iff)
  then have cyc: "cycle_of edges (nxt # bs)"
    using edge successively_append_iff [of _ "nxt # bs" "[nxt]"] by (simp add: cycle_of_def stack)
  have rep: "report_cycle nxt s =
      (if join '','' (sort (nxt # bs)) \<in> ss_reported s then s
       else s\<lparr>ss_reported := insert (join '','' (sort (nxt # bs))) (ss_reported s),
              ss_out := ss_out s @ [cycle_report (nxt # bs)]\<rparr>)"
    unfolding report_cycle_def pos by (simp add: stack Let_def cycle_report_def)
  show "search_ok edges (report_cycle nxt s)" and "search_grows s (report_cycle nxt s)"
    and "ss_out (report_cycle nxt s) \<noteq> []"
    using ok cyc by (auto simp: search_ok_def search_grows_def rep nodes_in_def)
qed

lemma enter_ok:
  assumes ok: "search_ok edges s" and un: "map_of (ss_state s) node = Some Unvisited"
    and edge: "ss_stack s \<noteq> [] \<longrightarrow> (last (ss_stack s), node) \<in> needs_graph edges"
  shows "search_ok edges (enter node s)"
proof -
  have node: "node \<in> nodes_in Unvisited s" using un by (simp add: nodes_in_def)
  have "node \<notin> nodes_in Done s" using un by (simp add: nodes_in_def)
  then have done': "nodes_in Done (enter node s) = nodes_in Done s" by (simp add: nodes_in_enter)
  have dom: "dom (map_of (ss_state (enter node s))) = fst ` set edges"
    using ok un by (auto simp: search_ok_def enter_def update_conv')
  have stack: "ss_stack (enter node s) = ss_stack s @ [node]" by (simp add: enter_def)
  have "node \<notin> set (ss_stack s)"
    using ok un by (auto simp: search_ok_def nodes_in_def)
  moreover have "ss_out (enter node s) = ss_out s" "ss_reported (enter node s) = ss_reported s"
    by (simp_all add: enter_def)
  ultimately show ?thesis
    using ok dom edge unfolding search_ok_def done' stack
    by (auto simp: nodes_in_enter successively_append_iff)
qed

lemma search_stack_known: "search_ok edges s \<Longrightarrow> set (ss_stack s) \<subseteq> fst ` set edges"
  unfolding search_ok_def nodes_in_def by (metis (mono_tags, lifting) domI mem_Collect_eq subsetI)

lemma leave_ok:
  assumes ok: "search_ok edges s" and stack: "ss_stack s = xs @ [node]"
    and all: "ss_out s = [] \<longrightarrow> set (successors edges node) \<inter> fst ` set edges \<subseteq> nodes_in Done s"
  shows "search_ok edges (leave node s)"
proof -
  let ?G = "needs_graph edges" and ?D = "nodes_in Done s"
  have inst: "node \<in> nodes_in InStack s" and "node \<notin> set xs" using ok stack by (auto simp: search_ok_def)
  then have fresh: "node \<notin> ?D" by (simp add: nodes_in_def)
  have dom: "dom (map_of (ss_state (leave node s))) = fst ` set edges"
    using ok inst by (auto simp: search_ok_def leave_def update_conv' nodes_in_def)
  have "?G `` insert node ?D \<subseteq> insert node ?D \<and> acyclic (?G \<inter> insert node ?D \<times> insert node ?D)"
    if "ss_out s = []"
  proof
    have closed: "?G `` ?D \<subseteq> ?D" and acyc: "acyclic (?G \<inter> ?D \<times> ?D)"
      using ok that by (simp_all add: search_ok_def)
    have to: "?G `` {node} \<subseteq> ?D" using all that by (auto simp: needs_graph_def)
    show "?G `` insert node ?D \<subseteq> insert node ?D" using closed to by blast
    have "?G \<inter> insert node ?D \<times> insert node ?D = (?G \<inter> ?D \<times> ?D) \<union> (?G \<inter> {node} \<times> ?D)"
      using closed to fresh by blast
    then show "acyclic (?G \<inter> insert node ?D \<times> insert node ?D)"
      using acyclic_add_source [OF acyc _ fresh, of "?G \<inter> {node} \<times> ?D"] by auto
  qed
  moreover have "nodes_in InStack (leave node s) = set xs"
    using ok stack \<open>node \<notin> set xs\<close> by (auto simp: nodes_in_leave search_ok_def)
  moreover have "ss_out (leave node s) = ss_out s" "ss_reported (leave node s) = ss_reported s"
    "ss_stack (leave node s) = xs" by (simp_all add: leave_def stack)
  ultimately show ?thesis
    using ok dom by (auto simp: search_ok_def stack nodes_in_leave successively_append_iff)
qed

lemma leave_out [simp]: "ss_out (leave n s) = ss_out s" "ss_stack (leave n s) = butlast (ss_stack s)"
  "ss_out (enter n s) = ss_out s" "ss_stack (enter n s) = ss_stack s @ [n]"
  by (simp_all add: leave_def enter_def)

lemma search_step:
  "search_ok edges s \<Longrightarrow> map_of (ss_state s) node = Some Unvisited \<Longrightarrow>
     (ss_stack s \<noteq> [] \<longrightarrow> (last (ss_stack s), node) \<in> needs_graph edges) \<Longrightarrow>
     search_ok edges (dfs edges node s) \<and> search_grows s (dfs edges node s) \<and>
     node \<in> nodes_in Done (dfs edges node s)"
  "search_ok edges s \<Longrightarrow> ss_stack s \<noteq> [] \<Longrightarrow> set ns \<subseteq> set (successors edges (last (ss_stack s))) \<Longrightarrow>
     search_ok edges (visit edges ns s) \<and> search_grows s (visit edges ns s) \<and>
     (ss_out (visit edges ns s) = [] \<longrightarrow> set ns \<inter> fst ` set edges \<subseteq> nodes_in Done (visit edges ns s))"
proof (induction edges node s and edges ns s rule: dfs_visit.induct)
  case (1 edges node s)
  let ?e = "enter node s" and ?v = "visit edges (successors edges node) (enter node s)"
  have stack: "ss_stack ?e = ss_stack s @ [node]" by (simp add: enter_def)
  have e: "search_ok edges ?e" by (intro enter_ok 1(2-4))
  have v: "search_ok edges ?v" "search_grows ?e ?v"
    "ss_out ?v = [] \<longrightarrow> set (successors edges node) \<inter> fst ` set edges \<subseteq> nodes_in Done ?v"
    using 1(1) e stack by simp_all
  have sv: "ss_stack ?v = ss_stack s @ [node]" using v(2) stack by (simp add: search_grows_def)
  have node_un: "node \<notin> nodes_in InStack s" "node \<notin> nodes_in Done s"
    using 1(3) by (simp_all add: nodes_in_def)
  have "search_grows s (leave node ?v)"
    using v(2) node_un by (auto simp: search_grows_def nodes_in_leave nodes_in_enter sv)
  then show ?case
    using leave_ok [OF v(1) sv v(3)] by (simp add: nodes_in_leave)
next
  case (3 edges nxt rest s)
  let ?n = "last (ss_stack s)"
  have top: "?n \<in> fst ` set edges"
    using search_stack_known [OF 3(6)] 3(7) by auto
  show ?case
  proof (cases "map_of (ss_state s) nxt")
    case None
    then have "nxt \<notin> fst ` set edges" using 3(6) by (auto simp: search_ok_def)
    then show ?thesis using 3 None by simp
  next
    case (Some v)
    then have edge: "(?n, nxt) \<in> needs_graph edges"
      using top 3(6,8) by (auto simp: needs_graph_def search_ok_def)
    show ?thesis
    proof (cases v)
      case Unvisited
      let ?d = "dfs edges nxt s"
      have d: "search_ok edges ?d" "search_grows s ?d" "nxt \<in> nodes_in Done ?d"
        using 3 Some Unvisited edge by auto
      then have r: "search_ok edges (visit edges rest ?d)" "search_grows ?d (visit edges rest ?d)"
        "ss_out (visit edges rest ?d) = [] \<longrightarrow> set rest \<inter> fst ` set edges \<subseteq> nodes_in Done (visit edges rest ?d)"
        using 3 Some Unvisited by (auto simp: search_grows_def)
      show ?thesis
        using r search_grows_trans [OF d(2) r(2)] d(3) Some Unvisited by (auto simp: search_grows_def)
    next
      case InStack
      note r = report_cycle_ok [OF 3(6) Some [unfolded InStack] edge]
      have "search_ok edges (visit edges rest (report_cycle nxt s)) \<and>
        search_grows (report_cycle nxt s) (visit edges rest (report_cycle nxt s))"
        using 3 Some InStack r(1) by auto
      then show ?thesis
        using r search_grows_trans [OF r(2)] Some InStack by (auto simp: search_grows_def)
    next
      case Done
      then have "nxt \<in> nodes_in Done s" using Some by (simp add: nodes_in_def)
      then show ?thesis using 3 Some Done by (auto simp: search_grows_def)
    qed
  qed
qed simp

section \<open>S7: no cycles of needs\<close>

definition edges_of :: "RawFormula \<Rightarrow> (string \<times> string list) list" where
  "edges_of raw = btree_extend []
     (List.map_filter (\<lambda>s. map_option (\<lambda>i. (i, rs_needs s)) (rs_id s)) (rf_steps raw))"

definition search_from :: "(string \<times> string list) list \<Rightarrow> search_state \<Rightarrow> string \<Rightarrow> search_state" where
  "search_from edges s node =
     (if map_of (ss_state s) node = Some Unvisited then dfs edges node (s\<lparr>ss_stack := []\<rparr>) else s)"

definition search_all :: "(string \<times> string list) list \<Rightarrow> search_state" where
  "search_all edges = foldl (search_from edges)
     \<lparr>ss_state = map (\<lambda>(k, _). (k, Unvisited)) edges, ss_stack = [], ss_out = [], ss_reported = {}\<rparr>
     (map fst edges)"

definition check_cycles :: "RawFormula \<Rightarrow> Violation list" where
  "check_cycles raw = ss_out (search_all (edges_of raw))"

definition idle :: "(string \<times> string list) list \<Rightarrow> search_state \<Rightarrow> bool" where
  "idle edges s \<longleftrightarrow> search_ok edges s \<and> ss_stack s = [] \<and> nodes_in InStack s = {}"

lemma search_from_idle:
  assumes "idle edges s"
  shows "idle edges (search_from edges s n) \<and> nodes_in Done s \<subseteq> nodes_in Done (search_from edges s n) \<and>
    (n \<in> fst ` set edges \<longrightarrow> n \<in> nodes_in Done (search_from edges s n))"
proof (cases "map_of (ss_state s) n = Some Unvisited")
  case True
  have s: "s\<lparr>ss_stack := []\<rparr> = s" using assms by (simp add: idle_def)
  show ?thesis
    using assms True search_step(1) [of edges s n]
    by (auto simp: search_from_def s idle_def search_grows_def)
next
  case False
  have "n \<in> nodes_in Done s" if n: "n \<in> fst ` set edges"
  proof -
    have "n \<in> dom (map_of (ss_state s))" using n assms by (simp add: idle_def search_ok_def)
    then obtain v where v: "map_of (ss_state s) n = Some v" by blast
    moreover have "v \<noteq> InStack" using assms v by (auto simp: idle_def nodes_in_def)
    ultimately show ?thesis using False by (cases v) (auto simp: nodes_in_def)
  qed
  then show ?thesis using assms False by (simp add: search_from_def)
qed

lemma search_all_idle:
  "idle edges s \<Longrightarrow> idle edges (foldl (search_from edges) s ns) \<and>
     nodes_in Done s \<subseteq> nodes_in Done (foldl (search_from edges) s ns) \<and>
     set ns \<inter> fst ` set edges \<subseteq> nodes_in Done (foldl (search_from edges) s ns)"
proof (induction ns arbitrary: s)
  case (Cons n ns)
  note n = search_from_idle [OF Cons.prems, of n]
  then have "idle edges (search_from edges s n)" by blast
  from Cons.IH [OF this] n show ?case by auto
qed simp

lemma search_start_idle:
  "idle edges \<lparr>ss_state = map (\<lambda>(k, _). (k, Unvisited)) edges, ss_stack = [], ss_out = [], ss_reported = {}\<rparr>"
proof -
  have "map_of (map (\<lambda>(k, _). (k, Unvisited)) edges) n = (if n \<in> fst ` set edges then Some Unvisited else None)" for n
    by (induction edges) auto
  moreover have "dom (map_of (map (\<lambda>(k, _). (k, Unvisited)) edges)) = fst ` set edges"
    by (simp add: dom_map_of_conv_image_fst image_image case_prod_beta)
  ultimately show ?thesis by (simp add: idle_def search_ok_def nodes_in_def acyclic_def)
qed

lemma search_all_exact:
  "ss_out (search_all edges) = [] \<longleftrightarrow> acyclic (needs_graph edges)"
  "v \<in> set (ss_out (search_all edges)) \<Longrightarrow> \<exists>c. cycle_of edges c \<and> v = cycle_report c"
proof -
  let ?s = "search_all edges"
  have s: "idle edges ?s" "fst ` set edges \<subseteq> nodes_in Done ?s"
    using search_all_idle [OF search_start_idle, of edges "map fst edges"] by (simp_all add: search_all_def)
  then have ok: "search_ok edges ?s" by (simp add: idle_def)
  then show "v \<in> set (ss_out ?s) \<Longrightarrow> \<exists>c. cycle_of edges c \<and> v = cycle_report c" for v
    by (simp add: search_ok_def)
  have "needs_graph edges \<inter> nodes_in Done ?s \<times> nodes_in Done ?s = needs_graph edges"
    using s(2) by (auto simp: needs_graph_def)
  moreover have "\<not> acyclic (needs_graph edges)" if "ss_out ?s \<noteq> []"
  proof -
    from that obtain v where "v \<in> set (ss_out ?s)" by (cases "ss_out ?s") auto
    then show ?thesis using ok cycle_of_not_acyclic by (auto simp: search_ok_def)
  qed
  ultimately show "ss_out ?s = [] \<longleftrightarrow> acyclic (needs_graph edges)"
    using ok by (auto simp: search_ok_def)
qed

lemma check_cycles_exact:
  "(check_cycles raw = [] \<longleftrightarrow> acyclic (needs_graph (edges_of raw))) \<and>
   (\<forall>v \<in> set (check_cycles raw). \<exists>c. cycle_of (edges_of raw) c \<and> v = cycle_report c)"
  using search_all_exact by (auto simp: check_cycles_def)

section \<open>The rules\<close>

definition step_loc :: "RawStep \<Rightarrow> string" where
  "step_loc s = (case rs_id s of Some i \<Rightarrow> ''steps.'' @ i | None \<Rightarrow> ''steps['' @ show_nat (rs_index s) @ '']'')"

definition rule :: "bool \<Rightarrow> string \<Rightarrow> message \<Rightarrow> Violation list" where
  "rule broken construct m = (if broken then [violation construct m] else [])"

lemma rule_Nil [simp]: "rule broken construct m = [] \<longleftrightarrow> \<not> broken"
  by (simp add: rule_def)

definition name_rules :: "RawFormula \<Rightarrow> string option \<Rightarrow> Violation list" where
  "name_rules raw stem =
     (case rf_name raw of
        None \<Rightarrow> [violation ''formula'' (Msg ''the `formula` name is required'' [])]
      | Some name \<Rightarrow>
          if name = [] then [violation ''formula'' (Msg ''the `formula` name is required'' [])]
          else (case stem of
                  None \<Rightarrow> []
                | Some st \<Rightarrow> rule (name \<noteq> st) ''formula''
                    (Msg ''formula name {name:?} must equal the file stem {stem:?}'' [name, st])))"

fun id_rules :: "string set \<Rightarrow> RawStep list \<Rightarrow> Violation list" where
  "id_rules seen [] = []"
| "id_rules seen (s # ss) =
     (case rs_id s of
        None \<Rightarrow> violation (step_loc s @ ''.id'') (Msg ''step `id` is required'' []) # id_rules seen ss
      | Some i \<Rightarrow>
          if i = [] then violation (step_loc s @ ''.id'') (Msg ''step `id` is required'' []) # id_rules seen ss
          else if i \<in> seen
          then violation (''steps.'' @ i @ ''.id'') (Msg ''duplicate step id {id:?}'' [i]) # id_rules seen ss
          else id_rules (insert i seen) ss)"

fun need_rules :: "string set \<Rightarrow> RawStep \<Rightarrow> string set \<Rightarrow> string list \<Rightarrow> Violation list" where
  "need_rules known s seen [] = []"
| "need_rules known s seen (n # ns) =
     (if Some n = rs_id s
      then [violation (step_loc s @ ''.needs'') (Msg ''step {need:?} needs itself'' [n])]
      else rule (n \<notin> known) (step_loc s @ ''.needs'') (Msg ''needs unknown step id {need:?}'' [n]))
     @ rule (n \<in> seen) (step_loc s @ ''.needs'') (Msg ''duplicate needs entry {need:?}'' [n])
     @ need_rules known s (insert n seen) ns"

definition combination_rules :: "RawStep \<Rightarrow> Violation list" where
  "combination_rules s =
     rule (rs_timeout s \<noteq> None \<and> \<not> rs_has_check s) (step_loc s @ ''.timeout'')
       (Msg ''step `timeout` bounds the check script and requires `check`'' [])
     @ rule (rs_has_check s \<and> rs_has_retry s) (step_loc s @ ''.check'')
       (Msg ''`check` must not be combined with `retry`'' [])
     @ rule (rs_has_check s \<and> rs_assignee s \<noteq> None) (step_loc s @ ''.check'')
       (Msg ''`check` must not be combined with `assignee`'' [])
     @ rule (rs_has_retry s \<and> rs_has_on_complete s) (step_loc s @ ''.retry'')
       (Msg ''`retry` must not be combined with `on_complete`'' [])
     @ rule (rs_has_drain s \<and> rs_has_check s) (step_loc s @ ''.drain'')
       (Msg ''`drain` must not be combined with `check`'' [])
     @ rule (rs_has_drain s \<and> rs_has_retry s) (step_loc s @ ''.drain'')
       (Msg ''`drain` must not be combined with `retry`'' [])
     @ rule (rs_has_drain s \<and> rs_needs s = []) (step_loc s @ ''.needs'')
       (Msg ''a drain step must declare at least one `needs`'' [])"

definition value_rules :: "RawStep \<Rightarrow> Violation list" where
  "value_rules s =
     (case rs_retry s of
        None \<Rightarrow> []
      | Some r \<Rightarrow>
          (case rr_on_exhausted r of
             None \<Rightarrow> []
           | Some v \<Rightarrow> rule (v \<notin> set CAMP_FINAL_DISPOSITIONS) (step_loc s @ ''.retry.on_exhausted'')
               (Msg ''on_exhausted {value:?} is not legal; use hard_fail or soft_fail'' [v])))
     @ (case rs_on_complete s of
          None \<Rightarrow> []
        | Some oc \<Rightarrow> rule (\<not> starts_with ''output.'' (oc_for_each oc)) (step_loc s @ ''.on_complete.for_each'')
            (Msg ''for_each {:?} must start with output.'' [oc_for_each oc]))"

definition step_rules :: "string set \<Rightarrow> RawStep \<Rightarrow> Violation list" where
  "step_rules known s =
     rule (rs_title s = None \<or> rs_title s = Some []) (step_loc s @ ''.title'')
       (Msg ''step `title` is required'' [])
     @ need_rules known s {} (rs_needs s) @ combination_rules s @ value_rules s"

definition known_ids :: "RawFormula \<Rightarrow> string set" where
  "known_ids raw = set (List.map_filter rs_id (rf_steps raw))"

definition check :: "('r, 'v) semver \<Rightarrow> RawFormula \<Rightarrow> string option \<Rightarrow> Violation list" where
  "check V raw stem =
     name_rules raw stem
     @ rule (rf_steps raw = [] \<and> \<not> is_expansion raw) ''steps''
         (Msg ''a camp formula must declare at least one step'' [])
     @ rule (is_expansion raw \<and> rf_template raw = []) ''template''
         (Msg ''an expansion formula must declare at least one [[template]] step'' [])
     @ id_rules {} (rf_steps raw)
     @ concat (map (step_rules (known_ids raw)) (rf_steps raw))
     @ check_cycles raw
     @ rule (list_ex (\<lambda>s. rs_has_check s \<or> rs_has_retry s \<or> rs_has_on_complete s \<or> rs_has_drain s)
              (rf_steps raw) \<and> \<not> declares_compiler raw) ''requires''
         (Msg ''formulas that use graph-only constructs must declare the compiler'' [])
     @ (case rf_formula_compiler raw of
          None \<Rightarrow> []
        | Some req \<Rightarrow>
            (case common_comparator_shape req of
               Inl m \<Rightarrow> [violation ''requires.formula_compiler'' m]
             | Inr _ \<Rightarrow> check_comparator_capability V req))"

section \<open>Assembly\<close>

definition assemble_step :: "RawStep \<Rightarrow> Step" where
  "assemble_step s =
     \<lparr>st_id = (case rs_id s of Some i \<Rightarrow> i | None \<Rightarrow> []),
      st_title = (case rs_title s of Some t \<Rightarrow> t | None \<Rightarrow> []),
      st_description = rs_description s, st_needs = rs_needs s, st_assignee = rs_assignee s,
      st_metadata = (case rs_drain s of
                       None \<Rightarrow> rs_metadata s
                     | Some d \<Rightarrow> btree_extend (rs_metadata s) (drain_metadata d)),
      st_timeout = rs_timeout s, st_check = rs_check s,
      st_retry = map_option (\<lambda>r. \<lparr>rt_max_attempts = rr_max_attempts r,
        rt_on_exhausted = (if rr_on_exhausted r = Some ''soft_fail'' then SoftFail else HardFail)\<rparr>) (rs_retry s),
      st_on_complete = rs_on_complete s, st_drain = rs_drain s\<rparr>"

definition assemble :: "RawFormula \<Rightarrow> string \<Rightarrow> (string \<times> string option) list \<Rightarrow> Formula" where
  "assemble raw source vars =
     \<lparr>fm_name = (case rf_name raw of Some n \<Rightarrow> n | None \<Rightarrow> []), fm_description = rf_description raw,
      fm_requires = rf_formula_compiler raw, fm_vars = vars,
      fm_steps = map assemble_step (rf_steps raw), fm_source = source\<rparr>"

section \<open>What the rules give\<close>

text \<open>In a walk without violations a key is present exactly when its table was read.\<close>

definition walked :: "RawFormula \<Rightarrow> bool" where
  "walked raw \<longleftrightarrow> (\<forall>s \<in> set (rf_steps raw).
     rs_has_check s = (rs_check s \<noteq> None) \<and> rs_has_retry s = (rs_retry s \<noteq> None) \<and>
     rs_has_on_complete s = (rs_on_complete s \<noteq> None) \<and> rs_has_drain s = (rs_drain s \<noteq> None))"

definition formula_graph :: "Formula \<Rightarrow> (string \<times> string) set" where
  "formula_graph F = {(st_id s, n) |s n. s \<in> set (fm_steps F) \<and> n \<in> set (st_needs s)}"

text \<open>The steps of a formula the runtime can execute.\<close>

definition step_ids :: "Formula \<Rightarrow> string list" where
  "step_ids F = map st_id (fm_steps F)"

definition step_sound :: "Step \<Rightarrow> bool" where
  "step_sound s \<longleftrightarrow>
     st_id s \<noteq> [] \<and> st_title s \<noteq> [] \<and> distinct (st_needs s) \<and>
     \<not> (st_check s \<noteq> None \<and> st_retry s \<noteq> None) \<and>
     (st_drain s \<noteq> None \<longrightarrow> st_check s = None \<and> st_retry s = None \<and> st_needs s \<noteq> []) \<and>
     (st_check s \<noteq> None \<longrightarrow> st_assignee s = None) \<and>
     (st_timeout s \<noteq> None \<longrightarrow> st_check s \<noteq> None)"

definition formula_sound :: "Formula \<Rightarrow> bool" where
  "formula_sound F \<longleftrightarrow>
     distinct (step_ids F) \<and> (\<forall>s \<in> set (fm_steps F). step_sound s) \<and>
     formula_graph F \<subseteq> set (step_ids F) \<times> set (step_ids F) \<and> acyclic (formula_graph F)"

lemma id_rules_Nil:
  "id_rules seen ss = [] \<longleftrightarrow>
     (\<forall>s \<in> set ss. rs_id s \<noteq> None \<and> rs_id s \<noteq> Some []) \<and>
     distinct (map rs_id ss) \<and> (\<forall>s \<in> set ss. \<forall>i. rs_id s = Some i \<longrightarrow> i \<notin> seen)"
proof (induction seen ss rule: id_rules.induct)
  case (2 seen s ss)
  show ?case
  proof (cases "rs_id s")
    case (Some i)
    have "Some i \<in> rs_id ` set ss \<longleftrightarrow> (\<exists>t \<in> set ss. rs_id t = Some i)"
      by (auto simp: image_iff eq_commute)
    then have "distinct (map rs_id (s # ss)) \<longleftrightarrow> distinct (map rs_id ss) \<and> (\<forall>t \<in> set ss. rs_id t \<noteq> Some i)"
      using Some by auto
    then show ?thesis using 2 Some by (auto split: if_splits)
  qed simp
qed simp

lemma need_rules_Nil:
  "need_rules known s seen ns = [] \<longleftrightarrow>
     (\<forall>n \<in> set ns. n \<in> known \<and> Some n \<noteq> rs_id s) \<and> distinct ns \<and> set ns \<inter> seen = {}"
  by (induction known s seen ns rule: need_rules.induct) auto

lemma mem_map_filter: "y \<in> set (List.map_filter f xs) \<longleftrightarrow> (\<exists>x \<in> set xs. f x = Some y)"
  by (induction xs) (auto simp: map_filter_def)

lemma map_fst_map_filter:
  "map fst (List.map_filter (\<lambda>s. map_option (\<lambda>i. (i, f s)) (g s)) ss) = List.map_filter g ss"
  by (induction ss) (auto simp: map_filter_def)

lemma map_Some_map_filter:
  "(\<And>s. s \<in> set ss \<Longrightarrow> g s \<noteq> None) \<Longrightarrow> map Some (List.map_filter g ss) = map g ss"
  by (induction ss) (auto simp: map_filter_def)

lemma Some_mem_image: "Some i \<in> f ` A \<longleftrightarrow> (\<exists>s \<in> A. f s = Some i)"
  by (auto simp: image_iff eq_commute)

lemma known_ids_iff: "n \<in> known_ids raw \<longleftrightarrow> (\<exists>s \<in> set (rf_steps raw). rs_id s = Some n)"
  by (simp add: known_ids_def mem_map_filter)

lemma assemble_step_needs [simp]: "st_needs (assemble_step s) = rs_needs s"
  by (simp add: assemble_step_def)

lemma assembled_id: "rs_id s \<noteq> None \<Longrightarrow> st_id (assemble_step s) = i \<longleftrightarrow> rs_id s = Some i"
  by (auto simp: assemble_step_def)

lemma assembled_ids:
  assumes "id_rules {} (rf_steps raw) = []"
  shows "map Some (step_ids (assemble raw source vars)) = map rs_id (rf_steps raw)"
proof -
  have "Some (st_id (assemble_step s)) = rs_id s" if s: "s \<in> set (rf_steps raw)" for s
  proof -
    have "rs_id s \<noteq> None" using assms s by (simp add: id_rules_Nil)
    then have "st_id (assemble_step s) = the (rs_id s)" by (simp add: assembled_id)
    then show ?thesis using \<open>rs_id s \<noteq> None\<close> by simp
  qed
  then show ?thesis by (simp add: step_ids_def assemble_def)
qed

lemma edges_of_lookup:
  assumes ids: "id_rules {} (rf_steps raw) = []" and s: "s \<in> set (rf_steps raw)" "rs_id s = Some i"
  shows "map_of (edges_of raw) i = Some (rs_needs s)"
proof -
  let ?es = "List.map_filter (\<lambda>s. map_option (\<lambda>i. (i, rs_needs s)) (rs_id s)) (rf_steps raw)"
  have "map Some (map fst ?es) = map rs_id (rf_steps raw)"
    unfolding map_fst_map_filter by (rule map_Some_map_filter) (use ids in \<open>simp add: id_rules_Nil\<close>)
  moreover have "distinct (map rs_id (rf_steps raw))" using ids by (simp add: id_rules_Nil)
  ultimately have "distinct (map Some (map fst ?es))" by (simp only:)
  then have "distinct (map fst ?es)" by (rule distinct_map [THEN iffD1, THEN conjunct1])
  then have "distinct (map fst (rev ?es))" by (simp only: rev_map [symmetric] distinct_rev)
  moreover have "(i, rs_needs s) \<in> set ?es"
    by (simp only: mem_map_filter) (rule bexI [OF _ s(1)], simp only: s(2) option.map)
  ultimately have "map_of (rev ?es) i = Some (rs_needs s)" by (subst map_of_eq_Some_iff) simp_all
  then show ?thesis by (simp add: edges_of_def map_of_btree_extend)
qed

lemma edges_of_keys: "fst ` set (edges_of raw) = known_ids raw"
  using arg_cong [OF map_fst_map_filter, of set rs_needs rs_id "rf_steps raw"]
  by (simp add: edges_of_def keys_btree_extend known_ids_def)

lemma assembled_graph:
  assumes ids: "id_rules {} (rf_steps raw) = []"
    and needs: "\<forall>s \<in> set (rf_steps raw). need_rules (known_ids raw) s {} (rs_needs s) = []"
  shows "formula_graph (assemble raw source vars) = needs_graph (edges_of raw)"
proof -
  have "(i, n) \<in> formula_graph (assemble raw source vars) \<longleftrightarrow> (i, n) \<in> needs_graph (edges_of raw)" for i n
  proof
    assume "(i, n) \<in> formula_graph (assemble raw source vars)"
    then obtain s where s: "s \<in> set (rf_steps raw)" "st_id (assemble_step s) = i" "n \<in> set (rs_needs s)"
      by (auto simp: formula_graph_def assemble_def)
    moreover have "rs_id s \<noteq> None" using ids s(1) by (simp add: id_rules_Nil)
    ultimately have i: "rs_id s = Some i" using assembled_id by blast
    moreover have "n \<in> known_ids raw" using needs s(1,3) by (simp add: need_rules_Nil)
    ultimately show "(i, n) \<in> needs_graph (edges_of raw)"
      using edges_of_lookup [OF ids s(1) i] s(1,3)
      by (simp add: needs_graph_def edges_of_keys successors_def) (use known_ids_iff in blast)
  next
    assume e: "(i, n) \<in> needs_graph (edges_of raw)"
    then obtain s where s: "s \<in> set (rf_steps raw)" "rs_id s = Some i"
      unfolding needs_graph_def edges_of_keys using known_ids_iff by blast
    then have "n \<in> set (st_needs (assemble_step s))"
      using e edges_of_lookup [OF ids s] by (simp add: needs_graph_def successors_def)
    moreover have "st_id (assemble_step s) = i" using s(2) by (simp add: assembled_id)
    ultimately show "(i, n) \<in> formula_graph (assemble raw source vars)"
      using s(1) by (auto simp: formula_graph_def assemble_def)
  qed
  then show ?thesis by auto
qed

lemma assembled_step_sound:
  assumes "walked raw" and s: "s \<in> set (rf_steps raw)" and "id_rules {} (rf_steps raw) = []"
    and r: "step_rules (known_ids raw) s = []"
  shows "step_sound (assemble_step s)"
proof -
  have "rs_has_check s = (rs_check s \<noteq> None)" "rs_has_retry s = (rs_retry s \<noteq> None)"
    "rs_has_drain s = (rs_drain s \<noteq> None)"
    using assms(1) s by (simp_all add: walked_def)
  moreover have "rs_id s \<noteq> None" "rs_id s \<noteq> Some []"
    using assms(3) s by (simp_all add: id_rules_Nil)
  moreover have "rs_title s \<noteq> None" "rs_title s \<noteq> Some []" "combination_rules s = []" "distinct (rs_needs s)"
    using r by (simp_all add: step_rules_def need_rules_Nil)
  ultimately show ?thesis
    by (cases "rs_id s"; cases "rs_title s"; cases "rs_drain s"; cases "rs_check s"; cases "rs_timeout s")
      (simp_all add: step_sound_def assemble_step_def combination_rules_def)
qed

lemma assembled_sound:
  assumes valid: "check V raw stem = []" and walked: "walked raw"
  shows "formula_sound (assemble raw source vars)"
proof -
  let ?F = "assemble raw source vars"
  have ids: "id_rules {} (rf_steps raw) = []" and cycles: "check_cycles raw = []"
    and steps: "\<forall>s \<in> set (rf_steps raw). step_rules (known_ids raw) s = []"
    using valid by (simp_all add: check_def)
  then have needs: "\<forall>s \<in> set (rf_steps raw). need_rules (known_ids raw) s {} (rs_needs s) = []"
    by (simp add: step_rules_def)
  note graph = assembled_graph [OF ids needs, of source vars]
  note keys = assembled_ids [OF ids, of source vars]
  have "distinct (map rs_id (rf_steps raw))" using ids by (simp add: id_rules_Nil)
  then have "distinct (step_ids ?F)" using keys by (metis distinct_map)
  moreover have "set (step_ids ?F) = known_ids raw"
  proof -
    have "i \<in> set (step_ids ?F) \<longleftrightarrow> Some i \<in> set (map rs_id (rf_steps raw))" for i
      unfolding keys [symmetric] by auto
    then show ?thesis by (simp add: set_eq_iff Some_mem_image known_ids_iff)
  qed
  moreover have "needs_graph (edges_of raw) \<subseteq> known_ids raw \<times> known_ids raw"
    by (auto simp: needs_graph_def edges_of_keys)
  moreover have "acyclic (needs_graph (edges_of raw))"
    using check_cycles_exact [of raw] cycles by simp
  moreover have "\<forall>s \<in> set (fm_steps ?F). step_sound s"
    using assembled_step_sound [OF walked _ ids] steps by (simp add: assemble_def)
  ultimately show ?thesis by (simp add: formula_sound_def graph)
qed

text \<open>
  C27. The search for cycles is exact: it reports nothing just when the graph of needs is acyclic, and
  whatever it reports is a real cycle of that graph, printed from its first step round to it.
\<close>

theorem cycles_are_found:
  "(check_cycles raw = [] \<longleftrightarrow> acyclic (needs_graph (edges_of raw))) \<and>
   (\<forall>v \<in> set (check_cycles raw). \<exists>c. cycle_of (edges_of raw) c \<and> v = cycle_report c)"
  by (rule check_cycles_exact)

section \<open>A formula, and a formula with a cycle\<close>

definition sample_step :: "string \<Rightarrow> string list \<Rightarrow> RawStep" where
  "sample_step i needs = RawStep 0 (Some i) (Some i) None None [] None None None [] [] None needs None None None None
     None False False False False"

definition sample :: "RawStep list \<Rightarrow> RawFormula" where
  "sample ss = \<lparr>rf_name = Some ''f'', rf_description = None, rf_formula_compiler = None, rf_contract = None,
     rf_kind = None, rf_vars = [], rf_extends = [], rf_template = [], rf_steps = ss\<rparr>"

theorem cycles_witness:
  "\<exists>c. cycle_of (edges_of (sample [sample_step ''a'' [''b''], sample_step ''b'' [''a'']])) c"
proof -
  have "check_cycles (sample [sample_step ''a'' [''b''], sample_step ''b'' [''a'']]) \<noteq> []" by code_simp
  then obtain v where "v \<in> set (check_cycles (sample [sample_step ''a'' [''b''], sample_step ''b'' [''a'']]))"
    by (metis list.set_intros(1) neq_Nil_conv)
  then show ?thesis using cycles_are_found by blast
qed

end
