(* ===== verification/Runtime.thy ===== *)
theory Runtime
  imports Json Validate
begin

text \<open>
  The runtime of a cooked run (\<^verbatim>\<open>crates/camp-core/src/formula/runtime.rs\<close>): loading the pinned
  run, membership, attempts, the search for work that can never run, the verdict of a run, the
  labels that link item runs to their anchor, and the batch that ends a run whose directory is
  unreadable. Everything reads the ledger; nothing writes.

  Files are a parameter: \<open>rd\<close> reads a path, given by its components. \<open>None\<close> is a panic.
\<close>

section \<open>The pinned run\<close>

definition RECIPE_VERSION :: nat where
  "RECIPE_VERSION = 1"

record RunContext =
  cx_run_id :: string
  cx_rig :: string
  cx_root :: string
  cx_formula :: Formula
  cx_anchors :: "(string \<times> string) list"

record Manifest =
  mf_run_id :: string
  mf_formula :: string
  mf_rig :: string
  mf_root :: string
  mf_steps :: "(string \<times> string) list"

record PinnedRecipe =
  pr_recipe_version :: nat
  pr_formula :: Formula

definition corrupt_run :: "string \<Rightarrow> message \<Rightarrow> core_error" where
  "corrupt_run run_id what =
     (case what of Msg f args \<Rightarrow> Corrupt (Msg (''run {run_id}: '' @ f) (run_id # args)))"

definition load_run ::
    "(string list \<Rightarrow> string + string) \<Rightarrow> (string \<Rightarrow> string + Manifest) \<Rightarrow> (string \<Rightarrow> string + PinnedRecipe) \<Rightarrow>
     string \<Rightarrow> string \<Rightarrow> RunContext res" where
  "load_run rd manifest_of recipe_of runs_dir run_id =
     (case rd [runs_dir, run_id, ''manifest.json''] of
        Inl e \<Rightarrow> Inl (corrupt_run run_id (Msg ''cannot read manifest.json: {e}'' [e]))
      | Inr raw \<Rightarrow>
     (case manifest_of raw of
        Inl e \<Rightarrow> Inl (corrupt_run run_id (Msg ''bad manifest: {e}'' [e]))
      | Inr m \<Rightarrow>
     rbind (ensure (mf_run_id m = run_id)
       (corrupt_run run_id (Msg ''manifest run_id {:?} does not match the dir'' [mf_run_id m]))) (\<lambda>_.
     (case rd [runs_dir, run_id, ''recipe.json''] of
        Inl e \<Rightarrow> Inl (corrupt_run run_id
          (Msg ''no recipe.json - this run was cooked by an older camp; re-sling it'' []))
      | Inr raw' \<Rightarrow>
     (case recipe_of raw' of
        Inl e \<Rightarrow> Inl (corrupt_run run_id (Msg ''bad recipe.json: {e}'' [e]))
      | Inr p \<Rightarrow>
     rbind (ensure (pr_recipe_version p = RECIPE_VERSION)
       (corrupt_run run_id (Msg ''was cooked by a different camp (recipe v{}, this camp reads v{})''
         [show_nat (pr_recipe_version p), show_nat RECIPE_VERSION]))) (\<lambda>_.
     rbind (ensure (fm_name (pr_formula p) = mf_formula m)
       (corrupt_run run_id (Msg ''manifest names formula {:?} but recipe.json holds {:?}''
         [mf_formula m, fm_name (pr_formula p)]))) (\<lambda>_.
     rbind (ensure (set (step_ids (pr_formula p)) = fst ` set (mf_steps m))
       (corrupt_run run_id (Msg ''manifest steps do not match the pinned formula'' []))) (\<lambda>_.
       Inr \<lparr>cx_run_id = mf_run_id m, cx_rig = mf_rig m, cx_root = mf_root m,
            cx_formula = pr_formula p, cx_anchors = mf_steps m\<rparr>))))))))"

definition is_looping :: "Step \<Rightarrow> bool" where
  "is_looping s \<longleftrightarrow> st_check s \<noteq> None \<or> st_retry s \<noteq> None"

definition is_campd_held :: "Step \<Rightarrow> bool" where
  "is_campd_held s \<longleftrightarrow> is_looping s \<or> st_drain s \<noteq> None"

record StepRef =
  sr_step :: Step
  sr_anchor :: string

definition step_ref :: "RunContext \<Rightarrow> string \<Rightarrow> StepRef option" where
  "step_ref ctx step_id =
     (case map_of (cx_anchors ctx) step_id of
        None \<Rightarrow> None
      | Some a \<Rightarrow>
          (case find (\<lambda>s. st_id s = step_id) (fm_steps (cx_formula ctx)) of
             None \<Rightarrow> None
           | Some s \<Rightarrow> Some \<lparr>sr_step = s, sr_anchor = a\<rparr>))"

definition is_anchor :: "RunContext \<Rightarrow> string \<Rightarrow> bool" where
  "is_anchor ctx bead = list_ex (\<lambda>(_, a). a = bead) (cx_anchors ctx)"

section \<open>Membership and attempts\<close>

record RunMembership =
  rm_run_id :: string
  rm_step_id :: "string option"

definition run_membership :: "state \<Rightarrow> string \<Rightarrow> RunMembership option" where
  "run_membership st bead =
     (case bead_at st bead of
        None \<Rightarrow> None
      | Some b \<Rightarrow> map_option (\<lambda>r. \<lparr>rm_run_id = r, rm_step_id = b_step_id b\<rparr>) (b_run_id b))"

text \<open>\<open>beads b JOIN events e ON e.bead = b.id AND e.type = 'bead.created' \<dots> ORDER BY e.seq\<close>.\<close>

definition run_step_beads :: "'j serde \<Rightarrow> ledger \<Rightarrow> string \<Rightarrow> string \<Rightarrow> BeadRow list res" where
  "run_step_beads S l run_id step_id =
     (let created = filter (\<lambda>r. r_type r = as_str BeadCreated) (event_log l);
          found = concat (map (\<lambda>r. map b_id (filter (\<lambda>b. r_bead r = Some (b_id b) \<and>
                    b_run_id b = Some run_id \<and> b_step_id b = Some step_id) (beads (tables l)))) created)
      in mapM (\<lambda>i. rbind (get_bead S (tables l) i) (\<lambda>r.
           case r of None \<Rightarrow> Inl (Corrupt (Msg ''bead {id} vanished mid-query'' [i])) | Some row \<Rightarrow> Inr row))
         found)"

definition attempts :: "'j serde \<Rightarrow> ledger \<Rightarrow> string \<Rightarrow> string \<Rightarrow> string \<Rightarrow> BeadRow list res" where
  "attempts S l run_id step_id anchor =
     rbind (run_step_beads S l run_id step_id) (\<lambda>rows. Inr (filter (\<lambda>b. row_id b \<noteq> anchor) rows))"

definition run_bead_ids :: "state \<Rightarrow> string \<Rightarrow> (string \<times> string option) list" where
  "run_bead_ids st run_id =
     map (\<lambda>b. (b_id b, b_step_id b)) (sort_key b_id (filter (\<lambda>b. b_run_id b = Some run_id) (beads st)))"

definition event_data :: "'j serde \<Rightarrow> string \<Rightarrow> string \<Rightarrow> event_row option \<Rightarrow> 'j option res" where
  "event_data S bead what r =
     (case r of
        None \<Rightarrow> Inr None
      | Some r \<Rightarrow>
          (case data_of S (r_data r) of
             Inl e \<Rightarrow> Inl (Corrupt (Msg (''bead {bead} '' @ what @ '' data is not JSON: {e}'') [bead, e]))
           | Inr d \<Rightarrow> Inr (Some d)))"

definition created_event_data :: "'j serde \<Rightarrow> ledger \<Rightarrow> string \<Rightarrow> 'j option res" where
  "created_event_data S l bead = event_data S bead ''created''
     (find (\<lambda>r. r_bead r = Some bead \<and> r_type r = as_str BeadCreated) (event_log l))"

definition close_event_data :: "'j serde \<Rightarrow> ledger \<Rightarrow> string \<Rightarrow> 'j option res" where
  "close_event_data S l bead = event_data S bead ''close''
     (find (\<lambda>r. r_bead r = Some bead \<and> r_type r = as_str BeadClosed) (rev (event_log l)))"

definition check_runs_used :: "BeadRow list \<Rightarrow> nat" where
  "check_runs_used rows =
     length (filter (\<lambda>b. row_status b = Closed \<and> row_outcome b = Some ''pass'') rows) mod 2 ^ 32"

definition transient_fails_used :: "'j serde \<Rightarrow> 'j value_ops \<Rightarrow> ledger \<Rightarrow> BeadRow list \<Rightarrow> nat res" where
  "transient_fails_used S J l rows =
     foldM (\<lambda>used b.
       if row_status b = Closed \<and> row_outcome b = Some ''fail''
       then rbind (close_event_data S l (row_id b)) (\<lambda>d.
              Inr (if data_str J d ''failure_class'' = Some ''transient'' then used + 1 else used))
       else Inr used) 0 rows"

section \<open>Work that can never run\<close>

definition needs_of :: "state \<Rightarrow> string \<Rightarrow> string list" where
  "needs_of st bead = map d_needs (filter (\<lambda>d. d_bead d = bead) (deps st))"

text \<open>
  \<open>gray\<close> is the path of the recursion: the code takes a bead out of it before every return, so a
  call hands back the set it was given. \<open>black\<close> holds the results that are complete.
\<close>

function unsatisfiable_walk ::
    "'j serde \<Rightarrow> state \<Rightarrow> string \<Rightarrow> string set \<Rightarrow> (string \<rightharpoonup> bool) \<Rightarrow> (bool \<times> (string \<rightharpoonup> bool)) res"
  and unsatisfiable_needs ::
    "'j serde \<Rightarrow> state \<Rightarrow> string list \<Rightarrow> string set \<Rightarrow> (string \<rightharpoonup> bool) \<Rightarrow> (bool \<times> (string \<rightharpoonup> bool)) res"
where
  "unsatisfiable_walk S st bead gray black =
     (case black bead of
        Some known \<Rightarrow> Inr (known, black)
      | None \<Rightarrow>
          if bead \<in> gray
          then Inl (Corrupt (Msg ''needs cycle involving bead {bead:?}'' [bead]))
          else rbind (unsatisfiable_needs S st (needs_of st bead) (insert bead gray) black) (\<lambda>(r, black').
                 Inr (r, black'(bead \<mapsto> r))))"
| "unsatisfiable_needs S st [] gray black = Inr (False, black)"
| "unsatisfiable_needs S st (need # rest) gray black =
     rbind (get_bead S st need) (\<lambda>found.
       case found of
         None \<Rightarrow> Inr (True, black)
       | Some row \<Rightarrow>
           if row_status row = Closed
           then if row_outcome row \<noteq> Some ''pass'' then Inr (True, black)
                else unsatisfiable_needs S st rest gray black
           else rbind (unsatisfiable_walk S st need gray black) (\<lambda>(r, black').
                  if r then Inr (True, black') else unsatisfiable_needs S st rest gray black'))"
  by pat_completeness auto

lemma finite_ids [simp]: "finite (ids st)"
  by (simp add: ids_def)

lemma get_bead_Some: "get_bead S st i = Inr (Some row) \<Longrightarrow> i \<in> ids st"
  by (auto simp: get_bead_def bead_at_def sql_find_def ids_def find_Some_iff split: option.splits)

termination unsatisfiable_walk
proof (relation "measures [\<lambda>x. case x of
      Inl (S, st, bead, gray, black) \<Rightarrow> 2 * card (ids st - gray) + (if bead \<in> ids st then 0 else 2)
    | Inr (S, st, needs, gray, black) \<Rightarrow> 2 * card (ids st - gray) + 1,
    \<lambda>x. case x of Inl _ \<Rightarrow> 0 | Inr (S, st, needs, gray, black) \<Rightarrow> length needs]", goal_cases)
  case (2 S st bead gray black)
  show ?case
  proof (cases "bead \<in> ids st")
    case True
    then have "card (ids st - gray - {bead}) < card (ids st - gray)"
      using 2 by (intro card_Diff1_less) auto
    moreover have "ids st - insert bead gray = ids st - gray - {bead}" by auto
    ultimately show ?thesis using True by simp
  next
    case False
    then have "ids st - insert bead gray = ids st - gray" by auto
    then show ?thesis using False by simp
  qed
next
  case (4 S st need rest gray black found row)
  then show ?case by (simp add: get_bead_Some)
qed auto

definition unsatisfiable :: "'j serde \<Rightarrow> state \<Rightarrow> string \<Rightarrow> bool res" where
  "unsatisfiable S st bead = rbind (unsatisfiable_walk S st bead {} Map.empty) (\<lambda>(r, _). Inr r)"

text \<open>What the search looks for.\<close>

inductive doomed :: "state \<Rightarrow> string \<Rightarrow> bool" for st where
  missing: "n \<in> set (needs_of st i) \<Longrightarrow> bead_at st n = None \<Longrightarrow> doomed st i"
| failed: "n \<in> set (needs_of st i) \<Longrightarrow> bead_at st n = Some t \<Longrightarrow> b_status t = Closed \<Longrightarrow>
    b_outcome t \<noteq> Some ''pass'' \<Longrightarrow> doomed st i"
| waits: "n \<in> set (needs_of st i) \<Longrightarrow> bead_at st n = Some t \<Longrightarrow> b_status t \<noteq> Closed \<Longrightarrow>
    doomed st n \<Longrightarrow> doomed st i"

definition doomed_need :: "state \<Rightarrow> string \<Rightarrow> bool" where
  "doomed_need st n =
     (case bead_at st n of
        None \<Rightarrow> True
      | Some t \<Rightarrow> if b_status t = Closed then b_outcome t \<noteq> Some ''pass'' else doomed st n)"

lemma doomed_iff: "doomed st i \<longleftrightarrow> (\<exists>n \<in> set (needs_of st i). doomed_need st n)"
proof
  show "doomed st i \<Longrightarrow> \<exists>n \<in> set (needs_of st i). doomed_need st n"
    by (cases rule: doomed.cases) (auto simp: doomed_need_def intro!: bexI)
  assume "\<exists>n \<in> set (needs_of st i). doomed_need st n"
  then obtain n where n: "n \<in> set (needs_of st i)" "doomed_need st n" by blast
  then show "doomed st i"
    by (cases "bead_at st n") (auto simp: doomed_need_def intro: doomed.intros split: if_splits)
qed

definition open_needs :: "state \<Rightarrow> (string \<times> string) set" where
  "open_needs st = {(i, n). n \<in> set (needs_of st i) \<and>
     (\<exists>t. bead_at st n = Some t \<and> b_status t \<noteq> Closed)}"

definition labels_read :: "'j serde \<Rightarrow> state \<Rightarrow> bool" where
  "labels_read S st \<longleftrightarrow> (\<forall>b \<in> set (beads st). \<exists>ls. labels_of S (b_labels b) = Inr ls)"

lemma bead_at_mem: "bead_at st i = Some b \<Longrightarrow> b \<in> set (beads st) \<and> b_id b = i"
  by (auto simp: bead_at_def sql_find_def find_Some_iff)

lemma get_bead_read:
  assumes "labels_read S st"
  shows "get_bead S st i = Inr None \<and> bead_at st i = None \<or>
    (\<exists>b row. bead_at st i = Some b \<and> get_bead S st i = Inr (Some row) \<and> row_to_bead S b = Inr row \<and>
       row_status row = b_status b \<and> row_outcome row = b_outcome b \<and> row_id row = i \<and> row_rig row = b_rig b)"
proof (cases "bead_at st i")
  case (Some b)
  then obtain ls where "labels_of S (b_labels b) = Inr ls"
    using assms bead_at_mem [OF Some] unfolding labels_read_def by blast
  then show ?thesis using Some bead_at_mem [OF Some] by (simp add: get_bead_def row_to_bead_def)
qed (simp add: get_bead_def)

lemma get_bead_Inr:
  "get_bead S st i = Inr found \<longleftrightarrow>
     (case bead_at st i of None \<Rightarrow> found = None | Some b \<Rightarrow> \<exists>row. row_to_bead S b = Inr row \<and> found = Some row)"
  by (auto simp: get_bead_def split: option.splits)

lemma row_to_bead_Inr:
  "row_to_bead S b = Inr row \<Longrightarrow> row_status row = b_status b \<and> row_outcome row = b_outcome b \<and>
     row_id row = b_id b \<and> row_rig row = b_rig b"
  by (auto simp: row_to_bead_def split: sum.splits)

definition black_ok :: "state \<Rightarrow> (string \<rightharpoonup> bool) \<Rightarrow> bool" where
  "black_ok st black \<longleftrightarrow> (\<forall>i r. black i = Some r \<longrightarrow> r = doomed st i)"

lemma unsatisfiable_sound:
  "unsatisfiable_walk S st bead gray black = Inr (r, black') \<Longrightarrow> black_ok st black \<Longrightarrow>
     r = doomed st bead \<and> black_ok st black'"
  "unsatisfiable_needs S st ns gray black = Inr (r, black') \<Longrightarrow> black_ok st black \<Longrightarrow>
     r = (\<exists>n \<in> set ns. doomed_need st n) \<and> black_ok st black'"
proof (induction S st bead gray black and S st ns gray black arbitrary: r black' and r black'
    rule: unsatisfiable_walk_unsatisfiable_needs.induct)
  case (1 S st bead gray black)
  show ?case
  proof (cases "black bead")
    case None
    with 1(2) obtain b1 where "bead \<notin> gray" and
      n: "unsatisfiable_needs S st (needs_of st bead) (insert bead gray) black = Inr (r, b1)" and
      b: "black' = b1(bead \<mapsto> r)"
      by (auto split: if_splits)
    from 1(1) [OF None \<open>bead \<notin> gray\<close> n 1(3)] show ?thesis
      by (auto simp: doomed_iff [of st bead] black_ok_def b)
  next
    case (Some k)
    then show ?thesis using 1(2,3) by (simp add: black_ok_def)
  qed
next
  case (3 S st need rest gray black)
  from 3(4) obtain found where f: "get_bead S st need = Inr found" by auto
  show ?case
  proof (cases found)
    case None
    then have "doomed_need st need" using f by (auto simp: get_bead_Inr doomed_need_def split: option.splits)
    then show ?thesis using 3(4,5) f None by simp
  next
    case (Some row)
    then obtain b where b: "bead_at st need = Some b" "row_status row = b_status b" "row_outcome row = b_outcome b"
      using f row_to_bead_Inr by (force simp: get_bead_Inr split: option.splits)
    show ?thesis
    proof (cases "b_status b = Closed")
      case True
      show ?thesis
      proof (cases "b_outcome b = Some ''pass''")
        case True
        then have "unsatisfiable_needs S st rest gray black = Inr (r, black')"
          using 3(4) f Some b \<open>b_status b = Closed\<close> by simp
        then show ?thesis
          using 3(1) [OF f Some _ _ _ 3(5)] True b \<open>b_status b = Closed\<close> by (simp add: doomed_need_def)
      next
        case False
        then show ?thesis using 3(4,5) f Some b \<open>b_status b = Closed\<close> by (simp add: doomed_need_def)
      qed
    next
      case False
      with 3(4) f Some b obtain r1 b1 where w: "unsatisfiable_walk S st need gray black = Inr (r1, b1)"
        and k: "(if r1 then Inr (True, b1) else unsatisfiable_needs S st rest gray b1) = Inr (r, black')"
        by auto
      have r1: "r1 = doomed st need" "black_ok st b1"
        using 3(2) [OF f Some _ w 3(5)] False b(2) by auto
      then show ?thesis
        using 3(3) [OF f Some _ w refl _ _ r1(2)] k False b by (auto simp: doomed_need_def split: if_splits)
    qed
  qed
qed auto

lemma unsatisfiable_complete:
  "acyclic (open_needs st) \<Longrightarrow> labels_read S st \<Longrightarrow> \<forall>g \<in> gray. (g, bead) \<in> (open_needs st)\<^sup>+ \<Longrightarrow>
     unsatisfiable_walk S st bead gray black \<noteq> Inl e"
  "acyclic (open_needs st) \<Longrightarrow> labels_read S st \<Longrightarrow>
     \<forall>g \<in> gray. \<forall>n \<in> set ns. (\<exists>t. bead_at st n = Some t \<and> b_status t \<noteq> Closed) \<longrightarrow> (g, n) \<in> (open_needs st)\<^sup>+ \<Longrightarrow>
     unsatisfiable_needs S st ns gray black \<noteq> Inl e"
proof (induction S st bead gray black and S st ns gray black arbitrary: e and e
    rule: unsatisfiable_walk_unsatisfiable_needs.induct)
  case (1 S st bead gray black)
  show ?case
  proof (cases "black bead")
    case None
    have "bead \<notin> gray" using 1(2,4) by (auto simp: acyclic_def)
    moreover have "\<forall>g \<in> insert bead gray. \<forall>n \<in> set (needs_of st bead).
        (\<exists>t. bead_at st n = Some t \<and> b_status t \<noteq> Closed) \<longrightarrow> (g, n) \<in> (open_needs st)\<^sup>+"
      using 1(4) by (auto simp: open_needs_def intro: trancl_into_trancl)
    ultimately show ?thesis using 1(1) [OF None] 1(2,3) None by (auto simp: rbind_eq_Inl)
  qed simp
next
  case (3 S st need rest gray black)
  show ?case
  proof (cases "bead_at st need")
    case None
    then show ?thesis by (simp add: get_bead_def)
  next
    case (Some b)
    then obtain row where row: "get_bead S st need = Inr (Some row)" "row_status row = b_status b"
      using get_bead_read [OF 3(5), of need] by auto
    have rest: "\<forall>g \<in> gray. \<forall>n \<in> set rest. (\<exists>t. bead_at st n = Some t \<and> b_status t \<noteq> Closed) \<longrightarrow>
        (g, n) \<in> (open_needs st)\<^sup>+" using 3(6) by auto
    show ?thesis
    proof (cases "b_status b = Closed")
      case True
      then show ?thesis using 3(1) [OF row(1) refl _ _ 3(4,5) rest] row by auto
    next
      case False
      have "unsatisfiable_walk S st need gray black \<noteq> Inl e'" for e'
        using 3(2) [OF row(1) refl _ 3(4,5)] 3(6) row(2) False Some by auto
      moreover have "unsatisfiable_needs S st rest gray black' \<noteq> Inl e'"
        if "unsatisfiable_walk S st need gray black = Inr (False, black')" for black' e'
        using 3(3) [OF row(1) refl _ that refl _ 3(4,5) rest] row(2) False by auto
      ultimately show ?thesis using row False by (auto simp: rbind_eq_Inl split: if_splits)
    qed
  qed
qed simp

lemma unsatisfiable_decides:
  assumes "acyclic (open_needs st)" and "labels_read S st"
  shows "unsatisfiable S st bead = Inr (doomed st bead)"
proof (cases "unsatisfiable_walk S st bead {} Map.empty")
  case (Inl e)
  then show ?thesis using unsatisfiable_complete(1) [OF assms, of "{}" bead Map.empty e] by simp
next
  case (Inr p)
  then show ?thesis
    using unsatisfiable_sound(1) [of S st bead "{}" Map.empty "fst p" "snd p"]
    by (simp add: unsatisfiable_def black_ok_def case_prod_beta del: unsatisfiable_walk.simps)
qed

section \<open>The verdict of a run\<close>

datatype run_verdict =
    NotQuiescent
  | Finalize (v_outcome: string) (v_disposition: string) (v_soft_failed: "string list")
      (v_skipped: "string list") (v_to_skip: "string list")

record tally =
  tl_hard :: bool
  tl_soft_failed :: "string list"
  tl_skipped :: "string list"
  tl_to_skip :: "string list"

text \<open>
  One step of the loop: \<open>Inr None\<close> is the early \<open>return Ok(NotQuiescent)\<close>, and the outer \<open>None\<close> the
  panic of \<open>ctx.anchors[&step.id]\<close>.
\<close>

definition tally_step ::
    "'j serde \<Rightarrow> 'j value_ops \<Rightarrow> ledger \<Rightarrow> RunContext \<Rightarrow> Step \<Rightarrow> tally \<Rightarrow> tally option res option" where
  "tally_step S J l ctx step t =
     (case map_of (cx_anchors ctx) (st_id step) of
        None \<Rightarrow> None
      | Some anchor_id \<Rightarrow> Some
          (rbind (get_bead S (tables l) anchor_id) (\<lambda>found.
           case found of
             None \<Rightarrow> Inl (UnknownBead anchor_id)
           | Some anchor \<Rightarrow>
               (case row_status anchor of
                  Closed \<Rightarrow>
                    if row_outcome anchor = Some ''pass'' then Inr (Some t)
                    else if row_outcome anchor = Some ''skipped''
                    then Inr (Some (t\<lparr>tl_skipped := tl_skipped t @ [st_id step]\<rparr>))
                    else rbind (close_event_data S l anchor_id) (\<lambda>d.
                           if data_str J d ''final_disposition'' = Some ''soft_fail''
                           then Inr (Some (t\<lparr>tl_soft_failed := tl_soft_failed t @ [st_id step]\<rparr>))
                           else Inr (Some (t\<lparr>tl_hard := True\<rparr>)))
                | InProgress \<Rightarrow> Inr None
                | Open \<Rightarrow>
                    rbind (unsatisfiable S (tables l) anchor_id) (\<lambda>never.
                      if never
                      then Inr (Some (t\<lparr>tl_skipped := tl_skipped t @ [st_id step],
                                        tl_to_skip := tl_to_skip t @ [anchor_id]\<rparr>))
                      else Inr None)))))"

fun tally_steps ::
    "'j serde \<Rightarrow> 'j value_ops \<Rightarrow> ledger \<Rightarrow> RunContext \<Rightarrow> Step list \<Rightarrow> tally \<Rightarrow> tally option res option" where
  "tally_steps S J l ctx [] t = Some (Inr (Some t))"
| "tally_steps S J l ctx (s # ss) t =
     (case tally_step S J l ctx s t of
        Some (Inr (Some t')) \<Rightarrow> tally_steps S J l ctx ss t'
      | r \<Rightarrow> r)"

definition aggregate :: "tally \<Rightarrow> run_verdict" where
  "aggregate t =
     (let (outcome, disposition) =
        (if tl_hard t then (''fail'', ''hard_fail'')
         else if tl_skipped t \<noteq> [] then (''fail'', ''soft_fail'')
         else if tl_soft_failed t \<noteq> [] then (''pass'', ''soft_fail'')
         else (''pass'', ''pass''))
      in Finalize outcome disposition (tl_soft_failed t) (tl_skipped t) (tl_to_skip t))"

definition finalization ::
    "'j serde \<Rightarrow> 'j value_ops \<Rightarrow> ledger \<Rightarrow> RunContext \<Rightarrow> run_verdict res option" where
  "finalization S J l ctx =
     (case get_bead S (tables l) (cx_root ctx) of
        Inl e \<Rightarrow> Some (Inl e)
      | Inr None \<Rightarrow> Some (Inl (UnknownBead (cx_root ctx)))
      | Inr (Some root) \<Rightarrow>
          if row_status root = Closed then Some (Inr NotQuiescent)
          else map_option (\<lambda>r. rbind r (\<lambda>t. Inr (case t of None \<Rightarrow> NotQuiescent | Some t \<Rightarrow> aggregate t)))
                 (tally_steps S J l ctx (fm_steps (cx_formula ctx))
                    \<lparr>tl_hard = False, tl_soft_failed = [], tl_skipped = [], tl_to_skip = []\<rparr>))"

text \<open>The same, read off the tables: how a step stands.\<close>

datatype standing = Passed | Skipped | SoftFailed | HardFailed | Doomed | Pending

definition anchor_of :: "RunContext \<Rightarrow> Step \<Rightarrow> string" where
  "anchor_of ctx s = (case map_of (cx_anchors ctx) (st_id s) of Some a \<Rightarrow> a | None \<Rightarrow> [])"

definition standing :: "state \<Rightarrow> RunContext \<Rightarrow> Step \<Rightarrow> standing" where
  "standing st ctx s =
     (case bead_at st (anchor_of ctx s) of
        None \<Rightarrow> Pending
      | Some b \<Rightarrow>
          (case b_status b of
             Closed \<Rightarrow>
               if b_outcome b = Some ''pass'' then Passed
               else if b_outcome b = Some ''skipped'' then Skipped
               else if b_final_disposition b = Some ''soft_fail'' then SoftFailed else HardFailed
           | InProgress \<Rightarrow> Pending
           | Open \<Rightarrow> if doomed st (b_id b) then Doomed else Pending))"

definition verdict_of :: "state \<Rightarrow> RunContext \<Rightarrow> run_verdict" where
  "verdict_of st ctx =
     (let steps = fm_steps (cx_formula ctx); at = (\<lambda>x. filter (\<lambda>s. standing st ctx s = x) steps);
          skipped = filter (\<lambda>s. standing st ctx s \<in> {Skipped, Doomed}) steps
      in if map_option b_status (bead_at st (cx_root ctx)) = Some Closed \<or> at Pending \<noteq> [] then NotQuiescent
         else Finalize
           (if at HardFailed = [] \<and> skipped = [] then ''pass'' else ''fail'')
           (if at HardFailed \<noteq> [] then ''hard_fail''
            else if skipped \<noteq> [] \<or> at SoftFailed \<noteq> [] then ''soft_fail'' else ''pass'')
           (map st_id (at SoftFailed)) (map st_id skipped) (map (anchor_of ctx) (at Doomed)))"

text \<open>What the runtime relies on of the JSON library: a field of a payload that the fold decoded.\<close>

definition close_fields :: "'j serde \<Rightarrow> 'j value_ops \<Rightarrow> bool" where
  "close_fields S J \<longleftrightarrow> (\<forall>d p. dec_bead_closed S d = Inr p \<longrightarrow>
     data_str J (Some d) ''final_disposition'' = bx_final_disposition p \<and>
     data_str J (Some d) ''failure_class'' = bx_failure_class p)"

end
