(* ===== verification/Verdict.thy ===== *)
theory Verdict
  imports Progress Runtime
begin

text \<open>
  The verdict of a run against the tables: which event closed a bead, that its payload is the one
  \<open>close_event_data\<close> finds, that the labels of a reachable table parse, and that \<open>run_finalization\<close>
  computes the verdict read off the tables.
\<close>

section \<open>Who closed a bead\<close>

definition closes :: "string \<Rightarrow> 'j event \<Rightarrow> bool" where
  "closes i ev \<longleftrightarrow> ev_kind ev = BeadClosed \<and> ev_bead ev = Some i"

definition still_closed :: "state \<Rightarrow> string \<Rightarrow> bead \<Rightarrow> bool" where
  "still_closed st i b' \<longleftrightarrow> (\<exists>b. bead_at st i = Some b \<and> verdict b = verdict b')"

lemma still_closed_map:
  assumes "bead_at st' i = Some b'" and "b_status b' = Closed"
    and rows: "beads st' = map (\<lambda>b. if p b then f b else b) (beads st)"
    and id: "\<And>b. b_id (f b) = b_id b"
    and keep: "\<And>b. p b \<Longrightarrow> b_status (f b) = Closed \<Longrightarrow> verdict b = verdict (f b)"
  shows "still_closed st i b'"
  using assms(1,2) keep bead_at_map_if [OF rows id, of i] by (auto simp: still_closed_def split: if_splits)

lemma still_closed_same:
  "bead_at st' i = Some b' \<Longrightarrow> beads st' = beads st \<Longrightarrow> still_closed st i b'"
  by (simp add: still_closed_def bead_at_def)

lemma closed_by:
  assumes run: "fold_apply S st ev = Inr st'" and b': "bead_at st' i = Some b'" "b_status b' = Closed"
  shows "\<not> closes i ev \<and> still_closed st i b' \<or>
    closes i ev \<and> (\<exists>p b. dec_bead_closed S (ev_data ev) = Inr p \<and> b' = close_row ev p b)"
proof (cases "closes i ev")
  case True
  then have "bead_closed S ev st = Inr st'" using run by (simp add: closes_def fold_apply_def)
  then show ?thesis
  proof (rule bead_closed_beads)
    fix j p s
    assume j: "ev_bead ev = Some j" and p: "dec_bead_closed S (ev_data ev) = Inr p"
      and "st' = index_reason j (bx_reason p)
             (st\<lparr>beads := map (\<lambda>b. if b_id b = j then close_row ev p b else b) (beads st)\<rparr>)"
    then have "beads st' = map (\<lambda>b. if b_id b = j then close_row ev p b else b) (beads st)" by simp
    then have "bead_at st' i = map_option (\<lambda>b. if b_id b = j then close_row ev p b else b) (bead_at st i)"
      by (rule bead_at_map_if) (simp add: close_row_def)
    moreover have "j = i" using True j by (simp add: closes_def)
    ultimately have "\<exists>b. b' = close_row ev p b"
      using b'(1) bead_at_Some [of st i] by (cases "bead_at st i") auto
    then show ?thesis using True p by blast
  qed
next
  case False
  from run have "still_closed st i b'"
  proof (rule fold_apply_cases)
    assume "bead_created S ev st = Inr st'"
    then show ?thesis
    proof (rule bead_created_beads)
      fix j rig p
      assume "j \<notin> b_id ` set (beads st)" and "beads st' = beads st @ [new_bead S ev j rig p]"
      then show ?thesis
        using b' bead_at_append [of st' st "new_bead S ev j rig p" i]
        by (auto simp: ids_def new_bead_def still_closed_def split: if_splits)
    qed
  next
    assume "bead_claimed S ev st = Inr st'"
    then show ?thesis
      by (rule bead_claimed_rows, intro still_closed_map [OF b']) (assumption, simp_all add: claim_row_def)
  next
    assume "bead_updated S ev st = Inr st'"
    then show ?thesis
      by (rule bead_updated_beads, intro still_closed_map [OF b'])
        (assumption, simp_all add: patch_row_def verdict_def)
  next
    assume kind: "ev_kind ev = BeadClosed" and "bead_closed S ev st = Inr st'"
    from this(2) show ?thesis
    proof (rule bead_closed_beads)
      fix j p
      assume "ev_bead ev = Some j"
        and "st' = index_reason j (bx_reason p)
               (st\<lparr>beads := map (\<lambda>b. if b_id b = j then close_row ev p b else b) (beads st)\<rparr>)"
      moreover from this(1) have "j \<noteq> i" using False kind by (auto simp: closes_def)
      ultimately have "bead_at st' i = map_option (\<lambda>b. if b_id b = j then close_row ev p b else b) (bead_at st i)"
        by (intro bead_at_map_if) (simp_all add: close_row_def)
      then show ?thesis using b'(1) \<open>j \<noteq> i\<close> bead_at_Some [of st i]
        by (cases "bead_at st i") (auto simp: still_closed_def)
    qed
  next
    assume "session_woke S ev st = Inr st'"
    then show ?thesis
      by (rule session_woke_rows, intro still_closed_map [OF b']) (assumption, simp_all add: verdict_def)
  next
    assume "session_ended S ev Crashed st = Inr st'"
    then show ?thesis
    proof (rule session_ended_Inr)
      fix p
      assume "st' = st\<lparr>sessions := end_session_rows ev (se_name p) Crashed (sessions st),
           beads := (if Crashed = Crashed then reopen_rows ev (se_name p) (beads st) else beads st)\<rparr>"
      then have rows: "beads st' = map (\<lambda>b. if b_claimed_by b = Some (se_name p) \<and> b_status b = InProgress
          then reopen_row ev b else b) (beads st)"
        by (simp add: reopen_rows_def)
      show ?thesis by (rule still_closed_map [OF b' rows]) (simp_all add: reopen_row_def)
    qed
  next
    assume "session_ended S ev Stopped st = Inr st'"
    then show ?thesis by (rule session_ended_Inr) (simp add: still_closed_same [OF b'(1)])
  next
    assume "dispatch_failed S ev st = Inr st'"
    then show ?thesis
      by (intro still_closed_map [OF b', of "\<lambda>b. Some (b_id b) = ev_bead ev"
          "\<lambda>b. b\<lparr>b_dispatch_failure := Some (df_reason (projr (dec_dispatch_failed S (ev_data ev)))), b_updated_ts := ev_ts ev\<rparr>"])
        (auto simp: dispatch_failed_def verdict_def)
  next
    assume "dispatch_rearmed S ev st = Inr st'"
    then show ?thesis
      by (intro still_closed_map [OF b', of "\<lambda>b. Some (b_id b) = ev_bead ev \<and> b_dispatch_failure b \<noteq> None"
          "\<lambda>b. b\<lparr>b_dispatch_failure := None, b_updated_ts := ev_ts ev\<rparr>"])
        (auto simp: dispatch_rearmed_def verdict_def)
  qed (auto simp: session_pid_def permission_pending_def permission_decided_def split: if_splits prod.splits
        intro: still_closed_same [OF b'(1)])
  then show ?thesis using False by blast
qed

section \<open>The payload that closed a bead\<close>

lemma row_to_event_Inr:
  "row_to_event S r = Inr ev \<Longrightarrow> (r_type r = as_str k \<longleftrightarrow> ev_kind ev = k) \<and> ev_bead ev = r_bead r \<and>
     data_of S (r_data r) = Inr (ev_data ev)"
  using event_vocabulary.spell_inj
  by (auto simp: row_to_event_def parse_event_type_exact [THEN conjunct1] split: sum.splits)

definition closing_row :: "string \<Rightarrow> event_row list \<Rightarrow> event_row option" where
  "closing_row i rs = find (\<lambda>r. r_bead r = Some i \<and> r_type r = as_str BeadClosed) (rev rs)"

lemma closing_row_snoc:
  "row_to_event S r = Inr ev \<Longrightarrow> closing_row i (rs @ [r]) = (if closes i ev then Some r else closing_row i rs)"
  using row_to_event_Inr [of S r ev BeadClosed] by (simp add: closing_row_def closes_def del: as_str.simps)

text \<open>The payload of the last closing event is the one the row of the bead was written from.\<close>

lemma closed_from_payload:
  assumes "foldM (replay_row S) empty_state rs = Inr st" and "bead_at st i = Some b" and "b_status b = Closed"
  shows "\<exists>r d p. closing_row i rs = Some r \<and> data_of S (r_data r) = Inr d \<and> dec_bead_closed S d = Inr p \<and>
    b_outcome b = Some (bx_outcome p) \<and> b_final_disposition b = bx_final_disposition p"
  using assms
proof (induction rs arbitrary: st b rule: rev_induct)
  case Nil
  then show ?case by (auto simp: empty_state_def bead_at_def sql_find_def)
next
  case (snoc r rs)
  then obtain st0 ev where st0: "foldM (replay_row S) empty_state rs = Inr st0"
    and ev: "row_to_event S r = Inr ev" and run: "fold_apply S st0 ev = Inr st"
    by (auto simp: rows.replay_snoc replay_row_Inr)
  from closed_by [OF run snoc.prems(2,3)] show ?case
  proof (elim disjE conjE exE)
    assume "\<not> closes i ev" and "still_closed st0 i b"
    then obtain b0 where "bead_at st0 i = Some b0" "verdict b0 = verdict b"
      unfolding still_closed_def by blast
    with snoc.IH [OF st0, of b0] snoc.prems(3) \<open>\<not> closes i ev\<close> show ?thesis
      by (simp add: closing_row_snoc [OF ev] verdict_def)
  next
    fix p b0
    assume "closes i ev" "dec_bead_closed S (ev_data ev) = Inr p" "b = close_row ev p b0"
    with row_to_event_Inr [OF ev] show ?thesis by (simp add: closing_row_snoc [OF ev] close_row_def)
  qed
qed

lemma close_event_data_closed:
  assumes "replays S l" and "bead_at (tables l) i = Some b" and "b_status b = Closed" and "close_fields S J"
  shows "\<exists>d. close_event_data S l i = Inr d \<and> data_str J d ''final_disposition'' = b_final_disposition b"
proof -
  obtain r d p where "closing_row i (event_log l) = Some r" "data_of S (r_data r) = Inr d"
    "dec_bead_closed S d = Inr p" "b_final_disposition b = bx_final_disposition p"
    using closed_from_payload [OF assms(1) [unfolded replays_def] assms(2,3)] by blast
  then have "close_event_data S l i = Inr (Some d)"
    "data_str J (Some d) ''final_disposition'' = b_final_disposition b"
    using assms(4) by (simp_all add: close_event_data_def event_data_def closing_row_def close_fields_def)
  then show ?thesis by blast
qed

section \<open>Labels parse\<close>

lemma row_evolves_labels: "row_evolves b b' \<Longrightarrow> b_labels b' = b_labels b"
  by (auto simp: row_evolves_def elim!: bead_step_SomeE)

lemma rows_mapped:
  assumes "fold_apply S st ev = Inr st'" and "ev_kind ev \<noteq> BeadCreated"
  shows "\<exists>g. beads st' = map g (beads st)"
  using assms(1)
proof (rule fold_apply_cases)
  assume "bead_claimed S ev st = Inr st'"
  then show ?thesis by (rule bead_claimed_rows) blast
next
  assume "bead_updated S ev st = Inr st'"
  then show ?thesis by (rule bead_updated_beads) blast
next
  assume "bead_closed S ev st = Inr st'"
  then show ?thesis
  proof (rule bead_closed_beads)
    fix i p
    assume st': "st' = index_reason i (bx_reason p)
             (st\<lparr>beads := map (\<lambda>b. if b_id b = i then close_row ev p b else b) (beads st)\<rparr>)"
    show ?thesis by (rule exI [of _ "\<lambda>b. if b_id b = i then close_row ev p b else b"]) (simp add: st')
  qed
next
  assume "session_woke S ev st = Inr st'"
  then show ?thesis by (rule session_woke_rows) blast
next
  assume "session_ended S ev Crashed st = Inr st'"
  then show ?thesis
  proof (rule session_ended_Inr)
    fix p
    assume "st' = st\<lparr>sessions := end_session_rows ev (se_name p) Crashed (sessions st),
         beads := (if Crashed = Crashed then reopen_rows ev (se_name p) (beads st) else beads st)\<rparr>"
    then have "beads st' = reopen_rows ev (se_name p) (beads st)" by simp
    then show ?thesis unfolding reopen_rows_def by blast
  qed
next
  assume "session_ended S ev Stopped st = Inr st'"
  then show ?thesis by (rule session_ended_Inr) (auto intro: exI [of _ id])
next
  assume "dispatch_failed S ev st = Inr st'"
  then show ?thesis
    by (intro exI [of _ "\<lambda>b. if Some (b_id b) = ev_bead ev then b\<lparr>b_dispatch_failure :=
          Some (df_reason (projr (dec_dispatch_failed S (ev_data ev)))), b_updated_ts := ev_ts ev\<rparr> else b"])
      (auto simp: dispatch_failed_def)
next
  assume "dispatch_rearmed S ev st = Inr st'"
  then show ?thesis
    by (intro exI [of _ "\<lambda>b. if Some (b_id b) = ev_bead ev \<and> b_dispatch_failure b \<noteq> None
          then b\<lparr>b_dispatch_failure := None, b_updated_ts := ev_ts ev\<rparr> else b"])
      (auto simp: dispatch_rearmed_def)
qed (use assms(2) in \<open>auto simp: session_pid_def permission_pending_def permission_decided_def
      intro: exI [of _ id] split: if_splits prod.splits\<close>)

text \<open>Every stored list of labels was written by the library.\<close>

definition labels_stored :: "'j serde \<Rightarrow> state \<Rightarrow> bool" where
  "labels_stored S st \<longleftrightarrow> (\<forall>b \<in> set (beads st). \<exists>ls. b_labels b = labels_text S ls)"

lemma labels_stored_read: "labels_roundtrip S \<Longrightarrow> labels_stored S st \<Longrightarrow> labels_read S st"
  by (fastforce simp: labels_stored_def labels_read_def labels_roundtrip_def)

lemma labels_stored_step:
  assumes wf: "wf_state st" and run: "fold_apply S st ev = Inr st'" and labels: "labels_stored S st"
  shows "labels_stored S st'"
proof (cases "ev_kind ev = BeadCreated")
  case True
  then have "bead_created S ev st = Inr st'" using run by (simp add: fold_apply_def)
  then show ?thesis
  proof (rule bead_created_beads)
    fix j rig p
    assume "beads st' = beads st @ [new_bead S ev j rig p]"
    then show ?thesis using labels by (auto simp: labels_stored_def new_bead_def)
  qed
next
  case False
  then obtain g where g: "beads st' = map g (beads st)" using rows_mapped [OF run] by blast
  moreover have "list_all2 row_evolves (beads st) (beads st')"
    using fold_apply_evolve [OF run wf_beads_table [OF wf] wf_beads_ok [OF wf]] g
    unfolding beads_evolve_def by (metis Suc_n_not_n length_append_singleton length_map)
  ultimately have "list_all2 row_evolves (beads st) (map g (beads st))" by simp
  then have "\<forall>b \<in> set (beads st). b_labels (g b) = b_labels b"
    by (auto simp: rows_evolve_map row_evolves_labels)
  then show ?thesis using labels g by (simp add: labels_stored_def)
qed

lemma replayed_stored:
  assumes "replays S l"
  shows "labels_stored S (tables l)"
proof -
  have "labels_stored S st" if "foldM (replay_row S) empty_state rs = Inr st" for rs st
    using that
  proof (induction rs arbitrary: st rule: rev_induct)
    case Nil
    then show ?case by (auto simp: labels_stored_def empty_state_def)
  next
    case (snoc r rs)
    then obtain st0 ev where st0: "foldM (replay_row S) empty_state rs = Inr st0" and "fold_apply S st0 ev = Inr st"
      by (auto simp: rows.replay_snoc replay_row_Inr)
    then show ?case by (intro labels_stored_step [OF rows.replay_inv [OF st0] _ snoc.IH [OF st0]])
  qed
  then show ?thesis using assms unfolding replays_def by blast
qed

lemma replayed_labels: "labels_roundtrip S \<Longrightarrow> replays S l \<Longrightarrow> labels_read S (tables l)"
  by (intro labels_stored_read replayed_stored)

section \<open>The verdict of a run\<close>

definition add_standing :: "RunContext \<Rightarrow> Step \<Rightarrow> tally \<Rightarrow> standing \<Rightarrow> tally option" where
  "add_standing ctx s t x =
     (case x of
        Passed \<Rightarrow> Some t
      | Skipped \<Rightarrow> Some (t\<lparr>tl_skipped := tl_skipped t @ [st_id s]\<rparr>)
      | SoftFailed \<Rightarrow> Some (t\<lparr>tl_soft_failed := tl_soft_failed t @ [st_id s]\<rparr>)
      | HardFailed \<Rightarrow> Some (t\<lparr>tl_hard := True\<rparr>)
      | Doomed \<Rightarrow> Some (t\<lparr>tl_skipped := tl_skipped t @ [st_id s], tl_to_skip := tl_to_skip t @ [anchor_of ctx s]\<rparr>)
      | Pending \<Rightarrow> None)"

definition anchored :: "state \<Rightarrow> RunContext \<Rightarrow> bool" where
  "anchored st ctx \<longleftrightarrow> cx_root ctx \<in> ids st \<and>
     list_all (\<lambda>s. case map_of (cx_anchors ctx) (st_id s) of None \<Rightarrow> False | Some a \<Rightarrow> a \<in> ids st)
       (fm_steps (cx_formula ctx))"

lemma tally_step_standing:
  assumes l: "replays S l" "labels_roundtrip S" "close_fields S J" "acyclic (open_needs (tables l))"
    and a: "map_of (cx_anchors ctx) (st_id s) = Some a" "a \<in> ids (tables l)"
  shows "tally_step S J l ctx s t = Some (Inr (add_standing ctx s t (standing (tables l) ctx s)))"
proof -
  note labels = replayed_labels [OF l(2,1)]
  obtain b where b: "bead_at (tables l) a = Some b" "b_id b = a"
    using a(2) by (metis bead_at_None bead_at_Some ids_def not_Some_eq)
  then obtain row where row: "get_bead S (tables l) a = Inr (Some row)"
    "row_status row = b_status b" "row_outcome row = b_outcome b"
    using get_bead_read [OF labels, of a] by auto
  have anchor: "anchor_of ctx s = a" using a(1) by (simp add: anchor_of_def)
  show ?thesis
  proof (cases "b_status b")
    case Open
    then show ?thesis
      using a(1) b row unsatisfiable_decides [OF l(4) labels, of a]
      by (simp add: tally_step_def standing_def anchor add_standing_def)
  next
    case InProgress
    then show ?thesis using a(1) b row by (simp add: tally_step_def standing_def anchor add_standing_def)
  next
    case Closed
    obtain d where "close_event_data S l a = Inr d" "data_str J d ''final_disposition'' = b_final_disposition b"
      using close_event_data_closed [OF l(1) b(1) Closed l(3)] by blast
    then show ?thesis
      using a(1) b row Closed by (simp add: tally_step_def standing_def anchor add_standing_def)
  qed
qed

lemma tally_steps_standing:
  assumes l: "replays S l" "labels_roundtrip S" "close_fields S J" "acyclic (open_needs (tables l))"
    and "list_all (\<lambda>s. case map_of (cx_anchors ctx) (st_id s) of None \<Rightarrow> False | Some a \<Rightarrow> a \<in> ids (tables l)) ss"
  shows "tally_steps S J l ctx ss t = Some (Inr
     (if \<exists>s \<in> set ss. standing (tables l) ctx s = Pending then None
      else Some \<lparr>tl_hard = (tl_hard t \<or> (\<exists>s \<in> set ss. standing (tables l) ctx s = HardFailed)),
        tl_soft_failed = tl_soft_failed t @ map st_id (filter (\<lambda>s. standing (tables l) ctx s = SoftFailed) ss),
        tl_skipped = tl_skipped t @ map st_id (filter (\<lambda>s. standing (tables l) ctx s \<in> {Skipped, Doomed}) ss),
        tl_to_skip = tl_to_skip t @ map (anchor_of ctx) (filter (\<lambda>s. standing (tables l) ctx s = Doomed) ss)\<rparr>))"
  using assms(5)
proof (induction ss arbitrary: t)
  case (Cons s ss)
  then obtain a where a: "map_of (cx_anchors ctx) (st_id s) = Some a" "a \<in> ids (tables l)"
    by (auto split: option.splits)
  show ?case
    using Cons by (cases "standing (tables l) ctx s")
      (simp_all add: tally_step_standing [OF l a] add_standing_def)
qed simp

text \<open>
  C14. The computed finalization is the verdict of the run: in a good ledger whose needs are acyclic and
  whose anchors exist, what the code gathers from statuses, outcomes and closing events is the
  abstract verdict: no verdict while a step is still open or can still run, otherwise the outcome
  with its soft failures and skipped steps; and the code returns no error.
\<close>

theorem finalization_is_verdict:
  assumes "good S l" and "labels_roundtrip S" and "close_fields S J"
    and "acyclic (open_needs (tables l))" and "anchored (tables l) ctx"
  shows "finalization S J l ctx = Some (Inr (verdict_of (tables l) ctx))"
proof -
  have l: "replays S l" using assms(1) by (simp add: good_def)
  have "cx_root ctx \<in> ids (tables l)" using assms(5) by (simp add: anchored_def)
  then obtain b where b: "bead_at (tables l) (cx_root ctx) = Some b"
    by (metis bead_at_None ids_def not_Some_eq)
  then obtain row where row: "get_bead S (tables l) (cx_root ctx) = Inr (Some row)" "row_status row = b_status b"
    using get_bead_read [OF replayed_labels [OF assms(2) l], of "cx_root ctx"] by auto
  note tally = tally_steps_standing [OF l assms(2-4), of ctx "fm_steps (cx_formula ctx)"]
  show ?thesis
    using b row assms(5)
    by (auto simp: finalization_def tally anchored_def verdict_of_def aggregate_def Let_def filter_empty_conv)
qed

section \<open>Work that can never run never runs\<close>

text \<open>
  A bead that waits, through beads that are still open, for one that has closed without passing. It
  is what the search looks for, where every need is a bead.
\<close>

inductive sunk :: "state \<Rightarrow> string \<Rightarrow> bool" for st where
  failed: "n \<in> set (needs_of st i) \<Longrightarrow> bead_at st n = Some t \<Longrightarrow> b_status t = Closed \<Longrightarrow>
    b_outcome t \<noteq> Some ''pass'' \<Longrightarrow> sunk st i"
| waits: "n \<in> set (needs_of st i) \<Longrightarrow> bead_at st n = Some t \<Longrightarrow> b_status t \<noteq> Closed \<Longrightarrow>
    sunk st n \<Longrightarrow> sunk st i"

lemma doomed_sunk: "doomed st i \<Longrightarrow> \<forall>d \<in> set (deps st). d_needs d \<in> ids st \<Longrightarrow> sunk st i"
proof (induction rule: doomed.induct)
  case (missing n i)
  then have "n \<in> ids st" by (auto simp: needs_of_def)
  then show ?case using missing(2) bead_at_None [of st n] by (simp add: ids_def)
qed (auto intro: sunk.intros)

lemma needs_of_iff: "n \<in> set (needs_of st i) \<longleftrightarrow> (\<exists>d \<in> set (deps st). d_bead d = i \<and> d_needs d = n)"
  by (auto simp: needs_of_def)

lemma sunk_unmet: "sunk st i \<Longrightarrow> \<exists>n \<in> set (needs_of st i). \<not> passed st n"
  by (cases rule: sunk.cases) (auto simp: passed_def intro!: bexI)

lemma sunk_not_ready: "sunk st i \<Longrightarrow> \<not> ready_spec st i"
  using sunk_unmet by (fastforce simp: ready_spec_def needs_of_iff)

text \<open>An event passes a bead only when its needs have passed: what claiming ready work amounts to.\<close>

definition honest :: "'j serde \<Rightarrow> state \<Rightarrow> 'j event \<Rightarrow> bool" where
  "honest S st ev \<longleftrightarrow> (\<forall>i p. closes i ev \<and> dec_bead_closed S (ev_data ev) = Inr p \<and> bx_outcome p = ''pass'' \<longrightarrow>
     (\<forall>n \<in> set (needs_of st i). passed st n))"

fun honest_run :: "'j serde \<Rightarrow> state \<Rightarrow> 'j event list \<Rightarrow> bool" where
  "honest_run S st [] = True"
| "honest_run S st (ev # evs) =
     (honest S st ev \<and> (case fold_apply S st ev of Inl _ \<Rightarrow> True | Inr st' \<Rightarrow> honest_run S st' evs))"

lemma needs_kept:
  "fold_apply S st ev = Inr st' \<Longrightarrow> i \<in> ids st \<Longrightarrow> set (needs_of st' i) = set (needs_of st i)"
  using fold_apply_needs by (fastforce simp: same_needs_def needs_of_def)

lemma ids_at: "bead_at st n = Some t \<Longrightarrow> n \<in> ids st"
  using bead_at_mem by (fastforce simp: ids_def)

lemma sunk_step:
  assumes wf: "wf_state st" and run: "fold_apply S st ev = Inr st'" and honest: "honest S st ev"
    and "sunk st i" and "i \<in> ids st"
  shows "sunk st' i"
  using assms(4,5)
proof (induction rule: sunk.induct)
  case (failed n i t)
  obtain t' where "bead_at st' n = Some t'" "verdict t' = verdict t"
    using fold_apply_verdict [OF wf run failed(2,3)] by blast
  then show ?case
    using failed needs_kept [OF run failed(5)] by (intro sunk.failed [of n _ _ t']) (auto simp: verdict_def)
next
  case (waits n i t)
  have n: "n \<in> ids st" by (rule ids_at [OF waits(2)])
  have need: "n \<in> set (needs_of st' i)" using waits needs_kept [OF run waits(6)] by simp
  obtain t' where t': "bead_at st' n = Some t'"
    using fold_apply_at [OF wf run, of n] waits(2) by (cases "bead_at st' n") auto
  show ?case
  proof (cases "b_status t' = Closed")
    case True
    from closed_by [OF run t' True] show ?thesis
    proof (elim disjE conjE exE)
      assume "still_closed st n t'"
      then show ?thesis using waits(2,3) True by (auto simp: still_closed_def verdict_def)
    next
      fix p b
      assume c: "closes n ev" "dec_bead_closed S (ev_data ev) = Inr p" "t' = close_row ev p b"
      have "bx_outcome p \<noteq> ''pass''" using honest c sunk_unmet [OF waits(4)] unfolding honest_def by blast
      then show ?thesis using need t' True c(3) by (intro sunk.failed [of n _ _ t']) (auto simp: close_row_def)
    qed
  next
    case False
    then show ?thesis by (rule sunk.waits [OF need t' _ waits(5) [OF n]])
  qed
qed

lemma sunk_run:
  "foldM (fold_apply S) st evs = Inr st' \<Longrightarrow> wf_state st \<Longrightarrow> honest_run S st evs \<Longrightarrow> sunk st i \<Longrightarrow> i \<in> ids st \<Longrightarrow>
     sunk st' i \<and> i \<in> ids st'"
proof (induction evs arbitrary: st)
  case (Cons ev evs)
  then obtain st1 where st1: "fold_apply S st ev = Inr st1" and rest: "foldM (fold_apply S) st1 evs = Inr st'"
    by auto
  have "i \<in> ids st1"
  proof -
    have "bead_at st i \<noteq> None" using Cons.prems(5) bead_at_None by (simp add: ids_def)
    then have "bead_at st1 i \<noteq> None"
      using fold_apply_at [OF Cons.prems(2) st1, of i] by (cases "bead_at st1 i") auto
    then show ?thesis using bead_at_None by (simp add: ids_def)
  qed
  then show ?case
    using Cons.IH [OF rest fold_apply_wf [OF Cons.prems(2) st1]] sunk_step [OF Cons.prems(2) st1 _ Cons.prems(4,5)]
      Cons.prems(3) st1 by simp
qed simp

text \<open>
  C32. Work that the code calls unsatisfiable never becomes ready: from a state whose needs all exist and
  are acyclic, no accepted sequence of events makes the bead ready again, as long as no bead is
  closed as passed while one of its own needs has not passed.
\<close>

theorem unsatisfiable_is_final:
  assumes "wf_state st" and "acyclic (open_needs st)" and "labels_read S st"
    and "unsatisfiable S st i = Inr True" and "i \<in> ids st" and "\<forall>d \<in> set (deps st). d_needs d \<in> ids st"
    and "foldM (fold_apply S) st evs = Inr st'" and "honest_run S st evs"
  shows "is_ready st' i = Inr False"
proof -
  have "doomed st i" using unsatisfiable_decides [OF assms(2,3), of i] assms(4) by simp
  then have "sunk st i" using assms(6) by (rule doomed_sunk)
  then have st': "sunk st' i" "i \<in> ids st'" using sunk_run [OF assms(7,1,8) _ assms(5)] by auto
  then have "\<not> ready_spec st' i" by (simp add: sunk_not_ready)
  then show ?thesis
    using is_ready_Inl [of st' i] is_ready_iff [of st' i] st'(2) by (cases "is_ready st' i") auto
qed

end
