(* ===== verification/Fanout.thy ===== *)
theory Fanout
  imports Verdict "HOL-Library.Multiset"
begin

text \<open>
  Fan-out of a run (\<^verbatim>\<open>crates/camp-core/src/formula/runtime.rs\<close>): the array an \<open>on_complete.for_each\<close>
  names, the substitution of item values into vars, the labels that link an item run to its anchor
  and the queries over them, the members of a run, the reservations a drain holds, and the run
  directories that no \<open>run.cooked\<close> names.
\<close>

section \<open>The items of an \<open>on_complete\<close>\<close>

fun get_path :: "'j value_ops \<Rightarrow> (string \<Rightarrow> 'j \<Rightarrow> message) \<Rightarrow> 'j \<Rightarrow> string list \<Rightarrow> message + 'j" where
  "get_path J err node [] = Inr node"
| "get_path J err node (seg # segs) =
     (case jv_get J node seg of None \<Rightarrow> Inl (err seg node) | Some node' \<Rightarrow> get_path J err node' segs)"

definition resolve_for_each :: "'j value_ops \<Rightarrow> 'j \<Rightarrow> string \<Rightarrow> message + 'j list" where
  "resolve_for_each J close_data path =
     rbind (case strip_prefix ''output.'' path of
              None \<Rightarrow> Inl (Msg ''for_each {path:?} must start with output.'' [path])
            | Some rest \<Rightarrow> Inr rest) (\<lambda>rest.
     rbind (case jv_get J close_data ''output'' of
              None \<Rightarrow> Inl (Msg ''for_each {path:?}: the close carries no output (use camp close --output-json)'' [path])
            | Some node \<Rightarrow> Inr node) (\<lambda>node.
     rbind (get_path J (\<lambda>seg node. Msg ''for_each {path:?}: output has no field {segment:?} (found: {node})''
              [path, seg, jv_text J node]) node (split_on CHR ''.'' rest)) (\<lambda>node.
       case jv_array J node of
         None \<Rightarrow> Inl (Msg ''for_each {path:?} must name an array, found: {node}'' [path, jv_text J node])
       | Some items \<Rightarrow> Inr items)))"

definition item_string :: "'j value_ops \<Rightarrow> 'j \<Rightarrow> string" where
  "item_string J v = (case jv_str J v of Some s \<Rightarrow> s | None \<Rightarrow> jv_text J v)"

text \<open>The value of one \<open>{token}\<close>.\<close>

definition token_value :: "'j value_ops \<Rightarrow> string \<Rightarrow> 'j \<Rightarrow> nat \<Rightarrow> string \<Rightarrow> message + string" where
  "token_value J key item index token =
     (if token = ''index'' then Inr (show_nat index)
      else if token = ''item'' then Inr (item_string J item)
      else case strip_prefix ''item.'' token of
        Some path \<Rightarrow>
          rbind (get_path J (\<lambda>seg _. Msg ''var {key:?}: item has no field {segment:?} (item: {item})''
                   [key, seg, jv_text J item]) item (split_on CHR ''.'' path)) (\<lambda>node.
          if jv_is_object J node \<or> jv_array J node \<noteq> None
          then Inl (Msg ''var {key:?}: {item.{path}} is not a scalar (found: {node})'' [key, path, jv_text J node])
          else Inr (item_string J node))
      | None \<Rightarrow> Inr (CHR ''{'' # token @ ''}''))"

lemma split_once_length: "split_once d s = Some (a, b) \<Longrightarrow> length b < length s"
  by (simp add: split_once_iff)

function substitute :: "'j value_ops \<Rightarrow> string \<Rightarrow> 'j \<Rightarrow> nat \<Rightarrow> string \<Rightarrow> message + string" where
  "substitute J key item index rest =
     (case split_once CHR ''{'' rest of
        None \<Rightarrow> Inr rest
      | Some (lit, after) \<Rightarrow>
          (case split_once CHR ''}'' after of
             None \<Rightarrow> Inr rest
           | Some (token, rest') \<Rightarrow>
               rbind (token_value J key item index token) (\<lambda>v.
               rbind (substitute J key item index rest') (\<lambda>s. Inr (lit @ v @ s)))))"
  by pat_completeness auto

termination substitute
  by (relation "measure (\<lambda>(J, key, item, index, rest). length rest)")
    (auto dest!: split_once_length)

declare substitute.simps [simp del]

definition substitute_vars ::
    "'j value_ops \<Rightarrow> (string \<times> string) list \<Rightarrow> 'j \<Rightarrow> nat \<Rightarrow> message + (string \<times> string) list" where
  "substitute_vars J vars item index =
     mapM (\<lambda>(key, template). rbind (substitute J key item index template) (\<lambda>v. Inr (key, v))) vars"

section \<open>Labels of item runs\<close>

definition DRAIN_MAX_UNITS :: nat where
  "DRAIN_MAX_UNITS = DEFAULT_MAX_UNITS"

definition child_label :: "string \<Rightarrow> string \<Rightarrow> nat \<Rightarrow> string" where
  "child_label tag anchor index = tag @ anchor @ '':'' @ show_nat index"

definition parse_child_label :: "string \<Rightarrow> string \<Rightarrow> (string \<times> nat) option" where
  "parse_child_label tag label =
     (case strip_prefix tag label of
        None \<Rightarrow> None
      | Some rest \<Rightarrow>
          (case rsplit_once CHR '':'' rest of
             None \<Rightarrow> None
           | Some (anchor, index) \<Rightarrow>
               if anchor = [] then None else map_option (Pair anchor) (parse_usize index)))"

definition drain_label :: "string \<Rightarrow> nat \<Rightarrow> string" where
  "drain_label = child_label ''drain:''"

definition parse_drain_label :: "string \<Rightarrow> (string \<times> nat) option" where
  "parse_drain_label = parse_child_label ''drain:''"

definition bond_label :: "string \<Rightarrow> nat \<Rightarrow> string" where
  "bond_label = child_label ''bond:''"

definition parse_bond_label :: "string \<Rightarrow> (string \<times> nat) option" where
  "parse_bond_label = parse_child_label ''bond:''"

text \<open>
  The first label of a bead that names the anchor, and the children of an anchor by index; a later
  row of the table takes the place of an earlier one with the same index.
\<close>

definition child_index :: "string \<Rightarrow> string \<Rightarrow> string list \<Rightarrow> nat option" where
  "child_index tag anchor labels =
     map_option snd (find (\<lambda>(a, _). a = anchor) (List.map_filter (parse_child_label tag) labels))"

definition child_like :: "string \<Rightarrow> string \<Rightarrow> string" where
  "child_like tag anchor = CHR 0x25 # (CHR 0x22 # tag) @ escape_like anchor @ '':'' @ [CHR 0x25]"

definition children_of :: "string \<Rightarrow> 'j serde \<Rightarrow> state \<Rightarrow> string \<Rightarrow> (nat \<rightharpoonup> BeadRow) res" where
  "children_of tag S st anchor =
     foldM (\<lambda>children b.
       case labels_of S (b_labels b) of
         Inl e \<Rightarrow> Inl (Corrupt (Msg ''bead {id} labels are not JSON: {e}'' [b_id b, e]))
       | Inr labels \<Rightarrow>
           (case child_index tag anchor labels of
              None \<Rightarrow> Inr children
            | Some index \<Rightarrow>
                rbind (get_bead S st (b_id b)) (\<lambda>found.
                case found of
                  None \<Rightarrow> Inl (Corrupt (Msg ''bead {id} vanished mid-query'' [b_id b]))
                | Some row \<Rightarrow> Inr (children(index \<mapsto> row)))))
       Map.empty
       (filter (\<lambda>b. b_run_id b \<noteq> None \<and> b_step_id b = None \<and>
                    like (Some BACKSLASH) (child_like tag anchor) (b_labels b)) (beads st))"

definition drain_children :: "'j serde \<Rightarrow> state \<Rightarrow> string \<Rightarrow> (nat \<rightharpoonup> BeadRow) res" where
  "drain_children = children_of ''drain:''"

definition bond_children :: "'j serde \<Rightarrow> state \<Rightarrow> string \<Rightarrow> (nat \<rightharpoonup> BeadRow) res" where
  "bond_children = children_of ''bond:''"

section \<open>Members and reservations\<close>

definition no_label_like :: "string \<Rightarrow> string \<Rightarrow> bool" where
  "no_label_like tag labels \<longleftrightarrow> \<not> like None (CHR 0x25 # (CHR 0x22 # tag) @ [CHR 0x25]) labels"

text \<open>\<open>ORDER BY (SELECT MIN(e.seq) \<dots>), b.id\<close>: a bead without a \<open>bead.created\<close> row sorts first.\<close>

definition created_seq :: "ledger \<Rightarrow> string \<Rightarrow> int" where
  "created_seq l i =
     (case map r_seq (filter (\<lambda>r. r_bead r = Some i \<and> r_type r = as_str BeadCreated) (event_log l)) of
        [] \<Rightarrow> i64_min | s # ss \<Rightarrow> foldl min s ss)"

definition run_members :: "'j serde \<Rightarrow> ledger \<Rightarrow> RunContext \<Rightarrow> BeadRow list res" where
  "run_members S l ctx =
     (let found = filter (\<lambda>b. b_run_id b = Some (cx_run_id ctx) \<and> b_step_id b = None \<and> b_type b = ''task'' \<and>
            b_status b \<noteq> Closed \<and> b_id b \<noteq> cx_root ctx \<and>
            no_label_like ''bond:'' (b_labels b) \<and> no_label_like ''drain:'' (b_labels b)) (beads (tables l))
      in rbind (mapM (row_to_bead S) (sort_key (\<lambda>b. created_seq l (b_id b)) (sort_key b_id found))) (\<lambda>rows.
         Inr (filter (\<lambda>row. \<not> list_ex (\<lambda>x. parse_bond_label x \<noteq> None \<or> parse_drain_label x \<noteq> None)
                (row_labels row)) rows)))"

definition reservations_held_by :: "'j serde \<Rightarrow> state \<Rightarrow> string \<Rightarrow> BeadRow list res" where
  "reservations_held_by S st anchor =
     mapM (row_to_bead S) (sort_key b_id (concat (map (\<lambda>b. map (\<lambda>_. b)
       (filter (\<lambda>m. m_bead m = b_id b \<and> m_key m = EXCLUSIVE_DRAIN_RESERVATION \<and> m_value m = anchor) (bead_meta st)))
       (beads st))))"

definition orphaned_reservations :: "state \<Rightarrow> (string \<times> string) list" where
  "orphaned_reservations st =
     map (\<lambda>m. (m_bead m, m_value m)) (sort_key m_bead
       (filter (\<lambda>m. m_key m = EXCLUSIVE_DRAIN_RESERVATION \<and>
          (case bead_at st (m_value m) of None \<Rightarrow> True | Some a \<Rightarrow> b_status a = Closed)) (bead_meta st)))"

section \<open>Run directories without a run\<close>

text \<open>
  The directory \<open>runs/\<close> as it is listed: the name of an entry, absent when it is not UTF-8, and
  whether it is a directory. Durations are in nanoseconds. The file system \<open>'f\<close> with the age and the
  removal of a directory is a parameter.
\<close>

record dir_entry =
  de_name :: "string option"
  de_path :: string
  de_is_dir :: bool

datatype read_dir = DirNotFound | DirError string | DirEntries "(string + dir_entry) list"

record OrphanRunDir =
  od_run_id :: string
  od_path :: string
  od_idle :: "int option"

definition ORPHAN_RUN_SWEEP_GRACE :: int where
  "ORPHAN_RUN_SWEEP_GRACE = 600 * 1000000000"

definition sweepable :: "OrphanRunDir \<Rightarrow> bool" where
  "sweepable d \<longleftrightarrow> (case od_idle d of None \<Rightarrow> False | Some age \<Rightarrow> ORPHAN_RUN_SWEEP_GRACE \<le> age)"

definition cooked_run_ids :: "(string \<Rightarrow> string \<Rightarrow> string option) \<Rightarrow> ledger \<Rightarrow> string list" where
  "cooked_run_ids js l =
     List.map_filter (\<lambda>r. if r_type r = as_str RunCooked then js (r_data r) ''run_id'' else None) (event_log l)"

definition run_id_of :: "dir_entry \<Rightarrow> string res" where
  "run_id_of e =
     (case de_name e of
        None \<Rightarrow> Inl (Cook (Msg ''run dir {} has a non-UTF-8 name'' [de_path e]))
      | Some n \<Rightarrow> Inr n)"

fun run_dirs :: "string \<Rightarrow> (string + dir_entry) list \<Rightarrow> (string \<times> string) list res" where
  "run_dirs root [] = Inr []"
| "run_dirs root (Inl e # es) = Inl (Cook (Msg ''cannot read {}: {e}'' [root, e]))"
| "run_dirs root (Inr d # es) =
     (if \<not> de_is_dir d then run_dirs root es
      else rbind (run_id_of d) (\<lambda>i. rbind (run_dirs root es) (\<lambda>ds. Inr ((i, de_path d) # ds))))"

definition orphaned_run_dirs ::
    "(string \<Rightarrow> string \<Rightarrow> string option) \<Rightarrow> (string \<Rightarrow> int option) \<Rightarrow> string \<Rightarrow> read_dir \<Rightarrow> ledger \<Rightarrow>
     OrphanRunDir list res" where
  "orphaned_run_dirs js dir_idle root listing l =
     (case listing of
        DirNotFound \<Rightarrow> Inr []
      | DirError e \<Rightarrow> Inl (Cook (Msg ''cannot read {}: {e}'' [root, e]))
      | DirEntries es \<Rightarrow>
          rbind (run_dirs root es) (\<lambda>dirs.
          Inr (sort_key od_run_id (map (\<lambda>(i, p). \<lparr>od_run_id = i, od_path = p, od_idle = dir_idle p\<rparr>)
                 (filter (\<lambda>(i, _). i \<notin> set (cooked_run_ids js l)) dirs)))))"

record SweepReport =
  sp_swept :: "OrphanRunDir list"
  sp_spared :: "OrphanRunDir list"

text \<open>The loop of the sweep: the age is read again right before each removal.\<close>

fun sweep_loop ::
    "('f \<Rightarrow> string \<Rightarrow> int option) \<Rightarrow> ('f \<Rightarrow> string \<Rightarrow> string + 'f) \<Rightarrow> OrphanRunDir list \<Rightarrow> SweepReport \<Rightarrow> 'f \<Rightarrow>
     SweepReport res \<times> 'f" where
  "sweep_loop age rm [] report fs = (Inr report, fs)"
| "sweep_loop age rm (d # ds) report fs =
     (let fresh = d\<lparr>od_idle := age fs (od_path d)\<rparr>
      in if \<not> sweepable fresh then sweep_loop age rm ds (report\<lparr>sp_spared := sp_spared report @ [fresh]\<rparr>) fs
         else case rm fs (od_path d) of
           Inl e \<Rightarrow> (Inl (Cook (Msg ''cannot remove {}: {e}'' [od_path d, e])), fs)
         | Inr fs' \<Rightarrow> sweep_loop age rm ds (report\<lparr>sp_swept := sp_swept report @ [fresh]\<rparr>) fs')"

definition sweep_orphan_run_dirs ::
    "(string \<Rightarrow> string \<Rightarrow> string option) \<Rightarrow> ('f \<Rightarrow> string \<Rightarrow> int option) \<Rightarrow> ('f \<Rightarrow> string \<Rightarrow> string + 'f) \<Rightarrow>
     string \<Rightarrow> read_dir \<Rightarrow> ledger \<Rightarrow> 'f \<Rightarrow> SweepReport res \<times> 'f" where
  "sweep_orphan_run_dirs js age rm root listing l fs =
     (case orphaned_run_dirs js (age fs) root listing l of
        Inl e \<Rightarrow> (Inl e, fs)
      | Inr orphans \<Rightarrow> sweep_loop age rm orphans \<lparr>sp_swept = [], sp_spared = []\<rparr> fs)"

section \<open>Labels parse back\<close>

lemma parse_child_label_iff:
  "parse_child_label tag label = Some (anchor, index) \<longleftrightarrow>
     (\<exists>ds. label = tag @ anchor @ CHR '':'' # ds \<and> anchor \<noteq> [] \<and> CHR '':'' \<notin> set ds \<and> parse_usize ds = Some index)"
proof
  assume "parse_child_label tag label = Some (anchor, index)"
  then show "\<exists>ds. label = tag @ anchor @ CHR '':'' # ds \<and> anchor \<noteq> [] \<and> CHR '':'' \<notin> set ds \<and> parse_usize ds = Some index"
    by (auto simp: parse_child_label_def strip_prefix_iff rsplit_once_iff split: option.splits if_splits)
next
  assume "\<exists>ds. label = tag @ anchor @ CHR '':'' # ds \<and> anchor \<noteq> [] \<and> CHR '':'' \<notin> set ds \<and> parse_usize ds = Some index"
  then obtain ds where ds: "label = tag @ anchor @ CHR '':'' # ds" "anchor \<noteq> []" "parse_usize ds = Some index"
    and "rsplit_once CHR '':'' (anchor @ CHR '':'' # ds) = Some (anchor, ds)"
    unfolding rsplit_once_iff by blast
  then show "parse_child_label tag label = Some (anchor, index)" by (simp add: parse_child_label_def)
qed

lemma parse_child_label_roundtrip:
  "anchor \<noteq> [] \<Longrightarrow> int index \<le> usize_max \<Longrightarrow> parse_child_label tag (child_label tag anchor index) = Some (anchor, index)"
  by (simp add: parse_child_label_iff child_label_def show_nat_no_colon)

lemma labels_of_two_kinds: "parse_drain_label x = None \<or> parse_bond_label x = None"
  by (cases "parse_drain_label x"; cases "parse_bond_label x")
    (auto simp: parse_drain_label_def parse_bond_label_def parse_child_label_iff)

text \<open>
  The labels of item runs parse back: for a non-empty anchor and an index of a \<open>usize\<close> both
  label formats give the anchor and the index again, whatever colons the anchor holds; what either
  parser accepts is the format up to the spelling of the index; and no label is of both kinds.
\<close>

theorem child_labels_roundtrip:
  "(anchor \<noteq> [] \<and> int index \<le> usize_max \<longrightarrow>
      parse_drain_label (drain_label anchor index) = Some (anchor, index) \<and>
      parse_bond_label (bond_label anchor index) = Some (anchor, index)) \<and>
   (parse_drain_label x = Some (anchor, index) \<longrightarrow>
      anchor \<noteq> [] \<and> int index \<le> usize_max \<and> (\<exists>ds. x = ''drain:'' @ anchor @ '':'' @ ds \<and> parse_usize ds = Some index)) \<and>
   (parse_drain_label x = None \<or> parse_bond_label x = None)"
  using labels_of_two_kinds
  by (auto simp: parse_drain_label_def parse_bond_label_def drain_label_def bond_label_def
      parse_child_label_roundtrip parse_child_label_iff parse_usize_bound)

theorem child_labels_witness:
  "parse_drain_label (drain_label ''gc:1'' 2) = Some (''gc:1'', 2)"
  using child_labels_roundtrip [of "''gc:1''" 2] by (simp add: usize_max_def)

section \<open>Item runs\<close>

definition bead_labels :: "'j serde \<Rightarrow> bead \<Rightarrow> string list" where
  "bead_labels S b = (case labels_of S (b_labels b) of Inl _ \<Rightarrow> [] | Inr ls \<Rightarrow> ls)"

text \<open>
  A string that JSON writes as it is; and what the code relies on: in the text of a list of labels,
  a quote opens each label, and a plain beginning of the label follows as it is.
\<close>

definition json_plain :: "string \<Rightarrow> bool" where
  "json_plain s \<longleftrightarrow> list_all (\<lambda>c. 32 \<le> byte c \<and> c \<noteq> CHR 0x22 \<and> c \<noteq> BACKSLASH) s"

definition labels_quoted :: "'j serde \<Rightarrow> bool" where
  "labels_quoted S \<longleftrightarrow> (\<forall>ls p r. p @ r \<in> set ls \<and> json_plain p \<longrightarrow>
     (\<exists>a c. labels_text S ls = a @ (CHR 0x22 # p) @ c))"

definition label_tags :: "string set" where
  "label_tags = {''drain:'', ''bond:''}"

lemma label_tag_plain: "tag \<in> label_tags \<Longrightarrow> json_plain tag \<and> plain_word (CHR 0x22 # tag)"
  by (auto simp: label_tags_def json_plain_def plain_word_def byte_def BACKSLASH_def)

lemma mentions_middle: "s = a @ p @ c \<Longrightarrow> mentions p s"
  by (auto simp: mentions_def)

text \<open>The prefilter keeps every bead that a label links to the anchor.\<close>

lemma prefilter_keeps:
  assumes law: "labels_quoted S" and tag: "tag \<in> label_tags" and plain: "json_plain anchor"
    and l: "parse_child_label tag l = Some (anchor, index)" "l \<in> set ls"
  shows "like (Some BACKSLASH) (child_like tag anchor) (labels_text S ls)"
proof -
  obtain ds where ds: "l = tag @ anchor @ CHR '':'' # ds" "parse_usize ds = Some index"
    using l(1) by (auto simp: parse_child_label_iff)
  then have "(tag @ anchor @ '':'') @ ds \<in> set ls" using l(2) by simp
  moreover have "json_plain (tag @ anchor @ '':'')"
    using plain label_tag_plain [OF tag] by (simp add: json_plain_def byte_def BACKSLASH_def)
  ultimately obtain a c where "labels_text S ls = a @ (CHR 0x22 # tag @ anchor @ '':'') @ c"
    using law unfolding labels_quoted_def by blast
  then have "labels_text S ls = a @ ((CHR 0x22 # tag) @ anchor @ '':'') @ c" by simp
  then have "mentions ((CHR 0x22 # tag) @ anchor @ '':'') (labels_text S ls)"
    by (rule mentions_middle)
  then show ?thesis
    using like_escaped_word [of "CHR 0x22 # tag" "'':''" anchor] label_tag_plain [OF tag]
    by (simp add: child_like_def plain_word_def BACKSLASH_def)
qed

definition child_of :: "'j serde \<Rightarrow> string \<Rightarrow> string \<Rightarrow> bead \<Rightarrow> nat \<Rightarrow> bool" where
  "child_of S tag anchor b i \<longleftrightarrow>
     b_run_id b \<noteq> None \<and> b_step_id b = None \<and> child_index tag anchor (bead_labels S b) = Some i"

definition add_child :: "'j serde \<Rightarrow> string \<Rightarrow> string \<Rightarrow> (nat \<rightharpoonup> BeadRow) \<Rightarrow> bead \<Rightarrow> (nat \<rightharpoonup> BeadRow)" where
  "add_child S tag anchor m b =
     (case child_index tag anchor (bead_labels S b) of None \<Rightarrow> m | Some i \<Rightarrow> m(i \<mapsto> projr (row_to_bead S b)))"

lemma add_child_cases:
  "add_child S tag anchor m b i =
     (if child_index tag anchor (bead_labels S b) = Some i then Some (projr (row_to_bead S b)) else m i)"
  by (simp add: add_child_def split: option.split)

lemma add_children_Some:
  "foldl (add_child S tag anchor) m bs i = Some row \<Longrightarrow>
     m i = Some row \<or> (\<exists>b \<in> set bs. child_index tag anchor (bead_labels S b) = Some i \<and> row = projr (row_to_bead S b))"
proof (induction bs arbitrary: m)
  case (Cons b bs)
  then have "add_child S tag anchor m b i = Some row \<or>
      (\<exists>b \<in> set bs. child_index tag anchor (bead_labels S b) = Some i \<and> row = projr (row_to_bead S b))" by simp
  then show ?case unfolding add_child_cases by (auto split: if_splits)
qed simp

lemma add_children_None:
  "foldl (add_child S tag anchor) m bs i \<noteq> None \<longleftrightarrow>
     m i \<noteq> None \<or> (\<exists>b \<in> set bs. child_index tag anchor (bead_labels S b) = Some i)"
proof (induction bs arbitrary: m)
  case (Cons b bs)
  show ?case
    using Cons.IH [of "add_child S tag anchor m b"] add_child_cases [of S tag anchor m b i] by auto
qed simp

lemma children_fold:
  assumes "distinct (map b_id (beads st))" and "labels_read S st" and "set bs \<subseteq> set (beads st)"
  shows "foldM (\<lambda>children b.
       case labels_of S (b_labels b) of
         Inl e \<Rightarrow> Inl (Corrupt (Msg ''bead {id} labels are not JSON: {e}'' [b_id b, e]))
       | Inr labels \<Rightarrow>
           (case child_index tag anchor labels of
              None \<Rightarrow> Inr children
            | Some index \<Rightarrow>
                rbind (get_bead S st (b_id b)) (\<lambda>found.
                case found of
                  None \<Rightarrow> Inl (Corrupt (Msg ''bead {id} vanished mid-query'' [b_id b]))
                | Some row \<Rightarrow> Inr (children(index \<mapsto> row))))) m bs
    = Inr (foldl (add_child S tag anchor) m bs)"
  using assms(3)
proof (induction bs arbitrary: m)
  case (Cons b bs)
  have b: "b \<in> set (beads st)" using Cons.prems by simp
  then obtain ls where ls: "labels_of S (b_labels b) = Inr ls" using assms(2) unfolding labels_read_def by blast
  have at: "bead_at st (b_id b) = Some b"
    using b assms(1) by (metis bead_at_mem bead_at_None distinct_map inj_onD not_Some_eq image_eqI)
  obtain row where row: "row_to_bead S b = Inr row" using ls by (simp add: row_to_bead_def)
  then have "get_bead S st (b_id b) = Inr (Some row)" by (simp add: get_bead_def at)
  then show ?case using Cons ls row by (simp add: add_child_def bead_labels_def split: option.split)
qed simp

lemma bead_of_row: "replays S l \<Longrightarrow> distinct (map b_id (beads (tables l)))"
  using wf_beads_table [OF replays_wf_state] by (auto simp: table_ok_def)

text \<open>
  C33. The item runs of an anchor are found exactly: in a good ledger whose library writes plain
  labels between quotes, and for an anchor JSON writes as it is, the query with its case-blind
  \<open>LIKE\<close> prefilter succeeds; it has an entry at an index exactly when some run bead without a
  step has that index in its first label for the anchor, and each entry is the row of such a bead.
\<close>

theorem children_exact:
  assumes "good S l" and "labels_roundtrip S" and "labels_quoted S" and "json_plain anchor" and "tag \<in> label_tags"
  shows "\<exists>m. children_of tag S (tables l) anchor = Inr m \<and>
    (\<forall>i. m i \<noteq> None \<longleftrightarrow> (\<exists>b \<in> set (beads (tables l)). child_of S tag anchor b i)) \<and>
    (\<forall>i row. m i = Some row \<longrightarrow> (\<exists>b \<in> set (beads (tables l)). child_of S tag anchor b i \<and> row_to_bead S b = Inr row))"
proof -
  have l: "replays S l" using assms(1) by (simp add: good_def)
  define bs where "bs = filter (\<lambda>b. b_run_id b \<noteq> None \<and> b_step_id b = None \<and>
                    like (Some BACKSLASH) (child_like tag anchor) (b_labels b)) (beads (tables l))"
  have run: "children_of tag S (tables l) anchor = Inr (foldl (add_child S tag anchor) Map.empty bs)"
    unfolding children_of_def bs_def
    by (rule children_fold [OF bead_of_row [OF l] replayed_labels [OF assms(2) l]]) auto
  have keep: "b \<in> set bs \<and> child_index tag anchor (bead_labels S b) = Some i \<longleftrightarrow>
      b \<in> set (beads (tables l)) \<and> child_of S tag anchor b i" for b i
  proof -
    have "like (Some BACKSLASH) (child_like tag anchor) (b_labels b)"
      if b: "b \<in> set (beads (tables l))" and i: "child_index tag anchor (bead_labels S b) = Some i"
    proof -
      obtain ls where ls: "b_labels b = labels_text S ls"
        using replayed_stored [OF l] b unfolding labels_stored_def by blast
      then have "bead_labels S b = ls" using assms(2) by (simp add: bead_labels_def labels_roundtrip_def)
      moreover obtain a where "find (\<lambda>(x, _). x = anchor)
          (List.map_filter (parse_child_label tag) (bead_labels S b)) = Some (a, i)"
        using i by (auto simp: child_index_def)
      then have "(anchor, i) \<in> set (List.map_filter (parse_child_label tag) (bead_labels S b))"
        by (auto simp: find_Some_iff in_set_conv_nth)
      ultimately obtain x where "x \<in> set ls" "parse_child_label tag x = Some (anchor, i)"
        by (auto simp: List.map_filter_def)
      then show ?thesis unfolding ls using prefilter_keeps [OF assms(3,5,4)] by blast
    qed
    then show ?thesis by (auto simp: bs_def child_of_def)
  qed
  have rows: "row_to_bead S b = Inr (projr (row_to_bead S b))" if "b \<in> set (beads (tables l))" for b
    using replayed_labels [OF assms(2) l] that by (auto simp: labels_read_def row_to_bead_def split: sum.splits)
  show ?thesis
  proof (intro exI conjI allI impI)
    show "children_of tag S (tables l) anchor = Inr (foldl (add_child S tag anchor) Map.empty bs)" by (rule run)
    show "foldl (add_child S tag anchor) Map.empty bs i \<noteq> None \<longleftrightarrow>
        (\<exists>b \<in> set (beads (tables l)). child_of S tag anchor b i)" for i
      unfolding add_children_None using keep by blast
    show "\<exists>b \<in> set (beads (tables l)). child_of S tag anchor b i \<and> row_to_bead S b = Inr row"
      if "foldl (add_child S tag anchor) Map.empty bs i = Some row" for i row
      using add_children_Some [OF that] keep rows by fastforce
  qed
qed

section \<open>Members\<close>

definition is_member :: "RunContext \<Rightarrow> bead \<Rightarrow> bool" where
  "is_member ctx b \<longleftrightarrow>
     b_run_id b = Some (cx_run_id ctx) \<and> b_step_id b = None \<and> b_type b = ''task'' \<and> b_status b \<noteq> Closed \<and>
     b_id b \<noteq> cx_root ctx \<and> \<not> mentions (CHR 0x22 # ''bond:'') (b_labels b) \<and>
     \<not> mentions (CHR 0x22 # ''drain:'') (b_labels b)"

lemma label_is_mentioned:
  assumes "labels_quoted S" and "tag \<in> label_tags" and "parse_child_label tag x \<noteq> None" and "x \<in> set ls"
  shows "mentions (CHR 0x22 # tag) (labels_text S ls)"
proof -
  obtain r where "x = tag @ r" using assms(3) by (auto simp: parse_child_label_iff)
  then have "tag @ r \<in> set ls" using assms(4) by simp
  then obtain a c where "labels_text S ls = a @ (CHR 0x22 # tag) @ c"
    using assms(1) label_tag_plain [OF assms(2)] unfolding labels_quoted_def by blast
  then show ?thesis by (rule mentions_middle)
qed

lemma mapM_set: "mapM f xs = Inr ys \<Longrightarrow> y \<in> set ys \<Longrightarrow> \<exists>x \<in> set xs. f x = Inr y"
  by (auto simp: mapM_eq_Inr list_all2_conv_all_nth in_set_conv_nth) (metis nth_mem)

text \<open>
  The members of a run are listed exactly: in a good ledger the query gives the rows of the
  open tasks of the run that have no step, are not its root and whose labels do not mention a bond
  or drain label, each once, in the order of their creation; the second look at the labels, which
  the code keeps as a belt and braces, never drops one.
\<close>

theorem run_members_exact:
  assumes "good S l" and "labels_roundtrip S" and "labels_quoted S"
  shows "\<exists>bs rows. run_members S l ctx = Inr rows \<and> mapM (row_to_bead S) bs = Inr rows \<and>
    set bs = {b \<in> set (beads (tables l)). is_member ctx b} \<and> distinct (map b_id bs) \<and>
    sorted (map (\<lambda>b. created_seq l (b_id b)) bs)"
proof -
  have l: "replays S l" using assms(1) by (simp add: good_def)
  define found where "found = filter (is_member ctx) (beads (tables l))"
  define bs where "bs = sort_key (\<lambda>b. created_seq l (b_id b)) (sort_key b_id found)"
  have tags: "plain_word (CHR 0x22 # ''bond:'')" "plain_word (CHR 0x22 # ''drain:'')"
    using label_tag_plain by (auto simp: label_tags_def)
  have set_bs: "set bs = {b \<in> set (beads (tables l)). is_member ctx b}" by (simp add: bs_def found_def)
  have rows: "mapM (row_to_bead S) bs = Inr (map (\<lambda>b. projr (row_to_bead S b)) bs)"
    using replayed_labels [OF assms(2) l] set_bs
    by (intro mapM_Inr) (auto simp: labels_read_def row_to_bead_def split: sum.splits)
  have keep: "\<not> list_ex (\<lambda>x. parse_bond_label x \<noteq> None \<or> parse_drain_label x \<noteq> None) (row_labels row)"
    if row: "row \<in> set (map (\<lambda>b. projr (row_to_bead S b)) bs)" for row
  proof -
    obtain b where b: "b \<in> set bs" "row_to_bead S b = Inr row" using mapM_set [OF rows row] by blast
    then obtain ls where ls: "b_labels b = labels_text S ls"
      using replayed_stored [OF l] set_bs unfolding labels_stored_def by blast
    then have "row_labels row = ls" using b(2) assms(2) by (auto simp: row_to_bead_def labels_roundtrip_def)
    moreover have "is_member ctx b" using b(1) set_bs by simp
    moreover have "mentions (CHR 0x22 # ''bond:'') (b_labels b)" if "x \<in> set ls" "parse_bond_label x \<noteq> None" for x
      using label_is_mentioned [OF assms(3) _ _ that(1)] that(2)
      by (simp add: ls parse_bond_label_def label_tags_def del: not_None_eq)
    moreover have "mentions (CHR 0x22 # ''drain:'') (b_labels b)" if "x \<in> set ls" "parse_drain_label x \<noteq> None" for x
      using label_is_mentioned [OF assms(3) _ _ that(1)] that(2)
      by (simp add: ls parse_drain_label_def label_tags_def del: not_None_eq)
    ultimately show ?thesis unfolding list_ex_iff is_member_def by blast
  qed
  have query: "found = filter (\<lambda>b. b_run_id b = Some (cx_run_id ctx) \<and> b_step_id b = None \<and> b_type b = ''task'' \<and>
            b_status b \<noteq> Closed \<and> b_id b \<noteq> cx_root ctx \<and>
            no_label_like ''bond:'' (b_labels b) \<and> no_label_like ''drain:'' (b_labels b)) (beads (tables l))"
    unfolding found_def is_member_def no_label_like_def like_word [OF tags(1)] like_word [OF tags(2)] ..
  have "run_members S l ctx = Inr (map (\<lambda>b. projr (row_to_bead S b)) bs)"
    unfolding run_members_def Let_def query [symmetric] bs_def [symmetric] rows rbind_simps
    by (rule arg_cong [where f = Inr], rule filter_True) (use keep in blast)
  moreover have "distinct (map b_id bs)"
    using bead_of_row [OF l] by (auto simp: bs_def found_def distinct_map intro: inj_on_subset)
  moreover have "sorted (map (\<lambda>b. created_seq l (b_id b)) bs)" unfolding bs_def by (rule sorted_sort_key)
  ultimately show ?thesis using rows set_bs by blast
qed

section \<open>The sweep of run directories\<close>

definition listed_dir :: "read_dir \<Rightarrow> string \<Rightarrow> string \<Rightarrow> bool" where
  "listed_dir listing i p \<longleftrightarrow>
     (\<exists>es d. listing = DirEntries es \<and> Inr d \<in> set es \<and> de_is_dir d \<and> de_name d = Some i \<and> de_path d = p)"

definition orphan_dir :: "(string \<Rightarrow> string \<Rightarrow> string option) \<Rightarrow> read_dir \<Rightarrow> ledger \<Rightarrow> string \<Rightarrow> string \<Rightarrow> bool" where
  "orphan_dir js listing l i p \<longleftrightarrow> listed_dir listing i p \<and>
     \<not> (\<exists>r \<in> set (event_log l). r_type r = as_str RunCooked \<and> js (r_data r) ''run_id'' = Some i)"

lemma run_dirs_listed:
  "run_dirs root es = Inr ds \<Longrightarrow> (i, p) \<in> set ds \<longleftrightarrow>
     (\<exists>d. Inr d \<in> set es \<and> de_is_dir d \<and> de_name d = Some i \<and> de_path d = p)"
proof (induction root es arbitrary: ds rule: run_dirs.induct)
  case (3 root d es)
  show ?case
  proof (cases "de_is_dir d")
    case True
    with 3 obtain j rest where j: "de_name d = Some j" and rest: "run_dirs root es = Inr rest"
      and ds: "ds = (j, de_path d) # rest"
      by (auto simp: run_id_of_def split: option.splits)
    then have "(i, p) \<in> set rest \<longleftrightarrow> (\<exists>d. Inr d \<in> set es \<and> de_is_dir d \<and> de_name d = Some i \<and> de_path d = p)"
      using 3 True by (simp add: run_id_of_def)
    then show ?thesis using True j ds by auto
  qed (use 3 in auto)
qed auto

lemma cooked_run_ids_iff:
  "i \<in> set (cooked_run_ids js l) \<longleftrightarrow>
     (\<exists>r \<in> set (event_log l). r_type r = as_str RunCooked \<and> js (r_data r) ''run_id'' = Some i)"
  by (force simp: cooked_run_ids_def List.map_filter_def split: if_splits)

lemma orphans_listed:
  "orphaned_run_dirs js age root listing l = Inr ods \<Longrightarrow>
     d \<in> set ods \<Longrightarrow> orphan_dir js listing l (od_run_id d) (od_path d)"
  by (auto simp: orphaned_run_dirs_def orphan_dir_def listed_dir_def run_dirs_listed cooked_run_ids_iff
      split: read_dir.splits)

text \<open>
  Every removal was due: right before it, with the directories before it gone, the age of the directory
  was read and was the grace window at least.
\<close>

definition removed_due ::
    "('f \<Rightarrow> string \<Rightarrow> int option) \<Rightarrow> ('f \<Rightarrow> string \<Rightarrow> string + 'f) \<Rightarrow> 'f \<Rightarrow> string list \<Rightarrow> bool" where
  "removed_due age rm fs ps \<longleftrightarrow>
     (\<forall>k < length ps. \<exists>fs1 a. foldM rm fs (take k ps) = Inr fs1 \<and> age fs1 (ps ! k) = Some a \<and> ORPHAN_RUN_SWEEP_GRACE \<le> a)"

text \<open>And what a report says of a directory was read at a state the sweep went through.\<close>

definition read_during ::
    "('f \<Rightarrow> string \<Rightarrow> int option) \<Rightarrow> ('f \<Rightarrow> string \<Rightarrow> string + 'f) \<Rightarrow> 'f \<Rightarrow> string list \<Rightarrow> OrphanRunDir \<Rightarrow> bool" where
  "read_during age rm fs ps d \<longleftrightarrow>
     (\<exists>k \<le> length ps. \<exists>fs1. foldM rm fs (take k ps) = Inr fs1 \<and> od_idle d = age fs1 (od_path d))"

lemma removed_due_Nil [simp]: "removed_due age rm fs []"
  by (simp add: removed_due_def)

lemma removed_due_Cons:
  "rm fs p = Inr fs1 \<Longrightarrow> age fs p = Some a \<Longrightarrow> ORPHAN_RUN_SWEEP_GRACE \<le> a \<Longrightarrow> removed_due age rm fs1 ps \<Longrightarrow>
     removed_due age rm fs (p # ps)"
  by (auto simp: removed_due_def less_Suc_eq_0_disj)

lemma read_during_now: "od_idle d = age fs (od_path d) \<Longrightarrow> read_during age rm fs ps d"
  unfolding read_during_def by (intro exI [of _ 0]) simp

lemma read_during_Cons: "rm fs p = Inr fs1 \<Longrightarrow> read_during age rm fs1 ps d \<Longrightarrow> read_during age rm fs (p # ps) d"
  unfolding read_during_def by (elim exE conjE) (intro exI [of _ "Suc k" for k], auto)

text \<open>What a run of the loop leaves, by the directories that it removed.\<close>

definition swept_through ::
    "('f \<Rightarrow> string \<Rightarrow> int option) \<Rightarrow> ('f \<Rightarrow> string \<Rightarrow> string + 'f) \<Rightarrow> OrphanRunDir list \<Rightarrow> 'f \<Rightarrow> string list \<Rightarrow>
     OrphanRunDir list \<Rightarrow> OrphanRunDir list \<Rightarrow> bool" where
  "swept_through age rm ds fs ps sw sp \<longleftrightarrow>
     ps = map od_path sw \<and> list_all sweepable sw \<and> list_ex sweepable sp = False \<and>
     (\<forall>d \<in> set (sw @ sp). read_during age rm fs ps d) \<and>
     mset (map (\<lambda>d. (od_run_id d, od_path d)) (sw @ sp)) = mset (map (\<lambda>d. (od_run_id d, od_path d)) ds)"

lemma sweep_loop_removes:
  "sweep_loop age rm ds report fs = (r, fs') \<Longrightarrow>
   \<exists>ps. foldM rm fs ps = Inr fs' \<and> set ps \<subseteq> od_path ` set ds \<and> removed_due age rm fs ps \<and>
     (\<forall>report'. r = Inr report' \<longrightarrow> (\<exists>sw sp. report' = \<lparr>sp_swept = sp_swept report @ sw, sp_spared = sp_spared report @ sp\<rparr> \<and>
        swept_through age rm ds fs ps sw sp))"
proof (induction age rm ds report fs arbitrary: r fs' rule: sweep_loop.induct)
  case (1 age rm report fs)
  then show ?case by (auto simp: swept_through_def intro!: exI [of _ "[]"] split: sum.split)
next
  case (2 age rm d ds report fs)
  define fresh where "fresh = d\<lparr>od_idle := age fs (od_path d)\<rparr>"
  have fresh_id: "od_run_id fresh = od_run_id d" "od_path fresh = od_path d" by (simp_all add: fresh_def)
  have read: "read_during age rm fs ps fresh" for ps by (rule read_during_now) (simp add: fresh_def)
  show ?case
  proof (cases "sweepable fresh")
    case False
    then have "sweep_loop age rm ds (report\<lparr>sp_spared := sp_spared report @ [fresh]\<rparr>) fs = (r, fs')"
      using 2(3) by (simp add: fresh_def)
    from 2(1) [OF fresh_def False this] obtain ps where ps: "foldM rm fs ps = Inr fs'" "set ps \<subseteq> od_path ` set ds"
        "removed_due age rm fs ps"
      and r: "\<forall>report'. r = Inr report' \<longrightarrow> (\<exists>sw sp. report' = \<lparr>sp_swept = sp_swept report @ sw,
          sp_spared = (sp_spared report @ [fresh]) @ sp\<rparr> \<and> swept_through age rm ds fs ps sw sp)"
      by auto
    have "swept_through age rm (d # ds) fs ps sw (fresh # sp)" if "swept_through age rm ds fs ps sw sp" for sw sp
      using that False read fresh_id by (auto simp: swept_through_def)
    then have "\<forall>report'. r = Inr report' \<longrightarrow> (\<exists>sw sp. report' = \<lparr>sp_swept = sp_swept report @ sw,
        sp_spared = sp_spared report @ sp\<rparr> \<and> swept_through age rm (d # ds) fs ps sw sp)"
      using r by fastforce
    then show ?thesis using ps by (intro exI [of _ ps]) auto
  next
    case True
    then obtain a where a: "age fs (od_path d) = Some a" "ORPHAN_RUN_SWEEP_GRACE \<le> a"
      by (auto simp: fresh_def sweepable_def split: option.splits)
    show ?thesis
    proof (cases "rm fs (od_path d)")
      case (Inl e)
      then have "fs' = fs \<and> (\<exists>x. r = Inl x)" using 2(3) True by (auto simp: fresh_def)
      then show ?thesis by (intro exI [of _ "[]"]) auto
    next
      case (Inr fs1)
      then have "sweep_loop age rm ds (report\<lparr>sp_swept := sp_swept report @ [fresh]\<rparr>) fs1 = (r, fs')"
        using 2(3) True by (simp add: fresh_def)
      from 2(2) [OF fresh_def _ Inr this] True obtain ps where ps: "foldM rm fs1 ps = Inr fs'" "set ps \<subseteq> od_path ` set ds"
          "removed_due age rm fs1 ps"
        and r: "\<forall>report'. r = Inr report' \<longrightarrow> (\<exists>sw sp. report' = \<lparr>sp_swept = (sp_swept report @ [fresh]) @ sw,
            sp_spared = sp_spared report @ sp\<rparr> \<and> swept_through age rm ds fs1 ps sw sp)"
        by auto
      have "swept_through age rm (d # ds) fs (od_path d # ps) (fresh # sw) sp" if "swept_through age rm ds fs1 ps sw sp" for sw sp
        using that True read fresh_id read_during_Cons [of rm fs "od_path d" fs1, OF Inr] by (auto simp: swept_through_def)
      then have "\<forall>report'. r = Inr report' \<longrightarrow> (\<exists>sw sp. report' = \<lparr>sp_swept = sp_swept report @ sw,
          sp_spared = sp_spared report @ sp\<rparr> \<and> swept_through age rm (d # ds) fs (od_path d # ps) sw sp)"
        using r by fastforce
      moreover have "foldM rm fs (od_path d # ps) = Inr fs'" using Inr ps by simp
      moreover have "removed_due age rm fs (od_path d # ps)" using removed_due_Cons [OF Inr a ps(3)] .
      ultimately show ?thesis using ps(2) by (intro exI [of _ "od_path d # ps"]) auto
    qed
  qed
qed

text \<open>
  C34. The sweep deletes nothing that may be alive: whatever it returns, the file system changed only
  by the removal of listed directories whose name no \<open>run.cooked\<close> event carries, one after the other,
  and right before each removal the age of the directory as it was then had been read and was the grace
  window at least. A report accounts for every such directory once, with the age that was read: the
  removed ones in the order of their removal, the spared ones with none or with less than the window.
\<close>

theorem sweep_is_safe:
  assumes "sweep_orphan_run_dirs js age rm root listing l fs = (r, fs')"
  shows "\<exists>ps. foldM rm fs ps = Inr fs' \<and> (\<forall>p \<in> set ps. \<exists>i. orphan_dir js listing l i p) \<and>
    (\<forall>k < length ps. \<exists>fs1 a. foldM rm fs (take k ps) = Inr fs1 \<and> age fs1 (ps ! k) = Some a \<and> ORPHAN_RUN_SWEEP_GRACE \<le> a) \<and>
    (case r of
       Inl _ \<Rightarrow> True
     | Inr report \<Rightarrow> ps = map od_path (sp_swept report) \<and>
         (\<forall>d \<in> set (sp_swept report @ sp_spared report). read_during age rm fs ps d) \<and>
         (\<forall>d \<in> set (sp_swept report). \<exists>a. od_idle d = Some a \<and> ORPHAN_RUN_SWEEP_GRACE \<le> a) \<and>
         (\<forall>d \<in> set (sp_spared report). \<forall>a. od_idle d = Some a \<longrightarrow> a < ORPHAN_RUN_SWEEP_GRACE) \<and>
         (\<exists>orphans. orphaned_run_dirs js (age fs) root listing l = Inr orphans \<and>
            mset (map (\<lambda>d. (od_run_id d, od_path d)) (sp_swept report @ sp_spared report)) =
            mset (map (\<lambda>d. (od_run_id d, od_path d)) orphans)))"
proof (cases "orphaned_run_dirs js (age fs) root listing l")
  case (Inl e)
  then show ?thesis using assms by (auto simp: sweep_orphan_run_dirs_def intro!: exI [of _ "[]"])
next
  case (Inr orphans)
  then have "sweep_loop age rm orphans \<lparr>sp_swept = [], sp_spared = []\<rparr> fs = (r, fs')"
    using assms by (simp add: sweep_orphan_run_dirs_def)
  from sweep_loop_removes [OF this] obtain ps where ps: "foldM rm fs ps = Inr fs'" "set ps \<subseteq> od_path ` set orphans"
      "removed_due age rm fs ps"
    and r: "\<forall>report'. r = Inr report' \<longrightarrow> (\<exists>sw sp. report' = \<lparr>sp_swept = sw, sp_spared = sp\<rparr> \<and>
        swept_through age rm orphans fs ps sw sp)"
    by auto
  have "\<forall>p \<in> set ps. \<exists>i. orphan_dir js listing l i p" using ps(2) orphans_listed [OF Inr] by blast
  moreover have "case r of Inl _ \<Rightarrow> True | Inr report \<Rightarrow> ps = map od_path (sp_swept report) \<and>
         (\<forall>d \<in> set (sp_swept report @ sp_spared report). read_during age rm fs ps d) \<and>
         (\<forall>d \<in> set (sp_swept report). \<exists>a. od_idle d = Some a \<and> ORPHAN_RUN_SWEEP_GRACE \<le> a) \<and>
         (\<forall>d \<in> set (sp_spared report). \<forall>a. od_idle d = Some a \<longrightarrow> a < ORPHAN_RUN_SWEEP_GRACE) \<and>
         (\<exists>orphans. orphaned_run_dirs js (age fs) root listing l = Inr orphans \<and>
            mset (map (\<lambda>d. (od_run_id d, od_path d)) (sp_swept report @ sp_spared report)) =
            mset (map (\<lambda>d. (od_run_id d, od_path d)) orphans))"
  proof (cases r)
    case (Inr report)
    with r obtain sw sp where "report = \<lparr>sp_swept = sw, sp_spared = sp\<rparr>" "swept_through age rm orphans fs ps sw sp" by auto
    then show ?thesis using Inr \<open>orphaned_run_dirs js (age fs) root listing l = Inr orphans\<close>
      by (auto simp: swept_through_def list_all_iff list_ex_iff sweepable_def split: option.splits)
  qed simp
  ultimately show ?thesis using ps(1,3) unfolding removed_due_def by blast
qed

section \<open>Substitution\<close>

text \<open>A template as its pieces: literal text without braces and tokens.\<close>

datatype piece = Lit string | Token string

fun template_of :: "piece list \<Rightarrow> string" where
  "template_of [] = []"
| "template_of (Lit s # ps) = s @ template_of ps"
| "template_of (Token t # ps) = CHR ''{'' # t @ CHR ''}'' # template_of ps"

fun piece_ok :: "piece \<Rightarrow> bool" where
  "piece_ok (Lit s) = (CHR ''{'' \<notin> set s)"
| "piece_ok (Token t) = (CHR ''}'' \<notin> set t)"

fun piece_value :: "'j value_ops \<Rightarrow> string \<Rightarrow> 'j \<Rightarrow> nat \<Rightarrow> piece \<Rightarrow> message + string" where
  "piece_value J key item index (Lit s) = Inr s"
| "piece_value J key item index (Token t) = token_value J key item index t"

lemma split_once_append: "d \<notin> set a \<Longrightarrow> split_once d (a @ s) = map_option (\<lambda>(x, y). (a @ x, y)) (split_once d s)"
  by (induction a) (auto simp: option.map_ident split_def option.map_comp comp_def)

lemma substitute_literal:
  assumes "CHR ''{'' \<notin> set s"
  shows "substitute J key item index (s @ rest) = rbind (substitute J key item index rest) (\<lambda>v. Inr (s @ v))"
proof (cases "split_once CHR ''{'' rest")
  case None
  then show ?thesis using assms by (subst (1 2) substitute.simps) (simp add: split_once_append)
next
  case (Some p)
  then show ?thesis using assms
    by (subst (1 2) substitute.simps)
      (auto simp: split_once_append rbind_def split: option.split sum.split prod.splits)
qed

text \<open>
  Substitution is a homomorphism: on a template made of brace-free text and tokens, the result
  is the concatenation of the texts and of the values of the tokens, and the first token in error
  decides the error; a template without a complete token is returned as it is.
\<close>

theorem substitute_pieces:
  assumes "list_all piece_ok ps"
  shows "substitute J key item index (template_of ps) =
    rbind (mapM (piece_value J key item index) ps) (\<lambda>vs. Inr (concat vs))"
  using assms
proof (induction ps rule: template_of.induct)
  case 1
  then show ?case by (simp add: substitute.simps)
next
  case (2 s ps)
  then show ?case by (simp add: substitute_literal rbind_def split: sum.split)
next
  case (3 t ps)
  have "split_once CHR ''{'' (template_of (Token t # ps)) = Some ([], t @ CHR ''}'' # template_of ps)" by simp
  moreover have "split_once CHR ''}'' (t @ CHR ''}'' # template_of ps) = Some (t, template_of ps)"
    using 3(2) by (simp add: split_once_iff)
  ultimately have "substitute J key item index (template_of (Token t # ps)) =
      rbind (token_value J key item index t) (\<lambda>v.
      rbind (substitute J key item index (template_of ps)) (\<lambda>s. Inr (v @ s)))"
    by (subst substitute.simps) simp
  then show ?case using 3 by (simp add: rbind_def split: sum.split)
qed

end
