(* ===== verification/DeadEnd.thy ===== *)
theory DeadEnd
  imports Fanout
begin

text \<open>
  The end of a run that can never advance (\<open>dead_end_inputs\<close>,
  \<^verbatim>\<open>crates/camp-core/src/formula/runtime.rs\<close>): the batch of events, that the ledger accepts it, what
  it leaves, and that a second call has nothing left to do.
\<close>

section \<open>The batch\<close>

definition close_input :: "'j value_ops \<Rightarrow> string \<Rightarrow> string \<Rightarrow> string \<Rightarrow> string \<Rightarrow> 'j event_input" where
  "close_input J rig i oc reason =
     \<lparr>in_kind = BeadClosed, in_rig = Some rig, in_actor = ''campd'', in_bead = Some i,
      in_data = jv_object J [(''outcome'', jv_string J oc), (''reason'', jv_string J reason)]\<rparr>"

definition finalized_data ::
    "'j value_ops \<Rightarrow> string \<Rightarrow> string \<Rightarrow> string \<Rightarrow> string \<Rightarrow> int \<Rightarrow> string list \<Rightarrow> string list \<Rightarrow> 'j" where
  "finalized_data J run_id root oc disposition cause_seq soft skipped =
     jv_object J
       [(''run_id'', jv_string J run_id), (''root'', jv_string J root), (''outcome'', jv_string J oc),
        (''final_disposition'', jv_string J disposition), (''cause_seq'', jv_int J cause_seq),
        (''soft_failed'', jv_list J (map (jv_string J) soft)), (''skipped'', jv_list J (map (jv_string J) skipped))]"

text \<open>The loop over the beads of the run: the inputs so far and the step ids skipped.\<close>

definition dead_end_step ::
    "'j serde \<Rightarrow> 'j value_ops \<Rightarrow> state \<Rightarrow> string \<Rightarrow> 'j event_input list \<times> string list \<Rightarrow> string \<times> string option \<Rightarrow>
     ('j event_input list \<times> string list) res" where
  "dead_end_step S J st reason acc bead =
     (case bead of
        (i, None) \<Rightarrow> Inr acc
      | (i, Some step_id) \<Rightarrow>
          rbind (get_bead S st i) (\<lambda>found.
          case found of
            None \<Rightarrow> Inr acc
          | Some row \<Rightarrow>
              if row_status row = Closed then Inr acc
              else Inr (fst acc @ [close_input J (row_rig row) i ''skipped'' reason],
                        if step_id \<in> set (snd acc) then snd acc else snd acc @ [step_id])))"

definition dead_end_inputs ::
    "'j serde \<Rightarrow> 'j value_ops \<Rightarrow> state \<Rightarrow> string \<Rightarrow> int \<Rightarrow> string \<Rightarrow> 'j event_input list res" where
  "dead_end_inputs S J st run_id cause_seq reason =
     (let bs = run_bead_ids st run_id in
      case find (\<lambda>(_, step). step = None) bs of
        None \<Rightarrow> Inr []
      | Some (root_id, _) \<Rightarrow>
          rbind (get_bead S st root_id) (\<lambda>found.
          case found of
            None \<Rightarrow> Inr []
          | Some root_row \<Rightarrow>
              if row_status root_row = Closed then Inr []
              else rbind (foldM (dead_end_step S J st reason) ([], []) bs) (\<lambda>(inputs, skipped).
                Inr (inputs @
                  [close_input J (row_rig root_row) root_id ''fail'' reason,
                   \<lparr>in_kind = RunFinalized, in_rig = Some (row_rig root_row), in_actor = ''campd'',
                    in_bead = Some root_id,
                    in_data = finalized_data J run_id root_id ''fail'' ''hard_fail'' cause_seq [] skipped\<rparr>]))))"

text \<open>What the code relies on of the JSON library: the decoders of the fold read these payloads.\<close>

definition end_payloads :: "'j serde \<Rightarrow> 'j value_ops \<Rightarrow> bool" where
  "end_payloads S J \<longleftrightarrow>
     (\<forall>oc reason. dec_bead_closed S (jv_object J [(''outcome'', jv_string J oc), (''reason'', jv_string J reason)]) =
        Inr \<lparr>bx_outcome = oc, bx_reason = Some reason, bx_failure_class = None, bx_final_disposition = None,
             bx_output = None, bx_work_outcome = None, bx_work_commit = None, bx_work_branch = None\<rparr>) \<and>
     (\<forall>run_id root oc disposition cause_seq soft skipped. i64_min \<le> cause_seq \<and> cause_seq \<le> i64_max \<longrightarrow>
        dec_run_finalized S (finalized_data J run_id root oc disposition cause_seq soft skipped) =
        Inr \<lparr>rf_run_id = run_id, rf_root = root, rf_outcome = oc, rf_final_disposition = disposition,
             rf_cause_seq = cause_seq, rf_soft_failed = soft, rf_skipped = skipped\<rparr>)"

section \<open>Closing a list of beads\<close>

definition ended_row :: "string \<Rightarrow> string \<Rightarrow> string \<Rightarrow> bead \<Rightarrow> bead" where
  "ended_row ts oc reason b =
     b\<lparr>b_status := Closed, b_outcome := Some oc, b_close_reason := Some reason, b_work_outcome := None,
       b_work_commit := None, b_work_branch := None, b_final_disposition := None, b_closed_ts := Some ts,
       b_updated_ts := ts\<rparr>"

lemma close_one:
  assumes pay: "end_payloads S J" and b: "bead_at st i = Some b" "b_status b \<noteq> Closed" and oc: "oc \<in> set CAMP_OUTCOMES"
  shows "\<exists>st'. fold_apply S st (event_of seq ts (close_input J rig i oc reason)) = Inr st' \<and>
    beads st' = map (\<lambda>b. if b_id b = i then ended_row ts oc reason b else b) (beads st)"
proof -
  define p :: "'a BeadClosed" where "p =
    \<lparr>bx_outcome = oc, bx_reason = Some reason, bx_failure_class = None, bx_final_disposition = None,
     bx_output = None, bx_work_outcome = None, bx_work_commit = None, bx_work_branch = None\<rparr>"
  define ev where "ev = event_of seq ts (close_input J rig i oc reason)"
  have ev: "ev_bead ev = Some i" "ev_kind ev = BeadClosed" "ev_ts ev = ts" "dec_bead_closed S (ev_data ev) = Inr p"
    using pay by (simp_all add: ev_def event_of_def close_input_def end_payloads_def p_def)
  have "failure_class_ok p" "closes_coherently p"
    using oc by (simp_all add: p_def failure_class_ok_def closes_coherently_def coherent_def)
  then obtain st' where run: "bead_closed S ev st = Inr st'"
    using bead_closed_accepts [OF ev(1,4) b(1)] b(2) by blast
  then have "fold_apply S st ev = Inr st'" by (simp add: fold_apply_def ev(2))
  moreover have "beads st' = map (\<lambda>b. if b_id b = i then ended_row ts oc reason b else b) (beads st)"
    using run
  proof (rule bead_closed_beads)
    fix j q
    assume "ev_bead ev = Some j" "dec_bead_closed S (ev_data ev) = Inr q"
      and "st' = index_reason j (bx_reason q)
           (st\<lparr>beads := map (\<lambda>b. if b_id b = j then close_row ev q b else b) (beads st)\<rparr>)"
    moreover have "close_row ev p = ended_row ts oc reason"
      by (rule ext) (simp add: close_row_def ended_row_def p_def ev(3))
    ultimately show ?thesis using ev by simp
  qed
  ultimately show ?thesis unfolding ev_def by blast
qed

lemma bead_at_ended:
  assumes "beads st' = map (\<lambda>b. if b_id b \<in> is then ended_row ts oc reason b else b) (beads st)"
  shows "bead_at st' j = map_option (\<lambda>b. if b_id b \<in> is then ended_row ts oc reason b else b) (bead_at st j)"
  using assms by (rule bead_at_map_if) (simp add: ended_row_def)

lemma close_many:
  assumes pay: "end_payloads S J" and oc: "oc \<in> set CAMP_OUTCOMES"
    and "distinct is" and "\<forall>i \<in> set is. \<exists>b. bead_at (tables l) i = Some b \<and> b_status b \<noteq> Closed"
    and "last_seq l + int (length is) \<le> i64_max"
  shows "\<exists>l' seqs. insert_all S ts (map (\<lambda>i. close_input J (rig i) i oc reason) is) l = Inr (l', seqs) \<and>
    beads (tables l') = map (\<lambda>b. if b_id b \<in> set is then ended_row ts oc reason b else b) (beads (tables l)) \<and>
    last_seq l' = last_seq l + int (length is)"
  using assms(3-5)
proof (induction "is" arbitrary: l)
  case (Cons i "is")
  obtain b where b: "bead_at (tables l) i = Some b" "b_status b \<noteq> Closed" using Cons.prems(2) by auto
  obtain st1 where st1: "fold_apply S (tables l) (event_of (last_seq l + 1) ts (close_input J (rig i) i oc reason)) = Inr st1"
    and rows: "beads st1 = map (\<lambda>b. if b_id b \<in> {i} then ended_row ts oc reason b else b) (beads (tables l))"
    using close_one [OF pay b oc, of "last_seq l + 1" ts "rig i" reason] by auto
  define l1 where "l1 = l\<lparr>event_log := event_log l @
      [row_of S (event_of (last_seq l + 1) ts (close_input J (rig i) i oc reason))],
      last_seq := last_seq l + 1, tables := st1\<rparr>"
  have one: "insert_and_fold S ts (close_input J (rig i) i oc reason) l = Inr (l1, last_seq l + 1)"
    using st1 Cons.prems(3) by (auto simp: insert_and_fold_def Let_def l1_def)
  have "\<forall>j \<in> set is. \<exists>b. bead_at (tables l1) j = Some b \<and> b_status b \<noteq> Closed"
  proof
    fix j
    assume j: "j \<in> set is"
    then obtain c where c: "bead_at (tables l) j = Some c" "b_status c \<noteq> Closed" using Cons.prems(2) by auto
    moreover have "b_id c \<noteq> i" using bead_at_Some [OF c(1)] j Cons.prems(1) by auto
    ultimately show "\<exists>b. bead_at (tables l1) j = Some b \<and> b_status b \<noteq> Closed"
      using bead_at_ended [OF rows, of j] by (simp add: l1_def)
  qed
  then obtain l' seqs where rest: "insert_all S ts (map (\<lambda>i. close_input J (rig i) i oc reason) is) l1 = Inr (l', seqs)"
    and rows': "beads (tables l') = map (\<lambda>b. if b_id b \<in> set is then ended_row ts oc reason b else b) (beads (tables l1))"
    and last: "last_seq l' = last_seq l1 + int (length is)"
    using Cons.IH [of l1] Cons.prems by (auto simp: l1_def)
  have "beads (tables l') = map (\<lambda>b. if b_id b \<in> set (i # is) then ended_row ts oc reason b else b) (beads (tables l))"
    using Cons.prems(1) by (auto simp: rows' l1_def rows ended_row_def)
  then show ?case using one rest last by (simp add: l1_def)
qed simp

section \<open>The batch ends the run\<close>

text \<open>The loop collects the closes of the open step beads, in the order of their ids.\<close>

definition open_steps :: "state \<Rightarrow> string \<Rightarrow> bead list" where
  "open_steps st run_id =
     filter (\<lambda>b. b_step_id b \<noteq> None \<and> b_status b \<noteq> Closed) (sort_key b_id (filter (\<lambda>b. b_run_id b = Some run_id) (beads st)))"

lemma dead_end_loop:
  assumes labels: "labels_read S st" and rows: "distinct (map b_id (beads st))" and "set bs \<subseteq> set (beads st)"
  shows "\<exists>skipped. foldM (dead_end_step S J st reason) acc (map (\<lambda>b. (b_id b, b_step_id b)) bs) =
    Inr (fst acc @ map (\<lambda>b. close_input J (b_rig b) (b_id b) ''skipped'' reason)
           (filter (\<lambda>b. b_step_id b \<noteq> None \<and> b_status b \<noteq> Closed) bs), skipped)"
  using assms(3)
proof (induction bs arbitrary: acc)
  case Nil
  then show ?case by (cases acc) auto
next
  case (Cons b bs)
  have b: "b \<in> set (beads st)" using Cons.prems by simp
  have at: "bead_at st (b_id b) = Some b"
    using b rows by (metis bead_at_mem bead_at_None distinct_map inj_onD not_Some_eq image_eqI)
  then obtain row where row: "get_bead S st (b_id b) = Inr (Some row)" "row_status row = b_status b" "row_rig row = b_rig b"
    using get_bead_read [OF labels, of "b_id b"] by auto
  show ?case
  proof (cases "b_step_id b \<noteq> None \<and> b_status b \<noteq> Closed")
    case True
    then obtain skipped where step: "dead_end_step S J st reason acc (b_id b, b_step_id b) =
        Inr (fst acc @ [close_input J (b_rig b) (b_id b) ''skipped'' reason], skipped)"
      using row by (auto simp: dead_end_step_def)
    show ?thesis
      using Cons.IH [of "(fst acc @ [close_input J (b_rig b) (b_id b) ''skipped'' reason], skipped)"] Cons.prems True
      by (simp add: step)
  next
    case False
    then have step: "dead_end_step S J st reason acc (b_id b, b_step_id b) = Inr acc"
      using row by (auto simp: dead_end_step_def split: option.split)
    have keep: "filter (\<lambda>b. b_step_id b \<noteq> None \<and> b_status b \<noteq> Closed) (b # bs) =
        filter (\<lambda>b. b_step_id b \<noteq> None \<and> b_status b \<noteq> Closed) bs" using False by simp
    show ?thesis unfolding keep using Cons.IH [of acc] Cons.prems by (simp add: step)
  qed
qed

lemma run_bead_ids_rows:
  "run_bead_ids st run_id = map (\<lambda>b. (b_id b, b_step_id b)) (sort_key b_id (filter (\<lambda>b. b_run_id b = Some run_id) (beads st)))"
  by (simp add: run_bead_ids_def)

text \<open>The root the code picks: the first bead of the run, by id, that has no step.\<close>

definition run_root :: "state \<Rightarrow> string \<Rightarrow> string option" where
  "run_root st run_id = map_option fst (find (\<lambda>(_, step). step = None) (run_bead_ids st run_id))"

lemma run_root_bead:
  assumes "run_root st run_id = Some root" and "distinct (map b_id (beads st))"
  shows "\<exists>b. bead_at st root = Some b \<and> b_run_id b = Some run_id \<and> b_step_id b = None"
proof -
  obtain step where "find (\<lambda>(_, step). step = None) (run_bead_ids st run_id) = Some (root, step)"
    using assms(1) by (auto simp: run_root_def)
  then have "(root, None) \<in> set (run_bead_ids st run_id)" by (auto simp: find_Some_iff in_set_conv_nth)
  then obtain b where b: "b \<in> set (beads st)" "b_id b = root" "b_run_id b = Some run_id" "b_step_id b = None"
    by (auto simp: run_bead_ids_rows)
  then have "bead_at st root = Some b"
    using assms(2) by (metis bead_at_mem bead_at_None distinct_map inj_onD not_Some_eq image_eqI)
  then show ?thesis using b by blast
qed

lemma dead_end_inputs_eq:
  assumes labels: "labels_read S st" and rows: "distinct (map b_id (beads st))"
  shows "\<exists>skipped. dead_end_inputs S J st run_id cause_seq reason = Inr
    (case run_root st run_id of
       None \<Rightarrow> []
     | Some root \<Rightarrow>
         if map_option b_status (bead_at st root) = Some Closed then []
         else map (\<lambda>b. close_input J (b_rig b) (b_id b) ''skipped'' reason) (open_steps st run_id) @
           [close_input J (b_rig (the (bead_at st root))) root ''fail'' reason,
            \<lparr>in_kind = RunFinalized, in_rig = Some (b_rig (the (bead_at st root))), in_actor = ''campd'',
             in_bead = Some root, in_data = finalized_data J run_id root ''fail'' ''hard_fail'' cause_seq [] skipped\<rparr>])"
proof (cases "find (\<lambda>(_, step). step = None) (run_bead_ids st run_id)")
  case None
  then show ?thesis by (simp add: dead_end_inputs_def run_root_def)
next
  case (Some p)
  then obtain root step where p: "find (\<lambda>(_, step). step = None) (run_bead_ids st run_id) = Some (root, step)"
    by (cases p) auto
  then have root: "run_root st run_id = Some root" by (simp add: run_root_def)
  then obtain b where b: "bead_at st root = Some b" using run_root_bead [OF _ rows] by blast
  then obtain row where row: "get_bead S st root = Inr (Some row)" "row_status row = b_status b" "row_rig row = b_rig b"
    using get_bead_read [OF labels, of root] by auto
  obtain skipped where loop: "foldM (dead_end_step S J st reason) ([], []) (run_bead_ids st run_id) =
      Inr (map (\<lambda>b. close_input J (b_rig b) (b_id b) ''skipped'' reason) (open_steps st run_id), skipped)"
    using dead_end_loop [OF labels rows, of "sort_key b_id (filter (\<lambda>b. b_run_id b = Some run_id) (beads st))" J reason "([], [])"]
    by (auto simp: run_bead_ids_rows open_steps_def)
  show ?thesis
    by (rule exI [of _ skipped]) (simp add: dead_end_inputs_def Let_def p root b row loop)
qed

lemma insert_all_append:
  "insert_all S ts (xs @ ys) l =
     rbind (insert_all S ts xs l) (\<lambda>(l1, s1). rbind (insert_all S ts ys l1) (\<lambda>(l2, s2). Inr (l2, s1 @ s2)))"
proof (induction xs arbitrary: l)
  case Nil
  then show ?case by (cases "insert_all S ts ys l") auto
next
  case (Cons x xs)
  then show ?case by (cases "insert_and_fold S ts x l") (auto simp: rbind_def split: sum.splits prod.splits)
qed

lemma finalize_accepted:
  assumes "end_payloads S J" and "bead_at st root \<noteq> None" and "root \<noteq> []" and "run_id \<noteq> []"
    and "1 \<le> cause_seq" and "cause_seq \<le> i64_max"
  shows "fold_apply S st (event_of seq ts
      \<lparr>in_kind = RunFinalized, in_rig = rig, in_actor = actor, in_bead = Some root,
       in_data = finalized_data J run_id root ''fail'' ''hard_fail'' cause_seq [] skipped\<rparr>) = Inr st"
proof -
  have "i64_min \<le> cause_seq" using assms(5) by (simp add: i64_min_def)
  then show ?thesis
    using assms by (auto simp: fold_apply_def event_of_def run_finalized_def required_bead_def known_bead_def bead_status_def
        end_payloads_def payload_def non_empty_def CAMP_OUTCOMES_def CAMP_RUN_DISPOSITIONS_def log_only_def)
qed

lemma insort_key_map: "insort_key f (g x) (map g ys) = map g (insort_key (f \<circ> g) x ys)"
  by (induction ys) auto

lemma sort_key_map: "sort_key f (map g xs) = map g (sort_key (f \<circ> g) xs)"
  by (induction xs) (simp_all add: insort_key_map o_def)

lemma run_bead_ids_map:
  assumes "beads st' = map g (beads st)"
    and "\<And>b. b_id (g b) = b_id b \<and> b_run_id (g b) = b_run_id b \<and> b_step_id (g b) = b_step_id b"
  shows "run_bead_ids st' run_id = run_bead_ids st run_id"
  using assms by (simp add: run_bead_ids_rows filter_map sort_key_map o_def)

lemma labels_read_map:
  "beads st' = map g (beads st) \<Longrightarrow> (\<And>b. b_labels (g b) = b_labels b) \<Longrightarrow> labels_read S st \<Longrightarrow> labels_read S st'"
  by (simp add: labels_read_def)

lemma distinct_ids_map:
  "beads st' = map g (beads st) \<Longrightarrow> (\<And>b. b_id (g b) = b_id b) \<Longrightarrow> distinct (map b_id (beads st)) \<Longrightarrow>
     distinct (map b_id (beads st'))"
  by (simp add: o_def)


end
