(* ===== verification/DemoRuns.thy ===== *)
theory DemoRuns
  imports DeadEnd
begin

text \<open>
  A concrete JSON library and a concrete ledger with a run, to run the model of the runtime on. The
  text of a payload is its place in a table of the payloads that occur.
\<close>

section \<open>JSON values\<close>

datatype jval = VStr string | VInt int | VBool bool | VArr "jval list" | VObj "(string \<times> jval) list"

definition jops :: "jval value_ops" where
  "jops = \<lparr>jv_get = (\<lambda>v k. case v of VObj kvs \<Rightarrow> map_of kvs k | _ \<Rightarrow> None),
     jv_str = (\<lambda>v. case v of VStr s \<Rightarrow> Some s | _ \<Rightarrow> None),
     jv_i64 = (\<lambda>v. case v of VInt i \<Rightarrow> Some i | _ \<Rightarrow> None),
     jv_array = (\<lambda>v. case v of VArr vs \<Rightarrow> Some vs | _ \<Rightarrow> None),
     jv_is_object = (\<lambda>v. case v of VObj _ \<Rightarrow> True | _ \<Rightarrow> False),
     jv_text = (\<lambda>_. []), jv_string = VStr, jv_int = VInt, jv_bool = VBool, jv_list = VArr, jv_object = VObj\<rparr>"

lemma jops_laws: "json_laws jops"
  by (simp add: json_laws_def jops_def)

definition jfield :: "jval \<Rightarrow> string \<Rightarrow> string option" where
  "jfield d k = data_str jops (Some d) k"

definition jstrings :: "jval \<Rightarrow> string \<Rightarrow> string list" where
  "jstrings d k = (case jv_get jops d k of
     Some (VArr vs) \<Rightarrow> List.map_filter (jv_str jops) vs | _ \<Rightarrow> [])"

section \<open>Labels\<close>

definition QUOTE :: char where
  "QUOTE = CHR 0x22"

definition esc :: "char \<Rightarrow> string" where
  "esc c = (if c = QUOTE \<or> c = BACKSLASH then [BACKSLASH, c] else [c])"

definition quote :: "string \<Rightarrow> string" where
  "quote l = QUOTE # concat (map esc l) @ [QUOTE]"

fun unquote :: "string option \<Rightarrow> string \<Rightarrow> string list option" where
  "unquote None [] = Some []"
| "unquote (Some a) [] = None"
| "unquote None (c # cs) = (if c = QUOTE then unquote (Some []) cs else None)"
| "unquote (Some a) (c # cs) =
     (if c = QUOTE then map_option (Cons a) (unquote None cs)
      else if c = BACKSLASH then (case cs of [] \<Rightarrow> None | d # ds \<Rightarrow> unquote (Some (a @ [d])) ds)
      else unquote (Some (a @ [c])) cs)"

lemma unquote_word: "unquote (Some a) (concat (map esc l) @ QUOTE # rest) = map_option (Cons (a @ l)) (unquote None rest)"
  by (induction l arbitrary: a) (auto simp: esc_def QUOTE_def BACKSLASH_def)

lemma unquote_all: "unquote None (concat (map quote ls)) = Some ls"
  by (induction ls) (simp_all add: quote_def unquote_word)

lemma esc_plain: "json_plain p \<Longrightarrow> concat (map esc p) = p"
  by (induction p) (auto simp: json_plain_def esc_def QUOTE_def)

section \<open>The library\<close>

definition jcreated :: "jval \<Rightarrow> string + BeadCreated" where
  "jcreated d = Inr
     \<lparr>bc_title = ''task'', bc_bead_type = ''task'', bc_description = [],
      bc_needs = jstrings d ''needs'', bc_labels = jstrings d ''labels'',
      bc_assignee = None, bc_run_id = jfield d ''run_id'', bc_step_id = jfield d ''step_id'', bc_metadata = []\<rparr>"

definition jclosed :: "jval \<Rightarrow> string + jval BeadClosed" where
  "jclosed d =
     (case jfield d ''outcome'' of
        None \<Rightarrow> Inl ''missing field outcome''
      | Some oc \<Rightarrow> Inr
          \<lparr>bx_outcome = oc, bx_reason = jfield d ''reason'', bx_failure_class = jfield d ''failure_class'',
           bx_final_disposition = jfield d ''final_disposition'', bx_output = None, bx_work_outcome = None,
           bx_work_commit = None, bx_work_branch = None\<rparr>)"

definition jfinalized :: "jval \<Rightarrow> string + RunFinalized" where
  "jfinalized d =
     (case (jfield d ''run_id'', jfield d ''root'', jfield d ''outcome'', jfield d ''final_disposition'',
            data_i64 jops d ''cause_seq'') of
        (Some r, Some root, Some oc, Some fd, Some c) \<Rightarrow> Inr
          \<lparr>rf_run_id = r, rf_root = root, rf_outcome = oc, rf_final_disposition = fd, rf_cause_seq = c,
           rf_soft_failed = jstrings d ''soft_failed'', rf_skipped = jstrings d ''skipped''\<rparr>
      | _ \<Rightarrow> Inl ''missing field'')"

definition jcreate :: "string \<Rightarrow> string \<Rightarrow> string list \<Rightarrow> string list \<Rightarrow> jval" where
  "jcreate run step needs labels =
     VObj ((''run_id'', VStr run) # (if step = [] then [] else [(''step_id'', VStr step)]) @
           [(''needs'', VArr (map VStr needs)), (''labels'', VArr (map VStr labels))])"

definition jpayloads :: "jval list" where
  "jpayloads = [jcreate ''r'' [] [] [], jcreate ''r'' ''a'' [] [], jcreate ''r'' ''b'' [''gc-9''] [],
     jcreate ''s'' [] [] [''drain:gc-9:0''], VObj [(''outcome'', VStr ''fail'')]]"

definition jplace :: "jval \<Rightarrow> nat" where
  "jplace d = length (takeWhile (\<lambda>p. p \<noteq> d) jpayloads)"

definition rdemo :: "jval serde" where
  "rdemo = no_serde
     \<lparr>dec_bead_created := jcreated, dec_bead_closed := jclosed, dec_run_finalized := jfinalized,
      labels_text := (\<lambda>ls. concat (map quote ls)),
      labels_of := (\<lambda>s. case unquote None s of None \<Rightarrow> Inl [] | Some ls \<Rightarrow> Inr ls),
      data_text := (\<lambda>d. show_nat (jplace d)),
      data_of := (\<lambda>s. if dec_value s < length jpayloads then Inr (jpayloads ! dec_value s) else Inl [])\<rparr>"

lemma rdemo_labels: "labels_roundtrip rdemo"
  by (simp add: labels_roundtrip_def rdemo_def unquote_all)

lemma rdemo_quoted: "labels_quoted rdemo"
  unfolding labels_quoted_def
proof (intro allI impI)
  fix ls p r
  assume p: "p @ r \<in> set ls \<and> json_plain p"
  then obtain xs ys where "ls = xs @ (p @ r) # ys" by (meson split_list)
  then have "labels_text rdemo ls = concat (map quote xs) @ (CHR 0x22 # p) @
      (concat (map esc r) @ [QUOTE] @ concat (map quote ys))"
    using esc_plain [of p] p by (simp add: rdemo_def quote_def QUOTE_def)
  then show "\<exists>a c. labels_text rdemo ls = a @ (CHR 0x22 # p) @ c" by blast
qed

lemma rdemo_close_fields: "close_fields rdemo jops"
  by (auto simp: close_fields_def rdemo_def no_serde_def jclosed_def jfield_def split: option.splits)

lemma rdemo_end_payloads: "end_payloads rdemo jops"
  by (auto simp: end_payloads_def rdemo_def no_serde_def jclosed_def jfinalized_def jfield_def jstrings_def
      data_str_def data_i64_def jops_def finalized_data_def List.map_filter_def comp_def map_idI)

section \<open>A run of two steps\<close>

definition jinput :: "event_type \<Rightarrow> string \<Rightarrow> jval \<Rightarrow> jval event_input" where
  "jinput k bead d = \<lparr>in_kind = k, in_rig = Some ''gc'', in_actor = ''test'', in_bead = Some bead, in_data = d\<rparr>"

text \<open>\<open>gc-8\<close> is the root, \<open>gc-9\<close> and \<open>gc-11\<close> its steps, \<open>gc-10\<close> a member, \<open>gc-12\<close> the root of an item run.\<close>

definition run_inputs :: "jval event_input list" where
  "run_inputs =
     [jinput BeadCreated ''gc-8'' (jpayloads ! 0), jinput BeadCreated ''gc-9'' (jpayloads ! 1),
      jinput BeadCreated ''gc-11'' (jpayloads ! 2), jinput BeadCreated ''gc-12'' (jpayloads ! 3)]"

definition run_ledger :: "jval event_input list \<Rightarrow> ledger" where
  "run_ledger inps = fst (append_batch rdemo ''2026'' (run_inputs @ inps) new_ledger)"

definition run_accepts :: "jval event_input list \<Rightarrow> bool" where
  "run_accepts inps = (case insert_all rdemo ''2026'' (run_inputs @ inps) new_ledger of Inl _ \<Rightarrow> False | Inr _ \<Rightarrow> True)"

definition fail_first :: "jval event_input list" where
  "fail_first = [jinput BeadClosed ''gc-9'' (jpayloads ! 4)]"

definition with_member :: "jval event_input list" where
  "with_member = [jinput BeadCreated ''gc-10'' (jpayloads ! 0)]"

definition replays_exec :: "ledger \<Rightarrow> bool" where
  "replays_exec l = (case foldM (replay_row rdemo) empty_state (event_log l) of Inl _ \<Rightarrow> False | Inr st \<Rightarrow> st = tables l)"

lemma run_ledger_good:
  assumes "run_accepts inps" and "replays_exec (run_ledger inps)"
  shows "good rdemo (run_ledger inps)"
proof -
  obtain l' seqs where l': "insert_all rdemo ''2026'' (run_inputs @ inps) new_ledger = Inr (l', seqs)"
    using assms(1) by (auto simp: run_accepts_def split: sum.splits)
  then have eq: "run_ledger inps = l'" by (simp add: run_ledger_def append_batch_def transaction_def)
  have "wf_log l'" using insert_all_wf_log [OF l'] by simp
  moreover have "stored rdemo l'"
    using insert_all_log [OF l'] by (auto simp: stored_def new_ledger_def)
  moreover have "replays rdemo l'"
    using assms(2) by (auto simp: replays_exec_def replays_def eq split: sum.splits)
  ultimately show ?thesis by (simp add: good_def eq)
qed

lemma run_ledgers:
  "run_accepts []" "run_accepts fail_first" "run_accepts with_member"
  "replays_exec (run_ledger [])" "replays_exec (run_ledger fail_first)" "replays_exec (run_ledger with_member)"
  by code_simp+

end
