(* ===== verification/RunChecks.thy ===== *)
theory RunChecks
  imports DemoRuns
begin

text \<open>The theorems about runs, applied to the ledgers of \<open>DemoRuns\<close>.\<close>

section \<open>The verdict\<close>

definition demo_step :: "string \<Rightarrow> Step" where
  "demo_step i =
     \<lparr>st_id = i, st_title = i, st_description = None, st_needs = [], st_assignee = None, st_metadata = [],
      st_timeout = None, st_check = None, st_retry = None, st_on_complete = None, st_drain = None\<rparr>"

definition demo_context :: RunContext where
  "demo_context =
     \<lparr>cx_run_id = ''r'', cx_rig = ''gc'', cx_root = ''gc-8'',
      cx_formula = \<lparr>fm_name = ''f'', fm_description = None, fm_requires = None, fm_vars = [],
        fm_steps = [demo_step ''a'', demo_step ''b''], fm_source = ''f.toml''\<rparr>,
      cx_anchors = [(''a'', ''gc-9''), (''b'', ''gc-11'')]\<rparr>"

lemma demo_run_shape:
  "deps (tables (run_ledger fail_first)) = [\<lparr>d_bead = ''gc-11'', d_needs = ''gc-9''\<rparr>]"
  "map_option b_status (bead_at (tables (run_ledger fail_first)) ''gc-9'') = Some Closed"
  "map_option b_status (bead_at (tables (run_ledger fail_first)) ''gc-11'') = Some Open"
  "anchored (tables (run_ledger fail_first)) demo_context"
  by code_simp+

lemma demo_acyclic: "acyclic (open_needs (tables (run_ledger fail_first)))"
proof -
  have "open_needs (tables (run_ledger fail_first)) = {}"
    using demo_run_shape by (auto simp: open_needs_def needs_of_def)
  then show ?thesis by (simp add: acyclic_def)
qed

theorem finalization_witness:
  "finalization rdemo jops (run_ledger fail_first) demo_context =
     Some (Inr (verdict_of (tables (run_ledger fail_first)) demo_context))"
  by (rule finalization_is_verdict [OF run_ledger_good [OF run_ledgers(2,5)] rdemo_labels rdemo_close_fields
      demo_acyclic demo_run_shape(4)])

text \<open>The close of the root after the first step failed does not make the second step ready.\<close>

definition close_root :: "jval event" where
  "close_root = event_of 6 ''2026'' (jinput BeadClosed ''gc-8'' (jpayloads ! 4))"

theorem unsatisfiable_witness:
  "is_ready (projr (fold_apply rdemo (tables (run_ledger fail_first)) close_root)) ''gc-11'' = Inr False"
proof -
  have good: "good rdemo (run_ledger fail_first)" by (rule run_ledger_good [OF run_ledgers(2,5)])
  then have wf: "wf_state (tables (run_ledger fail_first))" and rep: "replays rdemo (run_ledger fail_first)"
    by (auto simp: good_def intro: replays_wf_state)
  have facts: "unsatisfiable rdemo (tables (run_ledger fail_first)) ''gc-11'' = Inr True"
    "list_all (\<lambda>i. i \<in> ids (tables (run_ledger fail_first))) [''gc-11'', ''gc-9'']"
    "fold_apply rdemo (tables (run_ledger fail_first)) close_root =
       Inr (projr (fold_apply rdemo (tables (run_ledger fail_first)) close_root))"
    "needs_of (tables (run_ledger fail_first)) ''gc-8'' = []" "ev_bead close_root = Some ''gc-8''"
    by code_simp+
  have "honest_run rdemo (tables (run_ledger fail_first)) [close_root]"
    using facts(4,5) by (auto simp: honest_def closes_def split: sum.split)
  then show ?thesis
    using unsatisfiable_is_final [OF wf demo_acyclic replayed_labels [OF rdemo_labels rep] facts(1), of "[close_root]"]
      facts(2,3) demo_run_shape(1) by simp
qed

section \<open>Item runs and members\<close>

theorem children_witness:
  "\<exists>m. children_of ''drain:'' rdemo (tables (run_ledger [])) ''gc-9'' = Inr m \<and> m 0 \<noteq> None \<and> m 1 = None"
proof -
  obtain m where m: "children_of ''drain:'' rdemo (tables (run_ledger [])) ''gc-9'' = Inr m"
    "\<forall>i. m i \<noteq> None \<longleftrightarrow> (\<exists>b \<in> set (beads (tables (run_ledger []))). child_of rdemo ''drain:'' ''gc-9'' b i)"
    using children_exact [OF run_ledger_good [OF run_ledgers(1,4)] rdemo_labels rdemo_quoted, of "''gc-9''" "''drain:''"]
    by (auto simp: json_plain_def label_tags_def byte_def BACKSLASH_def)
  have "list_ex (\<lambda>b. child_of rdemo ''drain:'' ''gc-9'' b 0) (beads (tables (run_ledger [])))"
    "list_all (\<lambda>b. \<not> child_of rdemo ''drain:'' ''gc-9'' b 1) (beads (tables (run_ledger [])))"
    by code_simp+
  then show ?thesis using m by (auto simp: list_ex_iff list_all_iff)
qed

definition read_ids :: "BeadRow list res \<Rightarrow> string list" where
  "read_ids r = (case r of Inl _ \<Rightarrow> [] | Inr rows \<Rightarrow> map row_id rows)"

lemma mapM_ids: "mapM (row_to_bead S) bs = Inr rows \<Longrightarrow> map row_id rows = map b_id bs"
  by (induction bs arbitrary: rows) (auto dest: row_to_bead_Inr)

theorem run_members_witness:
  "\<exists>bs. set bs = {b \<in> set (beads (tables (run_ledger with_member))). is_member demo_context b} \<and>
     map b_id bs = [''gc-10'']"
proof -
  obtain bs rows where r: "run_members rdemo (run_ledger with_member) demo_context = Inr rows"
    "mapM (row_to_bead rdemo) bs = Inr rows"
    "set bs = {b \<in> set (beads (tables (run_ledger with_member))). is_member demo_context b}"
    using run_members_exact [OF run_ledger_good [OF run_ledgers(3,6)] rdemo_labels rdemo_quoted] by blast
  have "read_ids (run_members rdemo (run_ledger with_member) demo_context) = [''gc-10'']" by code_simp
  then show ?thesis using r mapM_ids [OF r(2)] by (auto simp: read_ids_def)
qed

section \<open>The end of a run\<close>

text \<open>Without the member the batch ends the run.\<close>

definition ended_ids :: "state \<Rightarrow> (string \<times> bead_status) list" where
  "ended_ids st = map (\<lambda>b. (b_id b, b_status b)) (beads st)"


text \<open>
  With a member whose id sorts before the root's, the code takes the member for the root: the batch
  closes the member as failed, finalizes the run in its name and leaves the root open.
\<close>

definition read_beads :: "jval event_input list res \<Rightarrow> (event_type \<times> string option) list" where
  "read_beads r = (case r of Inl _ \<Rightarrow> [] | Inr inps \<Rightarrow> map (\<lambda>i. (in_kind i, in_bead i)) inps)"

theorem dead_end_takes_member_for_root:
  "read_beads (dead_end_inputs rdemo jops (tables (run_ledger with_member)) ''r'' 7 ''gone'') =
     [(BeadClosed, Some ''gc-11''), (BeadClosed, Some ''gc-9''),
      (BeadClosed, Some ''gc-10''), (RunFinalized, Some ''gc-10'')]"
  by code_simp

section \<open>Substitution and the sweep\<close>

theorem substitute_witness:
  "substitute jops ''k'' (VStr ''x'') 3 ''a-{index}-{item}'' = Inr ''a-3-x''"
proof -
  have "substitute jops ''k'' (VStr ''x'') 3 (template_of [Lit ''a-'', Token ''index'', Lit ''-'', Token ''item'']) =
    rbind (mapM (piece_value jops ''k'' (VStr ''x'') 3) [Lit ''a-'', Token ''index'', Lit ''-'', Token ''item''])
      (\<lambda>vs. Inr (concat vs))"
    by (rule substitute_pieces) simp
  moreover have "show_nat 3 = ''3''" by code_simp
  ultimately show ?thesis by (simp add: token_value_def item_string_def jops_def)
qed

definition demo_listing :: read_dir where
  "demo_listing = DirEntries [Inr \<lparr>de_name = Some ''r1'', de_path = ''runs/r1'', de_is_dir = True\<rparr>,
     Inr \<lparr>de_name = Some ''r2'', de_path = ''runs/r2'', de_is_dir = True\<rparr>]"

definition demo_age :: "string list \<Rightarrow> string \<Rightarrow> int option" where
  "demo_age fs p = (if p = ''runs/r1'' then Some (700 * 1000000000) else None)"

definition demo_rm :: "string list \<Rightarrow> string \<Rightarrow> string + string list" where
  "demo_rm fs p = Inr (filter (\<lambda>q. q \<noteq> p) fs)"

theorem sweep_witness:
  "\<exists>ps. foldM demo_rm [''runs/r1'', ''runs/r2''] ps = Inr [''runs/r2''] \<and>
     (\<forall>p \<in> set ps. \<exists>i. orphan_dir (\<lambda>_ _. None) demo_listing new_ledger i p)"
proof -
  have "\<exists>report. sweep_orphan_run_dirs (\<lambda>_ _. None) demo_age demo_rm ''runs'' demo_listing new_ledger
      [''runs/r1'', ''runs/r2''] = (Inr report, [''runs/r2''])"
    by (simp add: sweep_orphan_run_dirs_def orphaned_run_dirs_def demo_listing_def run_id_of_def cooked_run_ids_def
        new_ledger_def List.map_filter_def demo_age_def demo_rm_def sweepable_def ORPHAN_RUN_SWEEP_GRACE_def)
  then obtain report where run: "sweep_orphan_run_dirs (\<lambda>_ _. None) demo_age demo_rm ''runs'' demo_listing new_ledger
      [''runs/r1'', ''runs/r2''] = (Inr report, [''runs/r2''])" ..
  show ?thesis using sweep_is_safe [OF run] by blast
qed

end
