(* ===== verification/Sources.thy ===== *)
theory Sources
  imports Json
begin

text \<open>
  The grammar of import sources (\<^verbatim>\<open>crates/camp-core/src/import/source.rs\<close>): a source string with an
  optional version becomes a repository, a subpath and a reference. The references are bare
  arguments of \<open>git\<close>, so what \<open>normalize\<close> lets through matters.
\<close>

section \<open>Substrings\<close>

text \<open>\<open>str::find\<close> with both sides: what is before the first occurrence and what is after it.\<close>

fun split_str :: "string \<Rightarrow> string \<Rightarrow> (string \<times> string) option" where
  "split_str pat [] = (if pat = [] then Some ([], []) else None)"
| "split_str pat (c # cs) =
     (case strip_prefix pat (c # cs) of
        Some r \<Rightarrow> Some ([], r)
      | None \<Rightarrow> map_option (\<lambda>(a, b). (c # a, b)) (split_str pat cs))"

definition str_contains :: "string \<Rightarrow> string \<Rightarrow> bool" where
  "str_contains pat s \<longleftrightarrow> split_str pat s \<noteq> None"

lemma split_str_Some: "split_str pat s = Some (a, b) \<Longrightarrow> s = a @ pat @ b"
  by (induction pat s arbitrary: a rule: split_str.induct)
    (auto simp: strip_prefix_iff split: option.splits if_splits)

lemma strip_prefix_None: "strip_prefix p s = None \<longleftrightarrow> (\<nexists>r. s = p @ r)"
  by (metis not_None_eq strip_prefix_iff)

lemma infix_Cons: "(\<exists>a b. c # cs = a @ pat @ b) \<longleftrightarrow> (\<exists>b. c # cs = pat @ b) \<or> (\<exists>a b. cs = a @ pat @ b)"
  by (metis append_Cons append_Nil list.sel(3) tl_append2)

lemma split_str_None: "split_str pat s = None \<longleftrightarrow> (\<nexists>a b. s = a @ pat @ b)"
proof (induction pat s rule: split_str.induct)
  case (2 pat c cs)
  show ?case
  proof (cases "strip_prefix pat (c # cs)")
    case None
    then have "\<nexists>r. c # cs = pat @ r" using strip_prefix_None [of pat "c # cs"] by blast
    then show ?thesis unfolding infix_Cons using 2 [OF None] None by simp
  next
    case (Some r)
    then have "c # cs = pat @ r" by (simp add: strip_prefix_iff)
    then have "\<exists>a b. c # cs = a @ pat @ b" unfolding infix_Cons by blast
    moreover have "split_str pat (c # cs) \<noteq> None" using Some by simp
    ultimately show ?thesis by blast
  qed
qed auto

lemma str_contains_iff: "str_contains pat s \<longleftrightarrow> (\<exists>a b. s = a @ pat @ b)"
  using split_str_None [of pat s] by (simp add: str_contains_def)

text \<open>The part before the first occurrence has none.\<close>

lemma split_str_first: "split_str pat s = Some (a, b) \<Longrightarrow> pat \<noteq> [] \<Longrightarrow> \<not> str_contains pat a"
proof (induction pat s arbitrary: a rule: split_str.induct)
  case (2 pat c cs)
  show ?case
  proof (cases "strip_prefix pat (c # cs)")
    case None
    then obtain a' where a': "split_str pat cs = Some (a', b)" "a = c # a'" using 2(2) by auto
    then have inner: "\<not> str_contains pat a'" using 2(1) [OF None] 2(3) by blast
    have "cs = a' @ pat @ b" by (rule split_str_Some [OF a'(1)])
    then have "\<nexists>r. c # a' = pat @ r" using None unfolding strip_prefix_None by (metis append.assoc append_Cons)
    then show ?thesis using inner unfolding a'(2) str_contains_iff infix_Cons by blast
  next
    case (Some r)
    then show ?thesis using 2(2,3) by (auto simp: str_contains_iff)
  qed
qed (auto simp: str_contains_iff split: if_splits)

fun trim_end :: "string \<Rightarrow> string" where
  "trim_end [] = []"
| "trim_end (c # cs) = (if is_blank (c # cs) then [] else c # trim_end cs)"

definition trim :: "string \<Rightarrow> string" where
  "trim s = trim_end (trim_start s)"

section \<open>Sources\<close>

record Source =
  so_repository :: string
  so_subpath :: "string option"
  so_reference :: "string option"
  so_is_local_path :: bool

definition is_local_source :: "string \<Rightarrow> bool" where
  "is_local_source s =
     (let s = trim s in
      starts_with ''.'' s \<or> starts_with ''/'' s \<or>
      (\<not> str_contains ''://'' s \<and> \<not> starts_with ''git@'' s \<and> \<not> str_contains ''//'' s \<and> \<not> str_contains ''::'' s))"

definition split_subdir_marker :: "string \<Rightarrow> string \<times> string option" where
  "split_subdir_marker s =
     (let (scheme, rest) = (case split_str ''://'' s of None \<Rightarrow> ([], s) | Some (a, b) \<Rightarrow> (a @ ''://'', b))
      in case split_str ''//'' rest of
           None \<Rightarrow> (s, None)
         | Some (repo, sub) \<Rightarrow> (scheme @ repo, Some sub))"

definition reconcile_refs ::
    "string option \<Rightarrow> string option \<Rightarrow> string option \<Rightarrow> string \<Rightarrow> string option res" where
  "reconcile_refs tree_ref hash_ref version_ref source =
     (case List.map_filter id [tree_ref, hash_ref, version_ref] of
        [] \<Rightarrow> Inr None
      | [r] \<Rightarrow> Inr (Some r)
      | first # rest \<Rightarrow>
          if list_all (\<lambda>r. r = first) rest then Inr (Some first)
          else Inl (Import source (Msg ''conflicting refs {present:?} - supply the ref at most once (tree-url, #ref, or version)''
            (first # rest))))"

definition validate_transport :: "string \<Rightarrow> string \<Rightarrow> unit res" where
  "validate_transport repo source =
     (if starts_with ''git@'' repo then Inr ()
      else
        let scheme = (case split_str ''://'' repo of None \<Rightarrow> repo | Some (a, _) \<Rightarrow> a) in
        ensure (scheme \<in> {''https'', ''http'', ''ssh'', ''file''})
          (Import source (Msg ''unsupported transport {other:?} in {repo:?}; allowed: https, http, ssh, git@, file''
            [scheme, repo])))"

definition not_an_option :: "string \<Rightarrow> string \<Rightarrow> string \<Rightarrow> unit res" where
  "not_an_option source what value =
     ensure (\<not> starts_with ''-'' value)
       (Import source (Msg ''{what} {value:?} begins with '-' - it would reach git as an option, not a value'' [what, value]))"

text \<open>
  A remote source: the reference after the last \<open>#\<close>, then the form of GitHub's tree URLs, or the
  repository with a subdirectory.
\<close>

definition split_remote :: "string \<Rightarrow> string \<times> string option \<times> string option \<times> string option" where
  "split_remote s =
     (let (url_part, hash_ref) = (case rsplit_once CHR ''#'' s of None \<Rightarrow> (s, None) | Some (a, b) \<Rightarrow> (a, Some b))
      in case split_str ''/tree/'' url_part of
           Some (repo, after) \<Rightarrow>
             (case split_once CHR ''/'' after of
                None \<Rightarrow> (repo, None, Some after, hash_ref)
              | Some (r, p) \<Rightarrow> (repo, Some p, Some r, hash_ref))
         | None \<Rightarrow> (case split_subdir_marker url_part of (repo, sub) \<Rightarrow> (repo, sub, None, hash_ref)))"

definition normalize :: "string \<Rightarrow> string option \<Rightarrow> Source res" where
  "normalize source version =
     (let s = trim source in
      if s = [] then Inl (Import source (Msg ''empty source'' []))
      else if is_local_source s then
        (case version of
           Some v \<Rightarrow> Inl (Import source (Msg ''a local path ({s:?}) cannot pin a version/ref - remove version {v:?}'' [s, v]))
         | None \<Rightarrow> Inr \<lparr>so_repository = s, so_subpath = None, so_reference = None, so_is_local_path = True\<rparr>)
      else
        (case split_remote s of (repo, subpath, tree_ref, hash_ref) \<Rightarrow>
           rbind (reconcile_refs tree_ref hash_ref version source) (\<lambda>reference.
           rbind (validate_transport repo source) (\<lambda>_.
           rbind (not_an_option source ''repository'' repo) (\<lambda>_.
           rbind (not_an_option source ''ref'' (case reference of None \<Rightarrow> [] | Some r \<Rightarrow> r)) (\<lambda>_.
             Inr \<lparr>so_repository = repo, so_subpath = subpath, so_reference = reference, so_is_local_path = False\<rparr>))))))"

section \<open>What is let through\<close>

lemma validate_transport_Inr:
  "validate_transport repo source = Inr u \<Longrightarrow>
     starts_with ''git@'' repo \<or>
     (\<exists>scheme \<in> {''https'', ''http'', ''ssh'', ''file''}. repo = scheme \<or> starts_with (scheme @ ''://'') repo)"
  by (auto simp: validate_transport_def Let_def starts_with_iff split: if_splits option.splits
      dest!: split_str_Some)

lemma reconcile_refs_Inr:
  "reconcile_refs t h v source = Inr r \<Longrightarrow>
     (\<forall>x. Some x \<in> {t, h, v} \<longrightarrow> r = Some x) \<and> (r \<noteq> None \<longrightarrow> r \<in> {t, h, v})"
  by (cases t; cases h; cases v) (auto simp: reconcile_refs_def List.map_filter_def split: if_splits)

text \<open>The claim about what reaches \<open>git\<close>.\<close>

definition git_safe :: "string \<Rightarrow> bool" where
  "git_safe repo \<longleftrightarrow> \<not> starts_with ''-'' repo \<and>
     (starts_with ''git@'' repo \<or>
      (\<exists>scheme \<in> {''https'', ''http'', ''ssh'', ''file''}. repo = scheme \<or> starts_with (scheme @ ''://'') repo))"

text \<open>
  What normalization passes to git is safe: a local path is kept as it was written, without a
  version; a remote repository is not an option and has an allowed scheme, and neither is its
  reference, which is the version whenever one was given.
\<close>

theorem normalize_is_safe:
  assumes "normalize source version = Inr src"
  shows "(so_is_local_path src \<longleftrightarrow> is_local_source (trim source)) \<and>
    (so_is_local_path src \<longrightarrow> version = None \<and> so_repository src = trim source \<and> so_reference src = None) \<and>
    (\<not> so_is_local_path src \<longrightarrow> git_safe (so_repository src) \<and>
       (\<forall>r. so_reference src = Some r \<longrightarrow> \<not> starts_with ''-'' r) \<and>
       (\<forall>v. version = Some v \<longrightarrow> so_reference src = Some v))"
proof (cases "is_local_source (trim source)")
  case True
  then show ?thesis using assms by (auto simp: normalize_def Let_def split: if_splits option.splits)
next
  case False
  obtain repo sub tree hash where parts: "split_remote (trim source) = (repo, sub, tree, hash)"
    by (metis surj_pair)
  obtain reference where
    r: "reconcile_refs tree hash version source = Inr reference" "validate_transport repo source = Inr ()"
      "not_an_option source ''repository'' repo = Inr ()"
      "not_an_option source ''ref'' (case reference of None \<Rightarrow> [] | Some r \<Rightarrow> r) = Inr ()"
    and src: "src = \<lparr>so_repository = repo, so_subpath = sub, so_reference = reference, so_is_local_path = False\<rparr>"
    using assms False by (auto simp: normalize_def Let_def parts split: if_splits)
  have "\<not> starts_with ''-'' repo" "\<not> starts_with ''-'' (case reference of None \<Rightarrow> [] | Some r \<Rightarrow> r)"
    using r(3,4) by (simp_all add: not_an_option_def ensure_def split: if_splits)
  then have "git_safe repo" "\<forall>r. reference = Some r \<longrightarrow> \<not> starts_with ''-'' r"
    using validate_transport_Inr [OF r(2)] unfolding git_safe_def by auto
  moreover have "\<forall>v. version = Some v \<longrightarrow> reference = Some v" using reconcile_refs_Inr [OF r(1)] by blast
  ultimately show ?thesis using False by (simp add: src)
qed

theorem normalize_witness:
  "\<exists>src. normalize ''https://host/pack.git//sub#v1'' (Some ''v1'') = Inr src \<and> git_safe (so_repository src) \<and>
     so_reference src = Some ''v1''"
proof -
  have local: "\<not> is_local_source (trim ''https://host/pack.git//sub#v1'')" by code_simp
  have "case normalize ''https://host/pack.git//sub#v1'' (Some ''v1'') of Inl _ \<Rightarrow> False | Inr _ \<Rightarrow> True" by code_simp
  then obtain src where src: "normalize ''https://host/pack.git//sub#v1'' (Some ''v1'') = Inr src"
    by (auto split: sum.splits)
  then show ?thesis using normalize_is_safe [OF src] local by auto
qed

end
