(* ===== verification/OrderConfig.thy ===== *)
theory OrderConfig
  imports Sources Cron Patrol Formulas
begin

text \<open>
  The configuration of a camp (\<^verbatim>\<open>crates/camp-core/src/config.rs\<close>) and the compilation of orders
  (\<^verbatim>\<open>crates/camp-core/src/orders/parse.rs\<close>, \<open>resolve_formula\<close> of \<^verbatim>\<open>orders/mod.rs\<close>): local
  \<open>[[order]]\<close> tables, and the order files of imported packs, which are armed only when
  \<open>[orders] enabled\<close> names them.

  TOML (the crate \<open>toml\<close>), durations (\<open>jiff\<close>) and the file system are parameters; file names are
  UTF-8. Durations are in nanoseconds.
\<close>

section \<open>Configuration\<close>

record CampSection =
  cs_name :: string

record DispatchConfig =
  dc_max_workers :: nat
  dc_max_blocked :: nat
  dc_command :: string
  dc_default_agent :: "string option"
  dc_exec_timeout :: string

record RigConfig =
  rg_name :: string
  rg_path :: string
  rg_prefix :: string
  rg_default_agent :: "string option"

record ImportDecl =
  im_source :: string
  im_subpath :: "string option"
  im_version :: "string option"
  im_trust_exec :: bool
  im_skills :: "bool option"

record AgentDefaults =
  ad_model :: "string option"
  ad_permission_mode :: "string option"
  ad_tools :: "string list option"

record OrderConfig =
  ocf_name :: string
  ocf_on :: string
  ocf_formula :: string
  ocf_rig :: "string option"
  ocf_catch_up_window :: "string option"

record CampConfig =
  cf_camp :: CampSection
  cf_rigs :: "RigConfig list"
  cf_orders :: "OrderConfig list"
  cf_imports :: "(string \<times> ImportDecl) list"
  cf_orders_enabled :: "string list"
  cf_agent_defaults :: AgentDefaults
  cf_dispatch :: DispatchConfig
  cf_patrol :: PatrolSection
  cf_root :: "string option"

definition dispatch_default :: DispatchConfig where
  "dispatch_default =
     \<lparr>dc_max_workers = 10, dc_max_blocked = 10, dc_command = ''claude'', dc_default_agent = None,
      dc_exec_timeout = ''60s''\<rparr>"

definition patrol_default :: PatrolSection where
  "patrol_default = \<lparr>se_stall_after = ''10m'', se_restart_budget = 2, se_release_grace = ''30s''\<rparr>"

definition agent_defaults_is_default :: "AgentDefaults \<Rightarrow> bool" where
  "agent_defaults_is_default d \<longleftrightarrow> d = \<lparr>ad_model = None, ad_permission_mode = None, ad_tools = None\<rparr>"

text \<open>\<open>Duration::try_from\<close> of a positive signed duration cannot fail.\<close>

definition exec_timeout :: "(string \<Rightarrow> string + int) \<Rightarrow> DispatchConfig \<Rightarrow> int res" where
  "exec_timeout jiff d =
     (case parse_duration jiff (dc_exec_timeout d) of
        Inl (Config (Msg tm args)) \<Rightarrow> Inl (Config (Msg (''[dispatch] exec_timeout: config: '' @ tm) args))
      | Inl e \<Rightarrow> Inl e
      | Inr t \<Rightarrow> Inr t)"

definition check_config :: "(string \<Rightarrow> string + int) \<Rightarrow> CampConfig \<Rightarrow> CampConfig res" where
  "check_config jiff cfg =
     rbind (ensure (dc_max_workers (cf_dispatch cfg) \<noteq> 0)
       (Config (Msg ''[dispatch] max_workers must be at least 1 (0 would disable dispatch entirely)'' []))) (\<lambda>_.
     rbind (ensure (dc_max_blocked (cf_dispatch cfg) \<noteq> 0)
       (Config (Msg ''[dispatch] max_blocked must be at least 1 (0 would saturate on the first blocked worker)'' []))) (\<lambda>_.
     rbind (from_section jiff (cf_patrol cfg)) (\<lambda>_.
     rbind (exec_timeout jiff (cf_dispatch cfg)) (\<lambda>_. Inr cfg))))"

text \<open>
  \<open>has_packs\<close> reads the document and says whether it has the key \<open>packs\<close>; \<open>decode\<close> is the derived
  decoder with its defaults.
\<close>

definition parse_config ::
    "(string \<Rightarrow> string + int) \<Rightarrow> (string \<Rightarrow> string + bool) \<Rightarrow> (string \<Rightarrow> string + CampConfig) \<Rightarrow> string \<Rightarrow> CampConfig res" where
  "parse_config jiff has_packs decode text =
     (case has_packs text of
        Inl e \<Rightarrow> Inl (Config (Msg ''{}'' [e]))
      | Inr True \<Rightarrow> Inl (Config (Msg ''packs = [...] was removed. Rewrite each pack as an import'' []))
      | Inr False \<Rightarrow>
          (case decode text of
             Inl e \<Rightarrow> Inl (Config (Msg ''{}'' [e]))
           | Inr cfg \<Rightarrow> check_config jiff cfg))"

definition rig :: "CampConfig \<Rightarrow> string \<Rightarrow> RigConfig res" where
  "rig cfg name = (case find (\<lambda>r. rg_name r = name) (cf_rigs cfg) of None \<Rightarrow> Inl (UnknownRig name) | Some r \<Rightarrow> Inr r)"

section \<open>Layers\<close>

text \<open>\<open>Path::join\<close>: an absolute path takes the place of the whole.\<close>

definition path_join :: "string \<Rightarrow> string \<Rightarrow> string" where
  "path_join a b =
     (if starts_with ''/'' b then b
      else if a = [] \<or> last a = CHR ''/'' then a @ b else a @ ''/'' @ b)"

text \<open>A directory listing gives the names of the entries.\<close>

record files =
  fl_is_dir :: "string \<Rightarrow> bool"
  fl_is_file :: "string \<Rightarrow> bool"
  fl_list :: "string \<Rightarrow> string + (string + string) list"
  fl_read :: "string \<Rightarrow> string + string"

definition TRANSITIVE_DIR :: string where
  "TRANSITIVE_DIR = ''.transitive''"

definition is_local :: "ImportDecl \<Rightarrow> bool" where
  "is_local decl = is_local_source (im_source decl)"

definition layer_dir :: "ImportDecl \<Rightarrow> string \<Rightarrow> string \<Rightarrow> string" where
  "layer_dir decl root binding =
     (if is_local decl
      then let base = path_join root (im_source decl)
           in case im_subpath decl of Some s \<Rightarrow> path_join base s | None \<Rightarrow> base
      else path_join (path_join root ''imports'') binding)"

definition import_layers :: "CampConfig \<Rightarrow> (string \<times> string) list" where
  "import_layers cfg =
     (case cf_root cfg of
        None \<Rightarrow> []
      | Some root \<Rightarrow> map (\<lambda>(binding, decl). (binding, layer_dir decl root binding)) (cf_imports cfg))"

definition transitive_layer_dir :: "string \<Rightarrow> string \<Rightarrow> string" where
  "transitive_layer_dir root binding = path_join (path_join (path_join root ''imports'') TRANSITIVE_DIR) binding"

fun list_entries :: "(string \<Rightarrow> core_error) \<Rightarrow> (string + string) list \<Rightarrow> string list res" where
  "list_entries err [] = Inr []"
| "list_entries err (Inl e # es) = Inl (err e)"
| "list_entries err (Inr n # es) = rbind (list_entries err es) (\<lambda>ns. Inr (n # ns))"

definition transitive_layers :: "files \<Rightarrow> CampConfig \<Rightarrow> (string \<times> string) list res" where
  "transitive_layers F cfg =
     (case cf_root cfg of
        None \<Rightarrow> Inr []
      | Some root \<Rightarrow>
          let dir = path_join (path_join root ''imports'') TRANSITIVE_DIR;
              err = (\<lambda>e. Config (Msg ''cannot read {}: {e}'' [dir, e])) in
          if \<not> fl_is_dir F dir then Inr []
          else case fl_list F dir of
            Inl e \<Rightarrow> Inl (err e)
          | Inr entries \<Rightarrow>
              rbind (list_entries err entries) (\<lambda>names.
              Inr (sort_key fst (map (\<lambda>n. (n, path_join dir n)) (filter (\<lambda>n. fl_is_dir F (path_join dir n)) names)))))"

section \<open>Formulas by name\<close>

definition formula_file :: "files \<Rightarrow> string \<Rightarrow> string \<Rightarrow> string option" where
  "formula_file F name dir =
     (let primary = path_join dir (name @ ''.toml''); gc = path_join dir (name @ ''.formula.toml'')
      in if fl_is_file F primary then Some primary else if fl_is_file F gc then Some gc else None)"

definition collect_formulas :: "files \<Rightarrow> string \<Rightarrow> (string \<times> string) list \<Rightarrow> (string \<times> string) list" where
  "collect_formulas F name layers =
     List.map_filter (\<lambda>(binding, dir). map_option (Pair binding) (formula_file F name (path_join dir ''formulas''))) layers"

definition one_of :: "string \<Rightarrow> (string \<times> string) list \<Rightarrow> string \<Rightarrow> string option res" where
  "one_of name tier what =
     (case tier of
        [] \<Rightarrow> Inr None
      | [(_, p)] \<Rightarrow> Inr (Some p)
      | _ \<Rightarrow> Inl (Order name (Msg ''formula {name:?} exists in multiple {what}: {providers:?} - disambiguate or remove one''
               (name # what # map fst tier))))"

definition resolve_formula :: "files \<Rightarrow> CampConfig \<Rightarrow> string \<Rightarrow> string res" where
  "resolve_formula F cfg name =
     (case cf_root cfg of
        None \<Rightarrow> Inl (Config (Msg ''config has no root directory (loaded via parse, not load) - cannot resolve formula paths'' []))
      | Some root \<Rightarrow>
          rbind (transitive_layers F cfg) (\<lambda>tl.
          rbind (one_of name (collect_formulas F name tl) ''transitive layers'') (\<lambda>transitive.
          rbind (one_of name (collect_formulas F name (import_layers cfg)) ''imports'') (\<lambda>direct.
          case formula_file F name (path_join root ''formulas'') of
            Some local \<Rightarrow> Inr local
          | None \<Rightarrow>
              (case direct of
                 Some p \<Rightarrow> Inr p
               | None \<Rightarrow>
                   (case transitive of
                      Some p \<Rightarrow> Inr p
                    | None \<Rightarrow> Inl (Order name (Msg ''formula {name:?} not found in any import or <camp>/formulas/'' [name]))))))))"

section \<open>Triggers and windows\<close>

datatype Trigger = CronTrigger (tg_expr: cron_expr) | EventTrigger (tg_event_type: string) (tg_label: "string option")

record Order =
  or_name :: string
  or_trigger :: Trigger
  or_formula :: string
  or_rig :: "string option"
  or_catch_up_window :: int

definition DEFAULT_CATCH_UP_WINDOW :: int where
  "DEFAULT_CATCH_UP_WINDOW = 2 * 60 * 60 * 1000000000"

definition MAX_CATCH_UP_WINDOW :: int where
  "MAX_CATCH_UP_WINDOW = 7 * 24 * 60 * 60 * 1000000000"

definition name_start :: "char \<Rightarrow> bool" where
  "name_start c \<longleftrightarrow> is_lower c \<or> is_digit c"

definition valid_name :: "string \<Rightarrow> bool" where
  "valid_name name =
     (case name of
        [] \<Rightarrow> False
      | c # cs \<Rightarrow> name_start c \<and> list_all (\<lambda>c. name_start c \<or> c = CHR ''-'' \<or> c = CHR ''_'') cs)"

definition label_filter :: "string \<Rightarrow> string \<Rightarrow> message + string" where
  "label_filter rest bracket =
     (case strip_suffix '']'' bracket of
        None \<Rightarrow> Inl (Msg ''unterminated filter in {rest:?}'' [rest])
      | Some inner \<Rightarrow>
          (case strip_prefix ''label='' inner of
             None \<Rightarrow> Inl (Msg ''only [label=...] filters are supported, got {inner:?}'' [inner])
           | Some value \<Rightarrow>
               if value = [] then Inl (Msg ''label filter value must not be empty'' []) else Inr value))"

definition parse_trigger :: "string \<Rightarrow> message + Trigger" where
  "parse_trigger on =
     (case strip_prefix ''cron:'' on of
        Some expr \<Rightarrow> rbind (parse_cron expr) (\<lambda>e. Inr (CronTrigger e))
      | None \<Rightarrow>
     (case strip_prefix ''event:'' on of
        Some rest \<Rightarrow>
          rbind (case split_once CHR ''['' rest of
                   None \<Rightarrow> Inr (rest, None)
                 | Some (ty, bracket) \<Rightarrow> rbind (label_filter rest bracket) (\<lambda>v. Inr (ty, Some v))) (\<lambda>(event_type, label).
          rbind (case parse_event_type event_type of
                   Inl _ \<Rightarrow> Inl (Msg ''unknown event type {event_type:?}'' [event_type])
                 | Inr _ \<Rightarrow> Inr ()) (\<lambda>_.
          rbind (ensure (label = None \<or> starts_with ''bead.'' event_type)
            (Msg ''label filters match beads; {event_type:?} is not a bead.* event'' [event_type])) (\<lambda>_.
          Inr (EventTrigger event_type label))))
      | None \<Rightarrow> Inl (Msg ''expected cron:<expr> or event:<type>[label=<value>], got {on:?}'' [on])))"

text \<open>\<open>Duration::try_from\<close> of a duration that is not negative cannot fail.\<close>

definition parse_window :: "(string \<Rightarrow> string + int) \<Rightarrow> string \<Rightarrow> message + int" where
  "parse_window jiff text =
     (case jiff text of
        Inl e \<Rightarrow> Inl (Msg ''{text:?} is not a duration ({e}); use forms like 2h, 30m, or 0 to disable'' [text, e])
      | Inr signed \<Rightarrow>
          if signed < 0 then Inl (Msg ''{text:?} is negative'' [text])
          else if MAX_CATCH_UP_WINDOW < signed
          then Inl (Msg ''{text:?} exceeds the {}d maximum catch-up window''
            [text, show_int (MAX_CATCH_UP_WINDOW div 1000000000 div 86400)])
          else Inr signed)"

section \<open>Local orders\<close>

definition field_err :: "string \<Rightarrow> string \<Rightarrow> message \<Rightarrow> core_error" where
  "field_err order field reason =
     (case reason of Msg tm args \<Rightarrow> Order order (Msg (''field {field:?}: '' @ tm) (field # args)))"

definition on_field :: "string \<Rightarrow> string \<Rightarrow> message + 'a \<Rightarrow> 'a res" where
  "on_field order field r = (case r of Inl m \<Rightarrow> Inl (field_err order field m) | Inr x \<Rightarrow> Inr x)"

lemma on_field_Inr [simp]: "on_field order field r = Inr x \<longleftrightarrow> r = Inr x"
  by (simp add: on_field_def split: sum.split)

definition compile_order :: "(string \<Rightarrow> string + int) \<Rightarrow> CampConfig \<Rightarrow> string list \<Rightarrow> OrderConfig \<Rightarrow> Order res" where
  "compile_order jiff cfg seen raw =
     rbind (ensure (valid_name (ocf_name raw))
       (Order (ocf_name raw) (Msg ''field name: must match ^[a-z0-9][a-z0-9_-]*$ (it becomes part of event actors)'' []))) (\<lambda>_.
     rbind (ensure (ocf_name raw \<notin> set seen) (Order (ocf_name raw) (Msg ''duplicate order name'' []))) (\<lambda>_.
     rbind (ensure (ocf_formula raw \<noteq> []) (field_err (ocf_name raw) ''formula'' (Msg ''must not be empty'' []))) (\<lambda>_.
     rbind (case ocf_rig raw of
              None \<Rightarrow> Inr ()
            | Some r \<Rightarrow> (case rig cfg r of
                Inl _ \<Rightarrow> Inl (field_err (ocf_name raw) ''rig'' (Msg ''unknown rig {rig:?}'' [r])) | Inr _ \<Rightarrow> Inr ())) (\<lambda>_.
     rbind (on_field (ocf_name raw) ''on'' (parse_trigger (ocf_on raw))) (\<lambda>trigger.
     rbind (case ocf_catch_up_window raw of
              None \<Rightarrow> Inr DEFAULT_CATCH_UP_WINDOW
            | Some text \<Rightarrow>
                if text = ''0'' then Inr 0
                else on_field (ocf_name raw) ''catch_up_window'' (parse_window jiff text)) (\<lambda>window.
     Inr \<lparr>or_name = ocf_name raw, or_trigger = trigger, or_formula = ocf_formula raw, or_rig = ocf_rig raw,
          or_catch_up_window = window\<rparr>))))))"

fun compile_all :: "(string \<Rightarrow> string + int) \<Rightarrow> CampConfig \<Rightarrow> string list \<Rightarrow> OrderConfig list \<Rightarrow> Order list res" where
  "compile_all jiff cfg seen [] = Inr []"
| "compile_all jiff cfg seen (raw # raws) =
     rbind (compile_order jiff cfg seen raw) (\<lambda>order.
     rbind (compile_all jiff cfg (ocf_name raw # seen) raws) (\<lambda>orders. Inr (order # orders)))"

definition compile_orders :: "(string \<Rightarrow> string + int) \<Rightarrow> CampConfig \<Rightarrow> Order list res" where
  "compile_orders jiff cfg = compile_all jiff cfg [] (cf_orders cfg)"

section \<open>Imported orders\<close>

record DisabledOrder =
  do_name :: string
  do_source :: string
  do_formula :: string
  do_unsupported :: "message option"

record OrderInventory =
  oi_active :: "Order list"
  oi_disabled :: "DisabledOrder list"

record GcOrderRaw =
  go_formula :: string
  go_trigger :: string
  go_schedule :: "string option"
  go_on :: "string option"

definition parse_gc_order :: "string \<Rightarrow> string \<Rightarrow> GcOrderRaw \<Rightarrow> Order res" where
  "parse_gc_order binding stem raw =
     (let name = binding @ ''.'' @ stem in
      rbind (if go_trigger raw = ''cron'' then
               (case go_schedule raw of
                  None \<Rightarrow> Inl (Order name (Msg ''field schedule: cron trigger requires a schedule'' []))
                | Some s \<Rightarrow> Inr (''cron:'' @ s))
             else if go_trigger raw = ''event'' then
               (case go_on raw of
                  None \<Rightarrow> Inl (Order name (Msg ''field on: event trigger requires an on spec'' []))
                | Some s \<Rightarrow> Inr (''event:'' @ s))
             else Inl (Order name (Msg ''field trigger: unknown trigger {other:?} (cron|event)'' [go_trigger raw]))) (\<lambda>on_str.
      rbind (on_field name ''on'' (parse_trigger on_str)) (\<lambda>trigger.
      Inr \<lparr>or_name = name, or_trigger = trigger, or_formula = go_formula raw, or_rig = None,
           or_catch_up_window = DEFAULT_CATCH_UP_WINDOW\<rparr>)))"

record OrderCompileFailure =
  ox_reason :: message
  ox_formula :: "string option"

text \<open>The bare reason of an order error; any other error is shown with its own prefix.\<close>

definition order_error_reason :: "core_error \<Rightarrow> message" where
  "order_error_reason e =
     (case e of
        Order _ reason \<Rightarrow> reason
      | Config (Msg tm args) \<Rightarrow> Msg (''config: '' @ tm) args
      | _ \<Rightarrow> Msg ''{other}'' [])"

definition formula_error :: "string \<Rightarrow> core_error \<Rightarrow> message" where
  "formula_error formula e =
     (case e of
        Order order (Msg tm args) \<Rightarrow> Msg (''formula {:?}: order {order:?}: '' @ tm) (formula # order # args)
      | Config (Msg tm args) \<Rightarrow> Msg (''formula {:?}: config: '' @ tm) (formula # args)
      | _ \<Rightarrow> Msg ''formula {:?}: {e}'' [formula])"

definition compile_imported_order ::
    "files \<Rightarrow> (string \<Rightarrow> string + GcOrderRaw) \<Rightarrow> CampConfig \<Rightarrow> string \<Rightarrow> string \<Rightarrow> string \<Rightarrow> OrderCompileFailure + Order" where
  "compile_imported_order F gc_order cfg binding stem path =
     (case fl_read F path of
        Inl e \<Rightarrow> Inl \<lparr>ox_reason = Msg ''cannot read {}: {e}'' [path, e], ox_formula = None\<rparr>
      | Inr text \<Rightarrow>
     (case gc_order text of
        Inl e \<Rightarrow> Inl \<lparr>ox_reason = Msg ''invalid TOML: {e}'' [e], ox_formula = None\<rparr>
      | Inr raw \<Rightarrow>
     (case parse_gc_order binding stem raw of
        Inl e \<Rightarrow> Inl \<lparr>ox_reason = order_error_reason e, ox_formula = Some (go_formula raw)\<rparr>
      | Inr order \<Rightarrow>
     (case resolve_formula F cfg (or_formula order) of
        Inl e \<Rightarrow> Inl \<lparr>ox_reason = formula_error (or_formula order) e, ox_formula = Some (or_formula order)\<rparr>
      | Inr _ \<Rightarrow> Inr order))))"

text \<open>\<open>Path::file_stem\<close> and \<open>Path::extension\<close> of a file name: a leading dot starts no extension.\<close>

definition stem_and_extension :: "string \<Rightarrow> string \<times> string option" where
  "stem_and_extension name =
     (case rsplit_once CHR ''.'' name of
        None \<Rightarrow> (name, None)
      | Some (a, b) \<Rightarrow> if a = [] then (name, None) else (a, Some b))"

definition import_file ::
    "files \<Rightarrow> (string \<Rightarrow> string + GcOrderRaw) \<Rightarrow> CampConfig \<Rightarrow> string \<Rightarrow> string \<Rightarrow> OrderInventory \<Rightarrow> string \<Rightarrow> OrderInventory res" where
  "import_file F gc_order cfg binding orders_dir oi file =
     (let stem = fst (stem_and_extension file); name = binding @ ''.'' @ stem;
          enabled = name \<in> set (cf_orders_enabled cfg)
      in case compile_imported_order F gc_order cfg binding stem (path_join orders_dir file) of
           Inr order \<Rightarrow>
             Inr (if enabled then oi\<lparr>oi_active := oi_active oi @ [order]\<rparr>
                  else oi\<lparr>oi_disabled := oi_disabled oi @
                    [\<lparr>do_name = name, do_source = binding, do_formula = or_formula order, do_unsupported = None\<rparr>]\<rparr>)
         | Inl failure \<Rightarrow>
             if enabled
             then Inl (Order name (case ox_reason failure of Msg tm args \<Rightarrow>
               Msg (''[orders] enabled names it, but camp cannot run it: '' @ tm) args))
             else Inr (oi\<lparr>oi_disabled := oi_disabled oi @
                    [\<lparr>do_name = name, do_source = binding,
                      do_formula = (case ox_formula failure of None \<Rightarrow> [] | Some f \<Rightarrow> f),
                      do_unsupported = Some (ox_reason failure)\<rparr>]\<rparr>))"

definition order_files :: "files \<Rightarrow> string \<Rightarrow> string list \<Rightarrow> string list" where
  "order_files F orders_dir names =
     sort (filter (\<lambda>n. fl_is_file F (path_join orders_dir n) \<and> snd (stem_and_extension n) = Some ''toml'') names)"

definition import_layer ::
    "files \<Rightarrow> (string \<Rightarrow> string + GcOrderRaw) \<Rightarrow> CampConfig \<Rightarrow> OrderInventory \<Rightarrow> string \<times> string \<Rightarrow> OrderInventory res" where
  "import_layer F gc_order cfg oi layer =
     (let binding = fst layer; orders_dir = path_join (snd layer) ''orders'';
          err = (\<lambda>e. Order binding (Msg ''cannot read {}: {e}'' [orders_dir, e])) in
      if \<not> fl_is_dir F orders_dir then Inr oi
      else case fl_list F orders_dir of
        Inl e \<Rightarrow> Inl (err e)
      | Inr entries \<Rightarrow>
          rbind (list_entries err entries) (\<lambda>names.
          foldM (import_file F gc_order cfg binding orders_dir) oi (order_files F orders_dir names)))"

definition compile_all_orders ::
    "(string \<Rightarrow> string + int) \<Rightarrow> files \<Rightarrow> (string \<Rightarrow> string + GcOrderRaw) \<Rightarrow> CampConfig \<Rightarrow> OrderInventory res" where
  "compile_all_orders jiff F gc_order cfg =
     rbind (compile_orders jiff cfg) (\<lambda>active.
     case cf_root cfg of
       None \<Rightarrow> Inr \<lparr>oi_active = active, oi_disabled = []\<rparr>
     | Some _ \<Rightarrow>
         foldM (import_layer F gc_order cfg) \<lparr>oi_active = active, oi_disabled = []\<rparr> (sort_key fst (import_layers cfg)))"

section \<open>What a compiled order is\<close>

definition order_ok :: "CampConfig \<Rightarrow> Order \<Rightarrow> bool" where
  "order_ok cfg r \<longleftrightarrow>
     valid_name (or_name r) \<and> or_formula r \<noteq> [] \<and>
     (case or_rig r of None \<Rightarrow> True | Some n \<Rightarrow> n \<in> rg_name ` set (cf_rigs cfg)) \<and>
     0 \<le> or_catch_up_window r \<and> or_catch_up_window r \<le> MAX_CATCH_UP_WINDOW \<and>
     (case or_trigger r of
        CronTrigger _ \<Rightarrow> True
      | EventTrigger ty label \<Rightarrow> ty \<in> range as_str \<and> (label \<noteq> None \<longrightarrow> starts_with ''bead.'' ty \<and> label \<noteq> Some []))"

lemma rig_Inr: "rig cfg n = Inr r \<Longrightarrow> n \<in> rg_name ` set (cf_rigs cfg)"
  by (auto simp: rig_def find_Some_iff image_iff split: option.splits)

lemma parse_trigger_ok:
  assumes "parse_trigger on = Inr t"
  shows "case t of CronTrigger _ \<Rightarrow> True
    | EventTrigger ty label \<Rightarrow> ty \<in> range as_str \<and> (label \<noteq> None \<longrightarrow> starts_with ''bead.'' ty \<and> label \<noteq> Some [])"
proof (cases "strip_prefix ''cron:'' on")
  case None
  then obtain rest where rest: "strip_prefix ''event:'' on = Some rest"
    using assms by (auto simp: parse_trigger_def split: option.splits)
  then obtain ty label where split: "(case split_once CHR ''['' rest of
        None \<Rightarrow> Inr (rest, None)
      | Some (ty, bracket) \<Rightarrow> rbind (label_filter rest bracket) (\<lambda>v. Inr (ty, Some v))) = Inr (ty, label)"
    and ty: "(case parse_event_type ty of Inl _ \<Rightarrow> Inl (Msg ''unknown event type {event_type:?}'' [ty]) | Inr _ \<Rightarrow> Inr ()) = Inr ()"
    and bead: "label = None \<or> starts_with ''bead.'' ty" and t: "t = EventTrigger ty label"
    using None assms by (auto simp: parse_trigger_def)
  have "ty \<in> range as_str" using ty parse_event_type_exact by (auto split: sum.splits)
  moreover have "label \<noteq> Some []"
    using split by (auto simp: label_filter_def split: option.splits prod.splits if_splits)
  ultimately show ?thesis using bead by (auto simp: t)
next
  case (Some e)
  then show ?thesis using assms by (auto simp: parse_trigger_def)
qed

lemma parse_window_bounds: "parse_window jiff text = Inr w \<Longrightarrow> 0 \<le> w \<and> w \<le> MAX_CATCH_UP_WINDOW"
  by (auto simp: parse_window_def split: sum.splits if_splits)

lemma compile_order_ok:
  assumes "compile_order jiff cfg seen raw = Inr r"
  shows "order_ok cfg r \<and> or_name r = ocf_name raw \<and> or_name r \<notin> set seen"
proof -
  from assms obtain window where
    n: "valid_name (ocf_name raw)" "ocf_name raw \<notin> set seen" "ocf_formula raw \<noteq> []"
    and rg: "(case ocf_rig raw of None \<Rightarrow> Inr ()
            | Some r \<Rightarrow> (case rig cfg r of
                Inl _ \<Rightarrow> Inl (field_err (ocf_name raw) ''rig'' (Msg ''unknown rig {rig:?}'' [r])) | Inr _ \<Rightarrow> Inr ())) = Inr ()"
    and tr: "parse_trigger (ocf_on raw) = Inr (or_trigger r)"
    and w: "(case ocf_catch_up_window raw of
              None \<Rightarrow> Inr DEFAULT_CATCH_UP_WINDOW
            | Some text \<Rightarrow> if text = ''0'' then Inr 0
                else on_field (ocf_name raw) ''catch_up_window'' (parse_window jiff text)) = Inr (or_catch_up_window r)"
    and r: "or_name r = ocf_name raw" "or_formula r = ocf_formula raw" "or_rig r = ocf_rig raw"
    by (auto simp: compile_order_def)
  have "0 \<le> or_catch_up_window r \<and> or_catch_up_window r \<le> MAX_CATCH_UP_WINDOW"
    using w parse_window_bounds
    by (auto simp: DEFAULT_CATCH_UP_WINDOW_def MAX_CATCH_UP_WINDOW_def split: option.splits if_splits)
  moreover have "case or_rig r of None \<Rightarrow> True | Some n \<Rightarrow> n \<in> rg_name ` set (cf_rigs cfg)"
    using rg rig_Inr by (auto simp: r split: option.splits sum.splits)
  ultimately show ?thesis
    using n r parse_trigger_ok [OF tr] unfolding order_ok_def by auto
qed

lemma compile_all_ok:
  "compile_all jiff cfg seen raws = Inr rs \<Longrightarrow>
     list_all (order_ok cfg) rs \<and> map or_name rs = map ocf_name raws \<and> distinct (map or_name rs) \<and>
     set (map or_name rs) \<inter> set seen = {}"
proof (induction raws arbitrary: seen rs)
  case (Cons raw raws)
  then obtain r rs' where r: "compile_order jiff cfg seen raw = Inr r"
    and rest: "compile_all jiff cfg (ocf_name raw # seen) raws = Inr rs'" and rs: "rs = r # rs'"
    by auto
  have ih: "list_all (order_ok cfg) rs'" "map or_name rs' = map ocf_name raws" "distinct (map or_name rs')"
    "set (map or_name rs') \<inter> set (ocf_name raw # seen) = {}" using Cons.IH [OF rest] by blast+
  have one: "order_ok cfg r" "or_name r = ocf_name raw" "or_name r \<notin> set seen" using compile_order_ok [OF r] by auto
  have fresh: "or_name r \<notin> set (map or_name rs')" using ih(4) one(2) by auto
  show ?case unfolding rs using ih(1,2,3) one(1,2) fresh ih(4) one(3) by (simp del: set_map)
qed simp

text \<open>
  C36. What the compilation of a camp's orders accepts is well formed: one order per declared order, in
  their order, under its name; names are valid and distinct, the formula is named, a rig is one of
  the camp, the catch-up window is between zero and its maximum, and an event trigger names an event
  type, with a label filter on bead events only.
\<close>

theorem compiled_orders_are_sound:
  assumes "compile_orders jiff cfg = Inr rs"
  shows "list_all (order_ok cfg) rs \<and> map or_name rs = map ocf_name (cf_orders cfg) \<and> distinct (map or_name rs)"
  using compile_all_ok [OF assms [unfolded compile_orders_def]] by blast

section \<open>Imported orders are inert until they are enabled\<close>

text \<open>What importing may add: enabled orders to the armed ones, and the others to the inert ones.\<close>

definition extends :: "CampConfig \<Rightarrow> files \<Rightarrow> OrderInventory \<Rightarrow> OrderInventory \<Rightarrow> bool" where
  "extends cfg F oi oi' \<longleftrightarrow> (\<exists>as ds. oi' = \<lparr>oi_active = oi_active oi @ as, oi_disabled = oi_disabled oi @ ds\<rparr> \<and>
     (\<forall>a \<in> set as. or_name a \<in> set (cf_orders_enabled cfg) \<and> (\<exists>p. resolve_formula F cfg (or_formula a) = Inr p)) \<and>
     (\<forall>d \<in> set ds. do_name d \<notin> set (cf_orders_enabled cfg)))"

lemma extends_refl: "extends cfg F oi oi"
  by (cases oi) (simp add: extends_def)

lemma extends_trans:
  assumes "extends cfg F a b" and "extends cfg F b c"
  shows "extends cfg F a c"
proof -
  from assms(1) obtain as ds where b: "b = \<lparr>oi_active = oi_active a @ as, oi_disabled = oi_disabled a @ ds\<rparr>"
    and ab: "\<forall>r \<in> set as. or_name r \<in> set (cf_orders_enabled cfg) \<and> (\<exists>p. resolve_formula F cfg (or_formula r) = Inr p)"
      "\<forall>d \<in> set ds. do_name d \<notin> set (cf_orders_enabled cfg)" unfolding extends_def by blast
  from assms(2) obtain as' ds' where c: "c = \<lparr>oi_active = oi_active b @ as', oi_disabled = oi_disabled b @ ds'\<rparr>"
    and bc: "\<forall>r \<in> set as'. or_name r \<in> set (cf_orders_enabled cfg) \<and> (\<exists>p. resolve_formula F cfg (or_formula r) = Inr p)"
      "\<forall>d \<in> set ds'. do_name d \<notin> set (cf_orders_enabled cfg)" unfolding extends_def by blast
  show ?thesis
    unfolding extends_def using ab bc by (intro exI [of _ "as @ as'"] exI [of _ "ds @ ds'"]) (auto simp: b c)
qed

lemma gc_order_name: "parse_gc_order binding stem raw = Inr r \<Longrightarrow> or_name r = binding @ ''.'' @ stem"
  by (auto simp: parse_gc_order_def Let_def)

lemma imported_order_Inr:
  "compile_imported_order F gc_order cfg binding stem path = Inr r \<Longrightarrow>
     or_name r = binding @ ''.'' @ stem \<and> (\<exists>p. resolve_formula F cfg (or_formula r) = Inr p)"
  by (auto simp: compile_imported_order_def dest: gc_order_name split: sum.splits)

lemma import_file_extends:
  assumes "import_file F gc_order cfg binding dir oi file = Inr oi'"
  shows "extends cfg F oi oi'"
proof (cases "compile_imported_order F gc_order cfg binding (fst (stem_and_extension file)) (path_join dir file)")
  case (Inl failure)
  then show ?thesis using assms
    by (cases oi) (auto simp: import_file_def Let_def extends_def split: if_splits)
next
  case (Inr r)
  then show ?thesis using assms imported_order_Inr [OF Inr]
    by (cases oi) (auto simp: import_file_def Let_def extends_def split: if_splits)
qed

lemma foldM_extends:
  "foldM f oi xs = Inr oi' \<Longrightarrow> (\<And>a b x. f a x = Inr b \<Longrightarrow> extends cfg F a b) \<Longrightarrow> extends cfg F oi oi'"
proof (induction xs arbitrary: oi)
  case (Cons x xs)
  then obtain m where "f oi x = Inr m" "foldM f m xs = Inr oi'" by auto
  then show ?case using Cons.IH [of m] Cons.prems(2) extends_trans by blast
qed (simp add: extends_refl)

lemma import_layer_extends:
  "import_layer F gc_order cfg oi layer = Inr oi' \<Longrightarrow> extends cfg F oi oi'"
  by (auto simp: import_layer_def Let_def extends_refl split: if_splits sum.splits
      elim!: foldM_extends intro: import_file_extends)

text \<open>
  C35. An imported order is inert until it is enabled: when the orders of the camp and of its imports
  compile, the active ones are the camp's own followed by imported ones whose name the camp enables
  and whose formula resolves, and no disabled one is enabled.
\<close>

theorem imported_orders_are_inert:
  assumes "compile_all_orders jiff F gc_order cfg = Inr oi"
  shows "\<exists>local imported. compile_orders jiff cfg = Inr local \<and> oi_active oi = local @ imported \<and>
    (\<forall>r \<in> set imported. or_name r \<in> set (cf_orders_enabled cfg) \<and>
       (\<exists>p. resolve_formula F cfg (or_formula r) = Inr p)) \<and>
    (\<forall>d \<in> set (oi_disabled oi). do_name d \<notin> set (cf_orders_enabled cfg))"
proof -
  from assms obtain local where loc: "compile_orders jiff cfg = Inr local"
    and go: "(case cf_root cfg of None \<Rightarrow> Inr \<lparr>oi_active = local, oi_disabled = []\<rparr>
     | Some _ \<Rightarrow> foldM (import_layer F gc_order cfg) \<lparr>oi_active = local, oi_disabled = []\<rparr> (sort_key fst (import_layers cfg))) = Inr oi"
    by (auto simp: compile_all_orders_def)
  have "extends cfg F \<lparr>oi_active = local, oi_disabled = []\<rparr> oi"
    using go by (auto split: option.splits intro: extends_refl elim!: foldM_extends intro: import_layer_extends)
  then show ?thesis using loc by (auto simp: extends_def)
qed

end
