(* ===== verification/Orders.thy ===== *)
theory Orders
  imports OrderConfig Verdict
begin

text \<open>
  The fire pipeline of orders (\<^verbatim>\<open>crates/camp-core/src/orders/mod.rs\<close>): the declaration of a fire, the
  actor that links a cooked run to it, the triggers on events, the completion of an order's run, and
  the reconciliation at startup: fires that a crash left without an answer.
\<close>

section \<open>Declaring a fire\<close>

definition ORDER_ACTOR_PREFIX :: string where
  "ORDER_ACTOR_PREFIX = ''order:''"

datatype FireCause = CronCause int bool | EventCause int | ManualCause

record PendingCook =
  pk_order :: string
  pk_fired_seq :: int

text \<open>\<open>canonical_ts\<close> is \<open>jiff\<close>'s formatting of an instant and the parameter \<open>ts_text\<close>.\<close>

definition fired_input :: "'j value_ops \<Rightarrow> (int \<Rightarrow> string) \<Rightarrow> string \<Rightarrow> FireCause \<Rightarrow> 'j event_input" where
  "fired_input J ts_text order_name cause =
     (let (actor, data) =
        (case cause of
           CronCause scheduled catch_up \<Rightarrow>
             (''campd'', jv_object J
               ([(''order'', jv_string J order_name), (''trigger'', jv_string J ''cron''),
                 (''scheduled_ts'', jv_string J (ts_text scheduled))] @
                (if catch_up then [(''catch_up'', jv_bool J True)] else [])))
         | EventCause cause_seq \<Rightarrow>
             (''campd'', jv_object J
               [(''order'', jv_string J order_name), (''trigger'', jv_string J ''event''),
                (''cause_seq'', jv_int J cause_seq)])
         | ManualCause \<Rightarrow>
             (''cli'', jv_object J [(''order'', jv_string J order_name), (''trigger'', jv_string J ''manual'')]))
      in \<lparr>in_kind = OrderFired, in_rig = None, in_actor = actor, in_bead = None, in_data = data\<rparr>)"

definition cook_actor :: "string \<Rightarrow> int \<Rightarrow> string" where
  "cook_actor order_name fired_seq = ORDER_ACTOR_PREFIX @ order_name @ '':'' @ show_int fired_seq"

definition parse_cook_actor :: "string \<Rightarrow> (string \<times> int) option" where
  "parse_cook_actor actor =
     (case strip_prefix ORDER_ACTOR_PREFIX actor of
        None \<Rightarrow> None
      | Some rest \<Rightarrow>
          (case rsplit_once CHR '':'' rest of
             None \<Rightarrow> None
           | Some (name, seq) \<Rightarrow> if name = [] then None else map_option (Pair name) (parse_i64 seq)))"

definition pending_cook_from_fired :: "'j value_ops \<Rightarrow> 'j event \<Rightarrow> PendingCook option res" where
  "pending_cook_from_fired J ev =
     (if ev_kind ev \<noteq> OrderFired then Inr None
      else case data_str J (Some (ev_data ev)) ''order'' of
        None \<Rightarrow> Inl (InvalidEventData (as_str (ev_kind ev)) (Msg ''order.fired without an order name'' []))
      | Some order \<Rightarrow> Inr (Some \<lparr>pk_order = order, pk_fired_seq = ev_seq ev\<rparr>))"

section \<open>Event triggers and completions\<close>

definition event_trigger_matches :: "'j serde \<Rightarrow> state \<Rightarrow> Order \<Rightarrow> 'j event \<Rightarrow> bool res" where
  "event_trigger_matches S st order ev =
     (case or_trigger order of
        CronTrigger _ \<Rightarrow> Inr False
      | EventTrigger event_type label \<Rightarrow>
          if as_str (ev_kind ev) \<noteq> event_type then Inr False
          else case label of
            None \<Rightarrow> Inr True
          | Some label \<Rightarrow>
              (case ev_bead ev of
                 None \<Rightarrow> Inr False
               | Some bead \<Rightarrow>
                   (case bead_at st bead of
                      None \<Rightarrow> Inr False
                    | Some b \<Rightarrow>
                        (case labels_of S (b_labels b) of
                           Inl e \<Rightarrow> Inl (Json e)
                         | Inr labels \<Rightarrow> Inr (label \<in> set labels)))))"

text \<open>\<open>SELECT actor \<dots> WHERE bead = ?1 AND type = 'run.cooked' ORDER BY seq DESC LIMIT 1\<close>.\<close>

definition cooked_actor :: "ledger \<Rightarrow> string \<Rightarrow> string option" where
  "cooked_actor l bead =
     map_option r_actor (find (\<lambda>r. r_bead r = Some bead \<and> r_type r = as_str RunCooked) (rev (event_log l)))"

definition completion_data :: "'j value_ops \<Rightarrow> string \<Rightarrow> int \<Rightarrow> string \<Rightarrow> string \<Rightarrow> string \<Rightarrow> 'j" where
  "completion_data J order fired_seq bead run_id outcome =
     jv_object J
       [(''order'', jv_string J order), (''fired_seq'', jv_int J fired_seq), (''root_bead'', jv_string J bead),
        (''run_id'', jv_string J run_id), (''outcome'', jv_string J outcome)]"

definition completion_input :: "'j value_ops \<Rightarrow> ledger \<Rightarrow> 'j event \<Rightarrow> 'j event_input option res" where
  "completion_input J l ev =
     (if ev_kind ev \<noteq> BeadClosed then Inr None
      else case ev_bead ev of
        None \<Rightarrow> Inr None
      | Some bead \<Rightarrow>
          (case map_option (\<lambda>b. (b_run_id b, b_step_id b)) (bead_at (tables l) bead) of
             Some (Some run_id, None) \<Rightarrow>
               (case Option.bind (cooked_actor l bead) parse_cook_actor of
                  None \<Rightarrow> Inr None
                | Some (order, fired_seq) \<Rightarrow>
                    (case data_str J (Some (ev_data ev)) ''outcome'' of
                       None \<Rightarrow> Inl (InvalidEventData (as_str (ev_kind ev)) (Msg ''bead.closed without an outcome'' []))
                     | Some outcome \<Rightarrow>
                         let (kind, result) = (if outcome = ''pass'' then (OrderCompleted, ''pass'') else (OrderFailed, ''fail''))
                         in Inr (Some \<lparr>in_kind = kind, in_rig = ev_rig ev, in_actor = ''campd'', in_bead = None,
                              in_data = completion_data J order fired_seq bead run_id result\<rparr>)))
           | _ \<Rightarrow> Inr None))"

section \<open>Reconciliation\<close>

definition responded_fired_seqs :: "'j serde \<Rightarrow> 'j value_ops \<Rightarrow> ledger \<Rightarrow> int list res" where
  "responded_fired_seqs S J l =
     rbind (events_of_type S RunCooked l) (\<lambda>cooked.
     rbind (events_of_type S OrderFailed l) (\<lambda>failed.
       Inr (List.map_filter (\<lambda>ev. map_option snd (parse_cook_actor (ev_actor ev))) cooked @
            List.map_filter (\<lambda>ev. data_i64 J (ev_data ev) ''fired_seq'') failed)))"

definition cron_fire_declared ::
    "(string \<Rightarrow> string \<Rightarrow> string option) \<Rightarrow> (int \<Rightarrow> string) \<Rightarrow> ledger \<Rightarrow> string \<Rightarrow> int \<Rightarrow> bool" where
  "cron_fire_declared js ts_text l order_name scheduled =
     has_event_with_data_strs js OrderFired (''order'', order_name) (''scheduled_ts'', ts_text scheduled) l"

definition fire_response_exists :: "(string \<Rightarrow> string \<Rightarrow> int option) \<Rightarrow> ledger \<Rightarrow> string \<Rightarrow> int \<Rightarrow> bool" where
  "fire_response_exists ji l order_name fired_seq \<longleftrightarrow>
     has_event_with_actor RunCooked (cook_actor order_name fired_seq) l \<or>
     has_event_with_data_i64 ji OrderFailed ''fired_seq'' fired_seq l"

definition unresponded_fires :: "'j serde \<Rightarrow> 'j value_ops \<Rightarrow> ledger \<Rightarrow> PendingCook list res" where
  "unresponded_fires S J l =
     rbind (responded_fired_seqs S J l) (\<lambda>responded.
     rbind (events_of_type S OrderFired l) (\<lambda>fired.
       foldM (\<lambda>pending ev.
         if ev_seq ev \<in> set responded then Inr pending
         else rbind (pending_cook_from_fired J ev) (\<lambda>cook.
           Inr (case cook of None \<Rightarrow> pending | Some c \<Rightarrow> pending @ [c]))) [] fired))"

definition resolve_rig :: "CampConfig \<Rightarrow> Order \<Rightarrow> message + RigConfig" where
  "resolve_rig cfg order =
     (case or_rig order of
        Some name \<Rightarrow>
          (case rig cfg name of
             Inl _ \<Rightarrow> Inl (Msg ''field rig: unknown rig {name:?}'' [name])
           | Inr r \<Rightarrow> Inr r)
      | None \<Rightarrow>
          (case cf_rigs cfg of
             [only] \<Rightarrow> Inr only
           | [] \<Rightarrow> Inl (Msg ''no rigs configured; run camp rig add <path> first'' [])
           | _ \<Rightarrow> Inl (Msg ''multiple rigs configured; set rig on the order'' [])))"

section \<open>The actor parses back\<close>

lemma parse_i64_show:
  assumes "i64_min \<le> i" and "i \<le> i64_max"
  shows "parse_i64 (show_int i) = Some i"
proof (cases "i < 0")
  case True
  then show ?thesis
    using assms show_nat_digits [of "nat (- i)"] by (simp add: show_int_def parse_i64_def Let_def i64_max_def)
next
  case False
  then show ?thesis
    using assms parse_i64_digits [OF show_nat_digits show_nat_not_Nil, of "nat i"] by (simp add: show_int_def)
qed

lemma show_int_no_colon: "CHR '':'' \<notin> set (show_int i)"
  using show_nat_no_colon by (simp add: show_int_def)

lemma parse_cook_actor_iff:
  "parse_cook_actor actor = Some (name, seq) \<longleftrightarrow>
     (\<exists>ds. actor = ORDER_ACTOR_PREFIX @ name @ CHR '':'' # ds \<and> name \<noteq> [] \<and> CHR '':'' \<notin> set ds \<and> parse_i64 ds = Some seq)"
proof
  assume "parse_cook_actor actor = Some (name, seq)"
  then show "\<exists>ds. actor = ORDER_ACTOR_PREFIX @ name @ CHR '':'' # ds \<and> name \<noteq> [] \<and> CHR '':'' \<notin> set ds \<and> parse_i64 ds = Some seq"
    by (auto simp: parse_cook_actor_def strip_prefix_iff rsplit_once_iff split: option.splits if_splits)
next
  assume "\<exists>ds. actor = ORDER_ACTOR_PREFIX @ name @ CHR '':'' # ds \<and> name \<noteq> [] \<and> CHR '':'' \<notin> set ds \<and> parse_i64 ds = Some seq"
  then obtain ds where ds: "actor = ORDER_ACTOR_PREFIX @ name @ CHR '':'' # ds" "name \<noteq> []" "parse_i64 ds = Some seq"
    and "rsplit_once CHR '':'' (name @ CHR '':'' # ds) = Some (name, ds)"
    unfolding rsplit_once_iff by blast
  then show "parse_cook_actor actor = Some (name, seq)" by (simp add: parse_cook_actor_def)
qed

lemma cook_actor_parses:
  "name \<noteq> [] \<Longrightarrow> i64_min \<le> seq \<Longrightarrow> seq \<le> i64_max \<Longrightarrow> parse_cook_actor (cook_actor name seq) = Some (name, seq)"
  by (simp add: parse_cook_actor_iff cook_actor_def show_int_no_colon parse_i64_show)

text \<open>
  The actor of an order's cook names its fire: for a non-empty name and a sequence number of an i64
  the actor parses back to both, whatever colons or dots the name has, so no two fires share it.
\<close>

theorem cook_actor_roundtrip:
  "(name \<noteq> [] \<and> i64_min \<le> seq \<and> seq \<le> i64_max \<longrightarrow> parse_cook_actor (cook_actor name seq) = Some (name, seq)) \<and>
   (name \<noteq> [] \<and> i64_min \<le> seq \<and> seq \<le> i64_max \<and> name' \<noteq> [] \<and> i64_min \<le> seq' \<and> seq' \<le> i64_max \<longrightarrow>
      cook_actor name seq = cook_actor name' seq' \<longrightarrow> name = name' \<and> seq = seq')"
  by (metis cook_actor_parses Pair_inject option.inject)

theorem cook_actor_witness:
  "parse_cook_actor (cook_actor ''a:b.c'' 17) = Some (''a:b.c'', 17)"
  using cook_actor_roundtrip [of "''a:b.c''" 17] by (simp add: i64_min_def i64_max_def)

section \<open>The pending fires are the fires without an answer\<close>

definition fired_name :: "'j value_ops \<Rightarrow> 'j event \<Rightarrow> string" where
  "fired_name J ev = (case data_str J (Some (ev_data ev)) ''order'' of None \<Rightarrow> [] | Some n \<Rightarrow> n)"

definition row_event :: "'j serde \<Rightarrow> event_row \<Rightarrow> 'j event" where
  "row_event S r = projr (row_to_event S r)"

definition answered :: "'j serde \<Rightarrow> 'j value_ops \<Rightarrow> ledger \<Rightarrow> int \<Rightarrow> bool" where
  "answered S J l seq \<longleftrightarrow>
     (\<exists>r \<in> set (event_log l). r_type r = as_str RunCooked \<and> (\<exists>n. parse_cook_actor (r_actor r) = Some (n, seq))) \<or>
     (\<exists>r \<in> set (event_log l). r_type r = as_str OrderFailed \<and>
        data_i64 J (ev_data (row_event S r)) ''fired_seq'' = Some seq)"

text \<open>What the code relies on of the JSON library: the name the fold decoded is the field.\<close>

definition order_name_law :: "'j serde \<Rightarrow> 'j value_ops \<Rightarrow> bool" where
  "order_name_law S J \<longleftrightarrow> (\<forall>d p. dec_order_fired S d = Inr p \<longrightarrow> data_str J (Some d) ''order'' = Some (of_order p))"

lemma replayed_rows:
  assumes "replays S l" and "r \<in> set (event_log l)"
  shows "\<exists>ev st st'. row_to_event S r = Inr ev \<and> fold_apply S st ev = Inr st'"
proof -
  have "\<exists>ev st0 st1. row_to_event S r = Inr ev \<and> fold_apply S st0 ev = Inr st1"
    if "foldM (replay_row S) st rs = Inr st'" "r \<in> set rs" for rs st st'
    using that by (induction rs arbitrary: st) (auto simp: replay_row_Inr)
  then show ?thesis using assms unfolding replays_def by blast
qed

lemma row_event_Inr: "replays S l \<Longrightarrow> r \<in> set (event_log l) \<Longrightarrow> row_to_event S r = Inr (row_event S r)"
  using replayed_rows by (force simp: row_event_def)

lemma row_to_event_columns: "row_to_event S r = Inr ev \<Longrightarrow> ev_seq ev = r_seq r \<and> ev_actor ev = r_actor r"
  by (auto simp: row_to_event_def split: sum.splits)

lemma row_event_fields:
  assumes "replays S l" and "r \<in> set (event_log l)"
  shows "ev_seq (row_event S r) = r_seq r \<and> ev_actor (row_event S r) = r_actor r \<and>
    (ev_kind (row_event S r) = k \<longleftrightarrow> r_type r = as_str k)"
  using row_to_event_columns [OF row_event_Inr [OF assms]] row_to_event_Inr [OF row_event_Inr [OF assms], of k]
  by simp

lemma events_of_type_rows:
  "replays S l \<Longrightarrow> events_of_type S k l = Inr (map (row_event S) (filter (\<lambda>r. r_type r = as_str k) (event_log l)))"
  unfolding events_of_type_def select_events_def by (rule mapM_Inr) (simp add: row_event_Inr)

lemma set_map_filter: "x \<in> set (List.map_filter f xs) \<longleftrightarrow> (\<exists>y \<in> set xs. f y = Some x)"
  by (force simp: List.map_filter_def)

lemma responded_iff:
  assumes "replays S l"
  shows "\<exists>seqs. responded_fired_seqs S J l = Inr seqs \<and> (\<forall>s. s \<in> set seqs \<longleftrightarrow> answered S J l s)"
proof -
  let ?cooked = "filter (\<lambda>r. r_type r = as_str RunCooked) (event_log l)"
  let ?failed = "filter (\<lambda>r. r_type r = as_str OrderFailed) (event_log l)"
  have "responded_fired_seqs S J l = Inr
      (List.map_filter (\<lambda>ev. map_option snd (parse_cook_actor (ev_actor ev))) (map (row_event S) ?cooked) @
       List.map_filter (\<lambda>ev. data_i64 J (ev_data ev) ''fired_seq'') (map (row_event S) ?failed))"
    by (simp add: responded_fired_seqs_def events_of_type_rows [OF assms])
  moreover have "s \<in> set (List.map_filter (\<lambda>ev. map_option snd (parse_cook_actor (ev_actor ev))) (map (row_event S) ?cooked)) \<longleftrightarrow>
      (\<exists>r \<in> set (event_log l). r_type r = as_str RunCooked \<and> (\<exists>n. parse_cook_actor (r_actor r) = Some (n, s)))" for s
    unfolding set_map_filter using row_event_fields [OF assms] by auto
  moreover have "s \<in> set (List.map_filter (\<lambda>ev. data_i64 J (ev_data ev) ''fired_seq'') (map (row_event S) ?failed)) \<longleftrightarrow>
      (\<exists>r \<in> set (event_log l). r_type r = as_str OrderFailed \<and> data_i64 J (ev_data (row_event S r)) ''fired_seq'' = Some s)" for s
    unfolding set_map_filter by auto
  ultimately show ?thesis by (auto simp: answered_def)
qed

lemma fired_pending:
  assumes "replays S l" and "order_name_law S J" and "r \<in> set (event_log l)" and "r_type r = as_str OrderFired"
  shows "pending_cook_from_fired J (row_event S r) =
    Inr (Some \<lparr>pk_order = fired_name J (row_event S r), pk_fired_seq = r_seq r\<rparr>)"
proof -
  obtain ev st st' where ev: "row_to_event S r = Inr ev" and run: "fold_apply S st ev = Inr st'"
    using replayed_rows [OF assms(1,3)] by blast
  have "ev_kind ev = OrderFired" using row_to_event_Inr [OF ev, of OrderFired] assms(4) by simp
  moreover from this run obtain p where "dec_order_fired S (ev_data ev) = Inr p"
    by (auto simp: fold_apply_def order_fired_def)
  moreover have "row_event S r = ev" using ev by (simp add: row_event_def)
  ultimately show ?thesis
    using assms(2) row_event_fields [OF assms(1,3)] by (auto simp: pending_cook_from_fired_def order_name_law_def fired_name_def)
qed

text \<open>
  C25. Reconciliation finds exactly the unanswered fires: in a good ledger, the two passes over the log
  give one pending cook for every \<open>order.fired\<close> event that no \<open>run.cooked\<close> actor and no
  \<open>order.failed\<close> payload names, with its order and sequence number, in the order of the log.
\<close>

theorem pending_fires_are_unanswered:
  assumes "good S l" and "order_name_law S J"
  shows "unresponded_fires S J l = Inr (map
    (\<lambda>r. \<lparr>pk_order = fired_name J (row_event S r), pk_fired_seq = r_seq r\<rparr>)
    (filter (\<lambda>r. r_type r = as_str OrderFired \<and> \<not> answered S J l (r_seq r)) (event_log l)))"
proof -
  have rep: "replays S l" using assms(1) by (simp add: good_def)
  obtain seqs where seqs: "responded_fired_seqs S J l = Inr seqs" "\<And>s. s \<in> set seqs \<longleftrightarrow> answered S J l s"
    using responded_iff [OF rep, of J] by blast
  have "foldM (\<lambda>pending ev.
         if ev_seq ev \<in> set seqs then Inr pending
         else rbind (pending_cook_from_fired J ev) (\<lambda>cook.
           Inr (case cook of None \<Rightarrow> pending | Some c \<Rightarrow> pending @ [c]))) acc
        (map (row_event S) (filter (\<lambda>r. r_type r = as_str OrderFired) rs)) =
      Inr (acc @ map (\<lambda>r. \<lparr>pk_order = fired_name J (row_event S r), pk_fired_seq = r_seq r\<rparr>)
        (filter (\<lambda>r. r_type r = as_str OrderFired \<and> \<not> answered S J l (r_seq r)) rs))"
    if "set rs \<subseteq> set (event_log l)" for rs acc
    using that
    by (induction rs arbitrary: acc)
      (simp_all add: fired_pending [OF rep assms(2)] row_event_fields [OF rep] seqs(2))
  from this [of "event_log l" "[]"] show ?thesis
    by (simp add: unresponded_fires_def seqs(1) events_of_type_rows [OF rep])
qed

section \<open>An answer settles its fire, and only it\<close>

lemma answered_snoc:
  "event_log l' = event_log l @ [r] \<Longrightarrow> answered S J l' t \<longleftrightarrow> answered S J l t \<or>
     r_type r = as_str RunCooked \<and> (\<exists>n. parse_cook_actor (r_actor r) = Some (n, t)) \<or>
     r_type r = as_str OrderFailed \<and> data_i64 J (ev_data (row_event S r)) ''fired_seq'' = Some t"
  by (auto simp: answered_def)

text \<open>
  An answer settles its fire and only it: after a \<open>run.cooked\<close> event of the order's actor was
  appended, the pending fires are those from before without that sequence number.
\<close>

theorem answer_settles_the_fire:
  assumes "good S l" and "text_roundtrip S" and "order_name_law S J"
    and "insert_and_fold S ts inp l = Inr (l', k)" and "in_kind inp = RunCooked" and "in_actor inp = cook_actor name seq"
    and "name \<noteq> []" and "i64_min \<le> seq" and "seq \<le> i64_max"
    and "unresponded_fires S J l = Inr pending"
  shows "unresponded_fires S J l' = Inr (filter (\<lambda>c. pk_fired_seq c \<noteq> seq) pending)"
proof -
  have good': "good S l'" by (rule insert_and_fold_good [OF assms(2,4,1)])
  define r where "r = row_of S (event_of k ts inp)"
  have log: "event_log l' = event_log l @ [r]" using assms(4) by (auto simp: insert_and_fold_Inr r_def)
  have r: "r_type r = as_str RunCooked" "r_actor r = cook_actor name seq"
    by (simp_all add: r_def row_of_def event_of_def assms(5,6))
  have "answered S J l' t \<longleftrightarrow> answered S J l t \<or> t = seq" for t
    unfolding answered_snoc [OF log] r cook_actor_parses [OF assms(7-9)] by auto
  then show ?thesis
    using pending_fires_are_unanswered [OF assms(1,3)] pending_fires_are_unanswered [OF good' assms(3)] assms(10) r(1)
    by (auto simp: log filter_map o_def conj_ac intro: filter_cong)
qed

section \<open>The probe and the reconciliation agree\<close>

definition extract_law :: "'j serde \<Rightarrow> 'j value_ops \<Rightarrow> (string \<Rightarrow> string \<Rightarrow> int option) \<Rightarrow> bool" where
  "extract_law S J ji \<longleftrightarrow> (\<forall>s d f. data_of S s = Inr d \<longrightarrow> ji s f = data_i64 J d f)"

text \<open>
  The SQL probe that dispatch makes for a fire agrees with the reconciliation: as long as the cooks
  that answer this fire carry the actor of its order, there is a response to the fire exactly when
  reconciliation takes it for answered.
\<close>

theorem probe_agrees_with_reconciliation:
  assumes "good S l" and "extract_law S J ji" and "name \<noteq> []" and "i64_min \<le> seq" and "seq \<le> i64_max"
    and "\<forall>r \<in> set (event_log l). r_type r = as_str RunCooked \<and> (\<exists>n. parse_cook_actor (r_actor r) = Some (n, seq)) \<longrightarrow>
      r_actor r = cook_actor name seq"
  shows "fire_response_exists ji l name seq \<longleftrightarrow> answered S J l seq"
proof -
  have rep: "replays S l" using assms(1) by (simp add: good_def)
  have "ji (r_data r) ''fired_seq'' = data_i64 J (ev_data (row_event S r)) ''fired_seq''"
    if "r \<in> set (event_log l)" for r
    using row_to_event_Inr [OF row_event_Inr [OF rep that]] assms(2) unfolding extract_law_def by blast
  then have "has_event_with_data_i64 ji OrderFailed ''fired_seq'' seq l \<longleftrightarrow>
      (\<exists>r \<in> set (event_log l). r_type r = as_str OrderFailed \<and>
        data_i64 J (ev_data (row_event S r)) ''fired_seq'' = Some seq)"
    unfolding has_event_with_data_i64_def list_ex_iff by auto
  moreover have "has_event_with_actor RunCooked (cook_actor name seq) l \<longleftrightarrow>
      (\<exists>r \<in> set (event_log l). r_type r = as_str RunCooked \<and> (\<exists>n. parse_cook_actor (r_actor r) = Some (n, seq)))"
    unfolding has_event_with_actor_def list_ex_iff using assms(6) cook_actor_parses [OF assms(3-5)] by metis
  ultimately show ?thesis by (simp add: fire_response_exists_def answered_def)
qed

section \<open>The completion of an order's run\<close>

text \<open>
  A closed root completes the fire that cooked it: for a bead cooked by an order's actor, the event
  that campd appends names the order, the fire, the root and the run, completed when the root
  passed and failed otherwise; a step or a bead outside a run gives none.
\<close>

theorem completion_names_the_fire:
  assumes "ev_kind ev = BeadClosed" and "ev_bead ev = Some i" and "bead_at (tables l) i = Some b"
    and "cooked_actor l i = Some (cook_actor name seq)" and "name \<noteq> []" and "i64_min \<le> seq" and "seq \<le> i64_max"
    and "data_str J (Some (ev_data ev)) ''outcome'' = Some oc"
  shows "completion_input J l ev =
    (case (b_run_id b, b_step_id b) of
       (Some run_id, None) \<Rightarrow> Inr (Some
         \<lparr>in_kind = (if oc = ''pass'' then OrderCompleted else OrderFailed), in_rig = ev_rig ev, in_actor = ''campd'',
          in_bead = None,
          in_data = completion_data J name seq i run_id (if oc = ''pass'' then ''pass'' else ''fail'')\<rparr>)
     | _ \<Rightarrow> Inr None)"
  using assms cook_actor_parses [OF assms(5-7)]
  by (simp add: completion_input_def Let_def split: option.split)

end
