(* ===== verification/OrderChecks.thy ===== *)
theory OrderChecks
  imports Orders
begin

text \<open>The theorems about orders and sources, applied to concrete configurations and ledgers.\<close>

section \<open>A ledger with fires\<close>

definition order_serde :: "string serde" where
  "order_serde = demo
     \<lparr>dec_order_fired := (\<lambda>d. Inr \<lparr>of_order = d, of_trigger = ''manual'', of_scheduled_ts = None, of_catch_up = None,
        of_cause_seq = None\<rparr>),
      dec_run_cooked := (\<lambda>d. Inr \<lparr>rc_run_id = d, rc_formula = d, rc_root = d, rc_steps = []\<rparr>)\<rparr>"

definition order_ops :: "string value_ops" where
  "order_ops = \<lparr>jv_get = (\<lambda>d k. if k = ''order'' then Some d else None), jv_str = Some, jv_i64 = (\<lambda>_. None),
     jv_array = (\<lambda>_. None), jv_is_object = (\<lambda>_. True), jv_text = (\<lambda>d. d), jv_string = (\<lambda>d. d), jv_int = (\<lambda>_. []),
     jv_bool = (\<lambda>_. []), jv_list = (\<lambda>_. []), jv_object = (\<lambda>_. [])\<rparr>"

lemma order_laws:
  "text_roundtrip order_serde" "order_name_law order_serde order_ops" "extract_law order_serde order_ops (\<lambda>_ _. None)"
  by (auto simp: text_roundtrip_def order_name_law_def extract_law_def order_serde_def order_ops_def demo_def
      no_serde_def data_str_def data_i64_def)

definition order_event :: "event_type \<Rightarrow> string \<Rightarrow> string \<Rightarrow> string event_input" where
  "order_event k actor d = \<lparr>in_kind = k, in_rig = None, in_actor = actor, in_bead = None, in_data = d\<rparr>"

definition order_ledger :: "string event_input list \<Rightarrow> ledger" where
  "order_ledger inps = fst (append_batch order_serde ''2026'' inps new_ledger)"

lemma order_ledger_good: "good order_serde (order_ledger inps)"
  unfolding order_ledger_def by (rule append_batch_good [OF order_laws(1)]) simp

definition two_fires :: "string event_input list" where
  "two_fires = [order_event OrderFired ''cli'' ''a'', order_event OrderFired ''cli'' ''b'']"

definition one_answer :: "string event_input" where
  "one_answer = order_event RunCooked (cook_actor ''a'' 1) ''r''"

theorem pending_fires_witness:
  "unresponded_fires order_serde order_ops (order_ledger two_fires) = Inr (map
    (\<lambda>r. \<lparr>pk_order = fired_name order_ops (row_event order_serde r), pk_fired_seq = r_seq r\<rparr>)
    (filter (\<lambda>r. r_type r = as_str OrderFired \<and> \<not> answered order_serde order_ops (order_ledger two_fires) (r_seq r))
      (event_log (order_ledger two_fires))))"
  by (rule pending_fires_are_unanswered [OF order_ledger_good order_laws(2)])

definition read_pending :: "PendingCook list res \<Rightarrow> (string \<times> int) list" where
  "read_pending r = (case r of Inl _ \<Rightarrow> [] | Inr ps \<Rightarrow> map (\<lambda>p. (pk_order p, pk_fired_seq p)) ps)"

definition read_append :: "(ledger \<times> int) res \<Rightarrow> int option" where
  "read_append r = (case r of Inl _ \<Rightarrow> None | Inr (_, seq) \<Rightarrow> Some seq)"

theorem answer_settles_witness:
  "\<exists>l'. map_option (\<lambda>_. ()) (read_append (Inr (l', 3))) = Some () \<and>
     (\<exists>pending. unresponded_fires order_serde order_ops l' = Inr (filter (\<lambda>c. pk_fired_seq c \<noteq> 1) pending) \<and>
        read_pending (Inr pending) = [(''a'', 1), (''b'', 2)])"
proof -
  have "read_append (insert_and_fold order_serde ''2026'' one_answer (order_ledger two_fires)) = Some 3" by code_simp
  then obtain l' where l': "insert_and_fold order_serde ''2026'' one_answer (order_ledger two_fires) = Inr (l', 3)"
    by (auto simp: read_append_def split: sum.splits)
  have pending: "read_pending (unresponded_fires order_serde order_ops (order_ledger two_fires)) = [(''a'', 1), (''b'', 2)]"
    by code_simp
  then obtain ps where ps: "unresponded_fires order_serde order_ops (order_ledger two_fires) = Inr ps"
    by (auto simp: read_pending_def split: sum.splits)
  have "unresponded_fires order_serde order_ops l' = Inr (filter (\<lambda>c. pk_fired_seq c \<noteq> 1) ps)"
    by (rule answer_settles_the_fire [OF order_ledger_good order_laws(1,2) l' _ _ _ _ _ ps, of "''a''"])
      (simp_all add: one_answer_def order_event_def i64_min_def i64_max_def)
  then show ?thesis using pending ps by (auto simp: read_append_def)
qed

theorem probe_agrees_witness:
  "fire_response_exists (\<lambda>_ _. None) (order_ledger two_fires) ''a'' 1 \<longleftrightarrow>
     answered order_serde order_ops (order_ledger two_fires) 1"
proof -
  have "list_all (\<lambda>r. r_type r \<noteq> as_str RunCooked) (event_log (order_ledger two_fires))" by code_simp
  then show ?thesis
    by (intro probe_agrees_with_reconciliation [OF order_ledger_good order_laws(3)])
      (auto simp: list_all_iff i64_min_def i64_max_def)
qed

section \<open>A completion\<close>

definition root_bead :: bead where
  "root_bead =
     \<lparr>b_id = ''gc-1'', b_rig = ''gc'', b_type = ''task'', b_title = ''t'', b_description = [], b_status = Closed,
      b_assignee = None, b_claimed_by = None, b_outcome = Some ''pass'', b_close_reason = None, b_work_outcome = None,
      b_work_commit = None, b_work_branch = None, b_final_disposition = None, b_dispatch_failure = None,
      b_labels = [], b_run_id = Some ''r1'', b_step_id = None, b_created_ts = [], b_updated_ts = [], b_closed_ts = Some []\<rparr>"

definition cooked_ledger :: ledger where
  "cooked_ledger = new_ledger
     \<lparr>event_log := [\<lparr>r_seq = 1, r_ts = [], r_type = as_str RunCooked, r_rig = None, r_actor = cook_actor ''a'' 7,
        r_bead = Some ''gc-1'', r_data = []\<rparr>], tables := empty_state\<lparr>beads := [root_bead]\<rparr>\<rparr>"

definition outcome_ops :: "string value_ops" where
  "outcome_ops = order_ops\<lparr>jv_get := (\<lambda>d k. if k = ''outcome'' then Some d else None)\<rparr>"

definition close_event :: "string event" where
  "close_event = \<lparr>ev_seq = 9, ev_ts = [], ev_kind = BeadClosed, ev_rig = Some ''gc'', ev_actor = [],
     ev_bead = Some ''gc-1'', ev_data = ''pass''\<rparr>"

theorem completion_witness:
  "completion_input outcome_ops cooked_ledger close_event = Inr (Some
     \<lparr>in_kind = OrderCompleted, in_rig = Some ''gc'', in_actor = ''campd'', in_bead = None,
      in_data = completion_data outcome_ops ''a'' 7 ''gc-1'' ''r1'' ''pass''\<rparr>)"
proof -
  have facts: "bead_at (tables cooked_ledger) ''gc-1'' = Some root_bead"
    "cooked_actor cooked_ledger ''gc-1'' = Some (cook_actor ''a'' 7)"
    "data_str outcome_ops (Some (ev_data close_event)) ''outcome'' = Some ''pass''"
    by (simp_all add: cooked_ledger_def bead_at_def sql_find_def root_bead_def cooked_actor_def data_str_def
        outcome_ops_def order_ops_def close_event_def)
  show ?thesis
    using completion_names_the_fire [OF _ _ facts(1,2) _ _ _ facts(3)]
    by (simp add: close_event_def i64_min_def i64_max_def root_bead_def)
qed

section \<open>A configuration\<close>

definition demo_config :: CampConfig where
  "demo_config =
     \<lparr>cf_camp = \<lparr>cs_name = ''dev''\<rparr>, cf_rigs = [\<lparr>rg_name = ''gc'', rg_path = ''/code'', rg_prefix = ''gc'', rg_default_agent = None\<rparr>],
      cf_orders = [\<lparr>ocf_name = ''ci-red'', ocf_on = ''event:bead.closed[label=ci-red]'', ocf_formula = ''fix'',
        ocf_rig = Some ''gc'', ocf_catch_up_window = Some ''0''\<rparr>],
      cf_imports = [(''bmad'', \<lparr>im_source = ''file:///x'', im_subpath = None, im_version = None, im_trust_exec = False,
        im_skills = None\<rparr>)],
      cf_orders_enabled = [''bmad.nightly''],
      cf_agent_defaults = \<lparr>ad_model = None, ad_permission_mode = None, ad_tools = None\<rparr>,
      cf_dispatch = dispatch_default, cf_patrol = patrol_default, cf_root = Some ''/camp''\<rparr>"

definition read_orders :: "Order list res \<Rightarrow> string list" where
  "read_orders r = (case r of Inl _ \<Rightarrow> [] | Inr rs \<Rightarrow> map or_name rs)"

theorem compiled_orders_witness:
  "\<exists>rs. compile_orders (\<lambda>_. Inl []) demo_config = Inr rs \<and> list_all (order_ok demo_config) rs \<and> map or_name rs = [''ci-red'']"
proof -
  have "read_orders (compile_orders (\<lambda>_. Inl []) demo_config) = [''ci-red'']" by code_simp
  then obtain rs where rs: "compile_orders (\<lambda>_. Inl []) demo_config = Inr rs" "map or_name rs = [''ci-red'']"
    by (auto simp: read_orders_def split: sum.splits)
  have "list_all (order_ok demo_config) rs" using compiled_orders_are_sound [OF rs(1)] by (elim conjE)
  with rs show ?thesis by (intro exI [of _ rs] conjI)
qed

text \<open>A pack with two order files, one of them enabled.\<close>

definition demo_files :: files where
  "demo_files =
     \<lparr>fl_is_dir = (\<lambda>p. p = ''/camp/imports/bmad/orders''),
      fl_is_file = (\<lambda>p. p \<in> {''/camp/imports/bmad/orders/nightly.toml'', ''/camp/imports/bmad/orders/other.toml'',
        ''/camp/formulas/f.toml''}),
      fl_list = (\<lambda>_. Inr [Inr ''nightly.toml'', Inr ''other.toml'', Inr ''README'']), fl_read = Inr\<rparr>"

definition demo_gc :: "string \<Rightarrow> string + GcOrderRaw" where
  "demo_gc _ = Inr \<lparr>go_formula = ''f'', go_trigger = ''event'', go_schedule = None, go_on = Some ''bead.closed''\<rparr>"

definition read_inventory :: "OrderInventory res \<Rightarrow> string list \<times> string list" where
  "read_inventory r = (case r of Inl _ \<Rightarrow> ([], []) | Inr oi \<Rightarrow> (map or_name (oi_active oi), map do_name (oi_disabled oi)))"

theorem imported_orders_witness:
  "\<exists>oi. compile_all_orders (\<lambda>_. Inl []) demo_files demo_gc demo_config = Inr oi \<and>
     map or_name (oi_active oi) = [''ci-red'', ''bmad.nightly''] \<and>
     (\<forall>d \<in> set (oi_disabled oi). do_name d \<notin> {''bmad.nightly''})"
proof -
  have "read_inventory (compile_all_orders (\<lambda>_. Inl []) demo_files demo_gc demo_config) =
      ([''ci-red'', ''bmad.nightly''], [''bmad.other''])" by code_simp
  then obtain oi where oi: "compile_all_orders (\<lambda>_. Inl []) demo_files demo_gc demo_config = Inr oi"
    "map or_name (oi_active oi) = [''ci-red'', ''bmad.nightly'']"
    by (auto simp: read_inventory_def split: sum.splits)
  have enabled: "set (cf_orders_enabled demo_config) = {''bmad.nightly''}" by (simp add: demo_config_def)
  have "\<forall>d \<in> set (oi_disabled oi). do_name d \<notin> set (cf_orders_enabled demo_config)"
    using imported_orders_are_inert [OF oi(1)] by (elim exE conjE)
  with oi show ?thesis unfolding enabled by (intro exI [of _ oi] conjI)
qed

end
