(* ===== verification/Paths.thy ===== *)
theory Paths
  imports OrderConfig
begin

text \<open>
  What the code uses of \<open>std::path\<close> and of UTF-8. A path is its text; two paths with the same
  components are the same file. \<open>lexical_normalize\<close> and \<open>asset_rel\<close> are of
  \<^verbatim>\<open>crates/camp-core/src/formula/layers.rs\<close>.
\<close>

section \<open>Components\<close>

datatype component = RootDir | CurDir | ParentDir | Normal string

definition normal_parts :: "string list \<Rightarrow> component list" where
  "normal_parts ps =
     List.map_filter (\<lambda>p. if p = [] \<or> p = ''.'' then None else if p = ''..'' then Some ParentDir else Some (Normal p)) ps"

definition path_components :: "string \<Rightarrow> component list" where
  "path_components s =
     (if starts_with ''/'' s then RootDir # normal_parts (split_on CHR ''/'' s)
      else case split_on CHR ''/'' s of
        [] \<Rightarrow> []
      | p # ps \<Rightarrow> if p = ''.'' then CurDir # normal_parts ps else normal_parts (p # ps))"

definition path_starts_with :: "string \<Rightarrow> string \<Rightarrow> bool" where
  "path_starts_with p base \<longleftrightarrow> take (length (path_components base)) (path_components p) = path_components base"

fun component_text :: "component \<Rightarrow> string" where
  "component_text RootDir = ''/''"
| "component_text CurDir = ''.''"
| "component_text ParentDir = ''..''"
| "component_text (Normal p) = p"

definition path_of :: "component list \<Rightarrow> string" where
  "path_of cs = foldl (\<lambda>p c. path_join p (component_text c)) [] cs"

text \<open>\<open>Path::parent\<close>, \<open>Path::file_name\<close> and \<open>PathBuf::pop\<close>, which drop the last component.\<close>

definition path_parent :: "string \<Rightarrow> string option" where
  "path_parent s =
     (let cs = path_components s in
      if cs = [] \<or> last cs = RootDir then None else Some (path_of (butlast cs)))"

definition path_file_name :: "string \<Rightarrow> string option" where
  "path_file_name s =
     (case rev (path_components s) of Normal p # _ \<Rightarrow> Some p | _ \<Rightarrow> None)"

definition path_pop :: "component list \<Rightarrow> component list" where
  "path_pop cs = (if cs = [] \<or> last cs = RootDir then cs else butlast cs)"

fun normalize_step :: "component list \<Rightarrow> component \<Rightarrow> component list" where
  "normalize_step out ParentDir = path_pop out"
| "normalize_step out CurDir = out"
| "normalize_step out RootDir = [RootDir]"
| "normalize_step out (Normal p) = out @ [Normal p]"

definition lexical_normalize :: "string \<Rightarrow> string" where
  "lexical_normalize p = path_of (foldl normalize_step [] (path_components p))"

definition ASSET_PREFIX :: string where
  "ASSET_PREFIX = ''../assets/''"

definition asset_rel :: "string \<Rightarrow> string option" where
  "asset_rel raw =
     (case strip_prefix ASSET_PREFIX (replace_char BACKSLASH ''/'' raw) of
        None \<Rightarrow> None
      | Some rel \<Rightarrow> if rel = [] \<or> rel = ''.'' \<or> starts_with ''../'' rel then None else Some rel)"

section \<open>UTF-8\<close>

definition cont_byte :: "char \<Rightarrow> bool" where
  "cont_byte c \<longleftrightarrow> 128 \<le> byte c \<and> byte c \<le> 191"

definition second_ok :: "nat \<Rightarrow> nat \<Rightarrow> bool" where
  "second_ok a b \<longleftrightarrow>
     (if a = 224 then 160 \<le> b \<and> b \<le> 191
      else if a = 237 then 128 \<le> b \<and> b \<le> 159
      else if a = 240 then 144 \<le> b \<and> b \<le> 191
      else if a = 244 then 128 \<le> b \<and> b \<le> 143
      else 128 \<le> b \<and> b \<le> 191)"

fun utf8_valid :: "string \<Rightarrow> bool" where
  "utf8_valid [] = True"
| "utf8_valid (a # s) =
     (if byte a < 128 then utf8_valid s
      else if 194 \<le> byte a \<and> byte a \<le> 223
      then (case s of b # s' \<Rightarrow> cont_byte b \<and> utf8_valid s' | _ \<Rightarrow> False)
      else if 224 \<le> byte a \<and> byte a \<le> 239
      then (case s of b # c # s' \<Rightarrow> second_ok (byte a) (byte b) \<and> cont_byte c \<and> utf8_valid s' | _ \<Rightarrow> False)
      else if 240 \<le> byte a \<and> byte a \<le> 244
      then (case s of b # c # d # s' \<Rightarrow> second_ok (byte a) (byte b) \<and> cont_byte c \<and> cont_byte d \<and> utf8_valid s' | _ \<Rightarrow> False)
      else False)"

end
