(* ===== verification/Keys.thy ===== *)
theory Keys
  imports Formulas
begin

text \<open>
  The key table of formulas (\<^verbatim>\<open>crates/camp-core/src/formula/keys.rs\<close>): what camp does with a key
  depends on the table that holds it, and for a few keys on the value. The lemmas show that every
  key has exactly one fate and which keys refuse.

  A \<open>toml::Value\<close> is a datatype with the constructors of the crate; a float and a date are their
  text. A table is the list of its entries in the order of iteration. Parsing and printing TOML
  belong to the crate and are parameters.
\<close>

section \<open>TOML values\<close>

datatype toml =
    TString string
  | TInteger int
  | TFloat string
  | TBoolean bool
  | TDatetime string
  | TArray "toml list"
  | TTable "(string \<times> toml) list"

type_synonym toml_table = "(string \<times> toml) list"

record toml_lib =
  tl_parse :: "string \<Rightarrow> string + toml_table"
  tl_text :: "toml \<Rightarrow> string"

fun toml_str :: "toml \<Rightarrow> string option" where
  "toml_str (TString s) = Some s"
| "toml_str _ = None"

fun toml_bool :: "toml \<Rightarrow> bool option" where
  "toml_bool (TBoolean b) = Some b"
| "toml_bool _ = None"

fun toml_table_of :: "toml \<Rightarrow> toml_table option" where
  "toml_table_of (TTable t) = Some t"
| "toml_table_of _ = None"

section \<open>Sites and classes\<close>

datatype Site = Top | Step | Check | CheckInner | Retry | OnComplete | Drain | DrainItem

datatype Class = Accepted | Refused | DeadInGc | Annotation | Unknown

record Rung =
  rn_id :: string
  rn_top :: "string list"
  rn_step :: "string list"

definition RUNGS :: "Rung list" where
  "RUNGS =
     [\<lparr>rn_id = ''2a'', rn_top = [''contract''], rn_step = [''description_file'', ''metadata'']\<rparr>,
      \<lparr>rn_id = ''2b'', rn_top = [''vars''], rn_step = [''condition'']\<rparr>,
      \<lparr>rn_id = ''2c'', rn_top = [''extends''], rn_step = []\<rparr>,
      \<lparr>rn_id = ''2d'', rn_top = [''type'', ''template''], rn_step = [''expand'', ''expand_vars'', ''children'']\<rparr>,
      \<lparr>rn_id = ''2e'', rn_top = [], rn_step = [''drain'']\<rparr>]"

definition BASE_TOP :: "string list" where
  "BASE_TOP = [''description'', ''formula'', ''requires'', ''steps'']"

definition BASE_STEP :: "string list" where
  "BASE_STEP = [''assignee'', ''check'', ''description'', ''id'', ''needs'', ''on_complete'', ''retry'', ''timeout'', ''title'']"

definition DEAD_TOP :: "string list" where
  "DEAD_TOP = [''version'', ''target_required'', ''internal'', ''mode'', ''single_lane'', ''sling_container_mode'']"

definition ANNO_TOP :: "string list" where
  "ANNO_TOP = [''notes'', ''catalog'', ''metadata'']"

definition ANNO_STEP :: "string list" where
  "ANNO_STEP = [''notes'', ''tags'', ''priority'']"

definition REFUSED_TOP :: "string list" where
  "REFUSED_TOP = [''advice'', ''compose'', ''phase'', ''pointcuts'', ''pour'']"

definition REFUSED_STEP :: "string list" where
  "REFUSED_STEP = [''depends_on'', ''gate'', ''loop'', ''tally'', ''waits_for'']"

definition REFUSED_DRAIN :: "string list" where
  "REFUSED_DRAIN = [''continuation_group'', ''max_units'']"

definition accepted_step :: "string \<Rightarrow> bool" where
  "accepted_step key \<longleftrightarrow> key \<in> set BASE_STEP \<or> list_ex (\<lambda>r. key \<in> set (rn_step r)) RUNGS"

definition accepted_top :: "string \<Rightarrow> bool" where
  "accepted_top key \<longleftrightarrow> key \<in> set BASE_TOP \<or> list_ex (\<lambda>r. key \<in> set (rn_top r)) RUNGS"

definition among :: "string list \<Rightarrow> string \<Rightarrow> Class" where
  "among keys key = (if key \<in> set keys then Accepted else Unknown)"

fun classify :: "Site \<Rightarrow> string \<Rightarrow> Class" where
  "classify Top key =
     (if key \<in> set REFUSED_TOP then Refused
      else if accepted_top key then Accepted
      else if key \<in> set DEAD_TOP then DeadInGc
      else if key \<in> set ANNO_TOP then Annotation
      else Unknown)"
| "classify Step key =
     (if key \<in> set REFUSED_STEP then Refused
      else if accepted_step key then Accepted
      else if key \<in> set ANNO_STEP then Annotation
      else Unknown)"
| "classify Check key = among [''check'', ''max_attempts''] key"
| "classify CheckInner key = among [''mode'', ''path'', ''timeout''] key"
| "classify Retry key = among [''max_attempts'', ''on_exhausted''] key"
| "classify OnComplete key = among [''bond'', ''for_each'', ''parallel'', ''sequential'', ''vars''] key"
| "classify Drain key =
     (if key \<in> set REFUSED_DRAIN then Refused
      else among [''context'', ''formula'', ''item'', ''member_access'', ''on_item_failure''] key)"
| "classify DrainItem key = among [''single_lane''] key"

section \<open>Refusals\<close>

record Refusal =
  re_construct :: string
  re_key :: string
  re_reason :: message
  re_step :: "string option"

definition refusal :: "string \<Rightarrow> string \<Rightarrow> message \<Rightarrow> Refusal" where
  "refusal construct key reason =
     \<lparr>re_construct = construct, re_key = key, re_reason = reason, re_step = None\<rparr>"

text \<open>The rules on the metadata of a step. \<open>None\<close> is no rule: the key-only rules do not apply either.\<close>

definition refuse_metadata :: "toml \<Rightarrow> string \<Rightarrow> Refusal option" where
  "refuse_metadata value at =
     (case toml_table_of value of
        None \<Rightarrow> None
      | Some m \<Rightarrow>
          if Option.bind (map_of m ''gc.kind'') toml_str = Some ''scope''
          then Some (refusal at ''gc.kind''
            (Msg ''gc.kind = scope marks a Gas City scope-check step; camp does not implement scope checks'' []))
          else map_option (\<lambda>scoped. refusal at scoped
            (Msg ''{scoped} is Gas City scope-check metadata; camp does not implement scope checks'' [scoped]))
            (find (starts_with ''gc.scope_'') (map fst m)))"

definition refuse_key :: "toml_lib \<Rightarrow> Site \<Rightarrow> string \<Rightarrow> toml \<Rightarrow> string \<Rightarrow> Refusal option" where
  "refuse_key T site key value at =
     (if classify site key \<noteq> Refused then None
      else Some (refusal at key
        (if key = ''tally''
         then Msg ''tally was removed from Gas City formula v2; neither camp nor current gc accepts it'' []
         else if key = ''phase''
         then (case toml_str value of
                 None \<Rightarrow> Msg ''phase ({}) is a Gas City molecule-phase key; camp has no phase machinery'' [tl_text T value]
               | Some s \<Rightarrow> Msg ''phase (= {s:?}) is a Gas City molecule-phase key; camp has no phase machinery'' [s])
         else Msg ''{key} is a Gas City construct camp does not implement'' [key])))"

definition refuse :: "toml_lib \<Rightarrow> Site \<Rightarrow> string \<Rightarrow> toml \<Rightarrow> string \<Rightarrow> Refusal option" where
  "refuse T site key value at =
     (if site = Step \<and> key = ''metadata'' then refuse_metadata value at
      else if site = Drain \<and> key = ''context'' \<and> toml_str value = Some ''shared''
      then Some (refusal at ''context''
        (Msg ''context = shared is a same-session drain: camp has no same-session execution'' []))
      else refuse_key T site key value at)"

text \<open>
  Every refused key refuses, whatever its value, so that the \<open>internal\<close> violation of the walk never
  appears.
\<close>

lemma refused_refuses: "classify site key = Refused \<Longrightarrow> refuse T site key value at \<noteq> None"
proof -
  assume c: "classify site key = Refused"
  have "classify Step ''metadata'' = Accepted" by code_simp
  then have "\<not> (site = Step \<and> key = ''metadata'')" using c by auto
  then show ?thesis using c by (auto simp: refuse_def refuse_key_def)
qed

end
