(* ===== verification/Walk.thy ===== *)
theory Walk
  imports Keys Validate Sources
begin

text \<open>
  The walk of a formula file (\<^verbatim>\<open>crates/camp-core/src/formula/parse.rs\<close>) and its strict entry
  \<open>parse_and_validate\<close> (\<^verbatim>\<open>formula/mod.rs\<close>). The walk collects violations, refusals and ignored
  keys while it extracts what it can; the lemmas show that a walk without violations lost nothing
  that the rules look at, so that an accepted file is a formula the runtime can execute.
\<close>

section \<open>Findings\<close>

text \<open>
  The lists of \<open>Ctx\<close>, as what is appended to them: a function that takes them by reference returns
  its value with its findings.
\<close>

record findings =
  fi_violations :: "Violation list"
  fi_refusals :: "Refusal list"
  fi_ignored :: "message list"

type_synonym 'a found = "'a \<times> findings"

definition nothing :: findings where
  "nothing = \<lparr>fi_violations = [], fi_refusals = [], fi_ignored = []\<rparr>"

definition after :: "findings \<Rightarrow> findings \<Rightarrow> findings" where
  "after f g =
     \<lparr>fi_violations = fi_violations f @ fi_violations g, fi_refusals = fi_refusals f @ fi_refusals g,
      fi_ignored = fi_ignored f @ fi_ignored g\<rparr>"

definition complain :: "Violation \<Rightarrow> findings" where
  "complain v = nothing\<lparr>fi_violations := [v]\<rparr>"

definition give :: "'a \<Rightarrow> 'a found" where
  "give x = (x, nothing)"

definition note_all :: "findings list \<Rightarrow> findings" where
  "note_all fs = foldr after fs nothing"

definition also_found :: "'a found \<Rightarrow> ('a \<Rightarrow> 'b found) \<Rightarrow> 'b found" where
  "also_found m k = (case m of (x, f) \<Rightarrow> case k x of (y, g) \<Rightarrow> (y, after f g))"

definition clean :: "findings \<Rightarrow> bool" where
  "clean f \<longleftrightarrow> fi_violations f = []"

lemma clean_simps [simp]:
  "clean nothing" "\<not> clean (complain v)" "clean (after f g) \<longleftrightarrow> clean f \<and> clean g"
  "clean (note_all fs) \<longleftrightarrow> (\<forall>f \<in> set fs. clean f)"
  by (simp_all add: clean_def nothing_def complain_def after_def)
    (induction fs, auto simp: note_all_def nothing_def after_def)

lemma give_simps [simp]: "fst (give x) = x" "snd (give x) = nothing"
  by (simp_all add: give_def)

lemma also_found_simps [simp]:
  "fst (also_found m k) = fst (k (fst m))" "snd (also_found m k) = after (snd m) (snd (k (fst m)))"
  by (simp_all add: also_found_def split: prod.split)

lemma also_found_cong [fundef_cong]:
  "m = m' \<Longrightarrow> (\<And>x. x = fst m' \<Longrightarrow> k x = k' x) \<Longrightarrow> also_found m k = also_found m' k'"
  by (cases m') (simp add: also_found_def)

section \<open>The key table at a site\<close>

definition unknown :: "string \<Rightarrow> string \<Rightarrow> Violation" where
  "unknown construct key = violation construct (Msg ''unknown key {key}: camp's own formulas accept no unknown keys'' [key])"

definition wrong_type :: "string \<Rightarrow> string \<Rightarrow> Violation" where
  "wrong_type construct expected = violation construct (Msg ''{construct} must be {expected}'' [construct, expected])"

definition sorted_keys :: "toml_table \<Rightarrow> string list" where
  "sorted_keys t = sort (map fst t)"

definition key_fate ::
    "toml_lib \<Rightarrow> Origin \<Rightarrow> Site \<Rightarrow> toml_table \<Rightarrow> string \<Rightarrow> string option \<Rightarrow> string \<Rightarrow> findings" where
  "key_fate T origin site table pre step_id key =
     (let at = (if pre = [] then key else pre @ ''.'' @ key);
          violation_at = (if site = Top \<or> site = Step then key else at)
      in case map_of table key of
           None \<Rightarrow> nothing
         | Some value \<Rightarrow>
      (case refuse T site key value at of
         Some r \<Rightarrow> nothing\<lparr>fi_refusals := [r\<lparr>re_step := step_id\<rparr>]\<rparr>
       | None \<Rightarrow>
           (case classify site key of
              Accepted \<Rightarrow> nothing
            | Refused \<Rightarrow> complain (violation violation_at
                (Msg ''internal: {key} classifies as Refused but produced no refusal'' [key]))
            | DeadInGc \<Rightarrow> nothing\<lparr>fi_ignored := [Msg ''{at}: {key} is dead in Gas City - ignored'' [at, key]]\<rparr>
            | Annotation \<Rightarrow> nothing
            | Unknown \<Rightarrow>
                (case origin of
                   Imported \<Rightarrow> nothing\<lparr>fi_ignored := [Msg ''{at}: unknown key {key} in an imported pack - ignored'' [at, key]]\<rparr>
                 | CampLocal \<Rightarrow> complain (unknown violation_at key)))))"

definition walk_keys ::
    "toml_lib \<Rightarrow> Origin \<Rightarrow> Site \<Rightarrow> toml_table \<Rightarrow> string \<Rightarrow> string option \<Rightarrow> unit found" where
  "walk_keys T origin site table pre step_id =
     ((), note_all (map (key_fate T origin site table pre step_id) (sorted_keys table)))"

section \<open>Values\<close>

definition get_string :: "toml_table \<Rightarrow> string \<Rightarrow> string \<Rightarrow> string option found" where
  "get_string table key construct =
     (case map_of table key of
        None \<Rightarrow> give None
      | Some (TString s) \<Rightarrow> give (Some s)
      | Some _ \<Rightarrow> (None, complain (wrong_type construct ''a string'')))"

definition get_string_array :: "toml_table \<Rightarrow> string \<Rightarrow> string \<Rightarrow> string list found" where
  "get_string_array table key construct =
     (case map_of table key of
        None \<Rightarrow> give []
      | Some (TArray items) \<Rightarrow>
          if list_all (\<lambda>i. toml_str i \<noteq> None) items then give (List.map_filter toml_str items)
          else ([], complain (wrong_type construct ''an array of strings''))
      | Some _ \<Rightarrow> ([], complain (wrong_type construct ''an array of strings'')))"

fun string_only :: "toml_table \<Rightarrow> (string \<times> string) list" where
  "string_only [] = []"
| "string_only ((k, v) # t) = (case toml_str v of None \<Rightarrow> string_only t | Some s \<Rightarrow> (k, s) # string_only t)"

definition string_entries :: "string \<Rightarrow> toml_table \<Rightarrow> (string \<times> string) list found" where
  "string_entries construct t =
     (btree_extend [] (string_only t),
      note_all (map (\<lambda>(k, v). if toml_str v = None then complain (wrong_type (construct @ ''.'' @ k) ''a string'')
                              else nothing) t))"

definition get_string_map :: "toml_table \<Rightarrow> string \<Rightarrow> string \<Rightarrow> (string \<times> string) list found" where
  "get_string_map table key construct =
     (case map_of table key of
        None \<Rightarrow> give []
      | Some (TTable t) \<Rightarrow> string_entries construct t
      | Some _ \<Rightarrow> ([], complain (wrong_type construct ''a table of strings'')))"

definition get_boolean :: "toml_table \<Rightarrow> string \<Rightarrow> string \<Rightarrow> bool option found" where
  "get_boolean table key construct =
     (case map_of table key of
        None \<Rightarrow> give None
      | Some (TBoolean b) \<Rightarrow> give (Some b)
      | Some _ \<Rightarrow> (None, complain (wrong_type construct ''a boolean'')))"

section \<open>Durations\<close>

definition u64_max :: int where
  "u64_max = 2 ^ 64 - 1"

definition UNITS :: "(string \<times> nat) list" where
  "UNITS = [(''ms'', 1), (''s'', 1000), (''m'', 60000), (''h'', 3600000)]"

text \<open>\<open>max_by_key\<close> gives the last of the longest.\<close>

definition longest_unit :: "string \<Rightarrow> (string \<times> nat) option" where
  "longest_unit tail =
     (case filter (\<lambda>(u, _). starts_with u tail) UNITS of
        [] \<Rightarrow> None
      | u # us \<Rightarrow> Some (foldl (\<lambda>best v. if length (fst best) \<le> length (fst v) then v else best) u us))"

definition invalid_duration :: "string \<Rightarrow> string \<Rightarrow> message" where
  "invalid_duration s what = Msg (''invalid duration {s:?}: '' @ what) [s]"

definition duration_segment :: "string \<Rightarrow> string \<Rightarrow> nat \<Rightarrow> message + (nat \<times> string)" where
  "duration_segment s rest acc =
     (let digits = takeWhile is_digit rest; tail = dropWhile is_digit rest; value = dec_value digits in
      if digits = [] then Inl (invalid_duration s ''expected digits'')
      else if u64_max < int value then Inl (invalid_duration s ''number too large to fit in target type'')
      else case longest_unit tail of
        None \<Rightarrow> Inl (invalid_duration s ''expected a unit (ms|s|m|h)'')
      | Some (unit, factor) \<Rightarrow>
          if u64_max < int (value * factor) \<or> u64_max < int (acc + value * factor) then Inl (invalid_duration s ''overflow'')
          else Inr (acc + value * factor, drop (length unit) tail))"

lemma dropWhile_length: "length (dropWhile p xs) \<le> length xs"
  by (simp add: dropWhile_eq_drop)

lemma duration_segment_shorter: "duration_segment s rest acc = Inr (t, rest') \<Longrightarrow> length rest' < length rest"
proof -
  assume r: "duration_segment s rest acc = Inr (t, rest')"
  then have "takeWhile is_digit rest \<noteq> []" by (auto simp: duration_segment_def Let_def)
  then have "length (dropWhile is_digit rest) < length rest"
    by (cases rest) (auto simp: dropWhile_length less_Suc_eq_le split: if_splits)
  with r show ?thesis by (auto simp: duration_segment_def Let_def split: if_splits option.splits)
qed

function duration_loop :: "string \<Rightarrow> string \<Rightarrow> nat \<Rightarrow> message + nat" where
  "duration_loop s rest acc =
     (if rest = [] then Inr acc
      else case duration_segment s rest acc of
        Inl e \<Rightarrow> Inl e
      | Inr (acc2, rest') \<Rightarrow> duration_loop s rest' acc2)"
  by pat_completeness auto

termination duration_loop
  by (relation "measure (\<lambda>(s, rest, acc). length rest)") (auto dest: duration_segment_shorter)

declare duration_loop.simps [simp del]

text \<open>\<open>parse_duration\<close> of this module; the result is in milliseconds.\<close>

definition parse_duration_ms :: "string \<Rightarrow> message + nat" where
  "parse_duration_ms s =
     (if s = [] then Inl (Msg ''empty duration'' [])
      else case duration_loop s s 0 of
        Inl e \<Rightarrow> Inl e
      | Inr acc \<Rightarrow> if acc = 0 then Inl (invalid_duration s ''must be greater than zero'') else Inr acc)"

definition get_duration :: "toml_table \<Rightarrow> string \<Rightarrow> string \<Rightarrow> nat option found" where
  "get_duration table key construct =
     also_found (get_string table key construct) (\<lambda>text.
       case text of
         None \<Rightarrow> give None
       | Some t \<Rightarrow>
           (case parse_duration_ms t of
              Inr ms \<Rightarrow> give (Some (ms * 1000000))
            | Inl m \<Rightarrow> (None, complain (violation construct m))))"

definition get_max_attempts :: "toml_table \<Rightarrow> string \<Rightarrow> nat found" where
  "get_max_attempts table construct =
     (case map_of table ''max_attempts'' of
        None \<Rightarrow> (1, complain (violation construct (Msg ''max_attempts is required and must be >= 1'' [])))
      | Some (TInteger n) \<Rightarrow>
          if 1 \<le> n \<and> n \<le> 2 ^ 32 - 1 then give (nat n)
          else (1, complain (wrong_type construct ''an integer >= 1''))
      | Some _ \<Rightarrow> (1, complain (wrong_type construct ''an integer >= 1'')))"

section \<open>The tables of a step\<close>

definition drain_item :: "toml_lib \<Rightarrow> Origin \<Rightarrow> toml_table \<Rightarrow> string \<Rightarrow> string option \<Rightarrow> bool found" where
  "drain_item T origin drain construct step_id =
     (case map_of drain ''item'' of
        None \<Rightarrow> give False
      | Some (TTable item) \<Rightarrow>
          also_found (walk_keys T origin DrainItem item (construct @ ''.item'') step_id) (\<lambda>_.
          also_found (get_boolean item ''single_lane'' (construct @ ''.item.single_lane'')) (\<lambda>b.
            give (b = Some True)))
      | Some _ \<Rightarrow> (False, complain (wrong_type (construct @ ''.item'') ''a table'')))"

definition drain_formula_name :: "toml_table \<Rightarrow> string \<Rightarrow> string option found" where
  "drain_formula_name drain construct =
     also_found (get_string drain ''formula'' (construct @ ''.formula'')) (\<lambda>f.
       case f of
         None \<Rightarrow> (None, complain (violation (construct @ ''.formula'')
           (Msg ''a drain must name the formula it instantiates per member'' [])))
       | Some name \<Rightarrow>
           if name = [] then (None, complain (violation (construct @ ''.formula'')
             (Msg ''a drain must name the formula it instantiates per member'' [])))
           else if str_contains ''{{'' name then (None, complain (violation (construct @ ''.formula'')
             (Msg ''templated item formula names are not supported: {formula:?}'' [name])))
           else give (Some name))"

definition parsed_or ::
    "toml_table \<Rightarrow> string \<Rightarrow> string \<Rightarrow> 'a \<Rightarrow> (string \<Rightarrow> 'a option) \<Rightarrow> string \<Rightarrow> 'a option found" where
  "parsed_or table key construct dflt parse what =
     also_found (get_string table key construct) (\<lambda>s.
       case s of
         None \<Rightarrow> give (Some dflt)
       | Some text \<Rightarrow>
           (case parse text of
              None \<Rightarrow> (None, complain (violation construct (Msg what [text])))
            | Some v \<Rightarrow> give (Some v)))"

definition walk_drain ::
    "toml_lib \<Rightarrow> Origin \<Rightarrow> toml_table \<Rightarrow> string \<Rightarrow> string option \<Rightarrow> Drain option found" where
  "walk_drain T origin step construct step_id =
     (case map_of step ''drain'' of
        None \<Rightarrow> give None
      | Some (TTable drain) \<Rightarrow>
          also_found (walk_keys T origin Drain drain construct step_id) (\<lambda>_.
          also_found (drain_item T origin drain construct step_id) (\<lambda>single_lane.
          also_found (get_string drain ''context'' (construct @ ''.context'')) (\<lambda>_.
          also_found (drain_formula_name drain construct) (\<lambda>formula.
          case formula of None \<Rightarrow> give None | Some f \<Rightarrow>
          also_found (parsed_or drain ''member_access'' (construct @ ''.member_access'') Read access_parse
            ''member_access {s:?} is not legal; use read or exclusive'') (\<lambda>access.
          case access of None \<Rightarrow> give None | Some a \<Rightarrow>
          also_found (parsed_or drain ''on_item_failure'' (construct @ ''.on_item_failure'') Continue failure_parse
            ''on_item_failure {s:?} is not legal; use continue or skip_remaining'') (\<lambda>failure.
          case failure of None \<Rightarrow> give None | Some x \<Rightarrow>
            give (Some \<lparr>dn_context = Separate, dn_formula = f, dn_member_access = a, dn_on_item_failure = x,
                        dn_item = \<lparr>di_single_lane = single_lane\<rparr>\<rparr>)))))))
      | Some _ \<Rightarrow> (None, complain (wrong_type construct ''a table'')))"

definition check_mode :: "toml_table \<Rightarrow> string \<Rightarrow> CheckMode option found" where
  "check_mode inner construct =
     also_found (get_string inner ''mode'' construct) (\<lambda>mode.
       case mode of
         None \<Rightarrow> (None, complain (violation construct (Msg ''check mode is required; only exec is supported'' [])))
       | Some m \<Rightarrow>
           if m = ''exec'' then give (Some Exec)
           else (None, complain (violation construct (Msg ''check mode {m:?} is not supported; only exec is'' [m]))))"

definition check_path :: "toml_table \<Rightarrow> string \<Rightarrow> string option found" where
  "check_path inner construct =
     also_found (get_string inner ''path'' construct) (\<lambda>path.
       if path = None \<or> path = Some []
       then (None, complain (violation construct (Msg ''check path is required and must be non-empty'' [])))
       else give path)"

definition walk_check :: "toml_lib \<Rightarrow> Origin \<Rightarrow> toml_table \<Rightarrow> string \<Rightarrow> Check option found" where
  "walk_check T origin step construct =
     (case map_of step ''check'' of
        None \<Rightarrow> give None
      | Some (TTable ct) \<Rightarrow>
          also_found (walk_keys T origin Check ct construct None) (\<lambda>_.
          also_found (get_max_attempts ct (construct @ ''.max_attempts'')) (\<lambda>max_attempts.
          case Option.bind (map_of ct ''check'') toml_table_of of
            None \<Rightarrow> (None, complain (violation (construct @ ''.check'')
              (Msg ''check requires an inner [steps.check.check] table with mode = exec and a path'' [])))
          | Some inner \<Rightarrow>
              also_found (walk_keys T origin CheckInner inner (construct @ ''.check'') None) (\<lambda>_.
              also_found (check_mode inner (construct @ ''.check.mode'')) (\<lambda>mode.
              case mode of None \<Rightarrow> give None | Some m \<Rightarrow>
              also_found (check_path inner (construct @ ''.check.path'')) (\<lambda>path.
              case path of None \<Rightarrow> give None | Some p \<Rightarrow>
              also_found (get_duration inner ''timeout'' (construct @ ''.check.timeout'')) (\<lambda>timeout.
                give (Some \<lparr>ck_max_attempts = max_attempts, ck_mode = m, ck_path = p, ck_timeout = timeout\<rparr>)))))))
      | Some _ \<Rightarrow> (None, complain (wrong_type construct ''a table'')))"

definition walk_retry :: "toml_lib \<Rightarrow> Origin \<Rightarrow> toml_table \<Rightarrow> string \<Rightarrow> RawRetry option found" where
  "walk_retry T origin step construct =
     (case map_of step ''retry'' of
        None \<Rightarrow> give None
      | Some (TTable rt) \<Rightarrow>
          also_found (walk_keys T origin Retry rt construct None) (\<lambda>_.
          also_found (get_max_attempts rt (construct @ ''.max_attempts'')) (\<lambda>max_attempts.
          also_found (get_string rt ''on_exhausted'' (construct @ ''.on_exhausted'')) (\<lambda>on_exhausted.
            give (Some \<lparr>rr_max_attempts = max_attempts, rr_on_exhausted = on_exhausted\<rparr>))))
      | Some _ \<Rightarrow> (None, complain (wrong_type construct ''a table'')))"

definition walk_on_complete :: "toml_lib \<Rightarrow> Origin \<Rightarrow> toml_table \<Rightarrow> string \<Rightarrow> OnComplete option found" where
  "walk_on_complete T origin step construct =
     (case map_of step ''on_complete'' of
        None \<Rightarrow> give None
      | Some (TTable oc) \<Rightarrow>
          also_found (walk_keys T origin OnComplete oc construct None) (\<lambda>_.
          also_found (get_string oc ''for_each'' (construct @ ''.for_each'')) (\<lambda>for_each.
          also_found (get_string oc ''bond'' (construct @ ''.bond'')) (\<lambda>bond.
          also_found (get_boolean oc ''parallel'' (construct @ ''.parallel'')) (\<lambda>parallel_key.
          also_found (get_boolean oc ''sequential'' (construct @ ''.sequential'')) (\<lambda>sequential_key.
          also_found ((), if parallel_key \<noteq> None \<and> sequential_key \<noteq> None
            then complain (violation construct (Msg ''parallel and sequential are mutually exclusive'' []))
            else nothing) (\<lambda>_.
          also_found (get_string_map oc ''vars'' (construct @ ''.vars'')) (\<lambda>vars.
            let parallel = (case (parallel_key, sequential_key) of
                  (Some p, None) \<Rightarrow> p | (None, Some s) \<Rightarrow> \<not> s | _ \<Rightarrow> True) in
            case (for_each, bond) of
              (Some f, Some b) \<Rightarrow>
                give (Some \<lparr>oc_for_each = f, oc_bond = b, oc_vars = vars, oc_parallel = parallel\<rparr>)
            | (None, None) \<Rightarrow> (None, complain (violation construct
                (Msg ''for_each and bond are required and must be set together'' [])))
            | _ \<Rightarrow> (None, complain (violation construct (Msg ''for_each and bond must be set together'' []))))))))))
      | Some _ \<Rightarrow> (None, complain (wrong_type construct ''a table'')))"

section \<open>Steps\<close>

definition walk_id :: "nat \<Rightarrow> toml_table \<Rightarrow> string option found" where
  "walk_id index step = get_string step ''id'' (''steps['' @ show_nat index @ ''].id'')"

definition walk_loc :: "nat \<Rightarrow> string option \<Rightarrow> string" where
  "walk_loc index sid =
     (case sid of Some i \<Rightarrow> ''steps.'' @ i | None \<Rightarrow> ''steps['' @ show_nat index @ '']'')"

text \<open>A step after its identity, its keys and its children.\<close>

definition walk_fields ::
    "toml_lib \<Rightarrow> Origin \<Rightarrow> nat \<Rightarrow> toml_table \<Rightarrow> string option \<Rightarrow> RawStep list \<Rightarrow> RawStep found" where
  "walk_fields T origin index step sid children =
     (let at = (\<lambda>field. walk_loc index sid @ ''.'' @ field);
          has = (\<lambda>key. map_of step key \<noteq> None) in
      also_found (get_string step ''title'' (at ''title'')) (\<lambda>title.
      also_found (get_string step ''description'' (at ''description'')) (\<lambda>description.
      also_found (get_string step ''description_file'' (at ''description_file'')) (\<lambda>description_file.
      also_found (get_string_map step ''metadata'' (at ''metadata'')) (\<lambda>metadata.
      also_found (get_string step ''condition'' (at ''condition'')) (\<lambda>condition.
      also_found (get_string step ''expand'' (at ''expand'')) (\<lambda>expand.
      also_found (get_string_map step ''expand_vars'' (at ''expand_vars'')) (\<lambda>expand_vars.
      also_found (get_string_array step ''needs'' (at ''needs'')) (\<lambda>needs.
      also_found (get_string step ''assignee'' (at ''assignee'')) (\<lambda>assignee.
      also_found (get_duration step ''timeout'' (at ''timeout'')) (\<lambda>timeout.
      also_found (walk_check T origin step (at ''check'')) (\<lambda>check.
      also_found (walk_retry T origin step (at ''retry'')) (\<lambda>retry.
      also_found (walk_on_complete T origin step (at ''on_complete'')) (\<lambda>on_complete.
      also_found (walk_drain T origin step (at ''drain'') sid) (\<lambda>drain.
        give (RawStep index sid title description description_file metadata condition None expand expand_vars
          children drain needs assignee timeout check retry on_complete
          (has ''check'') (has ''retry'') (has ''on_complete'') (has ''drain'')))))))))))))))))"

lemma table_entry_smaller: "map_of t k = Some v \<Longrightarrow> size v < size (TTable t)"
proof (induction t)
  case (Cons kv t)
  then show ?case by (cases kv) (auto split: if_splits)
qed simp

text \<open>
  \<open>walk_step_array\<close> and \<open>walk_step\<close>, one through the other. The location of an entry that is no
  table is its place under the array.
\<close>

function (sequential)
  walk_items :: "toml_lib \<Rightarrow> Origin \<Rightarrow> string \<Rightarrow> nat \<Rightarrow> toml list \<Rightarrow> RawStep list found" and
  walk_step :: "toml_lib \<Rightarrow> Origin \<Rightarrow> nat \<Rightarrow> toml_table \<Rightarrow> RawStep found" where
  "walk_items T origin place index [] = give []"
| "walk_items T origin place index (TTable step # items) =
     also_found (walk_step T origin index step) (\<lambda>s.
     also_found (walk_items T origin place (Suc index) items) (\<lambda>ss. give (s # ss)))"
| "walk_items T origin place index (_ # items) =
     also_found ((), complain (wrong_type (place @ ''['' @ show_nat index @ '']'') ''a table'')) (\<lambda>_.
       walk_items T origin place (Suc index) items)"
| "walk_step T origin index step =
     also_found (walk_id index step) (\<lambda>sid.
     also_found (walk_keys T origin Step step (walk_loc index sid) sid) (\<lambda>_.
     also_found (case map_of step ''children'' of
         None \<Rightarrow> give []
       | Some (TArray items) \<Rightarrow> walk_items T origin (walk_loc index sid @ ''.children'') 0 items
       | Some _ \<Rightarrow> ([], complain (wrong_type (walk_loc index sid @ ''.children'') ''an array of tables''))) (\<lambda>children.
       walk_fields T origin index step sid children)))"
  by pat_completeness auto

termination walk_items
  by (relation "measure (\<lambda>x. case x of
      Inl (T, origin, place, index, items) \<Rightarrow> size (TArray items)
    | Inr (T, origin, index, step) \<Rightarrow> size (TTable step))")
    (auto dest: table_entry_smaller)

definition walk_step_array :: "toml_lib \<Rightarrow> Origin \<Rightarrow> toml_table \<Rightarrow> string \<Rightarrow> string \<Rightarrow> RawStep list found" where
  "walk_step_array T origin table key loc =
     (let at = (if loc = [] then key else loc @ ''.'' @ key) in
      case map_of table key of
        None \<Rightarrow> give []
      | Some (TArray items) \<Rightarrow> walk_items T origin (loc @ ''.'' @ key) 0 items
      | Some _ \<Rightarrow> ([], complain (wrong_type at ''an array of tables'')))"

definition walk_steps :: "toml_lib \<Rightarrow> Origin \<Rightarrow> toml_table \<Rightarrow> RawStep list found" where
  "walk_steps T origin table =
     (case map_of table ''steps'' of
        None \<Rightarrow> give []
      | Some (TArray items) \<Rightarrow> walk_items T origin ''steps'' 0 items
      | Some _ \<Rightarrow> ([], complain (wrong_type ''steps'' ''an array of tables'')))"

section \<open>The formula\<close>

definition walk_requires :: "toml_table \<Rightarrow> string option found" where
  "walk_requires table =
     (case map_of table ''requires'' of
        None \<Rightarrow> give None
      | Some (TTable requires) \<Rightarrow>
          also_found ((), note_all (map (\<lambda>key.
              if key \<noteq> ''formula_compiler''
              then complain (violation (''requires.'' @ key)
                (Msg ''unknown formula requirement {key}; supported requirements: formula_compiler'' [key]))
              else nothing) (sorted_keys requires))) (\<lambda>_.
            get_string requires ''formula_compiler'' ''requires.formula_compiler'')
      | Some _ \<Rightarrow> (None, complain (wrong_type ''requires'' ''a table'')))"

definition walk_extends :: "toml_table \<Rightarrow> string list found" where
  "walk_extends table =
     (case map_of table ''extends'' of
        None \<Rightarrow> give []
      | Some (TString s) \<Rightarrow> give [s]
      | Some (TArray _) \<Rightarrow> get_string_array table ''extends'' ''extends''
      | Some _ \<Rightarrow> ([], complain (wrong_type ''extends'' ''a formula name or a list of them'')))"

definition walk_var :: "string \<Rightarrow> toml \<Rightarrow> string option option found" where
  "walk_var name value =
     (case value of
        TString s \<Rightarrow> give (Some (Some s))
      | TTable def \<Rightarrow>
          also_found (get_string def ''default'' (''vars.'' @ name @ ''.default'')) (\<lambda>d. give (Some d))
      | _ \<Rightarrow> (None, complain (wrong_type (''vars.'' @ name) ''a string or a table with a default'')))"

definition walk_vars :: "toml_table \<Rightarrow> (string \<times> string option) list found" where
  "walk_vars table =
     (case map_of table ''vars'' of
        None \<Rightarrow> give []
      | Some (TTable t) \<Rightarrow>
          (btree_extend [] (List.map_filter (\<lambda>(k, v). map_option (Pair k) (fst (walk_var k v))) t),
           note_all (map (\<lambda>(k, v). snd (walk_var k v)) t))
      | Some _ \<Rightarrow> ([], complain (wrong_type ''vars'' ''a table'')))"

definition empty_formula :: RawFormula where
  "empty_formula =
     \<lparr>rf_name = None, rf_description = None, rf_formula_compiler = None, rf_contract = None, rf_kind = None,
      rf_vars = [], rf_extends = [], rf_template = [], rf_steps = []\<rparr>"

definition walk_table :: "toml_lib \<Rightarrow> Origin \<Rightarrow> toml_table \<Rightarrow> RawFormula found" where
  "walk_table T origin table =
     also_found (walk_keys T origin Top table [] None) (\<lambda>_.
     also_found (get_string table ''formula'' ''formula'') (\<lambda>name.
     also_found (get_string table ''description'' ''description'') (\<lambda>description.
     also_found (get_string table ''contract'' ''contract'') (\<lambda>contract.
     also_found (get_string table ''type'' ''type'') (\<lambda>kind.
     also_found (walk_requires table) (\<lambda>formula_compiler.
     also_found (walk_vars table) (\<lambda>vars.
     also_found (walk_extends table) (\<lambda>extends.
     also_found (walk_step_array T origin table ''template'' []) (\<lambda>template.
     also_found (walk_steps T origin table) (\<lambda>steps.
       give \<lparr>rf_name = name, rf_description = description, rf_formula_compiler = formula_compiler,
             rf_contract = contract, rf_kind = kind, rf_vars = vars, rf_extends = extends,
             rf_template = template, rf_steps = steps\<rparr>))))))))))"

text \<open>The result of a walk: the formula and the findings (\<open>Walked\<close>).\<close>

definition walk :: "toml_lib \<Rightarrow> string \<Rightarrow> Origin \<Rightarrow> RawFormula found" where
  "walk T text origin =
     (case tl_parse T text of
        Inl e \<Rightarrow> (empty_formula, complain (violation ''toml'' (Msg ''{}'' [e])))
      | Inr table \<Rightarrow> walk_table T origin table)"

record FormulaError =
  fe_path :: string
  fe_violations :: "Violation list"
  fe_refusals :: "Refusal list"

text \<open>The file is what reading gives, an error or the text; its name is what \<open>formula_stem\<close> takes.\<close>

definition parse_and_validate ::
    "toml_lib \<Rightarrow> ('r, 'v) semver \<Rightarrow> (string \<Rightarrow> string + string) \<Rightarrow> (string \<Rightarrow> string option) \<Rightarrow> string \<Rightarrow>
     FormulaError + Formula" where
  "parse_and_validate T V read file_name path =
     (case read path of
        Inl e \<Rightarrow> Inl \<lparr>fe_path = path, fe_violations = [violation ''file'' (Msg ''cannot read: {e}'' [e])], fe_refusals = []\<rparr>
      | Inr source \<Rightarrow>
          (case walk T source CampLocal of (raw, f) \<Rightarrow>
           let violations = fi_violations f @ check V raw (formula_stem (file_name path)) in
           if violations = [] \<and> fi_refusals f = [] then Inr (assemble raw source (rf_vars raw))
           else Inl \<lparr>fe_path = path, fe_violations = violations, fe_refusals = fi_refusals f\<rparr>))"

section \<open>A walk without violations loses nothing\<close>

lemma child_smaller: "c \<in> set (rs_children s) \<Longrightarrow> size c < size s"
  by (cases s) (auto dest: size_list_estimation [of _ _ _ size] simp: less_Suc_eq_le le_add1 trans_le_add1 trans_le_add2 size_list_estimation')

text \<open>A step with the steps below it, as \<open>flatten_into\<close> lists them.\<close>

function all_steps :: "RawStep \<Rightarrow> RawStep list" where
  "all_steps s = s # concat (map all_steps (rs_children s))"
  by pat_completeness auto

termination all_steps
  by (relation "measure size") (simp_all add: child_smaller)

declare all_steps.simps [simp del]

definition present_step :: "RawStep \<Rightarrow> bool" where
  "present_step s \<longleftrightarrow>
     rs_has_check s = (rs_check s \<noteq> None) \<and> rs_has_retry s = (rs_retry s \<noteq> None) \<and>
     rs_has_on_complete s = (rs_on_complete s \<noteq> None) \<and> rs_has_drain s = (rs_drain s \<noteq> None)"

lemma walked_iff: "walked raw \<longleftrightarrow> (\<forall>s \<in> set (rf_steps raw). present_step s)"
  by (simp add: walked_def present_step_def)

lemma drain_formula_name_present: "clean (snd (drain_formula_name d c)) \<Longrightarrow> \<exists>f. fst (drain_formula_name d c) = Some f"
  by (auto simp: drain_formula_name_def split: option.splits if_splits)

lemma parsed_or_present: "clean (snd (parsed_or t k c d p w)) \<Longrightarrow> \<exists>v. fst (parsed_or t k c d p w) = Some v"
  by (auto simp: parsed_or_def split: option.splits)

lemma check_mode_present: "clean (snd (check_mode t c)) \<Longrightarrow> \<exists>m. fst (check_mode t c) = Some m"
  by (auto simp: check_mode_def split: option.splits if_splits)

lemma check_path_present: "clean (snd (check_path t c)) \<Longrightarrow> \<exists>p. fst (check_path t c) = Some p"
  by (auto simp: check_path_def split: if_splits)

lemma walk_drain_present:
  "clean (snd (walk_drain T origin step c i)) \<Longrightarrow> fst (walk_drain T origin step c i) = None \<longleftrightarrow> map_of step ''drain'' = None"
  by (auto simp: walk_drain_def split: option.splits toml.splits
      dest!: drain_formula_name_present parsed_or_present)

lemma walk_check_present:
  "clean (snd (walk_check T origin step c)) \<Longrightarrow> fst (walk_check T origin step c) = None \<longleftrightarrow> map_of step ''check'' = None"
  by (auto simp: walk_check_def split: option.splits toml.splits dest!: check_mode_present check_path_present)

lemma walk_retry_present:
  "clean (snd (walk_retry T origin step c)) \<Longrightarrow> fst (walk_retry T origin step c) = None \<longleftrightarrow> map_of step ''retry'' = None"
  by (auto simp: walk_retry_def split: option.splits toml.splits)

lemma walk_on_complete_present:
  "clean (snd (walk_on_complete T origin step c)) \<Longrightarrow>
     fst (walk_on_complete T origin step c) = None \<longleftrightarrow> map_of step ''on_complete'' = None"
  by (auto simp: walk_on_complete_def Let_def split: option.splits toml.splits)

lemma walk_fields_step:
  assumes "clean (snd (walk_fields T origin index step sid children))"
  shows "present_step (fst (walk_fields T origin index step sid children))"
  using assms
  by (simp add: walk_fields_def Let_def present_step_def walk_drain_present walk_check_present walk_retry_present
      walk_on_complete_present)

lemma walk_fields_shape [simp]:
  "rs_children (fst (walk_fields T origin index step sid children)) = children"
  "rs_id (fst (walk_fields T origin index step sid children)) = sid"
  "rs_metadata (fst (walk_fields T origin index step sid children)) =
     fst (get_string_map step ''metadata'' (walk_loc index sid @ ''.metadata''))"
  by (simp_all add: walk_fields_def Let_def)

lemma walk_present:
  "clean (snd (walk_items T origin place index items)) \<Longrightarrow>
     \<forall>s \<in> set (fst (walk_items T origin place index items)). \<forall>t \<in> set (all_steps s). present_step t"
  "clean (snd (walk_step T origin index step)) \<Longrightarrow>
     \<forall>t \<in> set (all_steps (fst (walk_step T origin index step))). present_step t"
proof (induction T origin place index items and T origin index step rule: walk_items_walk_step.induct)
  case (4 T origin index step)
  let ?sid = "fst (walk_id index step)"
  let ?cs = "case map_of step ''children'' of
         None \<Rightarrow> give []
       | Some (TArray items) \<Rightarrow> walk_items T origin (walk_loc index ?sid @ ''.children'') 0 items
       | Some _ \<Rightarrow> ([], complain (wrong_type (walk_loc index ?sid @ ''.children'') ''an array of tables''))"
  have cs: "\<forall>s \<in> set (fst ?cs). \<forall>t \<in> set (all_steps s). present_step t"
    using 4 by (auto split: option.splits toml.splits)
  have step: "present_step (fst (walk_step T origin index step))"
    using 4(2) by (simp add: walk_fields_step)
  have "rs_children (fst (walk_step T origin index step)) = fst ?cs" by simp
  then have "all_steps (fst (walk_step T origin index step)) =
      fst (walk_step T origin index step) # concat (map all_steps (fst ?cs))"
    by (simp only: all_steps.simps [of "fst (walk_step T origin index step)"])
  then show ?case using cs step by (simp del: walk_step.simps)
qed auto

section \<open>What a walk without refusals leaves out\<close>

definition unrefused :: "findings \<Rightarrow> bool" where
  "unrefused f \<longleftrightarrow> fi_refusals f = []"

lemma unrefused_simps [simp]:
  "unrefused nothing" "unrefused (complain v)" "unrefused (after f g) \<longleftrightarrow> unrefused f \<and> unrefused g"
  "unrefused (note_all fs) \<longleftrightarrow> (\<forall>f \<in> set fs. unrefused f)"
  by (simp_all add: unrefused_def nothing_def complain_def after_def)
    (induction fs, auto simp: note_all_def nothing_def after_def)

text \<open>The keys of a TOML table are distinct: the parser refuses a duplicate.\<close>

fun wf_toml :: "toml \<Rightarrow> bool" where
  "wf_toml (TArray vs) \<longleftrightarrow> (\<forall>v \<in> set vs. wf_toml v)"
| "wf_toml (TTable t) \<longleftrightarrow> distinct (map fst t) \<and> (\<forall>kv \<in> set t. wf_toml (snd kv))"
| "wf_toml _ \<longleftrightarrow> True"

definition distinct_keys :: "toml_lib \<Rightarrow> bool" where
  "distinct_keys T \<longleftrightarrow> (\<forall>s t. tl_parse T s = Inr t \<longrightarrow> wf_toml (TTable t))"

lemma wf_toml_entry: "wf_toml (TTable t) \<Longrightarrow> map_of t k = Some v \<Longrightarrow> wf_toml v"
  by (fastforce dest: map_of_SomeD)

definition plain_metadata :: "(string \<times> string) list \<Rightarrow> bool" where
  "plain_metadata m \<longleftrightarrow>
     map_of m ''gc.kind'' \<noteq> Some ''scope'' \<and> (\<forall>k \<in> fst ` set m. \<not> starts_with ''gc.scope_'' k)"

lemma key_refused: "key \<in> set (map fst table) \<Longrightarrow> refuse T site key (the (map_of table key)) 
     (if pre = [] then key else pre @ ''.'' @ key) = Some r \<Longrightarrow> \<not> unrefused (key_fate T origin site table pre i key)"
  by (cases "map_of table key") (auto simp: key_fate_def Let_def unrefused_def nothing_def map_of_eq_None_iff)

lemma walk_keys_unrefused:
  assumes "unrefused (snd (walk_keys T origin site table pre i))" and "map_of table key = Some value"
  shows "refuse T site key value (if pre = [] then key else pre @ ''.'' @ key) = None"
proof (rule ccontr)
  assume "refuse T site key value (if pre = [] then key else pre @ ''.'' @ key) \<noteq> None"
  moreover have key: "key \<in> set (map fst table)" using assms(2) by (force dest: map_of_SomeD)
  ultimately have "\<not> unrefused (key_fate T origin site table pre i key)" using assms(2) key_refused by fastforce
  then show False using assms(1) key by (auto simp: walk_keys_def sorted_keys_def)
qed

lemma string_only_keys: "fst ` set (string_only t) \<subseteq> fst ` set t"
proof (induction t)
  case (Cons kv t)
  then show ?case by (cases kv; cases "toml_str (snd kv)") (simp_all, blast+)
qed simp

lemma string_only_of:
  "distinct (map fst t) \<Longrightarrow> distinct (map fst (string_only t)) \<and> map_of (string_only t) k = Option.bind (map_of t k) toml_str"
proof (induction t)
  case (Cons kv t)
  obtain a v where kv: "kv = (a, v)" by fastforce
  have "a \<notin> fst ` set t" using Cons.prems by (simp add: kv)
  then have "a \<notin> fst ` set (string_only t)" using string_only_keys [of t] by blast
  moreover from this have "k \<noteq> a \<or> map_of (string_only t) k = None" by (simp add: map_of_eq_None_iff)
  ultimately show ?case using Cons by (auto simp: kv split: option.splits)
qed simp

lemma map_of_rev_distinct: "distinct (map fst m) \<Longrightarrow> map_of (rev m) = map_of m"
  by (subst map_of_inject_set) (simp_all flip: rev_map)

lemma string_entries_of:
  assumes "distinct (map fst t)"
  shows "map_of (fst (string_entries c t)) k = Option.bind (map_of t k) toml_str"
proof -
  have "map_of (rev (string_only t)) = map_of (string_only t)"
    using string_only_of [OF assms] map_of_rev_distinct by blast
  then show ?thesis
    using string_only_of [OF assms, of k] by (simp add: string_entries_def map_of_btree_extend)
qed

lemma string_entries_keys: "fst ` set (fst (string_entries c t)) \<subseteq> fst ` set t"
  using string_only_keys [of t] by (simp add: string_entries_def keys_btree_extend)

lemma step_metadata_plain:
  assumes "wf_toml (TTable step)" and "unrefused (snd (walk_keys T origin Step step pre i))"
  shows "plain_metadata (fst (get_string_map step ''metadata'' c))"
proof (cases "map_of step ''metadata''")
  case (Some v)
  show ?thesis
  proof (cases v)
    case (TTable m)
    have "refuse_metadata v (if pre = [] then ''metadata'' else pre @ ''.'' @ ''metadata'') = None"
      using walk_keys_unrefused [OF assms(2) Some] by (simp add: refuse_def)
    then have kind: "Option.bind (map_of m ''gc.kind'') toml_str \<noteq> Some ''scope''"
      and keys: "\<forall>k \<in> fst ` set m. \<not> starts_with ''gc.scope_'' k"
      by (auto simp: refuse_metadata_def TTable find_None_iff split: if_splits)
    have "distinct (map fst m)" using wf_toml_entry [OF assms(1) Some] TTable by simp
    moreover have "\<forall>k \<in> fst ` set (fst (string_entries c m)). \<not> starts_with ''gc.scope_'' k"
      using string_entries_keys [of c m] keys by blast
    ultimately show ?thesis
      using kind Some TTable by (simp add: plain_metadata_def get_string_map_def string_entries_of)
  qed (use Some in \<open>auto simp: get_string_map_def plain_metadata_def\<close>)
qed (simp add: get_string_map_def plain_metadata_def)

lemma walk_plain:
  "unrefused (snd (walk_items T origin place index items)) \<Longrightarrow> \<forall>v \<in> set items. wf_toml v \<Longrightarrow>
     \<forall>s \<in> set (fst (walk_items T origin place index items)). plain_metadata (rs_metadata s)"
  "unrefused (snd (walk_step T origin index step)) \<Longrightarrow> wf_toml (TTable step) \<Longrightarrow>
     plain_metadata (rs_metadata (fst (walk_step T origin index step)))"
proof (induction T origin place index items and T origin index step rule: walk_items_walk_step.induct)
  case (4 T origin index step)
  then show ?case by (auto intro!: step_metadata_plain)
qed auto

lemma known_keys:
  assumes "clean (snd (walk_keys T CampLocal Top table [] None))" and "unrefused (snd (walk_keys T CampLocal Top table [] None))"
    and key: "key \<in> fst ` set table"
  shows "classify Top key \<in> {Accepted, DeadInGc, Annotation}"
proof -
  obtain v where v: "map_of table key = Some v" using key by (cases "map_of table key") (auto simp: map_of_eq_None_iff)
  have r: "refuse T Top key v key = None"
    using walk_keys_unrefused [OF assms(2) v] by simp
  have "clean (key_fate T CampLocal Top table [] None key)"
    using assms(1) key by (auto simp: walk_keys_def sorted_keys_def)
  then show ?thesis
    using r v refused_refuses [of Top key T v key] by (cases "classify Top key") (auto simp: key_fate_def Let_def)
qed

lemma plain_assembled:
  assumes "plain_metadata (rs_metadata s)"
  shows "plain_metadata (st_metadata (assemble_step s))"
proof (cases "rs_drain s")
  case (Some d)
  have "list_all (\<lambda>kv. \<not> starts_with ''gc.scope_'' (fst kv) \<and> kv \<noteq> (''gc.kind'', ''scope'')) (drain_metadata d)"
    by (simp add: drain_metadata_def btree_extend_def drain_KIND_def KIND_DRAIN_def drain_CONTEXT_def drain_FORMULA_def
        MEMBER_ACCESS_def ON_ITEM_FAILURE_def ITEM_SINGLE_LANE_def starts_with_def)
  then have d: "\<forall>k v. (k, v) \<in> set (drain_metadata d) \<longrightarrow> \<not> starts_with ''gc.scope_'' k \<and> (k, v) \<noteq> (''gc.kind'', ''scope'')"
    by (fastforce simp: list_all_iff)
  have "map_of (rev (drain_metadata d)) ''gc.kind'' \<noteq> Some ''scope''"
    using d by (metis map_of_SomeD set_rev)
  then show ?thesis
    using assms d Some by (auto simp: plain_metadata_def assemble_step_def map_of_btree_extend keys_btree_extend map_add_Some_iff)
qed (use assms in \<open>simp add: assemble_step_def\<close>)

lemma walk_items_present:
  assumes "clean (snd (walk_items T origin place index items))" and "s \<in> set (fst (walk_items T origin place index items))"
  shows "present_step s"
  using walk_present(1) [OF assms(1)] assms(2) by (simp add: all_steps.simps [of s])

lemma walk_steps_present:
  "clean (snd (walk_steps T origin table)) \<Longrightarrow> \<forall>s \<in> set (fst (walk_steps T origin table)). present_step s"
  by (auto simp: walk_steps_def split: option.splits toml.splits dest: walk_items_present)

lemma walk_steps_plain:
  assumes "unrefused (snd (walk_steps T origin table))" and "wf_toml (TTable table)"
  shows "\<forall>s \<in> set (fst (walk_steps T origin table)). plain_metadata (rs_metadata s)"
proof (cases "map_of table ''steps''")
  case (Some v)
  have "wf_toml v" by (rule wf_toml_entry [OF assms(2) Some])
  then show ?thesis using assms(1) Some walk_plain(1) by (cases v) (auto simp: walk_steps_def)
qed (simp add: walk_steps_def)

text \<open>
  C28. What the strict entry accepts is sound: the assembled formula has distinct step ids, needs that
  name its steps and have no cycle, and steps whose check, retry, drain, assignee and timeout go
  together; no step carries scope-check metadata; its source is the text of the file; and every
  top-level key of the file is one camp knows and does not refuse. The TOML parser is only asked to
  give distinct keys.
\<close>

theorem accepted_file_is_sound:
  assumes "distinct_keys T" and "parse_and_validate T V read file_name path = Inr F"
  shows "formula_sound F \<and> (\<forall>s \<in> set (fm_steps F). plain_metadata (st_metadata s)) \<and> read path = Inr (fm_source F) \<and>
    (\<exists>table. tl_parse T (fm_source F) = Inr table \<and>
       (\<forall>key \<in> fst ` set table. classify Top key \<in> {Accepted, DeadInGc, Annotation}))"
proof -
  obtain source where source: "read path = Inr source"
    using assms(2) by (auto simp: parse_and_validate_def split: sum.splits)
  obtain raw f where w: "walk T source CampLocal = (raw, f)" by fastforce
  have F: "F = assemble raw source (rf_vars raw)" and f: "clean f" "unrefused f"
    and valid: "check V raw (formula_stem (file_name path)) = []"
    using assms(2) by (auto simp: parse_and_validate_def source w Let_def clean_def unrefused_def split: if_splits)
  obtain table where table: "tl_parse T source = Inr table" and wt: "walk_table T CampLocal table = (raw, f)"
    using w f(1) by (auto simp: walk_def split: sum.splits)
  have wf: "wf_toml (TTable table)" using assms(1) table unfolding distinct_keys_def by blast
  have keys: "clean (snd (walk_keys T CampLocal Top table [] None))" "unrefused (snd (walk_keys T CampLocal Top table [] None))"
    and steps: "clean (snd (walk_steps T CampLocal table))" "unrefused (snd (walk_steps T CampLocal table))"
      "rf_steps raw = fst (walk_steps T CampLocal table)"
    using arg_cong [OF wt, of fst] arg_cong [OF wt, of snd] f by (auto simp: walk_table_def)
  have "walked raw" and plain: "\<forall>s \<in> set (rf_steps raw). plain_metadata (rs_metadata s)"
    using walk_steps_present [OF steps(1)] walk_steps_plain [OF steps(2) wf] by (simp_all add: walked_iff steps(3))
  then have "formula_sound F" unfolding F using assembled_sound [OF valid] by blast
  moreover have "\<forall>s \<in> set (fm_steps F). plain_metadata (st_metadata s)"
    using plain by (auto simp: F assemble_def intro!: plain_assembled)
  moreover have "\<forall>key \<in> fst ` set table. classify Top key \<in> {Accepted, DeadInGc, Annotation}"
    using known_keys [OF keys] by blast
  moreover have "fm_source F = source" by (simp add: F assemble_def)
  ultimately show ?thesis using source table by blast
qed

section \<open>A file\<close>

definition sample_toml :: toml_lib where
  "sample_toml =
     \<lparr>tl_parse = (\<lambda>_. Inr
        [(''formula'', TString ''f''),
         (''steps'', TArray
            [TTable [(''id'', TString ''a''), (''title'', TString ''A''), (''metadata'', TTable [(''k'', TString ''v'')])],
             TTable [(''id'', TString ''b''), (''needs'', TArray [TString ''a'']), (''title'', TString ''B''),
                     (''check'', TTable [(''max_attempts'', TInteger 2),
                        (''check'', TTable [(''mode'', TString ''exec''), (''path'', TString ''c.sh'')])])]]),
         (''contract'', TString ''graph.v2'')]),
      tl_text = (\<lambda>_. [])\<rparr>"

definition sample_semver :: "(unit, unit) semver" where
  "sample_semver = \<lparr>req_parse = (\<lambda>_. Inr ()), ver_parse = (\<lambda>_. Inr ()), ver_matches = (\<lambda>_ _. True)\<rparr>"

theorem accepted_file_witness:
  "\<exists>F. parse_and_validate sample_toml sample_semver (\<lambda>_. Inr ''text'') (\<lambda>_. Some ''f.toml'') ''/camp/f.toml'' = Inr F \<and>
     formula_sound F \<and> map (\<lambda>s. map_option ck_path (st_check s)) (fm_steps F) = [None, Some ''c.sh'']"
proof -
  let ?r = "parse_and_validate sample_toml sample_semver (\<lambda>_. Inr ''text'') (\<lambda>_. Some ''f.toml'') ''/camp/f.toml''"
  have run: "(case ?r of Inl _ \<Rightarrow> False | Inr F \<Rightarrow> map (\<lambda>s. map_option ck_path (st_check s)) (fm_steps F) = [None, Some ''c.sh''])"
    by code_simp
  moreover have "distinct_keys sample_toml" by (auto simp: distinct_keys_def sample_toml_def)
  ultimately show ?thesis using accepted_file_is_sound by (fastforce split: sum.splits)
qed

end
