(* ===== verification/Layers.thy ===== *)
theory Layers
  imports Paths Walk
begin

text \<open>
  The formula layers (\<^verbatim>\<open>crates/camp-core/src/formula/layers.rs\<close>): where a formula name, a parent
  or an asset is looked up, and the containment of assets. The lemmas show that an asset resolves to
  a file inside the layer that answers for it, whatever the pack wrote.
\<close>

section \<open>The stack\<close>

record Layer =
  ly_binding :: string
  ly_pack_root :: string
  ly_origin :: Origin

record FormulaLayers =
  ls_layers :: "Layer list"
  ls_cfg :: "CampConfig option"

text \<open>
  The disk: the lookups of \<open>files\<close>, \<open>canonicalize\<close>, and a read of raw bytes. \<open>None\<close> of a directory
  stands for the error of the call.
\<close>

record disk =
  dk_files :: files
  dk_canon :: "string \<Rightarrow> string + string"
  dk_bytes :: "string \<Rightarrow> string + string"

definition from_config :: "disk \<Rightarrow> CampConfig \<Rightarrow> string \<Rightarrow> FormulaLayers res" where
  "from_config D cfg root =
     rbind (transitive_layers (dk_files D) cfg) (\<lambda>tl.
     Inr \<lparr>ls_layers =
            map (\<lambda>(binding, dir). \<lparr>ly_binding = binding, ly_pack_root = dir, ly_origin = Imported\<rparr>)
              (tl @ import_layers cfg) @
            [\<lparr>ly_binding = [], ly_pack_root = root, ly_origin = CampLocal\<rparr>],
          ls_cfg = Some cfg\<rparr>)"

definition local_only :: "string \<Rightarrow> FormulaLayers" where
  "local_only path =
     \<lparr>ls_layers = [\<lparr>ly_binding = [],
        ly_pack_root = (case Option.bind (path_parent path) path_parent of None \<Rightarrow> ''.'' | Some p \<Rightarrow> p),
        ly_origin = CampLocal\<rparr>], ls_cfg = None\<rparr>"

definition owning_layer :: "FormulaLayers \<Rightarrow> string \<Rightarrow> Layer option" where
  "owning_layer ls path = find (\<lambda>l. path_starts_with path (ly_pack_root l)) (rev (ls_layers ls))"

definition origin_of :: "FormulaLayers \<Rightarrow> string \<Rightarrow> Origin" where
  "origin_of ls path = (case owning_layer ls path of Some l \<Rightarrow> ly_origin l | None \<Rightarrow> CampLocal)"

definition formula_path :: "disk \<Rightarrow> FormulaLayers \<Rightarrow> string \<Rightarrow> string res" where
  "formula_path D ls name =
     (case ls_cfg ls of
        None \<Rightarrow> Inl (Config (Msg ''formula {name:?} cannot be resolved: this is a no-layer stack'' [name]))
      | Some cfg \<Rightarrow> resolve_formula (dk_files D) cfg name)"

section \<open>Assets\<close>

definition canon :: "disk \<Rightarrow> string \<Rightarrow> string \<Rightarrow> string \<Rightarrow> string res" where
  "canon D raw p what =
     (case dk_canon D p of
        Inl e \<Rightarrow> Inl (core_error.Formula (Msg ''description_file {raw:?}: cannot resolve the {what} {}: {e}'' [raw, what, p, e]))
      | Inr q \<Rightarrow> Inr q)"

definition layer_asset :: "string \<Rightarrow> Layer \<Rightarrow> string" where
  "layer_asset rel l = path_join (path_join (ly_pack_root l) ''assets'') rel"

text \<open>The last of the layers that ship the asset.\<close>

definition winning_layer :: "disk \<Rightarrow> FormulaLayers \<Rightarrow> string \<Rightarrow> Layer option" where
  "winning_layer D ls rel =
     foldl (\<lambda>winner l. if fl_is_file (dk_files D) (layer_asset rel l) then Some l else winner) None (ls_layers ls)"

definition outside :: "string \<Rightarrow> string \<Rightarrow> string \<Rightarrow> core_error" where
  "outside raw root p = core_error.Formula (Msg ''description_file {raw:?} resolves to {}, which is outside the pack root {}''
     [raw, p, root])"

definition asset_candidate :: "disk \<Rightarrow> FormulaLayers \<Rightarrow> string \<Rightarrow> string \<Rightarrow> (string \<times> string) res" where
  "asset_candidate D ls raw base_dir =
     (case asset_rel raw of
        Some rel \<Rightarrow>
          (case winning_layer D ls rel of
             None \<Rightarrow> Inl (core_error.Formula (Msg ''description_file {raw:?}: no formula layer ships assets/{rel}'' [raw, rel]))
           | Some l \<Rightarrow>
               rbind (canon D raw (ly_pack_root l) ''pack root'') (\<lambda>root.
               Inr (path_join (path_join root ''assets'') rel, root)))
      | None \<Rightarrow>
          rbind (canon D raw (case owning_layer ls base_dir of None \<Rightarrow> base_dir | Some l \<Rightarrow> ly_pack_root l) ''pack root'') (\<lambda>root.
          rbind (canon D raw base_dir ''formula directory'') (\<lambda>base.
          Inr (path_join base raw, root))))"

definition asset_path :: "disk \<Rightarrow> FormulaLayers \<Rightarrow> string \<Rightarrow> string \<Rightarrow> string res" where
  "asset_path D ls raw base_dir =
     rbind (asset_candidate D ls raw base_dir) (\<lambda>(candidate, root).
     let lexical = lexical_normalize candidate in
     rbind (ensure (path_starts_with lexical root) (outside raw root lexical)) (\<lambda>_.
     case dk_canon D candidate of
       Inl e \<Rightarrow> Inl (core_error.Formula (Msg ''description_file {raw:?}: cannot resolve {}: {e}'' [raw, candidate, e]))
     | Inr resolved \<Rightarrow>
         rbind (ensure (path_starts_with resolved root) (outside raw root resolved)) (\<lambda>_. Inr resolved)))"

section \<open>Containment\<close>

text \<open>The layer that decides: the highest that ships the asset, or the one that holds the formula.\<close>

definition last_such :: "('a \<Rightarrow> bool) \<Rightarrow> 'a list \<Rightarrow> 'a option" where
  "last_such p xs = find p (rev xs)"

lemma find_append: "find p (xs @ ys) = (case find p xs of None \<Rightarrow> find p ys | Some x \<Rightarrow> Some x)"
  by (induction xs) simp_all

lemma winning_layer_last:
  "winning_layer D ls rel = last_such (\<lambda>l. fl_is_file (dk_files D) (layer_asset rel l)) (ls_layers ls)"
proof -
  have "foldl (\<lambda>winner l. if p l then Some l else winner) w xs =
      (case find p (rev xs) of None \<Rightarrow> w | Some l \<Rightarrow> Some l)" for p :: "Layer \<Rightarrow> bool" and w xs
    by (induction xs arbitrary: w) (auto simp: find_append split: option.splits)
  then show ?thesis by (simp add: winning_layer_def last_such_def split: option.split)
qed

text \<open>A layer ships an asset, or holds a path; a resolved file is contained in a root.\<close>

definition ships :: "disk \<Rightarrow> string \<Rightarrow> Layer \<Rightarrow> bool" where
  "ships D rel l \<longleftrightarrow> fl_is_file (dk_files D) (path_join (path_join (ly_pack_root l) ''assets'') rel)"

definition holds :: "string \<Rightarrow> Layer \<Rightarrow> bool" where
  "holds path l \<longleftrightarrow> path_starts_with path (ly_pack_root l)"

definition contained_in :: "disk \<Rightarrow> string \<Rightarrow> string \<Rightarrow> bool" where
  "contained_in D pack_root p \<longleftrightarrow>
     (\<exists>root candidate. dk_canon D pack_root = Inr root \<and> dk_canon D candidate = Inr p \<and>
        path_starts_with (lexical_normalize candidate) root \<and> path_starts_with p root)"

lemma last_such_Some: "last_such q xs = Some x \<Longrightarrow> \<exists>us vs. xs = us @ x # vs \<and> q x \<and> (\<forall>v \<in> set vs. \<not> q v)"
proof -
  assume "last_such q xs = Some x"
  then obtain us vs where "rev xs = us @ x # vs" "q x" "\<forall>u \<in> set us. \<not> q u"
    unfolding last_such_def find_Some_iff by (metis id_take_nth_drop in_set_conv_nth length_take min.absorb4 nth_take)
  then have "xs = rev vs @ x # rev us" by (metis rev.simps(2) rev_append rev_rev_ident append.assoc append_Cons append_Nil)
  then show ?thesis using \<open>q x\<close> \<open>\<forall>u \<in> set us. \<not> q u\<close> by (intro exI [of _ "rev vs"] exI [of _ "rev us"]) simp
qed

lemma last_such_None: "last_such q xs = None \<longleftrightarrow> (\<forall>x \<in> set xs. \<not> q x)"
  by (auto simp: last_such_def find_None_iff)

text \<open>
  C20. A \<open>description_file\<close> does not lead out of the layer that answers for it, by \<open>..\<close>, an absolute
  path or a symbolic link. In the \<open>../assets/\<close> form that is the highest layer that ships the asset: the
  file is below its canonical root. Otherwise it is a layer that holds the formula: when the pack of
  the formula is the only one, the file is in this pack. Where layers nest, the highest one that holds
  the formula answers; the camp itself is the highest, and the imports it keeps below
  \<open><root>/imports\<close> are in it, so that such a pack is only kept inside the camp.
\<close>

theorem assets_are_contained:
  assumes "asset_path D ls raw base_dir = Inr p"
  shows "(\<forall>rel. asset_rel raw = Some rel \<longrightarrow>
      (\<exists>us l vs. ls_layers ls = us @ l # vs \<and> ships D rel l \<and> (\<forall>v \<in> set vs. \<not> ships D rel v) \<and>
         contained_in D (ly_pack_root l) p)) \<and>
    (asset_rel raw = None \<longrightarrow>
      (\<forall>l \<in> set (ls_layers ls). holds base_dir l \<and>
         (\<forall>k \<in> set (ls_layers ls). holds base_dir k \<longrightarrow> ly_pack_root k = ly_pack_root l) \<longrightarrow>
         contained_in D (ly_pack_root l) p) \<and>
      (\<forall>us l vs. ls_layers ls = us @ l # vs \<and> holds base_dir l \<and> (\<forall>v \<in> set vs. \<not> holds base_dir v) \<longrightarrow>
         contained_in D (ly_pack_root l) p) \<and>
      ((\<forall>l \<in> set (ls_layers ls). \<not> holds base_dir l) \<longrightarrow> contained_in D base_dir p))"
proof -
  obtain candidate root where c: "asset_candidate D ls raw base_dir = Inr (candidate, root)"
    and p: "path_starts_with (lexical_normalize candidate) root" "dk_canon D candidate = Inr p" "path_starts_with p root"
    using assms by (auto simp: asset_path_def Let_def ensure_def split: if_splits sum.splits)
  have inside: "contained_in D pack_root p" if "dk_canon D pack_root = Inr root" for pack_root
    using p that by (auto simp: contained_in_def)
  show ?thesis
  proof (cases "asset_rel raw")
    case (Some rel)
    then obtain l where l: "winning_layer D ls rel = Some l" "dk_canon D (ly_pack_root l) = Inr root"
      using c by (auto simp: asset_candidate_def canon_def split: option.splits sum.splits)
    then obtain us vs where "ls_layers ls = us @ l # vs" "ships D rel l" "\<forall>v \<in> set vs. \<not> ships D rel v"
      using last_such_Some [of "ships D rel" "ls_layers ls" l]
      by (auto simp: winning_layer_last ships_def [abs_def] layer_asset_def)
    then have "\<exists>us l vs. ls_layers ls = us @ l # vs \<and> ships D r l \<and> (\<forall>v \<in> set vs. \<not> ships D r v) \<and>
        contained_in D (ly_pack_root l) p" if "asset_rel raw = Some r" for r
      using inside [OF l(2)] Some that by (intro exI [of _ us] exI [of _ l] exI [of _ vs] conjI) simp_all
    then show ?thesis
    proof (intro conjI, goal_cases)
      case 1
      then show ?case by (intro allI impI)
    next
      case 2
      show ?case by (rule impI) (simp only: Some option.distinct)
    qed
  next
    case None
    then have root: "dk_canon D (case last_such (holds base_dir) (ls_layers ls) of None \<Rightarrow> base_dir | Some l \<Rightarrow> ly_pack_root l) = Inr root"
      using c by (auto simp: asset_candidate_def canon_def owning_layer_def last_such_def holds_def [abs_def]
          split: option.splits sum.splits)
    show ?thesis
    proof (cases "last_such (holds base_dir) (ls_layers ls)")
      case nobody: None
      then have "\<forall>l \<in> set (ls_layers ls). \<not> holds base_dir l" by (simp add: last_such_None)
      then show ?thesis using None inside root nobody by auto
    next
      case l: (Some l)
      obtain us vs where split: "ls_layers ls = us @ l # vs" "holds base_dir l" "\<forall>v \<in> set vs. \<not> holds base_dir v"
        using last_such_Some [OF l] by blast
      have here: "contained_in D (ly_pack_root l) p" using inside root l by simp
      have member: "l \<in> set (ls_layers ls)" by (simp add: split(1))
      have same: "k = l" if "ls_layers ls = us' @ k # vs'" "holds base_dir k" "\<forall>v \<in> set vs'. \<not> holds base_dir v" for us' k vs'
      proof -
        have "find (holds base_dir) (rev vs') = None" using that(3) by (simp add: find_None_iff)
        then have "last_such (holds base_dir) (ls_layers ls) = Some k"
          using that(2) by (simp add: that(1) last_such_def find_append)
        then show ?thesis using l by simp
      qed
      show ?thesis
      proof (intro conjI impI allI ballI, goal_cases)
        case (1 rel)
        then show ?case by (simp only: None option.distinct)
      next
        case (2 k)
        then have "ly_pack_root l = ly_pack_root k" using member split(2) by blast
        then show ?case using here by simp
      next
        case (3 us' k vs')
        then show ?case using same [of us' k vs'] here by blast
      next
        case 4
        then show ?case using member split(2) by blast
      qed
    qed
  qed
qed

end
