(* ===== verification/Compose.thy ===== *)
theory Compose
  imports Layers
begin

text \<open>
  The compile stage of formulas (\<^verbatim>\<open>crates/camp-core/src/formula/compose.rs\<close>): the \<open>extends\<close>
  chain, \<open>description_file\<close>, expansion, pruning by condition, and the rules over the result.

  What the stage reads of the world is one parameter: TOML, the disk, \<open>semver\<close> and Unicode's classes
  of characters. The chain of parents is followed with fuel, one unit for each parent on the way;
  \<open>None\<close> is that the fuel was too little.
\<close>

record ('r, 'v) world =
  wd_toml :: toml_lib
  wd_disk :: disk
  wd_semver :: "('r, 'v) semver"
  wd_word :: "string \<Rightarrow> bool"

definition read_text :: "('r, 'v) world \<Rightarrow> string \<Rightarrow> string + string" where
  "read_text W path = fl_read (dk_files (wd_disk W)) path"

text \<open>\<open>Display\<close> of an error: the message with what the variant puts before it.\<close>

definition prefixed :: "string \<Rightarrow> string list \<Rightarrow> message \<Rightarrow> message" where
  "prefixed tm args m = (case m of Msg t as \<Rightarrow> Msg (tm @ t) (args @ as))"

fun display :: "core_error \<Rightarrow> message" where
  "display (Config m) = prefixed ''config: '' [] m"
| "display (Pack m) = prefixed ''pack: '' [] m"
| "display (Cook m) = prefixed ''cook: '' [] m"
| "display (core_error.Formula m) = prefixed ''formula: '' [] m"
| "display (Order order reason) = prefixed ''order {order:?}: '' [order] reason"
| "display (Import binding reason) = prefixed ''import {binding:?}: '' [binding] reason"
| "display (Corrupt m) = prefixed ''ledger corrupt: '' [] m"
| "display (InvalidEventData event_type reason) = prefixed ''invalid event data for {event_type}: '' [event_type] reason"
| "display (InvalidTransition bead reason) = prefixed ''bead {bead}: invalid transition: '' [bead] reason"
| "display (UnknownBead b) = Msg ''unknown bead {0}'' [b]"
| "display (UnknownSession s) = Msg ''unknown session {0}'' [s]"
| "display (UnknownEventType t) = Msg ''unknown event type {0:?}'' [t]"
| "display (UnknownRig r) = Msg ''unknown rig {0:?}'' [r]"
| "display (InvalidPrefix p) = Msg ''invalid rig prefix {0:?}: must match ^[a-z][a-z0-9]*$'' [p]"
| "display (UnknownAgent name searched) = Msg ''unknown agent {name:?}; searched {searched:?}'' (name # searched)"
| "display (Sqlite e) = Msg ''sqlite: {0}'' [e]"
| "display (Json e) = Msg ''json: {0}'' [e]"
| "display (UnsupportedSchema found supported) =
     Msg ''ledger schema version {found} unsupported (this build supports {supported})'' [show_int found, show_int supported]"
| "display (InvalidSearchQuery query reason) = prefixed ''invalid search query {query:?}: '' [query] reason"
| "display (Export m) = prefixed ''export: '' [] m"
| "display (Backup m) = prefixed ''backup: '' [] m"
| "display (UntranslatableOrders count details) =
     prefixed ''export: {count} order(s) cannot be translated to gc order TOML: '' [show_nat count] details"

section \<open>Steps with a part replaced\<close>

definition with_base_dir :: "string option \<Rightarrow> RawStep \<Rightarrow> RawStep" where
  "with_base_dir d s = RawStep (rs_index s) (rs_id s) (rs_title s) (rs_description s) (rs_description_file s)
     (rs_metadata s) (rs_condition s) d (rs_expand s) (rs_expand_vars s) (rs_children s) (rs_drain s) (rs_needs s)
     (rs_assignee s) (rs_timeout s) (rs_check s) (rs_retry s) (rs_on_complete s)
     (rs_has_check s) (rs_has_retry s) (rs_has_on_complete s) (rs_has_drain s)"

definition with_inlined :: "string \<Rightarrow> RawStep \<Rightarrow> RawStep" where
  "with_inlined text s = RawStep (rs_index s) (rs_id s) (rs_title s) (Some text) None
     (rs_metadata s) (rs_condition s) (rs_base_dir s) (rs_expand s) (rs_expand_vars s) (rs_children s) (rs_drain s) (rs_needs s)
     (rs_assignee s) (rs_timeout s) (rs_check s) (rs_retry s) (rs_on_complete s)
     (rs_has_check s) (rs_has_retry s) (rs_has_on_complete s) (rs_has_drain s)"

definition with_needs :: "string list \<Rightarrow> RawStep \<Rightarrow> RawStep" where
  "with_needs ns s = RawStep (rs_index s) (rs_id s) (rs_title s) (rs_description s) (rs_description_file s)
     (rs_metadata s) (rs_condition s) (rs_base_dir s) (rs_expand s) (rs_expand_vars s) (rs_children s) (rs_drain s) ns
     (rs_assignee s) (rs_timeout s) (rs_check s) (rs_retry s) (rs_on_complete s)
     (rs_has_check s) (rs_has_retry s) (rs_has_on_complete s) (rs_has_drain s)"

definition without_children :: "RawStep \<Rightarrow> RawStep" where
  "without_children s = RawStep (rs_index s) (rs_id s) (rs_title s) (rs_description s) (rs_description_file s)
     (rs_metadata s) (rs_condition s) (rs_base_dir s) (rs_expand s) (rs_expand_vars s) [] (rs_drain s) (rs_needs s)
     (rs_assignee s) (rs_timeout s) (rs_check s) (rs_retry s) (rs_on_complete s)
     (rs_has_check s) (rs_has_retry s) (rs_has_on_complete s) (rs_has_drain s)"

section \<open>Substitution at compile time\<close>

function replace_str :: "string \<Rightarrow> string \<Rightarrow> string \<Rightarrow> string" where
  "replace_str pat r s =
     (if pat = [] then s
      else case split_str pat s of None \<Rightarrow> s | Some (a, b) \<Rightarrow> a @ r @ replace_str pat r b)"
  by pat_completeness auto

termination replace_str
  by (relation "measure (\<lambda>(pat, r, s). length s)") (auto dest!: split_str_Some)

declare replace_str.simps [simp del]

definition text_or_empty :: "string option \<Rightarrow> string" where
  "text_or_empty t = (case t of None \<Rightarrow> [] | Some s \<Rightarrow> s)"

definition substitute_target_placeholders :: "string \<Rightarrow> RawStep \<Rightarrow> string" where
  "substitute_target_placeholders text target =
     replace_str ''{target}'' (text_or_empty (rs_id target))
       (replace_str ''{target.description}'' (text_or_empty (rs_description target))
         (replace_str ''{target.title}'' (text_or_empty (rs_title target))
           (replace_str ''{target.id}'' (text_or_empty (rs_id target)) text)))"

text \<open>\<open>char::is_alphanumeric\<close> or \<open>_\<close>; outside ASCII Unicode's table decides.\<close>

definition is_word :: "(string \<Rightarrow> bool) \<Rightarrow> string \<Rightarrow> bool" where
  "is_word U token \<longleftrightarrow>
     token \<noteq> [] \<and>
     (if list_all (\<lambda>c. byte c < 128) token
      then list_all (\<lambda>c. is_digit c \<or> is_lower c \<or> 65 \<le> byte c \<and> byte c \<le> 90 \<or> c = CHR ''_'') token
      else U token)"

function substitute_single_brace_vars :: "(string \<Rightarrow> bool) \<Rightarrow> (string \<times> string) list \<Rightarrow> string \<Rightarrow> string" where
  "substitute_single_brace_vars U vars text =
     (case text of
        [] \<Rightarrow> []
      | c # cs \<Rightarrow>
          if c \<noteq> CHR ''{'' then c # substitute_single_brace_vars U vars cs
          else if cs \<noteq> [] \<and> hd cs = CHR ''{''
          then (case split_str ''}}'' (tl cs) of
                  None \<Rightarrow> text
                | Some (a, b) \<Rightarrow> ''{{'' @ a @ ''}}'' @ substitute_single_brace_vars U vars b)
          else (case split_once CHR ''}'' cs of
                  None \<Rightarrow> text
                | Some (token, rest) \<Rightarrow>
                    if is_word U token
                    then (case map_of vars token of Some v \<Rightarrow> v | None \<Rightarrow> CHR ''{'' # token @ ''}'') @
                         substitute_single_brace_vars U vars rest
                    else CHR ''{'' # substitute_single_brace_vars U vars cs))"
  by pat_completeness auto

termination substitute_single_brace_vars
  by (relation "measure (\<lambda>(U, vars, text). length text)")
    (auto simp: split_once_iff neq_Nil_conv dest!: split_str_Some)

declare substitute_single_brace_vars.simps [simp del]

definition resolve_single_brace ::
    "(string \<Rightarrow> bool) \<Rightarrow> string \<Rightarrow> RawStep option \<Rightarrow> (string \<times> string) list \<Rightarrow> string" where
  "resolve_single_brace U text target vars =
     substitute_single_brace_vars U vars
       (case target of Some t \<Rightarrow> substitute_target_placeholders text t | None \<Rightarrow> text)"

text \<open>The instantiation grammar \<open>{{var}}\<close> (\<^verbatim>\<open>formula/cook.rs\<close>), used on the values of \<open>expand_vars\<close> too.\<close>

definition legal_var :: "string \<Rightarrow> bool" where
  "legal_var token \<longleftrightarrow>
     (case token of
        [] \<Rightarrow> False
      | c # _ \<Rightarrow> (is_lower c \<or> 65 \<le> byte c \<and> byte c \<le> 90 \<or> c = CHR ''_'') \<and>
          list_all (\<lambda>c. is_digit c \<or> is_lower c \<or> 65 \<le> byte c \<and> byte c \<le> 90 \<or> c = CHR ''_'') token)"

function substitute_double :: "(string \<times> string) list \<Rightarrow> string \<Rightarrow> string" where
  "substitute_double vars text =
     (case split_str ''{{'' text of
        None \<Rightarrow> text
      | Some (lit, rem) \<Rightarrow>
          (case split_str ''}}'' rem of
             None \<Rightarrow> text
           | Some (token, rest) \<Rightarrow>
               lit @ (if legal_var token \<and> map_of vars token \<noteq> None then the (map_of vars token)
                      else ''{{'' @ token @ ''}}'') @ substitute_double vars rest))"
  by pat_completeness auto

termination substitute_double
  by (relation "measure (\<lambda>(vars, text). length text)") (auto dest!: split_str_Some)

declare substitute_double.simps [simp del]

section \<open>Files in place of descriptions\<close>

definition DESCRIPTION_FILE_INLINE_MAX_BYTES :: int where
  "DESCRIPTION_FILE_INLINE_MAX_BYTES = 4 * 1024"

definition NL :: string where
  "NL = [CHR 0x0A]"

definition pointer_prompt :: "string \<Rightarrow> string \<Rightarrow> nat \<Rightarrow> (string \<times> string option) list \<Rightarrow> string" where
  "pointer_prompt raw_path resolved len vars =
     ''# External Prompt Required'' @ NL @ NL @
     ''This bead still follows the normal runtime and lifecycle protocol from your startup prompt and current agent prompt, including claiming work, honoring result contracts, checking for follow-on work, and draining only when appropriate.'' @ NL @ NL @
     ''In addition to that protocol, this bead's task-specific instructions come from a formula `description_file` that is too large to inline safely into bead storage.'' @ NL @ NL @
     ''Before you start the task-specific work, you MUST read the file below and treat it as the task prompt for this bead. Do not proceed from memory, ambient skills, or prior workflow knowledge until you have read it.'' @ NL @ NL @
     ''- Resolved prompt file: `'' @ resolved @ ''`'' @ NL @
     ''- Original formula description_file: `'' @ raw_path @ ''`'' @ NL @
     ''- Prompt file size: '' @ show_nat len @ '' bytes'' @ NL @ NL @
     ''Treat the file contents as the authoritative task prompt for this bead. It augments the startup/runtime protocol; it does not replace the startup prompt, the current agent prompt, or any bead lifecycle/result-contract instructions already given to you.'' @ NL @
     ''Follow the section matching this bead's `gc.step_id` metadata and title, plus any result, closure, lifecycle, or post-close contract sections in that file.'' @ NL @
     (if vars = [] then []
      else NL @ ''## Formula Variables'' @ NL @ NL @
        ''Use these resolved formula values when interpreting `{{...}}` placeholders in the prompt file:'' @ NL @ NL @
        ''```bash'' @ NL @
        concat (map (\<lambda>(name, _). name @ ''='' @ [CHR 0x22] @ ''{{'' @ name @ ''}}'' @ [CHR 0x22] @ NL) vars) @
        ''```'' @ NL)"

definition inlined_text ::
    "('r, 'v) world \<Rightarrow> FormulaLayers \<Rightarrow> string \<Rightarrow> (string \<times> string option) list \<Rightarrow> string \<Rightarrow> RawStep \<Rightarrow> string res" where
  "inlined_text W ls base_dir vars rel step =
     rbind (asset_path (wd_disk W) ls rel (case rs_base_dir step of None \<Rightarrow> base_dir | Some b \<Rightarrow> b)) (\<lambda>resolved.
     case dk_bytes (wd_disk W) resolved of
       Inl e \<Rightarrow> Inl (core_error.Formula (Msg ''description_file {rel:?}: cannot read {}: {e}'' [rel, resolved, e]))
     | Inr bytes \<Rightarrow>
         if DESCRIPTION_FILE_INLINE_MAX_BYTES < int (length bytes) then Inr (pointer_prompt rel resolved (length bytes) vars)
         else rbind (ensure (utf8_valid bytes)
           (core_error.Formula (Msg ''description_file {rel:?}: {} is not UTF-8'' [rel, resolved]))) (\<lambda>_. Inr bytes))"

text \<open>The steps before one that fails have been changed.\<close>

fun inline_description_files ::
    "('r, 'v) world \<Rightarrow> FormulaLayers \<Rightarrow> string \<Rightarrow> (string \<times> string option) list \<Rightarrow> RawStep list \<Rightarrow>
     RawStep list \<times> core_error option" where
  "inline_description_files W ls base_dir vars [] = ([], None)"
| "inline_description_files W ls base_dir vars (s # ss) =
     (case rs_description_file s of
        None \<Rightarrow> (case inline_description_files W ls base_dir vars ss of (ts, e) \<Rightarrow> (s # ts, e))
      | Some rel \<Rightarrow>
          (case inlined_text W ls base_dir vars rel s of
             Inl e \<Rightarrow> (s # ss, Some e)
           | Inr text \<Rightarrow>
               (case inline_description_files W ls base_dir vars ss of (ts, e) \<Rightarrow> (with_inlined text s # ts, e))))"

definition inlined ::
    "('r, 'v) world \<Rightarrow> FormulaLayers \<Rightarrow> string \<Rightarrow> (string \<times> string option) list \<Rightarrow> RawStep list \<Rightarrow> RawStep list found" where
  "inlined W ls base vars ss =
     (case inline_description_files W ls base vars ss of
        (ts, None) \<Rightarrow> give ts
      | (ts, Some e) \<Rightarrow> (ts, complain (violation ''description_file'' (display e))))"

section \<open>The chain of parents\<close>

definition overlay_step :: "RawStep list \<times> string list \<Rightarrow> RawStep \<Rightarrow> RawStep list \<times> string list" where
  "overlay_step acc step =
     (case acc of (steps, replaced) \<Rightarrow>
      case rs_id step of
        None \<Rightarrow> (steps @ [step], replaced)
      | Some i \<Rightarrow>
          (let at = length (takeWhile (\<lambda>s. rs_id s \<noteq> Some i) steps) in
           if at < length steps then (steps[at := step], i # replaced) else (steps @ [step], replaced)))"

definition survives :: "string list \<Rightarrow> Refusal \<Rightarrow> bool" where
  "survives gone r \<longleftrightarrow> (case re_step r of Some i \<Rightarrow> i \<notin> set gone | None \<Rightarrow> True)"

definition or_else :: "'a option \<Rightarrow> 'a option \<Rightarrow> 'a option" where
  "or_else a b = (case a of None \<Rightarrow> b | Some x \<Rightarrow> Some x)"

definition overlay :: "RawFormula found \<Rightarrow> RawFormula found \<Rightarrow> RawFormula found" where
  "overlay parent child =
     (case (parent, child) of ((p, f), (c, g)) \<Rightarrow>
      case foldl overlay_step (rf_steps p, []) (rf_steps c) of (steps, replaced) \<Rightarrow>
        (\<lparr>rf_name = rf_name c, rf_description = or_else (rf_description c) (rf_description p),
          rf_formula_compiler = or_else (rf_formula_compiler c) (rf_formula_compiler p),
          rf_contract = or_else (rf_contract c) (rf_contract p), rf_kind = or_else (rf_kind c) (rf_kind p),
          rf_vars = btree_extend (rf_vars p) (rf_vars c), rf_extends = [],
          rf_template = (if rf_template c = [] then rf_template p else rf_template c), rf_steps = steps\<rparr>,
         after (f\<lparr>fi_refusals := filter (survives replaced) (fi_refusals f)\<rparr>) g))"

text \<open>A formula before its parents: walked, its steps stamped with their directory, its files inlined.\<close>

definition own_formula :: "('r, 'v) world \<Rightarrow> FormulaLayers \<Rightarrow> string \<Rightarrow> string \<Rightarrow> RawFormula found" where
  "own_formula W ls path source =
     (let base = (case path_parent path of None \<Rightarrow> ''.'' | Some b \<Rightarrow> b) in
      also_found (walk (wd_toml W) source (origin_of ls path)) (\<lambda>raw.
      also_found (inlined W ls base (rf_vars raw) (map (with_base_dir (Some base)) (rf_steps raw))) (\<lambda>steps.
      also_found (inlined W ls base (rf_vars raw) (map (with_base_dir (Some base)) (rf_template raw))) (\<lambda>template.
        give (raw\<lparr>rf_steps := steps, rf_template := template\<rparr>)))))"

definition parent_source ::
    "('r, 'v) world \<Rightarrow> FormulaLayers \<Rightarrow> string list \<Rightarrow> string \<Rightarrow> (string \<times> string) res" where
  "parent_source W ls visiting parent =
     rbind (ensure (parent \<notin> set visiting)
       (core_error.Formula (Msg ''extends cycle: {} -> {parent}'' [join '' -> '' visiting, parent]))) (\<lambda>_.
     case formula_path (wd_disk W) ls parent of
       Inl e \<Rightarrow> Inl (core_error.Formula (prefixed ''extends {parent:?}: '' [parent] (display e)))
     | Inr path \<Rightarrow>
         (case read_text W path of
            Inl e \<Rightarrow> Inl (core_error.Formula (Msg ''extends {parent:?}: cannot read {}: {e}'' [parent, path, e]))
          | Inr source \<Rightarrow> Inr (path, source)))"

function (sequential)
  chain :: "('r, 'v) world \<Rightarrow> FormulaLayers \<Rightarrow> nat \<Rightarrow> string \<Rightarrow> string \<Rightarrow> string list \<Rightarrow> RawFormula found res option" and
  chain_parents :: "('r, 'v) world \<Rightarrow> FormulaLayers \<Rightarrow> nat \<Rightarrow> string list \<Rightarrow> string list \<Rightarrow> RawFormula found option \<Rightarrow>
    RawFormula found option res option" where
  "chain W ls 0 path source visiting = None"
| "chain W ls (Suc fuel) path source visiting =
     (case own_formula W ls path source of (raw, f) \<Rightarrow>
      if rf_extends raw = [] then Some (Inr (raw, f))
      else map_option (\<lambda>r. rbind r (\<lambda>acc. Inr (case acc of
               None \<Rightarrow> (raw\<lparr>rf_extends := []\<rparr>, f)
             | Some ancestors \<Rightarrow> overlay ancestors (raw\<lparr>rf_extends := []\<rparr>, f))))
           (chain_parents W ls fuel visiting (rf_extends raw) None))"
| "chain_parents W ls fuel visiting [] acc = Some (Inr acc)"
| "chain_parents W ls fuel visiting (p # ps) acc =
     (case parent_source W ls visiting p of
        Inl e \<Rightarrow> Some (Inl e)
      | Inr (path, source) \<Rightarrow>
          (case chain W ls fuel path source (visiting @ [p]) of
             None \<Rightarrow> None
           | Some (Inl e) \<Rightarrow> Some (Inl e)
           | Some (Inr w) \<Rightarrow>
               chain_parents W ls fuel visiting ps
                 (Some (case acc of None \<Rightarrow> w | Some lower \<Rightarrow> overlay lower w))))"
  by pat_completeness auto

termination chain
  by (relation "measures
    [\<lambda>x. case x of Inl (W, ls, fuel, _) \<Rightarrow> fuel | Inr (W, ls, fuel, _) \<Rightarrow> fuel,
     \<lambda>x. case x of Inl _ \<Rightarrow> 0 | Inr (W, ls, fuel, visiting, ps, acc) \<Rightarrow> Suc (length ps)]") auto

section \<open>Expansion\<close>

definition MAX_EXPANSION_DEPTH :: nat where
  "MAX_EXPANSION_DEPTH = 5"

definition flatten_into :: "RawStep \<Rightarrow> RawStep list" where
  "flatten_into s = map without_children (all_steps s)"

definition propagate_target_deps :: "RawStep \<Rightarrow> RawStep list \<Rightarrow> RawStep list" where
  "propagate_target_deps target expanded =
     (if rs_needs target = [] then expanded
      else
        let inside = List.map_filter rs_id expanded in
        map (\<lambda>s. if list_ex (\<lambda>n. n \<in> set inside) (rs_needs s) then s
                 else with_needs (rs_needs target @ rs_needs s) s) expanded)"

definition sub_entries :: "(string \<Rightarrow> string) \<Rightarrow> (string \<times> string) list \<Rightarrow> (string \<times> string) list" where
  "sub_entries f m = map (\<lambda>(k, v). (k, f v)) m"

function substitute_template_step ::
    "(string \<Rightarrow> bool) \<Rightarrow> RawStep \<Rightarrow> (string \<times> string) list \<Rightarrow> RawStep \<Rightarrow> RawStep" where
  "substitute_template_step U target vars tmpl =
     (let sub = (\<lambda>s. resolve_single_brace U s (Some target) vars) in
      RawStep (rs_index tmpl) (map_option sub (rs_id tmpl)) (map_option sub (rs_title tmpl))
        (map_option sub (rs_description tmpl)) (rs_description_file tmpl) (sub_entries sub (rs_metadata tmpl))
        (map_option (\<lambda>c. substitute_target_placeholders c target) (rs_condition tmpl)) (rs_base_dir tmpl)
        (map_option sub (rs_expand tmpl)) (sub_entries sub (rs_expand_vars tmpl))
        (map (substitute_template_step U target vars) (rs_children tmpl)) (rs_drain tmpl) (map sub (rs_needs tmpl))
        (map_option (substitute_single_brace_vars U vars) (rs_assignee tmpl)) (rs_timeout tmpl)
        (map_option (\<lambda>c. c\<lparr>ck_path := sub (ck_path c)\<rparr>) (rs_check tmpl)) (rs_retry tmpl) (rs_on_complete tmpl)
        (rs_has_check tmpl) (rs_has_retry tmpl) (rs_has_on_complete tmpl) (rs_has_drain tmpl))"
  by pat_completeness auto

termination substitute_template_step
  by (relation "measure (\<lambda>(U, target, vars, tmpl). size tmpl)") (simp_all add: child_smaller)

declare substitute_template_step.simps [simp del]

definition defined_vars :: "(string \<times> string option) list \<Rightarrow> (string \<times> string) list" where
  "defined_vars vars = List.map_filter (\<lambda>(k, v). map_option (Pair k) v) vars"

definition expansion_vars ::
    "('r, 'v) world \<Rightarrow> RawStep \<Rightarrow> (string \<times> string) list \<Rightarrow> (string \<times> string option) list \<Rightarrow> (string \<times> string) list" where
  "expansion_vars W step parent_vars declared =
     btree_extend (defined_vars declared)
       (map (\<lambda>(k, v). (k, substitute_single_brace_vars (wd_word W) parent_vars (substitute_double parent_vars v)))
         (rs_expand_vars step))"

definition expansion_source :: "('r, 'v) world \<Rightarrow> FormulaLayers \<Rightarrow> string \<Rightarrow> (string \<times> string) res" where
  "expansion_source W ls expansion =
     (case formula_path (wd_disk W) ls expansion of
        Inl e \<Rightarrow> Inl (core_error.Formula (prefixed ''expand {expansion:?}: '' [expansion] (display e)))
      | Inr path \<Rightarrow>
          (case read_text W path of
             Inl e \<Rightarrow> Inl (core_error.Formula (Msg ''expand {expansion:?}: cannot read {}: {e}'' [expansion, path, e]))
           | Inr source \<Rightarrow> Inr (path, source)))"

text \<open>The template steps of one expansion, substituted against its target, and the values of its variables.\<close>

definition expand_target ::
    "('r, 'v) world \<Rightarrow> FormulaLayers \<Rightarrow> nat \<Rightarrow> (string \<times> string) list \<Rightarrow> RawStep \<Rightarrow> string \<Rightarrow>
     (core_error + RawStep list \<times> (string \<times> string) list) found option" where
  "expand_target W ls fuel parent_vars step expansion =
     (case expansion_source W ls expansion of
        Inl e \<Rightarrow> Some (give (Inl e))
      | Inr (path, source) \<Rightarrow>
     (case chain W ls fuel path source [expansion] of
        None \<Rightarrow> None
      | Some (Inl e) \<Rightarrow> Some (give (Inl e))
      | Some (Inr (raw, f)) \<Rightarrow> Some
          (if rf_template raw = []
           then give (Inl (core_error.Formula (Msg ''expand {expansion:?}: that formula declares no [[template]] steps'' [expansion])))
           else
             let vars = expansion_vars W step parent_vars (rf_vars raw) in
             (Inr (propagate_target_deps step
                (map (substitute_template_step (wd_word W) step vars) (rf_template raw)), vars), f))))"

function (sequential) expand_steps ::
    "('r, 'v) world \<Rightarrow> FormulaLayers \<Rightarrow> nat \<Rightarrow> nat \<Rightarrow> (string \<times> string) list \<Rightarrow> RawStep list \<Rightarrow>
     (core_error + RawStep list) found option" where
  "expand_steps W ls fuel depth parent_vars [] = Some (give (Inr []))"
| "expand_steps W ls fuel depth parent_vars (step # steps) =
     (case rs_expand step of
        None \<Rightarrow>
          map_option (\<lambda>(r, f). (rbind r (\<lambda>ss. Inr (flatten_into step @ ss)), f))
            (expand_steps W ls fuel depth parent_vars steps)
      | Some expansion \<Rightarrow>
          if MAX_EXPANSION_DEPTH < depth
          then Some (give (Inl (core_error.Formula (Msg ''expansion depth limit exceeded: max {MAX_EXPANSION_DEPTH} levels''
            [case rs_id step of None \<Rightarrow> ''<unnamed>'' | Some i \<Rightarrow> i]))))
          else case expand_target W ls fuel parent_vars step expansion of
            None \<Rightarrow> None
          | Some (Inl e, f) \<Rightarrow> Some (Inl e, f)
          | Some (Inr (expanded, vars), f) \<Rightarrow>
              (case expand_steps W ls fuel (Suc depth) vars expanded of
                 None \<Rightarrow> None
               | Some (Inl e, g) \<Rightarrow> Some (Inl e, after f g)
               | Some (Inr ss, g) \<Rightarrow>
                   map_option (\<lambda>(r, h). (rbind r (\<lambda>ts. Inr (ss @ ts)), after f (after g h)))
                     (expand_steps W ls fuel depth parent_vars steps)))"
  by pat_completeness auto

termination expand_steps
  by (relation "measures
    [\<lambda>(W, ls, fuel, depth, vars, steps). Suc MAX_EXPANSION_DEPTH - depth,
     \<lambda>(W, ls, fuel, depth, vars, steps). length steps]") auto

section \<open>Conditions\<close>

definition merge_vars :: "(string \<times> string option) list \<Rightarrow> (string \<times> string) list \<Rightarrow> (string \<times> string option) list" where
  "merge_vars declared overrides = btree_extend declared (map (\<lambda>(k, v). (k, Some v)) overrides)"

definition trim_matches :: "char \<Rightarrow> string \<Rightarrow> string" where
  "trim_matches c s = rev (dropWhile (\<lambda>x. x = c) (rev (dropWhile (\<lambda>x. x = c) s)))"

definition split_condition :: "string \<Rightarrow> (string \<times> bool \<times> string) option" where
  "split_condition expr =
     (case split_str ''=='' expr of
        Some (l, r) \<Rightarrow> Some (l, True, r)
      | None \<Rightarrow> map_option (\<lambda>(l, r). (l, False, r)) (split_str ''!='' expr))"

definition eval_condition :: "string \<Rightarrow> (string \<times> string option) list \<Rightarrow> message + bool" where
  "eval_condition expr vars =
     (case split_condition expr of
        None \<Rightarrow> Inl (Msg ''condition {expr:?} is outside camp's subset: only {{var}} == value and {{var}} != value'' [expr])
      | Some (lhs, positive, rhs) \<Rightarrow>
          (case Option.bind (strip_prefix ''{{'' (trim lhs)) (strip_suffix ''}}'') of
             None \<Rightarrow> Inl (Msg ''condition {expr:?}: the left-hand side must be a single {{var}}, not {lhs:?}'' [expr, trim lhs])
           | Some name \<Rightarrow>
               let rhs = trim_matches (CHR 0x27) (trim_matches (CHR 0x22) (trim rhs));
                   equal = (Option.bind (map_of vars (trim name)) id = Some rhs)
               in Inr (equal = positive)))"

definition step_kept :: "(string \<times> string option) list \<Rightarrow> RawStep \<Rightarrow> bool" where
  "step_kept vars s \<longleftrightarrow>
     (case rs_condition s of
        None \<Rightarrow> True
      | Some expr \<Rightarrow> (case eval_condition expr vars of Inr b \<Rightarrow> b | Inl _ \<Rightarrow> True))"

definition condition_violation :: "(string \<times> string option) list \<Rightarrow> RawStep \<Rightarrow> Violation list" where
  "condition_violation vars s =
     (case rs_condition s of
        None \<Rightarrow> []
      | Some expr \<Rightarrow>
          (case eval_condition expr vars of Inr _ \<Rightarrow> [] | Inl m \<Rightarrow> [violation (step_loc s @ ''.condition'') m]))"

definition prune_conditions ::
    "(string \<times> string option) list \<Rightarrow> RawFormula found \<Rightarrow> RawFormula found" where
  "prune_conditions vars m =
     (case m of (raw, f) \<Rightarrow>
      let pruned = List.map_filter rs_id (filter (\<lambda>s. \<not> step_kept vars s) (rf_steps raw)) in
      (raw\<lparr>rf_steps := map (\<lambda>s. with_needs (filter (\<lambda>n. n \<notin> set pruned) (rs_needs s)) s)
         (filter (step_kept vars) (rf_steps raw))\<rparr>,
       f\<lparr>fi_violations := fi_violations f @ concat (map (condition_violation vars) (rf_steps raw)),
         fi_refusals := filter (survives pruned) (fi_refusals f)\<rparr>))"

section \<open>Compilation\<close>

record Compiled =
  cp_formula :: Formula
  cp_ignored_keys :: "message list"
  cp_refusals :: "Refusal list"
  cp_not_runnable :: "Refusal option"

definition is_runnable :: "Compiled \<Rightarrow> bool" where
  "is_runnable c \<longleftrightarrow> cp_not_runnable c = None"

definition failed :: "string \<Rightarrow> Violation \<Rightarrow> FormulaError" where
  "failed path v = \<lparr>fe_path = path, fe_violations = [v], fe_refusals = []\<rparr>"

text \<open>The stages after the chain: expansion, pruning, the rules, and whether the formula may run.\<close>

definition expanded ::
    "('r, 'v) world \<Rightarrow> FormulaLayers \<Rightarrow> nat \<Rightarrow> (string \<times> string option) list \<Rightarrow> RawFormula found \<Rightarrow>
     RawFormula found option" where
  "expanded W ls fuel vars m =
     (case m of (raw, f) \<Rightarrow>
      map_option (\<lambda>(r, g). case r of
          Inr steps \<Rightarrow> (raw\<lparr>rf_steps := steps\<rparr>, after f g)
        | Inl e \<Rightarrow> (raw\<lparr>rf_steps := []\<rparr>, after f (after g (complain (violation ''expand'' (display e))))))
        (expand_steps W ls fuel 1 (defined_vars vars) (rf_steps raw)))"

definition finish ::
    "('r, 'v) world \<Rightarrow> FormulaLayers \<Rightarrow> string \<Rightarrow> string \<Rightarrow> (string \<times> string option) list \<Rightarrow> RawFormula found \<Rightarrow>
     FormulaError + Compiled" where
  "finish W ls path source vars m =
     (case m of (raw, f) \<Rightarrow>
      let violations = fi_violations f @ check (wd_semver W) raw (formula_stem (path_file_name path)) in
      if violations \<noteq> [] \<or> fi_refusals f \<noteq> []
      then Inl \<lparr>fe_path = path, fe_violations = violations, fe_refusals = fi_refusals f\<rparr>
      else Inr
        \<lparr>cp_formula = assemble raw source vars, cp_ignored_keys = fi_ignored f, cp_refusals = [],
         cp_not_runnable = map_option (refusal ''formula'' ''contract'') (not_runnable raw (origin_of ls path))\<rparr>)"

definition compile ::
    "('r, 'v) world \<Rightarrow> FormulaLayers \<Rightarrow> nat \<Rightarrow> string \<Rightarrow> (string \<times> string) list \<Rightarrow> (FormulaError + Compiled) option" where
  "compile W ls fuel path vars_override =
     (case read_text W path of
        Inl e \<Rightarrow> Some (Inl (failed path (violation ''file'' (Msg ''cannot read: {e}'' [e]))))
      | Inr source \<Rightarrow>
     (case chain W ls fuel path source [] of
        None \<Rightarrow> None
      | Some (Inl e) \<Rightarrow> Some (Inl (failed path (violation ''extends'' (display e))))
      | Some (Inr w) \<Rightarrow>
          let vars = merge_vars (rf_vars (fst w)) vars_override in
          map_option (\<lambda>m. finish W ls path source vars (prune_conditions vars m)) (expanded W ls fuel vars w)))"

definition compile_named ::
    "('r, 'v) world \<Rightarrow> FormulaLayers \<Rightarrow> nat \<Rightarrow> string \<Rightarrow> (string \<times> string) list \<Rightarrow> (FormulaError + Compiled) option" where
  "compile_named W ls fuel name vars_override =
     (case formula_path (wd_disk W) ls name of
        Inl e \<Rightarrow> Some (Inl (failed name (violation ''formula'' (display e))))
      | Inr path \<Rightarrow> compile W ls fuel path vars_override)"

section \<open>The compile stage returns\<close>

definition known_formulas :: "('r, 'v) world \<Rightarrow> FormulaLayers \<Rightarrow> string set" where
  "known_formulas W ls = {n. \<exists>p. formula_path (wd_disk W) ls n = Inr p}"

lemma parent_source_Inr:
  "parent_source W ls visiting p = Inr (path, source) \<Longrightarrow> p \<notin> set visiting \<and> p \<in> known_formulas W ls"
  by (auto simp: parent_source_def known_formulas_def ensure_def split: if_splits sum.splits)

lemma chain_returns:
  assumes fin: "finite (known_formulas W ls)"
  shows "set visiting \<subseteq> known_formulas W ls \<Longrightarrow> distinct visiting \<Longrightarrow>
    card (known_formulas W ls) < fuel + length visiting \<Longrightarrow> \<exists>r. chain W ls fuel path source visiting = Some r"
proof (induction fuel arbitrary: path source visiting)
  case 0
  then show ?case using card_mono [OF fin 0(1)] distinct_card [OF 0(2)] by simp
next
  case (Suc fuel)
  have parents: "\<exists>r. chain_parents W ls fuel visiting ps acc = Some r" for ps acc
  proof (induction ps arbitrary: acc)
    case (Cons p ps)
    show ?case
    proof (cases "parent_source W ls visiting p")
      case (Inr found)
      then obtain path source where found: "parent_source W ls visiting p = Inr (path, source)" by (cases found) auto
      have "\<exists>r. chain W ls fuel path source (visiting @ [p]) = Some r"
        using Suc.IH [of "visiting @ [p]"] Suc.prems parent_source_Inr [OF found] by simp
      then obtain r where "chain W ls fuel path source (visiting @ [p]) = Some r" by blast
      then show ?thesis using Cons.IH found by (auto split: sum.split)
    qed simp
  qed simp
  obtain raw f where own: "own_formula W ls path source = (raw, f)" by fastforce
  then show ?case using parents [of "rf_extends raw" None] by auto
qed

lemma chain_more:
  "chain W ls fuel path source visiting = Some r \<Longrightarrow> chain W ls (fuel + k) path source visiting = Some r"
  "chain_parents W ls fuel visiting ps acc = Some q \<Longrightarrow> chain_parents W ls (fuel + k) visiting ps acc = Some q"
proof (induction W ls fuel path source visiting and W ls fuel visiting ps acc arbitrary: r and q rule: chain_chain_parents.induct)
  case (2 W ls fuel path source visiting)
  obtain raw f where own: "own_formula W ls path source = (raw, f)" by fastforce
  show ?case
  proof (cases "rf_extends raw = []")
    case False
    then obtain q where "chain_parents W ls fuel visiting (rf_extends raw) None = Some q" using 2(2) own by auto
    then show ?thesis using 2(1) [OF own [symmetric] False] 2(2) own False by auto
  qed (use 2(2) own in simp)
next
  case (4 W ls fuel visiting p ps acc)
  then show ?case by (auto split: sum.splits option.splits)
qed simp_all

lemma expand_target_returns:
  assumes "finite (known_formulas W ls)" and "card (known_formulas W ls) < fuel"
  shows "\<exists>r. expand_target W ls fuel vars step expansion = Some r"
proof (cases "expansion_source W ls expansion")
  case (Inr found)
  then obtain path source where found: "expansion_source W ls expansion = Inr (path, source)" by (cases found) auto
  then have "expansion \<in> known_formulas W ls"
    by (auto simp: expansion_source_def known_formulas_def split: sum.splits)
  then obtain r where "chain W ls fuel path source [expansion] = Some r"
    using chain_returns [OF assms(1), of "[expansion]" fuel path source] assms(2) by auto
  then show ?thesis using found by (auto simp: expand_target_def split: sum.split prod.split)
qed (simp add: expand_target_def)

lemma expand_returns:
  assumes "finite (known_formulas W ls)" and "card (known_formulas W ls) < fuel"
  shows "\<exists>r. expand_steps W ls fuel depth vars steps = Some r"
  using assms
proof (induction W ls fuel depth vars steps rule: expand_steps.induct)
  case (2 W ls fuel depth parent_vars step steps)
  show ?case
  proof (cases "rs_expand step")
    case None
    then show ?thesis using 2(1,4,5) by fastforce
  next
    case (Some expansion)
    show ?thesis
    proof (cases "MAX_EXPANSION_DEPTH < depth")
      case False
      obtain r f where t: "expand_target W ls fuel parent_vars step expansion = Some (r, f)"
        using expand_target_returns [OF 2(4,5)] by (metis surj_pair)
      show ?thesis
      proof (cases r)
        case (Inr ev)
        obtain ss vars where ev: "ev = (ss, vars)" by fastforce
        obtain q g where x: "expand_steps W ls fuel (Suc depth) vars ss = Some (q, g)"
          using 2(2) [OF Some False t refl Inr ev [symmetric] 2(4,5)] by (metis surj_pair)
        show ?thesis
        proof (cases q)
          case (Inr us)
          obtain y where "expand_steps W ls fuel depth parent_vars steps = Some y"
            using 2(3) [OF Some False t refl \<open>r = Inr ev\<close> ev [symmetric] x refl Inr 2(4,5)] by blast
          then show ?thesis using Some False t \<open>r = Inr ev\<close> ev x Inr by simp
        qed (use Some False t Inr ev x in simp)
      qed (use Some False t in simp)
    qed (use Some in simp)
  qed
qed simp

lemma expand_target_more:
  "expand_target W ls fuel vars step expansion = Some r \<Longrightarrow> expand_target W ls (fuel + k) vars step expansion = Some r"
proof -
  assume r: "expand_target W ls fuel vars step expansion = Some r"
  show ?thesis
  proof (cases "expansion_source W ls expansion")
    case (Inr found)
    obtain path source where f: "found = (path, source)" by fastforce
    obtain c where c: "chain W ls fuel path source [expansion] = Some c"
      using r Inr f by (cases "chain W ls fuel path source [expansion]") (simp_all add: expand_target_def)
    then show ?thesis using r Inr f chain_more(1) [OF c, of k] by (simp add: expand_target_def)
  qed (use r in \<open>simp add: expand_target_def\<close>)
qed

lemma expand_more:
  "expand_steps W ls fuel depth vars steps = Some r \<Longrightarrow> expand_steps W ls (fuel + k) depth vars steps = Some r"
proof (induction W ls fuel depth vars steps arbitrary: r rule: expand_steps.induct)
  case (2 W ls fuel depth parent_vars step steps)
  show ?case
  proof (cases "rs_expand step")
    case None
    then show ?thesis using 2(1,4) by auto
  next
    case (Some expansion)
    show ?thesis
    proof (cases "MAX_EXPANSION_DEPTH < depth")
      case False
      obtain t f where t: "expand_target W ls fuel parent_vars step expansion = Some (t, f)"
        using 2(4) Some False by (auto split: option.splits)
      note t' = expand_target_more [OF t, of k]
      show ?thesis
      proof (cases t)
        case (Inr ev)
        obtain ss vars where ev: "ev = (ss, vars)" by fastforce
        obtain q g where x: "expand_steps W ls fuel (Suc depth) vars ss = Some (q, g)"
          using 2(4) Some False t Inr ev by (auto split: option.splits)
        have x': "expand_steps W ls (fuel + k) (Suc depth) vars ss = Some (q, g)"
          by (rule 2(2) [OF Some False t refl Inr ev [symmetric] x])
        show ?thesis
        proof (cases q)
          case (Inr us)
          obtain y where y: "expand_steps W ls fuel depth parent_vars steps = Some y"
            using 2(4) Some False t \<open>t = Inr ev\<close> ev x Inr by auto
          then have "expand_steps W ls (fuel + k) depth parent_vars steps = Some y"
            by (rule 2(3) [OF Some False t refl \<open>t = Inr ev\<close> ev [symmetric] x refl Inr])
          then show ?thesis using 2(4) Some False t t' \<open>t = Inr ev\<close> ev x x' Inr y by simp
        qed (use 2(4) Some False t t' Inr ev x x' in simp)
      qed (use 2(4) Some False t t' in simp)
    qed (use 2(4) Some in simp)
  qed
qed simp

lemma compile_more:
  "compile_named W ls fuel name overrides = Some r \<Longrightarrow> compile_named W ls (fuel + k) name overrides = Some r"
proof -
  assume r: "compile_named W ls fuel name overrides = Some r"
  show ?thesis
  proof (cases "formula_path (wd_disk W) ls name")
    case path: (Inr path)
    show ?thesis
    proof (cases "read_text W path")
      case source: (Inr source)
      obtain c where c: "chain W ls fuel path source [] = Some c"
        using r path source by (cases "chain W ls fuel path source []") (simp_all add: compile_named_def compile_def)
      show ?thesis
      proof (cases c)
        case (Inr w)
        obtain raw f where w: "w = (raw, f)" by fastforce
        obtain x where x: "expand_steps W ls fuel 1 (defined_vars (merge_vars (rf_vars raw) overrides)) (rf_steps raw) = Some x"
          using r path source c Inr w by (auto simp: compile_named_def compile_def expanded_def Let_def)
        then show ?thesis
          using r path source c Inr w chain_more(1) [OF c, of k] expand_more [OF x, of k]
          by (simp add: compile_named_def compile_def expanded_def Let_def)
      qed (use r path source c chain_more(1) [OF c, of k] in \<open>simp add: compile_named_def compile_def\<close>)
    qed (use r path in \<open>simp add: compile_named_def compile_def\<close>)
  qed (use r in \<open>simp add: compile_named_def\<close>)
qed

lemma compile_enough:
  assumes "finite (known_formulas W ls)" and "card (known_formulas W ls) < fuel"
  shows "\<exists>r. compile_named W ls fuel name overrides = Some r"
proof (cases "formula_path (wd_disk W) ls name")
  case (Inr path)
  show ?thesis
  proof (cases "read_text W path")
    case (Inr source)
    obtain r where r: "chain W ls fuel path source [] = Some r"
      using chain_returns [OF assms(1), of "[]" fuel path source] assms(2) by auto
    show ?thesis
    proof (cases r)
      case (Inr w)
      obtain raw f where w: "w = (raw, f)" by fastforce
      obtain x where "expand_steps W ls fuel 1 (defined_vars (merge_vars (rf_vars raw) overrides)) (rf_steps raw) = Some x"
        using expand_returns [OF assms] by blast
      then show ?thesis
        using \<open>formula_path (wd_disk W) ls name = Inr path\<close> \<open>read_text W path = Inr source\<close> r Inr w
        by (simp add: compile_named_def compile_def expanded_def Let_def)
    qed (use \<open>formula_path (wd_disk W) ls name = Inr path\<close> \<open>read_text W path = Inr source\<close> r
        in \<open>simp add: compile_named_def compile_def\<close>)
  qed (use Inr in \<open>simp add: compile_named_def compile_def\<close>)
qed (simp add: compile_named_def)

text \<open>
  C22. Compilation ends: when only finitely many formula names resolve, one result is given for every
  fuel above their number, whatever the files extend and expand: a cycle of parents is an error, and
  so is an expansion deeper than the limit.
\<close>

theorem compile_returns:
  assumes "finite (known_formulas W ls)"
  shows "\<exists>r. \<forall>fuel > card (known_formulas W ls). compile_named W ls fuel name overrides = Some r"
proof -
  let ?n = "Suc (card (known_formulas W ls))"
  obtain r where r: "compile_named W ls ?n name overrides = Some r"
    using compile_enough [OF assms lessI] by blast
  have "compile_named W ls fuel name overrides = Some r" if "card (known_formulas W ls) < fuel" for fuel
    using compile_more [OF r, of "fuel - ?n"] that by simp
  then show ?thesis by blast
qed

section \<open>What compilation gives is sound\<close>

lemma setters [simp]:
  "rs_children (with_base_dir d s) = rs_children s" "rs_children (with_inlined t s) = rs_children s"
  "rs_children (with_needs ns s) = rs_children s" "rs_children (without_children s) = []"
  "present_step (with_base_dir d s) = present_step s" "present_step (with_inlined t s) = present_step s"
  "present_step (with_needs ns s) = present_step s" "present_step (without_children s) = present_step s"
  by (simp_all add: with_base_dir_def with_inlined_def with_needs_def without_children_def present_step_def)

definition whole :: "RawStep \<Rightarrow> bool" where
  "whole s \<longleftrightarrow> (\<forall>t \<in> set (all_steps s). present_step t)"

lemma whole_iff: "whole s \<longleftrightarrow> present_step s \<and> (\<forall>c \<in> set (rs_children s). whole c)"
  by (auto simp: whole_def all_steps.simps [of s])

lemma whole_setters [simp]:
  "whole (with_base_dir d s) = whole s" "whole (with_inlined t s) = whole s" "whole (with_needs ns s) = whole s"
  by (simp_all add: whole_iff [of "with_base_dir d s"] whole_iff [of "with_inlined t s"] whole_iff [of "with_needs ns s"] whole_iff [of s])

lemma whole_walk_items:
  "clean (snd (walk_items T origin place index items)) \<Longrightarrow> \<forall>s \<in> set (fst (walk_items T origin place index items)). whole s"
  using walk_present(1) by (simp add: whole_def)

definition whole_formula :: "RawFormula found \<Rightarrow> bool" where
  "whole_formula m \<longleftrightarrow>
     (clean (snd m) \<longrightarrow> (\<forall>s \<in> set (rf_steps (fst m)). whole s) \<and> (\<forall>s \<in> set (rf_template (fst m)). whole s))"

lemma whole_walk: "whole_formula (walk T text origin)"
proof (cases "tl_parse T text")
  case (Inr table)
  show ?thesis
    unfolding whole_formula_def
  proof
    assume "clean (snd (walk T text origin))"
    then have "clean (snd (walk_step_array T origin table ''template'' []))" "clean (snd (walk_steps T origin table))"
      by (simp_all add: walk_def Inr walk_table_def)
    then show "(\<forall>s \<in> set (rf_steps (fst (walk T text origin))). whole s) \<and>
        (\<forall>s \<in> set (rf_template (fst (walk T text origin))). whole s)"
      by (auto simp: walk_def Inr walk_table_def walk_step_array_def walk_steps_def Let_def
          split: option.splits toml.splits dest!: whole_walk_items)
  qed
qed (simp add: whole_formula_def walk_def)

lemma whole_inlined: "\<forall>s \<in> set ss. whole s \<Longrightarrow> \<forall>s \<in> set (fst (inlined W ls base vars ss)). whole s"
proof -
  have "\<forall>s \<in> set ss. whole s \<Longrightarrow> \<forall>s \<in> set (fst (inline_description_files W ls base vars ss)). whole s"
    by (induction W ls base vars ss rule: inline_description_files.induct)
      (auto split: option.splits sum.splits prod.splits)
  then show "\<forall>s \<in> set ss. whole s \<Longrightarrow> \<forall>s \<in> set (fst (inlined W ls base vars ss)). whole s"
    by (auto simp: inlined_def split: prod.splits option.splits)
qed

lemma whole_own: "whole_formula (own_formula W ls path source)"
proof -
  define base where "base = (case path_parent path of None \<Rightarrow> ''.'' | Some b \<Rightarrow> b)"
  define w where "w = walk (wd_toml W) source (origin_of ls path)"
  define a where "a = inlined W ls base (rf_vars (fst w)) (map (with_base_dir (Some base)) (rf_steps (fst w)))"
  define b where "b = inlined W ls base (rf_vars (fst w)) (map (with_base_dir (Some base)) (rf_template (fst w)))"
  have own: "own_formula W ls path source =
      ((fst w)\<lparr>rf_steps := fst a, rf_template := fst b\<rparr>, after (snd w) (after (snd a) (after (snd b) nothing)))"
    by (simp add: own_formula_def Let_def prod_eq_iff a_def b_def w_def flip: base_def)
  have "whole_formula w" unfolding w_def by (rule whole_walk)
  then have "clean (snd w) \<Longrightarrow> (\<forall>s \<in> set (fst a). whole s) \<and> (\<forall>s \<in> set (fst b). whole s)"
    unfolding a_def b_def whole_formula_def by (intro conjI whole_inlined) auto
  then show ?thesis unfolding own whole_formula_def by simp
qed

lemma whole_overlay_step:
  "\<forall>s \<in> set (fst acc). whole s \<Longrightarrow> whole step \<Longrightarrow> \<forall>s \<in> set (fst (overlay_step acc step)). whole s"
proof -
  assume a: "\<forall>s \<in> set (fst acc). whole s" "whole step"
  obtain steps replaced where acc: "acc = (steps, replaced)" by fastforce
  have "set (steps[n := step]) \<subseteq> insert step (set steps)" for n by (rule set_update_subset_insert)
  then show "\<forall>s \<in> set (fst (overlay_step acc step)). whole s"
    using a by (cases "rs_id step") (auto simp: acc overlay_step_def Let_def)
qed

lemma whole_overlay_steps:
  "\<forall>s \<in> set (fst acc). whole s \<Longrightarrow> \<forall>s \<in> set steps. whole s \<Longrightarrow> \<forall>s \<in> set (fst (foldl overlay_step acc steps)). whole s"
proof (induction steps arbitrary: acc)
  case (Cons s ss)
  have "\<forall>t \<in> set (fst (foldl overlay_step (overlay_step acc s) ss)). whole t"
    by (rule Cons.IH [OF whole_overlay_step [OF Cons.prems(1)]]) (use Cons.prems(2) in auto)
  then show ?case by (simp only: foldl_Cons)
qed (simp only: foldl_Nil)

lemma whole_overlay: "whole_formula p \<Longrightarrow> whole_formula c \<Longrightarrow> whole_formula (overlay p c)"
proof -
  assume w: "whole_formula p" "whole_formula c"
  obtain pr f cr g where pc: "p = (pr, f)" "c = (cr, g)" by fastforce
  obtain steps replaced where o: "foldl overlay_step (rf_steps pr, []) (rf_steps cr) = (steps, replaced)" by fastforce
  have "clean (f\<lparr>fi_refusals := r\<rparr>) = clean f" for r by (simp add: clean_def)
  moreover have "\<forall>s \<in> set steps. whole s" if "clean f" "clean g"
  proof -
    have "\<forall>s \<in> set (fst (foldl overlay_step (rf_steps pr, []) (rf_steps cr))). whole s"
      by (rule whole_overlay_steps) (use w that in \<open>simp_all add: whole_formula_def pc\<close>)
    then show ?thesis unfolding o by simp
  qed
  ultimately show ?thesis using w by (simp add: whole_formula_def overlay_def pc o)
qed

lemma whole_chain:
  "chain W ls fuel path source visiting = Some (Inr m) \<Longrightarrow> whole_formula m"
  "chain_parents W ls fuel visiting ps acc = Some (Inr q) \<Longrightarrow> (\<forall>a. acc = Some a \<longrightarrow> whole_formula a) \<Longrightarrow>
     \<forall>a. q = Some a \<longrightarrow> whole_formula a"
proof (induction W ls fuel path source visiting and W ls fuel visiting ps acc arbitrary: m and q rule: chain_chain_parents.induct)
  case (2 W ls fuel path source visiting)
  obtain raw f where own: "own_formula W ls path source = (raw, f)" by fastforce
  have w: "whole_formula (raw, f)" "whole_formula (raw\<lparr>rf_extends := []\<rparr>, f)"
    using whole_own [of W ls path source] own by (simp_all add: whole_formula_def)
  show ?case
  proof (cases "rf_extends raw = []")
    case False
    then obtain q where q: "chain_parents W ls fuel visiting (rf_extends raw) None = Some (Inr q)"
      and m: "m = (case q of None \<Rightarrow> (raw\<lparr>rf_extends := []\<rparr>, f) | Some a \<Rightarrow> overlay a (raw\<lparr>rf_extends := []\<rparr>, f))"
      using 2(2) own by auto
    then show ?thesis
      using 2(1) [OF own [symmetric] False q] w whole_overlay by (auto split: option.split)
  qed (use 2(2) own w in simp)
next
  case (4 W ls fuel visiting p ps acc)
  obtain path source where s: "parent_source W ls visiting p = Inr (path, source)"
    using 4(3) by (cases "parent_source W ls visiting p") auto
  then obtain w where c: "chain W ls fuel path source (visiting @ [p]) = Some (Inr w)"
    using 4(3) by (auto split: option.splits sum.splits)
  have "whole_formula w" by (rule 4(1) [OF s refl c])
  then show ?case
    using 4(2) [OF s refl c refl] 4(3,4) s c whole_overlay by (auto split: option.splits)
qed auto

lemma whole_template:
  "whole s \<Longrightarrow> whole (substitute_template_step U target vars s)"
proof (induction U target vars s rule: substitute_template_step.induct)
  case (1 U target vars s)
  then show ?case
    using whole_iff [of s] by (subst whole_iff) (auto simp: substitute_template_step.simps [of U target vars s] Let_def present_step_def)
qed

lemma whole_propagate: "\<forall>s \<in> set ss. whole s \<Longrightarrow> \<forall>s \<in> set (propagate_target_deps target ss). whole s"
  by (auto simp: propagate_target_deps_def Let_def)

lemma whole_target:
  assumes "expand_target W ls fuel vars step expansion = Some (Inr (ss, vars'), f)" and "clean f"
  shows "\<forall>s \<in> set ss. whole s"
proof -
  obtain path source raw where "chain W ls fuel path source [expansion] = Some (Inr (raw, f))"
    and ss: "ss = propagate_target_deps step (map (substitute_template_step (wd_word W) step vars') (rf_template raw))"
    using assms(1) by (auto simp: expand_target_def give_def Let_def split: sum.splits option.splits if_splits)
  then have "\<forall>s \<in> set (rf_template raw). whole s"
    using whole_chain(1) assms(2) by (fastforce simp: whole_formula_def)
  then show ?thesis unfolding ss by (intro whole_propagate) (auto intro: whole_template)
qed

lemma present_flattened: "whole s \<Longrightarrow> \<forall>t \<in> set (flatten_into s). present_step t"
  by (auto simp: flatten_into_def whole_def)

lemma present_expanded:
  "expand_steps W ls fuel depth vars steps = Some (Inr ss, f) \<Longrightarrow> clean f \<Longrightarrow> \<forall>s \<in> set steps. whole s \<Longrightarrow>
     \<forall>s \<in> set ss. present_step s"
proof (induction W ls fuel depth vars steps arbitrary: ss f rule: expand_steps.induct)
  case (2 W ls fuel depth parent_vars step steps)
  show ?case
  proof (cases "rs_expand step")
    case None
    then obtain ts where "expand_steps W ls fuel depth parent_vars steps = Some (Inr ts, f)" "ss = flatten_into step @ ts"
      using 2(4) by auto
    then show ?thesis using 2(1) [OF None _ 2(5)] 2(6) present_flattened by auto
  next
    case (Some expansion)
    have depth: "\<not> MAX_EXPANSION_DEPTH < depth" using 2(4) Some by (auto simp: give_def)
    obtain us vars g where t: "expand_target W ls fuel parent_vars step expansion = Some (Inr (us, vars), g)"
      using 2(4) Some depth by (auto split: option.splits sum.splits)
    obtain vs h where x: "expand_steps W ls fuel (Suc depth) vars us = Some (Inr vs, h)"
      using 2(4) Some depth t by (auto split: option.splits sum.splits)
    obtain ts k where y: "expand_steps W ls fuel depth parent_vars steps = Some (Inr ts, k)" "ss = vs @ ts" "f = after g (after h k)"
      using 2(4) Some depth t x by auto
    have c: "clean g" "clean h" "clean k" using 2(5) y(3) by auto
    have "\<forall>s \<in> set vs. present_step s"
      by (rule 2(2) [OF Some depth t refl refl refl x c(2) whole_target [OF t c(1)]])
    moreover have "\<forall>s \<in> set ts. present_step s"
      using 2(3) [OF Some depth t refl refl refl x refl refl y(1) c(3)] 2(6) by simp
    ultimately show ?thesis using y(2) by auto
  qed
qed (simp add: give_def)

lemma present_pruned: "\<forall>s \<in> set (rf_steps raw). present_step s \<Longrightarrow> \<forall>s \<in> set (rf_steps (fst (prune_conditions vars (raw, f)))). present_step s"
  by (simp add: prune_conditions_def Let_def)

lemma clean_pruned: "clean (snd (prune_conditions vars (raw, f))) \<Longrightarrow> clean f"
  by (simp add: prune_conditions_def Let_def clean_def)

text \<open>
  C10. What compiles can run: the formula of an accepted compilation has distinct step ids, needs that
  name steps of the formula and have no cycle, steps of the coherent shapes, and
  its source is the text of the file; extending, inlining, expanding, substituting and pruning lose
  none of the tables the rules look at.
\<close>

theorem compiled_formula_is_sound:
  assumes "compile W ls fuel path overrides = Some (Inr c)"
  shows "formula_sound (cp_formula c) \<and> read_text W path = Inr (fm_source (cp_formula c))"
proof -
  obtain source where source: "read_text W path = Inr source"
    using assms by (cases "read_text W path") (simp_all add: compile_def)
  then obtain w where w: "chain W ls fuel path source [] = Some (Inr w)"
    using assms by (auto simp: compile_def split: option.splits sum.splits)
  obtain raw f where raw: "w = (raw, f)" by fastforce
  let ?vars = "merge_vars (rf_vars raw) overrides"
  obtain r g where x: "expand_steps W ls fuel 1 (defined_vars ?vars) (rf_steps raw) = Some (r, g)"
    using assms source w raw by (auto simp: compile_def expanded_def Let_def)
  define m where "m = (case r of Inr steps \<Rightarrow> (raw\<lparr>rf_steps := steps\<rparr>, after f g)
        | Inl e \<Rightarrow> (raw\<lparr>rf_steps := []\<rparr>, after f (after g (complain (violation ''expand'' (display e))))))"
  have fin: "finish W ls path source ?vars (prune_conditions ?vars m) = Inr c"
    using assms source w raw x by (auto simp: compile_def expanded_def Let_def m_def)
  obtain raw' f' where p: "prune_conditions ?vars m = (raw', f')" by fastforce
  have ok: "clean f'" "check (wd_semver W) raw' (formula_stem (path_file_name path)) = []"
    and c: "cp_formula c = assemble raw' source ?vars"
    using fin p by (auto simp: finish_def Let_def clean_def split: if_splits)
  have cl: "clean (snd m)" using clean_pruned [of ?vars "fst m" "snd m"] p ok(1) by simp
  then obtain steps where steps: "r = Inr steps" "m = (raw\<lparr>rf_steps := steps\<rparr>, after f g)"
    by (cases r) (simp_all add: m_def)
  have "\<forall>s \<in> set (rf_steps raw). whole s"
    using whole_chain(1) [OF w] cl raw steps(2) by (simp add: whole_formula_def)
  then have "\<forall>s \<in> set steps. present_step s"
    using present_expanded [OF x [unfolded steps(1)]] steps cl by simp
  then have "\<forall>s \<in> set (rf_steps raw'). present_step s"
    using present_pruned [of "fst m" ?vars "snd m"] p steps(2) by simp
  then have "formula_sound (cp_formula c)"
    unfolding c using assembled_sound [OF ok(2)] by (simp add: walked_iff)
  then show ?thesis using source by (simp add: c assemble_def)
qed

end
