(* ===== verification/Packs.thy ===== *)
theory Packs
  imports Paths Keys
begin

text \<open>
  Agents of packs (\<^verbatim>\<open>crates/camp-core/src/pack.rs\<close>): an agent is a directory with a prompt and an
  optional \<open>agent.toml\<close>; model, permissions and tools come from the operator's \<open>[agent_defaults]\<close>.
  Names of agents come from pack content, so the lemmas show where a name may lead and that an agent
  gets no tool the operator did not list. The file system, TOML and durations (\<open>jiff\<close>) are parameters.
\<close>

section \<open>Agents\<close>

datatype Isolation = LiveTree | Worktree

record AgentDef =
  ag_name :: string
  ag_model :: "string option"
  ag_tools :: "string list option"
  ag_permission_mode :: "string option"
  ag_isolation :: Isolation
  ag_stall_after :: "string option"
  ag_partial_messages :: bool
  ag_prompt :: string

record AgentRefusal =
  ar_agent :: string
  ar_key :: string

record RawAgent =
  ra_name :: string
  ra_prompt :: string
  ra_scope :: "string option"
  ra_stall_after :: "string option"
  ra_isolation :: "Isolation option"
  ra_partial_messages :: bool

definition REFUSED_KEYS :: "string list" where
  "REFUSED_KEYS =
     [''pre_start'', ''work_dir'', ''wake_mode'', ''idle_timeout'', ''min_active_sessions'', ''max_active_sessions'',
      ''nudge'', ''sleep_after_idle'', ''max_session_age'', ''max_session_age_jitter'']"

definition PROMPT_FILES :: "string list" where
  "PROMPT_FILES = [''prompt.template.md'', ''prompt.md.tmpl'', ''prompt.md'']"

definition pack_err :: "string \<Rightarrow> message \<Rightarrow> core_error" where
  "pack_err path reason = (case reason of Msg tm args \<Rightarrow> Pack (Msg (''{}: '' @ tm) (path # args)))"

text \<open>One entry of \<open>agent.toml\<close>; the agent and its refusals so far are the state.\<close>

definition agent_key ::
    "(string \<Rightarrow> string + int) \<Rightarrow> string \<Rightarrow> RawAgent \<times> AgentRefusal list \<Rightarrow> string \<times> toml \<Rightarrow>
     (RawAgent \<times> AgentRefusal list) res" where
  "agent_key jiff dir st entry =
     (case (st, entry) of ((raw, refusals), (key, value)) \<Rightarrow>
      if key = ''scope'' then Inr (raw\<lparr>ra_scope := toml_str value\<rparr>, refusals)
      else if key = ''stall_after''
      then (case toml_str value of
              None \<Rightarrow> Inl (pack_err dir (Msg ''agent.toml key stall_after must be a string'' []))
            | Some s \<Rightarrow>
                (case parse_duration jiff s of
                   Inl _ \<Rightarrow> Inl (pack_err dir (Msg ''agent.toml key stall_after: {e}'' [s]))
                 | Inr _ \<Rightarrow> Inr (raw\<lparr>ra_stall_after := Some s\<rparr>, refusals)))
      else if key = ''isolation''
      then (case toml_str value of
              None \<Rightarrow> Inl (pack_err dir (Msg ''agent.toml key isolation must be a string'' []))
            | Some s \<Rightarrow>
                if s = ''worktree'' then Inr (raw\<lparr>ra_isolation := Some Worktree\<rparr>, refusals)
                else if s = ''none'' then Inr (raw\<lparr>ra_isolation := Some LiveTree\<rparr>, refusals)
                else Inl (pack_err dir (Msg ''agent.toml key isolation accepts only worktree or none, got {other:?}'' [s])))
      else if key = ''partial_messages''
      then (case toml_bool value of
              None \<Rightarrow> Inl (pack_err dir (Msg ''agent.toml key partial_messages must be a boolean'' []))
            | Some b \<Rightarrow> Inr (raw\<lparr>ra_partial_messages := b\<rparr>, refusals))
      else if key \<in> set REFUSED_KEYS
      then Inr (raw, refusals @ [\<lparr>ar_agent = ra_name raw, ar_key = key\<rparr>])
      else Inr (raw, refusals))"

definition agent_toml ::
    "toml_lib \<Rightarrow> files \<Rightarrow> (string \<Rightarrow> string + int) \<Rightarrow> string \<Rightarrow> RawAgent \<Rightarrow> (RawAgent \<times> AgentRefusal list) res" where
  "agent_toml T F jiff dir raw =
     (let path = path_join dir ''agent.toml'' in
      if \<not> fl_is_file F path then Inr (raw, [])
      else case fl_read F path of
        Inl e \<Rightarrow> Inl (pack_err dir (Msg ''cannot read agent.toml: {e}'' [e]))
      | Inr text \<Rightarrow>
          (case tl_parse T text of
             Inl e \<Rightarrow> Inl (pack_err dir (Msg ''agent.toml is not valid TOML: {e}'' [e]))
           | Inr table \<Rightarrow> foldM (agent_key jiff dir) (raw, []) table))"

definition parse_agent_dir ::
    "toml_lib \<Rightarrow> files \<Rightarrow> (string \<Rightarrow> string + int) \<Rightarrow> string \<Rightarrow> (RawAgent \<times> AgentRefusal list) res" where
  "parse_agent_dir T F jiff dir =
     (case path_file_name dir of
        None \<Rightarrow> Inl (pack_err dir (Msg ''agent directory has no name'' []))
      | Some name \<Rightarrow>
     (case find (fl_is_file F) (map (path_join dir) PROMPT_FILES) of
        None \<Rightarrow> Inl (pack_err dir
          (Msg ''no prompt file (expected prompt.template.md, prompt.md.tmpl, or prompt.md)'' []))
      | Some file \<Rightarrow>
     (case fl_read F file of
        Inl e \<Rightarrow> Inl (pack_err dir (Msg ''cannot read {}: {e}'' [file, e]))
      | Inr prompt \<Rightarrow>
          if is_blank prompt then Inl (pack_err dir (Msg ''empty prompt - an agent must say what it does'' []))
          else agent_toml T F jiff dir
            \<lparr>ra_name = name, ra_prompt = prompt, ra_scope = None, ra_stall_after = None, ra_isolation = None,
             ra_partial_messages = False\<rparr>)))"

definition resolve_agent_def :: "AgentDefaults \<Rightarrow> RawAgent \<Rightarrow> string \<Rightarrow> bool \<Rightarrow> AgentDef res" where
  "resolve_agent_def defaults raw qualified_name pack_ships_skills =
     (case ad_tools defaults of
        None \<Rightarrow> Inl (Pack (Msg ''agent {qualified_name:?}: no tool allowlist resolves - set [agent_defaults].tools''
          [qualified_name]))
      | Some tools \<Rightarrow>
          if pack_ships_skills \<and> ''Skill'' \<notin> set tools
          then Inl (Pack (Msg ''agent {qualified_name:?}: the pack ships skills/ but {tools:?} lacks Skill''
            (qualified_name # tools)))
          else Inr
            \<lparr>ag_name = qualified_name, ag_model = ad_model defaults, ag_tools = Some tools,
             ag_permission_mode = ad_permission_mode defaults,
             ag_isolation = (case ra_isolation raw of None \<Rightarrow> Worktree | Some i \<Rightarrow> i),
             ag_stall_after = ra_stall_after raw, ag_partial_messages = ra_partial_messages raw,
             ag_prompt = ra_prompt raw\<rparr>)"

section \<open>Resolution by name\<close>

definition is_ascii_alnum :: "char \<Rightarrow> bool" where
  "is_ascii_alnum c \<longleftrightarrow> is_digit c \<or> is_lower c \<or> 65 \<le> byte c \<and> byte c \<le> 90"

definition valid_agent_dirname :: "string \<Rightarrow> bool" where
  "valid_agent_dirname name \<longleftrightarrow>
     name \<noteq> [] \<and> list_all (\<lambda>c. is_ascii_alnum c \<or> c = CHR ''_'' \<or> c = CHR ''-'') name"

definition no_root :: core_error where
  "no_root = Config (Msg ''config has no root directory (loaded via parse, not load) - cannot resolve agent paths'' [])"

definition no_binding :: "string \<Rightarrow> string \<Rightarrow> core_error" where
  "no_binding name binding = Pack (Msg ''agent {name:?}: no binding {binding:?} in camp.toml'' [name, binding])"

text \<open>The directory of the layer that a qualified name picks, when the import lets its skills in.\<close>

definition direct_skill_layer :: "CampConfig \<Rightarrow> string \<Rightarrow> string \<Rightarrow> string list res" where
  "direct_skill_layer cfg root name =
     (case split_once CHR ''.'' name of
        None \<Rightarrow> Inr []
      | Some (binding, _) \<Rightarrow>
          (case map_of (cf_imports cfg) binding of
             None \<Rightarrow> Inl (no_binding name binding)
           | Some decl \<Rightarrow>
               Inr (if im_skills decl \<noteq> Some False then [layer_dir decl root binding] else [])))"

definition resolve_agent_skill_layers :: "files \<Rightarrow> CampConfig \<Rightarrow> string \<Rightarrow> string list res" where
  "resolve_agent_skill_layers F cfg name =
     (case cf_root cfg of
        None \<Rightarrow> Inl no_root
      | Some root \<Rightarrow>
          rbind (transitive_layers F cfg) (\<lambda>tl.
          rbind (direct_skill_layer cfg root name) (\<lambda>direct.
          Inr (filter (\<lambda>layer. fl_is_dir F (path_join layer ''skills'')) (map snd tl @ direct)))))"

definition agent_in ::
    "toml_lib \<Rightarrow> files \<Rightarrow> (string \<Rightarrow> string + int) \<Rightarrow> CampConfig \<Rightarrow> string \<Rightarrow> string \<Rightarrow> AgentDef res" where
  "agent_in T F jiff cfg name dir =
     (if \<not> fl_is_dir F dir then Inl (UnknownAgent name [dir])
      else rbind (parse_agent_dir T F jiff dir) (\<lambda>(raw, _).
           rbind (resolve_agent_skill_layers F cfg name) (\<lambda>layers.
             resolve_agent_def (cf_agent_defaults cfg) raw name (layers \<noteq> []))))"

definition resolve_agent ::
    "toml_lib \<Rightarrow> files \<Rightarrow> (string \<Rightarrow> string + int) \<Rightarrow> CampConfig \<Rightarrow> string \<Rightarrow> AgentDef res" where
  "resolve_agent T F jiff cfg name =
     (case cf_root cfg of
        None \<Rightarrow> Inl no_root
      | Some root \<Rightarrow>
          let dirname = (case split_once CHR ''.'' name of None \<Rightarrow> name | Some (_, suffix) \<Rightarrow> suffix) in
          if \<not> valid_agent_dirname dirname then Inl (UnknownAgent name [dirname])
          else case split_once CHR ''.'' name of
            Some (binding, suffix) \<Rightarrow>
              (case map_of (cf_imports cfg) binding of
                 None \<Rightarrow> Inl (no_binding name binding)
               | Some decl \<Rightarrow>
                   agent_in T F jiff cfg name (path_join (path_join (layer_dir decl root binding) ''agents'') suffix))
          | None \<Rightarrow> agent_in T F jiff cfg name (path_join (path_join root ''agents'') name))"

section \<open>What a resolved agent is\<close>

text \<open>
  The directory that a name stands for: \<open>agents/<name>\<close> of the camp for a bare name; for
  \<open><binding>.<name>\<close>, split at the first dot, \<open>agents/<name>\<close> of the import that the operator
  declared under \<open><binding>\<close>.
\<close>

definition agent_dir :: "CampConfig \<Rightarrow> string \<Rightarrow> string \<Rightarrow> string \<Rightarrow> bool" where
  "agent_dir cfg root name dir \<longleftrightarrow>
     (CHR ''.'' \<notin> set name \<and> dir = path_join root ''agents'' @ ''/'' @ name) \<or>
     (\<exists>binding d decl. name = binding @ ''.'' @ d \<and> CHR ''.'' \<notin> set binding \<and>
        map_of (cf_imports cfg) binding = Some decl \<and> dir = path_join (layer_dir decl root binding) ''agents'' @ ''/'' @ d)"

lemma valid_dirname_no_slash: "valid_agent_dirname d \<Longrightarrow> CHR ''/'' \<notin> set d \<and> CHR ''.'' \<notin> set d"
  by (auto simp: valid_agent_dirname_def list_all_iff is_ascii_alnum_def is_digit_def is_lower_def byte_def)

lemma path_join_component:
  "valid_agent_dirname d \<Longrightarrow> path_join (path_join home ''agents'') d = path_join home ''agents'' @ ''/'' @ d"
  using valid_dirname_no_slash [of d] by (auto simp: path_join_def starts_with_iff split: if_splits)

lemma agent_in_Inr:
  assumes "agent_in T F jiff cfg name dir = Inr ag"
  shows "ag_name ag = name \<and>
    ag_model ag = ad_model (cf_agent_defaults cfg) \<and>
    ag_permission_mode ag = ad_permission_mode (cf_agent_defaults cfg) \<and>
    (\<exists>ts layers. ad_tools (cf_agent_defaults cfg) = Some ts \<and> ag_tools ag = Some ts \<and>
      resolve_agent_skill_layers F cfg name = Inr layers \<and> (layers = [] \<or> ''Skill'' \<in> set ts)) \<and>
    (\<exists>file \<in> set PROMPT_FILES. fl_read F (path_join dir file) = Inr (ag_prompt ag) \<and> \<not> is_blank (ag_prompt ag))"
proof -
  obtain raw rs layers where raw: "parse_agent_dir T F jiff dir = Inr (raw, rs)"
    and layers: "resolve_agent_skill_layers F cfg name = Inr layers"
    and def_: "resolve_agent_def (cf_agent_defaults cfg) raw name (layers \<noteq> []) = Inr ag"
    using assms by (auto simp: agent_in_def split: if_splits)
  have step: "ra_prompt (fst st') = ra_prompt (fst st)" if "agent_key jiff dir st e = Inr st'" for st e st'
    using that by (auto simp: agent_key_def split: prod.splits if_splits option.splits sum.splits)
  have fold: "foldM (agent_key jiff dir) st es = Inr st' \<Longrightarrow> ra_prompt (fst st') = ra_prompt (fst st)" for st es st'
    by (induction es arbitrary: st) (auto dest: step)
  obtain nm path prompt where path: "find (fl_is_file F) (map (path_join dir) PROMPT_FILES) = Some path"
    "fl_read F path = Inr prompt" "\<not> is_blank prompt"
    and toml: "agent_toml T F jiff dir \<lparr>ra_name = nm, ra_prompt = prompt, ra_scope = None, ra_stall_after = None,
      ra_isolation = None, ra_partial_messages = False\<rparr> = Inr (raw, rs)"
    using raw by (auto simp: parse_agent_dir_def split: option.splits sum.splits if_splits)
  have "ra_prompt raw = prompt"
    using toml by (auto simp: agent_toml_def Let_def split: sum.splits if_splits dest!: fold)
  moreover have "path \<in> set (map (path_join dir) PROMPT_FILES)"
    using path(1) by (metis find_Some_iff nth_mem)
  ultimately have "\<exists>file \<in> set PROMPT_FILES. fl_read F (path_join dir file) = Inr (ra_prompt raw) \<and> \<not> is_blank (ra_prompt raw)"
    using path by auto
  then show ?thesis
    using def_ layers by (auto simp: resolve_agent_def_def split: option.splits if_splits)
qed

lemma resolved_name: "resolve_agent T F jiff cfg name = Inr ag \<Longrightarrow> ag_name ag = name"
  by (auto simp: resolve_agent_def Let_def dest: agent_in_Inr split: option.splits if_splits prod.splits)

text \<open>
  C21. A name resolves to the agent of that name in its own pack, with the tools the operator lists: the
  prompt is read from a prompt file in \<open>agents/<name>\<close> of the camp, for a bare name, or of the import
  that the operator declared under the binding, for \<open><binding>.<name>\<close>; \<open><name>\<close> is one component
  without dots or slashes. Model, permission mode and tools are those of \<open>[agent_defaults]\<close>, tools are
  listed, and \<open>Skill\<close> is among them whenever a layer that will install skills ships some.
\<close>

theorem resolved_agent_is_contained:
  assumes "resolve_agent T F jiff cfg name = Inr ag"
  shows "ag_name ag = name \<and>
    (\<exists>root dir file. cf_root cfg = Some root \<and> agent_dir cfg root name dir \<and> file \<in> set PROMPT_FILES \<and>
      fl_read F (path_join dir file) = Inr (ag_prompt ag)) \<and>
    (let d = (case split_once CHR ''.'' name of None \<Rightarrow> name | Some (_, suffix) \<Rightarrow> suffix)
     in d \<noteq> [] \<and> CHR ''/'' \<notin> set d \<and> CHR ''.'' \<notin> set d) \<and>
    (\<exists>ts layers. ad_tools (cf_agent_defaults cfg) = Some ts \<and> ag_tools ag = Some ts \<and>
      resolve_agent_skill_layers F cfg name = Inr layers \<and> (layers = [] \<or> ''Skill'' \<in> set ts)) \<and>
    ag_model ag = ad_model (cf_agent_defaults cfg) \<and> ag_permission_mode ag = ad_permission_mode (cf_agent_defaults cfg)"
proof -
  define d where "d = (case split_once CHR ''.'' name of None \<Rightarrow> name | Some (_, suffix) \<Rightarrow> suffix)"
  obtain root dir where root: "cf_root cfg = Some root" "agent_dir cfg root name dir" and d: "valid_agent_dirname d"
    and ag: "agent_in T F jiff cfg name dir = Inr ag"
  proof (cases "split_once CHR ''.'' name")
    case None
    then have "CHR ''.'' \<notin> set name" by (simp add: split_once_None)
    then show ?thesis
      using assms None that path_join_component [of name]
      by (auto simp: resolve_agent_def Let_def d_def agent_dir_def split: option.splits if_splits)
  next
    case (Some bs)
    then obtain binding suffix where bs: "split_once CHR ''.'' name = Some (binding, suffix)" by (cases bs) simp
    then have "name = binding @ ''.'' @ suffix" "CHR ''.'' \<notin> set binding" by (simp_all add: split_once_iff)
    then show ?thesis
      using assms bs that path_join_component [of suffix]
      by (fastforce simp: resolve_agent_def Let_def d_def agent_dir_def split: option.splits if_splits)
  qed
  note facts = agent_in_Inr [OF ag]
  have "d \<noteq> []" using d by (simp add: valid_agent_dirname_def)
  then show ?thesis
    using facts root valid_dirname_no_slash [OF d] unfolding d_def [symmetric] Let_def by blast
qed

end
