(* ===== verification/Cooking.thy ===== *)
theory Cooking
  imports "HOL-Library.Word" Compose Packs Runtime
begin

unbundle bit_operations_syntax

text \<open>
  Cooking (\<^verbatim>\<open>crates/camp-core/src/formula/cook.rs\<close>): a compiled formula becomes a run. The formula
  is instantiated, its beads get a block of ids, the run directory gets the authored text, the recipe
  and the manifest, and one batch writes the root, the steps and \<open>run.cooked\<close>. The lemmas show that
  a cook is all or nothing and that what it pinned is what the runtime loads.

  The disk of runs is a map from directories to their files; which call fails, and what a failed
  write or removal leaves, is a parameter, as are the clock, the random numbers and the text of JSON.
\<close>

section \<open>Options\<close>

record CookedRun =
  cr_run_id :: string
  cr_root_bead :: string
  cr_step_beads :: "(string \<times> string) list"

record CookOptions =
  co_vars :: "(string \<times> string) list"
  co_extra_root_needs :: "string list"
  co_extra_root_labels :: "string list"
  co_root_metadata :: "(string \<times> string) list"
  co_config :: "CampConfig option"

definition default_options :: CookOptions where
  "default_options = \<lparr>co_vars = [], co_extra_root_needs = [], co_extra_root_labels = [], co_root_metadata = [],
     co_config = None\<rparr>"

section \<open>Instantiation\<close>

function substitute_keys :: "(string \<times> string) list \<Rightarrow> string \<Rightarrow> string" where
  "substitute_keys vars text =
     (case split_once CHR 0x7B text of
        None \<Rightarrow> text
      | Some (lit, rest) \<Rightarrow>
          (case split_once CHR 0x7D rest of
             None \<Rightarrow> text
           | Some (token, rest) \<Rightarrow>
               lit @ (case map_of vars token of Some v \<Rightarrow> v | None \<Rightarrow> CHR 0x7B # token @ [CHR 0x7D]) @
               substitute_keys vars rest))"
  by pat_completeness auto

termination substitute_keys
  by (relation "measure (\<lambda>(vars, text). length text)") (auto simp: split_once_iff)

declare substitute_keys.simps [simp del]

definition RUN_TARGET :: string where
  "RUN_TARGET = ''gc.run_target''"

definition instantiate_fields :: "(string \<times> string) list \<Rightarrow> Step \<Rightarrow> Step" where
  "instantiate_fields vars s =
     (let sub = substitute_double vars in
      s\<lparr>st_title := sub (st_title s), st_description := map_option sub (st_description s),
        st_metadata := sub_entries sub (st_metadata s),
        st_check := map_option (\<lambda>c. c\<lparr>ck_path := sub (ck_path c)\<rparr>) (st_check s),
        st_on_complete := map_option (\<lambda>oc. oc\<lparr>oc_bond := sub (oc_bond oc), oc_vars := sub_entries sub (oc_vars oc)\<rparr>)
          (st_on_complete s),
        st_assignee := map_option sub (st_assignee s)\<rparr>)"

definition route_step ::
    "('r, 'v) world \<Rightarrow> (string \<Rightarrow> string + int) \<Rightarrow> CampConfig option \<Rightarrow> string \<Rightarrow> Step \<Rightarrow> Step res" where
  "route_step W jiff cfg name s =
     rbind (ensure (\<not> str_contains ''{{'' (st_title s))
       (Cook (Msg ''formula {:?} step {:?}: title still has an unresolved variable after substitution: {:?}''
         [name, st_id s, st_title s]))) (\<lambda>_.
     case map_of (st_metadata s) RUN_TARGET of
       None \<Rightarrow> Inr s
     | Some target \<Rightarrow>
         rbind (ensure (\<not> str_contains ''{{'' target)
           (Cook (Msg ''formula {:?} step {:?}: route {target:?} still has an unresolved variable''
             [name, st_id s, target]))) (\<lambda>_.
         case cfg of
           None \<Rightarrow> Inl (Cook (Msg ''formula {:?} step {:?} routes to {target:?}, but this cook has no camp config''
             [name, st_id s, target]))
         | Some c \<Rightarrow>
             rbind (resolve_agent (wd_toml W) (dk_files (wd_disk W)) jiff c target) (\<lambda>ag.
             Inr (s\<lparr>st_assignee := Some (ag_name ag)\<rparr>))))"

definition instantiate ::
    "('r, 'v) world \<Rightarrow> (string \<Rightarrow> string + int) \<Rightarrow> Formula \<Rightarrow> CampConfig option \<Rightarrow> Formula res" where
  "instantiate W jiff F cfg =
     (let vars = defined_vars (fm_vars F) in
      rbind (mapM (\<lambda>s. route_step W jiff cfg (fm_name F) (instantiate_fields vars s)) (fm_steps F)) (\<lambda>steps.
      Inr (F\<lparr>fm_description := map_option (substitute_double vars) (fm_description F), fm_steps := steps\<rparr>)))"

section \<open>The block of ids and the edges\<close>

text \<open>\<open>n + 1 + offset\<close> is an \<open>i64\<close> addition; the release build wraps.\<close>

definition step_bead_ids :: "string \<Rightarrow> int \<Rightarrow> Step list \<Rightarrow> (string \<times> string) list" where
  "step_bead_ids prefix n steps =
     btree_extend [] (map (\<lambda>(k, s). (st_id s, format_bead_id prefix (i64_wrap (n + 1 + int k)))) (enumerate 0 steps))"

definition needed_beads :: "string \<Rightarrow> (string \<times> string) list \<Rightarrow> Step \<Rightarrow> string list res" where
  "needed_beads name step_beads s =
     mapM (\<lambda>i. case map_of step_beads i of
         None \<Rightarrow> Inl (Cook (Msg ''formula {:?} step {:?} needs unknown step id {id:?}'' [name, st_id s, i]))
       | Some bead \<Rightarrow> Inr bead) (st_needs s)"

definition step_needs_of ::
    "string \<Rightarrow> (string \<times> string) list \<Rightarrow> Step list \<Rightarrow> (string \<times> string list) list res" where
  "step_needs_of name step_beads steps =
     rbind (mapM (\<lambda>s. rbind (needed_beads name step_beads s) (\<lambda>ns. Inr (st_id s, ns))) steps) (\<lambda>ps.
     Inr (btree_extend [] ps))"

record cook_plan =
  pl_root :: string
  pl_steps :: "(string \<times> string) list"
  pl_needs :: "(string \<times> string list) list"

text \<open>What is settled before the disk or the ledger is touched.\<close>

definition plan_cook :: "state \<Rightarrow> Formula \<Rightarrow> RigConfig \<Rightarrow> cook_plan res" where
  "plan_cook st F rg =
     rbind (ensure (fm_steps F \<noteq> [])
       (Cook (Msg ''formula {:?} has no steps - cook requires parse_and_validate output'' [fm_name F]))) (\<lambda>_.
     rbind (next_bead_id st (rg_prefix rg)) (\<lambda>first.
     case parse_bead_id first of
       None \<Rightarrow> Inl (Corrupt (Msg ''next_bead_id returned unparseable id {first:?}'' [first]))
     | Some (prefix, n) \<Rightarrow>
         let step_beads = step_bead_ids prefix n (fm_steps F) in
         rbind (step_needs_of (fm_name F) step_beads (fm_steps F)) (\<lambda>step_needs.
         Inr \<lparr>pl_root = format_bead_id prefix n, pl_steps = step_beads, pl_needs = step_needs\<rparr>)))"

section \<open>The run directory\<close>

type_synonym run_disk = "string \<rightharpoonup> (string \<rightharpoonup> string)"

text \<open>
  The clock at the cook and at the append, the random numbers, and the faults of the disk: \<open>None\<close>
  is that the call succeeds. A failed write leaves what it leaves of the file, a failed removal what
  it leaves of the directory.
\<close>

record 'j cook_env =
  ce_ts :: string
  ce_append_ts :: string
  ce_rand :: "nat \<Rightarrow> 32 word"
  ce_create_all :: "string \<Rightarrow> string option"
  ce_create :: "string \<Rightarrow> string option"
  ce_write :: "string \<Rightarrow> string \<Rightarrow> (string \<times> string option) option"
  ce_remove :: "string \<Rightarrow> (string \<times> (string \<rightharpoonup> string)) option"
  ce_pretty :: "'j \<Rightarrow> string"
  ce_formula :: "Formula \<Rightarrow> 'j"

definition hex_digit :: "int \<Rightarrow> char" where
  "hex_digit d = char_of (if d < 10 then 48 + d else 87 + d)"

text \<open>\<open>{:06x}\<close> of \<open>fastrand::u32(..) & 0xFF_FFFF\<close>, after the clock without its separators.\<close>

definition hex6 :: "32 word \<Rightarrow> string" where
  "hex6 w = map (\<lambda>k. hex_digit (uint (drop_bit k (w AND 0xFFFFFF) AND 0xF))) [20, 16, 12, 8, 4, 0]"

definition new_run_id :: "'j cook_env \<Rightarrow> nat \<Rightarrow> string" where
  "new_run_id E k = filter (\<lambda>c. c \<noteq> CHR ''-'' \<and> c \<noteq> CHR '':'') (ce_ts E) @ ''-'' @ hex6 (ce_rand E k)"

datatype mkdir = DirMade run_disk | DirExists | DirFailed string

definition create_dir :: "'j cook_env \<Rightarrow> string \<Rightarrow> run_disk \<Rightarrow> mkdir" where
  "create_dir E dir fs =
     (if fs dir \<noteq> None then DirExists
      else case ce_create E dir of None \<Rightarrow> DirMade (fs(dir \<mapsto> Map.empty)) | Some e \<Rightarrow> DirFailed e)"

text \<open>The run's id and directory; the disk is changed only when this succeeds.\<close>

definition make_run_dir :: "'j cook_env \<Rightarrow> string \<Rightarrow> run_disk \<Rightarrow> (run_disk \<times> string) res" where
  "make_run_dir E run_dir fs =
     (case ce_create_all E run_dir of
        Some e \<Rightarrow> Inl (Cook (Msg ''cannot create {}: {e}'' [run_dir, e]))
      | None \<Rightarrow>
          let run_id = new_run_id E 0; dir = path_join run_dir run_id in
          (case create_dir E dir fs of
             DirMade fs' \<Rightarrow> Inr (fs', run_id)
           | DirFailed e \<Rightarrow> Inl (Cook (Msg ''cannot create {}: {e}'' [dir, e]))
           | DirExists \<Rightarrow>
               let run_id = new_run_id E 1; dir = path_join run_dir run_id in
               (case create_dir E dir fs of
                  DirMade fs' \<Rightarrow> Inr (fs', run_id)
                | DirFailed e \<Rightarrow> Inl (Cook (Msg ''run id collision persisted after retry at {}: {e}'' [dir, e]))
                | DirExists \<Rightarrow> Inl (Cook (Msg ''run id collision persisted after retry at {}: {e}'' [dir, ''File exists''])))))"

definition put_file :: "string \<Rightarrow> string \<Rightarrow> string option \<Rightarrow> run_disk \<Rightarrow> run_disk" where
  "put_file dir name bytes fs =
     (case fs dir of None \<Rightarrow> fs | Some files \<Rightarrow> fs(dir \<mapsto> files(name := bytes)))"

fun write_all :: "'j cook_env \<Rightarrow> string \<Rightarrow> (string \<times> string) list \<Rightarrow> run_disk \<Rightarrow> run_disk \<times> unit res" where
  "write_all E dir [] fs = (fs, Inr ())"
| "write_all E dir ((name, bytes) # rest) fs =
     (case ce_write E dir name of
        Some (e, left) \<Rightarrow>
          (put_file dir name left fs, Inl (Cook (Msg ''cannot write {}/{name}: {e}'' [dir, name, e])))
      | None \<Rightarrow> write_all E dir rest (put_file dir name (Some bytes) fs))"

definition json_strings :: "'j value_ops \<Rightarrow> string list \<Rightarrow> 'j" where
  "json_strings J xs = jv_list J (map (jv_string J) xs)"

definition json_map :: "'j value_ops \<Rightarrow> (string \<times> string) list \<Rightarrow> 'j" where
  "json_map J m = jv_object J (map (\<lambda>(k, v). (k, jv_string J v)) m)"

definition recipe_json :: "'j value_ops \<Rightarrow> 'j cook_env \<Rightarrow> Formula \<Rightarrow> 'j" where
  "recipe_json J E F =
     jv_object J [(''recipe_version'', jv_int J (int RECIPE_VERSION)), (''formula'', ce_formula E F)]"

definition manifest_json ::
    "'j value_ops \<Rightarrow> 'j cook_env \<Rightarrow> Formula \<Rightarrow> RigConfig \<Rightarrow> string \<Rightarrow> string \<Rightarrow> (string \<times> string) list \<Rightarrow>
     string \<Rightarrow> CookOptions \<Rightarrow> 'j" where
  "manifest_json J E F rg actor root step_beads run_id opts =
     jv_object J
       ([(''run_id'', jv_string J run_id), (''formula'', jv_string J (fm_name F)), (''rig'', jv_string J (rg_name rg)),
         (''actor'', jv_string J actor), (''cooked_ts'', jv_string J (ce_ts E)), (''root'', jv_string J root),
         (''steps'', json_map J step_beads)] @
        (if co_vars opts = [] then [] else [(''vars'', json_map J (co_vars opts))]))"

definition run_files ::
    "'j value_ops \<Rightarrow> 'j cook_env \<Rightarrow> Formula \<Rightarrow> RigConfig \<Rightarrow> string \<Rightarrow> cook_plan \<Rightarrow> string \<Rightarrow> CookOptions \<Rightarrow>
     (string \<times> string) list" where
  "run_files J E F rg actor plan run_id opts =
     [(fm_name F @ ''.toml'', fm_source F), (''recipe.json'', ce_pretty E (recipe_json J E F)),
      (''manifest.json'', ce_pretty E (manifest_json J E F rg actor (pl_root plan) (pl_steps plan) run_id opts))]"

section \<open>The batch\<close>

definition root_input ::
    "'j value_ops \<Rightarrow> Formula \<Rightarrow> RigConfig \<Rightarrow> string \<Rightarrow> cook_plan \<Rightarrow> string \<Rightarrow> CookOptions \<Rightarrow> 'j event_input" where
  "root_input J F rg actor plan run_id opts =
     \<lparr>in_kind = BeadCreated, in_rig = Some (rg_name rg), in_actor = actor, in_bead = Some (pl_root plan),
      in_data = jv_object J
        ([(''title'', jv_string J (fm_name F)),
          (''needs'', json_strings J (map snd (pl_steps plan) @ co_extra_root_needs opts)),
          (''run_id'', jv_string J run_id)] @
         (case fm_description F of None \<Rightarrow> [] | Some d \<Rightarrow> [(''description'', jv_string J d)]) @
         (if co_extra_root_labels opts = [] then [] else [(''labels'', json_strings J (co_extra_root_labels opts))]) @
         (if co_root_metadata opts = [] then [] else [(''metadata'', json_map J (co_root_metadata opts))]))\<rparr>"

definition lookup_or :: "'a \<Rightarrow> (string \<times> 'a) list \<Rightarrow> string \<Rightarrow> 'a" where
  "lookup_or d m k = (case map_of m k of Some v \<Rightarrow> v | None \<Rightarrow> d)"

definition step_input ::
    "'j value_ops \<Rightarrow> RigConfig \<Rightarrow> string \<Rightarrow> cook_plan \<Rightarrow> string \<Rightarrow> CookOptions \<Rightarrow> Step \<Rightarrow> 'j event_input" where
  "step_input J rg actor plan run_id opts s =
     (let needs = lookup_or [] (pl_needs plan) (st_id s) in
      \<lparr>in_kind = BeadCreated, in_rig = Some (rg_name rg), in_actor = actor,
       in_bead = Some (lookup_or [] (pl_steps plan) (st_id s)),
       in_data = jv_object J
         ([(''title'', jv_string J (substitute_keys (co_vars opts) (st_title s))),
           (''run_id'', jv_string J run_id), (''step_id'', jv_string J (st_id s))] @
          (case st_description s of None \<Rightarrow> []
           | Some d \<Rightarrow> [(''description'', jv_string J (substitute_keys (co_vars opts) d))]) @
          (if needs = [] then [] else [(''needs'', json_strings J needs)]) @
          (case st_assignee s of None \<Rightarrow> [] | Some a \<Rightarrow> [(''assignee'', jv_string J a)]) @
          (if st_metadata s = [] then [] else [(''metadata'', json_map J (st_metadata s))]))\<rparr>)"

definition cooked_input ::
    "'j value_ops \<Rightarrow> Formula \<Rightarrow> RigConfig \<Rightarrow> string \<Rightarrow> cook_plan \<Rightarrow> string \<Rightarrow> 'j event_input" where
  "cooked_input J F rg actor plan run_id =
     \<lparr>in_kind = RunCooked, in_rig = Some (rg_name rg), in_actor = actor, in_bead = Some (pl_root plan),
      in_data = jv_object J
        [(''run_id'', jv_string J run_id), (''formula'', jv_string J (fm_name F)),
         (''root'', jv_string J (pl_root plan)), (''steps'', json_map J (pl_steps plan))]\<rparr>"

definition cook_inputs ::
    "'j value_ops \<Rightarrow> Formula \<Rightarrow> RigConfig \<Rightarrow> string \<Rightarrow> cook_plan \<Rightarrow> string \<Rightarrow> CookOptions \<Rightarrow> 'j event_input list" where
  "cook_inputs J F rg actor plan run_id opts =
     root_input J F rg actor plan run_id opts # map (step_input J rg actor plan run_id opts) (fm_steps F) @
     [cooked_input J F rg actor plan run_id]"

section \<open>The cook\<close>

definition remove_run_dir :: "'j cook_env \<Rightarrow> string \<Rightarrow> core_error \<Rightarrow> run_disk \<Rightarrow> run_disk \<times> core_error" where
  "remove_run_dir E dir batch_err fs =
     (case ce_remove E dir of
        None \<Rightarrow> (fs(dir := None), batch_err)
      | Some (e, left) \<Rightarrow>
          (fs(dir \<mapsto> left),
           Cook (case display batch_err of Msg tm args \<Rightarrow>
             Msg (''cook failed ('' @ tm @ '') and the run dir {} could not be removed: {cleanup}'') (args @ [dir, e]))))"

definition cook_with ::
    "('r, 'v) world \<Rightarrow> (string \<Rightarrow> string + int) \<Rightarrow> 'j serde \<Rightarrow> 'j value_ops \<Rightarrow> 'j cook_env \<Rightarrow>
     Formula \<Rightarrow> string \<Rightarrow> RigConfig \<Rightarrow> string \<Rightarrow> CookOptions \<Rightarrow> ledger \<times> run_disk \<Rightarrow>
     (ledger \<times> run_disk) \<times> CookedRun res" where
  "cook_with W jiff S J E formula run_dir rg actor opts st =
     (case st of (l, fs) \<Rightarrow>
      case instantiate W jiff formula (co_config opts) of Inl e \<Rightarrow> (st, Inl e) | Inr F \<Rightarrow>
      (case plan_cook (tables l) F rg of Inl e \<Rightarrow> (st, Inl e) | Inr plan \<Rightarrow>
      (case make_run_dir E run_dir fs of Inl e \<Rightarrow> (st, Inl e) | Inr (fs1, run_id) \<Rightarrow>
      (let dir = path_join run_dir run_id in
       case write_all E dir (run_files J E F rg actor plan run_id opts) fs1 of
         (fs2, Inl e) \<Rightarrow> ((l, fs2), Inl e)
       | (fs2, Inr _) \<Rightarrow>
           (case append_batch S (ce_append_ts E) (cook_inputs J F rg actor plan run_id opts) l of
              (l', Inl e) \<Rightarrow> (case remove_run_dir E dir e fs2 of (fs3, e') \<Rightarrow> ((l', fs3), Inl e'))
            | (l', Inr _) \<Rightarrow>
                ((l', fs2), Inr \<lparr>cr_run_id = run_id, cr_root_bead = pl_root plan, cr_step_beads = pl_steps plan\<rparr>))))))"

definition cook ::
    "('r, 'v) world \<Rightarrow> (string \<Rightarrow> string + int) \<Rightarrow> 'j serde \<Rightarrow> 'j value_ops \<Rightarrow> 'j cook_env \<Rightarrow>
     Formula \<Rightarrow> string \<Rightarrow> RigConfig \<Rightarrow> string \<Rightarrow> ledger \<times> run_disk \<Rightarrow> (ledger \<times> run_disk) \<times> CookedRun res" where
  "cook W jiff S J E formula run_dir rg actor st = cook_with W jiff S J E formula run_dir rg actor default_options st"


section \<open>All or nothing\<close>

text \<open>The disk but for one directory.\<close>

definition elsewhere_same :: "string \<Rightarrow> run_disk \<Rightarrow> run_disk \<Rightarrow> bool" where
  "elsewhere_same dir fs fs' \<longleftrightarrow> (\<forall>d. d \<noteq> dir \<longrightarrow> fs' d = fs d)"

lemma make_run_dir_Inr:
  assumes "make_run_dir E run_dir fs = Inr (fs', run_id)"
  shows "fs (path_join run_dir run_id) = None \<and> fs' = fs(path_join run_dir run_id \<mapsto> Map.empty)"
  using assms
  by (auto simp: make_run_dir_def create_dir_def Let_def split: option.splits mkdir.splits if_splits)

lemma put_file_same: "elsewhere_same dir fs (put_file dir name b fs)" "put_file dir name b fs dir = None \<longleftrightarrow> fs dir = None"
  by (simp_all add: elsewhere_same_def put_file_def split: option.split)

lemma elsewhere_trans: "elsewhere_same d a b \<Longrightarrow> elsewhere_same d b c \<Longrightarrow> elsewhere_same d a c"
  by (simp add: elsewhere_same_def)

lemma write_all_same: "write_all E dir files fs = (fs', r) \<Longrightarrow> elsewhere_same dir fs fs'"
proof (induction E dir files fs rule: write_all.induct)
  case (2 E dir name bytes rest fs)
  then show ?case
    using put_file_same(1) [of dir fs name] elsewhere_trans by (fastforce split: option.splits prod.splits)
qed (simp add: elsewhere_same_def)

lemma write_all_Inr:
  "write_all E dir files fs = (fs', Inr u) \<Longrightarrow> fs dir = Some g \<Longrightarrow> fs' dir = Some (g ++ map_of (rev files))"
proof (induction E dir files fs arbitrary: g rule: write_all.induct)
  case (2 E dir name bytes rest fs)
  have "ce_write E dir name = None" using 2(2) by (cases "ce_write E dir name") auto
  moreover from this have "write_all E dir rest (put_file dir name (Some bytes) fs) = (fs', Inr u)" using 2(2) by simp
  moreover have "put_file dir name (Some bytes) fs dir = Some (g(name \<mapsto> bytes))" using 2(3) by (simp add: put_file_def)
  ultimately have "fs' dir = Some ((g(name \<mapsto> bytes)) ++ map_of (rev rest))" using 2(1) by blast
  then show ?case by (simp add: map_add_def fun_eq_iff split: option.splits)
qed simp

lemma cook_with_Inr:
  assumes "cook_with W jiff S J E formula run_dir rg actor opts (l, fs) = ((l', fs'), Inr run)"
  shows "\<exists>F plan seqs. instantiate W jiff formula (co_config opts) = Inr F \<and> plan_cook (tables l) F rg = Inr plan \<and>
    cr_root_bead run = pl_root plan \<and> cr_step_beads run = pl_steps plan \<and>
    fs (path_join run_dir (cr_run_id run)) = None \<and> elsewhere_same (path_join run_dir (cr_run_id run)) fs fs' \<and>
    fs' (path_join run_dir (cr_run_id run)) = Some (map_of (rev (run_files J E F rg actor plan (cr_run_id run) opts))) \<and>
    insert_all S (ce_append_ts E) (cook_inputs J F rg actor plan (cr_run_id run) opts) l = Inr (l', seqs)"
proof -
  obtain F where F: "instantiate W jiff formula (co_config opts) = Inr F"
    using assms by (cases "instantiate W jiff formula (co_config opts)") (simp_all add: cook_with_def)
  obtain plan where plan: "plan_cook (tables l) F rg = Inr plan"
    using assms F by (cases "plan_cook (tables l) F rg") (simp_all add: cook_with_def)
  obtain fs1 run_id where dir: "make_run_dir E run_dir fs = Inr (fs1, run_id)"
    using assms F plan by (cases "make_run_dir E run_dir fs") (auto simp: cook_with_def)
  let ?dir = "path_join run_dir run_id" and ?files = "run_files J E F rg actor plan run_id opts"
  obtain fs2 r where w: "write_all E ?dir ?files fs1 = (fs2, r)" by fastforce
  obtain u where r: "r = Inr u" using assms F plan dir w by (cases r) (simp_all add: cook_with_def Let_def)
  obtain l2 b where b: "append_batch S (ce_append_ts E) (cook_inputs J F rg actor plan run_id opts) l = (l2, b)" by fastforce
  obtain seqs where seqs: "b = Inr seqs"
    using assms F plan dir w r b by (cases b) (simp_all add: cook_with_def Let_def split: prod.splits)
  have res: "l' = l2" "fs' = fs2" "run = \<lparr>cr_run_id = run_id, cr_root_bead = pl_root plan, cr_step_beads = pl_steps plan\<rparr>"
    using assms F plan dir w r b seqs by (simp_all add: cook_with_def Let_def)
  note made = make_run_dir_Inr [OF dir]
  have "fs2 ?dir = Some (Map.empty ++ map_of (rev ?files))"
    by (rule write_all_Inr [OF w [unfolded r]]) (simp add: made)
  moreover have "elsewhere_same ?dir fs fs2"
    using write_all_same [OF w] made by (simp add: elsewhere_same_def)
  moreover have "insert_all S (ce_append_ts E) (cook_inputs J F rg actor plan run_id opts) l = Inr (l', seqs)"
    using b seqs res(1) append_batch_Inr by blast
  ultimately show ?thesis using F plan made res by auto
qed

lemma cook_with_Inl:
  assumes "cook_with W jiff S J E formula run_dir rg actor opts (l, fs) = ((l', fs'), Inl e)"
  shows "l' = l \<and> (\<exists>dir. elsewhere_same dir fs fs' \<and> (fs dir = None \<or> fs' = fs)) \<and>
    ((\<forall>d f. ce_write E d f = None) \<and> (\<forall>d. ce_remove E d = None) \<longrightarrow> fs' = fs)"
proof (cases "\<exists>F plan fs1 run_id. instantiate W jiff formula (co_config opts) = Inr F \<and> plan_cook (tables l) F rg = Inr plan \<and>
    make_run_dir E run_dir fs = Inr (fs1, run_id)")
  case False
  then have "l' = l \<and> fs' = fs"
    using assms by (auto simp: cook_with_def split: sum.splits)
  then show ?thesis by (simp add: elsewhere_same_def)
next
  case True
  then obtain F plan fs1 run_id where F: "instantiate W jiff formula (co_config opts) = Inr F"
    and plan: "plan_cook (tables l) F rg = Inr plan" and dir: "make_run_dir E run_dir fs = Inr (fs1, run_id)" by blast
  let ?dir = "path_join run_dir run_id" and ?files = "run_files J E F rg actor plan run_id opts"
  obtain fs2 r where w: "write_all E ?dir ?files fs1 = (fs2, r)" by fastforce
  note made = make_run_dir_Inr [OF dir]
  have same: "elsewhere_same ?dir fs fs2"
    using write_all_same [OF w] made by (simp add: elsewhere_same_def)
  show ?thesis
  proof (cases r)
    case (Inl e1)
    then have "l' = l" "fs' = fs2" using assms F plan dir w by (simp_all add: cook_with_def Let_def)
    moreover have False if "\<forall>d f. ce_write E d f = None"
      using that w Inl by (simp add: run_files_def)
    ultimately show ?thesis using same made by blast
  next
    case (Inr u)
    obtain l2 b where b: "append_batch S (ce_append_ts E) (cook_inputs J F rg actor plan run_id opts) l = (l2, b)" by fastforce
    obtain fs3 e2 where rm: "remove_run_dir E ?dir (case b of Inl x \<Rightarrow> x) fs2 = (fs3, e2)" by fastforce
    obtain x where x: "b = Inl x" using assms F plan dir w Inr b by (cases b) (simp_all add: cook_with_def Let_def)
    then have res: "l' = l2" "fs' = fs3" using assms F plan dir w Inr b rm by (simp_all add: cook_with_def Let_def)
    have l2: "l2 = l" using b x append_batch_Inl by blast
    have keep: "elsewhere_same ?dir fs fs3"
      using same rm by (auto simp: remove_run_dir_def elsewhere_same_def split: option.splits)
    have "fs3 = fs" if "ce_remove E ?dir = None"
    proof
      fix d
      have "fs3 = fs2(?dir := None)" using that rm by (simp add: remove_run_dir_def)
      then show "fs3 d = fs d" using same made by (cases "d = ?dir") (simp_all add: elsewhere_same_def)
    qed
    then show ?thesis using res l2 keep made by (intro conjI exI [of _ ?dir]) auto
  qed
qed

lemma instantiate_Inr:
  assumes "instantiate W jiff formula cfg = Inr F"
  shows "\<exists>steps. F = formula\<lparr>fm_description := map_option (substitute_double (defined_vars (fm_vars formula))) (fm_description formula),
      fm_steps := steps\<rparr> \<and>
    list_all2 (\<lambda>s t. route_step W jiff cfg (fm_name formula) (instantiate_fields (defined_vars (fm_vars formula)) s) = Inr t)
      (fm_steps formula) steps"
  using assms by (auto simp: instantiate_def Let_def mapM_eq_Inr list_all2_conv_all_nth)

lemma route_step_Inr:
  assumes "route_step W jiff cfg name s = Inr t"
  shows "\<not> str_contains ''{{'' (st_title s) \<and> t = s\<lparr>st_assignee := st_assignee t\<rparr> \<and>
    (case map_of (st_metadata s) RUN_TARGET of
       None \<Rightarrow> t = s
     | Some target \<Rightarrow> \<not> str_contains ''{{'' target \<and> st_assignee t = Some target \<and>
         (\<exists>c ag. cfg = Some c \<and> resolve_agent (wd_toml W) (dk_files (wd_disk W)) jiff c target = Inr ag))"
  using assms resolved_name
  by (auto simp: route_step_def ensure_def split: option.splits if_splits)

lemma instantiate_ids:
  assumes "instantiate W jiff formula cfg = Inr F"
  shows "map st_id (fm_steps F) = map st_id (fm_steps formula)"
proof -
  obtain steps where F: "F = formula\<lparr>fm_description := map_option (substitute_double (defined_vars (fm_vars formula))) (fm_description formula),
      fm_steps := steps\<rparr>"
    and steps: "list_all2 (\<lambda>s t. route_step W jiff cfg (fm_name formula) (instantiate_fields (defined_vars (fm_vars formula)) s) = Inr t)
      (fm_steps formula) steps"
    using instantiate_Inr [OF assms] by blast
  have "st_id t = st_id s" if "route_step W jiff cfg n (instantiate_fields vs s) = Inr t" for n vs s t
  proof -
    have "t = instantiate_fields vs s\<lparr>st_assignee := st_assignee t\<rparr>" using route_step_Inr [OF that] by blast
    then have "st_id t = st_id (instantiate_fields vs s\<lparr>st_assignee := st_assignee t\<rparr>)" by simp
    then show ?thesis by (simp add: instantiate_fields_def Let_def)
  qed
  then have "list_all2 (\<lambda>s t. st_id t = st_id s) (fm_steps formula) steps"
    using steps by (auto elim: list_all2_mono)
  then show ?thesis by (auto simp: F list_all2_conv_all_nth intro: nth_equalityI)
qed

lemma plan_cook_Inr:
  assumes "plan_cook st F rg = Inr plan"
  shows "fm_steps F \<noteq> [] \<and> (\<exists>prefix n first. next_bead_id st (rg_prefix rg) = Inr first \<and> parse_bead_id first = Some (prefix, n) \<and>
    pl_root plan = format_bead_id prefix n \<and> pl_steps plan = step_bead_ids prefix n (fm_steps F) \<and>
    step_needs_of (fm_name F) (pl_steps plan) (fm_steps F) = Inr (pl_needs plan))"
  using assms by (auto simp: plan_cook_def ensure_def Let_def split: if_splits option.splits)

lemma step_beads_defined:
  "fst ` set (step_bead_ids prefix n steps) = st_id ` set steps"
  by (force simp: step_bead_ids_def keys_btree_extend set_zip enumerate_eq_zip image_iff in_set_conv_nth)

lemma plan_steps_defined:
  "plan_cook st F rg = Inr plan \<Longrightarrow> s \<in> set (fm_steps F) \<Longrightarrow> \<exists>b. map_of (pl_steps plan) (st_id s) = Some b"
  using plan_cook_Inr [of st F rg plan] step_beads_defined
  by (metis imageI map_of_eq_None_iff not_None_eq)

text \<open>
  C11. A cook is all or nothing: when it fails, the ledger is as it was, no directory that was there has
  changed, and without faults of the disk the disk is as it was; when it succeeds, one batch put the
  root, a bead for each step in order and \<open>run.cooked\<close> at the end of the log, all by the actor of the
  cook, and the run's directory is new.
\<close>

theorem cook_all_or_nothing:
  assumes "cook_with W jiff S J E formula run_dir rg actor opts (l, fs) = ((l', fs'), r)"
  shows "(\<forall>d. fs d \<noteq> None \<longrightarrow> fs' d = fs d) \<and>
    (case r of
       Inl e \<Rightarrow> l' = l \<and> ((\<forall>d f. ce_write E d f = None) \<and> (\<forall>d. ce_remove E d = None) \<longrightarrow> fs' = fs)
     | Inr run \<Rightarrow>
         (\<exists>rows. event_log l' = event_log l @ rows \<and> (\<forall>r \<in> set rows. r_actor r = actor) \<and>
            map r_bead rows = Some (cr_root_bead run) #
              map (\<lambda>s. map_of (cr_step_beads run) (st_id s)) (fm_steps formula) @ [Some (cr_root_bead run)] \<and>
            map r_type rows = replicate (Suc (length (fm_steps formula))) (as_str BeadCreated) @ [as_str RunCooked]) \<and>
         fs (path_join run_dir (cr_run_id run)) = None \<and> fs' (path_join run_dir (cr_run_id run)) \<noteq> None)"
proof (cases r)
  case (Inl e)
  obtain dir where "l' = l" "elsewhere_same dir fs fs'" "fs dir = None \<or> fs' = fs"
    "(\<forall>d f. ce_write E d f = None) \<and> (\<forall>d. ce_remove E d = None) \<longrightarrow> fs' = fs"
    using cook_with_Inl [OF assms [unfolded Inl]] by blast
  moreover have "\<forall>d. fs d \<noteq> None \<longrightarrow> fs' d = fs d"
    using calculation(2,3) by (metis elsewhere_same_def)
  ultimately show ?thesis unfolding Inl by simp
next
  case (Inr run)
  obtain F plan seqs where F: "instantiate W jiff formula (co_config opts) = Inr F" and plan: "plan_cook (tables l) F rg = Inr plan"
    and run: "cr_root_bead run = pl_root plan" "cr_step_beads run = pl_steps plan"
    and new: "fs (path_join run_dir (cr_run_id run)) = None" "elsewhere_same (path_join run_dir (cr_run_id run)) fs fs'"
      "fs' (path_join run_dir (cr_run_id run)) = Some (map_of (rev (run_files J E F rg actor plan (cr_run_id run) opts)))"
    and b: "insert_all S (ce_append_ts E) (cook_inputs J F rg actor plan (cr_run_id run) opts) l = Inr (l', seqs)"
    using cook_with_Inr [OF assms [unfolded Inr]] by blast
  let ?inps = "cook_inputs J F rg actor plan (cr_run_id run) opts"
  let ?rows = "map (\<lambda>(seq, inp). row_of S (event_of seq (ce_append_ts E) inp)) (zip seqs ?inps)"
  have log: "event_log l' = event_log l @ ?rows" and len: "length seqs = length ?inps"
    using insert_all_log [OF b] by (simp_all del: upt_Suc)
  have cols: "map f ?rows = map g ?inps" if "\<And>seq inp. f (row_of S (event_of seq (ce_append_ts E) inp)) = g inp"
    for f :: "event_row \<Rightarrow> 'x" and g
    using len that by (intro nth_equalityI) auto
  have rows: "map r_bead ?rows = map in_bead ?inps"
    "map r_type ?rows = map (as_str \<circ> in_kind) ?inps"
    by (rule cols; simp add: row_of_def event_of_def)+
  have "set (map in_actor ?inps) \<subseteq> {actor}"
    by (auto simp: cook_inputs_def root_input_def step_input_def cooked_input_def Let_def)
  then have actors: "\<forall>r \<in> set ?rows. r_actor r = actor"
    by (auto simp: row_of_def event_of_def dest!: set_zip_rightD)
  have ids: "map st_id (fm_steps F) = map st_id (fm_steps formula)" by (rule instantiate_ids [OF F])
  have "map in_bead ?inps = Some (pl_root plan) # map (\<lambda>s. map_of (pl_steps plan) (st_id s)) (fm_steps F) @ [Some (pl_root plan)]"
    using plan_steps_defined [OF plan]
    by (auto simp: cook_inputs_def root_input_def step_input_def cooked_input_def Let_def lookup_or_def split: option.splits)
  moreover have "map (\<lambda>s. map_of m (st_id s)) (fm_steps F) = map (\<lambda>s. map_of m (st_id s)) (fm_steps formula)" for m :: "(string \<times> string) list"
    using arg_cong [OF ids, of "map (map_of m)"] by (simp add: o_def)
  ultimately have beads: "map r_bead ?rows = Some (cr_root_bead run) #
        map (\<lambda>s. map_of (cr_step_beads run) (st_id s)) (fm_steps formula) @ [Some (cr_root_bead run)]"
    unfolding rows(1) run by simp
  have types: "map r_type ?rows = replicate (Suc (length (fm_steps formula))) (as_str BeadCreated) @ [as_str RunCooked]"
    unfolding rows(2) using arg_cong [OF ids, of length]
    by (simp add: cook_inputs_def root_input_def step_input_def cooked_input_def Let_def o_def map_replicate_const)
  have "\<forall>d. fs d \<noteq> None \<longrightarrow> fs' d = fs d"
    using new(1,2) by (metis elsewhere_same_def)
  then show ?thesis unfolding Inr sum.case using new(1,3) log actors beads types by (metis option.discI)
qed

section \<open>What a cook pinned is what the runtime loads\<close>

text \<open>A read of a file of a run, by its components.\<close>

definition read_run :: "run_disk \<Rightarrow> string list \<Rightarrow> string + string" where
  "read_run fs path =
     (case path of
        [runs_dir, run_id, name] \<Rightarrow>
          (case fs (path_join runs_dir run_id) of
             None \<Rightarrow> Inl ''No such file or directory''
           | Some files \<Rightarrow> (case files name of None \<Rightarrow> Inl ''No such file or directory'' | Some bytes \<Rightarrow> Inr bytes))
      | _ \<Rightarrow> Inl ''No such file or directory'')"

lemma instantiate_name:
  assumes "instantiate W jiff formula cfg = Inr F"
  shows "fm_name F = fm_name formula \<and> fm_source F = fm_source formula"
proof -
  obtain steps where "F = formula\<lparr>fm_description := map_option (substitute_double (defined_vars (fm_vars formula))) (fm_description formula),
      fm_steps := steps\<rparr>"
    using instantiate_Inr [OF assms] by blast
  then show ?thesis by simp
qed

lemma not_toml: "name @ ''.toml'' \<noteq> ''recipe.json''" "name @ ''.toml'' \<noteq> ''manifest.json''"
proof -
  have "last (name @ ''.toml'') \<noteq> last ''recipe.json''" "last (name @ ''.toml'') \<noteq> last ''manifest.json''" by simp_all
  then show "name @ ''.toml'' \<noteq> ''recipe.json''" "name @ ''.toml'' \<noteq> ''manifest.json''" by auto
qed

text \<open>
  C13. A cooked run loads: the runtime reads back from the run's directory what the cook pinned, the
  instantiated formula without its source, the root and the bead of each step, provided \<open>serde\<close> reads
  the recipe and the manifest that were written as the values they were made of.
\<close>

theorem cooked_run_loads:
  assumes cooked: "cook_with W jiff S J E formula run_dir rg actor opts (l, fs) = ((l', fs'), Inr run)"
    and F: "instantiate W jiff formula (co_config opts) = Inr F"
    and recipe: "recipe_of (ce_pretty E (recipe_json J E F)) =
      Inr \<lparr>pr_recipe_version = RECIPE_VERSION, pr_formula = F\<lparr>fm_source := []\<rparr>\<rparr>"
    and manifest: "manifest_of (ce_pretty E (manifest_json J E F rg actor (cr_root_bead run) (cr_step_beads run) (cr_run_id run) opts)) =
      Inr \<lparr>mf_run_id = cr_run_id run, mf_formula = fm_name F, mf_rig = rg_name rg, mf_root = cr_root_bead run,
        mf_steps = cr_step_beads run\<rparr>"
  shows "load_run (read_run fs') manifest_of recipe_of run_dir (cr_run_id run) =
    Inr \<lparr>cx_run_id = cr_run_id run, cx_rig = rg_name rg, cx_root = cr_root_bead run,
      cx_formula = F\<lparr>fm_source := []\<rparr>, cx_anchors = cr_step_beads run\<rparr>"
proof -
  obtain plan where plan: "plan_cook (tables l) F rg = Inr plan"
    and run: "cr_root_bead run = pl_root plan" "cr_step_beads run = pl_steps plan"
    and files: "fs' (path_join run_dir (cr_run_id run)) = Some (map_of (rev (run_files J E F rg actor plan (cr_run_id run) opts)))"
    using cook_with_Inr [OF cooked] F by auto
  have "st_id ` set (fm_steps F) = fst ` set (pl_steps plan)"
    using plan_cook_Inr [OF plan] step_beads_defined by metis
  then have ids: "set (step_ids (F\<lparr>fm_source := []\<rparr>)) = fst ` set (cr_step_beads run)"
    by (simp add: step_ids_def run)
  have "read_run fs' [run_dir, cr_run_id run, ''manifest.json''] =
      Inr (ce_pretty E (manifest_json J E F rg actor (cr_root_bead run) (cr_step_beads run) (cr_run_id run) opts))"
    "read_run fs' [run_dir, cr_run_id run, ''recipe.json''] = Inr (ce_pretty E (recipe_json J E F))"
    using files not_toml [of "fm_name F"] by (simp_all add: read_run_def run_files_def run)
  then show ?thesis using recipe manifest ids by (simp add: load_run_def)
qed

section \<open>What instantiation gives\<close>

lemma instantiated_step:
  assumes "route_step W jiff cfg name (instantiate_fields vars s) = Inr t"
  shows "st_id t = st_id s \<and> st_needs t = st_needs s \<and> st_title t = substitute_double vars (st_title s) \<and>
    \<not> str_contains ''{{'' (st_title t) \<and>
    (\<forall>target. map_of (st_metadata t) RUN_TARGET = Some target \<longrightarrow>
       \<not> str_contains ''{{'' target \<and> st_assignee t = Some target \<and>
       (\<exists>c ag. cfg = Some c \<and> resolve_agent (wd_toml W) (dk_files (wd_disk W)) jiff c target = Inr ag))"
proof -
  note r = route_step_Inr [OF assms]
  obtain a where t: "t = instantiate_fields vars s\<lparr>st_assignee := a\<rparr>" using r by blast
  show ?thesis using r by (auto simp: t instantiate_fields_def Let_def split: option.splits)
qed

lemma instantiate_steps:
  assumes "instantiate W jiff formula cfg = Inr F"
  shows "length (fm_steps F) = length (fm_steps formula)"
    and "i < length (fm_steps formula) \<Longrightarrow>
      route_step W jiff cfg (fm_name formula) (instantiate_fields (defined_vars (fm_vars formula)) (fm_steps formula ! i)) =
        Inr (fm_steps F ! i)"
  using instantiate_Inr [OF assms] by (auto simp: list_all2_conv_all_nth)


end
