(* ===== verification/Fires.thy ===== *)
theory Fires
  imports Orders DeadEnd Cooking
begin

text \<open>
  The execution of a declared fire (\<open>execute_fire\<close> of \<^verbatim>\<open>crates/camp-core/src/orders/mod.rs\<close>): the
  probe for an answer, compilation through the layers, the refusal of a formula that must not run, the
  rig, and the cook. The lemmas show that a fire that was executed is answered, whatever went wrong,
  and that executing it again does nothing; and that the beads of a cooked run are new and anchored.

  The texts of errors go into events: \<open>fmt\<close> is the formatting of a message by the standard library.
  \<open>now\<close> gives the clock at each append of a failure.
\<close>

section \<open>Texts\<close>

text \<open>\<open>Display\<close> of \<open>Violation\<close>, \<open>Refusal\<close> and \<open>FormulaError\<close>: a line for each finding.\<close>

definition violation_line :: "Violation \<Rightarrow> message" where
  "violation_line v = prefixed ''{}: '' [vi_construct v] (vi_message v)"

definition refusal_line :: "Refusal \<Rightarrow> message" where
  "refusal_line r = prefixed ''{}: '' [re_construct r] (re_reason r)"

fun message_lines :: "message list \<Rightarrow> message" where
  "message_lines [] = Msg [] []"
| "message_lines (Msg tm args # ms) =
     (case message_lines ms of Msg tm' args' \<Rightarrow> Msg (''  '' @ tm @ NL @ tm') (args @ args'))"

definition formula_error_text :: "FormulaError \<Rightarrow> message" where
  "formula_error_text e =
     prefixed (''{}: {} violation(s), {} refusal(s):'' @ NL)
       [fe_path e, show_nat (length (fe_violations e)), show_nat (length (fe_refusals e))]
       (message_lines (map violation_line (fe_violations e) @ map refusal_line (fe_refusals e)))"

definition names :: "FormulaError \<Rightarrow> string \<Rightarrow> bool" where
  "names e what \<longleftrightarrow>
     list_ex (\<lambda>v. vi_construct v = what) (fe_violations e) \<or>
     list_ex (\<lambda>r. re_construct r = what \<or> re_key r = what) (fe_refusals e)"

section \<open>Executing a fire\<close>

definition failed_input :: "'j value_ops \<Rightarrow> (message \<Rightarrow> string) \<Rightarrow> Order \<Rightarrow> int \<Rightarrow> message \<Rightarrow> 'j event_input" where
  "failed_input J fmt order fired_seq error =
     \<lparr>in_kind = OrderFailed, in_rig = None, in_actor = ''campd'', in_bead = None,
      in_data = jv_object J [(''order'', jv_string J (or_name order)), (''fired_seq'', jv_int J fired_seq),
        (''error'', jv_string J (fmt error))]\<rparr>"

definition refused_input :: "'j value_ops \<Rightarrow> (message \<Rightarrow> string) \<Rightarrow> Order \<Rightarrow> Refusal \<Rightarrow> 'j event_input" where
  "refused_input J fmt order why =
     \<lparr>in_kind = FormulaRefused, in_rig = None, in_actor = ''campd'', in_bead = None,
      in_data = jv_object J
        ([(''formula'', jv_string J (or_formula order)), (''key'', jv_string J (re_key why)),
          (''reason'', jv_string J (fmt (re_reason why)))] @
         (case re_step why of None \<Rightarrow> [] | Some s \<Rightarrow> [(''step'', jv_string J s)]))\<rparr>"

type_synonym fire_result = "(ledger \<times> run_disk) \<times> CookedRun option res"

definition fail_fire ::
    "'j serde \<Rightarrow> 'j value_ops \<Rightarrow> (message \<Rightarrow> string) \<Rightarrow> string \<Rightarrow> Order \<Rightarrow> int \<Rightarrow> message \<Rightarrow> ledger \<times> run_disk \<Rightarrow>
     fire_result" where
  "fail_fire S J fmt ts order fired_seq error st =
     (case st of (l, fs) \<Rightarrow>
      case append_event S ts (failed_input J fmt order fired_seq error) l of
        (l', Inl e) \<Rightarrow> ((l', fs), Inl e)
      | (l', Inr _) \<Rightarrow> ((l', fs), Inr None))"

text \<open>A formula that must not run: \<open>formula.refused\<close>, then the failure of the fire.\<close>

definition refuse_fire ::
    "'j serde \<Rightarrow> 'j value_ops \<Rightarrow> (message \<Rightarrow> string) \<Rightarrow> (nat \<Rightarrow> string) \<Rightarrow> Order \<Rightarrow> int \<Rightarrow> Refusal \<Rightarrow>
     ledger \<times> run_disk \<Rightarrow> fire_result" where
  "refuse_fire S J fmt now order fired_seq why st =
     (case st of (l, fs) \<Rightarrow>
      case append_event S (now 0) (refused_input J fmt order why) l of
        (l', Inl e) \<Rightarrow> ((l', fs), Inl e)
      | (l', Inr _) \<Rightarrow>
          fail_fire S J fmt (now 1) order fired_seq
            (prefixed ''formula {:?} cannot be run: {}'' [or_formula order] (re_reason why)) (l', fs))"

definition cook_fire ::
    "('r, 'v) world \<Rightarrow> (string \<Rightarrow> string + int) \<Rightarrow> 'j serde \<Rightarrow> 'j value_ops \<Rightarrow> 'j cook_env \<Rightarrow>
     (message \<Rightarrow> string) \<Rightarrow> (nat \<Rightarrow> string) \<Rightarrow> CampConfig \<Rightarrow> string \<Rightarrow> Order \<Rightarrow> int \<Rightarrow> Formula \<Rightarrow>
     ledger \<times> run_disk \<Rightarrow> fire_result" where
  "cook_fire W jiff S J E fmt now cfg camp_root order fired_seq formula st =
     (case resolve_rig cfg order of
        Inl reason \<Rightarrow> fail_fire S J fmt (now 1) order fired_seq reason st
      | Inr rg \<Rightarrow>
          (case cook_with W jiff S J E formula (path_join camp_root ''runs'') rg (cook_actor (or_name order) fired_seq)
                  (default_options\<lparr>co_config := Some cfg\<rparr>) st of
             (st', Inr run) \<Rightarrow> (st', Inr (Some run))
           | (st', Inl e) \<Rightarrow> fail_fire S J fmt (now 1) order fired_seq (prefixed ''cook failed: '' [] (display e)) st'))"

definition execute_fire ::
    "('r, 'v) world \<Rightarrow> (string \<Rightarrow> string + int) \<Rightarrow> 'j serde \<Rightarrow> 'j value_ops \<Rightarrow> 'j cook_env \<Rightarrow>
     (string \<Rightarrow> string \<Rightarrow> int option) \<Rightarrow> (message \<Rightarrow> string) \<Rightarrow> (nat \<Rightarrow> string) \<Rightarrow> nat \<Rightarrow>
     CampConfig \<Rightarrow> string \<Rightarrow> Order \<Rightarrow> int \<Rightarrow> ledger \<times> run_disk \<Rightarrow> fire_result option" where
  "execute_fire W jiff S J E ji fmt now fuel cfg camp_root order fired_seq st =
     (if fire_response_exists ji (fst st) (or_name order) fired_seq then Some (st, Inr None)
      else case from_config (wd_disk W) cfg camp_root of
        Inl e \<Rightarrow> Some (fail_fire S J fmt (now 1) order fired_seq (prefixed ''formula {:?}: '' [or_formula order] (display e)) st)
      | Inr layers \<Rightarrow>
          map_option (\<lambda>r. case r of
              Inl e \<Rightarrow> fail_fire S J fmt (now 1) order fired_seq
                (prefixed ''formula {:?}: '' [or_formula order] (formula_error_text e)) st
            | Inr c \<Rightarrow>
                (case cp_not_runnable c of
                   Some why \<Rightarrow> refuse_fire S J fmt now order fired_seq why st
                 | None \<Rightarrow> cook_fire W jiff S J E fmt now cfg camp_root order fired_seq (cp_formula c) st))
            (compile_named W layers fuel (or_formula order) []))"

section \<open>A fire is answered\<close>

text \<open>
  The answer of a fire: a run cooked by the order for it, or a failure that names the order and the
  fire. The probe of the program does not read the name of a failure; a failure that carries the
  sequence number of a fire of another order takes it: the probe finds an answer, and there is none.
\<close>

definition names_order :: "'j serde \<Rightarrow> 'j value_ops \<Rightarrow> string \<Rightarrow> event_row \<Rightarrow> bool" where
  "names_order S J name r \<longleftrightarrow>
     (case data_of S (r_data r) of Inl _ \<Rightarrow> False | Inr d \<Rightarrow> data_str J (Some d) ''order'' = Some name)"

definition answers_fire ::
    "'j serde \<Rightarrow> 'j value_ops \<Rightarrow> (string \<Rightarrow> string \<Rightarrow> int option) \<Rightarrow> string \<Rightarrow> int \<Rightarrow> event_row \<Rightarrow> bool" where
  "answers_fire S J ji name seq r \<longleftrightarrow>
     r_type r = as_str RunCooked \<and> r_actor r = cook_actor name seq \<or>
     r_type r = as_str OrderFailed \<and> ji (r_data r) ''fired_seq'' = Some seq \<and> names_order S J name r"

definition takes_fire ::
    "'j serde \<Rightarrow> 'j value_ops \<Rightarrow> (string \<Rightarrow> string \<Rightarrow> int option) \<Rightarrow> string \<Rightarrow> int \<Rightarrow> event_row \<Rightarrow> bool" where
  "takes_fire S J ji name seq r \<longleftrightarrow>
     r_type r = as_str OrderFailed \<and> ji (r_data r) ''fired_seq'' = Some seq \<and> \<not> names_order S J name r"

definition fire_answered ::
    "'j serde \<Rightarrow> 'j value_ops \<Rightarrow> (string \<Rightarrow> string \<Rightarrow> int option) \<Rightarrow> ledger \<Rightarrow> string \<Rightarrow> int \<Rightarrow> bool" where
  "fire_answered S J ji l name seq \<longleftrightarrow> list_ex (answers_fire S J ji name seq) (event_log l)"

definition fire_taken ::
    "'j serde \<Rightarrow> 'j value_ops \<Rightarrow> (string \<Rightarrow> string \<Rightarrow> int option) \<Rightarrow> ledger \<Rightarrow> string \<Rightarrow> int \<Rightarrow> bool" where
  "fire_taken S J ji l name seq \<longleftrightarrow> list_ex (takes_fire S J ji name seq) (event_log l)"

lemma response_split:
  "fire_response_exists ji l name seq \<longleftrightarrow> fire_answered S J ji l name seq \<or> fire_taken S J ji l name seq"
  by (auto simp: fire_response_exists_def has_event_with_actor_def has_event_with_data_i64_def list_ex_iff
      fire_answered_def fire_taken_def answers_fire_def takes_fire_def)

lemma response_snoc:
  assumes "event_log l' = event_log l @ rows"
  shows "fire_response_exists ji l' name seq \<longleftrightarrow> fire_response_exists ji l name seq \<or>
    (\<exists>r \<in> set rows. r_type r = as_str RunCooked \<and> r_actor r = cook_actor name seq \<or>
      r_type r = as_str OrderFailed \<and> ji (r_data r) ''fired_seq'' = Some seq)"
  using assms by (auto simp: fire_response_exists_def has_event_with_actor_def has_event_with_data_i64_def list_ex_iff)

lemma answered_last:
  "event_log l' = event_log l @ rows \<Longrightarrow> r \<in> set rows \<Longrightarrow> answers_fire S J ji name seq r \<Longrightarrow> fire_answered S J ji l' name seq"
  by (auto simp: fire_answered_def list_ex_iff)

lemma cooked_last:
  "event_log l' = event_log l @ rows \<Longrightarrow> r \<in> set rows \<Longrightarrow> r_type r = as_str RunCooked \<Longrightarrow> r_actor r = actor \<Longrightarrow>
     has_event_with_actor RunCooked actor l'"
  by (auto simp: has_event_with_actor_def list_ex_iff)

lemma append_event_log:
  "append_event S ts inp l = (l', Inr seq) \<Longrightarrow>
     event_log l' = event_log l @ [row_of S (event_of seq ts inp)] \<and> (good S l \<longrightarrow> text_roundtrip S \<longrightarrow> good S l')"
  "append_event S ts inp l = (l', Inl e) \<Longrightarrow> l' = l"
  by (auto simp: append_event_cases insert_and_fold_Inr intro: insert_and_fold_good split: sum.splits)

lemma extracted:
  assumes "text_roundtrip S" and "extract_law S J ji"
  shows "ji (data_text S d) f = data_i64 J d f" and "data_of S (data_text S d) = Inr d"
proof -
  show d: "data_of S (data_text S d) = Inr d" using assms(1) by (simp add: text_roundtrip_def)
  then show "ji (data_text S d) f = data_i64 J d f" using assms(2) by (simp add: extract_law_def)
qed

lemma failed_answers:
  assumes "text_roundtrip S" and "extract_law S J ji" and "json_laws J" and "i64_min \<le> seq" and "seq \<le> i64_max"
  shows "answers_fire S J ji (or_name order) seq (row_of S (event_of k ts (failed_input J fmt order seq error)))"
  using assms(3-5) extracted [OF assms(1,2)]
  by (simp add: answers_fire_def names_order_def row_of_def event_of_def failed_input_def data_i64_def data_str_def)

text \<open>What each ending of a fire that had no answer leaves: an answer of its own exactly when no error is returned.\<close>

definition settled ::
    "'j serde \<Rightarrow> 'j value_ops \<Rightarrow> (string \<Rightarrow> string \<Rightarrow> int option) \<Rightarrow> Order \<Rightarrow> int \<Rightarrow> fire_result \<Rightarrow> bool" where
  "settled S J ji order seq r \<longleftrightarrow>
     (case snd r of
        Inl _ \<Rightarrow> \<not> fire_response_exists ji (fst (fst r)) (or_name order) seq
      | Inr run \<Rightarrow> fire_answered S J ji (fst (fst r)) (or_name order) seq \<and>
          (run \<noteq> None \<longrightarrow> has_event_with_actor RunCooked (cook_actor (or_name order) seq) (fst (fst r))))"

lemma fail_settles:
  assumes laws: "text_roundtrip S" "extract_law S J ji" "json_laws J" "i64_min \<le> seq" "seq \<le> i64_max"
    and no: "\<not> fire_response_exists ji (fst st) (or_name order) seq"
  shows "settled S J ji order seq (fail_fire S J fmt ts order seq error st)"
proof -
  obtain l fs where st: "st = (l, fs)" by fastforce
  obtain l' r where a: "append_event S ts (failed_input J fmt order seq error) l = (l', r)" by fastforce
  show ?thesis
  proof (cases r)
    case (Inl e)
    then show ?thesis using a no append_event_log(2) [OF a [unfolded Inl]] by (simp add: settled_def fail_fire_def st)
  next
    case (Inr k)
    note log = append_event_log(1) [OF a [unfolded Inr], THEN conjunct1]
    have "fire_answered S J ji l' (or_name order) seq"
      by (rule answered_last [OF log list.set_intros(1) failed_answers [OF laws]])
    then show ?thesis by (simp add: settled_def fail_fire_def st a Inr)
  qed
qed

lemma refuse_settles:
  assumes laws: "text_roundtrip S" "extract_law S J ji" "json_laws J" "i64_min \<le> seq" "seq \<le> i64_max"
    and no: "\<not> fire_response_exists ji (fst st) (or_name order) seq"
  shows "settled S J ji order seq (refuse_fire S J fmt now order seq why st)"
proof -
  obtain l fs where st: "st = (l, fs)" by fastforce
  obtain l' r where a: "append_event S (now 0) (refused_input J fmt order why) l = (l', r)" by fastforce
  show ?thesis
  proof (cases r)
    case (Inl e)
    then show ?thesis using no append_event_log(2) [OF a [unfolded Inl]] a by (simp add: settled_def refuse_fire_def st)
  next
    case (Inr k)
    have "as_str FormulaRefused \<noteq> as_str RunCooked" "as_str FormulaRefused \<noteq> as_str OrderFailed" by code_simp+
    then have "\<not> fire_response_exists ji l' (or_name order) seq"
      using response_snoc [OF conjunct1 [OF append_event_log(1) [OF a [unfolded Inr]]]] no
      by (simp add: st row_of_def event_of_def refused_input_def)
    then show ?thesis
      using fail_settles [OF laws, of "(l', fs)" order fmt "now 1"] a Inr by (simp add: refuse_fire_def st)
  qed
qed

lemma cook_settles:
  assumes laws: "text_roundtrip S" "extract_law S J ji" "json_laws J" "i64_min \<le> seq" "seq \<le> i64_max"
    and no: "\<not> fire_response_exists ji (fst st) (or_name order) seq"
  shows "settled S J ji order seq (cook_fire W jiff S J E fmt now cfg camp_root order seq formula st)"
proof (cases "resolve_rig cfg order")
  case (Inl e)
  then show ?thesis using fail_settles [OF assms] by (simp add: cook_fire_def)
next
  case (Inr rg)
  obtain l fs where st: "st = (l, fs)" by fastforce
  let ?opts = "default_options\<lparr>co_config := Some cfg\<rparr>" and ?actor = "cook_actor (or_name order) seq"
  obtain l' fs' r where c: "cook_with W jiff S J E formula (path_join camp_root ''runs'') rg ?actor ?opts (l, fs) = ((l', fs'), r)"
    by (metis surj_pair)
  show ?thesis
  proof (cases r)
    case (Inl e)
    then have "l' = l" using cook_with_Inl c by blast
    then show ?thesis
      using fail_settles [OF laws, of "(l', fs')" order fmt "now 1"] no Inl c Inr by (simp add: cook_fire_def st)
  next
    case run: (Inr run)
    obtain F plan seqs where "insert_all S (ce_append_ts E) (cook_inputs J F rg ?actor plan (cr_run_id run) ?opts) l = Inr (l', seqs)"
      using cook_with_Inr [OF c [unfolded run]] by blast
    from insert_all_log [OF this]
    have log: "event_log l' = event_log l @
        map (\<lambda>(seq, inp). row_of S (event_of seq (ce_append_ts E) inp)) (zip seqs (cook_inputs J F rg ?actor plan (cr_run_id run) ?opts))"
      and len: "length seqs = length (cook_inputs J F rg ?actor plan (cr_run_id run) ?opts)"
      by (simp_all del: upt_Suc)
    have "\<exists>k. (k, cooked_input J F rg ?actor plan (cr_run_id run)) \<in> set (zip seqs (cook_inputs J F rg ?actor plan (cr_run_id run) ?opts))"
      using len by (metis (no_types, lifting) cook_inputs_def in_set_impl_in_set_zip2 in_set_conv_decomp append_Cons)
    then obtain k where k: "(k, cooked_input J F rg ?actor plan (cr_run_id run)) \<in>
        set (zip seqs (cook_inputs J F rg ?actor plan (cr_run_id run) ?opts))" ..
    let ?row = "row_of S (event_of k (ce_append_ts E) (cooked_input J F rg ?actor plan (cr_run_id run)))"
    have mem: "?row \<in> set (map (\<lambda>(seq, inp). row_of S (event_of seq (ce_append_ts E) inp))
        (zip seqs (cook_inputs J F rg ?actor plan (cr_run_id run) ?opts)))"
      using k by (auto simp: image_iff intro!: bexI [OF _ k])
    have row: "r_type ?row = as_str RunCooked" "r_actor ?row = ?actor"
      by (simp_all add: row_of_def event_of_def cooked_input_def)
    have "fire_answered S J ji l' (or_name order) seq"
      by (rule answered_last [OF log mem]) (simp only: answers_fire_def row simp_thms)
    moreover have "has_event_with_actor RunCooked ?actor l'"
      by (rule cooked_last [OF log mem row])
    ultimately have "fire_answered S J ji l' (or_name order) seq \<and> has_event_with_actor RunCooked ?actor l'" by (rule conjI)
    then show ?thesis using c run Inr by (simp add: cook_fire_def st settled_def)
  qed
qed

lemma execute_settles:
  assumes laws: "text_roundtrip S" "extract_law S J ji" "json_laws J" "i64_min \<le> seq" "seq \<le> i64_max"
    and run: "execute_fire W jiff S J E ji fmt now fuel cfg camp_root order seq st = Some r"
  shows "if fire_response_exists ji (fst st) (or_name order) seq then r = (st, Inr None) else settled S J ji order seq r"
proof (cases "fire_response_exists ji (fst st) (or_name order) seq")
  case True
  then show ?thesis using run by (auto simp: execute_fire_def)
next
  case False
  note endings = fail_settles [OF laws False] refuse_settles [OF laws False] cook_settles [OF laws False]
  have "settled S J ji order seq r"
  proof (cases "from_config (wd_disk W) cfg camp_root")
    case (Inl e)
    then show ?thesis using run False endings by (auto simp: execute_fire_def)
  next
    case (Inr layers)
    obtain c where "compile_named W layers fuel (or_formula order) [] = Some c"
      using run False Inr by (cases "compile_named W layers fuel (or_formula order) []") (simp_all add: execute_fire_def)
    then show ?thesis using run False Inr endings by (auto simp: execute_fire_def split: sum.splits option.splits)
  qed
  then show ?thesis using False by simp
qed

text \<open>
  C9. A fire is executed once: when \<open>execute_fire\<close> returns without an error, the order cooked a run for
  this fire, or a failure that names the order and the fire is on record; and every later execution,
  in any circumstances, finds an answer, returns no run and changes nothing. A run that is returned was
  cooked by this order for this fire. When it returns an error the fire has no answer yet, so that
  reconciliation finds it again. The one exception is the program's: its probe does not read the order
  of a failure, so that a failure of another order that carried the number of the fire before the
  execution counts as the answer; then nothing is done.
\<close>

theorem fire_is_executed_once:
  assumes "text_roundtrip S" and "extract_law S J ji" and "json_laws J" and "i64_min \<le> seq" and "seq \<le> i64_max"
    and "execute_fire W jiff S J E ji fmt now fuel cfg camp_root order seq st = Some (st', r)"
  shows "(case r of
      Inl e \<Rightarrow> \<not> fire_answered S J ji (fst st') (or_name order) seq \<and> \<not> fire_taken S J ji (fst st') (or_name order) seq
    | Inr run \<Rightarrow>
        (fire_answered S J ji (fst st') (or_name order) seq \<or>
         fire_taken S J ji (fst st) (or_name order) seq \<and> st' = st \<and> run = None) \<and>
        (run \<noteq> None \<longrightarrow> has_event_with_actor RunCooked (cook_actor (or_name order) seq) (fst st')) \<and>
        (\<forall>W2 jiff2 E2 now2 fuel2 cfg2 camp_root2.
           execute_fire (W2 :: ('r, 'v) world) jiff2 S J E2 ji fmt now2 fuel2 cfg2 camp_root2 order seq st' = Some (st', Inr None)))"
proof -
  note split = response_split [of ji _ "or_name order" seq S J]
  show ?thesis
  proof (cases "fire_response_exists ji (fst st) (or_name order) seq")
    case True
    then have "st' = st" "r = Inr None" using execute_settles [OF assms] by simp_all
    then show ?thesis using True split by (simp add: execute_fire_def)
  next
    case False
    then have "settled S J ji order seq (st', r)" using execute_settles [OF assms] by simp
    then show ?thesis using split by (cases r) (auto simp: settled_def execute_fire_def)
  qed
qed

text \<open>What the exception costs: a fire that is taken and not answered is never cooked.\<close>

lemma taken_fire_is_not_cooked:
  "fire_taken S J ji (fst st) (or_name order) seq \<Longrightarrow>
     execute_fire W jiff S J E ji fmt now fuel cfg camp_root order seq st = Some (st, Inr None)"
  using response_split [of ji "fst st" "or_name order" seq S J] by (simp add: execute_fire_def)

section \<open>The beads of a cooked run\<close>

lemma created_one:
  assumes "insert_and_fold S ts inp l = Inr (l1, k)" and "in_kind inp = BeadCreated"
  shows "\<exists>b. in_bead inp = Some (b_id b) \<and> b_status b = Open \<and> b_id b \<notin> ids (tables l) \<and>
    beads (tables l1) = beads (tables l) @ [b]"
proof -
  from assms have run: "bead_created S (event_of k ts inp) (tables l) = Inr (tables l1)"
    by (auto simp: insert_and_fold_Inr fold_apply_def event_of_def)
  from run show ?thesis
    by (rule bead_created_beads) (auto simp: event_of_def new_bead_def ids_def)
qed

lemma created_all:
  assumes "insert_all S ts inps l = Inr (l', seqs)" and "\<forall>inp \<in> set inps. in_kind inp = BeadCreated"
  shows "\<exists>bs. beads (tables l') = beads (tables l) @ bs \<and> map (\<lambda>b. Some (b_id b)) bs = map in_bead inps \<and>
    distinct (map b_id bs) \<and> b_id ` set bs \<inter> ids (tables l) = {} \<and> (\<forall>b \<in> set bs. b_status b = Open)"
  using assms
proof (induction inps arbitrary: l seqs)
  case (Cons inp inps)
  obtain l1 k seqs1 where one: "insert_and_fold S ts inp l = Inr (l1, k)" and rest: "insert_all S ts inps l1 = Inr (l', seqs1)"
    using Cons.prems(1) by auto
  obtain b where b: "in_bead inp = Some (b_id b)" "b_status b = Open" "b_id b \<notin> ids (tables l)"
    "beads (tables l1) = beads (tables l) @ [b]"
    using created_one [OF one] Cons.prems(2) by auto
  then have ids: "ids (tables l1) = insert (b_id b) (ids (tables l))" by (auto simp: ids_def)
  have kinds: "\<forall>inp \<in> set inps. in_kind inp = BeadCreated" using Cons.prems(2) by simp
  obtain bs where bs: "beads (tables l') = beads (tables l1) @ bs" "map (\<lambda>b. Some (b_id b)) bs = map in_bead inps"
    "distinct (map b_id bs)" "b_id ` set bs \<inter> ids (tables l1) = {}" "\<forall>b \<in> set bs. b_status b = Open"
    using Cons.IH [OF rest kinds] by blast
  show ?case
    using bs b ids by (intro exI [of _ "b # bs"]) auto
qed simp

lemma cooked_same:
  assumes "insert_and_fold S ts inp l = Inr (l1, k)" and "in_kind inp = RunCooked"
  shows "tables l1 = tables l"
  using assms by (auto simp: insert_and_fold_Inr fold_apply_def event_of_def)

lemma cooked_beads:
  assumes run: "insert_all S ts (cook_inputs J F rg actor plan run_id opts) l = Inr (l', seqs)"
  shows "\<exists>bs. beads (tables l') = beads (tables l) @ bs \<and>
    map (\<lambda>b. Some (b_id b)) bs = Some (pl_root plan) # map (\<lambda>s. Some (lookup_or [] (pl_steps plan) (st_id s))) (fm_steps F) \<and>
    distinct (map b_id bs) \<and> b_id ` set bs \<inter> ids (tables l) = {} \<and> (\<forall>b \<in> set bs. b_status b = Open)"
proof -
  let ?new = "root_input J F rg actor plan run_id opts # map (step_input J rg actor plan run_id opts) (fm_steps F)"
  have split: "cook_inputs J F rg actor plan run_id opts = ?new @ [cooked_input J F rg actor plan run_id]"
    by (simp add: cook_inputs_def)
  obtain l1 s1 s2 where new: "insert_all S ts ?new l = Inr (l1, s1)"
    and last: "insert_all S ts [cooked_input J F rg actor plan run_id] l1 = Inr (l', s2)"
    using run unfolding split insert_all_append by (auto simp del: insert_all.simps)
  have tabs: "tables l' = tables l1"
    using last cooked_same by (fastforce simp: cooked_input_def)
  have kinds: "\<forall>inp \<in> set ?new. in_kind inp = BeadCreated" by (auto simp: root_input_def step_input_def Let_def)
  have beads: "map in_bead ?new = Some (pl_root plan) # map (\<lambda>s. Some (lookup_or [] (pl_steps plan) (st_id s))) (fm_steps F)"
    by (simp add: root_input_def step_input_def Let_def)
  show ?thesis using created_all [OF new kinds] unfolding beads tabs .
qed

text \<open>
  C12. A cooked run is anchored: after a cook, the ledger has a new open bead for the root and for every
  step, with ids that are pairwise distinct and were not taken, all older beads are as they were, and a
  context that holds the run's formula, root and beads has its root and every anchor in the ledger, as
  the verdict of the run needs.
\<close>

theorem cooked_run_is_anchored:
  assumes "cook_with W jiff S J E formula run_dir rg actor opts (l, fs) = ((l', fs'), Inr run)"
    and "instantiate W jiff formula (co_config opts) = Inr F"
  shows "(\<exists>bs. beads (tables l') = beads (tables l) @ bs \<and> (\<forall>b \<in> set bs. b_status b = Open) \<and>
      map b_id bs = cr_root_bead run # map (\<lambda>s. the (map_of (cr_step_beads run) (st_id s))) (fm_steps F) \<and>
      distinct (map b_id bs) \<and> b_id ` set bs \<inter> ids (tables l) = {}) \<and>
    anchored (tables l') \<lparr>cx_run_id = cr_run_id run, cx_rig = rg_name rg, cx_root = cr_root_bead run,
      cx_formula = F\<lparr>fm_source := []\<rparr>, cx_anchors = cr_step_beads run\<rparr>"
proof -
  obtain plan seqs where plan: "plan_cook (tables l) F rg = Inr plan"
    and run: "cr_root_bead run = pl_root plan" "cr_step_beads run = pl_steps plan"
    and b: "insert_all S (ce_append_ts E) (cook_inputs J F rg actor plan (cr_run_id run) opts) l = Inr (l', seqs)"
    using cook_with_Inr [OF assms(1)] assms(2) by auto
  from cooked_beads [OF b] obtain bs where all: "beads (tables l') = beads (tables l) @ bs \<and>
    map (\<lambda>b. Some (b_id b)) bs = Some (pl_root plan) # map (\<lambda>s. Some (lookup_or [] (pl_steps plan) (st_id s))) (fm_steps F) \<and>
    distinct (map b_id bs) \<and> b_id ` set bs \<inter> ids (tables l) = {} \<and> (\<forall>b \<in> set bs. b_status b = Open)" by (rule exE)
  note bs = all [THEN conjunct1] all [THEN conjunct2, THEN conjunct1] all [THEN conjunct2, THEN conjunct2, THEN conjunct1]
    all [THEN conjunct2, THEN conjunct2, THEN conjunct2]
  have look: "map_of (pl_steps plan) (st_id s) = Some (lookup_or [] (pl_steps plan) (st_id s))" if "s \<in> set (fm_steps F)" for s
    using plan_steps_defined [OF plan that] by (auto simp: lookup_or_def)
  have ids: "map b_id bs = pl_root plan # map (\<lambda>s. lookup_or [] (pl_steps plan) (st_id s)) (fm_steps F)"
    using arg_cong [OF bs(2), of "map the"] by (simp add: o_def)
  have "set (map b_id bs) \<subseteq> ids (tables l')" by (auto simp: ids_def bs(1))
  then have anch: "anchored (tables l') \<lparr>cx_run_id = cr_run_id run, cx_rig = rg_name rg, cx_root = cr_root_bead run,
      cx_formula = F\<lparr>fm_source := []\<rparr>, cx_anchors = cr_step_beads run\<rparr>"
    unfolding ids by (auto simp: anchored_def run look list_all_iff)
  have mp: "map b_id bs = cr_root_bead run # map (\<lambda>s. the (map_of (cr_step_beads run) (st_id s))) (fm_steps F)"
    unfolding ids run using look by simp
  show ?thesis
    by (intro conjI exI [of _ bs] anch mp bs(1) bs(3) bs(4) [THEN conjunct1] bs(4) [THEN conjunct2])
qed

end
