(* ===== verification/DemoCamp.thy ===== *)
theory DemoCamp
  imports Fires DemoRuns
begin

text \<open>
  A concrete camp to run the compile stage, the cook and the fires on: a JSON library that reads back
  what it writes, a disk with three formulas, an asset and an agent, and an environment for a cook.
\<close>

section \<open>JSON as text\<close>

text \<open>A text for every value of the concrete JSON library, from which the value can be read back.\<close>

definition enc_str :: "string \<Rightarrow> string" where
  "enc_str s = concat (map (\<lambda>c. [CHR ''.'', c]) s) @ ''!''"

fun enc :: "jval \<Rightarrow> string" where
  "enc (VStr s) = CHR ''s'' # enc_str s"
| "enc (VInt i) = CHR ''i'' # (if i < 0 then ''-'' else ''+'') @ enc_str (show_nat (nat \<bar>i\<bar>))"
| "enc (VBool b) = (if b then ''t'' else ''f'')"
| "enc (VArr vs) = CHR ''a'' # concat (map (\<lambda>v. CHR '','' # enc v) vs) @ ''!''"
| "enc (VObj kvs) = CHR ''o'' # concat (map (\<lambda>(k, v). CHR '','' # enc_str k @ enc v) kvs) @ ''!''"

lemma enc_str_prefix: "enc_str s @ r = enc_str t @ r' \<Longrightarrow> s = t \<and> r = r'"
proof (induction s arbitrary: t)
  case Nil
  then show ?case by (cases t) (simp_all add: enc_str_def)
next
  case (Cons c s)
  then show ?case by (cases t) (simp_all add: enc_str_def)
qed

lemma show_nat_inj: "show_nat m = show_nat n \<Longrightarrow> m = n"
  by (metis dec_value_show_nat)

lemma enc_list_prefix:
  assumes "\<And>x y r r'. x \<in> set xs \<Longrightarrow> e x @ r = e y @ r' \<Longrightarrow> x = y \<and> r = r'"
    and "concat (map (\<lambda>x. CHR '','' # e x) xs) @ ''!'' @ r = concat (map (\<lambda>x. CHR '','' # e x) ys) @ ''!'' @ r'"
  shows "xs = ys \<and> r = r'"
  using assms
proof (induction xs arbitrary: ys)
  case Nil
  then show ?case by (cases ys) simp_all
next
  case (Cons x xs)
  show ?case
  proof (cases ys)
    case ys: (Cons y zs)
    let ?rest = "\<lambda>us s. concat (map (\<lambda>x. CHR '','' # e x) us) @ ''!'' @ s"
    have "e x @ ?rest xs r = e y @ ?rest zs r'" using Cons.prems(2) ys by simp
    from Cons.prems(1) [OF list.set_intros(1) this] have xy: "x = y" and rest: "?rest xs r = ?rest zs r'" by blast+
    have "xs = zs \<and> r = r'" by (rule Cons.IH [OF Cons.prems(1) [OF list.set_intros(2)] rest])
    then show ?thesis using xy ys by blast
  qed (use Cons.prems(2) in simp)
qed

lemma enc_prefix: "enc v @ r = enc w @ r' \<Longrightarrow> v = w \<and> r = r'"
proof (induction v arbitrary: w r r')
  case (VStr s)
  then show ?case by (cases w) (auto dest: enc_str_prefix split: if_splits)
next
  case (VInt i)
  then show ?case by (cases w) (auto dest!: enc_str_prefix show_nat_inj split: if_splits)
next
  case (VBool b)
  then show ?case by (cases w) (auto split: if_splits)
next
  case (VArr vs)
  show ?case
  proof (cases w)
    case (VArr ws)
    have "vs = ws \<and> r = r'"
      by (rule enc_list_prefix [where e = enc, OF VArr.IH]) (use VArr.prems VArr in \<open>simp_all\<close>)
    then show ?thesis using VArr by simp
  qed (use VArr.prems in \<open>simp_all split: if_splits\<close>)
next
  case (VObj kvs)
  show ?case
  proof (cases w)
    case w: (VObj ks)
    have one: "(case x of (k, v) \<Rightarrow> enc_str k @ enc v) @ s = (case y of (k, v) \<Rightarrow> enc_str k @ enc v) @ s' \<Longrightarrow> x = y \<and> s = s'"
      if "x \<in> set kvs" for x y s s'
    proof -
      obtain k v j u where xy: "x = (k, v)" "y = (j, u)" by fastforce
      assume "(case x of (k, v) \<Rightarrow> enc_str k @ enc v) @ s = (case y of (k, v) \<Rightarrow> enc_str k @ enc v) @ s'"
      then have "enc_str k @ (enc v @ s) = enc_str j @ (enc u @ s')" using xy by simp
      then have kj: "k = j" and vu: "enc v @ s = enc u @ s'" using enc_str_prefix by blast+
      have "v \<in> Basic_BNFs.snds x" using xy by (simp add: snds.simps)
      from VObj.IH [OF that this vu] show ?thesis using kj xy by simp
    qed
    have "kvs = ks \<and> r = r'"
      by (rule enc_list_prefix [where e = "\<lambda>(k, v). enc_str k @ enc v", OF one])
        (use VObj.prems w in \<open>simp_all add: split_def\<close>)
    then show ?thesis using w by simp
  qed (use VObj.prems in \<open>simp_all split: if_splits\<close>)
qed

lemma enc_inj: "inj enc"
  using enc_prefix [of _ "[]" _ "[]"] by (auto intro: injI)

section \<open>A library that reads back what it writes\<close>

definition jcreated_all :: "jval \<Rightarrow> string + BeadCreated" where
  "jcreated_all d =
     (case jfield d ''title'' of
        None \<Rightarrow> Inl ''missing field title''
      | Some t \<Rightarrow> Inr
          \<lparr>bc_title = t, bc_bead_type = ''task'', bc_description = text_or_empty (jfield d ''description''),
           bc_needs = jstrings d ''needs'', bc_labels = jstrings d ''labels'',
           bc_assignee = jfield d ''assignee'', bc_run_id = jfield d ''run_id'', bc_step_id = jfield d ''step_id'', bc_metadata = []\<rparr>)"

definition jcooked :: "jval \<Rightarrow> string + RunCooked" where
  "jcooked d = (case (jfield d ''run_id'', jfield d ''formula'', jfield d ''root'') of
     (Some r, Some f, Some b) \<Rightarrow> Inr \<lparr>rc_run_id = r, rc_formula = f, rc_root = b, rc_steps = []\<rparr>
   | _ \<Rightarrow> Inl ''missing field'')"

definition jfailed :: "jval \<Rightarrow> string + OrderFailed" where
  "jfailed d = (case (jfield d ''order'', data_i64 jops d ''fired_seq'') of
     (Some n, Some s) \<Rightarrow> Inr \<lparr>ol_order = n, ol_fired_seq = s, ol_error = jfield d ''error'', ol_root_bead = jfield d ''root_bead'',
        ol_run_id = jfield d ''run_id'', ol_outcome = jfield d ''outcome''\<rparr>
   | _ \<Rightarrow> Inl ''missing field'')"

definition jdemo :: "jval serde" where
  "jdemo = rdemo
     \<lparr>dec_bead_created := jcreated_all, dec_run_cooked := jcooked, dec_order_failed := jfailed,
      data_text := enc, data_of := (\<lambda>s. if s \<in> range enc then Inr (inv enc s) else Inl ''no JSON'')\<rparr>"

lemma jdemo_roundtrip: "text_roundtrip jdemo"
  by (simp add: text_roundtrip_def jdemo_def enc_inj)

definition jextract :: "string \<Rightarrow> string \<Rightarrow> int option" where
  "jextract s f = (if s \<in> range enc then data_i64 jops (inv enc s) f else None)"

lemma jdemo_extract: "extract_law jdemo jops jextract"
  by (auto simp: extract_law_def jextract_def jdemo_def enc_inj split: if_splits)

section \<open>A camp on disk\<close>

text \<open>The text of a file is its path; the formulas are given as the tables TOML parses them to.\<close>

definition demo_formulas :: "string \<Rightarrow> string + toml_table" where
  "demo_formulas text =
     (if text = ''/camp/formulas/f.toml'' then Inr
        [(''formula'', TString ''f''), (''extends'', TString ''base''), (''vars'', TTable [(''who'', TString ''dev'')]),
         (''steps'', TArray
            [TTable [(''id'', TString ''a''), (''title'', TString ''A {{who}}''), (''description_file'', TString ''../assets/p.md'')],
             TTable [(''id'', TString ''x''), (''title'', TString ''X''), (''expand'', TString ''exp''), (''needs'', TArray [TString ''a''])],
             TTable [(''id'', TString ''c''), (''title'', TString ''C''), (''condition'', TString ''{{who}} == nobody'')]])]
      else if text = ''/camp/formulas/base.toml'' then Inr
        [(''formula'', TString ''base''), (''steps'', TArray [TTable [(''id'', TString ''z''), (''title'', TString ''Z'')]])]
      else if text = ''/camp/formulas/exp.toml'' then Inr
        [(''formula'', TString ''exp''), (''type'', TString ''expansion''),
         (''template'', TArray
            [TTable [(''id'', TString ''{target}.t''), (''title'', TString ''T of {target.title}''),
                     (''metadata'', TTable [(''gc.run_target'', TString ''dev'')])]])]
      else Inl ''no such text'')"

definition demo_disk :: disk where
  "demo_disk =
     \<lparr>dk_files = \<lparr>fl_is_dir = (\<lambda>p. p = ''/camp/agents/dev''),
        fl_is_file = (\<lambda>p. p \<in> {''/camp/formulas/f.toml'', ''/camp/formulas/base.toml'', ''/camp/formulas/exp.toml'',
          ''/camp/assets/p.md'', ''/camp/agents/dev/prompt.md''}),
        fl_list = (\<lambda>_. Inr []), fl_read = Inr\<rparr>,
      dk_canon = Inr, dk_bytes = (\<lambda>_. Inr ''do it'')\<rparr>"

definition demo_world :: "(unit, unit) world" where
  "demo_world = \<lparr>wd_toml = \<lparr>tl_parse = demo_formulas, tl_text = (\<lambda>_. [])\<rparr>, wd_disk = demo_disk, wd_semver = sample_semver,
     wd_word = (\<lambda>_. False)\<rparr>"

definition demo_camp :: CampConfig where
  "demo_camp =
     \<lparr>cf_camp = \<lparr>cs_name = ''dev''\<rparr>, cf_rigs = [\<lparr>rg_name = ''gc'', rg_path = ''/code'', rg_prefix = ''gc'', rg_default_agent = None\<rparr>],
      cf_orders = [], cf_imports = [], cf_orders_enabled = [],
      cf_agent_defaults = \<lparr>ad_model = Some ''m'', ad_permission_mode = None, ad_tools = Some [''Read'']\<rparr>,
      cf_dispatch = dispatch_default, cf_patrol = patrol_default, cf_root = Some ''/camp''\<rparr>"

definition demo_layers :: FormulaLayers where
  "demo_layers = (case from_config demo_disk demo_camp ''/camp'' of Inr ls \<Rightarrow> ls | Inl _ \<Rightarrow> local_only [])"

section \<open>A cook\<close>

definition demo_env :: "jval cook_env" where
  "demo_env =
     \<lparr>ce_ts = ''2026-07-09T10:00:00Z'', ce_append_ts = ''2026-07-09T10:00:01Z'', ce_rand = (\<lambda>k. if k = 0 then 0xFF00ABCD else 1),
      ce_create_all = (\<lambda>_. None), ce_create = (\<lambda>_. None), ce_write = (\<lambda>_ _. None), ce_remove = (\<lambda>_. None),
      ce_pretty = enc, ce_formula = (\<lambda>F. VStr (fm_name F))\<rparr>"

definition demo_rig :: RigConfig where
  "demo_rig = \<lparr>rg_name = ''gc'', rg_path = ''/code'', rg_prefix = ''gc'', rg_default_agent = None\<rparr>"

definition demo_options :: CookOptions where
  "demo_options = default_options\<lparr>co_config := Some demo_camp\<rparr>"

definition demo_formula :: Formula where
  "demo_formula =
     (case compile_named demo_world demo_layers 4 ''f'' [] of
        Some (Inr c) \<Rightarrow> cp_formula c
      | _ \<Rightarrow> \<lparr>fm_name = [], fm_description = None, fm_requires = None, fm_vars = [], fm_steps = [], fm_source = []\<rparr>)"

end
