(* ===== verification/FormulaChecks.thy ===== *)
theory FormulaChecks
  imports DemoCamp
begin

text \<open>
  The theorems about the compile stage, agents, the cook and fires, applied to the camp of
  \<open>DemoCamp\<close>; and compilations that show where the program departs from what it says.
\<close>

section \<open>Compilation\<close>

lemma formula_file_Some: "formula_file F name dir = Some p \<Longrightarrow> fl_is_file F p \<and> length name \<le> length p"
  by (auto simp: formula_file_def Let_def path_join_def split: if_splits)

lemma demo_known: "n \<in> known_formulas demo_world demo_layers \<Longrightarrow> length n \<le> 30"
proof -
  have layers: "ls_cfg demo_layers = Some demo_camp" by code_simp
  have disk: "dk_files (wd_disk demo_world) = dk_files demo_disk" "cf_imports demo_camp = []" "cf_root demo_camp = Some ''/camp''"
    by (simp_all add: demo_world_def demo_camp_def)
  have none: "transitive_layers (dk_files demo_disk) demo_camp = Inr []" by code_simp
  assume "n \<in> known_formulas demo_world demo_layers"
  then have "\<exists>p dir. formula_file (dk_files demo_disk) n dir = Some p"
    by (auto simp: known_formulas_def formula_path_def layers disk resolve_formula_def none import_layers_def
        collect_formulas_def one_of_def map_filter_simps split: option.splits)
  then obtain p where "fl_is_file (dk_files demo_disk) p" "length n \<le> length p"
    using formula_file_Some by blast
  then show ?thesis by (auto simp: demo_disk_def)
qed

lemma demo_known_finite: "finite (known_formulas demo_world demo_layers)"
proof -
  have "known_formulas demo_world demo_layers \<subseteq> {n. set n \<subseteq> UNIV \<and> length n \<le> 30}" using demo_known by blast
  then show ?thesis using finite_lists_length_le [of "UNIV :: char set" 30] finite_subset by auto
qed

theorem compile_returns_witness:
  "\<exists>r. \<forall>fuel > card (known_formulas demo_world demo_layers). compile_named demo_world demo_layers fuel ''f'' [] = Some r"
  by (rule compile_returns [OF demo_known_finite])

definition read_compiled :: "(FormulaError + Compiled) option \<Rightarrow> (string \<times> string list) list" where
  "read_compiled r = (case r of Some (Inr c) \<Rightarrow> map (\<lambda>s. (st_id s, st_needs s)) (fm_steps (cp_formula c)) | _ \<Rightarrow> [])"

lemma read_compiled_cons:
  "read_compiled r = x # xs \<Longrightarrow>
     \<exists>c. r = Some (Inr c) \<and> map (\<lambda>s. (st_id s, st_needs s)) (fm_steps (cp_formula c)) = x # xs"
  by (auto simp: read_compiled_def split: option.splits sum.splits)

theorem compiled_formula_witness:
  "\<exists>c. compile demo_world demo_layers 4 ''/camp/formulas/f.toml'' [] = Some (Inr c) \<and> formula_sound (cp_formula c) \<and>
     map (\<lambda>s. (st_id s, st_needs s)) (fm_steps (cp_formula c)) = [(''z'', []), (''a'', []), (''x.t'', [''a''])]"
proof -
  have "read_compiled (compile demo_world demo_layers 4 ''/camp/formulas/f.toml'' []) =
      [(''z'', []), (''a'', []), (''x.t'', [''a''])]" by code_simp
  from read_compiled_cons [OF this] obtain c where
    c: "compile demo_world demo_layers 4 ''/camp/formulas/f.toml'' [] = Some (Inr c)"
    "map (\<lambda>s. (st_id s, st_needs s)) (fm_steps (cp_formula c)) = [(''z'', []), (''a'', []), (''x.t'', [''a''])]"
    by (elim exE conjE)
  then show ?thesis using compiled_formula_is_sound [OF c(1)] by (intro exI [of _ c] conjI) simp_all
qed

theorem assets_witness:
  "\<exists>us l vs. ls_layers demo_layers = us @ l # vs \<and> ships demo_disk ''p.md'' l \<and> (\<forall>v \<in> set vs. \<not> ships demo_disk ''p.md'' v) \<and>
     contained_in demo_disk (ly_pack_root l) ''/camp/assets/p.md''"
proof -
  have "(case asset_path demo_disk demo_layers ''../assets/p.md'' ''/camp/formulas'' of Inl _ \<Rightarrow> False | Inr p \<Rightarrow> p = ''/camp/assets/p.md'')"
    by code_simp
  then have "asset_path demo_disk demo_layers ''../assets/p.md'' ''/camp/formulas'' = Inr ''/camp/assets/p.md''"
    by (simp split: sum.splits)
  moreover have "asset_rel ''../assets/p.md'' = Some ''p.md''" by code_simp
  ultimately show ?thesis using assets_are_contained by blast
qed

section \<open>Agents\<close>

theorem resolved_agent_witness:
  "\<exists>ag. resolve_agent (wd_toml demo_world) (dk_files demo_disk) (\<lambda>_. Inl []) demo_camp ''dev'' = Inr ag \<and>
     ag_prompt ag = ''/camp/agents/dev/prompt.md'' \<and> ag_tools ag = ad_tools (cf_agent_defaults demo_camp)"
proof -
  let ?r = "resolve_agent (wd_toml demo_world) (dk_files demo_disk) (\<lambda>_. Inl []) demo_camp ''dev''"
  have "(case ?r of Inl _ \<Rightarrow> False | Inr ag \<Rightarrow> ag_prompt ag = ''/camp/agents/dev/prompt.md'')" by code_simp
  then obtain ag where ag: "?r = Inr ag" "ag_prompt ag = ''/camp/agents/dev/prompt.md''" by (auto split: sum.splits)
  then show ?thesis using resolved_agent_is_contained [OF ag(1)] by auto
qed

section \<open>The cook\<close>

definition demo_cooked :: "(ledger \<times> run_disk) \<times> CookedRun res" where
  "demo_cooked = cook_with demo_world (\<lambda>_. Inl []) jdemo jops demo_env demo_formula ''/camp/runs'' demo_rig ''cli''
     demo_options (new_ledger, Map.empty)"

definition read_cooked :: "(ledger \<times> run_disk) \<times> CookedRun res \<Rightarrow> (string \<times> string \<times> (string \<times> string) list) option" where
  "read_cooked r = (case snd r of Inl _ \<Rightarrow> None | Inr run \<Rightarrow> Some (cr_run_id run, cr_root_bead run, cr_step_beads run))"

definition demo_run :: CookedRun where
  "demo_run = \<lparr>cr_run_id = ''20260709T100000Z-00abcd'', cr_root_bead = ''gc-1'',
     cr_step_beads = [(''a'', ''gc-3''), (''x.t'', ''gc-4''), (''z'', ''gc-2'')]\<rparr>"

lemma demo_cooks: "\<exists>l fs. demo_cooked = ((l, fs), Inr demo_run)"
proof -
  have run: "read_cooked demo_cooked = Some (cr_run_id demo_run, cr_root_bead demo_run, cr_step_beads demo_run)" by code_simp
  obtain l fs r where d: "demo_cooked = ((l, fs), r)" by (metis surj_pair)
  show ?thesis using run unfolding d by (cases r) (auto simp: read_cooked_def)
qed

definition demo_instance :: Formula where
  "demo_instance = (case instantiate demo_world (\<lambda>_. Inl []) demo_formula (Some demo_camp) of Inr F \<Rightarrow> F | Inl _ \<Rightarrow> demo_formula)"

lemma demo_instantiates: "instantiate demo_world (\<lambda>_. Inl []) demo_formula (Some demo_camp) = Inr demo_instance"
proof -
  have "(case instantiate demo_world (\<lambda>_. Inl []) demo_formula (Some demo_camp) of Inl _ \<Rightarrow> False | Inr F \<Rightarrow> True)" by code_simp
  then show ?thesis by (simp add: demo_instance_def split: sum.splits)
qed


theorem cook_all_or_nothing_witness:
  "\<exists>l fs rows. demo_cooked = ((l, fs), Inr demo_run) \<and> event_log l = rows \<and>
     map r_bead rows = [Some ''gc-1'', Some ''gc-2'', Some ''gc-3'', Some ''gc-4'', Some ''gc-1'']"
proof -
  obtain l fs where c: "demo_cooked = ((l, fs), Inr demo_run)" using demo_cooks by blast
  have "map (\<lambda>s. map_of (cr_step_beads demo_run) (st_id s)) (fm_steps demo_formula) = [Some ''gc-2'', Some ''gc-3'', Some ''gc-4'']"
    by code_simp
  then show ?thesis
    using cook_all_or_nothing [OF c [unfolded demo_cooked_def]] c by (auto simp: new_ledger_def demo_run_def)
qed

theorem cooked_run_loads_witness:
  "\<exists>l fs. demo_cooked = ((l, fs), Inr demo_run) \<and>
     (\<exists>ctx. load_run (read_run fs)
        (\<lambda>_. Inr \<lparr>mf_run_id = cr_run_id demo_run, mf_formula = fm_name demo_instance, mf_rig = rg_name demo_rig,
          mf_root = cr_root_bead demo_run, mf_steps = cr_step_beads demo_run\<rparr>)
        (\<lambda>_. Inr \<lparr>pr_recipe_version = RECIPE_VERSION, pr_formula = demo_instance\<lparr>fm_source := []\<rparr>\<rparr>)
        ''/camp/runs'' ''20260709T100000Z-00abcd'' = Inr ctx \<and> cx_root ctx = ''gc-1'')"
proof -
  obtain l fs where c: "demo_cooked = ((l, fs), Inr demo_run)" using demo_cooks by blast
  have i: "instantiate demo_world (\<lambda>_. Inl []) demo_formula (co_config demo_options) = Inr demo_instance"
    using demo_instantiates by (simp add: demo_options_def)
  have id: "cr_run_id demo_run = ''20260709T100000Z-00abcd''" "cr_root_bead demo_run = ''gc-1''" by (simp_all add: demo_run_def)
  note load = cooked_run_loads [OF c [unfolded demo_cooked_def] i refl refl, unfolded id]
  show ?thesis
    unfolding id by (intro exI [of _ l] exI [of _ fs] conjI c exI) (rule load, simp)
qed

theorem cooked_run_anchored_witness:
  "\<exists>l fs bs. demo_cooked = ((l, fs), Inr demo_run) \<and> beads (tables l) = bs \<and>
     map b_id bs = [''gc-1'', ''gc-2'', ''gc-3'', ''gc-4'']"
proof -
  obtain l fs where c: "demo_cooked = ((l, fs), Inr demo_run)" using demo_cooks by blast
  have i: "instantiate demo_world (\<lambda>_. Inl []) demo_formula (co_config demo_options) = Inr demo_instance"
    using demo_instantiates by (simp add: demo_options_def)
  have steps: "map (\<lambda>s. the (map_of (cr_step_beads demo_run) (st_id s))) (fm_steps demo_instance) = [''gc-2'', ''gc-3'', ''gc-4'']"
    by code_simp
  have "cr_root_bead demo_run = ''gc-1''" "beads (tables new_ledger) = []"
    by (simp_all add: demo_run_def new_ledger_def empty_state_def)
  then show ?thesis
    using cooked_run_is_anchored [OF c [unfolded demo_cooked_def] i] c by (auto simp: steps)
qed

end
