(* ===== verification/FireChecks.thy ===== *)
theory FireChecks
  imports FormulaChecks
begin

text \<open>
  A fire executed on the camp of \<open>DemoCamp\<close>, and compilations that show where the program departs from
  what its comments say: each is a concrete formula and what it compiles to.
\<close>

section \<open>A fire\<close>

definition demo_order :: Order where
  "demo_order = \<lparr>or_name = ''nightly'', or_trigger = EventTrigger ''bead.closed'' None, or_formula = ''f'', or_rig = None, or_catch_up_window = 0\<rparr>"

definition fire_demo :: "string \<Rightarrow> ledger \<times> run_disk \<Rightarrow> fire_result option" where
  "fire_demo formula st = execute_fire demo_world (\<lambda>_. Inl []) jdemo jops demo_env jextract (\<lambda>_. ''error'') (\<lambda>_. ''2026'') 4
     demo_camp ''/camp'' (demo_order\<lparr>or_formula := formula\<rparr>) 7 st"

definition read_fire :: "fire_result option \<Rightarrow> (string option \<times> string list) option" where
  "read_fire r = (case r of Some ((l, _), Inr x) \<Rightarrow> Some (map_option cr_run_id x, map r_actor (event_log l)) | _ \<Rightarrow> None)"

lemma demo_fires:
  "read_fire (fire_demo ''f'' (new_ledger, Map.empty)) =
     Some (Some ''20260709T100000Z-00abcd'', replicate 5 ''order:nightly:7'')"
  "read_fire (fire_demo ''none'' (new_ledger, Map.empty)) = Some (None, [''campd''])"
  by code_simp+

lemma read_fire_Some:
  "read_fire r = Some (i, as) \<Longrightarrow> \<exists>st x. r = Some (st, Inr x) \<and> map_option cr_run_id x = i \<and> map r_actor (event_log (fst st)) = as"
  by (auto simp: read_fire_def split: option.splits prod.splits sum.splits)

theorem fire_is_executed_once_witness:
  "\<exists>st x. fire_demo ''f'' (new_ledger, Map.empty) = Some (st, Inr x) \<and> map_option cr_run_id x = Some ''20260709T100000Z-00abcd'' \<and>
     fire_answered jdemo jops jextract (fst st) ''nightly'' 7 \<and> fire_demo ''f'' st = Some (st, Inr None)"
proof -
  let ?o = "demo_order\<lparr>or_formula := ''f''\<rparr>"
  obtain st x where run: "fire_demo ''f'' (new_ledger, Map.empty) = Some (st, Inr x)"
    "map_option cr_run_id x = Some ''20260709T100000Z-00abcd''"
    using read_fire_Some [OF demo_fires(1)] by (elim exE conjE)
  have range: "i64_min \<le> (7 :: int)" "(7 :: int) \<le> i64_max" by (simp_all add: i64_min_def i64_max_def)
  note ends = fire_is_executed_once [OF jdemo_roundtrip jdemo_extract jops_laws range run(1) [unfolded fire_demo_def], unfolded sum.case]
  have "or_name ?o = ''nightly''" by (simp add: demo_order_def)
  moreover have "\<not> fire_taken jdemo jops jextract (fst (new_ledger, Map.empty)) (or_name ?o) 7"
    by (simp add: fire_taken_def new_ledger_def)
  ultimately have "fire_answered jdemo jops jextract (fst st) ''nightly'' 7" using ends [THEN conjunct1] by simp
  moreover have "fire_demo ''f'' st = Some (st, Inr None)" unfolding fire_demo_def using ends [THEN conjunct2, THEN conjunct2] by blast
  ultimately show ?thesis using run by (intro exI conjI)
qed

section \<open>Where the program departs from what it says\<close>

definition world_with :: "toml_table \<Rightarrow> (unit, unit) world" where
  "world_with t = demo_world\<lparr>wd_toml := \<lparr>tl_parse = (\<lambda>_. Inr t), tl_text = (\<lambda>_. [])\<rparr>\<rparr>"

definition compile_table :: "toml_table list \<Rightarrow> (FormulaError + Compiled) option" where
  "compile_table steps = compile
     (world_with [(''formula'', TString ''f''), (''contract'', TString ''graph.v2''), (''steps'', TArray (map TTable steps))])
     demo_layers 4 ''/camp/formulas/f.toml'' []"

definition read_steps :: "(FormulaError + Compiled) option \<Rightarrow> Step list" where
  "read_steps r = (case r of Some (Inr c) \<Rightarrow> fm_steps (cp_formula c) | _ \<Rightarrow> [])"

text \<open>A step whose condition is false is pruned; its children were flattened before and stay.\<close>

lemma children_outlive_their_step:
  "map st_id (read_steps (compile_table
     [[(''id'', TString ''a''), (''title'', TString ''A'')],
      [(''id'', TString ''p''), (''title'', TString ''P''), (''condition'', TString ''{{x}} == y''),
       (''children'', TArray [TTable [(''id'', TString ''c''), (''title'', TString ''C'')]])]])) = [''a'', ''c'']"
  by code_simp

text \<open>
  Refusals are found by the id of their step: when the step that is pruned shares its id with one that
  stays, the refusal of the one that stays is dropped, and a shared drain compiles as separate.
\<close>

definition drain_on :: "string \<Rightarrow> toml" where
  "drain_on context = TTable [(''context'', TString context), (''formula'', TString ''item'')]"

lemma refusal_dies_with_a_namesake:
  "map (\<lambda>s. (st_id s, map_option dn_context (st_drain s))) (read_steps (compile_table
     [[(''id'', TString ''a''), (''title'', TString ''A'')],
      [(''id'', TString ''d''), (''title'', TString ''D''), (''needs'', TArray [TString ''a'']),
       (''condition'', TString ''{{policy}} == separate''), (''drain'', drain_on ''separate'')],
      [(''id'', TString ''d''), (''title'', TString ''D''), (''needs'', TArray [TString ''a'']),
       (''condition'', TString ''{{policy}} != separate''), (''drain'', drain_on ''shared'')]])) =
   [(''a'', None), (''d'', Some Separate)]"
  by code_simp

text \<open>A context that is neither word is taken for \<open>separate\<close>.\<close>

lemma unknown_context_is_separate:
  "map (\<lambda>s. map_option dn_context (st_drain s)) (read_steps (compile_table
     [[(''id'', TString ''a''), (''title'', TString ''A'')],
      [(''id'', TString ''d''), (''title'', TString ''D''), (''needs'', TArray [TString ''a'']), (''drain'', drain_on ''Shared'')]])) =
   [None, Some Separate]"
  by code_simp

text \<open>The file of a step is inlined, the file of its child is not: the child has no description.\<close>

lemma file_of_a_child_is_not_inlined:
  "map (\<lambda>s. (st_id s, st_description s)) (read_steps (compile_table
     [[(''id'', TString ''a''), (''title'', TString ''A''), (''description_file'', TString ''../assets/p.md''),
       (''children'', TArray [TTable [(''id'', TString ''c''), (''title'', TString ''C''),
          (''description_file'', TString ''../assets/p.md'')]])]])) =
   [(''a'', Some ''do it''), (''c'', None)]"
  by code_simp

text \<open>A title that is only an empty variable is empty in the instance, which the rules forbid.\<close>

lemma instance_may_have_empty_title:
  "(case instantiate demo_world (\<lambda>_. Inl [])
      (demo_formula\<lparr>fm_vars := [(''x'', Some [])], fm_steps := [(hd (fm_steps demo_formula))\<lparr>st_title := ''{{x}}''\<rparr>]\<rparr>) None of
     Inl _ \<Rightarrow> None | Inr F \<Rightarrow> Some (map st_title (fm_steps F))) = Some [[]]"
  by code_simp

text \<open>The refusals look at the metadata as authored: expansion may write what they refuse.\<close>

definition scope_formulas :: "string \<Rightarrow> string + toml_table" where
  "scope_formulas text =
     (if text = ''/camp/formulas/f.toml'' then Inr
        [(''formula'', TString ''f''),
         (''steps'', TArray [TTable [(''id'', TString ''x''), (''title'', TString ''scope''), (''expand'', TString ''exp'')]])]
      else Inr
        [(''formula'', TString ''exp''), (''type'', TString ''expansion''),
         (''template'', TArray [TTable [(''id'', TString ''t''), (''title'', TString ''T''),
            (''metadata'', TTable [(''gc.kind'', TString ''{target.title}'')])]])])"

lemma expansion_writes_refused_metadata:
  "map st_metadata (read_steps (compile (demo_world\<lparr>wd_toml := \<lparr>tl_parse = scope_formulas, tl_text = (\<lambda>_. [])\<rparr>\<rparr>)
     demo_layers 4 ''/camp/formulas/f.toml'' [])) = [[(''gc.kind'', ''scope'')]]"
  by code_simp

text \<open>
  A pack that is imported below the camp root reads the files of the camp: the camp's own layer holds
  the formula too, is the highest, and answers for it.
\<close>

definition nested_disk :: disk where
  "nested_disk = demo_disk\<lparr>dk_canon := (\<lambda>p. Inr (lexical_normalize p))\<rparr>"

definition nested_layers :: FormulaLayers where
  "nested_layers =
     \<lparr>ls_layers = [\<lparr>ly_binding = ''gs'', ly_pack_root = ''/camp/imports/gs'', ly_origin = Imported\<rparr>,
        \<lparr>ly_binding = [], ly_pack_root = ''/camp'', ly_origin = CampLocal\<rparr>],
      ls_cfg = None\<rparr>"

lemma import_reads_the_camp:
  "asset_path nested_disk nested_layers ''../../../camp.toml'' ''/camp/imports/gs/formulas'' = Inr ''/camp/camp.toml''"
  "\<not> path_starts_with ''/camp/camp.toml'' ''/camp/imports/gs''"
  "origin_of nested_layers ''/camp/imports/gs/formulas/f.toml'' = CampLocal"
  by code_simp+

end
