(* ===== verification/Graph.thy ===== *)
theory Graph
  imports Cooking DeadEnd
begin

text \<open>
  The graph runtime of campd (\<open>GraphRuntime\<close> of \<^verbatim>\<open>crates/camp/src/daemon/dispatch.rs\<close>), the part
  that runs inside the cursor's transaction: for each committed event, the claim of looping and drain
  anchors, the next attempt of a retried step, the close of an anchor, the finalization of a run and
  its dead end. It appends to the ledger and queues what the settle loop owes: checks, fan-outs, drains.

  A handler changes the runtime's memory, which an error does not roll back, and the ledger, which it
  does. \<open>None\<close> is a panic.
\<close>

section \<open>The state\<close>

record PendingCheck =
  kc_run_id :: string
  kc_step_id :: string
  kc_anchor :: string
  kc_attempt_bead :: string
  kc_attempt_no :: nat

record PendingFanout =
  kf_run_id :: string
  kf_step_id :: string
  kf_anchor :: string

record PendingDrain =
  kd_run_id :: string
  kd_step_id :: string
  kd_anchor :: string

text \<open>Without the handle of the process. The deadline is an instant of a monotonic clock.\<close>

record CheckChild =
  cc_run_id :: string
  cc_step_id :: string
  cc_anchor :: string
  cc_attempt_bead :: string
  cc_attempt_no :: nat
  cc_deadline :: "int option"
  cc_log_path :: string
  cc_timed_out :: bool

record GraphRuntime =
  gr_camp_root :: string
  gr_config :: CampConfig
  gr_rigs :: "string \<rightharpoonup> RigConfig"
  gr_runs :: "string \<rightharpoonup> RunContext option"
  gr_pending_checks :: "PendingCheck list"
  gr_pending_fanouts :: "PendingFanout list"
  gr_pending_drains :: "PendingDrain list"
  gr_check_children :: "(nat \<times> CheckChild) list"

definition rig_snapshot :: "CampConfig \<Rightarrow> string \<rightharpoonup> RigConfig" where
  "rig_snapshot cfg = map_of (rev (map (\<lambda>r. (rg_name r, r)) (cf_rigs cfg)))"

definition new_graph :: "string \<Rightarrow> CampConfig \<Rightarrow> GraphRuntime" where
  "new_graph camp_root cfg =
     \<lparr>gr_camp_root = camp_root, gr_config = cfg, gr_rigs = rig_snapshot cfg, gr_runs = Map.empty,
      gr_pending_checks = [], gr_pending_fanouts = [], gr_pending_drains = [], gr_check_children = []\<rparr>"

definition apply_config :: "CampConfig \<Rightarrow> GraphRuntime \<Rightarrow> GraphRuntime" where
  "apply_config cfg g = g\<lparr>gr_rigs := rig_snapshot cfg\<rparr>"

text \<open>
  The libraries and the world a handler reads: JSON and its \<open>null\<close>, the clock, the files of the runs
  and their decoders. \<open>ge_now\<close> is the reading for the transaction of an event; \<open>ge_clock\<close> the reading
  at an append of its own, by the log's last number.
\<close>

record 'j graph_env =
  ge_serde :: "'j serde"
  ge_ops :: "'j value_ops"
  ge_null :: 'j
  ge_now :: string
  ge_clock :: "int \<Rightarrow> string"
  ge_read :: "string list \<Rightarrow> string + string"
  ge_manifest :: "string \<Rightarrow> string + Manifest"
  ge_recipe :: "string \<Rightarrow> string + PinnedRecipe"

type_synonym graph_result = "(GraphRuntime \<times> ledger res) option"

section \<open>Sequencing\<close>

definition and_then :: "graph_result \<Rightarrow> (GraphRuntime \<Rightarrow> ledger \<Rightarrow> graph_result) \<Rightarrow> graph_result" where
  "and_then r f = (case r of Some (g, Inr l) \<Rightarrow> f g l | _ \<Rightarrow> r)"

definition finished :: "GraphRuntime \<Rightarrow> ledger \<Rightarrow> graph_result" where
  "finished g l = Some (g, Inr l)"

definition reading :: "GraphRuntime \<Rightarrow> 'a res \<Rightarrow> ('a \<Rightarrow> graph_result) \<Rightarrow> graph_result" where
  "reading g x f = (case x of Inl e \<Rightarrow> Some (g, Inl e) | Inr v \<Rightarrow> f v)"

definition graph_put :: "'j graph_env \<Rightarrow> 'j event_input \<Rightarrow> GraphRuntime \<Rightarrow> ledger \<Rightarrow> graph_result" where
  "graph_put E inp g l = reading g (append_on (ge_serde E) (ge_now E) inp l) (\<lambda>(l', _). finished g l')"

fun put_all :: "'j graph_env \<Rightarrow> 'j event_input list \<Rightarrow> GraphRuntime \<Rightarrow> ledger \<Rightarrow> graph_result" where
  "put_all E [] g l = finished g l"
| "put_all E (inp # inps) g l = and_then (graph_put E inp g l) (put_all E inps)"

section \<open>Contexts and queues\<close>

definition ctx_of :: "'j graph_env \<Rightarrow> string \<Rightarrow> GraphRuntime \<Rightarrow> RunContext option \<times> GraphRuntime" where
  "ctx_of E run_id g =
     (case gr_runs g run_id of
        Some cached \<Rightarrow> (cached, g)
      | None \<Rightarrow>
          let loaded = (case load_run (ge_read E) (ge_manifest E) (ge_recipe E) (path_join (gr_camp_root g) ''runs'') run_id of
                Inl _ \<Rightarrow> None | Inr ctx \<Rightarrow> Some ctx)
          in (loaded, g\<lparr>gr_runs := (gr_runs g)(run_id \<mapsto> loaded)\<rparr>))"

definition push_new :: "'a \<Rightarrow> 'a list \<Rightarrow> 'a list" where
  "push_new x xs = (if x \<in> set xs then xs else xs @ [x])"

definition queue_check :: "PendingCheck \<Rightarrow> GraphRuntime \<Rightarrow> GraphRuntime" where
  "queue_check c g = g\<lparr>gr_pending_checks := push_new c (gr_pending_checks g)\<rparr>"

definition queue_fanout :: "PendingFanout \<Rightarrow> GraphRuntime \<Rightarrow> GraphRuntime" where
  "queue_fanout f g = g\<lparr>gr_pending_fanouts := push_new f (gr_pending_fanouts g)\<rparr>"

definition queue_drain :: "PendingDrain \<Rightarrow> GraphRuntime \<Rightarrow> GraphRuntime" where
  "queue_drain d g = g\<lparr>gr_pending_drains := push_new d (gr_pending_drains g)\<rparr>"

section \<open>Inputs\<close>

definition prefix_of :: "string \<Rightarrow> string res" where
  "prefix_of i =
     (case parse_bead_id i of
        None \<Rightarrow> Inl (Corrupt (Msg ''{bead_id:?} is not a bead id'' [i])) | Some (p, _) \<Rightarrow> Inr p)"

definition attempt_bead_input ::
    "'j value_ops \<Rightarrow> string \<Rightarrow> string \<Rightarrow> string \<Rightarrow> Step \<Rightarrow> string \<Rightarrow> string \<Rightarrow> nat \<Rightarrow> string option \<Rightarrow> 'j event_input" where
  "attempt_bead_input J i rg run_id step anchor_title base_description attempt_no evidence =
     (let description = (case evidence of
            Some ev \<Rightarrow> if base_description = [] then ev else base_description @ NL @ NL @ ev
          | None \<Rightarrow> base_description)
      in \<lparr>in_kind = BeadCreated, in_rig = Some rg, in_actor = ''campd'', in_bead = Some i,
          in_data = jv_object J
            ([(''title'', jv_string J (anchor_title @ '' (attempt '' @ show_nat attempt_no @ '')'')),
              (''run_id'', jv_string J run_id), (''step_id'', jv_string J (st_id step))] @
             (if description = [] then [] else [(''description'', jv_string J description)]) @
             (case st_assignee step of None \<Rightarrow> [] | Some a \<Rightarrow> [(''assignee'', jv_string J a)]))\<rparr>)"

definition claim_input :: "'j value_ops \<Rightarrow> string \<Rightarrow> string \<Rightarrow> 'j event_input" where
  "claim_input J rg bead =
     \<lparr>in_kind = BeadClaimed, in_rig = Some rg, in_actor = ''campd'', in_bead = Some bead,
      in_data = jv_object J [(''session'', jv_string J ''campd'')]\<rparr>"

definition close_anchor_input ::
    "'j value_ops \<Rightarrow> string \<Rightarrow> string \<Rightarrow> string \<Rightarrow> string option \<Rightarrow> 'j option \<Rightarrow> string \<Rightarrow> 'j event_input" where
  "close_anchor_input J rg i oc disposition output reason =
     \<lparr>in_kind = BeadClosed, in_rig = Some rg, in_actor = ''campd'', in_bead = Some i,
      in_data = jv_object J
        ([(''outcome'', jv_string J oc), (''reason'', jv_string J reason)] @
         (case disposition of None \<Rightarrow> [] | Some d \<Rightarrow> [(''final_disposition'', jv_string J d)]) @
         (case output of None \<Rightarrow> [] | Some v \<Rightarrow> [(''output'', v)]))\<rparr>"

definition close_anchor ::
    "'j graph_env \<Rightarrow> BeadRow \<Rightarrow> string \<Rightarrow> string option \<Rightarrow> 'j option \<Rightarrow> string \<Rightarrow> GraphRuntime \<Rightarrow> ledger \<Rightarrow> graph_result" where
  "close_anchor E anchor oc disposition output reason =
     graph_put E (close_anchor_input (ge_ops E) (row_rig anchor) (row_id anchor) oc disposition output reason)"

definition release_input :: "'j graph_env \<Rightarrow> string \<Rightarrow> string \<Rightarrow> 'j event_input" where
  "release_input E rg member =
     \<lparr>in_kind = BeadUpdated, in_rig = Some rg, in_actor = ''campd'', in_bead = Some member,
      in_data = jv_object (ge_ops E)
        [(''metadata'', jv_object (ge_ops E) [(EXCLUSIVE_DRAIN_RESERVATION, ge_null E)])]\<rparr>"

text \<open>\<open>data["field"].as_str().unwrap_or_default()\<close>.\<close>

definition str_or_empty :: "'j value_ops \<Rightarrow> 'j option \<Rightarrow> string \<Rightarrow> string" where
  "str_or_empty J d field = (case data_str J d field of None \<Rightarrow> [] | Some s \<Rightarrow> s)"

section \<open>Attempts\<close>

definition create_attempt ::
    "'j graph_env \<Rightarrow> RunContext \<Rightarrow> Step \<Rightarrow> BeadRow \<Rightarrow> nat \<Rightarrow> string option \<Rightarrow> GraphRuntime \<Rightarrow> ledger \<Rightarrow> graph_result" where
  "create_attempt E ctx step anchor_row attempt_no evidence g l =
     reading g (prefix_of (row_id anchor_row)) (\<lambda>p.
     reading g (next_bead_id (tables l) p) (\<lambda>i.
     reading g (created_event_data (ge_serde E) l (row_id anchor_row)) (\<lambda>d.
       graph_put E (attempt_bead_input (ge_ops E) i (row_rig anchor_row) (cx_run_id ctx) step (row_title anchor_row)
                (str_or_empty (ge_ops E) d ''description'') attempt_no evidence) g l)))"

definition held_by_campd :: "BeadRow \<Rightarrow> bool" where
  "held_by_campd row \<longleftrightarrow> row_status row = InProgress \<and> row_claimed_by row = Some ''campd''"

text \<open>The number of an attempt: its position, from one, or the count of the attempts.\<close>

definition attempt_number :: "string \<Rightarrow> BeadRow list \<Rightarrow> nat" where
  "attempt_number bead rows =
     (case find (\<lambda>(k, b). row_id b = bead) (enumerate 0 rows) of
        None \<Rightarrow> length rows | Some (k, _) \<Rightarrow> k + 1)"

definition on_check_attempt ::
    "'j graph_env \<Rightarrow> RunContext \<Rightarrow> Step \<Rightarrow> BeadRow \<Rightarrow> string \<Rightarrow> string \<Rightarrow> string \<Rightarrow> BeadRow list \<Rightarrow>
     GraphRuntime \<Rightarrow> ledger \<Rightarrow> graph_result" where
  "on_check_attempt E ctx step anchor_row attempt_bead oc reason rows g l =
     (if oc = ''pass''
      then finished (queue_check \<lparr>kc_run_id = cx_run_id ctx, kc_step_id = st_id step, kc_anchor = row_id anchor_row,
             kc_attempt_bead = attempt_bead, kc_attempt_no = check_runs_used rows\<rparr> g) l
      else close_anchor E anchor_row ''fail'' (Some ''hard_fail'') None
             (''attempt '' @ show_nat (attempt_number attempt_bead rows) @ '' failed: '' @ reason) g l)"

definition on_retry_attempt ::
    "'j graph_env \<Rightarrow> RunContext \<Rightarrow> Step \<Rightarrow> Retry \<Rightarrow> BeadRow \<Rightarrow> string \<Rightarrow> 'j \<Rightarrow> string \<Rightarrow> string \<Rightarrow> BeadRow list \<Rightarrow>
     GraphRuntime \<Rightarrow> ledger \<Rightarrow> graph_result" where
  "on_retry_attempt E ctx step retry_spec anchor_row attempt_bead close_data oc reason rows g l =
     (let no = show_nat (attempt_number attempt_bead rows) in
      if oc = ''pass''
      then close_anchor E anchor_row ''pass'' None (jv_get (ge_ops E) close_data ''output'')
             (''attempt '' @ no @ '' passed'') g l
      else if data_str (ge_ops E) (Some close_data) ''failure_class'' = Some ''transient''
      then reading g (transient_fails_used (ge_serde E) (ge_ops E) l rows) (\<lambda>used.
             if used < rt_max_attempts retry_spec
             then create_attempt E ctx step anchor_row (length rows + 1)
                    (Some (''attempt '' @ no @ '' failed transient: '' @ reason)) g l
             else close_anchor E anchor_row ''fail'' (Some (disposition_as_str (rt_on_exhausted retry_spec))) None
                    (''retry budget ('' @ show_nat (rt_max_attempts retry_spec) @ '') exhausted'') g l)
      else close_anchor E anchor_row ''fail'' (Some ''hard_fail'') None
             (''attempt '' @ no @ '' failed: '' @ reason) g l)"

definition on_attempt_closed ::
    "'j graph_env \<Rightarrow> RunContext \<Rightarrow> Step \<Rightarrow> string \<Rightarrow> 'j \<Rightarrow> GraphRuntime \<Rightarrow> ledger \<Rightarrow> graph_result" where
  "on_attempt_closed E ctx step attempt_bead close_data g l =
     (case map_of (cx_anchors ctx) (st_id step) of
        None \<Rightarrow> None
      | Some anchor_id \<Rightarrow>
          reading g (get_bead (ge_serde E) (tables l) anchor_id) (\<lambda>found.
          case found of
            None \<Rightarrow> finished g l
          | Some anchor_row \<Rightarrow>
              if \<not> held_by_campd anchor_row then finished g l
              else
                let oc = str_or_empty (ge_ops E) (Some close_data) ''outcome'';
                    reason = (case data_str (ge_ops E) (Some close_data) ''reason'' of
                                None \<Rightarrow> ''no reason given'' | Some r \<Rightarrow> r)
                in reading g (attempts (ge_serde E) l (cx_run_id ctx) (st_id step) anchor_id) (\<lambda>rows.
                   if st_check step \<noteq> None
                   then on_check_attempt E ctx step anchor_row attempt_bead oc reason rows g l
                   else case st_retry step of
                     Some retry_spec \<Rightarrow>
                       on_retry_attempt E ctx step retry_spec anchor_row attempt_bead close_data oc reason rows g l
                   | None \<Rightarrow> finished g l)))"

section \<open>Claiming an anchor\<close>

definition maybe_claim_looping :: "'j graph_env \<Rightarrow> string \<Rightarrow> GraphRuntime \<Rightarrow> ledger \<Rightarrow> graph_result" where
  "maybe_claim_looping E bead g l =
     (case run_membership (tables l) bead of
        None \<Rightarrow> finished g l
      | Some m \<Rightarrow>
     (case rm_step_id m of
        None \<Rightarrow> finished g l
      | Some step_id \<Rightarrow>
     (case ctx_of E (rm_run_id m) g of
        (None, g1) \<Rightarrow> finished g1 l
      | (Some ctx, g1) \<Rightarrow>
     (case step_ref ctx step_id of
        None \<Rightarrow> finished g1 l
      | Some sr \<Rightarrow>
          if sr_anchor sr \<noteq> bead \<or> \<not> is_campd_held (sr_step sr) then finished g1 l
          else reading g1 (get_bead (ge_serde E) (tables l) bead) (\<lambda>found.
          case found of
            None \<Rightarrow> finished g1 l
          | Some row \<Rightarrow>
              if row_status row \<noteq> Open then finished g1 l
              else reading g1 (is_ready (tables l) bead) (\<lambda>ready.
                if \<not> ready then finished g1 l
                else and_then (graph_put E (claim_input (ge_ops E) (row_rig row) bead) g1 l) (\<lambda>g2 l2.
                  if is_looping (sr_step sr) then create_attempt E ctx (sr_step sr) row 1 None g2 l2
                  else finished (queue_drain \<lparr>kd_run_id = rm_run_id m, kd_step_id = step_id, kd_anchor = bead\<rparr> g2) l2)))))))"

fun claim_all :: "'j graph_env \<Rightarrow> string list \<Rightarrow> GraphRuntime \<Rightarrow> ledger \<Rightarrow> graph_result" where
  "claim_all E [] g l = finished g l"
| "claim_all E (b # bs) g l = and_then (maybe_claim_looping E b g l) (claim_all E bs)"

section \<open>The end of a run\<close>

fun release_orphans :: "'j graph_env \<Rightarrow> (string \<times> string) list \<Rightarrow> GraphRuntime \<Rightarrow> ledger \<Rightarrow> graph_result" where
  "release_orphans E [] g l = finished g l"
| "release_orphans E ((member, anchor) # rest) g l =
     reading g (get_bead (ge_serde E) (tables l) member) (\<lambda>found.
       case found of
         None \<Rightarrow> release_orphans E rest g l
       | Some row \<Rightarrow> and_then (graph_put E (release_input E (row_rig row) member) g l) (release_orphans E rest))"

definition dead_end_run :: "'j graph_env \<Rightarrow> string \<Rightarrow> int \<Rightarrow> GraphRuntime \<Rightarrow> ledger \<Rightarrow> graph_result" where
  "dead_end_run E run_id cause_seq g l =
     reading g (dead_end_inputs (ge_serde E) (ge_ops E) (tables l) run_id cause_seq
         ''run dir unreadable; the run cannot advance'') (\<lambda>inps.
       and_then (put_all E inps g l) (\<lambda>g l. release_orphans E (orphaned_reservations (tables l)) g l))"

definition finalize_inputs ::
    "'j value_ops \<Rightarrow> RunContext \<Rightarrow> int \<Rightarrow> string \<Rightarrow> string \<Rightarrow> string list \<Rightarrow> string list \<Rightarrow> string list \<Rightarrow> 'j event_input list" where
  "finalize_inputs J ctx cause_seq oc disposition soft_failed skipped to_skip =
     map (\<lambda>b. close_input J (cx_rig ctx) b ''skipped'' ''needs cannot be satisfied'') to_skip @
     [close_input J (cx_rig ctx) (cx_root ctx) oc ''run finalized'',
      \<lparr>in_kind = RunFinalized, in_rig = Some (cx_rig ctx), in_actor = ''campd'', in_bead = Some (cx_root ctx),
       in_data = finalized_data J (cx_run_id ctx) (cx_root ctx) oc disposition cause_seq soft_failed skipped\<rparr>]"

definition finalize_if_quiescent :: "'j graph_env \<Rightarrow> RunContext \<Rightarrow> int \<Rightarrow> GraphRuntime \<Rightarrow> ledger \<Rightarrow> graph_result" where
  "finalize_if_quiescent E ctx cause_seq g l =
     (case finalization (ge_serde E) (ge_ops E) l ctx of
        None \<Rightarrow> None
      | Some r \<Rightarrow> reading g r (\<lambda>v. case v of
            NotQuiescent \<Rightarrow> finished g l
          | Finalize oc disposition soft_failed skipped to_skip \<Rightarrow>
              put_all E (finalize_inputs (ge_ops E) ctx cause_seq oc disposition soft_failed skipped to_skip) g l))"

section \<open>The hook\<close>

definition drain_of_label :: "state \<Rightarrow> string \<Rightarrow> PendingDrain option" where
  "drain_of_label st label =
     (case parse_drain_label label of
        None \<Rightarrow> None
      | Some (anchor, _) \<Rightarrow>
          (case run_membership st anchor of
             Some m \<Rightarrow> map_option (\<lambda>s. \<lparr>kd_run_id = rm_run_id m, kd_step_id = s, kd_anchor = anchor\<rparr>) (rm_step_id m)
           | None \<Rightarrow> None))"

definition fanout_of_label :: "state \<Rightarrow> string \<Rightarrow> PendingFanout option" where
  "fanout_of_label st label =
     (case parse_bond_label label of
        None \<Rightarrow> None
      | Some (anchor, _) \<Rightarrow>
          (case run_membership st anchor of
             Some m \<Rightarrow> map_option (\<lambda>s. \<lparr>kf_run_id = rm_run_id m, kf_step_id = s, kf_anchor = anchor\<rparr>) (rm_step_id m)
           | None \<Rightarrow> None))"

definition on_root_closed :: "'j graph_env \<Rightarrow> string \<Rightarrow> GraphRuntime \<Rightarrow> ledger \<Rightarrow> graph_result" where
  "on_root_closed E root g l =
     reading g (get_bead (ge_serde E) (tables l) root) (\<lambda>found.
       case found of
         None \<Rightarrow> finished g l
       | Some row \<Rightarrow>
           let st = tables l; labels = row_labels row;
               g1 = fold queue_drain (List.map_filter (drain_of_label st) labels) g
           in finished (fold queue_fanout (List.map_filter (fanout_of_label st) labels) g1) l)"

definition on_run_bead_closed ::
    "'j graph_env \<Rightarrow> 'j event \<Rightarrow> string \<Rightarrow> string \<Rightarrow> RunMembership \<Rightarrow> GraphRuntime \<Rightarrow> ledger \<Rightarrow> graph_result" where
  "on_run_bead_closed E ev bead oc m g l =
     (case rm_step_id m of
        None \<Rightarrow> on_root_closed E bead g l
      | Some step_id \<Rightarrow>
     (case ctx_of E (rm_run_id m) g of
        (None, g1) \<Rightarrow> dead_end_run E (rm_run_id m) (ev_seq ev) g1 l
      | (Some ctx, g1) \<Rightarrow>
     (case step_ref ctx step_id of
        None \<Rightarrow> finished g1 l
      | Some sr \<Rightarrow>
          if sr_anchor sr = bead
          then finalize_if_quiescent E ctx (ev_seq ev)
                 (if oc = ''pass'' \<and> st_on_complete (sr_step sr) \<noteq> None
                  then queue_fanout \<lparr>kf_run_id = cx_run_id ctx, kf_step_id = step_id, kf_anchor = bead\<rparr> g1
                  else g1) l
          else on_attempt_closed E ctx (sr_step sr) bead (ev_data ev) g1 l)))"

definition on_bead_closed :: "'j graph_env \<Rightarrow> 'j event \<Rightarrow> GraphRuntime \<Rightarrow> ledger \<Rightarrow> graph_result" where
  "on_bead_closed E ev g l =
     (case ev_bead ev of
        None \<Rightarrow> finished g l
      | Some bead \<Rightarrow>
          let oc = str_or_empty (ge_ops E) (Some (ev_data ev)) ''outcome'' in
          and_then
            (if oc = ''pass'' then reading g (newly_ready (tables l) bead) (\<lambda>bs. claim_all E bs g l) else finished g l)
            (\<lambda>g l. case run_membership (tables l) bead of
                None \<Rightarrow> finished g l
              | Some m \<Rightarrow> on_run_bead_closed E ev bead oc m g l))"

definition on_bead_created :: "'j graph_env \<Rightarrow> 'j event \<Rightarrow> GraphRuntime \<Rightarrow> ledger \<Rightarrow> graph_result" where
  "on_bead_created E ev g l =
     (case ev_bead ev of None \<Rightarrow> finished g l | Some bead \<Rightarrow> maybe_claim_looping E bead g l)"

definition on_run_cooked :: "'j graph_env \<Rightarrow> 'j event \<Rightarrow> GraphRuntime \<Rightarrow> ledger \<Rightarrow> graph_result" where
  "on_run_cooked E ev g l =
     (let run_id = str_or_empty (ge_ops E) (Some (ev_data ev)) ''run_id'' in
      case ctx_of E run_id g of
        (None, g1) \<Rightarrow> dead_end_run E run_id (ev_seq ev) g1 l
      | (Some _, g1) \<Rightarrow> finished g1 l)"

definition process_graph :: "'j graph_env \<Rightarrow> 'j event \<Rightarrow> GraphRuntime \<Rightarrow> ledger \<Rightarrow> graph_result" where
  "process_graph E ev g l =
     (case ev_kind ev of
        RunCooked \<Rightarrow> on_run_cooked E ev g l
      | BeadCreated \<Rightarrow> on_bead_created E ev g l
      | BeadClosed \<Rightarrow> on_bead_closed E ev g l
      | _ \<Rightarrow> finished g l)"

section \<open>The hook extends the log\<close>

text \<open>What every writer does to the ledger: it appends, and leaves the cursors to the loop.\<close>

definition grows :: "'j serde \<Rightarrow> ledger \<Rightarrow> ledger \<Rightarrow> bool" where
  "grows S l l' \<longleftrightarrow> (\<exists>rows. event_log l' = event_log l @ rows) \<and> cursors l' = cursors l \<and>
     (wf_log l \<longrightarrow> wf_log l') \<and> (text_roundtrip S \<longrightarrow> good S l \<longrightarrow> good S l')"

lemma grows_refl [simp]: "grows S l l"
  by (simp add: grows_def)

lemma grows_trans [trans]: "grows S l l1 \<Longrightarrow> grows S l1 l2 \<Longrightarrow> grows S l l2"
  by (auto simp: grows_def)

lemma grows_insert: "insert_and_fold S ts inp l = Inr (l', seq) \<Longrightarrow> grows S l l'"
  using insert_and_fold_wf_log insert_and_fold_good
  by (fastforce simp: grows_def insert_and_fold_Inr)

lemma grows_insert_all: "insert_all S ts inps l = Inr (l', seqs) \<Longrightarrow> grows S l l'"
proof (induction inps arbitrary: l seqs)
  case (Cons inp inps)
  then obtain l1 k seqs1 where "insert_and_fold S ts inp l = Inr (l1, k)" "insert_all S ts inps l1 = Inr (l', seqs1)"
    by auto
  then show ?case using Cons.IH grows_insert grows_trans by blast
qed simp

lemma grows_batch: "append_batch S ts inps l = (l', r) \<Longrightarrow> grows S l l'"
  by (cases r) (auto simp: append_batch_Inl append_batch_Inr intro: grows_insert_all)

lemma grows_event: "append_event S ts inp l = (l', r) \<Longrightarrow> grows S l l'"
  by (auto simp: append_event_cases intro: grows_insert split: sum.splits)

definition result_grows :: "'j graph_env \<Rightarrow> ledger \<Rightarrow> graph_result \<Rightarrow> bool" where
  "result_grows E l r \<longleftrightarrow> (\<forall>g l'. r = Some (g, Inr l') \<longrightarrow> grows (ge_serde E) l l')"

lemma result_grows_finished [simp]: "result_grows E l (finished g l)"
  by (simp add: result_grows_def finished_def)

lemma result_grows_None [simp]: "result_grows E l None"
  by (simp add: result_grows_def)

lemma result_grows_reading: "(\<And>v. x = Inr v \<Longrightarrow> result_grows E l (f v)) \<Longrightarrow> result_grows E l (reading g x f)"
  by (simp add: reading_def result_grows_def split: sum.split)

lemma result_grows_and_then:
  assumes "result_grows E l r" and "\<And>g1 l1. result_grows E l1 (f g1 l1)"
  shows "result_grows E l (and_then r f)"
  using assms grows_trans
  by (fastforce simp: and_then_def result_grows_def split: option.splits sum.splits)

lemma result_grows_put: "result_grows E l (graph_put E inp g l)"
  unfolding graph_put_def
  by (rule result_grows_reading)
    (auto simp: append_on_def finished_def result_grows_def intro: grows_insert)

lemma result_grows_put_all: "result_grows E l (put_all E inps g l)"
  by (induction inps arbitrary: g l) (auto intro: result_grows_and_then result_grows_put)

lemmas growing_rules = result_grows_finished result_grows_None result_grows_reading result_grows_and_then
  result_grows_put result_grows_put_all

lemma result_grows_attempt: "result_grows E l (create_attempt E ctx step row n ev g l)"
  unfolding create_attempt_def by (intro growing_rules)

lemma result_grows_attempt_closed: "result_grows E l (on_attempt_closed E ctx step bead d g l)"
  unfolding on_attempt_closed_def on_check_attempt_def on_retry_attempt_def close_anchor_def Let_def
  by (auto intro!: growing_rules result_grows_attempt split: option.split)

lemma result_grows_claim: "result_grows E l (maybe_claim_looping E bead g l)"
  unfolding maybe_claim_looping_def
  by (auto intro!: growing_rules result_grows_attempt split: option.split prod.split)

lemma result_grows_claims: "result_grows E l (claim_all E bs g l)"
  by (induction bs arbitrary: g l) (auto intro: growing_rules result_grows_claim)

lemma result_grows_orphans: "result_grows E l (release_orphans E os g l)"
  by (induction os arbitrary: g l) (auto intro!: growing_rules split: option.split)

lemma result_grows_dead_end: "result_grows E l (dead_end_run E run_id cause g l)"
  unfolding dead_end_run_def by (intro growing_rules result_grows_orphans)

lemma result_grows_finalize: "result_grows E l (finalize_if_quiescent E ctx cause g l)"
  unfolding finalize_if_quiescent_def
  by (auto intro!: growing_rules split: option.split run_verdict.split)

lemma process_graph_grows: "result_grows E l (process_graph E ev g l)"
proof -
  have "result_grows E l (on_root_closed E bead g l)" for bead g l
    unfolding on_root_closed_def Let_def by (auto intro!: growing_rules split: option.split)
  then have "result_grows E l (on_run_bead_closed E ev bead oc m g l)" for bead oc m g l
    unfolding on_run_bead_closed_def
    by (auto intro!: growing_rules result_grows_dead_end result_grows_finalize result_grows_attempt_closed
        split: option.split prod.split)
  then have "result_grows E l (on_bead_closed E ev g l)"
    unfolding on_bead_closed_def Let_def
    by (auto intro!: growing_rules result_grows_claims split: option.split)
  moreover have "result_grows E l (on_run_cooked E ev g l)"
    unfolding on_run_cooked_def Let_def by (auto intro!: growing_rules result_grows_dead_end split: option.split prod.split)
  moreover have "result_grows E l (on_bead_created E ev g l)"
    unfolding on_bead_created_def by (auto intro: result_grows_claim split: option.split)
  ultimately show ?thesis unfolding process_graph_def by (cases "ev_kind ev") simp_all
qed

end
