(* ===== verification/Checks.thy ===== *)
theory Checks
  imports "HOL-Library.AList" Graph
begin

text \<open>
  The check scripts of campd (\<open>GraphRuntime\<close> of \<^verbatim>\<open>crates/camp/src/daemon/dispatch.rs\<close>, the part
  that runs after the cursor's transaction): spawning a check, its deadline, the kill of an expired
  one, and the verdict of an exited one, an atomic batch. The operating system is a parameter.
  Durations and instants are in milliseconds. The map of the children is an association list.
\<close>

section \<open>The operating system\<close>

record exit_status =
  es_code :: "int option"
  es_signal :: "int option"

definition exit_success :: "exit_status \<Rightarrow> bool" where
  "exit_success s \<longleftrightarrow> es_code s = Some 0"

record spawn_request =
  sp_script :: string
  sp_cwd :: string
  sp_camp_dir :: string
  sp_bead :: string
  sp_run_id :: string
  sp_step_id :: string
  sp_attempt :: string
  sp_log :: string

text \<open>
  A call that may fail gives its error. \<open>os_open_log\<close> has the number of the call; \<open>os_wait\<close> is
  \<open>try_wait\<close>: no status while the child runs.
\<close>

record check_os =
  os_create_dir_all :: "string \<Rightarrow> string option"
  os_open_log :: "nat \<Rightarrow> string \<Rightarrow> string option"
  os_now :: int
  os_spawn :: "spawn_request \<Rightarrow> string + nat"
  os_wait :: "nat \<Rightarrow> string + exit_status option"
  os_read_text :: "string \<Rightarrow> string + string"

section \<open>Spawning\<close>

definition check_spawn_failure ::
    "'j graph_env \<Rightarrow> (message \<Rightarrow> string) \<Rightarrow> PendingCheck \<Rightarrow> BeadRow \<Rightarrow> message \<Rightarrow> ledger \<Rightarrow> ledger \<times> unit res" where
  "check_spawn_failure E fmt pending anchor_row error l =
     (let J = ge_ops E; text = fmt error in
      case append_batch (ge_serde E) (ge_clock E (last_seq l))
         [\<lparr>in_kind = CheckFailed, in_rig = Some (row_rig anchor_row), in_actor = ''campd'',
           in_bead = Some (kc_attempt_bead pending),
           in_data = jv_object J [(''run_id'', jv_string J (kc_run_id pending)), (''step_id'', jv_string J (kc_step_id pending)),
             (''attempt'', jv_int J (int (kc_attempt_no pending))), (''error'', jv_string J text)]\<rparr>,
          close_anchor_input J (row_rig anchor_row) (row_id anchor_row) ''fail'' (Some ''hard_fail'') None text] l of
        (l', Inl e) \<Rightarrow> (l', Inl e)
      | (l', Inr _) \<Rightarrow> (l', Inr ()))"

definition check_deadline :: "int \<Rightarrow> nat option \<Rightarrow> nat option \<Rightarrow> int option" where
  "check_deadline now a b =
     map_option (\<lambda>d. now + int d)
       (case (a, b) of (Some x, Some y) \<Rightarrow> Some (min x y) | (Some x, None) \<Rightarrow> Some x | (None, y) \<Rightarrow> y)"

definition start_check ::
    "'j graph_env \<Rightarrow> (message \<Rightarrow> string) \<Rightarrow> check_os \<Rightarrow> PendingCheck \<Rightarrow> BeadRow \<Rightarrow> RigConfig \<Rightarrow> Check \<Rightarrow> Step \<Rightarrow>
     GraphRuntime \<Rightarrow> ledger \<Rightarrow> (GraphRuntime \<times> ledger) \<times> unit res" where
  "start_check E fmt os pending anchor_row rg ck step g l =
     (let fail = (\<lambda>msg. case check_spawn_failure E fmt pending anchor_row msg l of (l', r) \<Rightarrow> ((g, l'), r));
          script = (if starts_with ''/'' (ck_path ck) then ck_path ck else path_join (rg_path rg) (ck_path ck));
          log_dir = path_join (path_join (path_join (gr_camp_root g) ''runs'') (kc_run_id pending)) ''checks'';
          log_path = path_join log_dir (kc_step_id pending @ ''-attempt-'' @ show_nat (kc_attempt_no pending) @ ''.log'')
      in case os_create_dir_all os log_dir of
        Some e \<Rightarrow> fail (Msg ''cannot create {}: {e}'' [log_dir, e])
      | None \<Rightarrow>
     (case (case os_open_log os 0 log_path of Some e \<Rightarrow> Some e | None \<Rightarrow> os_open_log os 1 log_path) of
        Some e \<Rightarrow> fail (Msg ''cannot open {}: {e}'' [log_path, e])
      | None \<Rightarrow>
     (case os_spawn os \<lparr>sp_script = script, sp_cwd = rg_path rg, sp_camp_dir = gr_camp_root g, sp_bead = kc_anchor pending,
           sp_run_id = kc_run_id pending, sp_step_id = kc_step_id pending, sp_attempt = show_nat (kc_attempt_no pending),
           sp_log = log_path\<rparr> of
        Inl e \<Rightarrow> fail (Msg ''check script {} failed to start: {e}'' [script, e])
      | Inr pid \<Rightarrow>
          ((g\<lparr>gr_check_children := AList.update pid
              \<lparr>cc_run_id = kc_run_id pending, cc_step_id = kc_step_id pending, cc_anchor = kc_anchor pending,
               cc_attempt_bead = kc_attempt_bead pending, cc_attempt_no = kc_attempt_no pending,
               cc_deadline = check_deadline (os_now os) (ck_timeout ck) (st_timeout step), cc_log_path = log_path,
               cc_timed_out = False\<rparr> (gr_check_children g)\<rparr>, l), Inr ()))))"

definition spawn_check ::
    "'j graph_env \<Rightarrow> (message \<Rightarrow> string) \<Rightarrow> check_os \<Rightarrow> PendingCheck \<Rightarrow> GraphRuntime \<Rightarrow> ledger \<Rightarrow>
     (GraphRuntime \<times> ledger) \<times> unit res" where
  "spawn_check E fmt os pending g l =
     (case ctx_of E (kc_run_id pending) g of
        (None, g1) \<Rightarrow> ((g1, l), Inr ())
      | (Some ctx, g1) \<Rightarrow>
     (case step_ref ctx (kc_step_id pending) of
        None \<Rightarrow> ((g1, l), Inr ())
      | Some sr \<Rightarrow>
     (case st_check (sr_step sr) of
        None \<Rightarrow> ((g1, l), Inr ())
      | Some ck \<Rightarrow>
     (case get_bead (ge_serde E) (tables l) (kc_anchor pending) of
        Inl e \<Rightarrow> ((g1, l), Inl e)
      | Inr None \<Rightarrow> ((g1, l), Inr ())
      | Inr (Some anchor_row) \<Rightarrow>
          if \<not> held_by_campd anchor_row then ((g1, l), Inr ())
          else case gr_rigs g1 (cx_rig ctx) of
            None \<Rightarrow> (case check_spawn_failure E fmt pending anchor_row
                (Msg ''rig {:?} is not configured'' [cx_rig ctx]) l of (l', r) \<Rightarrow> ((g1, l'), r))
          | Some rg \<Rightarrow> start_check E fmt os pending anchor_row rg ck (sr_step sr) g1 l))))"

section \<open>Deadlines\<close>

definition live_deadlines :: "GraphRuntime \<Rightarrow> int list" where
  "live_deadlines g =
     List.map_filter (\<lambda>(_, c). if cc_timed_out c then None else cc_deadline c) (gr_check_children g)"

definition checks_poll_timeout :: "int \<Rightarrow> GraphRuntime \<Rightarrow> int option" where
  "checks_poll_timeout now g =
     (case live_deadlines g of
        [] \<Rightarrow> None
      | d # ds \<Rightarrow> Some (max 0 (foldl min d ds - now)))"

text \<open>A child that has exited met its deadline; the others past it are killed.\<close>

definition expire :: "check_os \<Rightarrow> int \<Rightarrow> nat \<times> CheckChild \<Rightarrow> nat \<times> CheckChild" where
  "expire os now pc =
     (case pc of (pid, c) \<Rightarrow>
      if cc_timed_out c then pc
      else case cc_deadline c of
        None \<Rightarrow> pc
      | Some d \<Rightarrow>
          if d \<le> now \<and> \<not> (case os_wait os pid of Inr (Some _) \<Rightarrow> True | _ \<Rightarrow> False) then (pid, c\<lparr>cc_timed_out := True\<rparr>) else pc)"

definition kill_expired :: "check_os \<Rightarrow> int \<Rightarrow> GraphRuntime \<Rightarrow> GraphRuntime" where
  "kill_expired os now g = g\<lparr>gr_check_children := map (expire os now) (gr_check_children g)\<rparr>"

section \<open>The verdict\<close>

text \<open>The last 2048 bytes of a log, from the start of a character; strings are bytes of UTF-8.\<close>

definition utf8_continues :: "char \<Rightarrow> bool" where
  "utf8_continues c \<longleftrightarrow> 128 \<le> byte c \<and> byte c < 192"

definition log_tail :: "check_os \<Rightarrow> string \<Rightarrow> string" where
  "log_tail os path =
     (case os_read_text os path of
        Inl _ \<Rightarrow> []
      | Inr text \<Rightarrow> dropWhile utf8_continues (drop (length text - 2048) text))"

definition check_passed_inputs :: "'j value_ops \<Rightarrow> CheckChild \<Rightarrow> string \<Rightarrow> 'j option \<Rightarrow> 'j event_input list" where
  "check_passed_inputs J c rg output =
     [\<lparr>in_kind = CheckPassed, in_rig = Some rg, in_actor = ''campd'', in_bead = Some (cc_attempt_bead c),
       in_data = jv_object J [(''run_id'', jv_string J (cc_run_id c)), (''step_id'', jv_string J (cc_step_id c)),
         (''attempt'', jv_int J (int (cc_attempt_no c)))]\<rparr>,
      close_anchor_input J rg (cc_anchor c) ''pass'' None output
        (''check passed on attempt '' @ show_nat (cc_attempt_no c))]"

definition check_failed_input :: "'j value_ops \<Rightarrow> CheckChild \<Rightarrow> string \<Rightarrow> exit_status \<Rightarrow> 'j event_input" where
  "check_failed_input J c rg status =
     \<lparr>in_kind = CheckFailed, in_rig = Some rg, in_actor = ''campd'', in_bead = Some (cc_attempt_bead c),
      in_data = jv_object J
        ([(''run_id'', jv_string J (cc_run_id c)), (''step_id'', jv_string J (cc_step_id c)),
          (''attempt'', jv_int J (int (cc_attempt_no c))), (''log'', jv_string J (cc_log_path c))] @
         (if cc_timed_out c then [(''timed_out'', jv_bool J True)] else []) @
         (case (es_code status, es_signal status) of
            (Some code, _) \<Rightarrow> [(''exit_code'', jv_int J code)]
          | (None, Some s) \<Rightarrow> [(''signal'', jv_int J s)]
          | _ \<Rightarrow> []))\<rparr>"

definition check_evidence :: "check_os \<Rightarrow> CheckChild \<Rightarrow> exit_status \<Rightarrow> string" where
  "check_evidence os c status =
     ''check failed (attempt '' @ show_nat (cc_attempt_no c) @ ''): '' @
     (if cc_timed_out c then ''timed out''
      else ''exit '' @ show_int (case es_code status of Some code \<Rightarrow> code | None \<Rightarrow> -1)) @
     ''; log: '' @ cc_log_path c @ NL @ log_tail os (cc_log_path c)"

definition failed_check_inputs ::
    "'j graph_env \<Rightarrow> check_os \<Rightarrow> ledger \<Rightarrow> Step \<Rightarrow> nat \<Rightarrow> BeadRow \<Rightarrow> CheckChild \<Rightarrow> exit_status \<Rightarrow> 'j event_input list res" where
  "failed_check_inputs E os l step max_attempts anchor_row c status =
     (let J = ge_ops E; failed_ev = check_failed_input J c (row_rig anchor_row) status in
      if cc_attempt_no c < max_attempts
      then rbind (created_event_data (ge_serde E) l (row_id anchor_row)) (\<lambda>d.
           rbind (prefix_of (row_id anchor_row)) (\<lambda>p.
           rbind (next_bead_id (tables l) p) (\<lambda>i.
           rbind (attempts (ge_serde E) l (cc_run_id c) (cc_step_id c) (row_id anchor_row)) (\<lambda>rows.
             Inr [failed_ev,
                  attempt_bead_input J i (row_rig anchor_row) (cc_run_id c) step (row_title anchor_row)
                    (str_or_empty J d ''description'') (length rows + 1) (Some (check_evidence os c status))]))))
      else Inr [failed_ev,
                close_anchor_input J (row_rig anchor_row) (cc_anchor c) ''fail'' (Some ''hard_fail'') None
                  (''check budget ('' @ show_nat max_attempts @ '') exhausted'')])"

definition check_verdict ::
    "'j graph_env \<Rightarrow> check_os \<Rightarrow> GraphRuntime \<Rightarrow> ledger \<Rightarrow> CheckChild \<Rightarrow> exit_status \<Rightarrow> 'j event_input list option res" where
  "check_verdict E os g l c status =
     (case gr_runs g (cc_run_id c) of
        Some (Some ctx) \<Rightarrow>
     (case step_ref ctx (cc_step_id c) of
        None \<Rightarrow> Inr None
      | Some sr \<Rightarrow>
     (case st_check (sr_step sr) of
        None \<Rightarrow> Inr None
      | Some ck \<Rightarrow>
          rbind (get_bead (ge_serde E) (tables l) (cc_anchor c)) (\<lambda>found.
          case found of
            None \<Rightarrow> Inr None
          | Some anchor_row \<Rightarrow>
              if \<not> held_by_campd anchor_row then Inr None
              else if exit_success status \<and> \<not> cc_timed_out c
              then rbind (close_event_data (ge_serde E) l (cc_attempt_bead c)) (\<lambda>d.
                Inr (Some (check_passed_inputs (ge_ops E) c (row_rig anchor_row)
                  (Option.bind d (\<lambda>v. jv_get (ge_ops E) v ''output'')))))
              else rbind (failed_check_inputs E os l (sr_step sr) (ck_max_attempts ck) anchor_row c status) (\<lambda>inps.
                Inr (Some inps)))))
      | _ \<Rightarrow> Inr None)"

section \<open>Reaping\<close>

datatype reap_error = RetryableReap core_error | WaitFailed string

fun exited_children :: "check_os \<Rightarrow> (nat \<times> CheckChild) list \<Rightarrow> string + (nat \<times> exit_status) list" where
  "exited_children os [] = Inr []"
| "exited_children os ((pid, c) # cs) =
     (case os_wait os pid of
        Inl e \<Rightarrow> Inl e
      | Inr st \<Rightarrow> rbind (exited_children os cs) (\<lambda>r. Inr (case st of None \<Rightarrow> r | Some s \<Rightarrow> (pid, s) # r)))"

fun record_verdicts ::
    "'j graph_env \<Rightarrow> check_os \<Rightarrow> (nat \<times> exit_status) list \<Rightarrow> GraphRuntime \<Rightarrow> ledger \<Rightarrow>
     (GraphRuntime \<times> ledger) \<times> (reap_error + unit)" where
  "record_verdicts E os [] g l = ((g, l), Inr ())"
| "record_verdicts E os ((pid, status) # rest) g l =
     (case map_of (gr_check_children g) pid of
        None \<Rightarrow> record_verdicts E os rest g l
      | Some c \<Rightarrow>
          (case check_verdict E os g l c status of
             Inl e \<Rightarrow> ((g, l), Inl (RetryableReap e))
           | Inr v \<Rightarrow>
               (let g' = g\<lparr>gr_check_children := AList.delete pid (gr_check_children g)\<rparr> in
                case v of
                  None \<Rightarrow> record_verdicts E os rest g' l
                | Some inps \<Rightarrow>
                    (case append_batch (ge_serde E) (ge_clock E (last_seq l)) inps l of
                       (l', Inl e) \<Rightarrow> ((g, l'), Inl (RetryableReap e))
                     | (l', Inr _) \<Rightarrow> record_verdicts E os rest g' l'))))"

definition reap_checks ::
    "'j graph_env \<Rightarrow> check_os \<Rightarrow> GraphRuntime \<Rightarrow> ledger \<Rightarrow> (GraphRuntime \<times> ledger) \<times> (reap_error + unit)" where
  "reap_checks E os g l =
     (case exited_children os (gr_check_children g) of
        Inl e \<Rightarrow> ((g, l), Inl (WaitFailed e))
      | Inr exited \<Rightarrow> record_verdicts E os exited g l)"

end
