(* ===== verification/Drains.thy ===== *)
theory Drains
  imports Checks Fires
begin

text \<open>
  What the settle loop owes after the cursor's transaction (\<open>GraphRuntime\<close> of
  \<^verbatim>\<open>crates/camp/src/daemon/dispatch.rs\<close>): cooking the children of a fan-out, scattering and gathering a
  drain, the release of reservations, and the reconciliation at startup.

  Here nothing is rolled back: the ledger keeps what was appended before an error. The environment of a
  cook is a parameter by the index of the item; \<open>fuel\<close> is the compile stage's, which returns for
  enough of it.
\<close>

section \<open>Keys of a drain item\<close>

definition drain_CONTROL_ID :: string where
  "drain_CONTROL_ID = ''gc.drain_control_id''"

definition drain_INDEX :: string where
  "drain_INDEX = ''gc.drain_index''"

definition drain_COUNT :: string where
  "drain_COUNT = ''gc.drain_count''"

definition drain_MEMBER_ID :: string where
  "drain_MEMBER_ID = ''gc.drain_member_id''"

definition MEMBER_VAR :: string where
  "MEMBER_VAR = ''issue''"

text \<open>The children of an anchor as the entries of the tree, by index.\<close>

definition child_entries :: "string \<Rightarrow> 'j serde \<Rightarrow> state \<Rightarrow> string \<Rightarrow> (nat \<times> BeadRow) list res" where
  "child_entries tag S st anchor =
     rbind (children_of tag S st anchor) (\<lambda>m.
       Inr (map (\<lambda>i. (i, the (m i))) (filter (\<lambda>i. m i \<noteq> None) (sort (remdups
         (List.map_filter (\<lambda>b. case labels_of S (b_labels b) of Inl _ \<Rightarrow> None | Inr ls \<Rightarrow> child_index tag anchor ls)
           (beads st)))))))"

section \<open>Releases and closes\<close>

type_synonym ledger_result = "ledger \<times> unit res"

definition append_all :: "'j graph_env \<Rightarrow> 'j event_input list \<Rightarrow> ledger \<Rightarrow> ledger_result" where
  "append_all E inps l =
     (case append_batch (ge_serde E) (ge_clock E (last_seq l)) inps l of
        (l', Inl e) \<Rightarrow> (l', Inl e) | (l', Inr _) \<Rightarrow> (l', Inr ()))"

definition release_inputs :: "'j graph_env \<Rightarrow> ledger \<Rightarrow> string \<Rightarrow> 'j event_input list res" where
  "release_inputs E l anchor =
     rbind (reservations_held_by (ge_serde E) (tables l) anchor) (\<lambda>rows.
       Inr (map (\<lambda>row. release_input E (row_rig row) (row_id row)) rows))"

definition release_orphaned_reservations ::
    "'j graph_env \<Rightarrow> ledger \<Rightarrow> ledger \<times> (string \<times> string) list res" where
  "release_orphaned_reservations E l =
     (let orphans = orphaned_reservations (tables l) in
      if orphans = [] then (l, Inr [])
      else case foldM (\<lambda>inps (member, _).
             rbind (get_bead (ge_serde E) (tables l) member) (\<lambda>found.
             Inr (case found of None \<Rightarrow> inps | Some row \<Rightarrow> inps @ [release_input E (row_rig row) member]))) [] orphans of
        Inl e \<Rightarrow> (l, Inl e)
      | Inr inps \<Rightarrow>
          if inps = [] then (l, Inr orphans)
          else case append_all E inps l of (l', Inl e) \<Rightarrow> (l', Inl e) | (l', Inr _) \<Rightarrow> (l', Inr orphans))"

definition dispatch_failed_input :: "'j value_ops \<Rightarrow> string \<Rightarrow> string \<Rightarrow> string \<Rightarrow> 'j event_input" where
  "dispatch_failed_input J rg anchor reason =
     \<lparr>in_kind = DispatchFailed, in_rig = Some rg, in_actor = ''campd'', in_bead = Some anchor,
      in_data = jv_object J [(''reason'', jv_string J reason)]\<rparr>"

definition close_drain ::
    "'j graph_env \<Rightarrow> RunContext \<Rightarrow> BeadRow \<Rightarrow> string \<Rightarrow> string option \<Rightarrow> string \<Rightarrow> 'j event_input list \<Rightarrow> ledger \<Rightarrow>
     ledger_result" where
  "close_drain E ctx anchor oc disposition reason extra l =
     append_all E (extra @ [close_anchor_input (ge_ops E) (cx_rig ctx) (row_id anchor) oc disposition None reason]) l"

definition drain_failure ::
    "'j graph_env \<Rightarrow> PendingDrain \<Rightarrow> RunContext \<Rightarrow> string \<Rightarrow> ledger \<Rightarrow> ledger_result" where
  "drain_failure E drain ctx reason l =
     (case get_bead (ge_serde E) (tables l) (kd_anchor drain) of
        Inl e \<Rightarrow> (l, Inl e)
      | Inr None \<Rightarrow> (l, Inr ())
      | Inr (Some anchor) \<Rightarrow>
          (case release_inputs E l (kd_anchor drain) of
             Inl e \<Rightarrow> (l, Inl e)
           | Inr inps \<Rightarrow>
               close_drain E ctx anchor ''fail'' (Some ''hard_fail'') (''drain: '' @ reason)
                 (inps @ [dispatch_failed_input (ge_ops E) (cx_rig ctx) (kd_anchor drain) (''drain: '' @ reason)]) l))"

section \<open>Gathering\<close>

definition gather_drain ::
    "'j graph_env \<Rightarrow> PendingDrain \<Rightarrow> RunContext \<Rightarrow> BeadRow \<Rightarrow> BeadRow list \<Rightarrow> ledger \<Rightarrow> ledger_result" where
  "gather_drain E drain ctx anchor children l =
     (if list_ex (\<lambda>c. row_status c \<noteq> Closed) children then (l, Inr ())
      else
        let bad = length (filter (\<lambda>c. row_outcome c \<noteq> Some ''pass'') children);
            (oc, disposition, reason) =
              (if bad = 0 then (''pass'', None, ''drain gathered: '' @ show_nat (length children) @ '' item(s) passed'')
               else (''fail'', Some ''hard_fail'',
                 ''drain gathered: '' @ show_nat bad @ '' of '' @ show_nat (length children) @ '' item(s) failed''))
        in case release_inputs E l (kd_anchor drain) of
             Inl e \<Rightarrow> (l, Inl e)
           | Inr extra \<Rightarrow> close_drain E ctx anchor oc disposition reason extra l)"

section \<open>Scattering\<close>

definition reserve_input :: "'j graph_env \<Rightarrow> string \<Rightarrow> BeadRow \<Rightarrow> 'j event_input" where
  "reserve_input E anchor m =
     \<lparr>in_kind = BeadUpdated, in_rig = Some (row_rig m), in_actor = ''campd'', in_bead = Some (row_id m),
      in_data = jv_object (ge_ops E)
        [(''metadata'', jv_object (ge_ops E) [(EXCLUSIVE_DRAIN_RESERVATION, jv_string (ge_ops E) anchor)])]\<rparr>"

definition item_metadata :: "PendingDrain \<Rightarrow> Drain \<Rightarrow> BeadRow \<Rightarrow> nat \<Rightarrow> nat \<Rightarrow> (string \<times> string) list" where
  "item_metadata drain spec member index n =
     btree_extend []
       [(drain_CONTROL_ID, kd_anchor drain), (drain_MEMBER_ID, row_id member), (drain_INDEX, show_nat index),
        (drain_COUNT, show_nat n), (MEMBER_ACCESS, access_as_str (dn_member_access spec))]"

definition item_options ::
    "CampConfig \<Rightarrow> PendingDrain \<Rightarrow> Drain \<Rightarrow> BeadRow \<Rightarrow> nat \<Rightarrow> nat \<Rightarrow> CookOptions" where
  "item_options cfg drain spec member index n =
     default_options\<lparr>co_extra_root_labels := [drain_label (kd_anchor drain) index],
       co_root_metadata := item_metadata drain spec member index n, co_config := Some cfg\<rparr>"

text \<open>One round of the loop over the members; it ends the loop with \<open>Inr\<close>, on a failure or an error.\<close>

definition scatter_item ::
    "('r, 'v) world \<Rightarrow> (string \<Rightarrow> string + int) \<Rightarrow> 'j graph_env \<Rightarrow> (nat \<Rightarrow> 'j cook_env) \<Rightarrow> (message \<Rightarrow> string) \<Rightarrow> nat \<Rightarrow>
     CampConfig \<Rightarrow> string \<Rightarrow> FormulaLayers \<Rightarrow> PendingDrain \<Rightarrow> RunContext \<Rightarrow> Drain \<Rightarrow> RigConfig \<Rightarrow> nat \<Rightarrow> nat \<Rightarrow> BeadRow \<Rightarrow>
     ledger \<times> run_disk \<Rightarrow> ((ledger \<times> run_disk) + (ledger \<times> run_disk) \<times> unit res) option" where
  "scatter_item W jiff E Es fmt fuel cfg camp_root layers drain ctx spec rg n index member st =
     map_option (\<lambda>r.
       let fail = (\<lambda>msg st. case drain_failure E drain ctx (fmt msg) (fst st) of (l', x) \<Rightarrow> Inr ((l', snd st), x)) in
       case r of
         Inl e \<Rightarrow> fail (prefixed ''item formula {:?} is unusable: '' [dn_formula spec] (formula_error_text e)) st
       | Inr c \<Rightarrow>
           (case cp_not_runnable c of
              Some why \<Rightarrow> fail (prefixed ''item formula {:?} cannot be run: '' [dn_formula spec] (re_reason why)) st
            | None \<Rightarrow>
                (case cook_with W jiff (ge_serde E) (ge_ops E) (Es index) (cp_formula c) (path_join camp_root ''runs'') rg
                        ''campd'' (item_options cfg drain spec member index n) st of
                   (st', Inr _) \<Rightarrow> Inl st'
                 | (st', Inl e) \<Rightarrow>
                     fail (prefixed ''cooking item {index} for member {} failed: '' [show_nat index, row_id member] (display e)) st')))
       (compile_named W layers fuel (dn_formula spec) [(MEMBER_VAR, row_id member)])"

fun scatter ::
    "(nat \<Rightarrow> BeadRow \<Rightarrow> ledger \<times> run_disk \<Rightarrow> ((ledger \<times> run_disk) + (ledger \<times> run_disk) \<times> unit res) option) \<Rightarrow>
     nat \<Rightarrow> BeadRow list \<Rightarrow> ledger \<times> run_disk \<Rightarrow> ((ledger \<times> run_disk) \<times> unit res) option" where
  "scatter item k [] st = Some (st, Inr ())"
| "scatter item k (m # ms) st =
     (case item k m st of
        None \<Rightarrow> None
      | Some (Inr ended) \<Rightarrow> Some ended
      | Some (Inl st') \<Rightarrow> scatter item (Suc k) ms st')"

definition scatter_members ::
    "('r, 'v) world \<Rightarrow> (string \<Rightarrow> string + int) \<Rightarrow> 'j graph_env \<Rightarrow> (nat \<Rightarrow> 'j cook_env) \<Rightarrow> (message \<Rightarrow> string) \<Rightarrow> nat \<Rightarrow>
     GraphRuntime \<Rightarrow> PendingDrain \<Rightarrow> RunContext \<Rightarrow> Drain \<Rightarrow> BeadRow list \<Rightarrow> ledger \<times> run_disk \<Rightarrow>
     ((ledger \<times> run_disk) \<times> unit res) option" where
  "scatter_members W jiff E Es fmt fuel g drain ctx spec members st =
     (case gr_rigs g (cx_rig ctx) of
        None \<Rightarrow> (case drain_failure E drain ctx ''rig is not configured'' (fst st) of (l', x) \<Rightarrow> Some ((l', snd st), x))
      | Some rg \<Rightarrow>
          (case from_config (wd_disk W) (gr_config g) (gr_camp_root g) of
             Inl e \<Rightarrow> Some (st, Inl e)
           | Inr layers \<Rightarrow>
               scatter (scatter_item W jiff E Es fmt fuel (gr_config g) (gr_camp_root g) layers drain ctx spec rg
                 (length members)) 0 members st))"

definition drain_hangs :: "PendingDrain \<Rightarrow> string \<Rightarrow> string list \<Rightarrow> core_error" where
  "drain_hangs drain what args = Corrupt (Msg (what @ '' would hang in_progress forever'') (kd_anchor drain # args))"

text \<open>The members are reserved in one batch before anything is cooked.\<close>

definition reserve_and_scatter ::
    "('r, 'v) world \<Rightarrow> (string \<Rightarrow> string + int) \<Rightarrow> 'j graph_env \<Rightarrow> (nat \<Rightarrow> 'j cook_env) \<Rightarrow> (message \<Rightarrow> string) \<Rightarrow> nat \<Rightarrow>
     GraphRuntime \<Rightarrow> PendingDrain \<Rightarrow> RunContext \<Rightarrow> Drain \<Rightarrow> BeadRow \<Rightarrow> BeadRow list \<Rightarrow> ledger \<times> run_disk \<Rightarrow>
     ((ledger \<times> run_disk) \<times> unit res) option" where
  "reserve_and_scatter W jiff E Es fmt fuel g drain ctx spec anchor_row members st =
     (if dn_member_access spec = Exclusive
      then case append_all E (map (reserve_input E (kd_anchor drain)) members) (fst st) of
          (l1, Inl e) \<Rightarrow>
            let reason = fmt (prefixed ''drain reservation conflict: '' [] (display e)) in
            (case close_drain E ctx anchor_row ''fail'' (Some ''hard_fail'') reason
                [dispatch_failed_input (ge_ops E) (cx_rig ctx) (kd_anchor drain) reason] l1 of
               (l2, x) \<Rightarrow> Some ((l2, snd st), x))
        | (l1, Inr _) \<Rightarrow> scatter_members W jiff E Es fmt fuel g drain ctx spec members (l1, snd st)
      else scatter_members W jiff E Es fmt fuel g drain ctx spec members st)"

definition scatter_drain ::
    "('r, 'v) world \<Rightarrow> (string \<Rightarrow> string + int) \<Rightarrow> 'j graph_env \<Rightarrow> (nat \<Rightarrow> 'j cook_env) \<Rightarrow> (message \<Rightarrow> string) \<Rightarrow> nat \<Rightarrow>
     GraphRuntime \<Rightarrow> PendingDrain \<Rightarrow> RunContext \<Rightarrow> Drain \<Rightarrow> BeadRow \<Rightarrow> ledger \<times> run_disk \<Rightarrow>
     ((ledger \<times> run_disk) \<times> unit res) option" where
  "scatter_drain W jiff E Es fmt fuel g drain ctx spec anchor_row st =
     (let close = (\<lambda>oc disposition reason. case close_drain E ctx anchor_row oc disposition reason [] (fst st) of
            (l', x) \<Rightarrow> Some ((l', snd st), x)) in
      case run_members (ge_serde E) (fst st) ctx of
        Inl e \<Rightarrow> Some (st, Inl e)
      | Inr members \<Rightarrow>
          if DRAIN_MAX_UNITS < length members
          then close ''fail'' (Some ''hard_fail'')
                 (''limit_exceeded: '' @ show_nat (length members) @ '' members exceeds the drain cap of '' @
                  show_nat DRAIN_MAX_UNITS)
          else if members = [] then close ''pass'' None ''drain gathered: 0 members''
          else reserve_and_scatter W jiff E Es fmt fuel g drain ctx spec anchor_row members st)"

definition execute_drain ::
    "('r, 'v) world \<Rightarrow> (string \<Rightarrow> string + int) \<Rightarrow> 'j graph_env \<Rightarrow> (nat \<Rightarrow> 'j cook_env) \<Rightarrow> (message \<Rightarrow> string) \<Rightarrow> nat \<Rightarrow>
     PendingDrain \<Rightarrow> GraphRuntime \<Rightarrow> ledger \<times> run_disk \<Rightarrow> ((GraphRuntime \<times> ledger \<times> run_disk) \<times> unit res) option" where
  "execute_drain W jiff E Es fmt fuel drain g st =
     (case ctx_of E (kd_run_id drain) g of
        (None, g1) \<Rightarrow> Some ((g1, st), Inr ())
      | (Some ctx, g1) \<Rightarrow>
     (case step_ref ctx (kd_step_id drain) of
        None \<Rightarrow> Some ((g1, st), Inl (drain_hangs drain
          ''drain {}: step {:?} is not in the pinned recipe - the anchor'' [kd_step_id drain]))
      | Some sr \<Rightarrow>
     (case st_drain (sr_step sr) of
        None \<Rightarrow> Some ((g1, st), Inl (drain_hangs drain
          ''drain {}: step {:?} carries no drain in the pinned recipe - the anchor'' [kd_step_id drain]))
      | Some spec \<Rightarrow>
     (case get_bead (ge_serde E) (tables (fst st)) (kd_anchor drain) of
        Inl e \<Rightarrow> Some ((g1, st), Inl e)
      | Inr None \<Rightarrow> Some ((g1, st), Inl (drain_hangs drain ''drain anchor {} does not exist - it'' []))
      | Inr (Some anchor_row) \<Rightarrow>
          if row_status anchor_row = Closed then Some ((g1, st), Inr ())
          else case child_entries ''drain:'' (ge_serde E) (tables (fst st)) (kd_anchor drain) of
            Inl e \<Rightarrow> Some ((g1, st), Inl e)
          | Inr children \<Rightarrow>
              if children \<noteq> []
              then case gather_drain E drain ctx anchor_row (map snd children) (fst st) of
                     (l', x) \<Rightarrow> Some ((g1, l', snd st), x)
              else map_option (\<lambda>(st', x). ((g1, st'), x))
                     (scatter_drain W jiff E Es fmt fuel g1 drain ctx spec anchor_row st)))))"

end
