(* ===== verification/Execute.thy ===== *)
theory Execute
  imports Drains
begin

text \<open>
  The settle loop's executor of the graph runtime (\<^verbatim>\<open>crates/camp/src/daemon/dispatch.rs\<close>): the fan-out
  of an \<open>on_complete\<close> step, the three queues with the requeue after an error, and the reconciliation
  that re-derives at startup what a crash lost.
\<close>

section \<open>Fan-out\<close>

definition fanout_failure :: "'j graph_env \<Rightarrow> PendingFanout \<Rightarrow> RunContext \<Rightarrow> string \<Rightarrow> ledger \<Rightarrow> ledger_result" where
  "fanout_failure E fanout ctx reason l =
     (case append_event (ge_serde E) (ge_clock E (last_seq l))
        (dispatch_failed_input (ge_ops E) (cx_rig ctx) (kf_anchor fanout) (''on_complete fan-out: '' @ reason)) l of
        (l', Inl e) \<Rightarrow> (l', Inl e) | (l', Inr _) \<Rightarrow> (l', Inr ()))"

text \<open>The items to cook now: all that are missing, or the next one of a chain that has passed so far.\<close>

definition fanout_due :: "bool \<Rightarrow> nat \<Rightarrow> (nat \<times> BeadRow) list \<Rightarrow> nat list" where
  "fanout_due par n children =
     (if par then filter (\<lambda>i. map_of children i = None) [0..<n]
      else
        let k = length children;
            all_passed = list_all (\<lambda>(_, row). row_status row = Closed \<and> row_outcome row = Some ''pass'') children
        in if all_passed \<and> k < n \<and> map_of children k = None then [k] else [])"

definition fanout_options ::
    "PendingFanout \<Rightarrow> OnComplete \<Rightarrow> (nat \<times> BeadRow) list \<Rightarrow> nat \<Rightarrow> (string \<times> string) list \<Rightarrow> CookOptions" where
  "fanout_options fanout oc children index vars =
     default_options\<lparr>co_vars := vars,
       co_extra_root_needs :=
         (if \<not> oc_parallel oc \<and> 0 < index
          then case map_of children (index - 1) of Some prev \<Rightarrow> [row_id prev] | None \<Rightarrow> []
          else []),
       co_extra_root_labels := [bond_label (kf_anchor fanout) index]\<rparr>"

fun cook_items ::
    "('r, 'v) world \<Rightarrow> (string \<Rightarrow> string + int) \<Rightarrow> 'j graph_env \<Rightarrow> (nat \<Rightarrow> 'j cook_env) \<Rightarrow> (message \<Rightarrow> string) \<Rightarrow>
     string \<Rightarrow> PendingFanout \<Rightarrow> RunContext \<Rightarrow> OnComplete \<Rightarrow> Formula \<Rightarrow> RigConfig \<Rightarrow> 'j list \<Rightarrow> (nat \<times> BeadRow) list \<Rightarrow>
     nat list \<Rightarrow> ledger \<times> run_disk \<Rightarrow> (ledger \<times> run_disk) \<times> unit res" where
  "cook_items W jiff E Es fmt camp_root fanout ctx oc bond rg items children [] st = (st, Inr ())"
| "cook_items W jiff E Es fmt camp_root fanout ctx oc bond rg items children (index # due) st =
     (let fail = (\<lambda>msg st. case fanout_failure E fanout ctx (fmt msg) (fst st) of (l', x) \<Rightarrow> ((l', snd st), x)) in
      case substitute_vars (ge_ops E) (oc_vars oc) (items ! index) index of
        Inl reason \<Rightarrow> fail reason st
      | Inr vars \<Rightarrow>
          (case cook_with W jiff (ge_serde E) (ge_ops E) (Es index) bond (path_join camp_root ''runs'') rg ''campd''
                  (fanout_options fanout oc children index vars) st of
             (st', Inl e) \<Rightarrow>
               fail (prefixed ''cooking bond {:?} item {index} failed: '' [oc_bond oc, show_nat index] (display e)) st'
           | (st', Inr _) \<Rightarrow>
               cook_items W jiff E Es fmt camp_root fanout ctx oc bond rg items children due st'))"

definition cook_fanout ::
    "('r, 'v) world \<Rightarrow> (string \<Rightarrow> string + int) \<Rightarrow> 'j graph_env \<Rightarrow> (nat \<Rightarrow> 'j cook_env) \<Rightarrow> (message \<Rightarrow> string) \<Rightarrow>
     PendingFanout \<Rightarrow> RunContext \<Rightarrow> OnComplete \<Rightarrow> 'j list \<Rightarrow> GraphRuntime \<Rightarrow> ledger \<times> run_disk \<Rightarrow>
     (ledger \<times> run_disk) \<times> unit res" where
  "cook_fanout W jiff E Es fmt fanout ctx oc items g st =
     (let fail = (\<lambda>msg. case fanout_failure E fanout ctx (fmt msg) (fst st) of (l', x) \<Rightarrow> ((l', snd st), x)) in
      case child_entries ''bond:'' (ge_serde E) (tables (fst st)) (kf_anchor fanout) of
        Inl e \<Rightarrow> (st, Inl e)
      | Inr children \<Rightarrow>
          let due = fanout_due (oc_parallel oc) (length items) children in
          if due = [] then (st, Inr ())
          else case gr_rigs g (cx_rig ctx) of
            None \<Rightarrow> fail (Msg ''rig {:?} is not configured'' [cx_rig ctx])
          | Some rg \<Rightarrow>
              let bond_path = path_join (path_join (gr_camp_root g) ''formulas'') (oc_bond oc @ ''.toml'') in
              (case parse_and_validate (wd_toml W) (wd_semver W) (read_text W) path_file_name bond_path of
                 Inl e \<Rightarrow> fail (prefixed ''bond formula {:?} is unusable: '' [oc_bond oc] (formula_error_text e))
               | Inr bond \<Rightarrow>
                   cook_items W jiff E Es fmt (gr_camp_root g) fanout ctx oc bond rg items children due st))"

definition execute_fanout ::
    "('r, 'v) world \<Rightarrow> (string \<Rightarrow> string + int) \<Rightarrow> 'j graph_env \<Rightarrow> (nat \<Rightarrow> 'j cook_env) \<Rightarrow> (message \<Rightarrow> string) \<Rightarrow>
     PendingFanout \<Rightarrow> GraphRuntime \<Rightarrow> ledger \<times> run_disk \<Rightarrow> (GraphRuntime \<times> ledger \<times> run_disk) \<times> unit res" where
  "execute_fanout W jiff E Es fmt fanout g st =
     (case ctx_of E (kf_run_id fanout) g of
        (None, g1) \<Rightarrow> ((g1, st), Inr ())
      | (Some ctx, g1) \<Rightarrow>
     (case Option.bind (step_ref ctx (kf_step_id fanout)) (\<lambda>sr. st_on_complete (sr_step sr)) of
        None \<Rightarrow> ((g1, st), Inr ())
      | Some oc \<Rightarrow>
     (case close_event_data (ge_serde E) (fst st) (kf_anchor fanout) of
        Inl e \<Rightarrow> ((g1, st), Inl e)
      | Inr None \<Rightarrow> ((g1, st), Inr ())
      | Inr (Some d) \<Rightarrow>
          if data_str (ge_ops E) (Some d) ''outcome'' \<noteq> Some ''pass'' then ((g1, st), Inr ())
          else case resolve_for_each (ge_ops E) d (oc_for_each oc) of
            Inl reason \<Rightarrow>
              (case fanout_failure E fanout ctx (fmt reason) (fst st) of (l', x) \<Rightarrow> ((g1, l', snd st), x))
          | Inr items \<Rightarrow>
              (case cook_fanout W jiff E Es fmt fanout ctx oc items g1 st of (st', x) \<Rightarrow> ((g1, st'), x)))))"

section \<open>The queues\<close>

text \<open>What a queue is taken for: each entry runs; after an error it and those behind it are queued again.\<close>

fun run_queue ::
    "('q \<Rightarrow> 's \<Rightarrow> ('s \<times> unit res) option) \<Rightarrow> ('q \<Rightarrow> 's \<Rightarrow> 's) \<Rightarrow> 'q list \<Rightarrow> 's \<Rightarrow> ('s \<times> unit res) option" where
  "run_queue exec requeue [] s = Some (s, Inr ())"
| "run_queue exec requeue (q # qs) s =
     (case exec q s of
        None \<Rightarrow> None
      | Some (s', Inr _) \<Rightarrow> run_queue exec requeue qs s'
      | Some (s', Inl e) \<Rightarrow> Some (fold requeue (q # qs) s', Inl e))"

type_synonym graph_world = "GraphRuntime \<times> ledger \<times> run_disk"

definition graph_of :: "(GraphRuntime \<Rightarrow> GraphRuntime) \<Rightarrow> graph_world \<Rightarrow> graph_world" where
  "graph_of f s = (case s of (g, st) \<Rightarrow> (f g, st))"

text \<open>The files of the runs are those on the disk at the call.\<close>

definition with_disk :: "'j graph_env \<Rightarrow> run_disk \<Rightarrow> 'j graph_env" where
  "with_disk E fs = E\<lparr>ge_read := read_run fs\<rparr>"

definition run_check ::
    "'j graph_env \<Rightarrow> (message \<Rightarrow> string) \<Rightarrow> check_os \<Rightarrow> PendingCheck \<Rightarrow> graph_world \<Rightarrow> (graph_world \<times> unit res) option" where
  "run_check E fmt os c s =
     (case s of (g, l, fs) \<Rightarrow>
      if list_ex (\<lambda>(_, k). cc_run_id k = kc_run_id c \<and> cc_step_id k = kc_step_id c \<and> cc_attempt_no k = kc_attempt_no c)
           (gr_check_children g)
      then Some (s, Inr ())
      else case spawn_check (with_disk E fs) fmt os c g l of ((g', l'), x) \<Rightarrow> Some ((g', l', fs), x))"

text \<open>The checks, then the fan-outs, then the drains; an error of one queue leaves the later ones as they are.\<close>

definition execute ::
    "('r, 'v) world \<Rightarrow> (string \<Rightarrow> string + int) \<Rightarrow> 'j graph_env \<Rightarrow> check_os \<Rightarrow> (string \<Rightarrow> nat \<Rightarrow> 'j cook_env) \<Rightarrow>
     (message \<Rightarrow> string) \<Rightarrow> nat \<Rightarrow> graph_world \<Rightarrow> (graph_world \<times> unit res) option" where
  "execute W jiff E os Es fmt fuel s =
     (let taken = gr_pending_checks (fst s) in
      case run_queue (run_check E fmt os) (\<lambda>c. graph_of (\<lambda>g. g\<lparr>gr_pending_checks := gr_pending_checks g @ [c]\<rparr>)) taken
             (graph_of (\<lambda>g. g\<lparr>gr_pending_checks := []\<rparr>) s) of
        None \<Rightarrow> None
      | Some (s1, Inl e) \<Rightarrow> Some (s1, Inl e)
      | Some (s1, Inr _) \<Rightarrow>
     (let taken = gr_pending_fanouts (fst s1) in
      case run_queue (\<lambda>f (g, st). Some (execute_fanout W jiff (with_disk E (snd st)) (Es (kf_anchor f)) fmt f g st))
             (\<lambda>f. graph_of (\<lambda>g. g\<lparr>gr_pending_fanouts := gr_pending_fanouts g @ [f]\<rparr>)) taken
             (graph_of (\<lambda>g. g\<lparr>gr_pending_fanouts := []\<rparr>) s1) of
        None \<Rightarrow> None
      | Some (s2, Inl e) \<Rightarrow> Some (s2, Inl e)
      | Some (s2, Inr _) \<Rightarrow>
          (let taken = gr_pending_drains (fst s2) in
           run_queue (\<lambda>d (g, st). execute_drain W jiff (with_disk E (snd st)) (Es (kd_anchor d)) fmt fuel d g st)
             (\<lambda>d. graph_of (\<lambda>g. g\<lparr>gr_pending_drains := gr_pending_drains g @ [d]\<rparr>)) taken
             (graph_of (\<lambda>g. g\<lparr>gr_pending_drains := []\<rparr>) s2))))"

section \<open>Reconciliation\<close>

definition respawn_missing ::
    "'j graph_env \<Rightarrow> RunMembership \<Rightarrow> Step \<Rightarrow> BeadRow \<Rightarrow> BeadRow list \<Rightarrow> BeadRow \<Rightarrow> GraphRuntime \<Rightarrow> ledger \<Rightarrow> graph_result" where
  "respawn_missing E m step anchor_row rows latest g l =
     (case st_retry step of
        Some retry_spec \<Rightarrow>
          if row_status latest = Closed \<and> row_outcome latest = Some ''fail''
          then reading g (transient_fails_used (ge_serde E) (ge_ops E) l rows) (\<lambda>used.
               reading g (close_event_data (ge_serde E) l (row_id latest)) (\<lambda>d.
               if data_str (ge_ops E) d ''failure_class'' = Some ''transient'' \<and> used < rt_max_attempts retry_spec
               then reading g (prefix_of (row_id anchor_row)) (\<lambda>p.
                    reading g (next_bead_id (tables l) p) (\<lambda>i.
                    reading g (created_event_data (ge_serde E) l (row_id anchor_row)) (\<lambda>base.
                    case append_event (ge_serde E) (ge_clock E (last_seq l))
                        (attempt_bead_input (ge_ops E) i (row_rig anchor_row) (rm_run_id m) step (row_title anchor_row)
                          (str_or_empty (ge_ops E) base ''description'') (length rows + 1)
                          (Some ''previous attempt failed transient (reconciled after restart)'')) l of
                      (_, Inl e) \<Rightarrow> Some (g, Inl e)
                    | (l', Inr _) \<Rightarrow> finished g l')))
               else finished g l))
          else finished g l
      | None \<Rightarrow> finished g l)"

definition reconcile_attempts ::
    "'j graph_env \<Rightarrow> RunMembership \<Rightarrow> string \<Rightarrow> Step \<Rightarrow> BeadRow \<Rightarrow> GraphRuntime \<Rightarrow> ledger \<Rightarrow> graph_result" where
  "reconcile_attempts E m step_id step anchor_row g l =
     reading g (attempts (ge_serde E) l (rm_run_id m) step_id (row_id anchor_row)) (\<lambda>rows.
       if rows = [] then finished g l
       else
         let latest = last rows;
             g1 = (if st_check step \<noteq> None \<and> row_status latest = Closed \<and> row_outcome latest = Some ''pass''
                   then queue_check \<lparr>kc_run_id = rm_run_id m, kc_step_id = step_id, kc_anchor = row_id anchor_row,
                          kc_attempt_bead = row_id latest, kc_attempt_no = check_runs_used rows\<rparr> g
                   else g)
         in respawn_missing E m step anchor_row rows latest g1 l)"

definition reconcile_anchor :: "'j graph_env \<Rightarrow> BeadRow \<Rightarrow> GraphRuntime \<Rightarrow> ledger \<Rightarrow> graph_result" where
  "reconcile_anchor E anchor_row g l =
     (if row_status anchor_row \<noteq> InProgress then finished g l
      else case run_membership (tables l) (row_id anchor_row) of
        None \<Rightarrow> finished g l
      | Some m \<Rightarrow>
     (case rm_step_id m of
        None \<Rightarrow> finished g l
      | Some step_id \<Rightarrow>
     (case ctx_of E (rm_run_id m) g of
        (None, g1) \<Rightarrow> finished g1 l
      | (Some ctx, g1) \<Rightarrow>
     (case step_ref ctx step_id of
        None \<Rightarrow> finished g1 l
      | Some sr \<Rightarrow>
          if sr_anchor sr \<noteq> row_id anchor_row then finished g1 l
          else if st_drain (sr_step sr) \<noteq> None
          then finished (queue_drain \<lparr>kd_run_id = rm_run_id m, kd_step_id = step_id, kd_anchor = row_id anchor_row\<rparr> g1) l
          else reconcile_attempts E m step_id (sr_step sr) anchor_row g1 l))))"

fun each :: "('x \<Rightarrow> GraphRuntime \<Rightarrow> ledger \<Rightarrow> graph_result) \<Rightarrow> 'x list \<Rightarrow> GraphRuntime \<Rightarrow> ledger \<Rightarrow> graph_result" where
  "each f [] g l = finished g l"
| "each f (x # xs) g l = and_then (f x g l) (each f xs)"

definition reconcile_fanout :: "'j graph_env \<Rightarrow> RunContext \<Rightarrow> string \<Rightarrow> Step \<Rightarrow> GraphRuntime \<Rightarrow> ledger \<Rightarrow> graph_result" where
  "reconcile_fanout E ctx run_id step g l =
     (if st_on_complete step = None then finished g l
      else case map_of (cx_anchors ctx) (st_id step) of
        None \<Rightarrow> None
      | Some anchor \<Rightarrow>
          reading g (get_bead (ge_serde E) (tables l) anchor) (\<lambda>found.
          case found of
            None \<Rightarrow> finished g l
          | Some row \<Rightarrow>
              finished
                (if row_status row = Closed \<and> row_outcome row = Some ''pass''
                 then queue_fanout \<lparr>kf_run_id = run_id, kf_step_id = st_id step, kf_anchor = anchor\<rparr> g else g) l))"

definition reconcile_run :: "'j graph_env \<Rightarrow> 'j event \<Rightarrow> GraphRuntime \<Rightarrow> ledger \<Rightarrow> graph_result" where
  "reconcile_run E ev g l =
     (case data_str (ge_ops E) (Some (ev_data ev)) ''run_id'' of
        None \<Rightarrow> finished g l
      | Some run_id \<Rightarrow>
     (case ctx_of E run_id g of
        (None, g1) \<Rightarrow>
          reading g1 (dead_end_inputs (ge_serde E) (ge_ops E) (tables l) run_id (ev_seq ev)
              ''run dir unreadable; the run cannot advance'') (\<lambda>inps.
            if inps = [] then finished g1 l
            else case append_all E inps l of (_, Inl e) \<Rightarrow> Some (g1, Inl e) | (l', Inr _) \<Rightarrow> finished g1 l')
      | (Some ctx, g1) \<Rightarrow> each (reconcile_fanout E ctx run_id) (fm_steps (cx_formula ctx)) g1 l))"

text \<open>
  An error ends the daemon's start; what was appended before it stays in the file, which \<open>graph_result\<close>
  does not show.
\<close>

definition reconcile :: "'j graph_env \<Rightarrow> GraphRuntime \<Rightarrow> ledger \<Rightarrow> graph_result" where
  "reconcile E g l =
     reading g (list_beads (ge_serde E) (tables l) None (Some ''campd'')) (\<lambda>held.
     and_then (each (reconcile_anchor E) held g l) (\<lambda>g1 l1.
     reading g1 (events_of_type (ge_serde E) RunCooked l1) (\<lambda>evs.
     and_then (each (reconcile_run E) evs g1 l1) (\<lambda>g2 l2.
       case release_orphaned_reservations E l2 of
         (_, Inl e) \<Rightarrow> Some (g2, Inl e) | (l3, Inr _) \<Rightarrow> finished g2 l3))))"

end
