(* ===== verification/OrdersRuntime.thy ===== *)
theory OrdersRuntime
  imports CronHeap Execute Consumers
begin

text \<open>
  The order machinery of campd (\<^verbatim>\<open>crates/camp/src/daemon/orders.rs\<close>) and its consumption of the log
  (\<^verbatim>\<open>daemon/cursor.rs\<close>): the compiled orders with their timer heap and hot reload, the declaration of
  cron fires, the processor that campd runs over each event, and the settle loop, which catches up and
  cooks until nothing is left.

  What patrol and the read channel remember of an event is a parameter: \<open>observe\<close> changes a memory of
  their own. Instants are nanoseconds. \<open>None\<close> is a panic or a loop that does not return.
\<close>

section \<open>The runtime\<close>

record 'd OrdersRuntime =
  om_camp_root :: string
  om_raw :: string
  om_config :: CampConfig
  om_orders :: "OrderConfig.Order list"
  om_heap :: "'d CronHeap"
  om_pending_cooks :: "PendingCook list"
  om_fires :: "string \<rightharpoonup> nat"
  om_watch_error :: "string option"

text \<open>The same Rust struct, as the theory of the heap has it.\<close>

definition heap_order :: "OrderConfig.Order \<Rightarrow> CronHeap.Order" where
  "heap_order r =
     \<lparr>o_name = or_name r,
      o_trigger = (case or_trigger r of
         OrderConfig.Trigger.CronTrigger e \<Rightarrow> CronHeap.trigger.CronTrigger e
       | OrderConfig.Trigger.EventTrigger t label \<Rightarrow> CronHeap.trigger.EventTrigger t label),
      o_formula = or_formula r, o_rig = or_rig r, o_catch_up_window = nat (or_catch_up_window r)\<rparr>"

text \<open>The libraries and files that compile a configuration.\<close>

record config_env =
  fe_jiff :: "string \<Rightarrow> string + int"
  fe_has_packs :: "string \<Rightarrow> string + bool"
  fe_decode :: "string \<Rightarrow> string + CampConfig"
  fe_files :: files
  fe_gc_order :: "string \<Rightarrow> string + GcOrderRaw"

definition is_cron :: "OrderConfig.Order \<Rightarrow> bool" where
  "is_cron r = (case or_trigger r of OrderConfig.Trigger.CronTrigger _ \<Rightarrow> True | _ \<Rightarrow> False)"

definition anyhow :: "string \<Rightarrow> core_error \<Rightarrow> message" where
  "anyhow what e = prefixed (what @ '': '') [] (display e)"

definition compile_and_arm ::
    "config_env \<Rightarrow> string \<Rightarrow> string \<Rightarrow> int \<Rightarrow> 'd calendar \<Rightarrow> message + (CampConfig \<times> OrderConfig.Order list \<times> 'd CronHeap)" where
  "compile_and_arm V raw camp_root now tz =
     (case parse_config (fe_jiff V) (fe_has_packs V) (fe_decode V) raw of
        Inl e \<Rightarrow> Inl (anyhow ''parsing camp.toml'' e)
      | Inr cfg0 \<Rightarrow>
          let cfg = cfg0\<lparr>cf_root := Some camp_root\<rparr> in
          (case compile_all_orders (fe_jiff V) (fe_files V) (fe_gc_order V) cfg of
             Inl e \<Rightarrow> Inl (anyhow ''compiling orders'' e)
           | Inr inventory \<Rightarrow>
               (case foldM (\<lambda>h r. if is_cron r then arm (heap_order r) now h else Inr h) (heap_new tz) (oi_active inventory) of
                  Inl e \<Rightarrow> Inl (display e)
                | Inr heap \<Rightarrow> Inr (cfg, oi_active inventory, heap))))"

definition build_orders :: "config_env \<Rightarrow> string \<Rightarrow> int \<Rightarrow> 'd calendar \<Rightarrow> message + 'd OrdersRuntime" where
  "build_orders V camp_root now tz =
     (let path = path_join camp_root ''camp.toml'' in
      case fl_read (fe_files V) path of
        Inl e \<Rightarrow> Inl (Msg ''reading {}: {e}'' [path, e])
      | Inr raw \<Rightarrow>
          rbind (compile_and_arm V raw camp_root now tz) (\<lambda>(cfg, orders, heap).
            Inr \<lparr>om_camp_root = camp_root, om_raw = raw, om_config = cfg, om_orders = orders, om_heap = heap,
                 om_pending_cooks = [], om_fires = Map.empty, om_watch_error = None\<rparr>))"

definition orders_poll_timeout :: "int \<Rightarrow> 'd OrdersRuntime \<Rightarrow> int option" where
  "orders_poll_timeout now rt =
     map_option (\<lambda>deadline. if deadline - now \<le> 0 then 0 else deadline - now + 1000000) (next_deadline (om_heap rt))"

definition order_named :: "string \<Rightarrow> 'd OrdersRuntime \<Rightarrow> OrderConfig.Order option" where
  "order_named name rt = find (\<lambda>r. or_name r = name) (om_orders rt)"

definition orders_fire_due :: "int \<Rightarrow> 'd OrdersRuntime \<Rightarrow> ('d OrdersRuntime \<times> Fire list) option" where
  "orders_fire_due now rt = map_option (\<lambda>(h, fires). (rt\<lparr>om_heap := h\<rparr>, fires)) (fire_due now (om_heap rt))"

definition orders_recompute :: "int \<Rightarrow> int \<Rightarrow> 'd OrdersRuntime \<Rightarrow> 'd OrdersRuntime \<times> CatchUp list" where
  "orders_recompute now last_seen rt =
     (case recompute now last_seen (om_heap rt) of (h, cs) \<Rightarrow> (rt\<lparr>om_heap := h\<rparr>, cs))"

definition reset_fire_budget :: "'d OrdersRuntime \<Rightarrow> 'd OrdersRuntime" where
  "reset_fire_budget rt = rt\<lparr>om_fires := Map.empty\<rparr>"

definition queue_cook :: "PendingCook \<Rightarrow> 'd OrdersRuntime \<Rightarrow> 'd OrdersRuntime" where
  "queue_cook c rt = rt\<lparr>om_pending_cooks := om_pending_cooks rt @ [c]\<rparr>"

definition take_pending_cooks :: "'d OrdersRuntime \<Rightarrow> 'd OrdersRuntime \<times> PendingCook list" where
  "take_pending_cooks rt = (rt\<lparr>om_pending_cooks := []\<rparr>, om_pending_cooks rt)"

section \<open>Reload and watch\<close>

definition config_changed :: "'j \<Rightarrow> 'j event_input" where
  "config_changed data = \<lparr>in_kind = ConfigChanged, in_rig = None, in_actor = ''campd'', in_bead = None, in_data = data\<rparr>"

definition rejected_config :: "'j value_ops \<Rightarrow> string \<Rightarrow> 'j" where
  "rejected_config J error =
     jv_object J [(''path'', jv_string J ''camp.toml''), (''applied'', jv_bool J False), (''error'', jv_string J error)]"

definition take_watch_error_event :: "'j value_ops \<Rightarrow> 'd OrdersRuntime \<Rightarrow> 'd OrdersRuntime \<times> 'j event_input option" where
  "take_watch_error_event J rt =
     (rt\<lparr>om_watch_error := None\<rparr>,
      map_option (\<lambda>msg. config_changed (rejected_config J (''camp.toml watch error (hot reload degraded): '' @ msg)))
        (om_watch_error rt))"

definition reload_if_changed ::
    "config_env \<Rightarrow> 'j value_ops \<Rightarrow> (message \<Rightarrow> string) \<Rightarrow> int \<Rightarrow> 'd OrdersRuntime \<Rightarrow>
     'd OrdersRuntime \<times> (message + 'j event_input option)" where
  "reload_if_changed V J fmt now rt =
     (let path = path_join (om_camp_root rt) ''camp.toml'' in
      case fl_read (fe_files V) path of
        Inl e \<Rightarrow> (rt, Inl (Msg ''reading {}: {e}'' [path, e]))
      | Inr raw \<Rightarrow>
          if raw = om_raw rt then (rt, Inr None)
          else case compile_and_arm V raw (om_camp_root rt) now (h_tz (om_heap rt)) of
            Inr (cfg, orders, heap) \<Rightarrow>
              (rt\<lparr>om_raw := raw, om_config := cfg, om_orders := orders, om_heap := heap\<rparr>,
               Inr (Some (config_changed (jv_object J [(''path'', jv_string J ''camp.toml''), (''applied'', jv_bool J True),
                 (''orders'', jv_int J (int (length orders)))]))))
          | Inl e \<Rightarrow> (rt\<lparr>om_raw := raw\<rparr>, Inr (Some (config_changed (rejected_config J (fmt e))))))"

text \<open>The callback of the watcher: whether the loop is woken. \<open>Inl\<close> is the watcher's error.\<close>

definition on_watch_event :: "string + string list \<Rightarrow> 'd OrdersRuntime \<Rightarrow> 'd OrdersRuntime \<times> bool" where
  "on_watch_event ev rt =
     (case ev of
        Inr paths \<Rightarrow> (rt, list_ex (\<lambda>p. path_file_name p = Some ''camp.toml'') paths)
      | Inl e \<Rightarrow> (rt\<lparr>om_watch_error := Some e\<rparr>, True))"

section \<open>Cron fires\<close>

fun declare_cron_fires ::
    "'j serde \<Rightarrow> 'j value_ops \<Rightarrow> (string \<Rightarrow> string \<Rightarrow> string option) \<Rightarrow> (int \<Rightarrow> string) \<Rightarrow> (int \<Rightarrow> string) \<Rightarrow>
     Fire list \<Rightarrow> bool \<Rightarrow> ledger \<Rightarrow> ledger \<times> bool res" where
  "declare_cron_fires S J js ts_text clock [] declared l = (l, Inr declared)"
| "declare_cron_fires S J js ts_text clock (f # fs) declared l =
     (if cron_fire_declared js ts_text l (fire_order f) (fire_scheduled f)
      then declare_cron_fires S J js ts_text clock fs declared l
      else case append_event S (clock (last_seq l))
             (fired_input J ts_text (fire_order f) (CronCause (fire_scheduled f) (fire_catch_up f))) l of
          (l', Inl e) \<Rightarrow> (l', Inl e)
        | (l', Inr _) \<Rightarrow> declare_cron_fires S J js ts_text clock fs True l')"

definition CAMPD_CURSOR :: string where
  "CAMPD_CURSOR = ''campd''"

definition catch_up_anchor :: "'j serde \<Rightarrow> (string \<Rightarrow> string + int) \<Rightarrow> ledger \<Rightarrow> int \<Rightarrow> int res" where
  "catch_up_anchor S parse_ts l now =
     (let c = cursor CAMPD_CURSOR l in
      if c = 0 then Inr now
      else rbind (events_range S c (Some c) l) (\<lambda>evs.
        case evs of
          [] \<Rightarrow> Inl (Corrupt (Msg ''campd cursor points at missing event seq {cursor}'' [show_int c]))
        | ev # _ \<Rightarrow>
            (case parse_ts (ev_ts ev) of
               Inl e \<Rightarrow> Inl (Corrupt (Msg ''event seq {cursor} has unparseable ts {:?}: {e}'' [show_int c, ev_ts ev, e]))
             | Inr t \<Rightarrow> Inr t)))"

section \<open>The processor\<close>

definition FIRE_BUDGET :: nat where
  "FIRE_BUDGET = 256"

record ('r, 'v, 'j, 'o) campd_env =
  ve_world :: "('r, 'v) world"
  ve_jiff :: "string \<Rightarrow> string + int"
  ve_graph :: "'j graph_env"
  ve_cook :: "int \<Rightarrow> 'j cook_env"
  ve_ji :: "string \<Rightarrow> string \<Rightarrow> int option"
  ve_fmt :: "message \<Rightarrow> string"
  ve_fire_now :: "int \<Rightarrow> nat \<Rightarrow> string"
  ve_ts_text :: "int \<Rightarrow> string"
  ve_fuel :: nat
  ve_observe :: "'j event \<Rightarrow> 'o \<Rightarrow> 'o"

record ('d, 'o) campd =
  cd_ready :: "string list"
  cd_runtime :: "'d OrdersRuntime"
  cd_graph :: GraphRuntime
  cd_observers :: 'o

definition ve_serde :: "('r, 'v, 'j, 'o) campd_env \<Rightarrow> 'j serde" where
  "ve_serde V = ge_serde (ve_graph V)"

definition ve_ops :: "('r, 'v, 'j, 'o) campd_env \<Rightarrow> 'j value_ops" where
  "ve_ops V = ge_ops (ve_graph V)"

definition readiness_process :: "state \<Rightarrow> 'j event \<Rightarrow> string list \<Rightarrow> string list res" where
  "readiness_process st ev pending =
     (if ev_kind ev \<noteq> BeadClosed then Inr pending
      else case ev_bead ev of
        None \<Rightarrow> Inl (InvalidEventData (as_str (ev_kind ev)) (Msg ''bead.closed event without a bead id'' []))
      | Some bead \<Rightarrow> rbind (newly_ready st bead) (\<lambda>bs. Inr (pending @ bs)))"

text \<open>An append of the processor, with the clock read for it.\<close>

definition append_now :: "('r, 'v, 'j, 'o) campd_env \<Rightarrow> 'j event_input \<Rightarrow> ledger \<Rightarrow> ledger res" where
  "append_now V inp l =
     rbind (append_on (ve_serde V) (ge_clock (ve_graph V) (last_seq l)) inp l) (\<lambda>(l', _). Inr l')"

definition budget_exhausted :: "'j value_ops \<Rightarrow> string \<Rightarrow> int \<Rightarrow> 'j event_input" where
  "budget_exhausted J name seq =
     \<lparr>in_kind = OrderFailed, in_rig = None, in_actor = ''campd'', in_bead = None,
      in_data = jv_object J [(''order'', jv_string J name), (''fired_seq'', jv_int J seq),
        (''error'', jv_string J (''event-trigger fire budget ('' @ show_nat FIRE_BUDGET @
           '') exhausted in one settle invocation - likely a self-triggering order (issue #17)''))]\<rparr>"

text \<open>The orders that match; their fires, within the budget, which an error does not give back.\<close>

definition matching_orders :: "'j serde \<Rightarrow> state \<Rightarrow> 'j event \<Rightarrow> OrderConfig.Order list \<Rightarrow> string list res" where
  "matching_orders S st ev orders =
     foldM (\<lambda>fired r. rbind (event_trigger_matches S st r ev) (\<lambda>m. Inr (if m then fired @ [or_name r] else fired)))
       [] orders"

fun fire_matches ::
    "('r, 'v, 'j, 'o) campd_env \<Rightarrow> int \<Rightarrow> string list \<Rightarrow> (string \<rightharpoonup> nat) \<Rightarrow> ledger \<Rightarrow> (string \<rightharpoonup> nat) \<times> ledger res" where
  "fire_matches V seq [] fires l = (fires, Inr l)"
| "fire_matches V seq (name # matches) fires l =
     (let n = (case fires name of None \<Rightarrow> 0 | Some k \<Rightarrow> k) + 1; fires' = fires(name \<mapsto> n) in
      if FIRE_BUDGET < n
      then if n = FIRE_BUDGET + 1
        then case append_now V (budget_exhausted (ve_ops V) name seq) l of
            Inl e \<Rightarrow> (fires', Inl e)
          | Inr l' \<Rightarrow> fire_matches V seq matches fires' l'
        else fire_matches V seq matches fires' l
      else case append_now V (fired_input (ve_ops V) (ve_ts_text V) name (EventCause seq)) l of
          Inl e \<Rightarrow> (fires', Inl e)
        | Inr l' \<Rightarrow> fire_matches V seq matches fires' l')"

definition process_orders ::
    "('r, 'v, 'j, 'o) campd_env \<Rightarrow> 'j event \<Rightarrow> 'd OrdersRuntime \<Rightarrow> ledger \<Rightarrow> 'd OrdersRuntime \<times> ledger res" where
  "process_orders V ev rt l =
     (case pending_cook_from_fired (ve_ops V) ev of
        Inl e \<Rightarrow> (rt, Inl e)
      | Inr found \<Rightarrow>
     (let rt1 = (case found of None \<Rightarrow> rt | Some c \<Rightarrow> queue_cook c rt) in
      case rbind (completion_input (ve_ops V) l ev) (\<lambda>inp. case inp of None \<Rightarrow> Inr l | Some i \<Rightarrow> append_now V i l) of
        Inl e \<Rightarrow> (rt1, Inl e)
      | Inr l1 \<Rightarrow>
     (case matching_orders (ve_serde V) (tables l1) ev (om_orders rt1) of
        Inl e \<Rightarrow> (rt1, Inl e)
      | Inr matches \<Rightarrow>
          (case fire_matches V (ev_seq ev) matches (om_fires rt1) l1 of
             (fires, r) \<Rightarrow> (rt1\<lparr>om_fires := fires\<rparr>, r)))))"

definition process_event ::
    "('r, 'v, 'j, 'o) campd_env \<Rightarrow> run_disk \<Rightarrow> 'j event \<Rightarrow> ('d, 'o) campd \<Rightarrow> ledger \<Rightarrow>
     (('d, 'o) campd \<times> ledger res) option" where
  "process_event V fs ev c l =
     (let c0 = c\<lparr>cd_observers := ve_observe V ev (cd_observers c)\<rparr> in
      case readiness_process (tables l) ev (cd_ready c0) of
        Inl e \<Rightarrow> Some (c0, Inl e)
      | Inr ready \<Rightarrow>
     (case process_orders V ev (cd_runtime c0) l of
        (rt, Inl e) \<Rightarrow> Some (c0\<lparr>cd_ready := ready, cd_runtime := rt\<rparr>, Inl e)
      | (rt, Inr l1) \<Rightarrow>
          map_option (\<lambda>(g, r). (c0\<lparr>cd_ready := ready, cd_runtime := rt, cd_graph := g\<rparr>, r))
            (process_graph ((with_disk (ve_graph V) fs)\<lparr>ge_now := ge_clock (ve_graph V) (last_seq l1)\<rparr>) ev (cd_graph c0) l1)))"

text \<open>As the loop over the log runs it: after a panic there is no campd any more.\<close>

definition campd_processor ::
    "('r, 'v, 'j, 'o) campd_env \<Rightarrow> run_disk \<Rightarrow> ('j, ('d, 'o) campd option) processor" where
  "campd_processor V fs ev p l =
     (case Option.bind p (\<lambda>c. process_event V fs ev c l) of
        None \<Rightarrow> (None, Inl (Corrupt (Msg ''panic'' [])))
      | Some (c, r) \<Rightarrow> (Some c, r))"

partial_function (option) catch_up ::
    "'j serde \<Rightarrow> ('j, 'p) processor \<Rightarrow> 'p \<Rightarrow> ledger \<Rightarrow> ('p \<times> ledger \<times> int res) option"
where
  "catch_up S process p l =
     (case process_past_cursor S process CAMPD_CURSOR p l of
        None \<Rightarrow> None
      | Some (p', l', Inl e) \<Rightarrow> Some (p', l', Inl e)
      | Some (p', l', Inr c) \<Rightarrow>
          if c = cursor CAMPD_CURSOR l then Some (p', l', Inr c) else catch_up S process p' l')"

section \<open>The settle loop\<close>

type_synonym ('d, 'o) campd_world = "('d, 'o) campd \<times> ledger \<times> run_disk"

definition vanished_order :: "'j value_ops \<Rightarrow> PendingCook \<Rightarrow> 'j event_input" where
  "vanished_order J c =
     \<lparr>in_kind = OrderFailed, in_rig = None, in_actor = ''campd'', in_bead = None,
      in_data = jv_object J [(''order'', jv_string J (pk_order c)), (''fired_seq'', jv_int J (pk_fired_seq c)),
        (''error'', jv_string J ''order no longer configured at cook time'')]\<rparr>"

definition run_cook ::
    "('r, 'v, 'j, 'o) campd_env \<Rightarrow> PendingCook \<Rightarrow> ('d, 'o) campd_world \<Rightarrow> (('d, 'o) campd_world \<times> unit res) option" where
  "run_cook V k s =
     (case s of (c, l, fs) \<Rightarrow>
      case order_named (pk_order k) (cd_runtime c) of
        Some order \<Rightarrow>
          map_option (\<lambda>(st, r). ((c, st), rbind r (\<lambda>_. Inr ())))
            (execute_fire (ve_world V) (ve_jiff V) (ve_serde V) (ve_ops V) (ve_cook V (pk_fired_seq k)) (ve_ji V)
               (ve_fmt V) (ve_fire_now V (pk_fired_seq k)) (ve_fuel V) (om_config (cd_runtime c))
               (om_camp_root (cd_runtime c)) order (pk_fired_seq k) (l, fs))
      | None \<Rightarrow>
          (case append_event (ve_serde V) (ge_clock (ve_graph V) (last_seq l)) (vanished_order (ve_ops V) k) l of
             (l', r) \<Rightarrow> Some ((c, l', fs), rbind r (\<lambda>_. Inr ()))))"

definition requeue_cook :: "PendingCook \<Rightarrow> ('d, 'o) campd_world \<Rightarrow> ('d, 'o) campd_world" where
  "requeue_cook k s = (case s of (c, st) \<Rightarrow> (c\<lparr>cd_runtime := queue_cook k (cd_runtime c)\<rparr>, st))"

partial_function (option) settle ::
    "('r, 'v, 'j, 'o) campd_env \<Rightarrow> ('d, 'o) campd_world \<Rightarrow> (('d, 'o) campd_world \<times> unit res) option"
where
  "settle V s =
     (case s of (c, l, fs) \<Rightarrow>
      case catch_up (ve_serde V) (campd_processor V fs) (Some c) l of
        None \<Rightarrow> None
      | Some (None, _, _) \<Rightarrow> None
      | Some (Some c1, l1, Inl e) \<Rightarrow> Some ((c1, l1, fs), Inl e)
      | Some (Some c1, l1, Inr _) \<Rightarrow>
          let cooks = om_pending_cooks (cd_runtime c1);
              c2 = c1\<lparr>cd_ready := [], cd_runtime := (cd_runtime c1)\<lparr>om_pending_cooks := []\<rparr>\<rparr>
          in if cooks = [] then Some ((c2, l1, fs), Inr ())
             else (case run_queue (run_cook V) requeue_cook cooks (c2, l1, fs) of
                     None \<Rightarrow> None
                   | Some (s', Inl e) \<Rightarrow> Some (s', Inl e)
                   | Some (s', Inr _) \<Rightarrow> settle V s'))"

end
