(* ===== verification/Settling.thy ===== *)
theory Settling
  imports OrdersRuntime
begin

text \<open>
  The settle loop of campd loses no fire: every declared fire is answered in the ledger or waits as a
  pending cook, whatever goes wrong, and when the loop returns every fire is answered.
\<close>

section \<open>Every step extends the log\<close>

lemma append_now_grows: "append_now V inp l = Inr l' \<Longrightarrow> grows (ve_serde V) l l'"
  by (auto simp: append_now_def append_on_def intro: grows_insert)

lemma fire_matches_grows: "fire_matches V seq ns fires l = (fires', Inr l') \<Longrightarrow> grows (ve_serde V) l l'"
proof (induction ns arbitrary: fires l)
  case (Cons name ns)
  then show ?case
    by (auto simp: Let_def split: if_splits sum.splits dest!: append_now_grows intro: grows_trans)
qed simp

lemma process_orders_grows:
  assumes "process_orders V ev rt l = (rt', Inr l')"
  shows "grows (ve_serde V) l l'"
proof -
  obtain l1 ns fires where l1: "rbind (completion_input (ve_ops V) l ev) (\<lambda>inp. case inp of None \<Rightarrow> Inr l | Some i \<Rightarrow> append_now V i l) = Inr l1"
    and "fire_matches V (ev_seq ev) ns fires l1 = (om_fires rt', Inr l')"
    using assms by (auto simp: process_orders_def Let_def split: sum.splits prod.splits)
  moreover have "grows (ve_serde V) l l1"
    using l1 by (auto split: option.splits dest: append_now_grows)
  ultimately show ?thesis using fire_matches_grows grows_trans by blast
qed

lemma process_orders_pending:
  assumes "process_orders V ev rt l = (rt', r)"
  shows "set (om_pending_cooks rt) \<subseteq> set (om_pending_cooks rt') \<and>
    (\<forall>l'. r = Inr l' \<longrightarrow> (\<exists>k. pending_cook_from_fired (ve_ops V) ev = Inr k \<and> set_option k \<subseteq> set (om_pending_cooks rt')))"
  using assms by (auto simp: process_orders_def Let_def queue_cook_def split: sum.splits prod.splits option.splits)

lemma process_event_grows:
  assumes "process_event V fs ev c l = Some (c', Inr l')"
  shows "grows (ve_serde V) l l'"
proof -
  obtain rt l1 g r where o: "process_orders V ev (cd_runtime c) l = (rt, Inr l1)"
    and gr: "process_graph ((with_disk (ve_graph V) fs)\<lparr>ge_now := ge_clock (ve_graph V) (last_seq l1)\<rparr>) ev (cd_graph c) l1 = Some (g, Inr l')"
    using assms by (auto simp: process_event_def Let_def split: sum.splits prod.splits)
  have "grows (ve_serde V) l1 l'"
    using process_graph_grows gr unfolding result_grows_def by (fastforce simp: with_disk_def ve_serde_def)
  then show ?thesis using process_orders_grows [OF o] grows_trans by blast
qed

lemma process_event_pending:
  assumes "process_event V fs ev c l = Some (c', r)"
  shows "set (om_pending_cooks (cd_runtime c)) \<subseteq> set (om_pending_cooks (cd_runtime c')) \<and>
    (\<forall>l'. r = Inr l' \<longrightarrow> (\<exists>k. pending_cook_from_fired (ve_ops V) ev = Inr k \<and>
       set_option k \<subseteq> set (om_pending_cooks (cd_runtime c'))))"
proof -
  obtain rt ro where o: "process_orders V ev (cd_runtime c) l = (rt, ro)" by fastforce
  show ?thesis
    using assms process_orders_pending [OF o]
    by (auto simp: process_event_def Let_def o split: sum.splits)
qed

section \<open>A cook of a fire answers it\<close>

lemma answered_grows:
  "grows S0 l l' \<Longrightarrow> fire_answered S J ji l name seq \<Longrightarrow> fire_answered S J ji l' name seq"
  by (auto simp: grows_def fire_answered_def)

lemma taken_grows:
  "grows S0 l l' \<Longrightarrow> fire_taken S J ji l name seq \<Longrightarrow> fire_taken S J ji l' name seq"
  by (auto simp: grows_def fire_taken_def)

lemma cook_with_grows:
  assumes "cook_with W jiff S J E formula run_dir rg actor opts (l, fs) = ((l', fs'), r)"
  shows "grows S l l'"
  using assms cook_with_Inl [of W jiff S J E formula run_dir rg actor opts l fs]
    cook_with_Inr [of W jiff S J E formula run_dir rg actor opts l fs] grows_insert_all
  by (cases r) fastforce+

lemma fail_fire_grows: "fail_fire S J fmt ts order seq error (l, fs) = ((l', fs'), r) \<Longrightarrow> grows S l l'"
  by (auto simp: fail_fire_def split: prod.splits sum.splits dest: grows_event)

lemma refuse_fire_grows: "refuse_fire S J fmt now order seq why (l, fs) = ((l', fs'), r) \<Longrightarrow> grows S l l'"
  by (auto simp: refuse_fire_def split: prod.splits sum.splits dest!: grows_event fail_fire_grows intro: grows_trans)

lemma cook_fire_grows:
  assumes "cook_fire W jiff S J E fmt now cfg camp_root order seq formula (l, fs) = ((l', fs'), r)"
  shows "grows S l l'"
proof (cases "resolve_rig cfg order")
  case (Inl e)
  then show ?thesis using assms fail_fire_grows by (simp add: cook_fire_def) blast
next
  case (Inr rg)
  obtain l1 fs1 r1 where c: "cook_with W jiff S J E formula (path_join camp_root ''runs'') rg (cook_actor (or_name order) seq)
      (default_options\<lparr>co_config := Some cfg\<rparr>) (l, fs) = ((l1, fs1), r1)"
    by (metis surj_pair)
  note one = cook_with_grows [OF c]
  show ?thesis
  proof (cases r1)
    case (Inl e)
    then have "fail_fire S J fmt (now 1) order seq (prefixed ''cook failed: '' [] (display e)) (l1, fs1) = ((l', fs'), r)"
      using assms Inr c by (simp add: cook_fire_def)
    then show ?thesis using one fail_fire_grows grows_trans by blast
  next
    case (Inr run)
    then show ?thesis using assms \<open>resolve_rig cfg order = Inr rg\<close> c one by (simp add: cook_fire_def)
  qed
qed

lemma execute_fire_grows:
  assumes "execute_fire W jiff S J E ji fmt now fuel cfg camp_root order seq (l, fs) = Some ((l', fs'), r)"
  shows "grows S l l'"
proof (cases "fire_response_exists ji l (or_name order) seq")
  case True
  then show ?thesis using assms by (simp add: execute_fire_def)
next
  case False
  show ?thesis
  proof (cases "from_config (wd_disk W) cfg camp_root")
    case (Inl e)
    then show ?thesis using assms False fail_fire_grows by (simp add: execute_fire_def) blast
  next
    case (Inr layers)
    then obtain c where c: "compile_named W layers fuel (or_formula order) [] = Some c"
      using assms False by (auto simp: execute_fire_def)
    then show ?thesis
      using assms False Inr fail_fire_grows refuse_fire_grows cook_fire_grows
      by (cases c) (auto simp: execute_fire_def split: option.splits, blast+)
  qed
qed

lemma run_cook_grows:
  assumes "run_cook V k (c, l, fs) = Some ((c', l', fs'), r)"
  shows "c' = c \<and> grows (ve_serde V) l l'"
proof (cases "order_named (pk_order k) (cd_runtime c)")
  case None
  then show ?thesis using assms grows_event by (auto simp: run_cook_def split: prod.splits)
next
  case (Some order)
  then show ?thesis using assms execute_fire_grows by (fastforce simp: run_cook_def)
qed

definition settle_laws :: "('r, 'v, 'j, 'o) campd_env \<Rightarrow> bool" where
  "settle_laws V \<longleftrightarrow> text_roundtrip (ve_serde V) \<and> extract_law (ve_serde V) (ve_ops V) (ve_ji V) \<and> json_laws (ve_ops V)"

lemma settle_laws_extract:
  assumes "settle_laws V"
  shows "ve_ji V (data_text (ve_serde V) d) f = data_i64 (ve_ops V) d f" and "data_of (ve_serde V) (data_text (ve_serde V) d) = Inr d"
    and "json_laws (ve_ops V)"
  using extracted [of "ve_serde V" "ve_ops V" "ve_ji V"] assms by (simp_all add: settle_laws_def)

lemma vanished_answers:
  assumes "settle_laws V" and "i64_min \<le> pk_fired_seq k" and "pk_fired_seq k \<le> i64_max"
  shows "answers_fire (ve_serde V) (ve_ops V) (ve_ji V) (pk_order k) (pk_fired_seq k)
    (row_of (ve_serde V) (event_of n ts (vanished_order (ve_ops V) k)))"
  using assms(2,3) settle_laws_extract [OF assms(1)]
  by (simp add: answers_fire_def names_order_def row_of_def event_of_def vanished_order_def data_i64_def data_str_def)

lemma order_named_name: "order_named name rt = Some r \<Longrightarrow> or_name r = name"
  by (auto simp: order_named_def find_Some_iff)

text \<open>A cook that returns without an error answers its fire, unless a failure of another order had taken it.\<close>

lemma run_cook_answers:
  assumes laws: "settle_laws V" and range: "i64_min \<le> pk_fired_seq k" "pk_fired_seq k \<le> i64_max"
    and run: "run_cook V k (c, l, fs) = Some ((c', l', fs'), Inr u)"
  shows "fire_answered (ve_serde V) (ve_ops V) (ve_ji V) l' (pk_order k) (pk_fired_seq k) \<or>
    fire_taken (ve_serde V) (ve_ops V) (ve_ji V) l (pk_order k) (pk_fired_seq k) \<and> l' = l"
proof (cases "order_named (pk_order k) (cd_runtime c)")
  case None
  then obtain seq where e: "append_event (ve_serde V) (ge_clock (ve_graph V) (last_seq l)) (vanished_order (ve_ops V) k) l = (l', Inr seq)"
    using run by (auto simp: run_cook_def split: prod.splits)
  note log = append_event_log(1) [OF e, THEN conjunct1]
  show ?thesis by (rule disjI1 [OF answered_last [OF log list.set_intros(1) vanished_answers [OF laws range]]])
next
  case (Some order)
  then obtain run where run: "execute_fire (ve_world V) (ve_jiff V) (ve_serde V) (ve_ops V) (ve_cook V (pk_fired_seq k)) (ve_ji V)
      (ve_fmt V) (ve_fire_now V (pk_fired_seq k)) (ve_fuel V) (om_config (cd_runtime c))
      (om_camp_root (cd_runtime c)) order (pk_fired_seq k) (l, fs) = Some ((l', fs'), Inr run)"
    using assms(4) by (auto simp: run_cook_def)
  have l: "text_roundtrip (ve_serde V)" "extract_law (ve_serde V) (ve_ops V) (ve_ji V)" "json_laws (ve_ops V)"
    using laws by (simp_all add: settle_laws_def)
  show ?thesis
  proof (cases "fire_response_exists (ve_ji V) l (pk_order k) (pk_fired_seq k)")
    case True
    then have "l' = l" using execute_settles [OF l range run] order_named_name [OF Some] by simp
    then show ?thesis using True response_split [of "ve_ji V" l "pk_order k" "pk_fired_seq k"] by blast
  next
    case False
    then have "settled (ve_serde V) (ve_ops V) (ve_ji V) order (pk_fired_seq k) ((l', fs'), Inr run)"
      using execute_settles [OF l range run] order_named_name [OF Some] by simp
    then show ?thesis using order_named_name [OF Some] by (simp add: settled_def)
  qed
qed

section \<open>No fire is lost\<close>

definition pending_of :: "('d, 'o) campd \<Rightarrow> PendingCook set" where
  "pending_of c = set (om_pending_cooks (cd_runtime c))"

text \<open>
  A row that declares a fire: it is answered, or its cook waits, or it is taken: the program took the
  failure of another order, which carries the number of the row, for the answer.
\<close>

definition fire_of_row :: "('r, 'v, 'j, 'o) campd_env \<Rightarrow> event_row \<Rightarrow> PendingCook" where
  "fire_of_row V r =
     \<lparr>pk_order = fired_name (ve_ops V) (row_event (ve_serde V) r), pk_fired_seq = r_seq r\<rparr>"

definition row_answered :: "('r, 'v, 'j, 'o) campd_env \<Rightarrow> ledger \<Rightarrow> event_row \<Rightarrow> bool" where
  "row_answered V l r \<longleftrightarrow> fire_answered (ve_serde V) (ve_ops V) (ve_ji V) l (pk_order (fire_of_row V r)) (r_seq r)"

definition row_taken :: "('r, 'v, 'j, 'o) campd_env \<Rightarrow> ledger \<Rightarrow> event_row \<Rightarrow> bool" where
  "row_taken V l r \<longleftrightarrow> fire_taken (ve_serde V) (ve_ops V) (ve_ji V) l (pk_order (fire_of_row V r)) (r_seq r)"

definition no_fire_lost :: "('r, 'v, 'j, 'o) campd_env \<Rightarrow> PendingCook set \<Rightarrow> ledger \<Rightarrow> bool" where
  "no_fire_lost V pend l \<longleftrightarrow>
     (\<forall>r \<in> set (event_log l). r_type r = as_str OrderFired \<longrightarrow> r_seq r \<le> cursor CAMPD_CURSOR l \<longrightarrow>
        row_answered V l r \<or> fire_of_row V r \<in> pend \<or> row_taken V l r)"

lemma cursor_grows: "grows S l l' \<Longrightarrow> cursor n l' = cursor n l"
  by (simp add: grows_def cursor_def)

lemma grows_last: "grows S l l' \<Longrightarrow> wf_log l \<Longrightarrow> wf_log l' \<and> last_seq l \<le> last_seq l'"
  by (auto simp: grows_def wf_log_def)

lemma grows_nth: "grows S l l' \<Longrightarrow> k < length (event_log l) \<Longrightarrow> event_log l' ! k = event_log l ! k"
  by (auto simp: grows_def nth_append)

text \<open>A row of the longer log that is not past the old end is a row of the old log.\<close>

lemma grows_row:
  assumes "grows S l l'" and "wf_log l" and "r \<in> set (event_log l')" and "r_seq r \<le> last_seq l"
  shows "r \<in> set (event_log l)"
proof -
  obtain k where k: "k < length (event_log l')" "r = event_log l' ! k" using assms(3) by (auto simp: in_set_conv_nth)
  have "wf_log l'" using grows_last [OF assms(1,2)] by simp
  then have "int k + 1 \<le> last_seq l" using wf_log_nth [of l' k] k assms(4) by simp
  then have "k < length (event_log l)" using assms(2) by (simp add: wf_log_def)
  then show ?thesis using grows_nth [OF assms(1)] k by simp
qed

lemma row_answered_grows: "grows S l l' \<Longrightarrow> row_answered V l r \<Longrightarrow> row_answered V l' r"
  unfolding row_answered_def by (rule answered_grows)

lemma row_taken_grows: "grows S l l' \<Longrightarrow> row_taken V l r \<Longrightarrow> row_taken V l' r"
  unfolding row_taken_def by (rule taken_grows)

lemma no_fire_lost_grows:
  assumes "grows S l l'" and "wf_log l" and "cursor CAMPD_CURSOR l \<le> last_seq l"
    and "no_fire_lost V pend l" and "pend \<subseteq> pend'"
  shows "no_fire_lost V pend' l'"
  unfolding no_fire_lost_def
proof (intro ballI impI)
  fix r
  assume r: "r \<in> set (event_log l')" "r_type r = as_str OrderFired" "r_seq r \<le> cursor CAMPD_CURSOR l'"
  then have "r_seq r \<le> cursor CAMPD_CURSOR l" using cursor_grows [OF assms(1)] by simp
  moreover from this have "r \<in> set (event_log l)" using grows_row [OF assms(1,2) r(1)] assms(3) by simp
  ultimately show "row_answered V l' r \<or> fire_of_row V r \<in> pend' \<or> row_taken V l' r"
    using assms(4,5) r(2) row_answered_grows [OF assms(1)] row_taken_grows [OF assms(1)] by (fastforce simp: no_fire_lost_def)
qed

text \<open>The cursor moves over one row: its fire waits.\<close>

lemma no_fire_lost_advance:
  assumes wf: "wf_log l" and "no_fire_lost V pend l" and c: "cursor CAMPD_CURSOR l = c" "0 \<le> c" "c + 1 \<le> last_seq l"
    and "r_type (event_log l ! nat c) = as_str OrderFired \<Longrightarrow> fire_of_row V (event_log l ! nat c) \<in> pend"
  shows "no_fire_lost V pend (set_cursor CAMPD_CURSOR (c + 1) l)"
  unfolding no_fire_lost_def
proof (intro ballI impI)
  fix r
  assume r: "r \<in> set (event_log (set_cursor CAMPD_CURSOR (c + 1) l))" "r_type r = as_str OrderFired"
    "r_seq r \<le> cursor CAMPD_CURSOR (set_cursor CAMPD_CURSOR (c + 1) l)"
  then obtain k where k: "k < length (event_log l)" "r = event_log l ! k" by (auto simp: in_set_conv_nth)
  then have seq: "r_seq r = int k + 1" using wf_log_nth [OF wf] by simp
  have same: "row_answered V (set_cursor CAMPD_CURSOR (c + 1) l) r = row_answered V l r"
    "row_taken V (set_cursor CAMPD_CURSOR (c + 1) l) r = row_taken V l r"
    by (simp_all add: row_answered_def row_taken_def fire_answered_def fire_taken_def)
  show "row_answered V (set_cursor CAMPD_CURSOR (c + 1) l) r \<or> fire_of_row V r \<in> pend \<or>
      row_taken V (set_cursor CAMPD_CURSOR (c + 1) l) r"
  proof (cases "int k + 1 \<le> c")
    case True
    then show ?thesis using assms(2) r(1,2) seq c(1) same by (auto simp: no_fire_lost_def)
  next
    case False
    then have "k = nat c" using r(3) seq by simp
    then show ?thesis using assms(6) k(2) r(2) by blast
  qed
qed

lemma fired_row_waits:
  assumes "row_to_event (ve_serde V) r = Inr ev" and "r_type r = as_str OrderFired"
    and "pending_cook_from_fired (ve_ops V) ev = Inr k" and "set_option k \<subseteq> pend"
  shows "fire_of_row V r \<in> pend"
proof -
  have "ev_kind ev = OrderFired" using row_to_event_Inr [OF assms(1), of OrderFired] assms(2) by simp
  then obtain name where name: "data_str (ve_ops V) (Some (ev_data ev)) ''order'' = Some name"
    "k = Some \<lparr>pk_order = name, pk_fired_seq = ev_seq ev\<rparr>"
    using assms(3) by (auto simp: pending_cook_from_fired_def split: option.splits)
  moreover have "row_event (ve_serde V) r = ev" "ev_seq ev = r_seq r"
    using assms(1) row_to_event_columns [OF assms(1)] by (simp_all add: row_event_def)
  ultimately have "k = Some (fire_of_row V r)" by (simp add: fire_of_row_def fired_name_def)
  then show ?thesis using assms(4) by simp
qed

section \<open>The loop over the log\<close>

definition loop_ok :: "('r, 'v, 'j, 'o) campd_env \<Rightarrow> ('d, 'o) campd option \<Rightarrow> ledger \<Rightarrow> bool" where
  "loop_ok V p l \<longleftrightarrow> wf_log l \<and> 0 \<le> cursor CAMPD_CURSOR l \<and> cursor CAMPD_CURSOR l \<le> last_seq l \<and>
     (\<forall>k. p = Some k \<longrightarrow> no_fire_lost V (pending_of k) l)"

lemma campd_step:
  assumes "campd_processor V fs ev (Some k) l = (p', r)"
  shows "(\<forall>k'. p' = Some k' \<longrightarrow> pending_of k \<subseteq> pending_of k') \<and>
    (\<forall>l'. r = Inr l' \<longrightarrow> grows (ve_serde V) l l' \<and>
       (\<exists>k' x. p' = Some k' \<and> pending_cook_from_fired (ve_ops V) ev = Inr x \<and> set_option x \<subseteq> pending_of k'))"
proof (cases "process_event V fs ev k l")
  case None
  then show ?thesis using assms by (auto simp: campd_processor_def)
next
  case (Some kr)
  obtain k' r' where kr: "kr = (k', r')" by fastforce
  then have "p' = Some k'" "r' = r" using assms Some by (simp_all add: campd_processor_def)
  then show ?thesis
    using process_event_pending [OF Some [unfolded kr]] process_event_grows [of V fs ev k l k'] Some kr
    by (auto simp: pending_of_def)
qed

lemma process_page_keeps:
  assumes "process_page (campd_processor V fs) CAMPD_CURSOR evs c (Some k) l = (p', l', r)"
    and "loop_ok V (Some k) l" and "cursor CAMPD_CURSOR l = c"
    and "map ev_seq evs = [c + 1 .. c + int (length evs)]" and "c + int (length evs) \<le> last_seq l"
    and "\<forall>i < length evs. row_to_event (ve_serde V) (event_log l ! nat (c + int i)) = Inr (evs ! i)"
  shows "loop_ok V p' l' \<and> last_seq l \<le> last_seq l' \<and>
    (\<forall>c'. r = Inr c' \<longrightarrow> c' = cursor CAMPD_CURSOR l' \<and> (\<exists>k'. p' = Some k'))"
  using assms
proof (induction evs arbitrary: c k l)
  case Nil
  then show ?case by auto
next
  case (Cons ev evs)
  note ok = Cons.prems(2) [unfolded loop_ok_def]
  obtain p1 r1 where step: "campd_processor V fs ev (Some k) l = (p1, r1)" by fastforce
  show ?case
  proof (cases r1)
    case (Inl e)
    have "no_fire_lost V (pending_of k1) l" if "p1 = Some k1" for k1
      using no_fire_lost_grows [OF grows_refl] ok campd_step [OF step] that by blast
    then show ?thesis using Cons.prems(1) step Inl ok by (auto simp: loop_ok_def)
  next
    case (Inr l1)
    obtain k1 x where k1: "p1 = Some k1" "pending_of k \<subseteq> pending_of k1" and g: "grows (ve_serde V) l l1"
      and x: "pending_cook_from_fired (ve_ops V) ev = Inr x" "set_option x \<subseteq> pending_of k1"
      using campd_step [OF step] Inr by blast
    have seqs: "ev_seq ev # map ev_seq evs = [c + 1 .. c + 1 + int (length evs)]"
      using Cons.prems(4) by (simp add: algebra_simps)
    then have s: "ev_seq ev = c + 1" and rest: "map ev_seq evs = [c + 1 + 1 .. c + 1 + int (length evs)]"
      by (subst (asm) upto_rec1; simp)+
    have c: "0 \<le> c" "cursor CAMPD_CURSOR l1 = c" using ok Cons.prems(3) cursor_grows [OF g] by simp_all
    have l1: "wf_log l1" "last_seq l \<le> last_seq l1" using grows_last [OF g] ok by simp_all
    have le: "c + 1 + int (length evs) \<le> last_seq l1" using Cons.prems(5) l1(2) by simp
    have len: "nat c + length evs < length (event_log l)"
      using Cons.prems(5) c(1) ok by (simp add: wf_log_def)
    have row: "row_to_event (ve_serde V) (event_log l1 ! nat c) = Inr ev"
      using Cons.prems(6) [rule_format, of 0] grows_nth [OF g, of "nat c"] len by simp
    let ?l1 = "set_cursor CAMPD_CURSOR (c + 1) l1"
    have "no_fire_lost V (pending_of k1) l1"
      using no_fire_lost_grows [OF g] ok k1(2) by blast
    then have "no_fire_lost V (pending_of k1) ?l1"
      by (rule no_fire_lost_advance [OF l1(1)]) (use c le fired_row_waits [OF row _ x] in auto)
    then have ok1: "loop_ok V (Some k1) ?l1"
      using l1 c le by (simp add: loop_ok_def wf_log_def)
    have rows: "\<forall>i < length evs. row_to_event (ve_serde V) (event_log ?l1 ! nat (c + 1 + int i)) = Inr (evs ! i)"
    proof (intro allI impI)
      fix i assume i: "i < length evs"
      have "nat (c + 1 + int i) < length (event_log l)" using i len c(1) by simp
      moreover have "nat (c + int (Suc i)) = nat (c + 1 + int i)" by (simp add: algebra_simps)
      ultimately show "row_to_event (ve_serde V) (event_log ?l1 ! nat (c + 1 + int i)) = Inr (evs ! i)"
        using Cons.prems(6) [rule_format, of "Suc i"] i grows_nth [OF g] by simp
    qed
    have "process_page (campd_processor V fs) CAMPD_CURSOR evs (c + 1) (Some k1) ?l1 = (p', l', r)"
      using Cons.prems(1) step Inr k1(1) s by simp
    from Cons.IH [OF this ok1 _ rest _ rows] show ?thesis using le l1(2) by simp
  qed
qed

text \<open>Whatever the pages are, the log only gets longer.\<close>

definition longer :: "ledger \<Rightarrow> ledger \<Rightarrow> bool" where
  "longer l l' \<longleftrightarrow> (wf_log l \<longrightarrow> wf_log l' \<and> last_seq l \<le> last_seq l')"

lemma longer_refl [simp]: "longer l l"
  by (simp add: longer_def)

lemma longer_trans: "longer l l1 \<Longrightarrow> longer l1 l2 \<Longrightarrow> longer l l2"
  by (auto simp: longer_def)

lemma grows_longer: "grows S l l' \<Longrightarrow> longer l l'"
  using grows_last by (auto simp: longer_def)

lemma longer_cursor [simp]: "longer l (set_cursor n s l') = longer l l'" "longer (set_cursor n s l) l' = longer l l'"
  by (simp_all add: longer_def wf_log_def)

lemma process_page_longer:
  assumes "process_page (campd_processor V fs) name evs c p l = (p', l', r)"
  shows "longer l l'"
  using assms
proof (induction evs arbitrary: c p l)
  case (Cons ev evs)
  obtain p1 r1 where step: "campd_processor V fs ev p l = (p1, r1)" by fastforce
  show ?case
  proof (cases r1)
    case (Inl e)
    then show ?thesis using Cons.prems step by simp
  next
    case (Inr l1)
    then obtain k where k: "p = Some k" using step by (cases p) (auto simp: campd_processor_def)
    have "grows (ve_serde V) l l1" using campd_step [OF step [unfolded k]] Inr by simp
    then have "longer l l1" by (rule grows_longer)
    moreover have "longer (set_cursor name (ev_seq ev) l1) l'"
      by (rule Cons.IH) (use Cons.prems step Inr in simp)
    ultimately show ?thesis by (simp add: longer_trans)
  qed
qed simp

text \<open>The events of a page are the rows after the cursor.\<close>

lemma page_rows:
  assumes "room l" and "0 \<le> c" and "c \<le> last_seq l" and "events_page S (i64_wrap (c + 1)) n l = Inr evs"
  shows "\<forall>i < length evs. row_to_event S (event_log l ! nat (c + int i)) = Inr (evs ! i)"
proof -
  have wrap: "i64_wrap (c + 1) = c + 1"
    using assms(1-3) by (intro i64_wrap_id) (simp_all add: room_def i64_min_def)
  have wf: "wf_log l" using assms(1) by (simp add: room_def)
  have "filter (\<lambda>r. c + 1 \<le> r_seq r) (event_log l) = drop (nat c) (event_log l)"
    using wf_log_filter_past [OF wf, of "nat c"] assms(2) by simp
  then have "mapM (row_to_event S) (take n (drop (nat c) (event_log l))) = Inr evs"
    using assms(4) by (simp add: events_page_def wrap)
  then have "\<forall>i < length evs. row_to_event S (take n (drop (nat c) (event_log l)) ! i) = Inr (evs ! i) \<and>
      i < length (take n (drop (nat c) (event_log l)))"
    unfolding mapM_eq_Inr by simp
  moreover have "nat c \<le> length (event_log l)" "nat (c + int i) = nat c + i" for i
    using assms(2,3) wf by (simp_all add: wf_log_def)
  ultimately show ?thesis by (auto simp: less_diff_conv)
qed

definition from_ok ::
    "('r, 'v, 'j, 'o) campd_env \<Rightarrow> run_disk \<Rightarrow> 'j serde \<Rightarrow> ('j, ('d, 'o) campd option) processor \<Rightarrow> string \<Rightarrow> int \<Rightarrow>
     ('d, 'o) campd option \<Rightarrow> ledger \<Rightarrow> ('d, 'o) campd option \<times> ledger \<times> int res \<Rightarrow> bool" where
  "from_ok V fs S pr name c p l res \<longleftrightarrow>
     (pr = campd_processor V fs \<longrightarrow> S = ve_serde V \<longrightarrow> name = CAMPD_CURSOR \<longrightarrow>
      (case res of (p', l', r) \<Rightarrow>
         longer l l' \<and>
         (room l' \<longrightarrow> loop_ok V p l \<longrightarrow> p \<noteq> None \<longrightarrow> cursor CAMPD_CURSOR l = c \<longrightarrow>
            loop_ok V p' l' \<and>
            (\<forall>c'. r = Inr c' \<longrightarrow> c' = cursor CAMPD_CURSOR l' \<and> c' = last_seq l' \<and> p' \<noteq> None))))"

lemma longer_room: "longer l l' \<Longrightarrow> wf_log l \<Longrightarrow> room l' \<Longrightarrow> room l"
  by (simp add: longer_def room_def)

lemma process_from_keeps:
  assumes "process_from S pr name c p l = Some res"
  shows "from_ok V fs S pr name c p l res"
proof (rule process_from.raw_induct [OF _ assms, where P = "from_ok V fs"])
  fix F S pr name c p l res
  assume IH: "\<And>S pr name c p l res. F S pr name c p l = Some res \<Longrightarrow> from_ok V fs S pr name c p l res"
    and run: "(case events_page S (i64_wrap (c + 1)) CATCH_UP_PAGE_SIZE l of
        Inl e \<Rightarrow> Some (p, l, Inl e)
      | Inr page \<Rightarrow>
          if page = [] then Some (p, l, Inr c)
          else (case process_page pr name page c p l of
                  (p', l', Inl e) \<Rightarrow> Some (p', l', Inl e)
                | (p', l', Inr c') \<Rightarrow> F S pr name c' p' l')) = Some res"
  show "from_ok V fs S pr name c p l res"
    unfolding from_ok_def
  proof (intro impI)
    assume eqs: "pr = campd_processor V fs" "S = ve_serde V" "name = CAMPD_CURSOR"
    show "case res of (p', l', r) \<Rightarrow> longer l l' \<and>
         (room l' \<longrightarrow> loop_ok V p l \<longrightarrow> p \<noteq> None \<longrightarrow> cursor CAMPD_CURSOR l = c \<longrightarrow>
            loop_ok V p' l' \<and>
            (\<forall>c'. r = Inr c' \<longrightarrow> c' = cursor CAMPD_CURSOR l' \<and> c' = last_seq l' \<and> p' \<noteq> None))"
    proof (cases "events_page S (i64_wrap (c + 1)) CATCH_UP_PAGE_SIZE l")
      case (Inl e)
      then show ?thesis using run by auto
    next
      case (Inr page)
      show ?thesis
      proof (cases "page = []")
        case True
        have res: "res = (p, l, Inr c)" using run Inr True by simp
        have "c = last_seq l" if "room l" "loop_ok V p l" "cursor CAMPD_CURSOR l = c"
        proof -
          have "nat (last_seq l - c) = 0"
            using page_seqs [OF that(1) _ _ Inr] that(2,3) True
            by (auto simp: loop_ok_def CATCH_UP_PAGE_SIZE_def min_def split: if_splits)
          then show ?thesis using that(2,3) by (simp add: loop_ok_def)
        qed
        then show ?thesis using res by auto
      next
        case False
        obtain p1 l1 r1 where page: "process_page (campd_processor V fs) CAMPD_CURSOR page c p l = (p1, l1, r1)"
          by (metis prod_cases3)
        note long = process_page_longer [OF page]
        have keeps: "loop_ok V p1 l1 \<and> last_seq l \<le> last_seq l1 \<and>
            (\<forall>c'. r1 = Inr c' \<longrightarrow> c' = cursor CAMPD_CURSOR l1 \<and> (\<exists>k'. p1 = Some k'))"
          if st: "room l1" "loop_ok V p l" "p \<noteq> None" "cursor CAMPD_CURSOR l = c"
        proof -
          obtain k where k: "p = Some k" using st(3) by blast
          have room: "room l" using longer_room [OF long] st(1,2) by (simp add: loop_ok_def)
          have c: "0 \<le> c" "c \<le> last_seq l" using st(2,4) by (simp_all add: loop_ok_def)
          note seqs = page_seqs [OF room c Inr] and rows = page_rows [OF room c Inr]
          show ?thesis
            using process_page_keeps [OF page [unfolded k] st(2) [unfolded k] st(4)] seqs rows eqs(2) by blast
        qed
        show ?thesis
        proof (cases r1)
          case e: (Inl e)
          have res: "res = (p1, l1, Inl e)" using run Inr False eqs page e by simp
          then show ?thesis using long keeps by simp
        next
          case c1: (Inr c1)
          then have "F S pr name c1 p1 l1 = Some res"
            using run Inr False eqs page by simp
          from IH [OF this] obtain p2 l2 r2 where res: "res = (p2, l2, r2)" and long2: "longer l1 l2"
            and next_ok: "room l2 \<Longrightarrow> loop_ok V p1 l1 \<Longrightarrow> p1 \<noteq> None \<Longrightarrow> cursor CAMPD_CURSOR l1 = c1 \<Longrightarrow>
              loop_ok V p2 l2 \<and> (\<forall>c'. r2 = Inr c' \<longrightarrow> c' = cursor CAMPD_CURSOR l2 \<and> c' = last_seq l2 \<and> p2 \<noteq> None)"
            using eqs by (cases res) (auto simp: from_ok_def)
          have "loop_ok V p2 l2 \<and> (\<forall>c'. r2 = Inr c' \<longrightarrow> c' = cursor CAMPD_CURSOR l2 \<and> c' = last_seq l2 \<and> p2 \<noteq> None)"
            if st: "room l2" "loop_ok V p l" "p \<noteq> None" "cursor CAMPD_CURSOR l = c"
          proof -
            have "wf_log l" using st(2) by (simp add: loop_ok_def)
            then have "room l1" using longer_room [OF long2 _ st(1)] long by (simp add: longer_def)
            then show ?thesis using keeps [OF _ st(2-4)] c1 next_ok [OF st(1)] by auto
          qed
          then show ?thesis using res longer_trans [OF long long2] by simp
        qed
      qed
    qed
  qed
qed

lemma catch_up_keeps:
  assumes "catch_up (ve_serde V) (campd_processor V fs) p l = Some (p', l', r)"
  shows "longer l l' \<and> (room l' \<longrightarrow> loop_ok V p l \<longrightarrow> p \<noteq> None \<longrightarrow> loop_ok V p' l' \<and>
    (\<forall>c'. r = Inr c' \<longrightarrow> cursor CAMPD_CURSOR l' = last_seq l' \<and> p' \<noteq> None))"
proof -
  have "S = ve_serde V \<longrightarrow> pr = campd_processor V fs \<longrightarrow>
      (case res of (p', l', r) \<Rightarrow> longer l l' \<and> (room l' \<longrightarrow> loop_ok V p l \<longrightarrow> p \<noteq> None \<longrightarrow> loop_ok V p' l' \<and>
        (\<forall>c'. r = Inr c' \<longrightarrow> cursor CAMPD_CURSOR l' = last_seq l' \<and> p' \<noteq> None)))"
    if "catch_up S pr p l = Some res" for S pr p l res
  proof (rule catch_up.raw_induct [OF _ that, where P = "\<lambda>S pr p l res. S = ve_serde V \<longrightarrow> pr = campd_processor V fs \<longrightarrow>
      (case res of (p', l', r) \<Rightarrow> longer l l' \<and> (room l' \<longrightarrow> loop_ok V p l \<longrightarrow> p \<noteq> None \<longrightarrow> loop_ok V p' l' \<and>
        (\<forall>c'. r = Inr c' \<longrightarrow> cursor CAMPD_CURSOR l' = last_seq l' \<and> p' \<noteq> None)))"])
    fix F S pr p l res
    assume IH: "\<And>S pr p l res. F S pr p l = Some res \<Longrightarrow> S = ve_serde V \<longrightarrow> pr = campd_processor V fs \<longrightarrow>
      (case res of (p', l', r) \<Rightarrow> longer l l' \<and> (room l' \<longrightarrow> loop_ok V p l \<longrightarrow> p \<noteq> None \<longrightarrow> loop_ok V p' l' \<and>
        (\<forall>c'. r = Inr c' \<longrightarrow> cursor CAMPD_CURSOR l' = last_seq l' \<and> p' \<noteq> None)))"
      and run: "(case process_past_cursor S pr CAMPD_CURSOR p l of
        None \<Rightarrow> None
      | Some (p', l', Inl e) \<Rightarrow> Some (p', l', Inl e)
      | Some (p', l', Inr c) \<Rightarrow>
          if c = cursor CAMPD_CURSOR l then Some (p', l', Inr c) else F S pr p' l') = Some res"
    show "S = ve_serde V \<longrightarrow> pr = campd_processor V fs \<longrightarrow>
      (case res of (p', l', r) \<Rightarrow> longer l l' \<and> (room l' \<longrightarrow> loop_ok V p l \<longrightarrow> p \<noteq> None \<longrightarrow> loop_ok V p' l' \<and>
        (\<forall>c'. r = Inr c' \<longrightarrow> cursor CAMPD_CURSOR l' = last_seq l' \<and> p' \<noteq> None)))"
    proof (intro impI)
      assume eqs: "S = ve_serde V" "pr = campd_processor V fs"
      obtain p1 l1 r1 where one: "process_past_cursor S pr CAMPD_CURSOR p l = Some (p1, l1, r1)"
        using run by (cases "process_past_cursor S pr CAMPD_CURSOR p l") auto
      have "from_ok V fs S pr CAMPD_CURSOR (cursor CAMPD_CURSOR l) p l (p1, l1, r1)"
        using one unfolding process_past_cursor_def by (rule process_from_keeps)
      then have long: "longer l l1" and keeps: "room l1 \<Longrightarrow> loop_ok V p l \<Longrightarrow> p \<noteq> None \<Longrightarrow>
          loop_ok V p1 l1 \<and> (\<forall>c'. r1 = Inr c' \<longrightarrow> c' = cursor CAMPD_CURSOR l1 \<and> c' = last_seq l1 \<and> p1 \<noteq> None)"
        using eqs by (auto simp: from_ok_def)
      show "case res of (p', l', r) \<Rightarrow> longer l l' \<and> (room l' \<longrightarrow> loop_ok V p l \<longrightarrow> p \<noteq> None \<longrightarrow> loop_ok V p' l' \<and>
        (\<forall>c'. r = Inr c' \<longrightarrow> cursor CAMPD_CURSOR l' = last_seq l' \<and> p' \<noteq> None))"
      proof (cases "\<exists>c1. r1 = Inr c1 \<and> c1 \<noteq> cursor CAMPD_CURSOR l")
        case False
        then have "res = (p1, l1, r1)" using run one by (cases r1) auto
        then show ?thesis using long keeps by auto
      next
        case True
        then obtain c1 where c1: "r1 = Inr c1" "c1 \<noteq> cursor CAMPD_CURSOR l" by blast
        then have "F S pr p1 l1 = Some res" using run one by simp
        from IH [OF this] obtain p2 l2 r2 where res: "res = (p2, l2, r2)" and long2: "longer l1 l2"
          and next_ok: "room l2 \<Longrightarrow> loop_ok V p1 l1 \<Longrightarrow> p1 \<noteq> None \<Longrightarrow> loop_ok V p2 l2 \<and>
            (\<forall>c'. r2 = Inr c' \<longrightarrow> cursor CAMPD_CURSOR l2 = last_seq l2 \<and> p2 \<noteq> None)"
          using eqs by (cases res) auto
        have "room l1" if "room l2" "loop_ok V p l"
          using longer_room [OF long2 _ that(1)] long that(2) by (simp add: longer_def loop_ok_def)
        then show ?thesis using res longer_trans [OF long long2] keeps next_ok c1 by auto
      qed
    qed
  qed
  from this [OF assms] show ?thesis by simp
qed

section \<open>The cooks\<close>

lemma loop_ok_grows:
  assumes "grows S l l'" and "loop_ok V (Some k) l" and "pending_of k \<subseteq> pending_of k'"
  shows "loop_ok V (Some k') l'"
  using assms grows_last [OF assms(1)] cursor_grows [OF assms(1)] no_fire_lost_grows [OF assms(1)]
  by (auto simp: loop_ok_def)

lemma requeue_all: "pending_of (fst (fold requeue_cook ks s)) = pending_of (fst s) \<union> set ks \<and>
    snd (fold requeue_cook ks s) = snd s"
proof (induction ks arbitrary: s)
  case (Cons k ks)
  obtain c st where "s = (c, st)" by (cases s)
  then have "pending_of (fst (requeue_cook k s)) = insert k (pending_of (fst s)) \<and> snd (requeue_cook k s) = snd s"
    by (auto simp: requeue_cook_def pending_of_def queue_cook_def)
  then show ?case using Cons.IH [of "requeue_cook k s"] by simp
qed simp

lemma run_cooks_grow:
  assumes "run_queue (run_cook V) requeue_cook ks (c, l, fs) = Some ((c', l', fs'), r)"
  shows "grows (ve_serde V) l l'"
  using assms
proof (induction ks arbitrary: c l fs)
  case (Cons k ks)
  obtain c1 l1 fs1 r1 where one: "run_cook V k (c, l, fs) = Some ((c1, l1, fs1), r1)"
    using Cons.prems by (cases "run_cook V k (c, l, fs)") auto
  note g = conjunct2 [OF run_cook_grows [OF one]]
  show ?case
  proof (cases r1)
    case (Inl e)
    then have "snd (fold requeue_cook (k # ks) (c1, l1, fs1)) = (l', fs')"
      using Cons.prems one by simp
    then show ?thesis using requeue_all [of "k # ks" "(c1, l1, fs1)"] g by simp
  next
    case (Inr u)
    then have "run_queue (run_cook V) requeue_cook ks (c1, l1, fs1) = Some ((c', l', fs'), r)"
      using Cons.prems one by simp
    then show ?thesis using Cons.IH g grows_trans by blast
  qed
qed simp

text \<open>
  The invariant between two cooks: the fires up to the cursor are answered, pending again, or among
  the cooks still to run.
\<close>

lemma run_cooks_keep:
  assumes laws: "settle_laws V"
    and "run_queue (run_cook V) requeue_cook ks (c, l, fs) = Some ((c', l', fs'), r)"
    and "wf_log l" and "0 \<le> cursor CAMPD_CURSOR l" and "cursor CAMPD_CURSOR l \<le> last_seq l"
    and "no_fire_lost V (pending_of c \<union> set ks) l"
  shows "loop_ok V (Some c') l'"
  using assms(2-)
proof (induction ks arbitrary: c l fs)
  case Nil
  then show ?case by (simp add: loop_ok_def)
next
  case (Cons k ks)
  obtain c1 l1 fs1 r1 where one: "run_cook V k (c, l, fs) = Some ((c1, l1, fs1), r1)"
    using Cons.prems(1) by (cases "run_cook V k (c, l, fs)") auto
  have c1: "c1 = c" and g: "grows (ve_serde V) l l1" using run_cook_grows [OF one] by simp_all
  have l1: "wf_log l1" "last_seq l \<le> last_seq l1" "cursor CAMPD_CURSOR l1 = cursor CAMPD_CURSOR l"
    using grows_last [OF g] cursor_grows [OF g] Cons.prems(2) by simp_all
  have kept: "no_fire_lost V (pending_of c \<union> set (k # ks)) l1"
    by (rule no_fire_lost_grows [OF g Cons.prems(2,4,5)]) simp
  show ?case
  proof (cases r1)
    case (Inl e)
    then have "(c', l', fs') = fold requeue_cook (k # ks) (c, l1, fs1)"
      using Cons.prems(1) one c1 by simp
    then have "pending_of c' = pending_of c \<union> set (k # ks)" "l' = l1"
      using requeue_all [of "k # ks" "(c, l1, fs1)"] by (metis fst_conv, metis fst_conv snd_conv)
    then show ?thesis using kept l1 Cons.prems(3,4) by (simp add: loop_ok_def)
  next
    case (Inr u)
    have "no_fire_lost V (pending_of c \<union> set ks) l1"
      unfolding no_fire_lost_def
    proof (intro ballI impI)
      fix r
      assume r: "r \<in> set (event_log l1)" "r_type r = as_str OrderFired" "r_seq r \<le> cursor CAMPD_CURSOR l1"
      obtain j where j: "j < length (event_log l1)" "r = event_log l1 ! j" using r(1) by (auto simp: in_set_conv_nth)
      have range: "i64_min \<le> r_seq r" "r_seq r \<le> i64_max"
        using wf_log_nth [OF l1(1) j(1)] j l1(1) by (simp_all add: wf_log_def i64_min_def)
      have "row_answered V l1 r \<or> row_taken V l1 r" if "fire_of_row V r = k"
        using run_cook_answers [OF laws _ _ one [unfolded Inr]] that range
        by (auto simp: row_answered_def row_taken_def fire_of_row_def)
      then show "row_answered V l1 r \<or> fire_of_row V r \<in> pending_of c \<union> set ks \<or> row_taken V l1 r"
        using kept r by (auto simp: no_fire_lost_def)
    qed
    moreover have "run_queue (run_cook V) requeue_cook ks (c, l1, fs1) = Some ((c', l', fs'), r)"
      using Cons.prems(1) one Inr c1 by simp
    ultimately show ?thesis using Cons.IH l1 Cons.prems(3,4) by simp
  qed
qed

section \<open>The settle loop\<close>

definition settle_ok ::
    "('r, 'v, 'j, 'o) campd_env \<Rightarrow> ('d, 'o) campd_world \<Rightarrow> ('d, 'o) campd_world \<times> unit res \<Rightarrow> bool" where
  "settle_ok V s res \<longleftrightarrow>
     (case (s, res) of ((c, l, fs), ((c', l', fs'), r)) \<Rightarrow>
        longer l l' \<and>
        (settle_laws V \<longrightarrow> room l' \<longrightarrow> loop_ok V (Some c) l \<longrightarrow>
           loop_ok V (Some c') l' \<and>
           (r = Inr () \<longrightarrow> om_pending_cooks (cd_runtime c') = [] \<and> cursor CAMPD_CURSOR l' = last_seq l')))"

lemma settle_keeps:
  assumes "settle V s = Some res"
  shows "settle_ok V s res"
proof (rule settle.raw_induct [OF _ assms, where P = settle_ok])
  fix F V s res
  assume IH: "\<And>V s res. F V s = Some res \<Longrightarrow> settle_ok V s res"
    and run: "(case s of (c, l, fs) \<Rightarrow>
      case catch_up (ve_serde V) (campd_processor V fs) (Some c) l of
        None \<Rightarrow> None
      | Some (None, _, _) \<Rightarrow> None
      | Some (Some c1, l1, Inl e) \<Rightarrow> Some ((c1, l1, fs), Inl e)
      | Some (Some c1, l1, Inr _) \<Rightarrow>
          let cooks = om_pending_cooks (cd_runtime c1);
              c2 = c1\<lparr>cd_ready := [], cd_runtime := (cd_runtime c1)\<lparr>om_pending_cooks := []\<rparr>\<rparr>
          in if cooks = [] then Some ((c2, l1, fs), Inr ())
             else (case run_queue (run_cook V) requeue_cook cooks (c2, l1, fs) of
                     None \<Rightarrow> None
                   | Some (s', Inl e) \<Rightarrow> Some (s', Inl e)
                   | Some (s', Inr _) \<Rightarrow> F V s')) = Some res"
  obtain c l fs where s: "s = (c, l, fs)" using prod_cases3 by blast
  obtain c1 l1 r1 where one: "catch_up (ve_serde V) (campd_processor V fs) (Some c) l = Some (Some c1, l1, r1)"
    using run s by (auto split: option.splits prod.splits)
  note keep = catch_up_keeps [OF one]
  let ?cooks = "om_pending_cooks (cd_runtime c1)"
  let ?c2 = "c1\<lparr>cd_ready := [], cd_runtime := (cd_runtime c1)\<lparr>om_pending_cooks := []\<rparr>\<rparr>"
  have none: "pending_of ?c2 = {}" and all: "pending_of c1 = set ?cooks" by (simp_all add: pending_of_def)
  show "settle_ok V s res"
  proof (cases "\<exists>u. r1 = Inr u \<and> ?cooks \<noteq> []")
    case False
    then have "res = (case r1 of Inl e \<Rightarrow> ((c1, l1, fs), Inl e) | Inr _ \<Rightarrow> ((?c2, l1, fs), Inr ()))"
      using run s one by (auto simp: Let_def split: sum.splits)
    moreover have "loop_ok V (Some ?c2) l1" if "loop_ok V (Some c1) l1" "?cooks = []"
      using that none all by (simp add: loop_ok_def)
    ultimately show ?thesis using keep False by (cases r1) (auto simp: settle_ok_def s)
  next
    case True
    then obtain u where u: "r1 = Inr u" and ne: "?cooks \<noteq> []" by blast
    obtain c3 l3 fs3 r3 where cooks: "run_queue (run_cook V) requeue_cook ?cooks (?c2, l1, fs) = Some ((c3, l3, fs3), r3)"
      using run s one u ne by (auto simp: Let_def split: option.splits prod.splits)
    note long = grows_longer [OF run_cooks_grow [OF cooks]]
    have kept: "loop_ok V (Some c3) l3" if "settle_laws V" "loop_ok V (Some c1) l1"
      by (rule run_cooks_keep [OF that(1) cooks]) (use that(2) none all in \<open>auto simp: loop_ok_def\<close>)
    show ?thesis
    proof (cases r3)
      case (Inl e)
      then have "res = ((c3, l3, fs3), Inl e)" using run s one u ne cooks by (simp add: Let_def)
      then show ?thesis
        using keep long longer_trans kept longer_room [OF long]
        by (auto simp: settle_ok_def s) (metis longer_def loop_ok_def)
    next
      case (Inr v)
      then have "F V (c3, l3, fs3) = Some res" using run s one u ne cooks by (simp add: Let_def)
      from IH [OF this] obtain c4 l4 fs4 r4 where res: "res = ((c4, l4, fs4), r4)" and long2: "longer l3 l4"
        and next_ok: "settle_laws V \<Longrightarrow> room l4 \<Longrightarrow> loop_ok V (Some c3) l3 \<Longrightarrow> loop_ok V (Some c4) l4 \<and>
          (r4 = Inr () \<longrightarrow> om_pending_cooks (cd_runtime c4) = [] \<and> cursor CAMPD_CURSOR l4 = last_seq l4)"
        by (cases res) (auto simp: settle_ok_def)
      have long1: "longer l l1" using keep by simp
      have "room l1" if "room l4" "wf_log l"
      proof -
        have "longer l1 l4" using long long2 by (rule longer_trans)
        then show ?thesis using longer_room long1 that by (metis longer_def)
      qed
      then show ?thesis
        using res keep kept next_ok longer_trans [OF long1 longer_trans [OF long long2]]
        by (auto simp: settle_ok_def s loop_ok_def [of V "Some c" l])
    qed
  qed
qed

text \<open>
  C7. The settle loop of campd loses a fire only to a failure that is not its own. Wherever it stops, by
  an error of a processor, of a page or of a cook, each fire declared in the log up to campd's cursor is
  answered, by a run its order cooked for it or by a failure that names both the order and the fire; or
  its cook is queued again; or it is taken: a failure in the log carries the number of the fire and does
  not name its order, and the probe of the program, which does not read the name, passes it for the
  answer. The cursor is still a place in the log. When the loop returns without an error no cook waits:
  every fire declared anywhere in the log is answered, or taken in this way. The lemma
  \<open>spent_budget_takes_the_fire\<close> below shows that campd does write such failures.
\<close>

theorem settle_loses_no_fire:
  assumes "settle_laws V" and "settle V (c, l, fs) = Some ((c', l', fs'), r)" and "room l'"
    and "wf_log l" and "0 \<le> cursor CAMPD_CURSOR l" and "cursor CAMPD_CURSOR l \<le> last_seq l"
    and "no_fire_lost V (pending_of c) l"
  shows "wf_log l' \<and> 0 \<le> cursor CAMPD_CURSOR l' \<and> cursor CAMPD_CURSOR l' \<le> last_seq l' \<and>
    no_fire_lost V (pending_of c') l' \<and>
    (r = Inr () \<longrightarrow> pending_of c' = {} \<and>
       (\<forall>row \<in> set (event_log l'). r_type row = as_str OrderFired \<longrightarrow> row_answered V l' row \<or> row_taken V l' row))"
proof -
  have "settle_ok V (c, l, fs) ((c', l', fs'), r)" using assms(2) by (rule settle_keeps)
  moreover have "loop_ok V (Some c) l" using assms(4-7) by (simp add: loop_ok_def)
  ultimately have ok: "loop_ok V (Some c') l'"
    and finish: "r = Inr () \<longrightarrow> om_pending_cooks (cd_runtime c') = [] \<and> cursor CAMPD_CURSOR l' = last_seq l'"
    using assms(1,3) by (simp_all add: settle_ok_def)
  have idle: "pending_of c' = {}" if "r = Inr ()" using finish that by (simp add: pending_of_def)
  have "row_answered V l' row \<or> row_taken V l' row"
    if r: "r = Inr ()" and row: "row \<in> set (event_log l')" "r_type row = as_str OrderFired" for row
  proof -
    obtain k where k: "k < length (event_log l')" "row = event_log l' ! k" using row(1) by (auto simp: in_set_conv_nth)
    have "wf_log l'" using ok by (simp add: loop_ok_def)
    then have "r_seq row \<le> cursor CAMPD_CURSOR l'" using wf_log_nth [of l' k] k finish r by (simp add: wf_log_def)
    then show ?thesis using ok row idle [OF r] by (simp add: loop_ok_def no_fire_lost_def)
  qed
  then show ?thesis using ok idle by (simp add: loop_ok_def)
qed

section \<open>How a fire is taken\<close>

text \<open>
  An order that fires on events and whose budget is spent answers the event that it does not fire on: its
  failure carries the number of that event. When the event is the fire of another order, that fire is
  taken, and it is not cooked.
\<close>

lemma spent_budget_takes_the_fire:
  assumes laws: "settle_laws V" and range: "i64_min \<le> seq" "seq \<le> i64_max"
    and spent: "fires name = Some FIRE_BUDGET" and other: "name \<noteq> or_name order"
    and run: "fire_matches V seq [name] fires l = (fires', Inr l')"
  shows "fire_taken (ve_serde V) (ve_ops V) (ve_ji V) l' (or_name order) seq \<and>
    execute_fire (ve_world V) (ve_jiff V) (ve_serde V) (ve_ops V) E (ve_ji V) fmt now fuel cfg camp_root order seq (l', fs) =
      Some ((l', fs), Inr None)"
proof -
  obtain k where "insert_and_fold (ve_serde V) (ge_clock (ve_graph V) (last_seq l)) (budget_exhausted (ve_ops V) name seq) l = Inr (l', k)"
    using run spent by (auto simp: Let_def append_now_def append_on_def split: sum.splits)
  then obtain n ts where log: "event_log l' = event_log l @ [row_of (ve_serde V) (event_of n ts (budget_exhausted (ve_ops V) name seq))]"
    by (auto simp: insert_and_fold_Inr)
  have "takes_fire (ve_serde V) (ve_ops V) (ve_ji V) (or_name order) seq
      (row_of (ve_serde V) (event_of n ts (budget_exhausted (ve_ops V) name seq)))"
    using settle_laws_extract [OF laws] range other
    by (simp add: takes_fire_def names_order_def row_of_def event_of_def budget_exhausted_def data_i64_def data_str_def)
  then have "fire_taken (ve_serde V) (ve_ops V) (ve_ji V) l' (or_name order) seq" by (simp add: fire_taken_def log)
  then show ?thesis using taken_fire_is_not_cooked [of "ve_serde V" "ve_ops V" "ve_ji V" "(l', fs)"] by simp
qed

end
