(* ===== verification/Reserving.thy ===== *)
theory Reserving
  imports Drains
begin

text \<open>A drain reserves its members before it cooks anything over them.\<close>

section \<open>The reservation of the members\<close>

abbreviation reserved_by :: "state \<Rightarrow> string \<Rightarrow> string option" where
  "reserved_by st b \<equiv> meta_at st b EXCLUSIVE_DRAIN_RESERVATION"

text \<open>What \<open>serde_json\<close> reads of the payload that the drain writes.\<close>

definition reserve_law :: "'j serde \<Rightarrow> 'j value_ops \<Rightarrow> bool" where
  "reserve_law S J \<longleftrightarrow>
     (\<forall>v. \<exists>p. dec_bead_updated S (jv_object J [(''metadata'', jv_object J [(EXCLUSIVE_DRAIN_RESERVATION, jv_string J v)])]) = Inr p \<and>
        bu_metadata p = [(EXCLUSIVE_DRAIN_RESERVATION, Some v)])"

lemma reserve_step:
  assumes law: "reserve_law S (ge_ops E)"
    and run: "fold_apply S st (event_of seq ts (reserve_input E a m)) = Inr st'"
  shows "reserved_by st' (row_id m) = Some a" and "reserved_by st b = Some h \<Longrightarrow> reserved_by st' b = Some h"
proof -
  let ?ev = "event_of seq ts (reserve_input E a m)"
  have ev: "ev_kind ?ev = BeadUpdated" "ev_bead ?ev = Some (row_id m)"
    by (simp_all add: event_of_def reserve_input_def)
  obtain p where p: "dec_bead_updated S (ev_data ?ev) = Inr p" "bu_metadata p = [(EXCLUSIVE_DRAIN_RESERVATION, Some a)]"
    using law by (auto simp: reserve_law_def event_of_def reserve_input_def)
  then obtain st1 where "write_meta ?ev (row_id m) EXCLUSIVE_DRAIN_RESERVATION a st = Inr st1" "bead_meta st' = bead_meta st1"
    using run ev by (auto simp: fold_apply_def bead_updated_def patch_meta_def)
  then show "reserved_by st' (row_id m) = Some a" using write_meta_at meta_at_same by metis
  show "reserved_by st' b = Some h" if "reserved_by st b = Some h"
    using reservation_step [OF run that] ev p by (simp add: gives_up_def)
qed

lemma reserve_all:
  assumes "reserve_law S (ge_ops E)" and "insert_all S ts (map (reserve_input E a) ms) l = Inr (l', seqs)"
  shows "(\<forall>m \<in> set ms. reserved_by (tables l') (row_id m) = Some a) \<and>
    (\<forall>b h. reserved_by (tables l) b = Some h \<longrightarrow> reserved_by (tables l') b = Some h)"
  using assms(2)
proof (induction ms arbitrary: l seqs)
  case (Cons m ms)
  then obtain l1 k seqs1 where one: "insert_and_fold S ts (reserve_input E a m) l = Inr (l1, k)"
    and rest: "insert_all S ts (map (reserve_input E a) ms) l1 = Inr (l', seqs1)"
    by auto
  then have "fold_apply S (tables l) (event_of (last_seq l + 1) ts (reserve_input E a m)) = Inr (tables l1)"
    by (auto simp: insert_and_fold_Inr)
  note step = reserve_step [OF assms(1) this]
  show ?case using step Cons.IH [OF rest] by simp
qed simp

section \<open>The log of a drain\<close>

lemma insert_all_types: "insert_all S ts inps l = Inr (l', seqs) \<Longrightarrow>
    map (\<lambda>r. (r_type r, r_bead r)) (event_log l') =
      map (\<lambda>r. (r_type r, r_bead r)) (event_log l) @ map (\<lambda>i. (as_str (in_kind i), in_bead i)) inps"
proof (induction inps arbitrary: l seqs)
  case (Cons inp inps)
  then obtain l1 k seqs1 where "insert_and_fold S ts inp l = Inr (l1, k)" "insert_all S ts inps l1 = Inr (l', seqs1)"
    by auto
  then show ?case using Cons.IH by (auto simp: insert_and_fold_Inr row_of_def event_of_def)
qed simp

text \<open>What the log of \<open>l'\<close> has after that of \<open>l\<close>: the types of the events and their beads.\<close>

definition appended :: "ledger \<Rightarrow> ledger \<Rightarrow> (string \<times> string option) list" where
  "appended l l' = map (\<lambda>r. (r_type r, r_bead r)) (drop (length (event_log l)) (event_log l'))"

lemma append_all_log:
  assumes "append_all E inps l = (l', x)"
  shows "case x of Inl _ \<Rightarrow> l' = l | Inr _ \<Rightarrow> appended l l' = map (\<lambda>i. (as_str (in_kind i), in_bead i)) inps"
proof (cases x)
  case (Inl e)
  then show ?thesis using assms by (auto simp: append_all_def append_batch_Inl split: prod.splits sum.splits)
next
  case (Inr u)
  then obtain ts seqs where all: "insert_all (ge_serde E) ts inps l = Inr (l', seqs)"
    using assms by (auto simp: append_all_def append_batch_Inr split: prod.splits sum.splits)
  have "appended l l' = drop (length (event_log l)) (map (\<lambda>r. (r_type r, r_bead r)) (event_log l'))"
    by (simp add: appended_def drop_map)
  then show ?thesis using insert_all_types [OF all] Inr by simp
qed

text \<open>
  C8. A drain with exclusive access reserves before it cooks. When another drain holds one of the
  members, nothing is reserved and nothing is cooked: the disk is as it was, and what the log has
  more is \<open>dispatch.failed\<close> and the close of the losing anchor, or nothing after a storage error.
  Otherwise the items are cooked, if at all, from a ledger in which this drain holds every member.
\<close>

theorem drain_reserves_before_it_cooks:
  assumes law: "reserve_law (ge_serde E) (ge_ops E)" and "dn_member_access spec = Exclusive"
    and run: "reserve_and_scatter W jiff E Es fmt fuel g drain ctx spec anchor_row members (l, fs) = Some ((l', fs'), x)"
  shows "if \<exists>m \<in> set members. \<exists>h. reserved_by (tables l) (row_id m) = Some h \<and> h \<noteq> kd_anchor drain
    then fs' = fs \<and>
      (case x of
         Inl _ \<Rightarrow> l' = l
       | Inr _ \<Rightarrow> appended l l' = [(''dispatch.failed'', Some (kd_anchor drain)), (''bead.closed'', Some (row_id anchor_row))])
    else fs' = fs \<or>
      (\<exists>l1. (\<forall>m \<in> set members. reserved_by (tables l1) (row_id m) = Some (kd_anchor drain)) \<and>
         appended l l1 = map (\<lambda>m. (''bead.updated'', Some (row_id m))) members \<and>
         scatter_members W jiff E Es fmt fuel g drain ctx spec members (l1, fs) = Some ((l', fs'), x))"
proof -
  obtain l1 r where res: "append_all E (map (reserve_input E (kd_anchor drain)) members) l = (l1, r)"
    by fastforce
  show ?thesis
  proof (cases r)
    case (Inl e)
    then have "l1 = l" using append_all_log [OF res] by simp
    then obtain reason where close: "close_drain E ctx anchor_row ''fail'' (Some ''hard_fail'') reason
        [dispatch_failed_input (ge_ops E) (cx_rig ctx) (kd_anchor drain) reason] l = (l', x)" and fs: "fs' = fs"
      using run assms(2) res Inl by (auto simp: reserve_and_scatter_def Let_def split: prod.splits)
    have "case x of Inl _ \<Rightarrow> l' = l
      | Inr _ \<Rightarrow> appended l l' = [(''dispatch.failed'', Some (kd_anchor drain)), (''bead.closed'', Some (row_id anchor_row))]"
      using append_all_log [OF close [unfolded close_drain_def]]
      by (simp add: dispatch_failed_input_def close_anchor_input_def split: sum.splits)
    then show ?thesis using fs by simp
  next
    case (Inr u)
    then obtain ts seqs where all: "insert_all (ge_serde E) ts (map (reserve_input E (kd_anchor drain)) members) l = Inr (l1, seqs)"
      using res by (auto simp: append_all_def append_batch_Inr split: prod.splits sum.splits)
    note held = reserve_all [OF law all]
    then have "\<not> (\<exists>m \<in> set members. \<exists>h. reserved_by (tables l) (row_id m) = Some h \<and> h \<noteq> kd_anchor drain)"
      by fastforce
    moreover have "appended l l1 = map (\<lambda>m. (''bead.updated'', Some (row_id m))) members"
      using append_all_log [OF res] Inr by (simp add: reserve_input_def comp_def)
    moreover have "scatter_members W jiff E Es fmt fuel g drain ctx spec members (l1, fs) = Some ((l', fs'), x)"
      using run assms(2) res Inr by (simp add: reserve_and_scatter_def)
    ultimately show ?thesis using held by auto
  qed
qed

end
