(* ===== verification/DaemonChecks.thy ===== *)
theory DaemonChecks
  imports Settling Reserving FireChecks
begin

text \<open>
  The settle loop of campd on a ledger with one fire, of an order that is configured no more, and a
  drain that finds a member reserved.
\<close>

section \<open>The settle loop\<close>

definition settle_env :: "(unit, unit, jval, unit) campd_env" where
  "settle_env =
     \<lparr>ve_world = demo_world, ve_jiff = (\<lambda>_. Inl []),
      ve_graph = \<lparr>ge_serde = jdemo, ge_ops = jops, ge_null = VBool False, ge_now = ''2026'', ge_clock = (\<lambda>_. ''2026''),
        ge_read = (\<lambda>_. Inl []), ge_manifest = (\<lambda>_. Inl []), ge_recipe = (\<lambda>_. Inl [])\<rparr>,
      ve_cook = (\<lambda>_. demo_env), ve_ji = jextract, ve_fmt = (\<lambda>_. ''error''), ve_fire_now = (\<lambda>_ _. ''2026''),
      ve_ts_text = (\<lambda>_. ''2026''), ve_fuel = 4, ve_observe = (\<lambda>_ x. x)\<rparr>"

definition settle_campd :: "(int, unit) campd" where
  "settle_campd =
     \<lparr>cd_ready = [],
      cd_runtime = \<lparr>om_camp_root = ''/camp'', om_raw = [], om_config = demo_camp, om_orders = [],
        om_heap = heap_new plain_calendar, om_pending_cooks = [], om_fires = Map.empty, om_watch_error = None\<rparr>,
      cd_graph = new_graph ''/camp'' demo_camp, cd_observers = ()\<rparr>"

definition gone_fire :: "jval event" where
  "gone_fire =
     \<lparr>ev_seq = 1, ev_ts = ''2026'', ev_kind = OrderFired, ev_rig = None, ev_actor = ''cli'', ev_bead = None,
      ev_data = VObj [(''order'', VStr ''gone'')]\<rparr>"

definition gone_failed :: "jval event" where
  "gone_failed = event_of 2 ''2026'' (vanished_order jops \<lparr>pk_order = ''gone'', pk_fired_seq = 1\<rparr>)"

definition fired_ledger :: ledger where
  "fired_ledger = new_ledger\<lparr>event_log := [row_of jdemo gone_fire], last_seq := 1\<rparr>"

definition answered_ledger :: ledger where
  "answered_ledger = new_ledger\<lparr>event_log := map (row_of jdemo) [gone_fire, gone_failed], last_seq := 2\<rparr>"

lemma settle_env_simps [simp]: "ve_serde settle_env = jdemo" "ve_ops settle_env = jops"
  by (simp_all add: settle_env_def ve_serde_def ve_ops_def)

lemma settle_env_laws: "settle_laws settle_env"
  using jdemo_roundtrip jdemo_extract jops_laws by (simp add: settle_laws_def) (simp add: settle_env_def)


definition gone_cook :: PendingCook where
  "gone_cook = \<lparr>pk_order = ''gone'', pk_fired_seq = 1\<rparr>"

abbreviation queued_campd :: "(int, unit) campd" where
  "queued_campd \<equiv> settle_campd\<lparr>cd_runtime := queue_cook gone_cook (cd_runtime settle_campd)\<rparr>"

lemma no_orders: "om_orders (cd_runtime settle_campd) = []"
  by (simp add: settle_campd_def)

lemma process_gone:
  assumes "ev_kind ev \<in> {OrderFired, OrderFailed}" and "pending_cook_from_fired jops ev = Inr found"
  shows "campd_processor settle_env fs ev (Some settle_campd) l =
    (Some (case found of None \<Rightarrow> settle_campd
           | Some k \<Rightarrow> settle_campd\<lparr>cd_runtime := queue_cook k (cd_runtime settle_campd)\<rparr>), Inr l)"
proof -
  have "cd_observers settle_campd = ()" by simp
  have orders: "process_orders settle_env ev (cd_runtime settle_campd) l =
      ((case found of None \<Rightarrow> cd_runtime settle_campd | Some k \<Rightarrow> queue_cook k (cd_runtime settle_campd)), Inr l)"
    using assms by (cases found)
      (auto simp: process_orders_def completion_input_def matching_orders_def no_orders queue_cook_def settle_campd_def)
  have graph: "process_graph E ev g l = Some (g, Inr l)" for E :: "jval graph_env" and g
    using assms(1) by (auto simp: process_graph_def finished_def)
  have ready: "readiness_process (tables l) ev rs = Inr rs" for rs
    using assms(1) by (auto simp: readiness_process_def)
  show ?thesis
    by (cases found) (simp_all add: campd_processor_def process_event_def Let_def orders graph ready)
qed

lemma gone_fire_is_queued:
  "campd_processor settle_env fs gone_fire (Some settle_campd) l = (Some queued_campd, Inr l)"
proof -
  have "pending_cook_from_fired jops gone_fire = Inr (Some gone_cook)" by code_simp
  then show ?thesis using process_gone [of gone_fire] by (simp add: gone_fire_def)
qed

lemma gone_failed_is_skipped:
  "campd_processor settle_env fs gone_failed (Some settle_campd) l = (Some settle_campd, Inr l)"
proof -
  have "ev_kind gone_failed = OrderFailed" by (simp add: gone_failed_def event_of_def vanished_order_def)
  moreover from this have "pending_cook_from_fired jops gone_failed = Inr None" by (simp add: pending_cook_from_fired_def)
  ultimately show ?thesis using process_gone [of gone_failed] by simp
qed

lemma row_to_event_jdemo [simp]: "row_to_event jdemo (row_of jdemo ev) = Inr ev"
  by (rule row_to_event_row_of [OF jdemo_roundtrip])

lemma gone_seqs: "ev_seq gone_fire = 1" "ev_seq gone_failed = 2" "r_seq (row_of jdemo ev) = ev_seq ev"
  by (simp_all add: gone_fire_def gone_failed_def event_of_def row_of_def)

text \<open>A catch-up over the one event that is left: a page with it, an empty page, and the check that the cursor stays.\<close>

lemma catch_up_one:
  assumes "cursor CAMPD_CURSOR l = c" and "0 \<le> c" and "c < 5" and "ev_seq ev = c + 1"
    and "event_log l = rows @ [row_of jdemo ev]" and "\<forall>r \<in> set rows. r_seq r \<le> c"
    and "P ev p l = (q, Inr l)"
  shows "catch_up jdemo P p l = Some (q, set_cursor CAMPD_CURSOR (c + 1) l, Inr (c + 1))"
proof -
  let ?l1 = "set_cursor CAMPD_CURSOR (c + 1) l"
  have wrap: "i64_wrap (c + 1) = c + 1" "i64_wrap (2 + c) = 2 + c"
    using assms(2,3) by (auto simp: i64_wrap_def i64_min_def)
  have none: "filter (\<lambda>r. c + 1 \<le> r_seq r) rows = []" "filter (\<lambda>r. 2 + c \<le> r_seq r) rows = []"
    using assms(6) by (auto simp: filter_empty_conv)
  have pages: "events_page jdemo (c + 1) CATCH_UP_PAGE_SIZE l = Inr [ev]"
    "events_page jdemo (2 + c) CATCH_UP_PAGE_SIZE ?l1 = Inr []"
    using none by (simp_all add: events_page_def assms(4,5) gone_seqs CATCH_UP_PAGE_SIZE_def)
  have rest: "process_from jdemo P CAMPD_CURSOR (c + 1) q ?l1 = Some (q, ?l1, Inr (c + 1))"
    by (subst process_from.simps) (simp add: wrap pages)
  have "process_from jdemo P CAMPD_CURSOR c p l = Some (q, ?l1, Inr (c + 1))"
    by (subst process_from.simps) (simp add: wrap pages assms(4,7) rest)
  moreover have "catch_up jdemo P q ?l1 = Some (q, ?l1, Inr (c + 1))"
    by (subst catch_up.simps) (simp add: process_past_cursor_def rest)
  ultimately show ?thesis
    by (subst catch_up.simps) (simp add: process_past_cursor_def assms(1))
qed

lemma cook_of_gone:
  "run_cook settle_env gone_cook (settle_campd, set_cursor CAMPD_CURSOR 1 fired_ledger, fs) =
     Some ((settle_campd, set_cursor CAMPD_CURSOR 1 answered_ledger, fs), Inr ())"
proof -
  have "append_event jdemo ''2026'' (vanished_order jops gone_cook) (set_cursor CAMPD_CURSOR 1 fired_ledger) =
      (set_cursor CAMPD_CURSOR 1 answered_ledger, Inr 2)"
    by code_simp
  then show ?thesis
    by (simp add: run_cook_def order_named_def no_orders settle_env_def ve_serde_def ve_ops_def)
qed

lemma settle_answers_gone:
  "settle settle_env (settle_campd, fired_ledger, fs) = Some ((settle_campd, set_cursor CAMPD_CURSOR 2 answered_ledger, fs), Inr ())"
proof -
  let ?P = "campd_processor settle_env fs"
  have start: "cursor CAMPD_CURSOR fired_ledger = 0" "event_log fired_ledger = [] @ [row_of jdemo gone_fire]"
    by (simp_all add: fired_ledger_def new_ledger_def cursor_def sql_find_def)
  have answered: "cursor CAMPD_CURSOR (set_cursor CAMPD_CURSOR 1 answered_ledger) = 1"
    "event_log (set_cursor CAMPD_CURSOR 1 answered_ledger) = [row_of jdemo gone_fire] @ [row_of jdemo gone_failed]"
    by (simp_all add: answered_ledger_def)
  have twice: "set_cursor CAMPD_CURSOR 2 (set_cursor CAMPD_CURSOR 1 answered_ledger) = set_cursor CAMPD_CURSOR 2 answered_ledger"
    by (simp add: set_cursor_def sql_upsert_def sql_find_def answered_ledger_def new_ledger_def)
  have one: "catch_up jdemo ?P (Some settle_campd) fired_ledger =
      Some (Some queued_campd, set_cursor CAMPD_CURSOR 1 fired_ledger, Inr 1)"
    using catch_up_one [where P = ?P, OF start(1) _ _ _ start(2) _ gone_fire_is_queued [of fs]] by (simp add: gone_seqs)
  have two: "catch_up jdemo ?P (Some settle_campd) (set_cursor CAMPD_CURSOR 1 answered_ledger) =
      Some (Some settle_campd, set_cursor CAMPD_CURSOR 2 answered_ledger, Inr 2)"
    using catch_up_one [where P = ?P, OF answered(1) _ _ _ answered(2) _ gone_failed_is_skipped [of fs]] twice by (simp add: gone_seqs)
  have idle: "settle_campd\<lparr>cd_ready := [], cd_runtime := (cd_runtime settle_campd)\<lparr>om_pending_cooks := []\<rparr>\<rparr> = settle_campd"
    "om_pending_cooks (cd_runtime settle_campd) = []"
    by (simp_all add: settle_campd_def)
  have last: "settle settle_env (settle_campd, set_cursor CAMPD_CURSOR 1 answered_ledger, fs) =
      Some ((settle_campd, set_cursor CAMPD_CURSOR 2 answered_ledger, fs), Inr ())"
    by (subst settle.simps) (simp add: two idle)
  have taken: "queued_campd\<lparr>cd_ready := [], cd_runtime := (cd_runtime queued_campd)\<lparr>om_pending_cooks := []\<rparr>\<rparr> = settle_campd"
    "om_pending_cooks (cd_runtime queued_campd) = [gone_cook]"
    by (simp_all add: settle_campd_def queue_cook_def)
  then show ?thesis
    by (subst settle.simps) (simp add: one cook_of_gone last Let_def taken del: campd.update_convs)
qed

theorem settle_loses_no_fire_witness:
  "\<exists>l'. settle settle_env (settle_campd, fired_ledger, Map.empty) = Some ((settle_campd, l', Map.empty), Inr ()) \<and>
     map r_type (event_log l') = [''order.fired'', ''order.failed''] \<and>
     (\<forall>row \<in> set (event_log l'). r_type row = as_str OrderFired \<longrightarrow> row_answered settle_env l' row \<or> row_taken settle_env l' row)"
proof -
  let ?l' = "set_cursor CAMPD_CURSOR 2 answered_ledger"
  have logs: "room ?l'" "wf_log fired_ledger" "cursor CAMPD_CURSOR fired_ledger = 0" "0 \<le> last_seq fired_ledger"
    "no_fire_lost settle_env (pending_of settle_campd) fired_ledger"
    by (simp_all add: room_def wf_log_def fired_ledger_def answered_ledger_def new_ledger_def gone_seqs cursor_def
        i64_max_def upt_rec no_fire_lost_def sql_find_def)
  have ends: "pending_of settle_campd = {} \<and>
      (\<forall>row \<in> set (event_log ?l'). r_type row = as_str OrderFired \<longrightarrow> row_answered settle_env ?l' row \<or> row_taken settle_env ?l' row)"
  proof -
    have "0 \<le> cursor CAMPD_CURSOR fired_ledger" "cursor CAMPD_CURSOR fired_ledger \<le> last_seq fired_ledger"
      using logs(3,4) by simp_all
    from settle_loses_no_fire [OF settle_env_laws settle_answers_gone logs(1,2) this logs(5)]
    show ?thesis by (elim conjE) (erule mp, rule refl)
  qed
  have "map r_type (event_log ?l') = [''order.fired'', ''order.failed'']"
    by (simp add: answered_ledger_def row_of_def gone_fire_def gone_failed_def event_of_def vanished_order_def)
  then show ?thesis using settle_answers_gone [of Map.empty] ends [THEN conjunct2] by (intro exI conjI)
qed

section \<open>A drain that finds its member reserved\<close>

definition jupdated :: "jval \<Rightarrow> string + BeadUpdated" where
  "jupdated d = (case jv_get jops d ''metadata'' of
     Some (VObj kvs) \<Rightarrow> Inr \<lparr>bu_title = None, bu_description = None, bu_metadata = map (\<lambda>(k, v). (k, jv_str jops v)) kvs\<rparr>
   | _ \<Rightarrow> Inl ''missing field metadata'')"

definition drain_env :: "jval graph_env" where
  "drain_env =
     \<lparr>ge_serde = jdemo\<lparr>dec_bead_updated := jupdated,
        dec_dispatch_failed := (\<lambda>d. case jfield d ''reason'' of None \<Rightarrow> Inl [] | Some r \<Rightarrow> Inr \<lparr>df_reason = r\<rparr>)\<rparr>,
      ge_ops = jops, ge_null = VBool False, ge_now = ''2026'', ge_clock = (\<lambda>_. ''2026''),
      ge_read = (\<lambda>_. Inl []), ge_manifest = (\<lambda>_. Inl []), ge_recipe = (\<lambda>_. Inl [])\<rparr>"

lemma drain_env_law: "reserve_law (ge_serde drain_env) (ge_ops drain_env)"
  by (simp add: reserve_law_def drain_env_def jupdated_def jops_def)

definition drain_row :: "string \<Rightarrow> BeadRow" where
  "drain_row i =
     \<lparr>row_id = i, row_rig = ''gc'', row_kind = ''task'', row_title = ''T'', row_status = Open, row_assignee = None,
      row_claimed_by = None, row_outcome = None, row_work_outcome = None, row_dispatch_failure = None, row_labels = [],
      row_created_ts = ''2026'', row_updated_ts = ''2026''\<rparr>"

definition drain_create :: "string \<Rightarrow> jval event_input" where
  "drain_create i =
     \<lparr>in_kind = BeadCreated, in_rig = Some ''gc'', in_actor = ''cli'', in_bead = Some i, in_data = VObj [(''title'', VStr ''T'')]\<rparr>"

text \<open>Two anchors and two members; the drain of \<open>gc-9\<close> holds the second member.\<close>

definition held_ledger :: ledger where
  "held_ledger = fst (append_batch (ge_serde drain_env) ''2026''
     (map drain_create [''gc-1'', ''gc-2'', ''gc-3'', ''gc-9''] @ [reserve_input drain_env ''gc-9'' (drain_row ''gc-3'')]) new_ledger)"

definition drain_ctx :: RunContext where
  "drain_ctx =
     \<lparr>cx_run_id = ''r'', cx_rig = ''gc'', cx_root = ''gc-1'',
      cx_formula = \<lparr>fm_name = ''d'', fm_description = None, fm_requires = None, fm_vars = [], fm_steps = [], fm_source = []\<rparr>,
      cx_anchors = []\<rparr>"

definition drain_run :: "((ledger \<times> run_disk) \<times> unit res) option" where
  "drain_run = reserve_and_scatter demo_world (\<lambda>_. Inl []) drain_env (\<lambda>_. demo_env) (\<lambda>_. ''error'') 4
     (new_graph ''/camp'' demo_camp) \<lparr>kd_run_id = ''r'', kd_step_id = ''d'', kd_anchor = ''gc-1''\<rparr> drain_ctx
     \<lparr>dn_context = Separate, dn_formula = ''f'', dn_member_access = Exclusive, dn_on_item_failure = Continue,
      dn_item = \<lparr>di_single_lane = False\<rparr>\<rparr>
     (drain_row ''gc-1'') [drain_row ''gc-2'', drain_row ''gc-3''] (held_ledger, Map.empty)"

definition refused_batch :: "ledger \<times> unit res" where
  "refused_batch = append_all drain_env (map (reserve_input drain_env ''gc-1'') [drain_row ''gc-2'', drain_row ''gc-3'']) held_ledger"

definition losing_close :: "ledger \<times> unit res" where
  "losing_close = close_drain drain_env drain_ctx (drain_row ''gc-1'') ''fail'' (Some ''hard_fail'') ''error''
     [dispatch_failed_input jops ''gc'' ''gc-1'' ''error''] held_ledger"

lemma drain_facts:
  "reserved_by (tables held_ledger) ''gc-3'' = Some ''gc-9''"
  "(case refused_batch of (_, Inl _) \<Rightarrow> True | _ \<Rightarrow> False)"
  "(case losing_close of (_, Inl _) \<Rightarrow> False | _ \<Rightarrow> True)"
  by code_simp+

lemma drain_runs: "drain_run = Some ((fst losing_close, Map.empty), Inr ())"
proof -
  obtain l1 e where e: "refused_batch = (l1, Inl e)" using drain_facts(2) by (auto split: prod.splits sum.splits)
  then have r: "refused_batch = (held_ledger, Inl e)"
    using append_all_log [of drain_env _ held_ledger l1 "Inl e"] unfolding refused_batch_def by simp
  obtain l' where "losing_close = (l', Inr ())"
    using drain_facts(3) by (auto split: prod.splits sum.splits)
  moreover have "ge_ops drain_env = jops" "cx_rig drain_ctx = ''gc''" by (simp_all add: drain_env_def drain_ctx_def)
  ultimately show ?thesis
    using r by (simp add: drain_run_def reserve_and_scatter_def refused_batch_def losing_close_def Let_def del: list.map)
qed

theorem drain_reserves_witness:
  "drain_run = Some ((fst losing_close, Map.empty), Inr ()) \<and>
   appended held_ledger (fst losing_close) = [(''dispatch.failed'', Some ''gc-1''), (''bead.closed'', Some ''gc-1'')]"
proof -
  have "\<exists>m \<in> set [drain_row ''gc-2'', drain_row ''gc-3'']. \<exists>h. reserved_by (tables held_ledger) (row_id m) = Some h \<and> h \<noteq> ''gc-1''"
    using drain_facts(1) by (simp add: drain_row_def)
  then show ?thesis
    using drain_reserves_before_it_cooks [OF drain_env_law _ drain_runs [unfolded drain_run_def]] drain_runs
    by (simp add: drain_row_def)
qed

text \<open>
  A drain that fails after it has cooked an item releases every member, the one that the open item
  run works on included: another drain can take it.
\<close>

definition half_scattered :: ledger where
  "half_scattered = fst (append_batch (ge_serde drain_env) ''2026''
     (map drain_create [''gc-1'', ''gc-2''] @ [reserve_input drain_env ''gc-1'' (drain_row ''gc-2''),
        (drain_create ''gc-3'')\<lparr>in_data := VObj [(''title'', VStr ''T''), (''labels'', VArr [VStr ''drain:gc-1:0''])]\<rparr>]) new_ledger)"

lemma failed_drain_frees_worked_member:
  "reserved_by (tables half_scattered) ''gc-2'' = Some ''gc-1''"
  "(case drain_failure drain_env \<lparr>kd_run_id = ''r'', kd_step_id = ''d'', kd_anchor = ''gc-1''\<rparr> drain_ctx ''error'' half_scattered of
      (l', Inr _) \<Rightarrow> reserved_by (tables l') ''gc-2'' = None \<and> bead_status (tables l') ''gc-3'' = Some Open
    | _ \<Rightarrow> False)"
  by code_simp+

end
