(* ===== verification/Spec2Isabelle.thy ===== *)
theory Spec2Isabelle
  imports Progress CronHeap Patrol RunChecks OrderChecks FireChecks DaemonChecks
begin

text \<open>
  camp (\<^verbatim>\<open>src/crates\<close>) keeps a town of coding agents at work. Work items are beads; everything
  that happens is an event in an append-only ledger, an SQLite file; and the tables that the
  program queries are a fold of that log. campd, the daemon, dispatches ready beads to agent
  sessions, patrols them for silence, and fires orders on a schedule; formulas describe runs of
  several steps. This development models the core library, \<^verbatim>\<open>crates/camp-core/src\<close>: the log, the
  fold, the queries, formulas from TOML table to cooked run, and orders; and of the daemon,
  \<^verbatim>\<open>crates/camp/src/daemon\<close>, the runtimes that react to the log: \<^verbatim>\<open>GraphRuntime\<close> of
  \<^verbatim>\<open>dispatch.rs\<close>, \<^verbatim>\<open>orders.rs\<close> and \<^verbatim>\<open>cursor.rs\<close>. Statements and proofs are about these definitions.

  \<^bold>\<open>The parts and how they interact.\<close> A caller hands an event to \<open>append\<close> (\<^verbatim>\<open>ledger/mod.rs\<close>);
  inside one transaction the row is inserted and folded into the tables by \<open>fold::apply\<close>
  (\<^verbatim>\<open>ledger/fold.rs\<close>), which refuses what would break the tables. Readers query the tables
  (\<^verbatim>\<open>readiness.rs\<close>, \<^verbatim>\<open>mail.rs\<close>, the registry in \<^verbatim>\<open>ledger/mod.rs\<close>) or page through the log behind
  a cursor. \<open>camp doctor --refold\<close> replays the log and compares (\<^verbatim>\<open>ledger/refold.rs\<close>). A formula is
  found in the layers of packs, walked, composed, validated and cooked into a run: a directory with
  the pinned recipe and a batch of beads. campd reads the log behind its cursor and runs a processor
  over each event, in one transaction with the cursor: it computes what a close makes ready, which
  orders an event fires, and, over the graph of a run, which anchors to claim, which attempts to
  start, and when the run is finished (\<^verbatim>\<open>formula/runtime.rs\<close>). What may not happen inside the
  transaction (check scripts, cooks, drains, fan-outs) waits in queues that the settle loop runs
  afterwards, until nothing is left. The timers say which order is due (\<^verbatim>\<open>orders/cron.rs\<close>) and which
  worker is silent (\<^verbatim>\<open>patrol\<close>).

  \<^bold>\<open>Theories.\<close>
  \<^item> \<open>Prelude\<close>: \<open>CoreError\<close> (\<^verbatim>\<open>error.rs\<close>), results, the string and integer functions of the Rust
    standard library the code uses, a table with a key as a locale, interpreted for each table.
  \<^item> \<open>Vocab\<close>: event types and closed vocabularies (\<^verbatim>\<open>event.rs\<close>, \<^verbatim>\<open>vocab.rs\<close>).
  \<^item> \<open>Schema\<close>: the tables as lists of records under their keys, foreign keys and CHECKs
    (\<^verbatim>\<open>ledger/schema.rs\<close>). \<open>Ids\<close>: bead ids and counters (\<^verbatim>\<open>id.rs\<close>), with the wrap of \<open>i64\<close>.
  \<^item> \<open>Payloads\<close>: events and payload structs, one record each; \<open>serde_json\<close> is the parameter \<open>serde\<close>.
  \<^item> \<open>FoldBeads\<close>, \<open>FoldSessions\<close>, \<open>FoldAudit\<close>, \<open>Fold\<close>: every handler of \<^verbatim>\<open>ledger/fold.rs\<close>, with
    its checks in the order of the code, and their dispatch \<open>fold_apply\<close>.
  \<^item> \<open>Lifecycle\<close>: the bead as an abstract state machine, and that the handlers implement it.
    \<open>Invariants\<close>: the invariant of the tables, kept by every handler.
  \<^item> \<open>Ledger\<close>, \<open>Registry\<close>, \<open>Consumers\<close>: appends and reads, sessions and permissions, cursors and the
    catch-up loop (\<^verbatim>\<open>ledger/mod.rs\<close>). \<open>Refold\<close>: replay, drift, repair (\<^verbatim>\<open>ledger/refold.rs\<close>).
  \<^item> \<open>Readiness\<close>, \<open>Mail\<close>, \<open>Promptsafe\<close>: the queries, mail, and the sanitizer of prompt text.
  \<^item> \<open>Formulas\<close>, \<open>Validate\<close>: the syntax of formulas and drains, the rules over it with the search
    for cycles, and assembly (\<^verbatim>\<open>formula/ast.rs\<close>, \<^verbatim>\<open>formula/drain.rs\<close>, \<^verbatim>\<open>formula/validate.rs\<close>).
    \<open>Keys\<close>, \<open>Walk\<close>: the key table and the walk of a TOML table (\<^verbatim>\<open>formula/keys.rs\<close>, \<^verbatim>\<open>parse.rs\<close>).
  \<^item> \<open>Paths\<close>, \<open>Packs\<close>, \<open>Layers\<close>: paths and their containment, agents of packs (\<^verbatim>\<open>pack.rs\<close>), the
    layers a formula is found in (\<^verbatim>\<open>formula/layers.rs\<close>).
  \<^item> \<open>Compose\<close>, \<open>Cooking\<close>: the compile stage, from \<open>extends\<close> to conditions
    (\<^verbatim>\<open>formula/compose.rs\<close>), and the cook (\<^verbatim>\<open>formula/cook.rs\<close>).
  \<^item> \<open>Json\<close>: what the code reads of a JSON value, \<open>LIKE\<close>. \<open>Runtime\<close>, \<open>Verdict\<close>, \<open>Fanout\<close>,
    \<open>DeadEnd\<close>: a cooked run (\<^verbatim>\<open>formula/runtime.rs\<close>): its pinned structure, attempts and budgets,
    work that can never run; the verdict; members, item runs, reservations and run directories;
    the dead end.
  \<^item> \<open>Sources\<close>, \<open>OrderConfig\<close>, \<open>Orders\<close>: import sources (\<^verbatim>\<open>import/source.rs\<close>), the configuration
    and its layers (\<^verbatim>\<open>config.rs\<close>), the compilation of orders (\<^verbatim>\<open>orders/parse.rs\<close>), their fires
    and completions in the log; \<open>Fires\<close>: the execution of a fire (\<^verbatim>\<open>orders/mod.rs\<close>).
  \<^item> \<open>Cron\<close>, \<open>CronHeap\<close>: cron expressions and the timer heap (\<^verbatim>\<open>orders/cron.rs\<close>).
    \<open>Patrol\<close>: the escalation ladder and the stall timers (\<^verbatim>\<open>patrol\<close>).
  \<^item> \<open>Graph\<close>, \<open>Checks\<close>, \<open>Drains\<close>, \<open>Execute\<close>: \<^verbatim>\<open>GraphRuntime\<close> of \<^verbatim>\<open>daemon/dispatch.rs\<close>: the hook
    over one event, check scripts with deadlines and verdicts, scattering and gathering a drain, the
    queues and the reconciliation at startup. \<open>Reserving\<close>: a drain reserves before it cooks.
  \<^item> \<open>OrdersRuntime\<close>: \<^verbatim>\<open>daemon/orders.rs\<close> and \<^verbatim>\<open>daemon/cursor.rs\<close>: hot reload, cron declarations,
    the processor over an event and the settle loop. \<open>Settling\<close>: the loop loses no fire but to a
    failure that does not name its order.
  \<^item> \<open>Demo\<close>, \<open>DemoRuns\<close>, \<open>DemoCamp\<close>, \<open>RunChecks\<close>, \<open>OrderChecks\<close>, \<open>FormulaChecks\<close>, \<open>FireChecks\<close>,
    \<open>DaemonChecks\<close>: concrete instances and the witnesses on them. \<open>Effects\<close>, \<open>Progress\<close> and this
    theory: the properties that span components.

  \<^bold>\<open>Reading the model.\<close> A Rust \<open>Result\<close> is a sum with the error on the left, a SQL table a list of
  rows in insertion order, a transaction a function from ledger to ledger that keeps the old one
  on an error. Integers that the code keeps at 64 bits are \<open>int\<close> with the wrap written out where
  the code adds; timestamps are text in the log and nanoseconds in the timers. \<open>None\<close> as the result
  of a function whose Rust body returns no \<open>Option\<close> is a panic or, for \<open>partial_function\<close>, no return.
  The error text is its format and arguments, without the layout.

  \<^bold>\<open>What the groups of lemmas show.\<close> The table locale gives lookup after insert and update once for
  every table. Each handler has a lemma for what it accepts and what it leaves
  (\<^verbatim>\<open>..._Inr\<close>), one for the machine (\<^verbatim>\<open>..._evolve\<close>) and one for the invariant (\<^verbatim>\<open>..._wf\<close>); the fold
  combines them by cases on the event type. The locale \<open>event_sourced\<close> turns an invariant of the
  fold into one of every replay, and is interpreted for events and for stored rows. Every operation
  of the daemon has a lemma that it only extends the log and leaves the cursors alone
  (\<^verbatim>\<open>..._grows\<close>), from which the loops over the log inherit what holds of each step.

  \<^bold>\<open>Termination and bounds.\<close> The catch-up loop and the settle loop are \<open>partial_function\<close>s, since a
  processor that appends an event per event runs for ever and \<open>None\<close> stands for it; that the catch-up
  loop returns otherwise is a property. The chain of parents of a formula is followed with fuel: a
  formula on the chain is not visited again, so that any fuel above the number of resolvable names
  gives the one result; expansion is bounded by \<open>MAX_EXPANSION_DEPTH\<close> of the code.
  The searches over needs end because each call colours a new node, the sanitizer because each
  pass shortens the text, the cron search within \<open>SEARCH_HORIZON_DAYS\<close>, and the scan for missed
  fires because fires ascend.

  \<^bold>\<open>Parameters.\<close> \<open>serde_json\<close> (\<open>serde\<close>, \<open>value_ops\<close>), SQLite's \<open>json_extract\<close> (\<open>js\<close>), the calendar and
  time zones of \<open>jiff\<close> (\<open>calendar\<close>), \<open>semver\<close>, the TOML library (\<open>toml_lib\<close>), the disk that formulas are
  read from (\<open>disk\<close>, \<open>files\<close>), clock, random numbers and faults of a cook (\<open>cook_env\<close>), clock and
  pinned files of the graph runtime (\<open>graph_env\<close>), processes (\<open>check_os\<close>), all of these for the settle
  loop (\<open>campd_env\<close>), and the text of an error (\<open>fmt\<close>). What the code relies on of
  them is a named hypothesis (\<open>text_roundtrip\<close>, \<open>json_name_law\<close>, \<open>mail_law\<close>, \<open>whole_hour_gaps\<close>, \<open>civil\<close>,
  \<open>close_fields\<close>, \<open>labels_quoted\<close>, \<open>end_payloads\<close>, \<open>order_name_law\<close>, \<open>extract_law\<close>, \<open>json_laws\<close>,
  \<open>reserve_law\<close>), and every property with one has a witness in which it holds.

  \<^bold>\<open>Where the program departs from its documents.\<close> The probe for the answer of a fire
  (\<^verbatim>\<open>fire_response_exists\<close>) does not read the order of a failure, so that the spent budget of one order can
  take the fire of another: the statements about fires say \<open>fire_answered\<close> for an answer that names the
  order and \<open>fire_taken\<close> for the exception. The camp root owns every file below it, imports included:
  \<open>assets_are_contained\<close> speaks of the pack that the code takes for the owner, and \<open>FireChecks\<close> shows an
  import that reads a file of the camp. A cron search over a gap of less than an hour skips a fire, which
  is why \<open>next_after_is_least\<close> asks for whole hours; every zone with the usual gap has them. \<open>FireChecks\<close>
  holds the formulas that compile to what the comments exclude.

  \<^bold>\<open>Not modelled.\<close> Full-text search and \<open>VACUUM INTO\<close> (SQLite), decoding TOML text, clones and
  lock files (\<^verbatim>\<open>import\<close>), \<^verbatim>\<open>export.rs\<close>, and of \<^verbatim>\<open>crates/camp\<close> the commands, which print and talk to
  campd over a socket, the service files, and the rest of campd: epoll, sockets, child processes,
  their pipes and git worktrees around the functions modelled here.
\<close>

section \<open>A concrete ledger\<close>

definition demo_ledger :: ledger where
  "demo_ledger = fst (append_batch demo ''2026''
     [demo_input BeadCreated ''gc-1'' ''one'', demo_input BeadCreated ''gc-2'' ''two|gc-1'',
      demo_input SessionWoke ''gc-1'' ''s|gc-1'', demo_input BeadClaimed ''gc-1'' ''s'']
     new_ledger)"

lemma demo_ledger_reachable: "reachable demo demo_ledger"
  unfolding demo_ledger_def by (intro reachable.batch reachable.start)

lemma demo_ledger_good: "good demo demo_ledger"
  by (rule reachable_good [OF demo_roundtrip demo_ledger_reachable])

lemma demo_ledger_facts:
  "length (event_log demo_ledger) = 4" "last_seq demo_ledger = 4" "cursor ''orders'' demo_ledger = 0"
  by code_simp+

section \<open>The log determines the state\<close>

text \<open>
  C1. The state tables are a function of the log: on every ledger the program reaches, by batches,
  processor transactions, stream offsets and repairs, the refold replays every event without an
  error and reports no drift, the stored rows read back as events, and folding these events over the
  empty state gives exactly the live tables.
\<close>

theorem refold_is_exact:
  assumes "text_roundtrip S" and "reachable S l"
  shows "refold_check S l = Inr \<lparr>events_replayed = length (event_log l), drift = []\<rparr> \<and>
    (\<exists>evs. mapM (row_to_event S) (event_log l) = Inr evs \<and>
       foldM (fold_apply S) empty_state evs = Inr (tables l)) \<and>
    wf_state (tables l)"
proof -
  have "replays S l" using reachable_good [OF assms] by (simp add: good_def)
  then show ?thesis using refold_check_good mapM_rows replays_wf_state by blast
qed

theorem refold_is_exact_witness:
  "refold_check demo demo_ledger = Inr \<lparr>events_replayed = 4, drift = []\<rparr>"
  using refold_is_exact [OF demo_roundtrip demo_ledger_reachable] demo_ledger_facts(1) by simp

text \<open>
  C2. The fold keeps the invariant of the tables: primary and foreign keys, the columns a bead may
  have in each status, counters that cover every id, metadata that never shadows a column, the
  search index as an exact copy of bodies and close reasons, sessions and permissions in one of
  their two phases.
\<close>

theorem fold_keeps_tables_well_formed:
  assumes "wf_state st" and "foldM (fold_apply S) st evs = Inr st'"
  shows "wf_state st'"
  by (rule foldM_fold_apply_wf [OF assms(2,1)])

lemma demo_work_run: "foldM (fold_apply demo) empty_state (demo_creates @ demo_work) = Inr (demo_state demo_work)"
proof -
  have "demo_accepts demo_work" by code_simp
  then show ?thesis by (auto simp: demo_accepts_def demo_state_def split: sum.splits)
qed

theorem fold_keeps_tables_witness: "wf_state (demo_state demo_work)"
  by (rule fold_keeps_tables_well_formed [OF wf_empty demo_work_run])

text \<open>
  C3. An append is all or nothing: a batch either is refused and leaves the ledger as it was, or
  appends one row per input, in order, under the next consecutive sequence numbers, which it
  returns; the log stays contiguous from 1.
\<close>

theorem append_batch_all_or_nothing:
  assumes "wf_log l"
  shows "case append_batch S ts inps l of
      (l', Inl e) \<Rightarrow> l' = l
    | (l', Inr seqs) \<Rightarrow>
        seqs = [last_seq l + 1 .. last_seq l + int (length inps)] \<and>
        event_log l' = event_log l @ map (\<lambda>(seq, inp). row_of S (event_of seq ts inp)) (zip seqs inps) \<and>
        foldM (fold_apply S) (tables l) (map (\<lambda>(seq, inp). event_of seq ts inp) (zip seqs inps)) = Inr (tables l') \<and>
        wf_log l'"
proof (cases "append_batch S ts inps l")
  case (Pair l' r)
  have upto: "map (\<lambda>k. c + int k) [Suc 0..<Suc n] = [c + 1 .. c + int n]" for c n
    by (rule nth_equalityI) (simp_all add: nth_upto del: upt_Suc)
  show ?thesis
  proof (cases r)
    case (Inl e)
    then show ?thesis using Pair append_batch_Inl [of S ts inps l l' e] by simp
  next
    case (Inr seqs)
    then have run: "insert_all S ts inps l = Inr (l', seqs)" using Pair append_batch_Inr by blast
    then show ?thesis
      using Pair Inr insert_all_log [OF run] insert_all_wf_log [OF run assms] insert_all_folds [OF run]
      by (simp add: upto del: upt_Suc)
  qed
qed

theorem append_batch_witness:
  "append_batch demo ''2027'' [demo_input BeadUpdated ''gc-1'' ''k|v'', demo_input BeadUpdated ''gc-9'' ''k|v''] demo_ledger
     = (demo_ledger, Inl (UnknownBead ''gc-9'')) \<and>
   snd (append_batch demo ''2027'' [demo_input BeadUpdated ''gc-1'' ''k|v'', demo_input BeadClosed ''gc-1'' ''pass''] demo_ledger)
     = Inr [5, 6]"
proof -
  have wf: "wf_log demo_ledger" using demo_ledger_good by (simp add: good_def)
  have bad: "snd (append_batch demo ''2027'' [demo_input BeadUpdated ''gc-1'' ''k|v'', demo_input BeadUpdated ''gc-9'' ''k|v''] demo_ledger)
      = Inl (UnknownBead ''gc-9'')" by code_simp
  have ok: "case snd (append_batch demo ''2027'' [demo_input BeadUpdated ''gc-1'' ''k|v'', demo_input BeadClosed ''gc-1'' ''pass''] demo_ledger)
      of Inl _ \<Rightarrow> False | Inr _ \<Rightarrow> True" by code_simp
  have five: "[5 .. 6] = [5, 6 :: int]" by (simp add: upto.simps)
  show ?thesis
    using append_batch_all_or_nothing [OF wf, where S = demo and ts = "''2027''" and inps = "[demo_input BeadUpdated ''gc-1'' ''k|v'', demo_input BeadUpdated ''gc-9'' ''k|v'']"]
      append_batch_all_or_nothing [OF wf, where S = demo and ts = "''2027''" and inps = "[demo_input BeadUpdated ''gc-1'' ''k|v'', demo_input BeadClosed ''gc-1'' ''pass'']"]
      bad ok
    by (auto simp: demo_ledger_facts five split: prod.splits sum.splits)
qed

text \<open>
  C4. The bead handlers implement the bead machine: from the empty tables, every accepted log takes
  the bead at every id along a run of the machine, and one more accepted event takes it at most one
  step further.
\<close>

theorem fold_refines_bead_machine:
  assumes run: "foldM (fold_apply S) empty_state evs = Inr st"
  shows "rtranclp bead_step None (bead_at st i) \<and>
    (\<forall>ev st'. fold_apply S st ev = Inr st' \<longrightarrow>
       bead_at st' i = bead_at st i \<or> bead_step (bead_at st i) (bead_at st' i))"
proof -
  have "rtranclp bead_step None (bead_at st i)"
    by (rule fold_run_invariant [OF run wf_empty, where P = "\<lambda>s. rtranclp bead_step None (bead_at s i)"])
      (simp add: bead_at_def empty_state_def sql_find_def, metis fold_apply_at rtranclp.rtrancl_into_rtrancl)
  then show ?thesis using fold_apply_at [OF foldM_fold_apply_wf [OF run wf_empty]] by blast
qed

theorem fold_refines_bead_witness:
  "rtranclp bead_step None (bead_at (demo_state demo_work) ''gc-1'')"
  using fold_refines_bead_machine [OF demo_work_run] by blast

section \<open>Drift and repair\<close>

lemma reachable_shadow:
  "text_roundtrip S \<Longrightarrow> reachable S l \<Longrightarrow>
   build_shadow S (l\<lparr>tables := st\<rparr>) = Inr (tables l, length (event_log l)) \<and> wf_state (tables l)"
  using reachable_good [of S l] build_shadow_good [of S l] replays_wf_state [of S l] by (simp add: good_def)

text \<open>
  C17. Drift is found exactly: whatever was done to the state tables of a reachable ledger behind the
  log's back, \<open>refold_check\<close> reports no drift if and only if every table still holds, as a set of
  rows, what the fold of the log gives.
\<close>

theorem drift_is_found:
  assumes "text_roundtrip S" and "reachable S l"
  shows "\<exists>r. refold_check S (l\<lparr>tables := st\<rparr>) = Inr r \<and> events_replayed r = length (event_log l) \<and>
    (drift r = [] \<longleftrightarrow> same_rows st (tables l))"
  using reachable_shadow [OF assms, of st] by (simp add: refold_check_def diff_all_Nil)

theorem drift_is_found_witness:
  "\<exists>r. refold_check demo (demo_ledger\<lparr>tables := (tables demo_ledger)\<lparr>sessions := []\<rparr>\<rparr>) = Inr r \<and> drift r \<noteq> []"
proof -
  have "\<not> same_rows ((tables demo_ledger)\<lparr>sessions := []\<rparr>) (tables demo_ledger)" by code_simp
  then show ?thesis
    using drift_is_found [OF demo_roundtrip demo_ledger_reachable, of "(tables demo_ledger)\<lparr>sessions := []\<rparr>"] by auto
qed

text \<open>
  C16. Repair restores the fold: from any content of the state tables, \<open>refold_repair\<close> brings a
  reachable ledger back to exactly the tables its log folds to, changes nothing else, and reports no
  remaining drift.
\<close>

theorem repair_restores_the_fold:
  assumes "text_roundtrip S" and "reachable S l"
  shows "refold_repair S (l\<lparr>tables := st\<rparr>) = (l, Inr \<lparr>events_replayed = length (event_log l), drift = []\<rparr>)"
  using reachable_shadow [OF assms, of st] by (simp add: refold_repair_cases)

theorem repair_restores_witness:
  "fst (refold_repair demo (demo_ledger\<lparr>tables := empty_state\<rparr>)) = demo_ledger"
  using repair_restores_the_fold [OF demo_roundtrip demo_ledger_reachable, of empty_state] by simp

section \<open>Consumers of the log\<close>

text \<open>
  C6. Each event reaches a consumer exactly once and in order: a run of \<open>process_past_cursor\<close> that
  returns has given the processor the events from the one after its cursor to the new cursor, each
  once and ascending, also when the processor appends events of its own or fails; without an error
  the cursor is at the end of the log.
\<close>

theorem process_exactly_once:
  assumes "process_past_cursor S (traced process) name (p, []) l = Some ((p', tr), l', r)"
    and "well_behaved name process" and "wf_log l" and "last_seq l < i64_max"
    and "0 \<le> cursor name l" and "cursor name l \<le> last_seq l"
  shows "tr = [cursor name l + 1 .. cursor name l'] \<and> cursor name l \<le> cursor name l' \<and>
    cursor name l' \<le> last_seq l' \<and>
    (\<forall>c. r = Inr c \<longrightarrow> c = last_seq l' \<and> cursor name l' = last_seq l')"
  using process_past_cursor_stands [OF assms(1,2) _ assms(5,6)] assms(3,4)
  by (auto simp: stands_def room_def)

definition demo_count :: "(string, nat) processor" where
  "demo_count ev p l = (Suc p, Inr l)"

lemma demo_count_quiet: "well_behaved name demo_count" "reads_only name demo_count"
  "reads_only name (traced demo_count)"
  by (auto simp: well_behaved_def reads_only_def demo_count_def traced_def split: prod.splits sum.splits)

lemma demo_room: "wf_log demo_ledger" "last_seq demo_ledger < i64_max" "room demo_ledger"
  using demo_ledger_good by (simp_all add: good_def demo_ledger_facts i64_max_def room_def)

text \<open>
  C15. \<open>process_past_cursor\<close> returns: with a processor that appends nothing the loop over the pages
  ends, from every cursor within the log.
\<close>

theorem process_returns:
  assumes "reads_only name process" and "wf_log l" and "last_seq l < i64_max"
    and "0 \<le> cursor name l" and "cursor name l \<le> last_seq l"
  shows "\<exists>res. process_past_cursor S process name p l = Some res"
  using process_from_ends [OF assms(1) _ refl assms(4,5), of S p] assms(2,3)
  by (simp add: room_def process_past_cursor_def)

theorem process_returns_witness:
  "\<exists>res. process_past_cursor demo (traced demo_count) ''orders'' (0, []) demo_ledger = Some res"
  by (rule process_returns [OF demo_count_quiet(3) demo_room(1,2)]) (simp_all add: demo_ledger_facts)

lemma demo_process:
  "\<exists>p' tr l' r. process_past_cursor demo (traced demo_count) ''orders'' (0, []) demo_ledger = Some ((p', tr), l', r)"
proof -
  have "process_from demo (traced demo_count) ''orders'' (cursor ''orders'' demo_ledger) (0, []) demo_ledger \<noteq> None"
    by (rule process_from_ends [OF demo_count_quiet(3) demo_room(3) refl]) (simp_all add: demo_ledger_facts)
  then show ?thesis unfolding process_past_cursor_def by (metis not_None_eq prod_cases3 surj_pair)
qed

theorem process_exactly_once_witness:
  "\<exists>p' tr l' r. process_past_cursor demo (traced demo_count) ''orders'' (0, []) demo_ledger = Some ((p', tr), l', r) \<and>
     tr = [1 .. cursor ''orders'' l']"
proof -
  obtain p' tr l' r where
    run: "process_past_cursor demo (traced demo_count) ''orders'' (0, []) demo_ledger = Some ((p', tr), l', r)"
    using demo_process by blast
  then show ?thesis
    using process_exactly_once [OF run demo_count_quiet(1) demo_room(1,2)] by (simp add: demo_ledger_facts)
qed

section \<open>The session registry\<close>

lemma session_row_name: "session_row js l s = Inr row \<Longrightarrow> rw_name row = s_name s"
  by (auto simp: session_row_def split: option.splits)

lemma mapM_names: "mapM (session_row js l) ss = Inr rows \<Longrightarrow> map rw_name rows = map s_name ss"
  by (induction ss arbitrary: rows) (auto simp: session_row_name)

text \<open>
  The registry is complete: on a reachable ledger every live session is listed, once and by
  name, and none of them lacks the wake-up its row is joined with, so the error of \<open>live_sessions\<close>
  for a session without one never shows.
\<close>

theorem live_sessions_complete:
  assumes "json_name_law S js" and "text_roundtrip S" and "reachable S l"
  shows "\<exists>rows. live_sessions js l = Inr rows \<and> sorted (map rw_name rows) \<and> distinct (map rw_name rows) \<and>
    set (map rw_name rows) = {n. session_status n l = Some Live}"
proof -
  have good: "good S l" by (rule reachable_good [OF assms(2,3)])
  obtain rows where rows: "live_sessions js l = Inr rows"
    using session_rows_total [OF assms(1,2) good] unfolding live_sessions_def by blast
  let ?live = "filter (\<lambda>s. s_status s = Live) (sessions (tables l))"
  have names: "map rw_name rows = map s_name (sort_key s_name ?live)"
    using rows unfolding live_sessions_def session_rows_def by (rule mapM_names)
  have wf: "wf_state (tables l)" using good by (auto simp: good_def intro: replays_wf_state)
  then have ok: "table_ok s_name (\<lambda>_. True) (sessions (tables l))"
    by (simp add: wf_state_def sessions_ok_def)
  then have "distinct (map s_name (sort_key s_name ?live))"
    by (simp add: table_ok_def distinct_map inj_on_def)
  moreover have "set (map s_name (sort_key s_name ?live)) = {n. session_status n l = Some Live}"
    using session_at_iff [OF ok] by (auto simp: session_status_def)
  ultimately show ?thesis unfolding rows
    by (intro exI [of _ rows] conjI refl) (simp_all only: names sorted_sort_key)
qed

theorem live_sessions_witness: "\<exists>rows. live_sessions demo_js demo_ledger = Inr rows \<and> ''s'' \<in> set (map rw_name rows)"
proof -
  have "session_status ''s'' demo_ledger = Some Live" by code_simp
  then show ?thesis using live_sessions_complete [OF demo_json_name demo_roundtrip demo_ledger_reachable] by auto
qed

lemma parse_i64_le: "parse_i64 s = Some n \<Longrightarrow> n \<le> i64_max"
  by (auto simp: parse_i64_def Let_def split: prod.splits if_splits)

text \<open>
  An allocated session name is new among the sessions of its agent, unless one of them already
  carries the greatest \<open>i64\<close>; and it is new in the registry when no other agent's session is
  named under \<open>camp/agent/\<close>, so that its wake-up is not refused as a repetition.
\<close>

theorem next_session_name_is_fresh:
  assumes room: "\<forall>s \<in> set (sessions (tables l)). s_agent s = agent \<longrightarrow>
      suffix_of (camp @ ''/'' @ agent @ ''/'') (s_name s) \<noteq> Some i64_max"
  shows "(\<forall>s \<in> set (sessions (tables l)). s_agent s = agent \<longrightarrow> s_name s \<noteq> next_session_name camp agent l) \<and>
    ((\<forall>s \<in> set (sessions (tables l)). starts_with (camp @ ''/'' @ agent @ ''/'') (s_name s) \<longrightarrow> s_agent s = agent) \<longrightarrow>
      session_status (next_session_name camp agent l) l = None)"
proof -
  let ?prefix = "camp @ ''/'' @ agent @ ''/''"
  define mine where "mine = map s_name (filter (\<lambda>s. s_agent s = agent) (sessions (tables l)))"
  define m where "m = foldl (\<lambda>m name. case suffix_of ?prefix name of None \<Rightarrow> m | Some n \<Rightarrow> max m n) 0 mine"
  have name: "next_session_name camp agent l = ?prefix @ show_int (i64_wrap (m + 1))"
    unfolding next_session_name_def Let_def suffix_fold m_def mine_def by simp
  have ge: "0 \<le> m" "\<And>n k. n \<in> set mine \<Longrightarrow> suffix_of ?prefix n = Some k \<Longrightarrow> k \<le> m"
    using suffix_fold_ge [of 0 ?prefix mine] unfolding m_def by blast+
  have "n \<le> i64_max - 1" if "x \<in> set mine" "suffix_of ?prefix x = Some n" for x n
  proof -
    have "n \<noteq> i64_max" using room that by (auto simp: mine_def)
    moreover have "n \<le> i64_max"
      using that(2) parse_i64_le by (auto simp: suffix_of_def split: option.splits)
    ultimately show ?thesis by simp
  qed
  then have le: "m \<le> i64_max - 1"
    unfolding m_def by (rule suffix_fold_le) (simp_all add: i64_max_def)
  have name: "next_session_name camp agent l = ?prefix @ show_int (m + 1)"
    using name ge(1) le by (simp add: i64_wrap_id i64_min_def)
  have suf: "suffix_of ?prefix (next_session_name camp agent l) = Some (m + 1)"
    unfolding name by (rule suffix_of_numbered) (use ge(1) le in auto)
  have fresh: "s_name s \<noteq> next_session_name camp agent l"
    if "s \<in> set (sessions (tables l))" "s_agent s = agent" for s
  proof
    assume "s_name s = next_session_name camp agent l"
    then have "next_session_name camp agent l \<in> set mine" using that by (force simp: mine_def)
    then show False using ge(2) [OF _ suf] by simp
  qed
  have "starts_with ?prefix (next_session_name camp agent l)" unfolding name starts_with_iff by blast
  then have "session_status (next_session_name camp agent l) l = None"
    if "\<forall>s \<in> set (sessions (tables l)). starts_with ?prefix (s_name s) \<longrightarrow> s_agent s = agent"
    using that fresh session_at_Some [of "tables l" "next_session_name camp agent l"]
    by (cases "session_at (tables l) (next_session_name camp agent l)") (auto simp: session_status_def)
  then show ?thesis using fresh by blast
qed

theorem next_session_name_witness: "session_status (next_session_name ''camp'' ''dev'' demo_ledger) demo_ledger = None"
proof -
  have "list_all (\<lambda>s. suffix_of ''camp/dev/'' (s_name s) = None \<and> \<not> starts_with ''camp/dev/'' (s_name s))
      (sessions (tables demo_ledger))" by code_simp
  then show ?thesis
    using next_session_name_is_fresh [of demo_ledger "''dev''" "''camp''"] by (auto simp: list_all_iff)
qed

section \<open>Mail\<close>

text \<open>
  Mail arrives: a message sent under a freshly allocated id is accepted, appears in the unread
  list with its sender, its title and its body, and the unread count is the length of that list.
\<close>

theorem mail_is_delivered:
  assumes law: "mail_law S lit" and wf: "wf_state (tables l)" and id: "next_bead_id (tables l) pfx = Inr i"
    and counter: "counter_at (tables l) pfx \<noteq> Some i64_max" and room: "last_seq l \<noteq> i64_max"
  shows "\<exists>l'. append_event S ts (mail_bead_event lit rg subject body from actor i) l = (l', Inr (last_seq l + 1)) \<and>
    \<lparr>ml_id = i, ml_from = from, ml_subject = mail_title subject, ml_body = body, ml_read = False\<rparr>
      \<in> set (unread_human_mail (tables l')) \<and>
    unread_human_mail_count (tables l') = Inr (length (unread_human_mail (tables l')))"
proof -
  obtain n where parse: "parse_bead_id i = Some (pfx, n)" and new: "i \<notin> ids (tables l)"
    by (rule next_bead_id_new [OF wf id counter])
  let ?ev = "event_of (last_seq l + 1) ts (mail_bead_event lit rg subject body from actor i)"
  obtain st' where st': "fold_apply S (tables l) ?ev = Inr st'"
    and msg: "\<lparr>ml_id = i, ml_from = from, ml_subject = mail_title subject, ml_body = body, ml_read = False\<rparr>
      \<in> set (unread_human_mail st')"
    using mail_sent [OF law wf parse new, of ?ev rg subject body "from"]
    by (auto simp: event_of_def mail_bead_event_def)
  then show ?thesis
    using room by (auto simp: append_event_cases insert_and_fold_def Let_def unread_count)
qed

fun dec_mail :: "json_lit \<Rightarrow> string + BeadCreated" where
  "dec_mail (JObj [(_, JStr t), (_, JStr d), (_, JStr ty), (_, JObj [(k1, JStr v1), (k2, JStr v2)])]) = Inr
     \<lparr>bc_title = t, bc_bead_type = ty, bc_description = d, bc_needs = [], bc_labels = [],
      bc_assignee = None, bc_run_id = None, bc_step_id = None, bc_metadata = [(k1, v1), (k2, v2)]\<rparr>"
| "dec_mail _ = Inl []"

definition mail_serde :: "json_lit serde" where
  "mail_serde = no_serde\<lparr>dec_bead_created := dec_mail\<rparr>"

lemma mail_serde_law: "mail_law mail_serde id"
  by (simp add: mail_law_def mail_serde_def no_serde_def mail_data_def mail_payload_def)

theorem mail_is_delivered_witness:
  "\<exists>l'. append_event mail_serde ''2026'' (mail_bead_event id ''gc'' [] ''hello'' ''dev'' ''dev'' ''gc-3'') demo_ledger
      = (l', Inr 5) \<and>
    \<lparr>ml_id = ''gc-3'', ml_from = ''dev'', ml_subject = ''(no subject)'', ml_body = ''hello'', ml_read = False\<rparr>
      \<in> set (unread_human_mail (tables l'))"
proof -
  have wf: "wf_state (tables demo_ledger)"
    using demo_ledger_good by (auto simp: good_def intro: replays_wf_state)
  have facts: "next_bead_id (tables demo_ledger) ''gc'' = Inr ''gc-3''"
    "counter_at (tables demo_ledger) ''gc'' \<noteq> Some i64_max" by code_simp+
  show ?thesis
    using mail_is_delivered [OF mail_serde_law wf facts, of "''2026''" "''gc''" "[]" "''hello''" "''dev''" "''dev''"]
    by (simp add: demo_ledger_facts i64_max_def mail_title_def MAIL_NO_SUBJECT_def) blast
qed

end
